(* ===== verification/Interfaces.thy ===== *)
theory Interfaces
  imports Prelude "HOL-Library.Multiset"
begin

text \<open>
  The interfaces the components share, as locales, with the lemmas every client gets from them:
  hash maps (\<open>std::collections::HashMap\<close>, here association lists with distinct keys), guarded
  state machines (\<open>can_transition\<close> / \<open>transition_to\<close> of the agent and of the controller), and
  sharding (who owns item \<open>i\<close> among \<open>n\<close> agents or endpoints).
\<close>

subsection \<open>Hash maps and hash sets\<close>

type_synonym ('k, 'v) hmap = "('k \<times> 'v) list"

definition hget :: "('k, 'v) hmap \<Rightarrow> 'k \<Rightarrow> 'v option" where "hget m = map_of m"

definition hput :: "'k \<Rightarrow> 'v \<Rightarrow> ('k, 'v) hmap \<Rightarrow> ('k, 'v) hmap" where
  "hput k v m = AList.update k v m"

definition hdel :: "'k \<Rightarrow> ('k, 'v) hmap \<Rightarrow> ('k, 'v) hmap" where
  "hdel k m = AList.delete k m"

definition hkeys :: "('k, 'v) hmap \<Rightarrow> 'k list" where "hkeys m = map fst m"

definition hwf :: "('k, 'v) hmap \<Rightarrow> bool" where "hwf m = distinct (map fst m)"

definition hset_insert :: "'a \<Rightarrow> 'a list \<Rightarrow> 'a list" where
  "hset_insert x xs = (if x \<in> set xs then xs else xs @ [x])"

lemma hset_insert_set [simp]: "set (hset_insert x xs) = insert x (set xs)"
  by (auto simp: hset_insert_def)

lemma hset_insert_distinct [simp]: "distinct (hset_insert x xs) = distinct xs"
  by (auto simp: hset_insert_def)

lemma hset_insert_length:
  "length (hset_insert x xs) = (if x \<in> set xs then length xs else Suc (length xs))"
  by (simp add: hset_insert_def)

locale hash_map =
  fixes get :: "'m \<Rightarrow> 'k \<Rightarrow> 'v option"
    and put :: "'k \<Rightarrow> 'v \<Rightarrow> 'm \<Rightarrow> 'm"
    and del :: "'k \<Rightarrow> 'm \<Rightarrow> 'm"
    and keys :: "'m \<Rightarrow> 'k list"
    and wf :: "'m \<Rightarrow> bool"
  assumes get_put: "get (put k v m) = (get m)(k \<mapsto> v)"
    and get_del: "get (del k m) = (get m)(k := None)"
    and set_keys: "set (keys m) = dom (get m)"
    and wf_put: "wf m \<Longrightarrow> wf (put k v m)"
    and wf_del: "wf m \<Longrightarrow> wf (del k m)"
    and wf_keys: "wf m \<Longrightarrow> distinct (keys m)"
begin

lemma size_put:
  assumes "wf m"
  shows "length (keys (put k v m)) =
    (if get m k = None then Suc (length (keys m)) else length (keys m))"
proof -
  have "length (keys (put k v m)) = card (dom (get (put k v m)))"
    using wf_keys [OF wf_put [OF assms]] distinct_card set_keys by metis
  moreover have "length (keys m) = card (dom (get m))"
    using wf_keys [OF assms] distinct_card set_keys by metis
  moreover have "finite (dom (get m))" by (metis set_keys List.finite_set)
  ultimately show ?thesis by (auto simp: get_put insert_absorb domIff)
qed

lemma size_subset:
  assumes "wf m" and "distinct xs" and "set xs \<subseteq> set (keys m)"
  shows "length xs \<le> length (keys m)"
  using assms wf_keys [OF assms(1)] by (metis List.finite_set card_mono distinct_card)

end

interpretation hm: hash_map hget hput hdel hkeys hwf
proof
  show "hget (hput k v m) = (hget m)(k \<mapsto> v)" for k :: 'a and v :: 'b and m
    by (simp add: hget_def hput_def update_conv')
  show "hget (hdel k m) = (hget m)(k := None)" for k :: 'a and m :: "('a, 'b) hmap"
    by (simp add: hget_def hdel_def delete_conv')
  show "set (hkeys m) = dom (hget m)" for m :: "('a, 'b) hmap"
    by (simp add: hget_def hkeys_def dom_map_of_conv_image_fst)
  show "hwf m \<Longrightarrow> hwf (hput k v m)" for k :: 'a and v :: 'b and m
    by (simp add: hwf_def hput_def distinct_update)
  show "hwf m \<Longrightarrow> hwf (hdel k m)" for k :: 'a and m :: "('a, 'b) hmap"
    by (simp add: hwf_def hdel_def distinct_delete)
  show "hwf m \<Longrightarrow> distinct (hkeys m)" for m :: "('a, 'b) hmap"
    by (simp add: hwf_def hkeys_def)
qed

lemma hwf_Nil [simp]: "hwf []" by (simp add: hwf_def)

lemma hget_Nil [simp]: "hget [] k = None" by (simp add: hget_def)

lemma hkeys_length [simp]: "length (hkeys m) = length m" by (simp add: hkeys_def)

lemmas hmap_simps [hash_simps] = hm.get_put hm.get_del hm.wf_put hm.wf_del

lemma length_hput:
  "hwf m \<Longrightarrow> length (hput k v m) = (if hget m k = None then Suc (length m) else length m)"
  using hm.size_put [of m k v] by simp

subsection \<open>Guarded state machines\<close>

text \<open>
  One request against a checked transition function, and a sequence of them: a rejected request
  leaves the state as it was (the callers that drop the error, \<open>let _ = ...\<close>).
\<close>

definition attempt :: "('s \<Rightarrow> 's \<Rightarrow> 'e + 's) \<Rightarrow> 's \<Rightarrow> 's \<Rightarrow> 's" where
  "attempt step s t = (case step s t of Inl _ \<Rightarrow> s | Inr s' \<Rightarrow> s')"

definition attempts :: "('s \<Rightarrow> 's \<Rightarrow> 'e + 's) \<Rightarrow> 's \<Rightarrow> 's list \<Rightarrow> 's" where
  "attempts step s ts = foldl (attempt step) s ts"

lemma attempts_simps [simp]:
  "attempts step s [] = s"
  "attempts step s (t # ts) = attempts step (attempt step s t) ts"
  by (simp_all add: attempts_def)

locale guarded_machine =
  fixes allowed :: "'s \<Rightarrow> 's \<Rightarrow> bool"
    and step :: "'s \<Rightarrow> 's \<Rightarrow> 'e + 's"
  assumes step_target: "step s t = Inr s' \<Longrightarrow> s' = t"
    and step_sound: "step s t = Inr s' \<Longrightarrow> s = t \<or> allowed s t"
    and step_complete: "allowed s t \<Longrightarrow> step s t = Inr t"
begin

lemma attempt_cases: "attempt step s t = s \<or> (attempt step s t = t \<and> allowed s t)"
  using step_target [of s t] step_sound [of s t]
  by (auto simp: attempt_def split: sum.splits)

lemma attempts_reach: "(s, attempts step s ts) \<in> {(a, b). allowed a b}\<^sup>*"
proof (induction ts arbitrary: s)
  case (Cons t ts)
  have "(s, attempt step s t) \<in> {(a, b). allowed a b}\<^sup>*"
    using attempt_cases [of s t] by auto
  then show ?case using Cons.IH [of "attempt step s t"] by (auto intro: rtrancl_trans)
qed simp

lemma attempts_invariant:
  assumes "\<And>a b. P a \<Longrightarrow> allowed a b \<Longrightarrow> P b" and "P s"
  shows "P (attempts step s ts)"
  using assms(2)
proof (induction ts arbitrary: s)
  case (Cons t ts)
  have "P (attempt step s t)" using attempt_cases [of s t] assms(1) [of s t] Cons.prems by auto
  then show ?case using Cons.IH by simp
qed simp

lemma attempts_path:
  assumes "\<And>i. i < length ts \<Longrightarrow> allowed ((s # ts) ! i) (ts ! i)"
  shows "attempts step s ts = last (s # ts)"
  using assms
proof (induction ts arbitrary: s)
  case (Cons t ts)
  have "allowed s t" using Cons.prems [of 0] by simp
  then have "attempt step s t = t" using step_complete by (simp add: attempt_def)
  moreover have "attempts step t ts = last (t # ts)"
  proof (rule Cons.IH)
    fix i assume "i < length ts"
    then show "allowed ((t # ts) ! i) (ts ! i)" using Cons.prems [of "Suc i"] by simp
  qed
  ultimately show ?case by simp
qed simp

end

subsection \<open>Sharding work over owners\<close>

locale sharding =
  fixes owner :: "nat \<Rightarrow> nat \<Rightarrow> nat"
  assumes owner_bound: "0 < n \<Longrightarrow> owner n i < n"
begin

lemma shards_cover: "0 < n \<Longrightarrow> \<exists>a < n. owner n i = a"
  using owner_bound by blast

lemma shards_mset:
  assumes "0 < n"
  shows "mset (concat (map (\<lambda>a. filter (\<lambda>i. owner n i = a) is) [0..<n])) = mset is"
proof (induction "is")
  case Nil
  then show ?case by (simp add: comp_def map_replicate_const)
next
  case (Cons i "is")
  have "mset (concat (map (\<lambda>a. filter (\<lambda>i. owner n i = a) (i # is)) ls)) =
      mset (concat (map (\<lambda>a. filter (\<lambda>i. owner n i = a) is) ls))
      + replicate_mset (count (mset ls) (owner n i)) i" for ls
    by (induction ls) (auto simp: ac_simps)
  moreover have "count (mset [0..<n]) (owner n i) = 1"
    using owner_bound [OF assms, of i] by (simp add: distinct_count_atmost_1)
  ultimately show ?case using Cons by simp
qed

end

locale round_robin = sharding +
  assumes owner_mod: "0 < n \<Longrightarrow> owner n i = i mod n"
begin

lemma shard_size:
  assumes "0 < n" and "a < n"
  shows "length (filter (\<lambda>i. owner n i = a) [0..<amount]) =
    amount div n + (if a < amount mod n then 1 else 0)"
proof (induction amount)
  case 0
  then show ?case by simp
next
  case (Suc amount)
  have own: "owner n amount = amount mod n" using owner_mod [OF assms(1)] .
  show ?case
  proof (cases "Suc (amount mod n) = n")
    case True
    then have "Suc amount div n = Suc (amount div n)" and "Suc amount mod n = 0"
      by (simp_all add: div_Suc mod_Suc)
    then show ?thesis using Suc own True assms(2) by auto
  next
    case False
    then have "Suc amount div n = amount div n" and "Suc amount mod n = Suc (amount mod n)"
      using assms(1) by (simp_all add: div_Suc mod_Suc)
    then show ?thesis using Suc own by auto
  qed
qed

end

end
