(* ===== verification/Config.thy ===== *)
theory Config
  imports Interfaces
begin

text \<open>
  The configuration model of \<open>src/config.rs\<close>: the structures the other components read, the URI
  resolution methods, the per-agent path prefix (\<open>join_uri_path\<close>, \<open>apply_agent_prefix\<close>), and the
  YAML-driven stages (\<open>validate_stages\<close>, \<open>get_sorted_stages\<close>, the barrier defaults). Of \<open>Config\<close>
  the fields that only tune I/O (range engine, page cache, s3dlio options, logging, scaling) are
  left out; a panic of the source is the value \<open>None\<close>.
\<close>

subsection \<open>Sizes, operations, prepare\<close>

datatype DistributionType = Uniform | Lognormal

record SizeDistribution =
  dist_type :: DistributionType
  sd_min :: "nat option"
  sd_max :: "nat option"
  sd_mean :: "nat option"
  sd_std_dev :: "nat option"

datatype SizeSpec = Fixed nat | Distribution SizeDistribution

definition as_fixed :: "SizeSpec \<Rightarrow> nat option" where
  "as_fixed s = (case s of Fixed n \<Rightarrow> Some n | _ \<Rightarrow> None)"

datatype OpSpec =
    Get string
  | Put string "nat option" "SizeSpec option" nat nat
  | List string
  | Stat string
  | Delete string
  | Mkdir string
  | Rmdir string bool

record WeightedOp =
  weight :: nat
  op_concurrency :: "nat option"
  spec :: OpSpec

record MultiEndpointConfig =
  strategy :: string
  endpoints :: "string list"

definition default_load_balance_strategy :: string where
  "default_load_balance_strategy = ''round_robin''"

text \<open>The bound on the number of endpoints is a constant of the s3dlio library.\<close>

datatype multi_endpoint_error = NoEndpoints | TooManyEndpoints nat nat

definition multi_endpoint_validate :: "nat \<Rightarrow> MultiEndpointConfig \<Rightarrow> multi_endpoint_error + unit" where
  "multi_endpoint_validate max_endpoints me =
     (if endpoints me = [] then Inl NoEndpoints
      else if length (endpoints me) > max_endpoints
      then Inl (TooManyEndpoints (length (endpoints me)) max_endpoints)
      else Inr ())"

record DirectoryStructureConfig =
  width :: nat
  depth :: nat
  files_per_dir :: nat
  distribution :: string
  dir_mask :: string

datatype PrepareStrategy = Sequential | Parallel

datatype CleanupMode = Strict | Tolerant | BestEffortCleanup

datatype FillPattern = Zero | Random | Prand

record EnsureSpec =
  base_uri :: "string option"
  es_count :: nat
  min_size :: "nat option"
  max_size :: "nat option"
  size_spec :: "SizeSpec option"
  fill :: FillPattern
  dedup_factor :: nat
  compress_factor :: nat

record PrepareConfig =
  ensure_objects :: "EnsureSpec list"
  cleanup :: bool
  cleanup_only :: "bool option"
  post_prepare_delay :: nat
  directory_structure :: "DirectoryStructureConfig option"
  prepare_strategy :: PrepareStrategy
  skip_verification :: bool
  force_overwrite :: bool
  cleanup_mode :: CleanupMode
  key_prefix_shards :: nat

datatype base_uri_error = EmptyMultiEndpoint | BaseUriRequired

definition get_base_uri :: "EnsureSpec \<Rightarrow> string list option \<Rightarrow> base_uri_error + string" where
  "get_base_uri e multi_endpoint_uris =
     (case base_uri e of
        Some uri \<Rightarrow> Inr uri
      | None \<Rightarrow>
          (case multi_endpoint_uris of
             Some uris \<Rightarrow> (case uris of [] \<Rightarrow> Inl EmptyMultiEndpoint | first # _ \<Rightarrow> Inr first)
           | None \<Rightarrow> Inl BaseUriRequired))"

definition DEFAULT_MIN_SIZE :: nat where "DEFAULT_MIN_SIZE = 1024 * 1024"

definition DEFAULT_MAX_SIZE :: nat where "DEFAULT_MAX_SIZE = 1024 * 1024"

definition get_size_spec :: "EnsureSpec \<Rightarrow> SizeSpec" where
  "get_size_spec e =
     (case size_spec e of
        Some sp \<Rightarrow> sp
      | None \<Rightarrow>
          (let mn = (case min_size e of Some m \<Rightarrow> m | None \<Rightarrow> DEFAULT_MIN_SIZE);
               mx = (case max_size e of Some m \<Rightarrow> m | None \<Rightarrow> DEFAULT_MAX_SIZE)
           in if mn = mx then Fixed mn
              else Distribution \<lparr> dist_type = Uniform, sd_min = Some mn, sd_max = Some mx,
                                  sd_mean = None, sd_std_dev = None \<rparr>))"

subsection \<open>Barriers and stages\<close>

datatype BarrierType = AllOrNothing | Majority | BestEffort

record PhaseBarrierConfig =
  barrier_type :: BarrierType
  heartbeat_interval :: nat
  missed_threshold :: nat
  query_timeout :: nat
  query_retries :: nat
  agent_barrier_timeout :: nat

datatype CompletionCriteria =
  Duration | TasksDone | ScriptExit | ValidationPassed | DurationOrTasks

datatype StageSpecificConfig =
    Execute duration
  | Prepare "nat option"
  | Cleanup "nat option"
  | Custom string "string list"
  | Hybrid "duration option" "nat option"
  | Validation

record StageConfig =
  name :: string
  order :: nat
  completion :: CompletionCriteria
  barrier :: "PhaseBarrierConfig option"
  timeout_secs :: "nat option"
  optional :: bool
  config :: StageSpecificConfig

record BarrierSyncConfig =
  enabled :: bool
  default_heartbeat_interval :: nat
  default_missed_threshold :: nat
  default_query_timeout :: nat
  default_query_retries :: nat
  bs_validation :: "PhaseBarrierConfig option"
  bs_prepare :: "PhaseBarrierConfig option"
  bs_execute :: "PhaseBarrierConfig option"
  bs_cleanup :: "PhaseBarrierConfig option"

definition BarrierSyncConfig_default :: BarrierSyncConfig where
  "BarrierSyncConfig_default =
     \<lparr> enabled = False, default_heartbeat_interval = 30, default_missed_threshold = 3,
       default_query_timeout = 10, default_query_retries = 2,
       bs_validation = None, bs_prepare = None, bs_execute = None, bs_cleanup = None \<rparr>"

definition default_agent_barrier_timeout :: nat where "default_agent_barrier_timeout = 120"

definition get_phase_config :: "BarrierSyncConfig \<Rightarrow> string \<Rightarrow> PhaseBarrierConfig" where
  "get_phase_config b phase =
     (let c = (if phase = ''validation'' then bs_validation b
               else if phase = ''prepare'' then bs_prepare b
               else if phase = ''execute'' then bs_execute b
               else if phase = ''cleanup'' then bs_cleanup b
               else None)
      in case c of
           Some pc \<Rightarrow> pc
         | None \<Rightarrow>
             \<lparr> barrier_type = AllOrNothing,
               heartbeat_interval = default_heartbeat_interval b,
               missed_threshold = default_missed_threshold b,
               query_timeout = default_query_timeout b,
               query_retries = default_query_retries b,
               agent_barrier_timeout = default_agent_barrier_timeout \<rparr>)"

datatype PathSelectionStrategy = RandomPath | Partitioned | Exclusive | Weighted

datatype TreeCreationMode = Isolated | Coordinator | Concurrent

record AgentConfig =
  address :: string
  ac_id :: "string option"
  target_override :: "string option"
  concurrency_override :: "nat option"
  ac_path_template :: "string option"
  listen_port :: nat
  ac_multi_endpoint :: "MultiEndpointConfig option"
  ac_kv_cache_dir :: "string option"

record DistributedConfig =
  agents :: "AgentConfig list"
  start_delay :: nat
  path_template :: string
  shared_filesystem :: bool
  tree_creation_mode :: TreeCreationMode
  path_selection :: PathSelectionStrategy
  partition_overlap :: rat
  grpc_keepalive_interval :: nat
  grpc_keepalive_timeout :: nat
  agent_ready_timeout :: nat
  barrier_sync :: BarrierSyncConfig
  stages :: "StageConfig list"
  kv_cache_dir :: "string option"

text \<open>The rate limit, and how a YAML scalar is read as one (\<open>visit_u64\<close>, \<open>visit_i64\<close>, \<open>visit_str\<close>).\<close>

datatype IopsTarget = IopsMax | IopsFixed nat

datatype ArrivalDistribution = Exponential | UniformArrival | Deterministic

record IoRateConfig =
  iops :: IopsTarget
  arrival :: ArrivalDistribution

datatype yaml_scalar = YamlU64 nat | YamlI64 int | YamlStr string

definition iops_of :: "nat \<Rightarrow> IopsTarget" where
  "iops_of n = (if n = 0 then IopsMax else IopsFixed n)"

definition deserialize_iops :: "yaml_scalar \<Rightarrow> IopsTarget option" where
  "deserialize_iops v =
     (case v of
        YamlU64 n \<Rightarrow> Some (iops_of n)
      | YamlI64 i \<Rightarrow> Some (if i \<le> 0 then IopsMax else IopsFixed (nat i))
      | YamlStr s \<Rightarrow>
          if s = ''max'' \<or> s = ''MAX'' then Some IopsMax else map_option iops_of (parse_u64 s))"

record Config =
  cfg_duration :: duration
  concurrency :: nat
  target :: "string option"
  workload :: "WeightedOp list"
  prepare :: "PrepareConfig option"
  distributed :: "DistributedConfig option"
  op_log_path :: "string option"
  multi_endpoint :: "MultiEndpointConfig option"
  enable_metadata_cache :: bool
  cache_checkpoint_interval_secs :: nat
  io_rate :: "IoRateConfig option"
  dynamic_put_pool :: bool

text \<open>
  \<open>validate_stages\<close>: the errors in the order the code finds them. The gap warning on stderr
  changes nothing else.
\<close>

datatype stage_error =
    StagesEmpty
  | DuplicateName string
  | DuplicateOrder nat
  | BadCompletion string CompletionCriteria

fun first_duplicate :: "'a list \<Rightarrow> 'a list \<Rightarrow> 'a option" where
  "first_duplicate seen [] = None"
| "first_duplicate seen (x # xs) =
     (if x \<in> set seen then Some x else first_duplicate (hset_insert x seen) xs)"

definition completion_matches :: "StageSpecificConfig \<Rightarrow> CompletionCriteria \<Rightarrow> bool" where
  "completion_matches sc c =
     (case sc of
        Execute _ \<Rightarrow> c \<in> {Duration, DurationOrTasks}
      | Prepare _ \<Rightarrow> c \<in> {TasksDone, DurationOrTasks}
      | Cleanup _ \<Rightarrow> c \<in> {TasksDone, DurationOrTasks}
      | Custom _ _ \<Rightarrow> c \<in> {ScriptExit, DurationOrTasks}
      | Hybrid _ _ \<Rightarrow> c = DurationOrTasks
      | Validation \<Rightarrow> c = ValidationPassed)"

fun check_completions :: "StageConfig list \<Rightarrow> stage_error + unit" where
  "check_completions [] = Inr ()"
| "check_completions (s # ss) =
     (if completion_matches (config s) (completion s) then check_completions ss
      else Inl (BadCompletion (name s) (completion s)))"

definition validate_stages :: "StageConfig list \<Rightarrow> stage_error + unit" where
  "validate_stages ss =
     (if ss = [] then Inl StagesEmpty
      else case first_duplicate [] (map name ss) of
        Some n \<Rightarrow> Inl (DuplicateName n)
      | None \<Rightarrow>
          (case first_duplicate [] (map order ss) of
             Some k \<Rightarrow> Inl (DuplicateOrder k)
           | None \<Rightarrow> check_completions ss))"

definition phase_name :: "StageSpecificConfig \<Rightarrow> string" where
  "phase_name sc =
     (case sc of
        Validation \<Rightarrow> ''validation''
      | Prepare _ \<Rightarrow> ''prepare''
      | Cleanup _ \<Rightarrow> ''cleanup''
      | Execute _ \<Rightarrow> ''execute''
      | Custom _ _ \<Rightarrow> ''execute''
      | Hybrid _ _ \<Rightarrow> ''execute'')"

definition fill_barrier :: "BarrierSyncConfig \<Rightarrow> StageConfig \<Rightarrow> StageConfig" where
  "fill_barrier b s =
     (if barrier s = None then s\<lparr>barrier := Some (get_phase_config b (phase_name (config s)))\<rparr> else s)"

definition get_sorted_stages :: "DistributedConfig \<Rightarrow> stage_error + StageConfig list" where
  "get_sorted_stages d =
     (case validate_stages (stages d) of
        Inl e \<Rightarrow> Inl e
      | Inr _ \<Rightarrow>
          (let sorted = sort_key order (stages d)
           in Inr (if enabled (barrier_sync d) then map (fill_barrier (barrier_sync d)) sorted
                   else sorted)))"

subsection \<open>URIs\<close>

definition resolve_uri :: "Config \<Rightarrow> string \<Rightarrow> string" where
  "resolve_uri cfg path =
     (case target cfg of
        Some base \<Rightarrow>
          (if str_contains path ''://'' then path
           else if ends_with base ''/'' then base @ path
           else base @ ''/'' @ path)
      | None \<Rightarrow> path)"

definition get_uri :: "Config \<Rightarrow> OpSpec \<Rightarrow> string option" where
  "get_uri cfg op = (case op of Get path \<Rightarrow> Some (resolve_uri cfg path) | _ \<Rightarrow> None)"

definition get_put_info :: "Config \<Rightarrow> OpSpec \<Rightarrow> (string \<times> nat) option" where
  "get_put_info cfg op =
     (case op of
        Put path object_size sspec _ _ \<Rightarrow>
          (case object_size of
             Some sz \<Rightarrow> Some (resolve_uri cfg path, sz)
           | None \<Rightarrow>
               (case sspec of
                  Some sp \<Rightarrow> map_option (\<lambda>fixed. (resolve_uri cfg path, fixed)) (as_fixed sp)
                | None \<Rightarrow> None))
      | _ \<Rightarrow> None)"

definition get_put_size_spec :: "Config \<Rightarrow> OpSpec \<Rightarrow> (string \<times> SizeSpec) option" where
  "get_put_size_spec cfg op =
     (case op of
        Put path object_size sspec _ _ \<Rightarrow>
          (let uri = (if path = [] then
                        (case multi_endpoint cfg of
                           Some me \<Rightarrow> (case endpoints me of e # _ \<Rightarrow> e | [] \<Rightarrow> resolve_uri cfg path)
                         | None \<Rightarrow> resolve_uri cfg path)
                      else resolve_uri cfg path)
           in case sspec of
                Some sp \<Rightarrow> Some (uri, sp)
              | None \<Rightarrow> map_option (\<lambda>sz. (uri, Fixed sz)) object_size)
      | _ \<Rightarrow> None)"

definition get_meta_uri :: "Config \<Rightarrow> OpSpec \<Rightarrow> string option" where
  "get_meta_uri cfg op =
     (case op of
        List path \<Rightarrow> Some (resolve_uri cfg path)
      | Stat path \<Rightarrow> Some (resolve_uri cfg path)
      | Delete path \<Rightarrow> Some (resolve_uri cfg path)
      | Mkdir path \<Rightarrow> Some (resolve_uri cfg path)
      | Rmdir path _ \<Rightarrow> Some (resolve_uri cfg path)
      | _ \<Rightarrow> None)"

definition slash_end :: "string \<Rightarrow> string" where
  "slash_end p = (if p = [] \<or> ends_with p ''/'' then p else p @ ''/'')"

text \<open>\<open>join_uri_path\<close> returns a \<open>Result\<close> but has no error branch.\<close>

definition join_uri_path :: "string \<Rightarrow> string \<Rightarrow> string" where
  "join_uri_path base sfx =
     (if sfx = [] then base
      else case find_sub ''://'' base of
        Some scheme_end \<Rightarrow>
          (let scheme = take (scheme_end + 3) base; path = drop (scheme_end + 3) base
           in scheme @ slash_end path @ trim_start_matches (CHR ''/'') sfx)
      | None \<Rightarrow> slash_end base @ trim_start_matches (CHR ''/'') sfx)"

definition rebase_uri :: "string \<Rightarrow> string \<Rightarrow> string \<Rightarrow> string \<Rightarrow> string" where
  "rebase_uri orig_target new_target pfx uri =
     (if starts_with uri orig_target
      then new_target @ drop (length orig_target) uri
      else join_uri_path uri pfx)"

definition apply_agent_prefix :: "Config \<Rightarrow> string \<Rightarrow> bool \<Rightarrow> Config" where
  "apply_agent_prefix cfg pfx shared_storage =
     (case target cfg of
        None \<Rightarrow> cfg
      | Some orig \<Rightarrow>
          (let new = join_uri_path orig pfx; cfg' = cfg\<lparr>target := Some new\<rparr>
           in if shared_storage then cfg'
              else case prepare cfg' of
                None \<Rightarrow> cfg'
              | Some p \<Rightarrow>
                  cfg'\<lparr>prepare := Some (p\<lparr>ensure_objects :=
                    map (\<lambda>e. case base_uri e of
                               None \<Rightarrow> e
                             | Some u \<Rightarrow> e\<lparr>base_uri := Some (rebase_uri orig new pfx u)\<rparr>)
                        (ensure_objects p)\<rparr>)\<rparr>))"

subsection \<open>Facts about stages\<close>

lemma first_duplicate_None:
  "first_duplicate seen xs = None \<longleftrightarrow> distinct xs \<and> set xs \<inter> set seen = {}"
  by (induction xs arbitrary: seen) auto

lemma check_completions_ok:
  "check_completions ss = Inr () \<longleftrightarrow> list_all (\<lambda>s. completion_matches (config s) (completion s)) ss"
  by (induction ss) auto

lemma validate_stages_ok:
  "validate_stages ss = Inr () \<longleftrightarrow>
     ss \<noteq> [] \<and> distinct (map name ss) \<and> distinct (map order ss)
     \<and> list_all (\<lambda>s. completion_matches (config s) (completion s)) ss"
proof -
  have d: "first_duplicate [] xs = Some y \<Longrightarrow> \<not> distinct xs" for xs :: "'b list" and y
    using first_duplicate_None [of "[]" xs] by auto
  show ?thesis
    using d [of "map name ss"] d [of "map order ss"]
    by (auto simp: validate_stages_def check_completions_ok first_duplicate_None split: option.splits)
qed

lemma fill_barrier_simps [simp]:
  "name (fill_barrier b s) = name s"
  "order (fill_barrier b s) = order s"
  "config (fill_barrier b s) = config s"
  "completion (fill_barrier b s) = completion s"
  "barrier (fill_barrier b s) \<noteq> None"
  by (simp_all add: fill_barrier_def)

lemma get_sorted_stages_Inr:
  "get_sorted_stages d = Inr ss \<longleftrightarrow>
     validate_stages (stages d) = Inr () \<and>
     ss = (if enabled (barrier_sync d)
           then map (fill_barrier (barrier_sync d)) (sort_key order (stages d))
           else sort_key order (stages d))"
  by (auto simp: get_sorted_stages_def Let_def split: sum.splits)

lemma sort_key_strict:
  fixes f :: "'a \<Rightarrow> nat"
  assumes "distinct (map f xs)"
  shows "sorted_wrt (<) (map f (sort_key f xs))"
proof -
  have "mset (map f (sort_key f xs)) = mset (map f xs)" by simp
  then have "distinct (map f (sort_key f xs))"
    using assms by (metis distinct_count_atmost_1 set_mset_mset)
  then show ?thesis by (simp add: strict_sorted_iff)
qed

lemma get_sorted_stages_order:
  assumes "get_sorted_stages d = Inr ss"
  shows "sorted_wrt (<) (map order ss)" and "mset (map order ss) = mset (map order (stages d))"
    and "mset (map name ss) = mset (map name (stages d))" and "distinct (map name ss)"
proof -
  have v: "validate_stages (stages d) = Inr ()"
    and ss: "map order ss = map order (sort_key order (stages d))"
      "map name ss = map name (sort_key order (stages d))"
    using assms by (auto simp: get_sorted_stages_Inr comp_def)
  show "sorted_wrt (<) (map order ss)"
    using v by (simp only: ss validate_stages_ok sort_key_strict)
  show "mset (map order ss) = mset (map order (stages d))" by (simp add: ss)
  show n: "mset (map name ss) = mset (map name (stages d))" by (simp only: ss) simp
  then show "distinct (map name ss)"
    using v by (metis validate_stages_ok distinct_count_atmost_1 set_mset_mset)
qed

subsection \<open>Facts about agent prefixes\<close>

lemma slash_end_prefix [simp]: "prefix p (slash_end p)"
  by (simp add: slash_end_def)

lemma slash_end_ends: "p \<noteq> [] \<Longrightarrow> \<exists>q. slash_end p = q @ ''/''"
  by (auto simp: slash_end_def ends_with_def starts_with_prefix prefix_def)

text \<open>\<open>join_uri_path\<close> appends to a stem that depends on the base only.\<close>

definition join_stem :: "string \<Rightarrow> string" where
  "join_stem base =
     (case find_sub ''://'' base of
        Some scheme_end \<Rightarrow> take (scheme_end + 3) base @ slash_end (drop (scheme_end + 3) base)
      | None \<Rightarrow> slash_end base)"

lemma join_uri_path_stem:
  "sfx \<noteq> [] \<Longrightarrow> join_uri_path base sfx = join_stem base @ trim_start_matches (CHR ''/'') sfx"
  by (simp add: join_uri_path_def join_stem_def Let_def split: option.splits)

lemma join_stem_prefix: "prefix base (join_stem base)"
proof (cases "find_sub ''://'' base")
  case (Some i)
  obtain r where "slash_end (drop (i + 3) base) = drop (i + 3) base @ r"
    using slash_end_prefix by (metis prefix_def)
  then show ?thesis using Some by (simp add: join_stem_def prefix_def)
       (metis append.assoc append_take_drop_id)
qed (simp add: join_stem_def)

lemma join_uri_path_prefix: "prefix base (join_uri_path base sfx)"
  using join_stem_prefix [of base] by (cases "sfx = []")
    (auto simp: join_uri_path_def [of base "[]"] join_uri_path_stem prefix_def)

lemma trim_start_matches_id: "s \<noteq> [] \<Longrightarrow> hd s \<noteq> c \<Longrightarrow> trim_start_matches c s = s"
  by (cases s) (auto simp: trim_start_matches_def)

definition relative_prefix :: "string \<Rightarrow> bool" where
  "relative_prefix p \<longleftrightarrow> p \<noteq> [] \<and> hd p \<noteq> CHR ''/''"

lemma join_uri_path_relative:
  "relative_prefix p \<Longrightarrow> join_uri_path base p = join_stem base @ p"
  by (simp add: relative_prefix_def join_uri_path_stem trim_start_matches_id)

lemma incomparable_append:
  assumes "\<not> prefix p q" and "\<not> prefix q p" and "prefix (s @ p @ t) u"
  shows "\<not> prefix (s @ q @ r) u"
proof
  assume "prefix (s @ q @ r) u"
  with assms(3) obtain v where "prefix (p @ t) v" and "prefix (q @ r) v"
    by (auto simp: prefix_def)
  then have "prefix p v" and "prefix q v" using append_prefixD by blast+
  then show False using assms(1,2) prefix_same_cases by blast
qed

lemma rebase_uri_form:
  assumes "relative_prefix p"
  shows "\<exists>s t. \<forall>q. relative_prefix q \<longrightarrow>
    rebase_uri orig (join_uri_path orig q) q uri = s @ q @ t"
proof (cases "starts_with uri orig")
  case True
  then show ?thesis
    by (intro exI [of _ "join_stem orig"] exI [of _ "drop (length orig) uri"])
      (simp add: rebase_uri_def join_uri_path_relative)
next
  case False
  then show ?thesis
    by (intro exI [of _ "join_stem uri"] exI [of _ "[]"])
      (simp add: rebase_uri_def join_uri_path_relative)
qed

lemma rebase_uri_isolated:
  assumes "relative_prefix p" and "relative_prefix q"
    and "\<not> prefix p q" and "\<not> prefix q p"
    and "prefix (rebase_uri orig (join_uri_path orig p) p uri) u"
  shows "\<not> prefix (rebase_uri orig (join_uri_path orig q) q uri) u"
proof -
  obtain s t where "\<forall>q. relative_prefix q \<longrightarrow>
      rebase_uri orig (join_uri_path orig q) q uri = s @ q @ t"
    using rebase_uri_form [OF assms(1)] by blast
  then show ?thesis using assms incomparable_append by metis
qed

subsection \<open>Properties\<close>


definition agent_path :: "string \<Rightarrow> string" where
  "agent_path i = ''agent-'' @ i @ ''/''"

definition ensure_uris :: "Config \<Rightarrow> string option list" where
  "ensure_uris cfg = (case prepare cfg of None \<Rightarrow> [] | Some p \<Rightarrow> map base_uri (ensure_objects p))"

lemma agent_path_incomparable:
  assumes "CHR ''/'' \<notin> set i" and "CHR ''/'' \<notin> set j" and "prefix (agent_path i) (agent_path j)"
  shows "i = j"
proof -
  obtain r where "i @ ''/'' @ r = j @ ''/''" using assms(3) by (auto simp: agent_path_def prefix_def)
  then have "split_on (CHR ''/'') (i @ ''/'' @ r) = split_on (CHR ''/'') (j @ ''/'')" by simp
  then show ?thesis using assms(1,2) by (simp add: split_on_append)
qed

lemma ensure_uris_prefix:
  "target cfg = Some orig \<Longrightarrow>
     ensure_uris (apply_agent_prefix cfg pfx False) =
       map (map_option (rebase_uri orig (join_uri_path orig pfx) pfx)) (ensure_uris cfg)"
  by (auto simp: ensure_uris_def apply_agent_prefix_def Let_def split: option.splits)


definition sample_config :: "string \<Rightarrow> Config" where
  "sample_config base =
     \<lparr> cfg_duration = from_secs 60, concurrency = 4, target = Some ''s3://b/'', workload = [],
       prepare = Some \<lparr> ensure_objects = [\<lparr> base_uri = Some base, es_count = 1, min_size = None,
           max_size = None, size_spec = None, fill = Zero, dedup_factor = 1, compress_factor = 1 \<rparr>],
         cleanup = False, cleanup_only = None, post_prepare_delay = 0, directory_structure = None,
         prepare_strategy = Sequential, skip_verification = False, force_overwrite = False,
         cleanup_mode = Strict, key_prefix_shards = 0 \<rparr>,
       distributed = None, op_log_path = None, multi_endpoint = None,
       enable_metadata_cache = False, cache_checkpoint_interval_secs = 300,
       io_rate = None, dynamic_put_pool = False \<rparr>"


end
