(* ===== verification/Stage_Converter.thy ===== *)
theory Stage_Converter
  imports Config
begin

text \<open>
  The converter of legacy configurations to explicit stages, \<open>src/config_converter.rs\<close>:
  \<open>has_stages\<close>, \<open>needs_conversion\<close>, \<open>generate_stages\<close>, \<open>convert_config\<close>, the minimal YAML text it
  writes for the stages and \<open>format_duration\<close>. The file operations of \<open>convert_yaml_file\<close> (backup,
  rename) and the splicing of the text into the original file are not modelled; its decision is.
\<close>

definition has_stages :: "Config \<Rightarrow> bool" where
  "has_stages cfg = (case distributed cfg of None \<Rightarrow> False | Some d \<Rightarrow> stages d \<noteq> [])"

definition needs_conversion :: "Config \<Rightarrow> bool" where
  "needs_conversion cfg = (if workload cfg = [] then False else \<not> has_stages cfg)"

definition expected_from :: "PrepareConfig \<Rightarrow> nat option" where
  "expected_from p =
     (if ensure_objects p \<noteq> [] then Some (sum_list (map es_count (ensure_objects p))) else None)"

definition mk_stage ::
  "string \<Rightarrow> nat \<Rightarrow> CompletionCriteria \<Rightarrow> nat option \<Rightarrow> StageSpecificConfig \<Rightarrow> StageConfig" where
  "mk_stage n k c t sc =
     \<lparr> name = n, order = k, completion = c, barrier = None, timeout_secs = t, optional = False,
       config = sc \<rparr>"

text \<open>
  \<open>generate_stages\<close> pushes the stages one by one with a running \<open>order\<close>: preflight is always 1,
  the execute stage comes after the prepare stage when there is one, cleanup is last.
\<close>

definition generate_stages :: "Config \<Rightarrow> StageConfig list" where
  "generate_stages cfg =
     (let preflight = [mk_stage ''preflight'' 1 ValidationPassed (Some 300) Validation];
          order = (2::nat);
          (prep, order) =
            (case prepare cfg of
               Some p \<Rightarrow> ([mk_stage ''prepare'' order TasksDone None (Prepare (expected_from p))], order + 1)
             | None \<Rightarrow> ([], order));
          exec = [mk_stage ''execute'' order Duration None (Execute (cfg_duration cfg))];
          order = order + 1;
          clean =
            (case prepare cfg of
               Some p \<Rightarrow>
                 (if cleanup p
                  then [mk_stage ''cleanup'' order TasksDone None (Cleanup (expected_from p))]
                  else [])
             | None \<Rightarrow> [])
      in preflight @ prep @ exec @ clean)"

definition default_distributed :: DistributedConfig where
  "default_distributed =
     \<lparr> agents = [], start_delay = 2, path_template = ''agent-{id}/'', shared_filesystem = False,
       tree_creation_mode = Isolated, path_selection = RandomPath, partition_overlap = 3 / 10,
       grpc_keepalive_interval = 30, grpc_keepalive_timeout = 10, agent_ready_timeout = 120,
       barrier_sync = BarrierSyncConfig_default, stages = [], kv_cache_dir = None \<rparr>"

definition convert_config :: "Config \<Rightarrow> Config" where
  "convert_config cfg =
     (let ss = generate_stages cfg;
          d = (case distributed cfg of Some d \<Rightarrow> d | None \<Rightarrow> default_distributed)
      in cfg\<lparr>distributed := Some (d\<lparr>stages := ss\<rparr>)\<rparr>)"

datatype ConversionResult =
    AlreadyHasStages
  | NoConversionNeeded
  | DryRun nat
  | Converted nat

definition is_success :: "ConversionResult \<Rightarrow> bool" where
  "is_success r = (case r of Converted _ \<Rightarrow> True | DryRun _ \<Rightarrow> True | _ \<Rightarrow> False)"

text \<open>The decision of \<open>convert_yaml_file\<close> on a parsed configuration, its file operations succeeding.\<close>

definition conversion_decision :: "Config \<Rightarrow> bool \<Rightarrow> ConversionResult" where
  "conversion_decision cfg dry_run =
     (if has_stages cfg then AlreadyHasStages
      else if \<not> needs_conversion cfg then NoConversionNeeded
      else (let n = length (generate_stages cfg) in if dry_run then DryRun n else Converted n))"

definition format_duration :: "duration \<Rightarrow> string" where
  "format_duration d =
     (let secs = as_secs d
      in if 60 dvd secs \<and> secs \<ge> 60 then show_nat (secs div 60) @ ''m''
         else if 3600 dvd secs \<and> secs \<ge> 3600 then show_nat (secs div 3600) @ ''h''
         else show_nat secs @ ''s'')"

definition completion_str :: "CompletionCriteria \<Rightarrow> string" where
  "completion_str c =
     (case c of
        ValidationPassed \<Rightarrow> ''validation_passed''
      | TasksDone \<Rightarrow> ''tasks_done''
      | Duration \<Rightarrow> ''duration''
      | ScriptExit \<Rightarrow> ''script_exit''
      | DurationOrTasks \<Rightarrow> ''duration_or_tasks'')"

definition opt_line :: "string \<Rightarrow> string option \<Rightarrow> string list" where
  "opt_line key v = (case v of None \<Rightarrow> [] | Some x \<Rightarrow> [key @ x])"

definition type_lines :: "StageSpecificConfig \<Rightarrow> string list" where
  "type_lines sc =
     (case sc of
        Validation \<Rightarrow> [''    type: validation'']
      | Prepare n \<Rightarrow> ''    type: prepare'' # opt_line ''    expected_objects: '' (map_option show_nat n)
      | Execute d \<Rightarrow> [''    type: execute'', ''    duration: '' @ format_duration d]
      | Cleanup n \<Rightarrow> ''    type: cleanup'' # opt_line ''    expected_objects: '' (map_option show_nat n)
      | Custom c args \<Rightarrow>
          [''    type: custom'', ''    command: '' @ c] @
          (if args = [] then [] else ''    args:'' # map (\<lambda>a. ''      - '' @ a) args)
      | Hybrid d n \<Rightarrow>
          ''    type: hybrid'' # opt_line ''    max_duration: '' (map_option format_duration d)
          @ opt_line ''    expected_tasks: '' (map_option show_nat n))"

definition stage_lines :: "StageConfig \<Rightarrow> string list" where
  "stage_lines s =
     [''  - name: '' @ name s, ''    order: '' @ show_nat (order s),
      ''    completion: '' @ completion_str (completion s)]
     @ opt_line ''    timeout_secs: '' (map_option show_nat (timeout_secs s))
     @ type_lines (config s)"

definition generate_minimal_stages_yaml :: "StageConfig list \<Rightarrow> string" where
  "generate_minimal_stages_yaml ss = concat (map (\<lambda>l. l @ [CHR 0x0A]) (concat (map stage_lines ss)))"

subsection \<open>Correctness\<close>

lemmas generate_defs = generate_stages_def mk_stage_def Let_def

lemma generate_stages_valid: "validate_stages (generate_stages cfg) = Inr ()"
  by (auto simp: validate_stages_ok generate_defs completion_matches_def split: option.splits prod.splits)

lemma generate_stages_orders:
  "map order (generate_stages cfg) = [1..<Suc (length (generate_stages cfg))]"
  by (cases "prepare cfg") (auto simp: generate_defs)

lemma sort_key_sorted: "sorted (map f xs) \<Longrightarrow> sort_key f xs = xs"
  by (rule sort_key_id_if_sorted)

lemma generate_stages_sorted: "sort_key order (generate_stages cfg) = generate_stages cfg"
  by (rule sort_key_id_if_sorted) (simp only: generate_stages_orders sorted_upt)

lemma convert_config_distributed:
  "\<exists>d. distributed (convert_config cfg) = Some d \<and> stages d = generate_stages cfg"
  by (simp add: convert_config_def Let_def)

lemma generate_stages_nonempty: "generate_stages cfg \<noteq> []"
  by (auto simp: generate_defs split: option.splits prod.splits)

lemma convert_config_has_stages: "has_stages (convert_config cfg)"
  using convert_config_distributed [of cfg] by (auto simp: has_stages_def generate_stages_nonempty)

text \<open>Seconds are read back from the text by the unit of the last character.\<close>

definition read_duration_secs :: "string \<Rightarrow> nat option" where
  "read_duration_secs s =
     (if s = [] then None
      else case parse_digits 0 (butlast s) of
        None \<Rightarrow> None
      | Some n \<Rightarrow>
          (if last s = CHR ''s'' then Some n
           else if last s = CHR ''m'' then Some (n * 60)
           else if last s = CHR ''h'' then Some (n * 3600)
           else None))"

lemma read_format_duration: "read_duration_secs (format_duration d) = Some (as_secs d)"
  by (auto simp: read_duration_secs_def format_duration_def Let_def parse_digits_show)

lemma format_duration_never_hours: "last (format_duration d) \<noteq> CHR ''h''"
proof -
  have "60 dvd s" if "3600 dvd s" for s :: nat using that dvd_trans [of 60 3600 s] by simp
  then show ?thesis by (auto simp: format_duration_def Let_def)
qed

subsection \<open>Properties\<close>

text \<open>
  The stages generated for a legacy configuration always pass the validation the
  distributed run applies: converting a configuration never yields stages that are rejected, and
  they come back from \<open>get_sorted_stages\<close> in the order they were generated.
\<close>

lemma converted_stages_accepted:
  "\<exists>d. distributed (convert_config cfg) = Some d
     \<and> has_stages (convert_config cfg)
     \<and> (\<exists>ss. get_sorted_stages d = Inr ss \<and> map name ss = map name (generate_stages cfg)
           \<and> map order ss = [1..<Suc (length (generate_stages cfg))])"
proof -
  obtain d where d: "distributed (convert_config cfg) = Some d" "stages d = generate_stages cfg"
    using convert_config_distributed by blast
  have "\<exists>ss. get_sorted_stages d = Inr ss \<and> map name ss = map name (generate_stages cfg)
      \<and> map order ss = map order (generate_stages cfg)"
    by (simp add: get_sorted_stages_Inr d(2) generate_stages_valid generate_stages_sorted comp_def)
  then show ?thesis
    using d convert_config_has_stages by (simp only: generate_stages_orders) blast
qed

text \<open>
  The duration text written into a converted file reads back as the whole seconds of the
  duration, and never uses the hour unit, although the code has a branch for it.
\<close>

lemma format_duration_reads_back:
  "read_duration_secs (format_duration d) = Some (as_secs d) \<and> last (format_duration d) \<noteq> CHR ''h''"
  by (simp add: read_format_duration format_duration_never_hours)

end
