(* ===== verification/Oplog_Merge.thy ===== *)
theory Oplog_Merge
  imports Interfaces
begin

text \<open>
  The op-log tools of \<open>src/oplog_merge.rs\<close>: the k-way merge of the workers' files, the order
  check and the window sort. A file is the list of its reader's results, in order: an entry or a
  parse error. Two library structures are parameters with their documented laws, as locales:
  \<open>BinaryHeap::pop\<close> returns some greatest element (\<open>MergeEntry\<close> reverses the order, so some
  earliest entry; ties are not specified), and \<open>binary_search_by\<close> returns some position at
  which inserting keeps the slice sorted.
\<close>

record OpLogEntry =
  ol_op :: string
  ol_bytes :: nat
  ol_endpoint :: string
  ol_file :: string
  ol_error :: "string option"
  ol_start :: int
  ol_duration_ns :: "nat option"

type_synonym oplog_file = "(string + OpLogEntry) list"

definition entry_columns :: "(int \<Rightarrow> string) \<Rightarrow> OpLogEntry \<Rightarrow> nat \<Rightarrow> string list" where
  "entry_columns rfc3339 e idx =
     [show_nat idx, ''0'', ol_op e, [], ''1'', show_nat (ol_bytes e), ol_endpoint e, ol_file e,
      (case ol_error e of Some m \<Rightarrow> m | None \<Rightarrow> []), rfc3339 (ol_start e), [], [],
      show_nat (case ol_duration_ns e of Some d \<Rightarrow> d | None \<Rightarrow> 0)]"

definition oplog_header :: "string list" where
  "oplog_header = [''idx'', ''thread'', ''op'', ''client_id'', ''n_objects'', ''bytes'', ''endpoint'',
     ''file'', ''error'', ''start'', ''first_byte'', ''end'', ''duration_ns'']"

subsection \<open>The heap\<close>

record MergeEntry =
  entry :: OpLogEntry
  worker_id :: nat

abbreviation mstart :: "MergeEntry \<Rightarrow> int" where "mstart m \<equiv> ol_start (entry m)"

locale min_heap =
  fixes pop :: "MergeEntry list \<Rightarrow> (MergeEntry \<times> MergeEntry list) option"
  assumes pop_None: "pop h = None \<longleftrightarrow> h = []"
    and pop_mset: "pop h = Some (m, h') \<Longrightarrow> mset h = add_mset m (mset h')"
    and pop_min: "pop h = Some (m, h') \<Longrightarrow> x \<in> set h \<Longrightarrow> mstart m \<le> mstart x"
begin

lemma pop_set: "pop h = Some (m, h') \<Longrightarrow> set h = insert m (set h')"
  using pop_mset by (metis set_mset_add_mset_insert set_mset_mset)

lemma pop_length: "pop h = Some (m, h') \<Longrightarrow> length h = Suc (length h')"
  using pop_mset by (metis size_add_mset size_mset)

lemma pop_workers:
  "pop h = Some (m, h') \<Longrightarrow>
     mset (map worker_id h) = add_mset (worker_id m) (mset (map worker_id h'))"
  using pop_mset by (metis image_mset_add_mset mset_map)

lemma pop_ge: "pop h = Some (m, h') \<Longrightarrow> x \<in> set h' \<Longrightarrow> mstart m \<le> mstart x"
  using pop_min pop_set by blast

end

text \<open>A heap that pops the first of the earliest entries.\<close>

fun earliest :: "MergeEntry \<Rightarrow> MergeEntry list \<Rightarrow> MergeEntry" where
  "earliest m [] = m"
| "earliest m (x # xs) = (if mstart x < mstart m then earliest x xs else earliest m xs)"

fun list_pop :: "MergeEntry list \<Rightarrow> (MergeEntry \<times> MergeEntry list) option" where
  "list_pop [] = None"
| "list_pop (x # xs) = (let m = earliest x xs in Some (m, remove1 m (x # xs)))"

lemma earliest_mem: "earliest m xs \<in> insert m (set xs)"
  by (induction m xs rule: earliest.induct) auto

lemma earliest_le: "x \<in> insert m (set xs) \<Longrightarrow> mstart (earliest m xs) \<le> mstart x"
proof (induction m xs arbitrary: x rule: earliest.induct)
  case (2 m y ys)
  show ?case
  proof (cases "mstart y < mstart m")
    case True
    then show ?thesis using 2 by fastforce
  next
    case False
    have "mstart (earliest m ys) \<le> mstart m" using "2.IH"(2) [OF False, of m] by simp
    then show ?thesis using 2 False by fastforce
  qed
qed simp

interpretation lh: min_heap list_pop
proof
  show "list_pop h = None \<longleftrightarrow> h = []" for h by (cases h) (simp_all add: Let_def)
  show "mset h = add_mset m (mset h')" if "list_pop h = Some (m, h')" for h m h'
  proof -
    have "m \<in># mset h \<and> mset h' = mset h - {#m#}"
      using that earliest_mem by (cases h) (fastforce simp: Let_def simp flip: mset_remove1)+
    then show ?thesis by simp
  qed
  show "mstart m \<le> mstart x" if "list_pop h = Some (m, h')" "x \<in> set h" for h m h' x
    using that earliest_le by (cases h) (auto simp: Let_def)
qed

subsection \<open>The merge\<close>

text \<open>
  \<open>streams\<close> keeps the worker id beside each reader, and the loop indexes it by worker id, as
  the code does. A parse error on a reader is consumed and ends that worker's part.
\<close>

type_synonym streams = "(nat \<times> oplog_file) list"

definition open_streams :: "(nat \<Rightarrow> oplog_file option) \<Rightarrow> nat \<Rightarrow> streams" where
  "open_streams files num_workers =
     concat (map (\<lambda>w. case files w of None \<Rightarrow> [] | Some f \<Rightarrow> [(w, f)]) [0..<num_workers])"

fun init_heap :: "streams \<Rightarrow> MergeEntry list \<times> streams" where
  "init_heap [] = ([], [])"
| "init_heap ((w, f) # st) =
     (let (h, st') = init_heap st
      in case f of
           [] \<Rightarrow> (h, (w, []) # st')
         | Inl _ # rest \<Rightarrow> (h, (w, rest) # st')
         | Inr e # rest \<Rightarrow> (\<lparr> entry = e, worker_id = w \<rparr> # h, (w, rest) # st'))"

definition stream_next :: "streams \<Rightarrow> nat \<Rightarrow> OpLogEntry option \<times> streams" where
  "stream_next st w =
     (if w < length st then
        (case snd (st ! w) of
           [] \<Rightarrow> (None, st)
         | Inl _ # rest \<Rightarrow> (None, st[w := (fst (st ! w), rest)])
         | Inr e # rest \<Rightarrow> (Some e, st[w := (fst (st ! w), rest)]))
      else (None, st))"

fun merge_loop ::
  "(MergeEntry list \<Rightarrow> (MergeEntry \<times> MergeEntry list) option) \<Rightarrow> nat \<Rightarrow> MergeEntry list \<Rightarrow> streams
    \<Rightarrow> OpLogEntry list option" where
  "merge_loop pop 0 h st = None"
| "merge_loop pop (Suc fuel) h st =
     (case pop h of
        None \<Rightarrow> Some []
      | Some (m, h') \<Rightarrow>
          (let (nxt, st') = stream_next st (worker_id m);
               h'' = (case nxt of None \<Rightarrow> h' | Some e \<Rightarrow> \<lparr> entry = e, worker_id = worker_id m \<rparr> # h')
           in map_option (\<lambda>out. entry m # out) (merge_loop pop fuel h'' st')))"

definition stream_total :: "streams \<Rightarrow> nat" where
  "stream_total st = sum_list (map (length \<circ> snd) st)"

text \<open>The entries written to the merged file; \<open>None\<close> is the error \<open>No worker files found to merge\<close>.\<close>

definition merge_worker_oplogs ::
  "(MergeEntry list \<Rightarrow> (MergeEntry \<times> MergeEntry list) option) \<Rightarrow> (nat \<Rightarrow> oplog_file option) \<Rightarrow> nat
    \<Rightarrow> OpLogEntry list option" where
  "merge_worker_oplogs pop files num_workers =
     (let st = open_streams files num_workers
      in if st = [] then None
         else (let (h, st') = init_heap st in merge_loop pop (Suc (stream_total st)) h st'))"

subsection \<open>Correctness of the merge\<close>

definition rest_of :: "streams \<Rightarrow> nat \<Rightarrow> OpLogEntry list" where
  "rest_of st w = map projr (snd (st ! w))"

definition all_rest :: "streams \<Rightarrow> OpLogEntry multiset" where
  "all_rest st = (\<Sum>w<length st. mset (rest_of st w))"

text \<open>
  The loop invariant: every reader only has entries left, in order; a reader with entries left
  has its previous entry in the heap, which is no later than they are; every heap entry names a
  reader, at most one per reader.
\<close>

definition merge_inv :: "MergeEntry list \<Rightarrow> streams \<Rightarrow> bool" where
  "merge_inv h st \<longleftrightarrow>
     distinct (map worker_id h)
     \<and> (\<forall>m \<in> set h. worker_id m < length st
          \<and> (\<forall>e \<in> set (rest_of st (worker_id m)). mstart m \<le> ol_start e))
     \<and> (\<forall>w < length st. (\<forall>r \<in> set (snd (st ! w)). \<not> isl r)
          \<and> sorted (map ol_start (rest_of st w))
          \<and> (rest_of st w \<noteq> [] \<longrightarrow> w \<in> worker_id ` set h))"

lemma rest_of_update:
  "w < length st \<Longrightarrow> rest_of (st[w := (i, f)]) v = (if v = w then map projr f else rest_of st v)"
  by (simp add: rest_of_def)

lemma all_rest_update:
  assumes "w < length st" and "rest_of st w = e # map projr f"
  shows "all_rest st = add_mset e (all_rest (st[w := (i, f)]))"
proof -
  have w: "w \<in> {..<length st}" "finite {..<length st}" using assms by auto
  have "all_rest st = mset (rest_of st w) + (\<Sum>v\<in>{..<length st} - {w}. mset (rest_of st v))"
    unfolding all_rest_def using w by (metis sum.remove)
  moreover have "all_rest (st[w := (i, f)]) =
      mset (map projr f) + (\<Sum>v\<in>{..<length st} - {w}. mset (rest_of st v))"
    unfolding all_rest_def using w
    by (subst sum.remove [of _ w]) (auto simp: rest_of_update intro!: sum.cong)
  ultimately show ?thesis using assms(2) by simp
qed

lemma stream_total_update:
  "w < length st \<Longrightarrow> snd (st ! w) = r # f \<Longrightarrow>
     stream_total st = Suc (stream_total (st[w := (i, f)]))"
proof (induction st arbitrary: w)
  case (Cons x st)
  then show ?case by (cases w) (auto simp: stream_total_def)
qed simp

lemma stream_next_step:
  assumes inv: "merge_inv h st" and w: "w < length st"
  shows "(rest_of st w = [] \<and> stream_next st w = (None, st)) \<or>
    (\<exists>e f. snd (st ! w) = Inr e # f \<and> rest_of st w = e # map projr f
      \<and> stream_next st w = (Some e, st[w := (fst (st ! w), f)]))"
proof (cases "snd (st ! w)")
  case Nil
  then show ?thesis using w by (simp add: stream_next_def rest_of_def)
next
  case (Cons r f)
  then have "\<not> isl r" using inv w by (auto simp: merge_inv_def)
  then obtain e where "r = Inr e" by (cases r) auto
  then show ?thesis using Cons w by (simp add: stream_next_def rest_of_def)
qed

context min_heap
begin

lemma merge_inv_pop:
  assumes inv: "merge_inv h st" and p: "pop h = Some (m, h')"
    and n: "stream_next st (worker_id m) = (nxt, st')"
    and h'': "h'' = (case nxt of None \<Rightarrow> h' | Some e \<Rightarrow> \<lparr> entry = e, worker_id = worker_id m \<rparr> # h')"
  shows "merge_inv h'' st'"
    and "add_mset (entry m) (image_mset entry (mset h'') + all_rest st')
           = image_mset entry (mset h) + all_rest st"
    and "\<And>x. x \<in> set h'' \<Longrightarrow> mstart m \<le> mstart x"
    and "length h'' + stream_total st' < length h + stream_total st"
proof -
  let ?w = "worker_id m"
  have w: "?w < length st" using inv pop_set [OF p] by (simp add: merge_inv_def)
  have "mset (map worker_id h) = mset (?w # map worker_id h')"
    using pop_workers [OF p] by simp
  then have "distinct (?w # map worker_id h')"
    using inv mset_eq_imp_distinct_iff merge_inv_def by blast
  then have dist: "distinct (map worker_id h')" "?w \<notin> worker_id ` set h'" by auto
  have setm: "set h = insert m (set h')" by (rule pop_set [OF p])
  from stream_next_step [OF inv w] consider
    (none) "rest_of st ?w = []" "nxt = None" "st' = st" |
    (some) e f where "snd (st ! ?w) = Inr e # f" "rest_of st ?w = e # map projr f"
      "nxt = Some e" "st' = st[?w := (fst (st ! ?w), f)]"
    using n by auto
  then have "merge_inv h'' st' \<and> add_mset (entry m) (image_mset entry (mset h'') + all_rest st')
           = image_mset entry (mset h) + all_rest st \<and> (\<forall>x \<in> set h''. mstart m \<le> mstart x)
           \<and> length h'' + stream_total st' < length h + stream_total st"
  proof cases
    case none
    have "merge_inv h' st" using inv dist none(1) setm by (auto simp: merge_inv_def)
    then show ?thesis using none h'' pop_mset [OF p] pop_ge [OF p] pop_length [OF p] by simp
  next
    case some
    have le: "mstart m \<le> ol_start e" and srt: "sorted (map ol_start (e # map projr f))"
    proof -
      have "\<forall>x \<in> set (rest_of st ?w). mstart m \<le> ol_start x"
        and "sorted (map ol_start (rest_of st ?w))"
        using inv setm w unfolding merge_inv_def by blast+
      then show "mstart m \<le> ol_start e" and "sorted (map ol_start (e # map projr f))"
        by (simp_all add: some(2) del: sorted_wrt.simps(2))
    qed
    have h''_eq: "h'' = \<lparr> entry = e, worker_id = ?w \<rparr> # h'" using h'' some by simp
    have len: "length st' = length st" using some by simp
    have rest': "rest_of st' v = (if v = ?w then map projr f else rest_of st v)" for v
      using some w by (simp add: rest_of_update)
    have nth': "snd (st' ! v) = (if v = ?w then f else snd (st ! v))" if "v < length st" for v
      using some w that by (simp add: nth_list_update)
    have "distinct (map worker_id h'')" using dist h''_eq by simp
    moreover have "worker_id x < length st' \<and> (\<forall>y \<in> set (rest_of st' (worker_id x)). mstart x \<le> ol_start y)"
      if "x \<in> set h''" for x
    proof (cases "x \<in> set h'")
      case True
      then have "x \<in> set h" and "worker_id x \<noteq> ?w"
        using setm dist(2) by (simp, metis imageI)
      then show ?thesis using inv by (simp add: merge_inv_def rest' len)
    next
      case False
      then show ?thesis using that h''_eq srt w len by (simp add: rest')
    qed
    moreover have "(\<forall>r \<in> set (snd (st' ! v)). \<not> isl r) \<and> sorted (map ol_start (rest_of st' v))
        \<and> (rest_of st' v \<noteq> [] \<longrightarrow> v \<in> worker_id ` set h'')" if "v < length st'" for v
    proof (cases "v = ?w")
      case True
      have "\<forall>r \<in> set (snd (st ! ?w)). \<not> isl r" using inv w by (simp add: merge_inv_def)
      then show ?thesis using True nth' rest' srt w some(1) h''_eq by simp
    next
      case False
      have "(\<forall>r \<in> set (snd (st ! v)). \<not> isl r) \<and> sorted (map ol_start (rest_of st v))
          \<and> (rest_of st v \<noteq> [] \<longrightarrow> v \<in> worker_id ` set h)"
        using inv that len by (simp add: merge_inv_def)
      then show ?thesis using False nth' rest' that len setm h''_eq by auto
    qed
    ultimately have "merge_inv h'' st'" by (simp add: merge_inv_def)
    moreover have "stream_total st = Suc (stream_total st')"
      using stream_total_update [OF w some(1)] some(4) by simp
    ultimately show ?thesis
      using some h'' pop_mset [OF p] pop_ge [OF p] pop_length [OF p] le
        all_rest_update [OF w some(2)] by auto
  qed
  then show "merge_inv h'' st'"
    and "add_mset (entry m) (image_mset entry (mset h'') + all_rest st')
           = image_mset entry (mset h) + all_rest st"
    and "\<And>x. x \<in> set h'' \<Longrightarrow> mstart m \<le> mstart x"
    and "length h'' + stream_total st' < length h + stream_total st"
    by blast+
qed

lemma merge_loop_correct:
  assumes "merge_inv h st" and "length h + stream_total st < fuel"
  shows "\<exists>out. merge_loop pop fuel h st = Some out
    \<and> mset out = image_mset entry (mset h) + all_rest st
    \<and> sorted (map ol_start out)
    \<and> (\<forall>x \<in> set out. \<exists>y \<in> set h. mstart y \<le> ol_start x)"
  using assms
proof (induction fuel arbitrary: h st)
  case (Suc fuel)
  show ?case
  proof (cases "pop h")
    case None
    then have "h = []" by (simp add: pop_None)
    moreover have "all_rest st = {#}"
      using Suc.prems(1) \<open>h = []\<close> by (auto simp: merge_inv_def all_rest_def intro!: sum.neutral)
    ultimately show ?thesis using None by simp
  next
    case (Some mh)
    obtain m h' where p: "pop h = Some (m, h')" using Some by (cases mh) auto
    obtain nxt st' where n: "stream_next st (worker_id m) = (nxt, st')" by fastforce
    define h'' where "h'' = (case nxt of None \<Rightarrow> h' | Some e \<Rightarrow> \<lparr> entry = e, worker_id = worker_id m \<rparr> # h')"
    note step = merge_inv_pop [OF Suc.prems(1) p n h''_def]
    obtain out where out: "merge_loop pop fuel h'' st' = Some out"
      "mset out = image_mset entry (mset h'') + all_rest st'" "sorted (map ol_start out)"
      "\<forall>x \<in> set out. \<exists>y \<in> set h''. mstart y \<le> ol_start x"
      using Suc.IH [OF step(1)] step(4) Suc.prems(2) by auto
    have "merge_loop pop (Suc fuel) h st = Some (entry m # out)"
      using p n out(1) by (simp add: h''_def)
    moreover have "\<forall>x \<in> set out. mstart m \<le> ol_start x"
      using out(4) step(3) order_trans by blast
    moreover have "m \<in> set h" using pop_set [OF p] by simp
    ultimately show ?thesis
      using out step(2) by (auto intro: order_trans)
  qed
qed simp

end

text \<open>When every worker's file exists, its position among the readers is its worker id.\<close>

lemma open_streams_all:
  assumes "\<And>w. w < n \<Longrightarrow> files w \<noteq> None"
  shows "open_streams files n = map (\<lambda>w. (w, the (files w))) [0..<n]"
proof -
  have "concat (map (\<lambda>w. case files w of None \<Rightarrow> [] | Some f \<Rightarrow> [(w, f)]) ws)
      = map (\<lambda>w. (w, the (files w))) ws" if "\<forall>w \<in> set ws. files w \<noteq> None" for ws
    using that by (induction ws) auto
  then show ?thesis using assms by (simp add: open_streams_def)
qed

definition first_entry :: "nat \<times> oplog_file \<Rightarrow> MergeEntry list" where
  "first_entry p =
     (case snd p of Inr e # _ \<Rightarrow> [\<lparr> entry = e, worker_id = fst p \<rparr>] | _ \<Rightarrow> [])"

lemma init_heap_eq:
  "init_heap st = (concat (map first_entry st), map (\<lambda>(w, f). (w, tl f)) st)"
  by (induction st rule: init_heap.induct)
    (auto simp: first_entry_def Let_def split: prod.splits list.splits sum.splits)

lemma map_worker_first_entries:
  "map worker_id (concat (map first_entry st)) = map fst (filter (\<lambda>p. first_entry p \<noteq> []) st)"
  by (induction st) (auto simp: first_entry_def split: list.splits sum.splits)

definition sorted_file :: "oplog_file \<Rightarrow> bool" where
  "sorted_file f \<longleftrightarrow> (\<forall>r \<in> set f. \<not> isl r) \<and> sorted (map (ol_start \<circ> projr) f)"

lemma first_entry_ok:
  "sorted_file f \<Longrightarrow> first_entry (w, f) =
     (if f = [] then [] else [\<lparr> entry = projr (hd f), worker_id = w \<rparr>])"
  by (auto simp: first_entry_def sorted_file_def split: list.splits sum.splits)

lemma init_inv:
  assumes "\<And>w. w < n \<Longrightarrow> sorted_file (fs w)"
  defines "st \<equiv> map (\<lambda>w. (w, fs w)) [0..<n]"
  shows "merge_inv (fst (init_heap st)) (snd (init_heap st))"
    and "image_mset entry (mset (fst (init_heap st))) + all_rest (snd (init_heap st))
           = (\<Sum>w<n. mset (map projr (fs w)))"
    and "length (fst (init_heap st)) + stream_total (snd (init_heap st)) \<le> stream_total st"
proof -
  let ?h = "concat (map first_entry st)" and ?st = "map (\<lambda>(w, f). (w, tl f)) st"
  have rest: "rest_of ?st w = map projr (tl (fs w))" if "w < n" for w
    using that by (simp add: rest_of_def st_def)
  have "distinct (map fst st)" by (simp add: st_def comp_def)
  then have "distinct (map worker_id ?h)"
    unfolding map_worker_first_entries by (rule distinct_map_filter)
  moreover have heap: "set ?h = {\<lparr> entry = projr (hd (fs w)), worker_id = w \<rparr> | w. w < n \<and> fs w \<noteq> []}"
    using assms(1) by (auto simp: st_def first_entry_ok split: if_splits)
  moreover have "sorted (map ol_start (rest_of ?st w))
      \<and> (\<forall>e \<in> set (rest_of ?st w). fs w \<noteq> [] \<longrightarrow> ol_start (projr (hd (fs w))) \<le> ol_start e)"
    if "w < n" for w
    using assms(1) [OF that] unfolding rest [OF that] by (cases "fs w") (auto simp: sorted_file_def)
  moreover have "\<forall>r \<in> set (snd (?st ! w)). \<not> isl r" if "w < n" for w
    using assms(1) [OF that] that by (cases "fs w") (auto simp: st_def sorted_file_def)
  moreover have "rest_of ?st w \<noteq> [] \<longrightarrow> w \<in> worker_id ` set ?h" if "w < n" for w
  proof
    assume "rest_of ?st w \<noteq> []"
    then have "fs w \<noteq> []" unfolding rest [OF that] by auto
    then have "\<lparr> entry = projr (hd (fs w)), worker_id = w \<rparr> \<in> set ?h"
      unfolding heap using that by blast
    then show "w \<in> worker_id ` set ?h" by (rule rev_image_eqI) simp
  qed
  moreover have len: "length ?st = n" by (simp add: st_def)
  ultimately show "merge_inv (fst (init_heap st)) (snd (init_heap st))"
    unfolding merge_inv_def init_heap_eq fst_conv snd_conv by auto
  have "image_mset entry (mset (concat (map first_entry (map (\<lambda>w. (w, fs w)) ws))))
      + (\<Sum>w\<leftarrow>ws. mset (map projr (tl (fs w)))) = (\<Sum>w\<leftarrow>ws. mset (map projr (fs w)))"
    if "set ws \<subseteq> {..<n}" for ws
    using that
  proof (induction ws)
    case (Cons w ws)
    then show ?case using assms(1) [of w] by (cases "fs w") (auto simp: first_entry_ok ac_simps)
  qed simp
  from this [of "[0..<n]"] have "image_mset entry (mset ?h) + (\<Sum>w<n. mset (map projr (tl (fs w))))
      = (\<Sum>w<n. mset (map projr (fs w)))"
    by (simp add: st_def sum_list_distinct_conv_sum_set lessThan_atLeast0 flip: atLeast_upt)
  moreover have "all_rest ?st = (\<Sum>w<n. mset (map projr (tl (fs w))))"
    unfolding all_rest_def using len by (auto simp: rest intro!: sum.cong)
  ultimately show "image_mset entry (mset (fst (init_heap st))) + all_rest (snd (init_heap st))
      = (\<Sum>w<n. mset (map projr (fs w)))"
    unfolding init_heap_eq by simp
  show "length (fst (init_heap st)) + stream_total (snd (init_heap st)) \<le> stream_total st"
    unfolding init_heap_eq fst_conv snd_conv
    by (induction st) (auto simp: stream_total_def first_entry_def split: list.splits sum.splits)
qed

context min_heap
begin

lemma merge_complete:
  assumes "0 < n" and "\<And>w. w < n \<Longrightarrow> files w = Some (fs w)" and "\<And>w. w < n \<Longrightarrow> sorted_file (fs w)"
  shows "\<exists>out. merge_worker_oplogs pop files n = Some out
    \<and> mset out = (\<Sum>w<n. mset (map projr (fs w))) \<and> sorted (map ol_start out)"
proof -
  let ?st = "map (\<lambda>w. (w, fs w)) [0..<n]"
  have st: "open_streams files n = ?st" using assms(2) by (simp add: open_streams_all)
  note init = init_inv [of n fs, OF assms(3)]
  have "length (fst (init_heap ?st)) + stream_total (snd (init_heap ?st)) < Suc (stream_total ?st)"
    using init(3) by simp
  from merge_loop_correct [OF init(1) this]
  have "\<exists>out. merge_loop pop (Suc (stream_total ?st)) (fst (init_heap ?st)) (snd (init_heap ?st)) = Some out
      \<and> mset out = (\<Sum>w<n. mset (map projr (fs w))) \<and> sorted (map ol_start out)"
    using init(2) by auto
  then show ?thesis
    using assms(1) by (simp add: merge_worker_oplogs_def st Let_def case_prod_beta)
qed

end

subsection \<open>Order check\<close>

fun check_sorted_from ::
  "nat \<Rightarrow> int option \<Rightarrow> nat \<Rightarrow> oplog_file \<Rightarrow> string + (bool \<times> nat \<times> nat option)" where
  "check_sorted_from mx prev line_num [] = Inr (True, line_num, None)"
| "check_sorted_from mx prev line_num (Inl err # f) = Inl err"
| "check_sorted_from mx prev line_num (Inr e # f) =
     (let n = line_num + 1
      in if (case prev of Some p \<Rightarrow> ol_start e < p | None \<Rightarrow> False) then Inr (False, n, Some n)
         else if mx \<le> n then Inr (True, n, None)
         else check_sorted_from mx (Some (ol_start e)) n f)"

definition check_oplog_sorted :: "oplog_file \<Rightarrow> nat option \<Rightarrow> string + (bool \<times> nat \<times> nat option)" where
  "check_oplog_sorted f max_lines =
     check_sorted_from (case max_lines of Some m \<Rightarrow> m | None \<Rightarrow> u64_max) None 0 f"

lemma check_sorted_from_spec:
  "list_all (\<lambda>r. \<not> isl r) f \<Longrightarrow> line_num + length f \<le> mx \<Longrightarrow>
     \<exists>n p. check_sorted_from mx prev line_num f =
       Inr (sorted (case prev of None \<Rightarrow> map (ol_start \<circ> projr) f
                    | Some t \<Rightarrow> t # map (ol_start \<circ> projr) f), n, p)
       \<and> line_num \<le> n \<and> n \<le> line_num + length f"
proof (induction mx prev line_num f rule: check_sorted_from.induct)
  case (3 mx prev line_num e f)
  show ?case
  proof (cases "case prev of Some p \<Rightarrow> ol_start e < p | None \<Rightarrow> False")
    case True
    then show ?thesis by (auto simp: Let_def split: option.splits)
  next
    case False
    then have srt: "sorted (case prev of None \<Rightarrow> map (ol_start \<circ> projr) (Inr e # f)
          | Some t \<Rightarrow> t # map (ol_start \<circ> projr) (Inr e # f))
        = sorted (ol_start e # map (ol_start \<circ> projr) f)"
      by (auto split: option.splits)
    show ?thesis
    proof (cases "mx \<le> line_num + 1")
      case True
      then have "length f = 0" using "3.prems" by (simp del: length_0_conv)
      then show ?thesis using False True srt by simp
    next
      case nle: False
      have "\<exists>n p. check_sorted_from mx (Some (ol_start e)) (line_num + 1) f =
          Inr (sorted (ol_start e # map (ol_start \<circ> projr) f), n, p)
          \<and> line_num + 1 \<le> n \<and> n \<le> line_num + 1 + length f"
        using "3.IH" [OF refl False nle] "3.prems" by simp
      then show ?thesis unfolding srt using False nle by (auto simp: Let_def)
    qed
  qed
qed (auto split: option.splits)

subsection \<open>The window sort\<close>

locale insertion_search =
  fixes search :: "int list \<Rightarrow> int \<Rightarrow> nat"
  assumes search_bound: "sorted ts \<Longrightarrow> search ts t \<le> length ts"
    and search_below: "sorted ts \<Longrightarrow> x \<in> set (take (search ts t) ts) \<Longrightarrow> x \<le> t"
    and search_above: "sorted ts \<Longrightarrow> x \<in> set (drop (search ts t) ts) \<Longrightarrow> t \<le> x"
begin

lemma insert_sorted:
  "sorted ts \<Longrightarrow> sorted (take (search ts t) ts @ t # drop (search ts t) ts)"
  using search_below search_above
  by (fastforce simp: sorted_append sorted_wrt_take sorted_wrt_drop intro: order_trans)

end

definition leftmost_pos :: "int list \<Rightarrow> int \<Rightarrow> nat" where
  "leftmost_pos ts t = length (takeWhile (\<lambda>x. x < t) ts)"

interpretation lp: insertion_search leftmost_pos
proof
  show "leftmost_pos ts t \<le> length ts" for ts t
    by (simp add: leftmost_pos_def length_takeWhile_le)
  show "x \<le> t" if "sorted ts" "x \<in> set (take (leftmost_pos ts t) ts)" for ts t x
    using that unfolding leftmost_pos_def takeWhile_eq_take [symmetric] by (auto dest: set_takeWhileD)
  show "t \<le> x" if "sorted ts" "x \<in> set (drop (leftmost_pos ts t) ts)" for ts t x
  proof -
    have "x \<in> set (dropWhile (\<lambda>x. x < t) ts)"
      using that by (simp add: leftmost_pos_def dropWhile_eq_drop)
    then show ?thesis using \<open>sorted ts\<close>
      by (induction ts) (auto split: if_splits)
  qed
qed

definition window_insert :: "(int list \<Rightarrow> int \<Rightarrow> nat) \<Rightarrow> OpLogEntry list \<Rightarrow> OpLogEntry \<Rightarrow> OpLogEntry list" where
  "window_insert search window e =
     (let pos = search (map ol_start window) (ol_start e) in take pos window @ e # drop pos window)"

fun spill :: "nat \<Rightarrow> OpLogEntry list \<Rightarrow> OpLogEntry list \<Rightarrow> OpLogEntry list \<times> OpLogEntry list" where
  "spill w out [] = (out, [])"
| "spill w out (x # xs) = (if w < length (x # xs) then spill w (out @ [x]) xs else (out, x # xs))"

fun sort_run ::
  "(int list \<Rightarrow> int \<Rightarrow> nat) \<Rightarrow> nat \<Rightarrow> OpLogEntry list \<Rightarrow> OpLogEntry list \<Rightarrow> oplog_file
    \<Rightarrow> OpLogEntry list \<times> string option" where
  "sort_run search w out window [] = (out @ window, None)"
| "sort_run search w out window (Inl err # f) = (out, Some err)"
| "sort_run search w out window (Inr e # f) =
     (let (out', window') = spill w out (window_insert search window e)
      in sort_run search w out' window' f)"

text \<open>What \<open>sort_oplog_file\<close> has written to the output file, and the error it returned.\<close>

definition sort_oplog_file ::
  "(int list \<Rightarrow> int \<Rightarrow> nat) \<Rightarrow> oplog_file \<Rightarrow> nat \<Rightarrow> OpLogEntry list \<times> string option" where
  "sort_oplog_file search f window_size = sort_run search window_size [] [] f"

text \<open>How many entries that start later precede entry \<open>i\<close>: its out-of-order distance.\<close>

definition displacement :: "int list \<Rightarrow> nat \<Rightarrow> nat" where
  "displacement ts i = length (filter (\<lambda>t. ts ! i < t) (take i ts))"

definition within_window :: "nat \<Rightarrow> int list \<Rightarrow> bool" where
  "within_window w ts = list_all (\<lambda>i. displacement ts i \<le> w) [0..<length ts]"

lemma spill_mset: "spill w out xs = (out', xs') \<Longrightarrow> mset out' + mset xs' = mset out + mset xs"
  by (induction w out xs rule: spill.induct) (auto split: if_splits)

lemma spill_once:
  "length xs \<le> Suc w \<Longrightarrow>
     spill w out xs = (if length xs = Suc w then (out @ [hd xs], tl xs) else (out, xs))"
proof (cases xs)
  case (Cons x ys)
  assume "length xs \<le> Suc w"
  then show ?thesis using Cons by (cases ys) auto
qed simp

lemma window_insert_mset: "mset (window_insert search window e) = add_mset e (mset window)"
  unfolding window_insert_def Let_def
  by (metis append_take_drop_id mset_append mset.simps(2) union_mset_add_mset_right)

lemma sort_run_permutes:
  "list_all (\<lambda>r. \<not> isl r) f \<Longrightarrow>
     snd (sort_run search w out window f) = None
     \<and> mset (fst (sort_run search w out window f)) = mset out + mset window + mset (map projr f)"
proof (induction search w out window f rule: sort_run.induct)
  case (3 search w out window e f)
  obtain out' window' where sp: "spill w out (window_insert search window e) = (out', window')"
    by fastforce
  show ?case
    using "3.IH" [OF sp [symmetric] refl] "3.prems" sp spill_mset [OF sp] window_insert_mset
    by simp
qed simp_all

fun late_entries_ok :: "nat \<Rightarrow> int list \<Rightarrow> int list \<Rightarrow> bool" where
  "late_entries_ok w dn [] = True"
| "late_entries_ok w dn (t # ts) =
     (length (filter (\<lambda>x. t < x) dn) \<le> w \<and> late_entries_ok w (dn @ [t]) ts)"

lemma late_entries_displacement:
  "late_entries_ok w dn ts \<longleftrightarrow>
     list_all (\<lambda>i. displacement (dn @ ts) i \<le> w) [length dn..<length dn + length ts]"
proof (induction ts arbitrary: dn)
  case (Cons t ts)
  have "[length dn..<length dn + length (t # ts)]
      = length dn # [Suc (length dn)..<length dn + length (t # ts)]"
    by (rule upt_conv_Cons) simp
  then show ?case
    using Cons [of "dn @ [t]"] by (simp add: displacement_def)
qed simp

lemma late_entries_ok_iff: "late_entries_ok w [] ts \<longleftrightarrow> within_window w ts"
  by (simp add: late_entries_displacement within_window_def)

text \<open>
  The invariant of the loop: what is written is sorted and no later than the window; the window
  is sorted and full as soon as anything has been written.
\<close>

definition window_inv :: "nat \<Rightarrow> OpLogEntry list \<Rightarrow> OpLogEntry list \<Rightarrow> int list \<Rightarrow> bool" where
  "window_inv w out window dn \<longleftrightarrow>
     sorted (map ol_start out) \<and> sorted (map ol_start window)
     \<and> (\<forall>x \<in> set out. \<forall>y \<in> set window. ol_start x \<le> ol_start y)
     \<and> length window \<le> w \<and> (out \<noteq> [] \<longrightarrow> length window = w)
     \<and> mset (map ol_start out) + mset (map ol_start window) = mset dn"

lemma window_inv_late:
  assumes inv: "window_inv w out window dn"
    and late: "length (filter (\<lambda>x. t < x) dn) \<le> w" and o: "o' \<in> set out"
  shows "ol_start o' \<le> t"
proof (rule ccontr)
  assume "\<not> ol_start o' \<le> t"
  then have gt: "\<forall>y \<in> set window. t < ol_start y" and "0 < length (filter (\<lambda>x. t < x) (map ol_start out))"
    using inv o by (fastforce simp: window_inv_def, force simp: filter_empty_conv)
  moreover have "length (filter (\<lambda>x. t < x) (map ol_start window)) = w"
    using gt inv o by (auto simp: window_inv_def filter_map comp_def filter_id_conv)
  moreover have "length (filter (\<lambda>x. t < x) dn) =
      length (filter (\<lambda>x. t < x) (map ol_start out)) + length (filter (\<lambda>x. t < x) (map ol_start window))"
    using inv unfolding window_inv_def by (metis mset_filter size_mset size_union filter_union_mset)
  ultimately show False using late by simp
qed

context insertion_search
begin

lemma window_insert_sorted:
  "sorted (map ol_start window) \<Longrightarrow> sorted (map ol_start (window_insert search window e))"
  using insert_sorted [of "map ol_start window" "ol_start e"]
  by (simp add: window_insert_def Let_def flip: take_map drop_map)

lemma window_inv_step:
  assumes inv: "window_inv w out window dn"
    and late: "length (filter (\<lambda>x. ol_start e < x) dn) \<le> w"
    and sp: "spill w out (window_insert search window e) = (out', window')"
  shows "window_inv w out' window' (dn @ [ol_start e])"
proof -
  let ?win = "window_insert search window e"
  have srt: "sorted (map ol_start ?win)" using inv window_insert_sorted by (simp add: window_inv_def)
  have ms: "mset ?win = add_mset e (mset window)" by (rule window_insert_mset)
  then have st: "set ?win = insert e (set window)" and len: "length ?win = Suc (length window)"
    by (metis set_mset_add_mset_insert set_mset_mset, metis size_add_mset size_mset)
  have le: "\<forall>x \<in> set out. \<forall>y \<in> set ?win. ol_start x \<le> ol_start y"
    using inv window_inv_late [OF inv late] st by (auto simp: window_inv_def)
  have total_ms: "mset (map ol_start out) + mset (map ol_start ?win) = mset (dn @ [ol_start e])"
    using inv ms by (simp add: window_inv_def)
  show ?thesis
  proof (cases "length ?win = Suc w")
    case True
    then obtain x ys where win: "?win = x # ys" by (cases ?win) auto
    then have "out' = out @ [x]" "window' = ys" using sp spill_once [of ?win w out] True by auto
    then show ?thesis
      using inv srt le total_ms True win by (auto simp: window_inv_def sorted_append)
  next
    case False
    then have "length window < w" using inv len by (auto simp: window_inv_def)
    then have "out' = out" "window' = ?win" "out = []"
      using sp spill_once [of ?win w out] len inv by (auto simp: window_inv_def)
    then show ?thesis
      using srt total_ms len \<open>length window < w\<close> by (simp add: window_inv_def)
  qed
qed

lemma sort_run_sorted:
  "list_all (\<lambda>r. \<not> isl r) f \<Longrightarrow> window_inv w out window dn \<Longrightarrow>
     late_entries_ok w dn (map (ol_start \<circ> projr) f) \<Longrightarrow>
     sorted (map ol_start (fst (sort_run search w out window f)))"
proof (induction f arbitrary: out window dn)
  case Nil
  then show ?case by (auto simp: window_inv_def sorted_append)
next
  case (Cons r f)
  obtain e where r: "r = Inr e" using Cons.prems(1) by (cases r) auto
  obtain out' window' where sp: "spill w out (window_insert search window e) = (out', window')"
    by fastforce
  have "window_inv w out' window' (dn @ [ol_start e])"
    using window_inv_step [OF Cons.prems(2) _ sp] Cons.prems(3) r by simp
  then show ?case using Cons.IH Cons.prems r sp by simp
qed

lemma sort_file_sorted:
  assumes "list_all (\<lambda>r. \<not> isl r) f" and "within_window w (map (ol_start \<circ> projr) f)"
  shows "sorted (map ol_start (fst (sort_oplog_file search f w)))"
  unfolding sort_oplog_file_def
  by (rule sort_run_sorted [where dn = "[]"])
    (use assms in \<open>simp_all add: window_inv_def late_entries_ok_iff\<close>)

end

subsection \<open>Worker file names\<close>

text \<open>
  \<open>Path::file_stem\<close> and \<open>Path::extension\<close> split the file name at its last dot, unless there is
  none before it but a leading dot. A path is its parent and its file name, if it has one.
\<close>

record rust_path =
  parent_dir :: "string option"
  file_name :: "string option"

definition rsplit_dot :: "string \<Rightarrow> string \<times> string option" where
  "rsplit_dot f =
     (let after = rev (takeWhile (\<lambda>c. c \<noteq> CHR ''.'') (rev f));
          before = take (length f - Suc (length after)) f
      in if f = ''..'' \<or> CHR ''.'' \<notin> set f \<or> before = [] then (f, None) else (before, Some after))"

definition file_stem :: "rust_path \<Rightarrow> string option" where
  "file_stem p = map_option (fst \<circ> rsplit_dot) (file_name p)"

definition path_extension :: "rust_path \<Rightarrow> string option" where
  "path_extension p = Option.bind (file_name p) (snd \<circ> rsplit_dot)"

definition worker_oplog_path :: "rust_path \<Rightarrow> nat \<Rightarrow> rust_path" where
  "worker_oplog_path base_path w =
     (let base_stem = (case file_stem base_path of Some s \<Rightarrow> s | None \<Rightarrow> ''oplog'');
          extension = (case path_extension base_path of Some x \<Rightarrow> x | None \<Rightarrow> ''tsv'')
      in \<lparr> parent_dir = Some (case parent_dir base_path of Some d \<Rightarrow> d | None \<Rightarrow> ''.''),
           file_name = Some (base_stem @ ''-worker-'' @ show_nat w @ ''.'' @ extension) \<rparr>)"

lemma worker_oplog_path_inject: "worker_oplog_path p v = worker_oplog_path p w \<longleftrightarrow> v = w"
  by (auto simp: worker_oplog_path_def Let_def)

lemma worker_oplog_path_example:
  "file_name (worker_oplog_path \<lparr> parent_dir = Some ''/tmp'', file_name = Some ''test.tsv.zst'' \<rparr> 3)
     = Some ''test.tsv-worker-3.zst''"
  by (simp add: worker_oplog_path_def file_stem_def path_extension_def rsplit_dot_def
      show_nat.simps digit_char_def)

subsection \<open>Properties\<close>

text \<open>
  C4: When every worker's file is there, parses, and is in chronological order, the merge
  returns, and the merged file holds exactly the entries of all the workers, in chronological
  order. The heap is any heap with the documented law of \<open>BinaryHeap::pop\<close>.
\<close>

theorem merge_keeps_all_entries_in_order:
  assumes "min_heap pop" and "0 < n"
    and "\<And>w. w < n \<Longrightarrow> files w = Some (fs w)" and "\<And>w. w < n \<Longrightarrow> sorted_file (fs w)"
  shows "\<exists>out. merge_worker_oplogs pop files n = Some out
    \<and> mset out = (\<Sum>w<n. mset (map projr (fs w))) \<and> sorted (map ol_start out)"
  using assms by (rule min_heap.merge_complete)

definition sample_entry :: "int \<Rightarrow> OpLogEntry" where
  "sample_entry t = \<lparr> ol_op = ''GET'', ol_bytes = 1, ol_endpoint = [], ol_file = ''f'',
     ol_error = None, ol_start = t, ol_duration_ns = Some 5 \<rparr>"

definition sample_files :: "nat \<Rightarrow> oplog_file" where
  "sample_files w = (if w = 0 then [Inr (sample_entry 1), Inr (sample_entry 4)] else [Inr (sample_entry 2)])"

lemma merge_keeps_all_entries_witness:
  "\<exists>out. merge_worker_oplogs list_pop (\<lambda>w. Some (sample_files w)) 2 = Some out
    \<and> mset out = (\<Sum>w<2. mset (map projr (sample_files w))) \<and> sorted (map ol_start out)"
  by (rule merge_keeps_all_entries_in_order [OF lh.min_heap_axioms])
    (auto simp: sorted_file_def sample_entry_def sample_files_def)

text \<open>
  The reader of a worker is fetched by worker id from a list that skips the missing
  workers: with worker 0 missing, every entry of the last worker after its first is lost, although
  both remaining files are well formed.
\<close>

lemma merge_missing_worker_loses_entries:
  "merge_worker_oplogs list_pop
     (\<lambda>w. if w = 0 then None
          else Some [Inr (sample_entry (int w)), Inr (sample_entry (10 + int w))]) 3
   = Some [sample_entry 1, sample_entry 2, sample_entry 12]"
  by (simp add: merge_worker_oplogs_def open_streams_def stream_total_def stream_next_def
      sample_entry_def upt_rec numeral_eq_Suc Let_def)

text \<open>
  C10: The window sort writes every entry of a file that parses exactly once, and the output is in
  chronological order whenever no entry has more than \<open>window_size\<close> later-starting entries
  before it.
\<close>

theorem sort_oplog_correct:
  assumes "insertion_search search" and "list_all (\<lambda>r. \<not> isl r) f"
    and "within_window window_size (map (ol_start \<circ> projr) f)"
  shows "snd (sort_oplog_file search f window_size) = None
    \<and> mset (fst (sort_oplog_file search f window_size)) = mset (map projr f)
    \<and> sorted (map ol_start (fst (sort_oplog_file search f window_size)))"
  using sort_run_permutes [OF assms(2)] insertion_search.sort_file_sorted [OF assms]
  by (simp add: sort_oplog_file_def)

lemma sort_oplog_correct_witness:
  "snd (sort_oplog_file leftmost_pos (map (\<lambda>t. Inr (sample_entry t)) [3, 1, 2]) 2) = None
    \<and> mset (fst (sort_oplog_file leftmost_pos (map (\<lambda>t. Inr (sample_entry t)) [3, 1, 2]) 2))
      = mset (map projr (map (\<lambda>t. Inr (sample_entry t) :: string + OpLogEntry) [3, 1, 2]))
    \<and> sorted (map ol_start (fst (sort_oplog_file leftmost_pos (map (\<lambda>t. Inr (sample_entry t)) [3, 1, 2]) 2)))"
  by (rule sort_oplog_correct [OF lp.insertion_search_axioms])
    (simp_all add: within_window_def displacement_def sample_entry_def)

end
