(* ===== verification/Barrier.thy ===== *)
theory Barrier
  imports Config
begin

text \<open>
  The barrier manager of the controller (\<open>BarrierManager\<close> in \<open>src/bin/controller.rs\<close>): heartbeats,
  liveness checks with retried queries, the two release decisions (\<open>check_barrier\<close> over the
  phase's ready set, \<open>check_barrier_ready\<close> per numbered barrier), the wait loop and the reset. An
  \<open>Instant\<close> is a number of nanoseconds and the clock readings are arguments; the answers of the
  agents to the status query are a parameter; a subtraction that would underflow is \<open>None\<close>.
\<close>

subsection \<open>State\<close>

record PhaseProgress =
  current_phase :: nat
  operations_completed :: nat
  phase_completed :: bool
  pp_at_barrier :: bool

record AgentHeartbeat =
  last_heartbeat :: nat
  last_progress :: "PhaseProgress option"
  missed_count :: nat
  is_alive :: bool
  query_in_progress :: bool

datatype BarrierStatus = Ready | Waiting | Degraded | Failed

record BarrierState =
  bs_ready :: "(string, nat) hmap"
  released :: bool

record BarrierReleaseInfo =
  barrier_index :: nat
  bi_ready_agents :: "string list"

record BarrierManager =
  bm_agents :: "(string, AgentHeartbeat) hmap"
  bm_config :: PhaseBarrierConfig
  bm_ready :: "string list"
  bm_failed :: "string list"
  bm_barriers :: "(nat, BarrierState) hmap"

definition fresh_heartbeat :: "nat \<Rightarrow> AgentHeartbeat" where
  "fresh_heartbeat now =
     \<lparr> last_heartbeat = now, last_progress = None, missed_count = 0, is_alive = True,
       query_in_progress = False \<rparr>"

definition barrier_manager_new :: "nat \<Rightarrow> string list \<Rightarrow> PhaseBarrierConfig \<Rightarrow> BarrierManager" where
  "barrier_manager_new now ids cfg =
     \<lparr> bm_agents = foldl (\<lambda>m i. hput i (fresh_heartbeat now) m) [] ids,
       bm_config = cfg, bm_ready = [], bm_failed = [], bm_barriers = [] \<rparr>"

subsection \<open>Heartbeats and liveness\<close>

definition process_heartbeat :: "nat \<Rightarrow> string \<Rightarrow> PhaseProgress \<Rightarrow> BarrierManager \<Rightarrow> BarrierManager" where
  "process_heartbeat now agent_id progress bm =
     (case hget (bm_agents bm) agent_id of
        None \<Rightarrow> bm
      | Some hb \<Rightarrow>
          (let hb' = hb\<lparr>last_heartbeat := now, last_progress := Some progress, missed_count := 0,
                        is_alive := True, query_in_progress := False\<rparr>;
               bm' = bm\<lparr>bm_agents := hput agent_id hb' (bm_agents bm)\<rparr>
           in if phase_completed progress \<or> pp_at_barrier progress
              then bm'\<lparr>bm_ready := hset_insert agent_id (bm_ready bm)\<rparr>
              else bm'))"

text \<open>One attempt of the status query: the response with its progress, an RPC error, a timeout.\<close>

datatype query_outcome = Response "PhaseProgress option" | RpcError | QueryTimeout

datatype query_error = NoClient | QueryFailed nat | QueryTimedOut nat

text \<open>
  The retry loop, with the backoffs slept so far. The attempts are numbered from 0.
\<close>

function query_loop ::
  "nat \<Rightarrow> (nat \<Rightarrow> query_outcome) \<Rightarrow> nat \<Rightarrow> nat \<Rightarrow> nat list
    \<Rightarrow> (query_error + PhaseProgress option) \<times> nat list" where
  "query_loop max_retries answer retries backoff_ms slept =
     (case answer retries of
        Response p \<Rightarrow> (Inr p, slept)
      | RpcError \<Rightarrow>
          (if max_retries \<le> retries then (Inl (QueryFailed retries), slept)
           else query_loop max_retries answer (retries + 1) (min (backoff_ms * 2) 10000) (slept @ [backoff_ms]))
      | QueryTimeout \<Rightarrow>
          (if max_retries \<le> retries then (Inl (QueryTimedOut retries), slept)
           else query_loop max_retries answer (retries + 1) (min (backoff_ms * 2) 10000) (slept @ [backoff_ms])))"
  by pat_completeness auto

termination
  by (relation "measure (\<lambda>(m, _, r, _, _). m - r)") auto

declare query_loop.simps [simp del]

definition query_agent_with_retry ::
  "string list \<Rightarrow> (string \<Rightarrow> nat \<Rightarrow> query_outcome) \<Rightarrow> BarrierManager \<Rightarrow> string
    \<Rightarrow> (query_error + PhaseProgress option) \<times> nat list" where
  "query_agent_with_retry clients answer bm agent_id =
     (if agent_id \<notin> set clients then (Inl NoClient, [])
      else query_loop (query_retries (bm_config bm)) (answer agent_id) 0 1000 [])"

definition heartbeat_recent :: "BarrierManager \<Rightarrow> nat \<Rightarrow> AgentHeartbeat \<Rightarrow> bool" where
  "heartbeat_recent bm now hb \<longleftrightarrow> now - last_heartbeat hb < from_secs (heartbeat_interval (bm_config bm))"

definition miss_heartbeat :: "BarrierManager \<Rightarrow> nat \<Rightarrow> string \<Rightarrow> AgentHeartbeat \<Rightarrow> AgentHeartbeat \<times> bool" where
  "miss_heartbeat bm now agent_id hb =
     (if agent_id \<in> set (bm_failed bm) \<or> heartbeat_recent bm now hb then (hb, False)
      else (let hb' = hb\<lparr>missed_count := missed_count hb + 1\<rparr>
            in if missed_threshold (bm_config bm) \<le> missed_count hb' \<and> \<not> query_in_progress hb'
               then (hb'\<lparr>query_in_progress := True\<rparr>, True)
               else (hb', False)))"

definition mark_agent_failed :: "string \<Rightarrow> BarrierManager \<Rightarrow> BarrierManager" where
  "mark_agent_failed agent_id bm =
     bm\<lparr>bm_agents := (case hget (bm_agents bm) agent_id of
                        Some hb \<Rightarrow> hput agent_id (hb\<lparr>is_alive := False, query_in_progress := False\<rparr>) (bm_agents bm)
                      | None \<Rightarrow> bm_agents bm),
        bm_failed := hset_insert agent_id (bm_failed bm)\<rparr>"

definition query_and_mark ::
  "string list \<Rightarrow> (string \<Rightarrow> nat \<Rightarrow> query_outcome) \<Rightarrow> (string \<Rightarrow> nat) \<Rightarrow> BarrierManager \<Rightarrow> string
    \<Rightarrow> BarrierManager" where
  "query_and_mark clients answer clock bm agent_id =
     (case fst (query_agent_with_retry clients answer bm agent_id) of
        Inr None \<Rightarrow> bm
      | Inr (Some p) \<Rightarrow> process_heartbeat (clock agent_id) agent_id p bm
      | Inl _ \<Rightarrow> mark_agent_failed agent_id bm)"

definition check_liveness ::
  "string list \<Rightarrow> (string \<Rightarrow> nat \<Rightarrow> query_outcome) \<Rightarrow> (string \<Rightarrow> nat) \<Rightarrow> nat \<Rightarrow> BarrierManager
    \<Rightarrow> BarrierManager" where
  "check_liveness clients answer clock now bm =
     (let pass = map (\<lambda>(i, hb). (i, miss_heartbeat bm now i hb)) (bm_agents bm);
          to_query = map fst (filter (\<lambda>(i, _, q). q) pass);
          bm' = bm\<lparr>bm_agents := map (\<lambda>(i, hb, _). (i, hb)) pass\<rparr>
      in foldl (query_and_mark clients answer clock) bm' to_query)"

subsection \<open>Release decisions\<close>

definition check_barrier :: "BarrierManager \<Rightarrow> BarrierStatus option" where
  "check_barrier bm =
     (let ready_count = length (bm_ready bm);
          total_count = length (bm_agents bm);
          failed_count = length (bm_failed bm)
      in Option.bind (usize_sub total_count failed_count) (\<lambda>alive_count.
           case barrier_type (bm_config bm) of
             AllOrNothing \<Rightarrow>
               Some (if 0 < failed_count then Failed
                     else if ready_count = alive_count then Ready
                     else Waiting)
           | Majority \<Rightarrow>
               (if alive_count \<le> total_count div 2 then Some Failed
                else if ready_count = alive_count \<and> failed_count = 0 then Some Ready
                else if total_count div 2 < ready_count then Some Degraded
                else Option.bind (usize_sub alive_count ready_count) (\<lambda>left.
                     Option.bind (usize_sub (total_count div 2 + 1) ready_count) (\<lambda>missing.
                       Some (if left < missing then Failed else Waiting))))
           | BestEffort \<Rightarrow>
               Some (if alive_count = 0 then Failed
                     else if ready_count = alive_count \<and> failed_count = 0 then Ready
                     else if 0 < ready_count then Degraded
                     else Waiting)))"

definition agent_at_barrier :: "string \<Rightarrow> nat \<Rightarrow> nat \<Rightarrow> BarrierManager \<Rightarrow> BarrierManager" where
  "agent_at_barrier agent_id index sequence bm =
     (let st = (case hget (bm_barriers bm) index of
                  Some st \<Rightarrow> st | None \<Rightarrow> \<lparr> bs_ready = [], released = False \<rparr>);
          should_update = (case hget (bs_ready st) agent_id of
                             Some existing \<Rightarrow> existing < sequence | None \<Rightarrow> True);
          st' = (if should_update then st\<lparr>bs_ready := hput agent_id sequence (bs_ready st)\<rparr> else st)
      in bm\<lparr>bm_barriers := hput index st' (bm_barriers bm)\<rparr>)"

definition can_release :: "BarrierType \<Rightarrow> nat \<Rightarrow> nat \<Rightarrow> nat \<Rightarrow> nat \<Rightarrow> bool" where
  "can_release bt ready_count total_count failed_count alive_count =
     (case bt of
        AllOrNothing \<Rightarrow> failed_count = 0 \<and> ready_count = alive_count
      | Majority \<Rightarrow> total_count div 2 < ready_count
      | BestEffort \<Rightarrow> ready_count = alive_count \<and> 0 < alive_count)"

text \<open>The outer option is the panic of the subtraction, the inner one the result of the code.\<close>

definition check_barrier_ready :: "nat \<Rightarrow> BarrierManager \<Rightarrow> BarrierReleaseInfo option option" where
  "check_barrier_ready index bm =
     (case hget (bm_barriers bm) index of
        None \<Rightarrow> Some None
      | Some st \<Rightarrow>
          (if released st then Some None
           else
             (let ready_count = length (bs_ready st);
                  total_count = length (bm_agents bm);
                  failed_count = length (bm_failed bm)
              in Option.bind (usize_sub total_count failed_count) (\<lambda>alive_count.
                   Some (if can_release (barrier_type (bm_config bm)) ready_count total_count failed_count alive_count
                         then Some \<lparr> barrier_index = index, bi_ready_agents = hkeys (bs_ready st) \<rparr>
                         else None)))))"

definition clear_barrier :: "nat \<Rightarrow> BarrierManager \<Rightarrow> BarrierManager" where
  "clear_barrier index bm =
     (case hget (bm_barriers bm) index of
        None \<Rightarrow> bm
      | Some st \<Rightarrow> bm\<lparr>bm_barriers := hput index (st\<lparr>released := True\<rparr>) (bm_barriers bm)\<rparr>)"

definition reset_heartbeat :: "nat \<Rightarrow> AgentHeartbeat \<Rightarrow> AgentHeartbeat" where
  "reset_heartbeat now hb =
     hb\<lparr>last_heartbeat := now, last_progress := None, missed_count := 0, is_alive := True,
        query_in_progress := False\<rparr>"

definition reset_barrier_state :: "nat \<Rightarrow> BarrierManager \<Rightarrow> BarrierManager" where
  "reset_barrier_state now bm =
     bm\<lparr>bm_ready := [], bm_failed := [], bm_barriers := [],
        bm_agents := map (\<lambda>(i, hb). (i, reset_heartbeat now hb)) (bm_agents bm)\<rparr>"

subsection \<open>The wait loop\<close>

datatype wait_result = WaitOk BarrierStatus | WaitInsufficient | WaitTimeout | StillWaiting | WaitPanic

text \<open>
  The clock readings of the successive iterations drive the loop, at its top and after its
  liveness check; \<open>StillWaiting\<close> is the state after the readings given. Each iteration sleeps
  100 ms, so the readings grow without bound. The loop holds the manager exclusively: no
  heartbeat is processed between the iterations, except the answers to its own queries.
\<close>

fun wait_loop ::
  "string list \<Rightarrow> (nat \<Rightarrow> string \<Rightarrow> nat \<Rightarrow> query_outcome) \<Rightarrow> (nat \<Rightarrow> string \<Rightarrow> nat) \<Rightarrow> nat \<Rightarrow> nat
    \<Rightarrow> (nat \<times> nat) list \<Rightarrow> BarrierManager \<Rightarrow> wait_result \<times> BarrierManager" where
  "wait_loop clients answer clock start last_check [] bm = (StillWaiting, bm)"
| "wait_loop clients answer clock start last_check ((now, after) # later) bm =
     (if from_secs (agent_barrier_timeout (bm_config bm)) \<le> now - start
      then (WaitTimeout, reset_barrier_state now bm)
      else case check_barrier bm of
        None \<Rightarrow> (WaitPanic, bm)
      | Some Ready \<Rightarrow> (WaitOk Ready, bm)
      | Some Degraded \<Rightarrow> (WaitOk Degraded, bm)
      | Some Failed \<Rightarrow> (WaitInsufficient, bm)
      | Some Waiting \<Rightarrow>
          (if from_secs (max (heartbeat_interval (bm_config bm)) 10) \<le> now - last_check
           then wait_loop clients answer clock start after later
                  (check_liveness clients (answer now) (clock now) now bm)
           else wait_loop clients answer clock start last_check later bm))"

definition wait_for_barrier ::
  "string list \<Rightarrow> (nat \<Rightarrow> string \<Rightarrow> nat \<Rightarrow> query_outcome) \<Rightarrow> (nat \<Rightarrow> string \<Rightarrow> nat) \<Rightarrow> nat
    \<Rightarrow> (nat \<times> nat) list \<Rightarrow> BarrierManager \<Rightarrow> wait_result \<times> BarrierManager" where
  "wait_for_barrier clients answer clock start readings bm =
     wait_loop clients answer clock start start readings bm"

subsection \<open>The invariant\<close>

text \<open>
  The ready and the failed agents are registered agents, each counted once; so the number of
  alive agents never underflows.
\<close>

definition bm_inv :: "BarrierManager \<Rightarrow> bool" where
  "bm_inv bm \<longleftrightarrow>
     hwf (bm_agents bm) \<and> distinct (bm_ready bm) \<and> distinct (bm_failed bm)
     \<and> set (bm_ready bm) \<subseteq> set (hkeys (bm_agents bm))
     \<and> set (bm_failed bm) \<subseteq> set (hkeys (bm_agents bm))
     \<and> (\<forall>k st. hget (bm_barriers bm) k = Some st \<longrightarrow> hwf (bs_ready st))"

lemma hkeys_hput: "set (hkeys (hput k v m)) = insert k (set (hkeys m))"
  by (auto simp: hm.set_keys hm.get_put dom_def)

lemma hget_key: "hget m k = Some v \<Longrightarrow> k \<in> set (hkeys m)"
  by (auto simp: hm.set_keys)

lemma hkeys_map_values [simp]: "hkeys (map (\<lambda>(i, v). (i, f i v)) m) = hkeys m"
  by (simp add: hkeys_def case_prod_beta comp_def)

lemma hwf_keys: "hwf m = distinct (hkeys m)" by (simp add: hwf_def hkeys_def)

lemma bm_inv_failed_le: "bm_inv bm \<Longrightarrow> length (bm_failed bm) \<le> length (bm_agents bm)"
  unfolding bm_inv_def using hm.size_subset by (metis hkeys_length)

lemma bm_inv_ready_le: "bm_inv bm \<Longrightarrow> length (bm_ready bm) \<le> length (bm_agents bm)"
  unfolding bm_inv_def using hm.size_subset by (metis hkeys_length)

lemma fresh_agents:
  "hwf m \<Longrightarrow> hwf (foldl (\<lambda>m i. hput i (fresh_heartbeat now) m) m ids)
     \<and> set (hkeys (foldl (\<lambda>m i. hput i (fresh_heartbeat now) m) m ids)) = set (hkeys m) \<union> set ids"
  by (induction ids arbitrary: m) (auto simp: hm.wf_put hkeys_hput)

lemma barrier_manager_new_inv: "bm_inv (barrier_manager_new now ids cfg)"
  using fresh_agents [of "[]" now ids] by (simp add: bm_inv_def barrier_manager_new_def)

lemma barrier_manager_new_agents: "set (hkeys (bm_agents (barrier_manager_new now ids cfg))) = set ids"
  using fresh_agents [of "[]" now ids] by (simp add: barrier_manager_new_def hkeys_def [of "[]"])

lemma process_heartbeat_inv: "bm_inv bm \<Longrightarrow> bm_inv (process_heartbeat now i p bm)"
  by (auto simp: bm_inv_def process_heartbeat_def Let_def hm.wf_put hkeys_hput hget_key split: option.split)

lemma process_heartbeat_keys:
  "set (hkeys (bm_agents (process_heartbeat now i p bm))) = set (hkeys (bm_agents bm))"
  by (auto simp: process_heartbeat_def Let_def hkeys_hput hget_key split: option.split)

lemma mark_agent_failed_inv:
  "bm_inv bm \<Longrightarrow> i \<in> set (hkeys (bm_agents bm)) \<Longrightarrow> bm_inv (mark_agent_failed i bm)"
  by (auto simp: bm_inv_def mark_agent_failed_def hm.wf_put hkeys_hput split: option.split)

lemma mark_agent_failed_keys:
  "set (hkeys (bm_agents (mark_agent_failed i bm))) = set (hkeys (bm_agents bm))"
  by (auto simp: mark_agent_failed_def hkeys_hput hget_key split: option.split)

lemma query_and_mark_inv:
  assumes "bm_inv bm" and "i \<in> set (hkeys (bm_agents bm))"
  shows "bm_inv (query_and_mark clients answer clock bm i)"
    and "set (hkeys (bm_agents (query_and_mark clients answer clock bm i))) = set (hkeys (bm_agents bm))"
  using assms
  by (auto simp: query_and_mark_def process_heartbeat_inv mark_agent_failed_inv
      process_heartbeat_keys mark_agent_failed_keys split: sum.split option.split)

lemma query_all_inv:
  "bm_inv bm \<Longrightarrow> set is \<subseteq> set (hkeys (bm_agents bm)) \<Longrightarrow>
     bm_inv (foldl (query_and_mark clients answer clock) bm is)"
  by (induction "is" arbitrary: bm) (simp_all add: query_and_mark_inv)

lemma check_liveness_inv:
  assumes "bm_inv bm"
  shows "bm_inv (check_liveness clients answer clock now bm)"
proof -
  let ?pass = "map (\<lambda>(i, hb). (i, miss_heartbeat bm now i hb)) (bm_agents bm)"
  let ?bm = "bm\<lparr>bm_agents := map (\<lambda>(i, hb, _). (i, hb)) ?pass\<rparr>"
  have eq: "map (\<lambda>(i, hb, _). (i, hb)) ?pass
      = map (\<lambda>(i, hb). (i, fst (miss_heartbeat bm now i hb))) (bm_agents bm)"
    by (auto simp: split_beta)
  have "bm_inv ?bm" using assms unfolding bm_inv_def eq hwf_keys by simp
  moreover have "hkeys (bm_agents ?bm) = hkeys (bm_agents bm)" unfolding eq by simp
  then have "set (map fst (filter (\<lambda>(i, _, q). q) ?pass)) \<subseteq> set (hkeys (bm_agents ?bm))"
    by (force simp: hkeys_def)
  ultimately show ?thesis unfolding check_liveness_def Let_def by (rule query_all_inv)
qed

lemma agent_at_barrier_inv: "bm_inv bm \<Longrightarrow> bm_inv (agent_at_barrier i k sq bm)"
  by (auto simp: bm_inv_def agent_at_barrier_def Let_def hm.get_put hm.wf_put split: option.splits)

lemma clear_barrier_inv: "bm_inv bm \<Longrightarrow> bm_inv (clear_barrier k bm)"
  by (auto simp: bm_inv_def clear_barrier_def hm.get_put split: option.splits)

lemma reset_barrier_state_inv: "bm_inv bm \<Longrightarrow> bm_inv (reset_barrier_state now bm)"
  by (simp add: bm_inv_def reset_barrier_state_def hwf_keys)

lemma wait_loop_inv:
  "bm_inv bm \<Longrightarrow> bm_inv (snd (wait_loop clients answer clock start last_check readings bm))"
  by (induction clients answer clock start last_check readings bm rule: wait_loop.induct)
    (auto simp: reset_barrier_state_inv check_liveness_inv split: option.splits BarrierStatus.splits)

subsection \<open>The decisions\<close>

text \<open>
  What the policies promise, over the numbers of registered, ready and failed agents.
\<close>

definition barrier_verdict :: "BarrierType \<Rightarrow> nat \<Rightarrow> nat \<Rightarrow> nat \<Rightarrow> BarrierStatus" where
  "barrier_verdict bt n ready failed =
     (case bt of
        AllOrNothing \<Rightarrow> if 0 < failed then Failed else if ready = n then Ready else Waiting
      | Majority \<Rightarrow>
          if 2 * (n - failed) \<le> n then Failed
          else if failed = 0 \<and> ready = n then Ready
          else if n < 2 * ready then Degraded
          else Waiting
      | BestEffort \<Rightarrow>
          if n = failed then Failed
          else if failed = 0 \<and> ready = n then Ready
          else if 0 < ready then Degraded
          else Waiting)"

lemma half_less: "(n::nat) div 2 < m \<longleftrightarrow> n < 2 * m" by linarith

lemma check_barrier_verdict:
  assumes "bm_inv bm"
  shows "check_barrier bm = Some (barrier_verdict (barrier_type (bm_config bm)) (length (bm_agents bm))
    (length (bm_ready bm)) (length (bm_failed bm)))"
proof -
  let ?n = "length (bm_agents bm)" and ?r = "length (bm_ready bm)" and ?f = "length (bm_failed bm)"
  have f: "?f \<le> ?n" using bm_inv_failed_le [OF assms] .
  show ?thesis
  proof (cases "barrier_type (bm_config bm)")
    case Majority
    have h: "2 * (?n - ?f) \<le> ?n \<longleftrightarrow> ?n - ?f \<le> ?n div 2" "?n < 2 * ?r \<longleftrightarrow> ?n div 2 < ?r" by linarith+
    have sub: "?r \<le> ?n - ?f" "?r \<le> ?n div 2 + 1" "\<not> ?n - ?f - ?r < ?n div 2 + 1 - ?r"
      if "\<not> ?n - ?f \<le> ?n div 2" "\<not> ?n div 2 < ?r" using that by linarith+
    show ?thesis
      unfolding check_barrier_def barrier_verdict_def Majority BarrierType.case Let_def h
      using sub f by simp
  qed (use f in \<open>auto simp: check_barrier_def barrier_verdict_def Let_def\<close>)
qed

lemma distinct_length_eq_set:
  "distinct xs \<Longrightarrow> distinct ys \<Longrightarrow> set xs \<subseteq> set ys \<Longrightarrow> length xs = length ys \<Longrightarrow> set xs = set ys"
  by (metis List.finite_set card_subset_eq distinct_card)

lemma ready_all:
  assumes "bm_inv bm" and "length (bm_ready bm) = length (bm_agents bm)"
  shows "set (bm_ready bm) = set (hkeys (bm_agents bm))"
  using assms distinct_length_eq_set [of "bm_ready bm" "hkeys (bm_agents bm)"]
  by (simp add: bm_inv_def hwf_keys)

subsection \<open>The wait loop returns\<close>

lemma reset_barrier_config [simp]: "bm_config (reset_barrier_state now bm) = bm_config bm"
  by (simp add: reset_barrier_state_def)

lemma process_heartbeat_config [simp]: "bm_config (process_heartbeat now i p bm) = bm_config bm"
  by (simp add: process_heartbeat_def Let_def split: option.split)

lemma query_and_mark_config [simp]:
  "bm_config (query_and_mark clients answer clock bm i) = bm_config bm"
  by (simp add: query_and_mark_def mark_agent_failed_def split: sum.split option.split)

lemma check_liveness_config [simp]:
  "bm_config (check_liveness clients answer clock now bm) = bm_config bm"
proof -
  have "bm_config (foldl (query_and_mark clients answer clock) b is) = bm_config b" for b "is"
    by (induction "is" arbitrary: b) simp_all
  then show ?thesis by (simp add: check_liveness_def Let_def)
qed

lemma wait_loop_returns:
  "bm_inv bm \<Longrightarrow> (\<exists>t a. (t, a) \<in> set readings \<and> from_secs (agent_barrier_timeout (bm_config bm)) \<le> t - start)
     \<Longrightarrow> fst (wait_loop clients answer clock start last_check readings bm) \<notin> {StillWaiting, WaitPanic}"
proof (induction clients answer clock start last_check readings bm rule: wait_loop.induct)
  case (2 clients answer clock start last_check now after later bm)
  show ?case
  proof (cases "from_secs (agent_barrier_timeout (bm_config bm)) \<le> now - start")
    case False
    then have ex: "\<exists>t a. (t, a) \<in> set later \<and> from_secs (agent_barrier_timeout (bm_config bm)) \<le> t - start"
      using "2.prems"(2) by auto
    show ?thesis
      using False 2 ex check_barrier_verdict [OF "2.prems"(1)]
      by (cases "barrier_verdict (barrier_type (bm_config bm)) (length (bm_agents bm))
          (length (bm_ready bm)) (length (bm_failed bm))") (simp_all add: check_liveness_inv)
  qed simp
qed simp

lemma wait_loop_ok:
  "bm_inv bm \<Longrightarrow> wait_loop clients answer clock start last_check readings bm = (WaitOk st, bm')
     \<Longrightarrow> check_barrier bm' = Some st \<and> st \<in> {Ready, Degraded} \<and> bm_inv bm'
         \<and> bm_config bm' = bm_config bm"
  by (induction clients answer clock start last_check readings bm rule: wait_loop.induct)
    (auto split: if_splits option.splits BarrierStatus.splits simp: check_liveness_inv)

lemma wait_loop_timeout:
  "wait_loop clients answer clock start last_check readings bm = (WaitTimeout, bm')
     \<Longrightarrow> bm_ready bm' = [] \<and> bm_failed bm' = [] \<and> bm_barriers bm' = []
         \<and> list_all (\<lambda>(i, hb). is_alive hb) (bm_agents bm')"
  by (induction clients answer clock start last_check readings bm rule: wait_loop.induct)
    (auto split: if_splits option.splits BarrierStatus.splits
      simp: reset_barrier_state_def list_all_iff reset_heartbeat_def)

subsection \<open>The query retries\<close>

lemma query_loop_slept:
  "retries \<le> max_retries \<Longrightarrow> backoff = min (1000 * 2 ^ retries) 10000 \<Longrightarrow>
     slept = map (\<lambda>k. min (1000 * 2 ^ k) 10000) [0..<retries] \<Longrightarrow>
     \<exists>n \<le> max_retries. snd (query_loop max_retries answer retries backoff slept)
       = map (\<lambda>k. min (1000 * 2 ^ k) 10000) [0..<n]"
proof (induction max_retries answer retries backoff slept rule: query_loop.induct)
  case (1 m answer r b sl)
  have step: "min (b * 2) 10000 = min (1000 * 2 ^ (r + 1)) 10000"
    "sl @ [b] = map (\<lambda>k. min (1000 * 2 ^ k) 10000) [0..<r + 1]"
    using 1 by auto
  show ?case
  proof (cases "answer r")
    case (Response p)
    then show ?thesis using "1.prems" by (auto simp: query_loop.simps [of m answer r])
  next
    case RpcError
    show ?thesis
      using "1.IH"(1) [OF RpcError] "1.prems" step RpcError
      by (cases "m \<le> r") (auto simp: query_loop.simps [of m answer r] query_loop.simps [of m answer m])
  next
    case QueryTimeout
    show ?thesis
      using "1.IH"(2) [OF QueryTimeout] "1.prems" step QueryTimeout
      by (cases "m \<le> r") (auto simp: query_loop.simps [of m answer r] query_loop.simps [of m answer m])
  qed
qed

subsection \<open>Reports at numbered barriers\<close>

text \<open>
  What the statistics handler of the controller does with the manager for one message: the
  heartbeat, and for an agent at barrier \<open>k\<close> (the index is also the sequence number it passes)
  the registration, the check, and the release with its clearing. \<open>None\<close> is a panic.
\<close>

type_synonym barrier_report = "nat \<times> string \<times> PhaseProgress \<times> nat"

definition report_step ::
  "BarrierManager \<Rightarrow> barrier_report \<Rightarrow> (BarrierManager \<times> BarrierReleaseInfo list) option" where
  "report_step bm r =
     (case r of (now, i, p, k) \<Rightarrow>
        let bm1 = process_heartbeat now i p bm
        in if pp_at_barrier p then
             (let bm2 = agent_at_barrier i k k bm1
              in map_option (\<lambda>rel. case rel of Some info \<Rightarrow> (clear_barrier k bm2, [info]) | None \<Rightarrow> (bm2, []))
                   (check_barrier_ready k bm2))
           else Some (bm1, []))"

fun barrier_run ::
  "BarrierManager \<Rightarrow> barrier_report list \<Rightarrow> (BarrierManager \<times> BarrierReleaseInfo list) option" where
  "barrier_run bm [] = Some (bm, [])"
| "barrier_run bm (r # rs) =
     Option.bind (report_step bm r) (\<lambda>(bm', out).
       map_option (\<lambda>(bm'', out'). (bm'', out @ out')) (barrier_run bm' rs))"

definition reporters :: "barrier_report list \<Rightarrow> nat \<Rightarrow> string set" where
  "reporters rs k = {i. \<exists>now p. (now, i, p, k) \<in> set rs \<and> pp_at_barrier p}"

definition barrier_of :: "BarrierManager \<Rightarrow> nat \<Rightarrow> BarrierState" where
  "barrier_of bm k = (case hget (bm_barriers bm) k of
     Some st \<Rightarrow> st | None \<Rightarrow> \<lparr> bs_ready = [], released = False \<rparr>)"

text \<open>
  The manager after reports from the agents \<open>R k\<close> at each barrier \<open>k\<close>, when no agent failed and
  all of them are required.
\<close>

definition tracks :: "string set \<Rightarrow> (nat \<Rightarrow> string set) \<Rightarrow> BarrierManager \<Rightarrow> bool" where
  "tracks A R bm \<longleftrightarrow>
     bm_inv bm \<and> bm_failed bm = [] \<and> barrier_type (bm_config bm) = AllOrNothing
     \<and> set (hkeys (bm_agents bm)) = A
     \<and> (\<forall>k. set (hkeys (bs_ready (barrier_of bm k))) = R k \<and> R k \<subseteq> A
          \<and> released (barrier_of bm k) = (R k = A))"

lemma bm_inv_barrier_of: "bm_inv bm \<Longrightarrow> hwf (bs_ready (barrier_of bm k))"
  by (auto simp: bm_inv_def barrier_of_def split: option.split)

lemma barrier_of_process [simp]: "barrier_of (process_heartbeat now i p bm) k = barrier_of bm k"
  by (simp add: barrier_of_def process_heartbeat_def Let_def split: option.split)

lemma process_heartbeat_failed [simp]: "bm_failed (process_heartbeat now i p bm) = bm_failed bm"
  by (simp add: process_heartbeat_def Let_def split: option.split)

lemma tracks_heartbeat: "tracks A R bm \<Longrightarrow> tracks A R (process_heartbeat now i p bm)"
  by (simp add: tracks_def process_heartbeat_inv process_heartbeat_keys)

lemma agent_at_barrier_simps [simp]:
  "bm_agents (agent_at_barrier i k sq bm) = bm_agents bm"
  "bm_failed (agent_at_barrier i k sq bm) = bm_failed bm"
  "bm_config (agent_at_barrier i k sq bm) = bm_config bm"
  "bm_ready (agent_at_barrier i k sq bm) = bm_ready bm"
  by (simp_all add: agent_at_barrier_def Let_def)

lemma clear_barrier_simps [simp]:
  "bm_agents (clear_barrier k bm) = bm_agents bm"
  "bm_failed (clear_barrier k bm) = bm_failed bm"
  "bm_config (clear_barrier k bm) = bm_config bm"
  "bm_ready (clear_barrier k bm) = bm_ready bm"
  by (simp_all add: clear_barrier_def split: option.split)

lemma barrier_of_at:
  "set (hkeys (bs_ready (barrier_of (agent_at_barrier i k sq bm) j))) =
     (if j = k then insert i (set (hkeys (bs_ready (barrier_of bm k))))
      else set (hkeys (bs_ready (barrier_of bm j))))"
  "released (barrier_of (agent_at_barrier i k sq bm) j) = released (barrier_of bm j)"
  by (auto simp: barrier_of_def agent_at_barrier_def Let_def hm.get_put hkeys_hput hget_key hkeys_def [of "[]"]
      split: option.splits)

lemma barrier_of_clear:
  assumes "hget (bm_barriers bm) k \<noteq> None"
  shows "barrier_of (clear_barrier k bm) j =
    (if j = k then (barrier_of bm k)\<lparr>released := True\<rparr> else barrier_of bm j)"
  using assms by (auto simp: barrier_of_def clear_barrier_def hm.get_put split: option.splits)

lemma at_barrier_present: "hget (bm_barriers (agent_at_barrier i k sq bm)) k \<noteq> None"
  by (simp add: agent_at_barrier_def Let_def hm.get_put)

lemma check_ready_cases:
  assumes "bm_inv bm" and "hget (bm_barriers bm) k \<noteq> None"
  shows "check_barrier_ready k bm =
    Some (if \<not> released (barrier_of bm k)
             \<and> can_release (barrier_type (bm_config bm)) (length (bs_ready (barrier_of bm k)))
                 (length (bm_agents bm)) (length (bm_failed bm)) (length (bm_agents bm) - length (bm_failed bm))
          then Some \<lparr> barrier_index = k, bi_ready_agents = hkeys (bs_ready (barrier_of bm k)) \<rparr>
          else None)"
  using assms bm_inv_failed_le [OF assms(1)]
  by (auto simp: check_barrier_ready_def barrier_of_def Let_def split: option.splits)

lemma ready_count_eq:
  assumes "bm_inv bm" and "set (hkeys (bs_ready (barrier_of bm k))) \<subseteq> set (hkeys (bm_agents bm))"
  shows "length (bs_ready (barrier_of bm k)) = length (bm_agents bm)
    \<longleftrightarrow> set (hkeys (bs_ready (barrier_of bm k))) = set (hkeys (bm_agents bm))"
proof -
  have "distinct (hkeys (bs_ready (barrier_of bm k)))" and "distinct (hkeys (bm_agents bm))"
    using bm_inv_barrier_of [OF assms(1), of k] assms(1) by (auto simp: hwf_keys bm_inv_def)
  then show ?thesis
    using distinct_length_eq_set [OF _ _ assms(2)] by (metis distinct_card hkeys_length)
qed

lemma report_step_tracks:
  fixes k :: nat
  assumes t: "tracks A R bm" and i: "i \<in> A" and p: "pp_at_barrier p"
  defines "R' \<equiv> R(k := insert i (R k))"
  shows "\<exists>bm' out. report_step bm (now, i, p, k) = Some (bm', out) \<and> tracks A R' bm'
    \<and> map barrier_index out = (if R k \<noteq> A \<and> R' k = A then [k] else [])
    \<and> (\<forall>info \<in> set out. set (bi_ready_agents info) = A)"
proof -
  let ?bm1 = "process_heartbeat now i p bm"
  let ?bm2 = "agent_at_barrier i k k ?bm1"
  have t1: "tracks A R ?bm1" by (rule tracks_heartbeat [OF t])
  have inv2: "bm_inv ?bm2" using t1 agent_at_barrier_inv by (simp add: tracks_def)
  have keys2: "set (hkeys (bs_ready (barrier_of ?bm2 j))) = R' j" and sub: "R' j \<subseteq> A"
    and rel2: "released (barrier_of ?bm2 j) = (R j = A)" for j
    using t1 i by (auto simp: barrier_of_at tracks_def R'_def)
  have common: "bm_failed ?bm2 = []" "barrier_type (bm_config ?bm2) = AllOrNothing"
    "set (hkeys (bm_agents ?bm2)) = A"
    using t1 by (simp_all add: tracks_def)
  have cnt: "length (bs_ready (barrier_of ?bm2 k)) = length (bm_agents ?bm2) \<longleftrightarrow> R' k = A"
    using ready_count_eq [OF inv2, of k] keys2 [of k] sub [of k] common by simp
  have chk: "check_barrier_ready k ?bm2 = Some (if R k \<noteq> A \<and> R' k = A
      then Some \<lparr> barrier_index = k, bi_ready_agents = hkeys (bs_ready (barrier_of ?bm2 k)) \<rparr> else None)"
    unfolding check_ready_cases [OF inv2 at_barrier_present] using common cnt rel2 [of k]
    by (simp add: can_release_def)
  show ?thesis
  proof (cases "R k \<noteq> A \<and> R' k = A")
    case True
    note c = barrier_of_clear [OF at_barrier_present, of k i k ?bm1]
    have "released (barrier_of (clear_barrier k ?bm2) j) = (R' j = A)"
      and "set (hkeys (bs_ready (barrier_of (clear_barrier k ?bm2) j))) = R' j" for j
      using c rel2 True keys2 by (simp add: R'_def, cases "j = k") simp_all
    then have "tracks A R' (clear_barrier k ?bm2)"
      using inv2 common sub by (simp add: tracks_def clear_barrier_inv)
    then show ?thesis using True chk p keys2 [of k] by (simp add: report_step_def Let_def)
  next
    case False
    have nochk: "check_barrier_ready k ?bm2 = Some None" unfolding chk if_not_P [OF False] ..
    from False have "(R j = A) = (R' j = A)" for j using sub [of k] i by (auto simp: R'_def)
    then have "tracks A R' ?bm2" using inv2 common keys2 sub rel2 by (simp add: tracks_def)
    then show ?thesis using False nochk p by (auto simp: report_step_def Let_def)
  qed
qed

lemma reporters_Cons:
  "reporters ((now, i, p, k) # rs) j =
     (if pp_at_barrier p \<and> j = k then insert i (reporters rs j) else reporters rs j)"
  by (auto simp: reporters_def)

lemma barrier_run_tracks:
  "tracks A R bm \<Longrightarrow> A \<noteq> {} \<Longrightarrow> fst ` snd ` set rs \<subseteq> A \<Longrightarrow>
     \<exists>bm' out. barrier_run bm rs = Some (bm', out)
       \<and> distinct (map barrier_index out)
       \<and> (\<forall>k. k \<in> set (map barrier_index out) \<longleftrightarrow> R k \<noteq> A \<and> R k \<union> reporters rs k = A)
       \<and> (\<forall>info \<in> set out. set (bi_ready_agents info) = A)"
proof (induction rs arbitrary: bm R)
  case Nil
  then show ?case by (simp add: reporters_def)
next
  case (Cons r rs)
  obtain now i p k where r: "r = (now, i, p, k)" by (cases r)
  have i: "i \<in> A" and rs: "fst ` snd ` set rs \<subseteq> A" using Cons.prems(3) r by auto
  show ?case
  proof (cases "pp_at_barrier p")
    case True
    let ?R = "R(k := insert i (R k))"
    obtain bm1 out1 where s: "report_step bm (now, i, p, k) = Some (bm1, out1)" "tracks A ?R bm1"
      "map barrier_index out1 = (if R k \<noteq> A \<and> ?R k = A then [k] else [])"
      "\<forall>info \<in> set out1. set (bi_ready_agents info) = A"
      using report_step_tracks [OF Cons.prems(1) i True, of now k] by blast
    obtain bm2 out2 where u: "barrier_run bm1 rs = Some (bm2, out2)" "distinct (map barrier_index out2)"
      "\<forall>j. j \<in> set (map barrier_index out2) \<longleftrightarrow> ?R j \<noteq> A \<and> ?R j \<union> reporters rs j = A"
      "\<forall>info \<in> set out2. set (bi_ready_agents info) = A"
      using Cons.IH [OF s(2) Cons.prems(2) rs] by blast
    have sub: "\<forall>j. R j \<subseteq> A" using Cons.prems(1) by (simp add: tracks_def)
    have "\<not> (R k \<noteq> A \<and> ?R k = A) \<or> k \<notin> set (map barrier_index out2)" using u(3) by auto
    then have "distinct (map barrier_index (out1 @ out2))"
      using s(3) u(2) by (auto split: if_splits)
    moreover have "j \<in> set (map barrier_index (out1 @ out2)) \<longleftrightarrow>
        R j \<noteq> A \<and> R j \<union> reporters (r # rs) j = A" for j
    proof -
      have "j \<in> set (map barrier_index (out1 @ out2)) \<longleftrightarrow>
          (j = k \<and> R k \<noteq> A \<and> ?R k = A) \<or> (?R j \<noteq> A \<and> ?R j \<union> reporters rs j = A)"
        unfolding map_append set_append Un_iff u(3) [rule_format] s(3) by auto
      moreover have rep: "reporters rs j \<subseteq> A" using rs by (force simp: reporters_def)
      moreover have "R j \<union> reporters (r # rs) j = ?R j \<union> reporters rs j"
        using True r by (simp add: reporters_Cons)
      moreover have "R k = A \<Longrightarrow> ?R k = A" using i by auto
      ultimately show ?thesis by (cases "j = k") (simp_all, blast)
    qed
    ultimately show ?thesis
      using s(1,4) u(1,4) r by (intro exI [of _ bm2] exI [of _ "out1 @ out2"]) auto
  next
    case False
    have s: "report_step bm r = Some (process_heartbeat now i p bm, [])"
      using False r by (simp add: report_step_def Let_def)
    have e: "reporters (r # rs) = reporters rs" using r False by (simp add: reporters_Cons fun_eq_iff)
    obtain bm2 out2 where u: "barrier_run (process_heartbeat now i p bm) rs = Some (bm2, out2)"
      "distinct (map barrier_index out2)"
      "\<forall>j. j \<in> set (map barrier_index out2) \<longleftrightarrow> R j \<noteq> A \<and> R j \<union> reporters rs j = A"
      "\<forall>info \<in> set out2. set (bi_ready_agents info) = A"
      using Cons.IH [OF tracks_heartbeat [OF Cons.prems(1)] Cons.prems(2) rs] by blast
    moreover have "barrier_run bm (r # rs) = Some (bm2, out2)" using s u(1) by simp
    ultimately show ?thesis unfolding e by blast
  qed
qed

lemma tracks_new:
  assumes "barrier_type cfg = AllOrNothing" and "ids \<noteq> []"
  shows "tracks (set ids) (\<lambda>_. {}) (barrier_manager_new now ids cfg)"
  using assms barrier_manager_new_inv [of now ids cfg] barrier_manager_new_agents [of now ids cfg]
  by (simp add: tracks_def barrier_of_def barrier_manager_new_def hkeys_def [of "[]"])

subsection \<open>Sequences of operations\<close>

datatype barrier_op =
    Heartbeat nat string PhaseProgress
  | Liveness "string list" "string \<Rightarrow> nat \<Rightarrow> query_outcome" "string \<Rightarrow> nat" nat
  | AtBarrier string nat nat
  | Clear nat
  | ResetBarriers nat

fun barrier_op_step :: "BarrierManager \<Rightarrow> barrier_op \<Rightarrow> BarrierManager" where
  "barrier_op_step bm (Heartbeat now i p) = process_heartbeat now i p bm"
| "barrier_op_step bm (Liveness clients answer clock now) = check_liveness clients answer clock now bm"
| "barrier_op_step bm (AtBarrier i k sq) = agent_at_barrier i k sq bm"
| "barrier_op_step bm (Clear k) = clear_barrier k bm"
| "barrier_op_step bm (ResetBarriers now) = reset_barrier_state now bm"

definition bm_run :: "nat \<Rightarrow> string list \<Rightarrow> PhaseBarrierConfig \<Rightarrow> barrier_op list \<Rightarrow> BarrierManager" where
  "bm_run now ids cfg ops = foldl barrier_op_step (barrier_manager_new now ids cfg) ops"

lemma bm_run_inv: "bm_inv (bm_run now ids cfg ops)"
proof (induction ops rule: rev_induct)
  case Nil
  show ?case by (simp add: bm_run_def barrier_manager_new_inv)
next
  case (snoc op ops)
  then show ?case
    by (cases op) (simp_all add: bm_run_def process_heartbeat_inv check_liveness_inv
        agent_at_barrier_inv clear_barrier_inv reset_barrier_state_inv)
qed

lemma bm_run_config: "bm_config (bm_run now ids cfg ops) = cfg"
proof (induction ops rule: rev_induct)
  case (snoc op ops)
  then show ?case by (cases op) (simp_all add: bm_run_def)
qed (simp add: bm_run_def barrier_manager_new_def)

definition sample_barrier_config :: "BarrierType \<Rightarrow> PhaseBarrierConfig" where
  "sample_barrier_config bt =
     \<lparr> barrier_type = bt, heartbeat_interval = 30, missed_threshold = 3, query_timeout = 10,
       query_retries = 2, agent_barrier_timeout = 120 \<rparr>"

definition sample_progress :: PhaseProgress where
  "sample_progress = \<lparr> current_phase = 3, operations_completed = 7, phase_completed = False,
     pp_at_barrier = True \<rparr>"

subsection \<open>Properties\<close>




text \<open>
  C8: Waiting for a barrier always ends: as soon as one clock reading is past the configured
  timeout, the wait has returned (released, failed or timed out), whatever the agents answer to
  the liveness queries.
\<close>

theorem wait_for_barrier_returns:
  assumes "\<exists>(t, after) \<in> set readings. from_secs (agent_barrier_timeout cfg) \<le> t - start"
  shows "fst (wait_for_barrier clients answer clock start readings (bm_run now ids cfg ops))
    \<in> {WaitOk Ready, WaitOk Degraded, WaitInsufficient, WaitTimeout}"
proof -
  let ?r = "wait_for_barrier clients answer clock start readings (bm_run now ids cfg ops)"
  have "fst ?r \<notin> {StillWaiting, WaitPanic}"
    unfolding wait_for_barrier_def using assms
    by (intro wait_loop_returns bm_run_inv) (auto simp: bm_run_config)
  moreover have "st \<in> {Ready, Degraded}" if "fst ?r = WaitOk st" for st
    using wait_loop_ok [OF bm_run_inv, of clients answer clock start start readings now ids cfg ops st "snd ?r"] that
    by (auto simp: wait_for_barrier_def prod_eq_iff)
  ultimately show ?thesis by (cases "fst ?r") auto
qed

lemma wait_for_barrier_returns_witness:
  "fst (wait_for_barrier [''a''] (\<lambda>_ _ _. QueryTimeout) (\<lambda>_ _. 0) 0
      [(from_secs 5, 0), (from_secs 121, 0)] (bm_run 0 [''a''] (sample_barrier_config Majority) []))
    \<in> {WaitOk Ready, WaitOk Degraded, WaitInsufficient, WaitTimeout}"
  by (rule wait_for_barrier_returns) (simp add: sample_barrier_config_def)

text \<open>
  When a wait succeeds, the policy held: all registered agents were ready and none had failed
  (all or nothing), or more than half of them were ready (majority), or at least one was (best
  effort, the empty set of agents excepted).
\<close>

lemma wait_for_barrier_sound:
  assumes "wait_for_barrier clients answer clock start readings (bm_run now ids cfg ops) = (WaitOk st, bm)"
  shows "set (bm_ready bm) \<subseteq> set (hkeys (bm_agents bm)) \<and>
    (case barrier_type cfg of
       AllOrNothing \<Rightarrow> set (bm_ready bm) = set (hkeys (bm_agents bm)) \<and> bm_failed bm = []
     | Majority \<Rightarrow> length (bm_agents bm) < 2 * length (bm_ready bm)
     | BestEffort \<Rightarrow> bm_ready bm \<noteq> [])"
proof -
  have st: "check_barrier bm = Some st" "st \<in> {Ready, Degraded}" "bm_inv bm" "bm_config bm = cfg"
    using wait_loop_ok [OF bm_run_inv assms [unfolded wait_for_barrier_def]] by (simp_all add: bm_run_config)
  have v: "barrier_verdict (barrier_type cfg) (length (bm_agents bm)) (length (bm_ready bm)) (length (bm_failed bm))
      \<in> {Ready, Degraded}"
    using check_barrier_verdict [OF st(3)] st by simp
  have "set (bm_ready bm) \<subseteq> set (hkeys (bm_agents bm))" using st(3) by (simp add: bm_inv_def)
  moreover note bm_inv_failed_le [OF st(3)] ready_all [OF st(3)] v
  ultimately show ?thesis
    by (auto simp: barrier_verdict_def split: BarrierType.splits if_splits)
qed

definition ready_manager :: BarrierManager where
  "ready_manager = bm_run 0 [''a''] (sample_barrier_config AllOrNothing) [Heartbeat 1 ''a'' sample_progress]"

lemma wait_for_barrier_sound_witness:
  "set (bm_ready ready_manager) \<subseteq> set (hkeys (bm_agents ready_manager)) \<and>
   (case barrier_type (sample_barrier_config AllOrNothing) of
      AllOrNothing \<Rightarrow> set (bm_ready ready_manager) = set (hkeys (bm_agents ready_manager)) \<and> bm_failed ready_manager = []
    | Majority \<Rightarrow> length (bm_agents ready_manager) < 2 * length (bm_ready ready_manager)
    | BestEffort \<Rightarrow> bm_ready ready_manager \<noteq> [])"
  by (rule wait_for_barrier_sound [where clients = "[]" and answer = "\<lambda>_ _ _. QueryTimeout"
        and clock = "\<lambda>_ _. 0" and start = 0 and readings = "[(1, 1)]" and now = 0 and ids = "[''a'']"
        and ops = "[Heartbeat 1 ''a'' sample_progress]" and st = Ready])
    (simp add: wait_for_barrier_def ready_manager_def bm_run_def barrier_manager_new_def process_heartbeat_def
      check_barrier_def sample_barrier_config_def sample_progress_def hget_def hput_def fresh_heartbeat_def
      hset_insert_def from_secs_def)

text \<open>
  With the best-effort policy, one agent that fails after it reached a numbered barrier keeps
  that barrier closed: even when every registered agent has reported at it, the comparison of the
  reports with the number of alive agents fails, and the survivors are never released.
\<close>

lemma best_effort_failed_reporter_blocks:
  assumes "bm_inv bm" and "barrier_type (bm_config bm) = BestEffort" and "bm_failed bm \<noteq> []"
    and "hget (bm_barriers bm) k = Some st"
    and "set (hkeys (bs_ready st)) = set (hkeys (bm_agents bm))"
  shows "check_barrier_ready k bm = Some None"
proof -
  have st: "barrier_of bm k = st" using assms(4) by (simp add: barrier_of_def)
  have "length (bs_ready st) = length (bm_agents bm)"
    using ready_count_eq [OF assms(1), of k] assms(5) by (simp add: st)
  moreover have "0 < length (bm_failed bm)" using assms(3) by simp
  moreover have "length (bm_failed bm) \<le> length (bm_agents bm)" using bm_inv_failed_le [OF assms(1)] .
  ultimately have "\<not> can_release BestEffort (length (bs_ready st)) (length (bm_agents bm))
      (length (bm_failed bm)) (length (bm_agents bm) - length (bm_failed bm))"
    unfolding can_release_def BarrierType.case by linarith
  then show ?thesis
    using check_ready_cases [OF assms(1), of k] assms(2,4) by (simp add: st)
qed

definition blocked_manager :: BarrierManager where
  "blocked_manager = bm_run 0 [''a'', ''b''] (sample_barrier_config BestEffort)
     [AtBarrier ''a'' 0 0, AtBarrier ''b'' 0 0]\<lparr>bm_failed := [''a'']\<rparr>"

lemma best_effort_failed_reporter_blocks_witness: "check_barrier_ready 0 blocked_manager = Some None"
  by (rule best_effort_failed_reporter_blocks [where st = "\<lparr> bs_ready = [(''a'', 0), (''b'', 0)], released = False \<rparr>"])
    (auto simp: blocked_manager_def bm_run_def barrier_manager_new_def agent_at_barrier_def bm_inv_def
      sample_barrier_config_def hget_def hput_def hwf_def hkeys_def fresh_heartbeat_def split: if_splits)

text \<open>
  The status query is tried at most \<open>query_retries + 1\<close> times, and sleeps 1, 2, 4, 8 and then
  always 10 seconds between the tries.
\<close>

lemma query_backoff_bounded:
  "\<exists>n \<le> query_retries (bm_config bm).
     snd (query_agent_with_retry clients answer bm agent_id) = map (\<lambda>k. min (1000 * 2 ^ k) 10000) [0..<n]"
proof (cases "agent_id \<in> set clients")
  case True
  then show ?thesis
    using query_loop_slept [of 0 "query_retries (bm_config bm)" 1000 "[]" "answer agent_id"]
    by (simp add: query_agent_with_retry_def)
qed (simp add: query_agent_with_retry_def)

end
