(* ===== verification/Aggregator.thy ===== *)
theory Aggregator
  imports Interfaces
begin

text \<open>
  The controller's view of the agents' live statistics: the \<open>LiveStats\<close> message (the fields the
  controller reads) and \<open>LiveStatsAggregator\<close> of \<open>src/bin/controller.rs\<close>. Floating-point values
  are rationals: rounding is not modelled.
\<close>

subsection \<open>Messages\<close>

record latency =
  mean_us :: rat
  p50_us :: rat
  p90_us :: rat
  p95_us :: rat
  p99_us :: rat

record cpu_use =
  cpu_user :: rat
  cpu_system :: rat
  cpu_iowait :: rat
  cpu_total :: rat

record WorkloadSummary =
  ws_agent_id :: string
  ws_total_ops :: nat

record PrepareSummary =
  ps_agent_id :: string
  ps_objects_created :: nat
  ps_objects_existed :: nat

record StageSummary =
  ss_index :: nat
  ss_name :: string

record LiveStats =
  ls_agent_id :: string
  get_ops :: nat
  get_bytes :: nat
  get_lat :: latency
  put_ops :: nat
  put_bytes :: nat
  put_lat :: latency
  meta_ops :: nat
  meta_lat :: latency
  elapsed_s :: rat
  completed :: bool
  final_summary :: "WorkloadSummary option"
  ls_status :: nat
  error_message :: string
  prepare_objects_created :: nat
  prepare_objects_total :: nat
  prepare_summary :: "PrepareSummary option"
  ls_cpu :: cpu_use
  agent_timestamp_ns :: int
  current_stage :: nat
  stage_name :: string
  stage_progress_current :: nat
  stage_progress_total :: nat
  stage_elapsed_s :: rat
  ls_concurrency :: nat
  at_barrier :: bool
  barrier_sequence :: nat
  stage_summary :: "StageSummary option"

subsection \<open>The aggregator\<close>

record AggregateStats =
  num_agents :: nat
  ag_expected_agents :: nat
  total_get_ops :: nat
  total_get_bytes :: nat
  ag_get :: latency
  total_put_ops :: nat
  total_put_bytes :: nat
  ag_put :: latency
  total_meta_ops :: nat
  ag_meta :: latency
  ag_elapsed_s :: rat
  ag_cpu :: cpu_use
  windowed_get_ops_s :: rat
  windowed_get_bytes :: nat
  windowed_put_ops_s :: rat
  windowed_put_bytes :: nat
  windowed_delta_time :: rat
  total_concurrency :: nat

record LiveStatsAggregator =
  agent_stats :: "(string, LiveStats) hmap"
  previous_aggregate :: "AggregateStats option"
  expected_agents :: nat

definition aggregator_new :: "nat \<Rightarrow> LiveStatsAggregator" where
  "aggregator_new n = \<lparr> agent_stats = [], previous_aggregate = None, expected_agents = n \<rparr>"

definition update_stats :: "LiveStats \<Rightarrow> LiveStatsAggregator \<Rightarrow> LiveStatsAggregator" where
  "update_stats s ag = ag\<lparr>agent_stats := hput (ls_agent_id s) s (agent_stats ag)\<rparr>"

definition mark_completed :: "string \<Rightarrow> LiveStatsAggregator \<Rightarrow> LiveStatsAggregator" where
  "mark_completed i ag =
     (case hget (agent_stats ag) i of
        None \<Rightarrow> ag
      | Some s \<Rightarrow> ag\<lparr>agent_stats := hput i (s\<lparr>completed := True\<rparr>) (agent_stats ag)\<rparr>)"

definition reset_stats :: "LiveStatsAggregator \<Rightarrow> LiveStatsAggregator" where
  "reset_stats ag = ag\<lparr>agent_stats := [], previous_aggregate := None\<rparr>"

definition all_completed :: "LiveStatsAggregator \<Rightarrow> bool" where
  "all_completed ag \<longleftrightarrow> agent_stats ag \<noteq> [] \<and> list_all (\<lambda>(_, s). completed s) (agent_stats ag)"

definition sum_ops :: "(LiveStats \<Rightarrow> nat) \<Rightarrow> LiveStats list \<Rightarrow> nat" where
  "sum_ops f ss = sum_list (map f ss)"

text \<open>A sum of values weighted by operation counts, agents without operations left out.\<close>

definition weighted_sum :: "(LiveStats \<Rightarrow> nat) \<Rightarrow> (LiveStats \<Rightarrow> rat) \<Rightarrow> LiveStats list \<Rightarrow> rat" where
  "weighted_sum ops v ss = sum_list (map (\<lambda>s. if 0 < ops s then v s * of_nat (ops s) else 0) ss)"

definition weighted_mean :: "(LiveStats \<Rightarrow> nat) \<Rightarrow> (LiveStats \<Rightarrow> rat) \<Rightarrow> LiveStats list \<Rightarrow> rat" where
  "weighted_mean ops v ss =
     (if 0 < sum_ops ops ss then weighted_sum ops v ss / of_nat (sum_ops ops ss) else 0)"

definition weighted_latency :: "(LiveStats \<Rightarrow> nat) \<Rightarrow> (LiveStats \<Rightarrow> latency) \<Rightarrow> LiveStats list \<Rightarrow> latency" where
  "weighted_latency ops lat ss =
     \<lparr> mean_us = weighted_mean ops (mean_us \<circ> lat) ss,
       p50_us = weighted_mean ops (p50_us \<circ> lat) ss,
       p90_us = weighted_mean ops (p90_us \<circ> lat) ss,
       p95_us = weighted_mean ops (p95_us \<circ> lat) ss,
       p99_us = weighted_mean ops (p99_us \<circ> lat) ss \<rparr>"

definition cpu_mean :: "(cpu_use \<Rightarrow> rat) \<Rightarrow> LiveStats list \<Rightarrow> rat" where
  "cpu_mean f ss = (if 0 < length ss then sum_list (map (f \<circ> ls_cpu) ss) / of_nat (length ss) else 0)"

definition window_rates ::
  "AggregateStats option \<Rightarrow> rat \<Rightarrow> nat \<Rightarrow> nat \<Rightarrow> nat \<Rightarrow> nat \<Rightarrow> rat \<times> nat \<times> rat \<times> nat" where
  "window_rates prev max_elapsed g_ops g_bytes p_ops p_bytes =
     (case prev of
        None \<Rightarrow> (0, 0, 0, 0)
      | Some p \<Rightarrow>
          (let delta_time = max_elapsed - ag_elapsed_s p
           in if 1 / 10 < delta_time then
                (of_nat (g_ops - total_get_ops p) / delta_time, g_bytes - total_get_bytes p,
                 of_nat (p_ops - total_put_ops p) / delta_time, p_bytes - total_put_bytes p)
              else (0, 0, 0, 0)))"

definition aggregate :: "LiveStatsAggregator \<Rightarrow> AggregateStats \<times> LiveStatsAggregator" where
  "aggregate ag =
     (let ss = map snd (agent_stats ag);
          max_elapsed = foldl max 0 (map elapsed_s ss);
          (wg, wgb, wp, wpb) =
            window_rates (previous_aggregate ag) max_elapsed (sum_ops get_ops ss) (sum_ops get_bytes ss)
              (sum_ops put_ops ss) (sum_ops put_bytes ss);
          a = \<lparr> num_agents = length ss, ag_expected_agents = expected_agents ag,
                total_get_ops = sum_ops get_ops ss, total_get_bytes = sum_ops get_bytes ss,
                ag_get = weighted_latency get_ops get_lat ss,
                total_put_ops = sum_ops put_ops ss, total_put_bytes = sum_ops put_bytes ss,
                ag_put = weighted_latency put_ops put_lat ss,
                total_meta_ops = sum_ops meta_ops ss,
                ag_meta = weighted_latency meta_ops meta_lat ss,
                ag_elapsed_s = max_elapsed,
                ag_cpu = \<lparr> cpu_user = cpu_mean cpu_user ss, cpu_system = cpu_mean cpu_system ss,
                           cpu_iowait = cpu_mean cpu_iowait ss, cpu_total = cpu_mean cpu_total ss \<rparr>,
                windowed_get_ops_s = wg, windowed_get_bytes = wgb,
                windowed_put_ops_s = wp, windowed_put_bytes = wpb,
                windowed_delta_time =
                  (case previous_aggregate ag of None \<Rightarrow> 0 | Some p \<Rightarrow> max_elapsed - ag_elapsed_s p),
                total_concurrency = sum_ops ls_concurrency ss \<rparr>
      in (a, ag\<lparr>previous_aggregate := Some a\<rparr>))"

subsection \<open>Facts\<close>

lemma weighted_sum_bounds:
  assumes "\<And>s. s \<in> set ss \<Longrightarrow> 0 < ops s \<Longrightarrow> lo \<le> v s \<and> v s \<le> hi"
  shows "lo * of_nat (sum_ops ops ss) \<le> weighted_sum ops v ss"
    and "weighted_sum ops v ss \<le> hi * of_nat (sum_ops ops ss)"
proof -
  have "lo * of_nat (sum_ops ops ss) \<le> weighted_sum ops v ss
      \<and> weighted_sum ops v ss \<le> hi * of_nat (sum_ops ops ss)"
    using assms
  proof (induction ss)
    case (Cons s ss)
    show ?case
    proof (cases "0 < ops s")
      case True
      then have "lo * of_nat (ops s) \<le> v s * of_nat (ops s)" and "v s * of_nat (ops s) \<le> hi * of_nat (ops s)"
        using Cons.prems [of s] by (simp_all add: mult_right_mono)
      then show ?thesis using Cons True by (simp add: sum_ops_def weighted_sum_def algebra_simps add_mono)
    next
      case False
      then show ?thesis using Cons by (simp add: sum_ops_def weighted_sum_def)
    qed
  qed (simp add: sum_ops_def weighted_sum_def)
  then show "lo * of_nat (sum_ops ops ss) \<le> weighted_sum ops v ss"
    and "weighted_sum ops v ss \<le> hi * of_nat (sum_ops ops ss)" by blast+
qed

lemma weighted_mean_bounds:
  assumes "\<And>s. s \<in> set ss \<Longrightarrow> 0 < ops s \<Longrightarrow> lo \<le> v s \<and> v s \<le> hi" and "0 < sum_ops ops ss"
  shows "lo \<le> weighted_mean ops v ss" and "weighted_mean ops v ss \<le> hi"
  using weighted_sum_bounds [of ss ops lo v hi, OF assms(1)] assms(2)
  by (simp_all add: weighted_mean_def pos_le_divide_eq pos_divide_le_eq)

lemma aggregate_fields:
  fixes ag :: LiveStatsAggregator
  defines "ss \<equiv> map snd (agent_stats ag)"
  shows "num_agents (fst (aggregate ag)) = length ss"
    "total_get_ops (fst (aggregate ag)) = sum_ops get_ops ss"
    "total_put_ops (fst (aggregate ag)) = sum_ops put_ops ss"
    "total_meta_ops (fst (aggregate ag)) = sum_ops meta_ops ss"
    "ag_get (fst (aggregate ag)) = weighted_latency get_ops get_lat ss"
    "agent_stats (snd (aggregate ag)) = agent_stats ag"
    "previous_aggregate (snd (aggregate ag)) = Some (fst (aggregate ag))"
  by (simp_all add: aggregate_def Let_def case_prod_beta ss_def)

text \<open>The same totals after any order of the map's entries.\<close>

lemma sum_ops_perm: "mset ss = mset ss' \<Longrightarrow> sum_ops f ss = sum_ops f ss'"
  unfolding sum_ops_def by (metis mset_map sum_mset_sum_list)

lemma update_stats_get: "hget (agent_stats (update_stats s ag)) = (hget (agent_stats ag))(ls_agent_id s \<mapsto> s)"
  by (simp add: update_stats_def hm.get_put)

lemma all_completed_iff:
  "hwf (agent_stats ag) \<Longrightarrow> all_completed ag \<longleftrightarrow>
     dom (hget (agent_stats ag)) \<noteq> {} \<and> (\<forall>s \<in> ran (hget (agent_stats ag)). completed s)"
  by (auto simp: all_completed_def list_all_iff hget_def hwf_def ran_distinct dom_map_of_conv_image_fst
      simp del: map_of_eq_empty_iff)

subsection \<open>Properties\<close>

text \<open>
  The aggregated GET mean latency lies between the smallest and the largest mean of the
  agents that did GETs, and the totals are the sums over the agents.
\<close>

lemma aggregate_mean_between:
  assumes "\<And>s. s \<in> snd ` set (agent_stats ag) \<Longrightarrow> 0 < get_ops s \<Longrightarrow>
      lo \<le> mean_us (get_lat s) \<and> mean_us (get_lat s) \<le> hi"
    and "0 < total_get_ops (fst (aggregate ag))"
  shows "lo \<le> mean_us (ag_get (fst (aggregate ag))) \<and> mean_us (ag_get (fst (aggregate ag))) \<le> hi
    \<and> total_get_ops (fst (aggregate ag)) = sum_list (map (get_ops \<circ> snd) (agent_stats ag))"
proof -
  have "lo \<le> weighted_mean get_ops (mean_us \<circ> get_lat) (map snd (agent_stats ag))"
    and "weighted_mean get_ops (mean_us \<circ> get_lat) (map snd (agent_stats ag)) \<le> hi"
    using weighted_mean_bounds [of "map snd (agent_stats ag)" get_ops lo "mean_us \<circ> get_lat" hi] assms
    by (auto simp: aggregate_fields)
  then show ?thesis by (simp add: aggregate_fields weighted_latency_def sum_ops_def comp_def)
qed

definition zero_latency :: latency where
  "zero_latency = \<lparr> mean_us = 0, p50_us = 0, p90_us = 0, p95_us = 0, p99_us = 0 \<rparr>"

definition blank_stats :: "string \<Rightarrow> LiveStats" where
  "blank_stats i =
     \<lparr> ls_agent_id = i, get_ops = 0, get_bytes = 0, get_lat = zero_latency, put_ops = 0, put_bytes = 0,
       put_lat = zero_latency, meta_ops = 0, meta_lat = zero_latency, elapsed_s = 0, completed = False,
       final_summary = None, ls_status = 2, error_message = [], prepare_objects_created = 0,
       prepare_objects_total = 0, prepare_summary = None,
       ls_cpu = \<lparr> cpu_user = 0, cpu_system = 0, cpu_iowait = 0, cpu_total = 0 \<rparr>,
       agent_timestamp_ns = 0, current_stage = 0, stage_name = [], stage_progress_current = 0,
       stage_progress_total = 0, stage_elapsed_s = 0, ls_concurrency = 0, at_barrier = False,
       barrier_sequence = 0, stage_summary = None \<rparr>"

definition sample_aggregator :: LiveStatsAggregator where
  "sample_aggregator =
     update_stats (blank_stats ''agent-2''\<lparr>get_ops := 3, get_lat := zero_latency\<lparr>mean_us := 8\<rparr>\<rparr>)
       (update_stats (blank_stats ''agent-1''\<lparr>get_ops := 1, get_lat := zero_latency\<lparr>mean_us := 4\<rparr>\<rparr>)
         (aggregator_new 2))"

lemma aggregate_mean_between_witness:
  "4 \<le> mean_us (ag_get (fst (aggregate sample_aggregator)))
   \<and> mean_us (ag_get (fst (aggregate sample_aggregator))) \<le> 8
   \<and> total_get_ops (fst (aggregate sample_aggregator))
       = sum_list (map (get_ops \<circ> snd) (agent_stats sample_aggregator))"
  by (rule aggregate_mean_between)
    (auto simp: sample_aggregator_def update_stats_def aggregator_new_def hput_def aggregate_fields
      sum_ops_def blank_stats_def zero_latency_def)

end
