(* ===== verification/Controller.thy ===== *)
theory Controller
  imports Barrier Aggregator "HOL-Library.List_Lexorder" "HOL-Library.Char_ord"
begin

text \<open>
  The controller's run (\<open>src/bin/controller.rs\<close>): the per-agent state machine
  (\<open>ControllerAgentState\<close>, \<open>AgentTracker\<close>), the startup handshake, the handler of a statistics
  message with everything it changes (trackers, barriers, stage summaries, high-water marks,
  aggregator), the stall sweep, \<open>abort_all_agents\<close> and the final verdict \<open>check_test_status\<close>. Clock
  readings, the result of waiting at a phase barrier and the success of file writes are
  arguments; the display, the performance log and the RPC itself are not modelled.
\<close>

subsection \<open>Agent states\<close>

datatype ControllerAgentState =
    Connecting | Validating | AgentReady | Preparing | Running | Cleaning | Completed | AgentFailed
  | Disconnected | Aborting

definition controller_table :: "(ControllerAgentState \<times> ControllerAgentState) list" where
  "controller_table =
     [(Connecting, Validating), (Validating, AgentReady), (Validating, AgentFailed),
      (AgentReady, Preparing), (AgentReady, Running), (Preparing, Running), (Preparing, AgentFailed),
      (Running, Cleaning), (Running, Completed), (Cleaning, Completed), (Running, AgentFailed),
      (Cleaning, AgentFailed),
      (Connecting, Disconnected), (Validating, Disconnected), (AgentReady, Disconnected),
      (Preparing, Disconnected), (Running, Disconnected), (Cleaning, Disconnected),
      (AgentReady, Aborting), (Preparing, Aborting), (Running, Aborting), (Cleaning, Aborting),
      (Aborting, Completed), (Aborting, AgentFailed), (Aborting, Disconnected),
      (Disconnected, Preparing), (Disconnected, Running), (Disconnected, Cleaning),
      (Disconnected, Completed), (Disconnected, AgentFailed),
      (Completed, Completed), (AgentFailed, AgentFailed), (Disconnected, Disconnected)]"

definition controller_can_transition :: "ControllerAgentState \<Rightarrow> ControllerAgentState \<Rightarrow> bool" where
  "controller_can_transition s t \<longleftrightarrow> (s, t) \<in> set controller_table"

definition controller_step ::
  "ControllerAgentState \<Rightarrow> ControllerAgentState
    \<Rightarrow> (ControllerAgentState \<times> ControllerAgentState) + ControllerAgentState" where
  "controller_step s t = (if controller_can_transition s t then Inr t else Inl (s, t))"

interpretation ctl: guarded_machine controller_can_transition controller_step
  by unfold_locales (auto simp: controller_step_def split: if_splits)

record AgentTracker =
  tr_agent_id :: string
  tr_state :: ControllerAgentState
  tr_last_seen :: nat
  tr_error :: "string option"
  tr_latest :: "LiveStats option"
  reconnect_count :: nat
  clock_offset_ns :: "int option"

definition tracker_new :: "nat \<Rightarrow> string \<Rightarrow> AgentTracker" where
  "tracker_new now i =
     \<lparr> tr_agent_id = i, tr_state = Connecting, tr_last_seen = now, tr_error = None,
       tr_latest = None, reconnect_count = 0, clock_offset_ns = None \<rparr>"

definition tracker_transition_to ::
  "nat \<Rightarrow> ControllerAgentState \<Rightarrow> AgentTracker
    \<Rightarrow> (ControllerAgentState \<times> ControllerAgentState) + AgentTracker" where
  "tracker_transition_to now new_state tr =
     (case controller_step (tr_state tr) new_state of
        Inl e \<Rightarrow> Inl e
      | Inr s \<Rightarrow> Inr (tr\<lparr>tr_state := s, tr_last_seen := now\<rparr>))"

text \<open>\<open>let _ = tracker.transition_to(..)\<close>: a rejected transition is dropped.\<close>

definition tracker_try :: "nat \<Rightarrow> ControllerAgentState \<Rightarrow> AgentTracker \<Rightarrow> AgentTracker" where
  "tracker_try now new_state tr =
     (case tracker_transition_to now new_state tr of Inl _ \<Rightarrow> tr | Inr tr' \<Rightarrow> tr')"

definition tracker_touch :: "nat \<Rightarrow> AgentTracker \<Rightarrow> AgentTracker" where
  "tracker_touch now tr = tr\<lparr>tr_last_seen := now\<rparr>"

definition tracker_is_terminal :: "AgentTracker \<Rightarrow> bool" where
  "tracker_is_terminal tr \<longleftrightarrow> tr_state tr = Completed \<or> tr_state tr = AgentFailed"

definition tracker_is_active :: "AgentTracker \<Rightarrow> bool" where
  "tracker_is_active tr \<longleftrightarrow> tr_state tr = Preparing \<or> tr_state tr = Running"

subsection \<open>The state of the run\<close>

text \<open>The stage numbers of the protocol; an unknown number is read as \<open>StageUnknown\<close>.\<close>

datatype PbStage =
  StageUnknown | StagePrepare | StageWorkload | StageCleanup | StageListing | StageCustom

definition stage_of_i32 :: "nat \<Rightarrow> PbStage" where
  "stage_of_i32 n =
     (if n = 1 then StagePrepare else if n = 2 then StageWorkload else if n = 3 then StageCleanup
      else if n = 4 then StageListing else if n = 10 then StageCustom else StageUnknown)"

record controller =
  trackers :: "(string, AgentTracker) hmap"
  aggregator :: LiveStatsAggregator
  barrier_manager :: "BarrierManager option"
  releases :: "BarrierReleaseInfo list"
  last_stage :: PbStage
  last_stage_name :: string
  max_prepare_created :: nat
  max_prepare_total :: nat
  max_cleanup_current :: nat
  max_cleanup_total :: nat
  ctl_stage_elapsed_s :: rat
  agent_summaries :: "WorkloadSummary list"
  prepare_summaries :: "PrepareSummary list"
  stage_summaries :: "(nat \<times> string, (string \<times> StageSummary) list) hmap"
  stages_written :: "(nat \<times> string) list"

definition controller_start :: "nat \<Rightarrow> string list \<Rightarrow> BarrierManager option \<Rightarrow> controller" where
  "controller_start now addrs bm =
     \<lparr> trackers = foldl (\<lambda>m a. hput a (tracker_new now a) m) [] addrs,
       aggregator = aggregator_new (length addrs), barrier_manager = bm, releases = [],
       last_stage = StageUnknown, last_stage_name = [],
       max_prepare_created = 0, max_prepare_total = 0, max_cleanup_current = 0, max_cleanup_total = 0,
       ctl_stage_elapsed_s = 0, agent_summaries = [], prepare_summaries = [], stage_summaries = [],
       stages_written = [] \<rparr>"

datatype run_outcome = Proceed | Finished | Bail string | Panicked | Blocked

definition tracker_of :: "nat \<Rightarrow> (string, AgentTracker) hmap \<Rightarrow> string \<Rightarrow> AgentTracker" where
  "tracker_of now m i = (case hget m i of Some tr \<Rightarrow> tr | None \<Rightarrow> tracker_new now i)"

subsection \<open>Startup\<close>

text \<open>The handshake handler, with the controller's clock in nanoseconds since the epoch.\<close>

definition startup_status :: "nat \<Rightarrow> int \<Rightarrow> LiveStats \<Rightarrow> AgentTracker \<Rightarrow> AgentTracker" where
  "startup_status now controller_ns s tr =
     (if ls_status s = 1 then
        (let tr' = tracker_try now AgentReady tr
         in if agent_timestamp_ns s \<noteq> 0
            then tr'\<lparr>clock_offset_ns := Some (agent_timestamp_ns s - controller_ns)\<rparr> else tr')
      else if ls_status s = 3 then
        tracker_try now AgentFailed (tr\<lparr>tr_error := Some (error_message s)\<rparr>)
      else if ls_status s = 5 then
        tracker_try now AgentFailed (tr\<lparr>tr_error := Some ''Agent aborted during startup''\<rparr>)
      else if \<not> tracker_is_terminal tr \<and> tr_state tr \<noteq> AgentReady
      then tracker_try now AgentReady tr else tr)"

definition responded :: "(string, AgentTracker) hmap \<Rightarrow> nat" where
  "responded m = length (filter (\<lambda>(_, t). tr_state t = AgentReady \<or> tr_state t = AgentFailed) m)"

definition handle_startup ::
  "nat \<Rightarrow> int \<Rightarrow> nat \<Rightarrow> controller \<Rightarrow> LiveStats \<Rightarrow> controller \<times> run_outcome" where
  "handle_startup now controller_ns expected_agent_count st s =
     (let i = ls_agent_id s;
          tr = tracker_of now (trackers st) i;
          tr1 = (if tr_state tr = Connecting then tracker_try now Validating tr else tr);
          tr2 = tracker_touch now (startup_status now controller_ns s tr1);
          st' = st\<lparr>trackers := hput i tr2 (trackers st)\<rparr>
      in (st', if expected_agent_count \<le> responded (trackers st') then Finished else Proceed))"

subsection \<open>Stalled agents\<close>

definition timeout_dead :: duration where "timeout_dead = from_secs 600"

definition sweep_tracker :: "nat \<Rightarrow> AgentTracker \<Rightarrow> AgentTracker" where
  "sweep_tracker now tr =
     (if tracker_is_terminal tr then tr
      else if \<not> tracker_is_active tr then tr
      else if timeout_dead \<le> now - tr_last_seen tr
      then (if tr_state tr \<noteq> Disconnected then tracker_try now Disconnected tr else tr)
      else tr)"

definition sweep :: "nat \<Rightarrow> controller \<Rightarrow> controller" where
  "sweep now st = st\<lparr>trackers := map (\<lambda>(i, tr). (i, sweep_tracker now tr)) (trackers st)\<rparr>"

subsection \<open>Aborting\<close>

definition abort_tracker :: "nat \<Rightarrow> (string, AgentTracker) hmap \<Rightarrow> string \<Rightarrow> (string, AgentTracker) hmap" where
  "abort_tracker now m addr =
     (case hget m addr of
        None \<Rightarrow> m
      | Some tr \<Rightarrow>
          (if tr_state tr \<in> {AgentReady, Preparing, Running}
           then hput addr (tracker_try now Aborting tr) m else m))"

definition abort_all_agents :: "nat \<Rightarrow> string list \<Rightarrow> controller \<Rightarrow> controller" where
  "abort_all_agents now addrs st = st\<lparr>trackers := foldl (abort_tracker now) (trackers st) addrs\<rparr>"

subsection \<open>A statistics message\<close>

definition progress_of :: "LiveStats \<Rightarrow> PhaseProgress" where
  "progress_of s =
     \<lparr> current_phase = (case stage_of_i32 (current_stage s) of
          StagePrepare \<Rightarrow> 3 | StageWorkload \<Rightarrow> 5 | StageCleanup \<Rightarrow> 7 | _ \<Rightarrow> 0),
       operations_completed = get_ops s + put_ops s + meta_ops s,
       phase_completed = completed s, pp_at_barrier = at_barrier s \<rparr>"

text \<open>
  The part under \<open>if let Some(bm) = barrier_manager\<close>: the heartbeat, the barrier report with the
  release messages, and the collection of a stage summary, written once all agents reported.
\<close>

definition note_stage_summary ::
  "(nat \<times> string \<Rightarrow> bool) \<Rightarrow> nat \<Rightarrow> LiveStats \<Rightarrow> controller \<Rightarrow> controller" where
  "note_stage_summary write_ok expected s st =
     (case stage_summary s of
        None \<Rightarrow> st
      | Some sm \<Rightarrow>
          (let key = (ss_index sm, ss_name sm);
               old = (case hget (stage_summaries st) key of Some l \<Rightarrow> l | None \<Rightarrow> []);
               collected = old @ [(ls_agent_id s, sm)];
               st' = st\<lparr>stage_summaries := hput key collected (stage_summaries st)\<rparr>
           in if expected \<le> length collected \<and> key \<notin> set (stages_written st) \<and> write_ok key
              then st'\<lparr>stages_written := hset_insert key (stages_written st)\<rparr> else st'))"

definition note_barrier ::
  "(nat \<times> string \<Rightarrow> bool) \<Rightarrow> nat \<Rightarrow> nat \<Rightarrow> LiveStats \<Rightarrow> controller \<Rightarrow> controller option" where
  "note_barrier write_ok expected now s st =
     (case barrier_manager st of
        None \<Rightarrow> Some st
      | Some bm \<Rightarrow>
          map_option
            (\<lambda>(bm', out). note_stage_summary write_ok expected s
               (st\<lparr>barrier_manager := Some bm', releases := releases st @ out\<rparr>))
            (report_step bm (now, ls_agent_id s, progress_of s, barrier_sequence s)))"

definition recovery_state :: "LiveStats \<Rightarrow> ControllerAgentState" where
  "recovery_state s =
     (if completed s then Completed
      else case stage_of_i32 (current_stage s) of
        StagePrepare \<Rightarrow> Preparing | StageCleanup \<Rightarrow> Cleaning | _ \<Rightarrow> Running)"

definition unmark_completed :: "LiveStats \<Rightarrow> LiveStatsAggregator \<Rightarrow> LiveStatsAggregator" where
  "unmark_completed s ag =
     (case hget (agent_stats ag) (ls_agent_id s) of
        None \<Rightarrow> ag
      | Some a \<Rightarrow>
          (if completed a \<and> \<not> completed s
           then ag\<lparr>agent_stats := hput (ls_agent_id s) (a\<lparr>completed := False\<rparr>) (agent_stats ag)\<rparr>
           else ag))"

definition recover_tracker :: "nat \<Rightarrow> LiveStats \<Rightarrow> AgentTracker \<Rightarrow> AgentTracker" where
  "recover_tracker now s tr =
     (if tr_state tr = Disconnected
      then tracker_try now (recovery_state s) (tr\<lparr>reconnect_count := reconnect_count tr + 1\<rparr>)
      else tr)"

definition high_water :: "LiveStats \<Rightarrow> controller \<Rightarrow> controller" where
  "high_water s st =
     (case stage_of_i32 (current_stage s) of
        StagePrepare \<Rightarrow>
          st\<lparr>max_prepare_created := max (max_prepare_created st) (prepare_objects_created s),
             max_prepare_total := max (max_prepare_total st) (prepare_objects_total s)\<rparr>
      | StageCleanup \<Rightarrow>
          st\<lparr>max_cleanup_current := max (max_cleanup_current st) (stage_progress_current s),
             max_cleanup_total := max (max_cleanup_total st) (stage_progress_total s)\<rparr>
      | _ \<Rightarrow> st)"

definition stage_tracker :: "nat \<Rightarrow> PbStage \<Rightarrow> AgentTracker \<Rightarrow> AgentTracker" where
  "stage_tracker now stage tr =
     (case stage of
        StagePrepare \<Rightarrow> if tr_state tr = AgentReady then tracker_try now Preparing tr else tr
      | StageWorkload \<Rightarrow>
          if tr_state tr = Preparing then tracker_try now Running tr
          else if tr_state tr = AgentReady then tracker_try now Running tr else tr
      | StageCleanup \<Rightarrow> if tr_state tr = Running then tracker_try now Cleaning tr else tr
      | _ \<Rightarrow> tr)"

text \<open>
  The change from prepare to workload, seen on consecutive messages of any agents: the
  aggregator and the prepare marks are reset, and the prepare barrier is awaited.
\<close>

definition enter_workload ::
  "(BarrierManager \<Rightarrow> wait_result \<times> BarrierManager) \<Rightarrow> bool \<Rightarrow> nat \<Rightarrow> string list \<Rightarrow> controller
    \<Rightarrow> controller \<times> run_outcome" where
  "enter_workload wait has_distributed now addrs st =
     (let st1 = st\<lparr>aggregator := reset_stats (aggregator st), max_prepare_created := 0, max_prepare_total := 0\<rparr>
      in case barrier_manager st1 of
           None \<Rightarrow> (st1, Proceed)
         | Some bm \<Rightarrow>
             (if \<not> has_distributed then (st1, Proceed)
              else case wait bm of
                (WaitOk _, bm') \<Rightarrow> (st1\<lparr>barrier_manager := Some bm'\<rparr>, Proceed)
              | (WaitInsufficient, bm') \<Rightarrow>
                  (abort_all_agents now addrs (st1\<lparr>barrier_manager := Some bm'\<rparr>), Bail ''Prepare barrier error'')
              | (WaitTimeout, bm') \<Rightarrow>
                  (abort_all_agents now addrs (st1\<lparr>barrier_manager := Some bm'\<rparr>), Bail ''Prepare barrier error'')
              | (StillWaiting, bm') \<Rightarrow> (st1\<lparr>barrier_manager := Some bm'\<rparr>, Blocked)
              | (WaitPanic, bm') \<Rightarrow> (st1\<lparr>barrier_manager := Some bm'\<rparr>, Panicked)))"

definition put_tracker :: "string \<Rightarrow> AgentTracker \<Rightarrow> controller \<Rightarrow> controller" where
  "put_tracker i tr st = st\<lparr>trackers := hput i tr (trackers st)\<rparr>"

text \<open>The end of the handler: the status codes, the completion, the update of the aggregator.\<close>

definition conclude_message ::
  "nat \<Rightarrow> string list \<Rightarrow> LiveStats \<Rightarrow> AgentTracker \<Rightarrow> controller \<Rightarrow> controller \<times> run_outcome" where
  "conclude_message now addrs s tr st =
     (let i = ls_agent_id s
      in if ls_status s = 3 then
           (let msg = (if error_message s = [] then ''Unknown error (no message provided)'' else error_message s);
                tr' = tracker_try now AgentFailed (tr\<lparr>tr_error := Some msg\<rparr>);
                st' = (put_tracker i tr' st)\<lparr>aggregator := snd (aggregate (mark_completed i (aggregator st)))\<rparr>
            in (abort_all_agents now addrs st', Bail msg))
         else if ls_status s = 5 then
           ((put_tracker i (tracker_try now Completed tr) st)\<lparr>aggregator := mark_completed i (aggregator st)\<rparr>, Proceed)
         else if ls_status s = 4 \<and> \<not> completed s then
           ((put_tracker i (tracker_try now Completed tr) st)\<lparr>aggregator := mark_completed i (aggregator st)\<rparr>, Proceed)
         else
           (let st' = (if completed s then
                  (put_tracker i (tracker_try now Completed tr) st)
                    \<lparr>aggregator := mark_completed i (aggregator st),
                     agent_summaries := agent_summaries st @ (case final_summary s of Some x \<Rightarrow> [x] | None \<Rightarrow> []),
                     prepare_summaries := prepare_summaries st @ (case prepare_summary s of Some x \<Rightarrow> [x] | None \<Rightarrow> [])\<rparr>
                else (put_tracker i tr st)\<lparr>aggregator := update_stats s (aggregator st)\<rparr>)
            in (st', if all_completed (aggregator st') then Finished else Proceed)))"

text \<open>The tracker of the sender, up to the change its stage calls for.\<close>

definition received_tracker :: "nat \<Rightarrow> controller \<Rightarrow> LiveStats \<Rightarrow> AgentTracker" where
  "received_tracker now st s =
     stage_tracker now (stage_of_i32 (current_stage s))
       (recover_tracker now s
         ((tracker_touch now (tracker_of now (trackers st) (ls_agent_id s)))\<lparr>tr_latest := Some s\<rparr>))"

definition register_message :: "nat \<Rightarrow> LiveStats \<Rightarrow> controller \<Rightarrow> controller" where
  "register_message now s st =
     (let i = ls_agent_id s;
          st' = (if tr_state (tracker_of now (trackers st) i) = Disconnected
                 then st\<lparr>aggregator := unmark_completed s (aggregator st)\<rparr> else st)
      in (put_tracker i (received_tracker now st s) (high_water s st'))
           \<lparr>last_stage := stage_of_i32 (current_stage s), last_stage_name := stage_name s\<rparr>)"

definition note_stage_elapsed :: "controller \<Rightarrow> LiveStats \<Rightarrow> controller \<Rightarrow> controller" where
  "note_stage_elapsed before s st =
     st\<lparr>ctl_stage_elapsed_s :=
          (if stage_of_i32 (current_stage s) \<noteq> last_stage before \<or> stage_name s \<noteq> last_stage_name before
           then stage_elapsed_s s else max (ctl_stage_elapsed_s st) (stage_elapsed_s s))\<rparr>"

definition handle_stats ::
  "(BarrierManager \<Rightarrow> wait_result \<times> BarrierManager) \<Rightarrow> bool \<Rightarrow> (nat \<times> string \<Rightarrow> bool) \<Rightarrow> string list \<Rightarrow> nat
    \<Rightarrow> controller \<Rightarrow> LiveStats \<Rightarrow> controller \<times> run_outcome" where
  "handle_stats wait has_distributed write_ok addrs now st s =
     (case note_barrier write_ok (length addrs) now s st of
        None \<Rightarrow> (put_tracker (ls_agent_id s)
            ((tracker_touch now (tracker_of now (trackers st) (ls_agent_id s)))\<lparr>tr_latest := Some s\<rparr>) st, Panicked)
      | Some st1 \<Rightarrow>
          (let st2 = register_message now s st1;
               (st3, out) = (if last_stage st1 = StagePrepare \<and> stage_of_i32 (current_stage s) = StageWorkload
                             then enter_workload wait has_distributed now addrs st2 else (st2, Proceed))
           in if out \<noteq> Proceed then (st3, out)
              else conclude_message now addrs s (received_tracker now st1 s) (note_stage_elapsed st1 s st3)))"

subsection \<open>The verdict\<close>

record TestStatus =
  success :: bool
  total_agents :: nat
  ts_completed :: nat
  ts_failed :: nat
  ts_disconnected :: nat
  ts_aborting :: nat
  ts_reconnect_count :: nat
  ts_total_ops :: nat
  agent_details :: "(string \<times> ControllerAgentState \<times> string) list"

definition state_debug :: "ControllerAgentState \<Rightarrow> string" where
  "state_debug s =
     (case s of Connecting \<Rightarrow> ''Connecting'' | Validating \<Rightarrow> ''Validating'' | AgentReady \<Rightarrow> ''Ready''
      | Preparing \<Rightarrow> ''Preparing'' | Running \<Rightarrow> ''Running'' | Cleaning \<Rightarrow> ''Cleaning''
      | Completed \<Rightarrow> ''Completed'' | AgentFailed \<Rightarrow> ''Failed'' | Disconnected \<Rightarrow> ''Disconnected''
      | Aborting \<Rightarrow> ''Aborting'')"

definition real_agents :: "(string, AgentTracker) hmap \<Rightarrow> (string \<times> AgentTracker) list" where
  "real_agents m = filter (\<lambda>(i, _). CHR '':'' \<notin> set i) m"

definition count_state :: "ControllerAgentState \<Rightarrow> (string \<times> AgentTracker) list \<Rightarrow> nat" where
  "count_state s seen = length (filter (\<lambda>(_, t). tr_state t = s) seen)"

definition check_test_status :: "(string, AgentTracker) hmap \<Rightarrow> WorkloadSummary list \<Rightarrow> TestStatus" where
  "check_test_status m collected =
     (let seen = real_agents m; n = length seen;
          finished = count_state Completed seen; failed = count_state AgentFailed seen;
          gone = count_state Disconnected seen; aborting = count_state Aborting seen
      in \<lparr> success = (0 < n \<and> finished = n \<and> failed = 0 \<and> gone = 0 \<and> aborting = 0),
           total_agents = n, ts_completed = finished, ts_failed = failed, ts_disconnected = gone,
           ts_aborting = aborting,
           ts_reconnect_count = sum_list (map (reconnect_count \<circ> snd) seen),
           ts_total_ops = sum_list (map ws_total_ops collected),
           agent_details = sort_key fst (map (\<lambda>(i, t). (i, tr_state t,
             case tr_error t of Some e \<Rightarrow> e | None \<Rightarrow> state_debug (tr_state t))) seen) \<rparr>)"

subsection \<open>Trackers follow the state machine\<close>

abbreviation controller_path :: "(ControllerAgentState \<times> ControllerAgentState) set" where
  "controller_path \<equiv> {(s, t). controller_can_transition s t}\<^sup>*"

definition tracker_state :: "controller \<Rightarrow> string \<Rightarrow> ControllerAgentState" where
  "tracker_state st i = (case hget (trackers st) i of Some tr \<Rightarrow> tr_state tr | None \<Rightarrow> Connecting)"

definition follows :: "controller \<Rightarrow> controller \<Rightarrow> bool" where
  "follows st st' \<longleftrightarrow> (\<forall>i. (tracker_state st i, tracker_state st' i) \<in> controller_path)"

lemma tracker_try_state:
  "tr_state (tracker_try now new_state tr) = attempt controller_step (tr_state tr) new_state"
  by (simp add: tracker_try_def tracker_transition_to_def attempt_def split: sum.split)

lemma tracker_try_path: "(tr_state tr, tr_state (tracker_try now new_state tr)) \<in> controller_path"
  using ctl.attempt_cases [of "tr_state tr" new_state] by (auto simp: tracker_try_state)

lemma path_try: "(s, tr_state tr) \<in> controller_path \<Longrightarrow> (s, tr_state (tracker_try now t tr)) \<in> controller_path"
  by (erule rtrancl_trans) (rule tracker_try_path)

lemma path_if:
  "(s, tr_state a) \<in> controller_path \<Longrightarrow> (s, tr_state b) \<in> controller_path \<Longrightarrow>
     (s, tr_state (if c then a else b)) \<in> controller_path"
  by simp

lemma follows_refl [simp]: "follows st st" by (simp add: follows_def)

lemma follows_trans [trans]: "follows a b \<Longrightarrow> follows b c \<Longrightarrow> follows a c"
  unfolding follows_def by (blast intro: rtrancl_trans)

lemma follows_same: "trackers st' = trackers st \<Longrightarrow> follows st st'"
  by (simp add: follows_def tracker_state_def)

lemma tracker_of_state: "tr_state (tracker_of now (trackers st) i) = tracker_state st i"
  by (simp add: tracker_of_def tracker_state_def tracker_new_def split: option.split)

lemma follows_put:
  "(tracker_state st i, tr_state tr) \<in> controller_path \<Longrightarrow> follows st (st\<lparr>trackers := hput i tr (trackers st)\<rparr>)"
  by (auto simp: follows_def tracker_state_def hm.get_put)

lemma tracker_state_put:
  "tracker_state (st\<lparr>trackers := hput i tr (trackers st)\<rparr>) j = (if j = i then tr_state tr else tracker_state st j)"
  by (simp add: tracker_state_def hm.get_put)

lemma hget_map_values: "hget (map (\<lambda>(i, v). (i, f v)) m) k = map_option f (hget m k)"
  by (induction m) (auto simp: hget_def)

lemma sweep_tracker_state:
  "tr_state (sweep_tracker now tr) =
     (if tracker_is_active tr \<and> timeout_dead \<le> now - tr_last_seen tr then Disconnected else tr_state tr)"
  by (auto simp: sweep_tracker_def tracker_is_active_def tracker_is_terminal_def tracker_try_state
      attempt_def controller_step_def controller_can_transition_def controller_table_def)

lemma sweep_follows: "follows st (sweep now st)"
proof -
  have "(tr_state tr, tr_state (sweep_tracker now tr)) \<in> controller_path" for tr
    by (auto simp: sweep_tracker_state tracker_is_active_def controller_can_transition_def controller_table_def
        intro!: r_into_rtrancl)
  then show ?thesis
    by (auto simp: follows_def tracker_state_def sweep_def hget_map_values split: option.split)
qed

lemma abort_tracker_follows: "follows st (st\<lparr>trackers := abort_tracker now (trackers st) a\<rparr>)"
proof (cases "hget (trackers st) a")
  case (Some tr)
  then have "(tracker_state st a, tr_state (tracker_try now Aborting tr)) \<in> controller_path"
    using tracker_try_path by (simp add: tracker_state_def)
  then show ?thesis using Some follows_put by (simp add: abort_tracker_def)
qed (simp add: abort_tracker_def)

lemma abort_all_follows: "follows st (abort_all_agents now addrs st)"
proof -
  have "follows st (st\<lparr>trackers := foldl (abort_tracker now) (trackers st) addrs\<rparr>)" for st
  proof (induction addrs arbitrary: st)
    case (Cons a addrs)
    show ?case
      using follows_trans [OF abort_tracker_follows Cons.IH [of "st\<lparr>trackers := abort_tracker now (trackers st) a\<rparr>"]]
      by simp
  qed simp
  then show ?thesis by (simp add: abort_all_agents_def)
qed

lemma abort_all_other: "i \<notin> set addrs \<Longrightarrow> hget (trackers (abort_all_agents now addrs st)) i = hget (trackers st) i"
proof -
  have "i \<notin> set addrs \<Longrightarrow> hget (foldl (abort_tracker now) m addrs) i = hget m i" for m
    by (induction addrs arbitrary: m) (auto simp: abort_tracker_def hm.get_put split: option.split)
  then show "i \<notin> set addrs \<Longrightarrow> hget (trackers (abort_all_agents now addrs st)) i = hget (trackers st) i"
    by (simp add: abort_all_agents_def)
qed

lemma startup_status_path: "(tr_state tr, tr_state (startup_status now ns s tr)) \<in> controller_path"
  using tracker_try_path [of tr] tracker_try_path [of "tr\<lparr>tr_error := e\<rparr>" for e]
  by (auto simp: startup_status_def Let_def)

lemma handle_startup_follows: "follows st (fst (handle_startup now ns n st s))"
proof -
  let ?tr = "tracker_of now (trackers st) (ls_agent_id s)"
  let ?tr1 = "if tr_state ?tr = Connecting then tracker_try now Validating ?tr else ?tr"
  have "(tr_state ?tr, tr_state ?tr1) \<in> controller_path"
    by (rule path_if [OF tracker_try_path rtrancl.rtrancl_refl])
  then have "(tracker_state st (ls_agent_id s), tr_state (startup_status now ns s ?tr1)) \<in> controller_path"
    unfolding tracker_of_state [symmetric, of _ _ now] using startup_status_path by (rule rtrancl_trans)
  then show ?thesis
    unfolding handle_startup_def Let_def fst_conv by (intro follows_put) (simp add: tracker_touch_def)
qed

lemma note_stage_summary_simps [simp]:
  "trackers (note_stage_summary write_ok n s st) = trackers st"
  "aggregator (note_stage_summary write_ok n s st) = aggregator st"
  by (simp_all add: note_stage_summary_def Let_def split: option.split)

lemma note_barrier_trackers:
  assumes "note_barrier write_ok n now s st = Some st'"
  shows "trackers st' = trackers st" and "aggregator st' = aggregator st"
  using assms by (auto simp: note_barrier_def split: option.splits prod.splits)

lemma high_water_trackers [simp]: "trackers (high_water s st) = trackers st"
  by (simp add: high_water_def split: PbStage.split)

lemma enter_workload_follows: "follows st (fst (enter_workload wait hasd now addrs st))"
proof -
  have "follows st (st\<lparr>aggregator := a, max_prepare_created := 0, max_prepare_total := 0, barrier_manager := b\<rparr>)" for a b
    by (rule follows_same) simp
  then show ?thesis
    using follows_trans [OF _ abort_all_follows]
    by (auto simp: enter_workload_def Let_def follows_same split: option.split prod.split wait_result.split)
qed

lemma enter_workload_trackers:
  "snd (enter_workload wait hasd now addrs st) = Proceed \<Longrightarrow>
     trackers (fst (enter_workload wait hasd now addrs st)) = trackers st"
  by (auto simp: enter_workload_def Let_def split: option.splits prod.splits wait_result.splits if_splits)

lemma recover_tracker_path: "(tr_state tr, tr_state (recover_tracker now s tr)) \<in> controller_path"
  unfolding recover_tracker_def
  by (rule path_if [OF path_try rtrancl.rtrancl_refl]) simp

lemma stage_tracker_path: "(tr_state tr, tr_state (stage_tracker now stage tr)) \<in> controller_path"
  using tracker_try_path [of tr] by (auto simp: stage_tracker_def split: PbStage.split)

lemma conclude_follows:
  assumes "(tracker_state st (ls_agent_id s), tr_state tr) \<in> controller_path"
  shows "follows st (fst (conclude_message now addrs s tr st))"
proof -
  have put: "follows st ((put_tracker (ls_agent_id s) tr' st)\<lparr>aggregator := a\<rparr>)"
    if "(tracker_state st (ls_agent_id s), tr_state tr') \<in> controller_path" for tr' a
    using follows_trans [OF follows_put [OF that] follows_same] by (simp add: put_tracker_def)
  have more: "follows st (x\<lparr>agent_summaries := b, prepare_summaries := c\<rparr>)" if "follows st x" for x b c
    using follows_trans [OF that follows_same] by simp
  have try': "(tracker_state st (ls_agent_id s), tr_state (tracker_try now t tr)) \<in> controller_path"
    and err: "(tracker_state st (ls_agent_id s), tr_state (tracker_try now t (tr\<lparr>tr_error := e\<rparr>))) \<in> controller_path" for t e
    using path_try [OF assms] path_try [of _ "tr\<lparr>tr_error := e\<rparr>"] assms by simp_all
  show ?thesis
    unfolding conclude_message_def Let_def
    using put [OF assms] put [OF try'] more [OF put [OF try']] follows_trans [OF put [OF err] abort_all_follows]
    by (simp add: put_tracker_def)
qed

lemma received_tracker_path: "(tracker_state st (ls_agent_id s), tr_state (received_tracker now st s)) \<in> controller_path"
proof -
  let ?tr = "(tracker_touch now (tracker_of now (trackers st) (ls_agent_id s)))\<lparr>tr_latest := Some s\<rparr>"
  have "tracker_state st (ls_agent_id s) = tr_state ?tr"
    by (simp add: tracker_touch_def tracker_of_state)
  then show ?thesis
    unfolding received_tracker_def using recover_tracker_path stage_tracker_path rtrancl_trans by metis
qed

lemma note_stage_elapsed_trackers [simp]: "trackers (note_stage_elapsed b s st) = trackers st"
  by (simp add: note_stage_elapsed_def)

lemma register_message_trackers:
  "trackers (register_message now s st) = hput (ls_agent_id s) (received_tracker now st s) (trackers st)"
  by (simp add: register_message_def Let_def put_tracker_def)

lemma register_message_follows:
  "follows st (register_message now s st)"
  "tracker_state (register_message now s st) (ls_agent_id s) = tr_state (received_tracker now st s)"
  using received_tracker_path [of st s now]
  by (auto simp: follows_def tracker_state_def register_message_trackers hm.get_put)

lemma handle_stats_follows: "follows st (fst (handle_stats wait hasd write_ok addrs now st s))"
proof (cases "note_barrier write_ok (length addrs) now s st")
  case None
  then show ?thesis
    by (simp add: handle_stats_def put_tracker_def follows_put tracker_touch_def tracker_of_state)
next
  case (Some st1)
  let ?reg = "register_message now s st1"
  let ?enter = "last_stage st1 = StagePrepare \<and> stage_of_i32 (current_stage s) = StageWorkload"
  obtain st3 out where e: "(if ?enter then enter_workload wait hasd now addrs ?reg else (?reg, Proceed)) = (st3, out)"
    by fastforce
  have f1: "follows st st1" using note_barrier_trackers [OF Some] by (simp add: follows_same)
  have "follows ?reg st3"
  proof (cases ?enter)
    case True
    then show ?thesis using enter_workload_follows [of ?reg wait hasd now addrs] e by (simp only: if_True) simp
  next
    case False
    then show ?thesis using e by (auto simp only: if_False prod.inject follows_refl)
  qed
  then have f3: "follows st st3"
    by (rule follows_trans [OF follows_trans [OF f1 register_message_follows(1)]])
  have eq: "handle_stats wait hasd write_ok addrs now st s =
      (if out \<noteq> Proceed then (st3, out)
       else conclude_message now addrs s (received_tracker now st1 s) (note_stage_elapsed st1 s st3))"
    unfolding handle_stats_def Some option.case Let_def e prod.case ..
  show ?thesis
  proof (cases "out = Proceed")
    case True
    have "trackers st3 = trackers ?reg"
    proof (cases ?enter)
      case True
      then show ?thesis
        using e \<open>out = Proceed\<close> enter_workload_trackers [of wait hasd now addrs ?reg] by (simp only: if_True) simp
    next
      case False
      then show ?thesis using e by (auto simp only: if_False prod.inject follows_refl)
    qed
    then have "tracker_state (note_stage_elapsed st1 s st3) (ls_agent_id s) = tr_state (received_tracker now st1 s)"
      using register_message_follows(2) [of now s st1] by (simp add: tracker_state_def)
    then have "follows (note_stage_elapsed st1 s st3)
        (fst (conclude_message now addrs s (received_tracker now st1 s) (note_stage_elapsed st1 s st3)))"
      by (intro conclude_follows) simp
    moreover have "follows st3 (note_stage_elapsed st1 s st3)" by (rule follows_same) simp
    ultimately have "follows st (fst (conclude_message now addrs s (received_tracker now st1 s) (note_stage_elapsed st1 s st3)))"
      by (rule follows_trans [OF follows_trans [OF f3], rotated])
    then show ?thesis unfolding eq using True by simp
  next
    case False
    then show ?thesis unfolding eq using f3 by simp
  qed
qed

subsection \<open>Runs\<close>

datatype controller_event =
    Startup nat int LiveStats
  | Message nat LiveStats
  | Stall nat
  | AbortAll nat

fun controller_event_step ::
  "(BarrierManager \<Rightarrow> wait_result \<times> BarrierManager) \<Rightarrow> bool \<Rightarrow> (nat \<times> string \<Rightarrow> bool) \<Rightarrow> string list
    \<Rightarrow> controller \<Rightarrow> controller_event \<Rightarrow> controller" where
  "controller_event_step wait hasd write_ok addrs st (Startup now ns s) =
     fst (handle_startup now ns (length addrs) st s)"
| "controller_event_step wait hasd write_ok addrs st (Message now s) =
     fst (handle_stats wait hasd write_ok addrs now st s)"
| "controller_event_step wait hasd write_ok addrs st (Stall now) = sweep now st"
| "controller_event_step wait hasd write_ok addrs st (AbortAll now) = abort_all_agents now addrs st"

definition controller_run ::
  "(BarrierManager \<Rightarrow> wait_result \<times> BarrierManager) \<Rightarrow> bool \<Rightarrow> (nat \<times> string \<Rightarrow> bool) \<Rightarrow> string list
    \<Rightarrow> controller \<Rightarrow> controller_event list \<Rightarrow> controller" where
  "controller_run wait hasd write_ok addrs st evs = foldl (controller_event_step wait hasd write_ok addrs) st evs"

lemma controller_run_follows: "follows st (controller_run wait hasd write_ok addrs st evs)"
proof (induction evs rule: rev_induct)
  case Nil
  show ?case by (simp add: controller_run_def)
next
  case (snoc e evs)
  let ?st = "controller_run wait hasd write_ok addrs st evs"
  have "follows ?st (controller_event_step wait hasd write_ok addrs ?st e)"
    by (cases e) (simp_all add: handle_startup_follows handle_stats_follows sweep_follows abort_all_follows)
  then show ?case using follows_trans [OF snoc] by (simp add: controller_run_def)
qed

lemma terminal_path:
  assumes "(s, t) \<in> controller_path" and "s \<in> {Completed, AgentFailed}"
  shows "t = s"
  using assms
  by (induction rule: rtrancl_induct) (auto simp: controller_can_transition_def controller_table_def)

lemma tracker_try_cases:
  "tr_state (tracker_try now t tr) = (if controller_can_transition (tr_state tr) t then t else tr_state tr)"
  by (simp add: tracker_try_state attempt_def controller_step_def)

lemmas controller_moves = controller_can_transition_def controller_table_def

lemma tracker_state_put_tracker:
  "tracker_state (put_tracker i tr st) j = (if j = i then tr_state tr else tracker_state st j)"
  by (simp add: put_tracker_def tracker_state_put)

lemma tracker_state_fields [simp]:
  "tracker_state (st\<lparr>aggregator := a\<rparr>) = tracker_state st"
  "tracker_state (st\<lparr>agent_summaries := b, prepare_summaries := c\<rparr>) = tracker_state st"
  "tracker_state (note_stage_elapsed before s st) = tracker_state st"
  by (simp_all add: tracker_state_def fun_eq_iff)

lemma conclude_state:
  assumes "ls_status s \<noteq> 3"
  shows "tracker_state (fst (conclude_message now addrs s tr st)) (ls_agent_id s) =
    (if ls_status s = 5 \<or> ls_status s = 4 \<or> completed s then tr_state (tracker_try now Completed tr)
     else tr_state tr)"
  using assms by (simp add: conclude_message_def Let_def tracker_state_put_tracker)

lemma received_tracker_cong: "trackers a = trackers b \<Longrightarrow> received_tracker now a s = received_tracker now b s"
  by (simp add: received_tracker_def)

lemma handle_stats_state:
  assumes "stage_of_i32 (current_stage s) \<noteq> StageWorkload" and "ls_status s \<noteq> 3"
    and "note_barrier write_ok (length addrs) now s st = Some st1"
  shows "tracker_state (fst (handle_stats wait hasd write_ok addrs now st s)) (ls_agent_id s) =
    (if ls_status s = 5 \<or> ls_status s = 4 \<or> completed s
     then tr_state (tracker_try now Completed (received_tracker now st s))
     else tr_state (received_tracker now st s))"
  using assms(1) conclude_state [OF assms(2)] received_tracker_cong [OF note_barrier_trackers(1) [OF assms(3)]]
  by (simp add: handle_stats_def assms(3))

lemma recover_tracker_state:
  "tr_state (recover_tracker now s tr) =
     (if tr_state tr = Disconnected then recovery_state s else tr_state tr)"
proof -
  have "controller_can_transition Disconnected (recovery_state s)"
    by (simp add: recovery_state_def controller_moves split: PbStage.split)
  then show ?thesis by (auto simp: recover_tracker_def tracker_try_cases)
qed

lemma stage_tracker_state:
  "tr_state (stage_tracker now stage tr) =
     (case stage of
        StagePrepare \<Rightarrow> if tr_state tr = AgentReady then Preparing else tr_state tr
      | StageWorkload \<Rightarrow> if tr_state tr = Preparing \<or> tr_state tr = AgentReady then Running else tr_state tr
      | StageCleanup \<Rightarrow> if tr_state tr = Running then Cleaning else tr_state tr
      | _ \<Rightarrow> tr_state tr)"
  by (cases stage) (auto simp: stage_tracker_def tracker_try_cases controller_moves)

lemma received_tracker_state:
  "tr_state (received_tracker now st s) =
     (let stage = stage_of_i32 (current_stage s);
          q = (if tracker_state st (ls_agent_id s) = Disconnected then recovery_state s
               else tracker_state st (ls_agent_id s))
      in case stage of
           StagePrepare \<Rightarrow> if q = AgentReady then Preparing else q
         | StageWorkload \<Rightarrow> if q = Preparing \<or> q = AgentReady then Running else q
         | StageCleanup \<Rightarrow> if q = Running then Cleaning else q
         | _ \<Rightarrow> q)"
  by (simp add: received_tracker_def stage_tracker_state recover_tracker_state tracker_touch_def
      tracker_of_state Let_def split: PbStage.split)

lemma filter_hput_other: "\<not> P k \<Longrightarrow> filter (\<lambda>(i, _). P i) (hput k v m) = filter (\<lambda>(i, _). P i) m"
  by (induction m) (auto simp: hput_def)

lemma real_agents_abort:
  "list_all (\<lambda>a. CHR '':'' \<in> set a) addrs \<Longrightarrow> real_agents (foldl (abort_tracker now) m addrs) = real_agents m"
proof (induction addrs arbitrary: m)
  case (Cons a addrs)
  then have "real_agents (abort_tracker now m a) = real_agents m"
    by (simp add: real_agents_def abort_tracker_def filter_hput_other split: option.split)
  then show ?case using Cons by simp
qed simp

lemma count_state_le: "count_state s seen \<le> length seen"
  by (simp add: count_state_def)

lemma count_states_sum:
  "count_state Completed seen + count_state AgentFailed seen + count_state Disconnected seen
     + count_state Aborting seen \<le> length seen"
  by (induction seen) (auto simp: count_state_def)

lemma count_state_all: "count_state s seen = length seen \<longleftrightarrow> list_all (\<lambda>(_, t). tr_state t = s) seen"
proof
  assume "count_state s seen = length seen"
  then show "list_all (\<lambda>(_, t). tr_state t = s) seen"
    using length_filter_less [of _ seen "\<lambda>(_, t). tr_state t = s"]
    by (fastforce simp: count_state_def list_all_iff)
qed (simp add: count_state_def list_all_iff)

subsection \<open>The phase barrier and the agents' names\<close>

lemma foldl_mark_failed:
  assumes "\<And>b i. i \<in> set is \<Longrightarrow> query_and_mark clients answer clock b i = mark_agent_failed i b"
  shows "bm_ready (foldl (query_and_mark clients answer clock) bm is) = bm_ready bm"
  using assms by (induction "is" arbitrary: bm) (simp_all add: mark_agent_failed_def)

lemma check_liveness_unknown:
  assumes "set (hkeys (bm_agents bm)) \<inter> set clients = {}"
  shows "bm_ready (check_liveness clients answer clock now bm) = bm_ready bm"
    and "set (hkeys (bm_agents (check_liveness clients answer clock now bm))) = set (hkeys (bm_agents bm))"
proof -
  let ?pass = "map (\<lambda>(i, hb). (i, miss_heartbeat bm now i hb)) (bm_agents bm)"
  let ?bm = "bm\<lparr>bm_agents := map (\<lambda>(i, hb, _). (i, hb)) ?pass\<rparr>"
  let ?q = "map fst (filter (\<lambda>(i, _, q). q) ?pass)"
  have q: "set ?q \<subseteq> set (hkeys (bm_agents bm))" by (force simp: hkeys_def)
  have mark: "query_and_mark clients answer clock b i = mark_agent_failed i b" if "i \<in> set ?q" for b i
  proof -
    have "i \<notin> set clients" using q that assms by blast
    then show ?thesis by (simp add: query_and_mark_def query_agent_with_retry_def)
  qed
  have keys: "set (hkeys (bm_agents (foldl (query_and_mark clients answer clock) b is))) = set (hkeys (bm_agents b))"
    if "set is \<subseteq> set ?q" for b "is"
    using that
  proof (induction "is" arbitrary: b)
    case (Cons i "is")
    have "set (hkeys (bm_agents (query_and_mark clients answer clock b i))) = set (hkeys (bm_agents b))"
      using mark [of i b] Cons.prems mark_agent_failed_keys [of i b] by simp
    then show ?case using Cons by simp
  qed simp
  show "bm_ready (check_liveness clients answer clock now bm) = bm_ready bm"
    unfolding check_liveness_def Let_def using foldl_mark_failed [of ?q clients answer clock ?bm, OF mark] by simp
  have eq: "map (\<lambda>(i, hb, _). (i, hb)) ?pass
      = map (\<lambda>(i, hb). (i, fst (miss_heartbeat bm now i hb))) (bm_agents bm)"
    by (auto simp: split_beta)
  have "set (hkeys (bm_agents ?bm)) = set (hkeys (bm_agents bm))" unfolding eq by simp
  then show "set (hkeys (bm_agents (check_liveness clients answer clock now bm))) = set (hkeys (bm_agents bm))"
    unfolding check_liveness_def Let_def using keys [OF order_refl, of ?bm] by simp
qed

lemma wait_loop_never_ok:
  "bm_inv bm \<Longrightarrow> bm_agents bm \<noteq> [] \<Longrightarrow> bm_ready bm = [] \<Longrightarrow> set (hkeys (bm_agents bm)) \<inter> set clients = {} \<Longrightarrow>
     fst (wait_loop clients answer clock start last_check readings bm) \<notin> {WaitOk Ready, WaitOk Degraded}"
proof (induction clients answer clock start last_check readings bm rule: wait_loop.induct)
  case (2 clients answer clock start last_check now after later bm)
  have v: "check_barrier bm \<noteq> Some Ready" "check_barrier bm \<noteq> Some Degraded"
    using check_barrier_verdict [OF "2.prems"(1)] "2.prems"(2,3)
    by (auto simp: barrier_verdict_def split: BarrierType.splits)
  let ?bm' = "check_liveness clients (answer now) (clock now) now bm"
  have b: "bm_inv ?bm'" "bm_ready ?bm' = []" "set (hkeys (bm_agents ?bm')) \<inter> set clients = {}"
    "set (hkeys (bm_agents ?bm')) \<noteq> {}"
    using check_liveness_inv [OF "2.prems"(1)] check_liveness_unknown [OF "2.prems"(4)] "2.prems"
    by (auto simp: hkeys_def)
  then have "bm_agents ?bm' \<noteq> []" by (auto simp: hkeys_def)
  then show ?case
    using 2 v b by (auto split: option.splits BarrierStatus.splits)
qed simp

lemma wait_for_barrier_unknown_ids:
  assumes "bm_inv bm" and "bm_agents bm \<noteq> []" and "bm_ready bm = []"
    and "set (hkeys (bm_agents bm)) \<inter> set clients = {}"
  shows "fst (wait_for_barrier clients answer clock start readings bm) \<notin> {WaitOk Ready, WaitOk Degraded}"
  unfolding wait_for_barrier_def by (rule wait_loop_never_ok [OF assms])

lemma heartbeat_unknown: "i \<notin> set (hkeys (bm_agents bm)) \<Longrightarrow> process_heartbeat now i p bm = bm"
  by (simp add: process_heartbeat_def hm.set_keys domIff)

lemma report_step_unknown:
  assumes "bm_inv bm" and "report_step bm (now, i, p, k) = Some (bm', out)"
    and "i \<notin> set (hkeys (bm_agents bm))"
  shows "bm_inv bm'" and "bm_agents bm' = bm_agents bm" and "bm_ready bm' = bm_ready bm"
  using assms
  by (auto simp: report_step_def Let_def heartbeat_unknown agent_at_barrier_inv clear_barrier_inv
      split: if_splits option.splits)

lemma barrier_run_unknown:
  "bm_inv bm \<Longrightarrow> barrier_run bm rs = Some (bm', out) \<Longrightarrow> fst ` snd ` set rs \<inter> set (hkeys (bm_agents bm)) = {} \<Longrightarrow>
     bm_inv bm' \<and> bm_agents bm' = bm_agents bm \<and> bm_ready bm' = bm_ready bm"
proof (induction rs arbitrary: bm out)
  case (Cons r rs)
  obtain now i p k where r: "r = (now, i, p, k)" by (cases r)
  obtain bm1 out1 where s: "report_step bm (now, i, p, k) = Some (bm1, out1)"
    using Cons.prems(2) r by (auto split: bind_splits)
  have i: "i \<notin> set (hkeys (bm_agents bm))" using Cons.prems(3) r by auto
  note u = report_step_unknown [OF Cons.prems(1) s i]
  obtain out2 where "barrier_run bm1 rs = Some (bm', out2)" using Cons.prems(2) r s by auto
  then show ?case using Cons.IH [OF u(1)] u Cons.prems(3) by auto
qed simp

subsection \<open>Properties\<close>


text \<open>
  The final verdict is a success exactly when at least one agent reported under an agent id
  and every one of them is completed; the four counts never exceed the number of agents.
\<close>

lemma test_status_success_iff:
  "(success (check_test_status m summaries) \<longleftrightarrow>
      real_agents m \<noteq> [] \<and> list_all (\<lambda>(_, t). tr_state t = Completed) (real_agents m))
   \<and> ts_completed (check_test_status m summaries) + ts_failed (check_test_status m summaries)
      + ts_disconnected (check_test_status m summaries) + ts_aborting (check_test_status m summaries)
     \<le> total_agents (check_test_status m summaries)"
  using count_states_sum [of "real_agents m"] count_state_all [of Completed "real_agents m"]
  by (auto simp: check_test_status_def Let_def)

text \<open>
  An agent that was disconnected is taken out of that state by its next message, whatever the
  message says, when no barrier manager is active.
\<close>

lemma disconnected_agent_recovers:
  assumes "tracker_state st (ls_agent_id s) = Disconnected" and "barrier_manager st = None"
    and "stage_of_i32 (current_stage s) \<noteq> StageWorkload" and "ls_status s \<noteq> 3"
  shows "tracker_state (fst (handle_stats wait hasd write_ok addrs now st s)) (ls_agent_id s)
    = (if completed s \<or> ls_status s = 5 \<or> ls_status s = 4
       then (if recovery_state s = Preparing then Preparing else Completed)
       else recovery_state s)"
proof -
  have nb: "note_barrier write_ok (length addrs) now s st = Some st"
    using assms(2) by (simp add: note_barrier_def)
  show ?thesis
    unfolding handle_stats_state [OF assms(3,4) nb]
    using assms(1,3)
    by (auto simp: tracker_try_cases received_tracker_state Let_def recovery_state_def controller_moves
        split: PbStage.splits if_splits)
qed

definition completing :: "string \<Rightarrow> nat \<Rightarrow> LiveStats" where
  "completing i stage = blank_stats i\<lparr>current_stage := stage, completed := True, ls_status := 4\<rparr>"

definition ready_message :: "string \<Rightarrow> LiveStats" where
  "ready_message i = blank_stats i\<lparr>ls_status := 1, agent_timestamp_ns := 1\<rparr>"

definition run_events :: "string list \<Rightarrow> controller_event list \<Rightarrow> controller" where
  "run_events addrs evs =
     controller_run (\<lambda>bm. (StillWaiting, bm)) True (\<lambda>_. True) addrs (controller_start 0 addrs None) evs"

lemmas run_simps = run_events_def controller_run_def controller_start_def handle_startup_def startup_status_def
  tracker_of_def tracker_new_def tracker_touch_def tracker_try_def tracker_transition_to_def controller_step_def
  controller_moves tracker_is_terminal_def completing_def ready_message_def blank_stats_def hget_def hput_def
  handle_stats_def note_barrier_def register_message_def received_tracker_def recover_tracker_def
  stage_tracker_def stage_of_i32_def put_tracker_def high_water_def note_stage_elapsed_def conclude_message_def
  mark_completed_def update_stats_def all_completed_def aggregator_new_def tracker_state_def responded_def
  sweep_def sweep_tracker_def tracker_is_active_def timeout_dead_def from_secs_def Let_def

lemma disconnected_agent_recovers_witness:
  "tracker_state (fst (handle_stats (\<lambda>bm. (StillWaiting, bm)) True (\<lambda>_. True) [''h:1''] (from_secs 700)
      (run_events [''h:1''] [Startup 0 0 (ready_message ''agent-1''), Message 1 (blank_stats ''agent-1''\<lparr>current_stage := 1\<rparr>),
         Stall (from_secs 601)])
      (blank_stats ''agent-1''\<lparr>current_stage := 1\<rparr>))) (ls_agent_id (blank_stats ''agent-1''\<lparr>current_stage := 1\<rparr>))
   = (if completed (blank_stats ''agent-1''\<lparr>current_stage := 1\<rparr>)
         \<or> ls_status (blank_stats ''agent-1''\<lparr>current_stage := 1\<rparr>) = 5
         \<or> ls_status (blank_stats ''agent-1''\<lparr>current_stage := 1\<rparr>) = 4
      then (if recovery_state (blank_stats ''agent-1''\<lparr>current_stage := 1\<rparr>) = Preparing then Preparing else Completed)
      else recovery_state (blank_stats ''agent-1''\<lparr>current_stage := 1\<rparr>))"
  by (rule disconnected_agent_recovers) (simp_all add: run_simps)

text \<open>
  An agent that completes without ever having been in the workload stage (a prepare-only run,
  or stages of other kinds) is never recorded as completed: from \<open>Ready\<close> and from \<open>Preparing\<close>
  the transition is rejected and the rejection dropped, so the verdict of the run is a failure.
\<close>

lemma completion_without_workload_lost:
  assumes "tracker_state st (ls_agent_id s) \<in> {AgentReady, Preparing}"
    and "stage_of_i32 (current_stage s) \<noteq> StageWorkload" and "ls_status s \<noteq> 3"
    and "note_barrier write_ok (length addrs) now s st \<noteq> None" and "CHR '':'' \<notin> set (ls_agent_id s)"
  shows "let st' = fst (handle_stats wait hasd write_ok addrs now st s)
    in tracker_state st' (ls_agent_id s) \<in> {AgentReady, Preparing}
       \<and> \<not> success (check_test_status (trackers st') summaries)"
proof -
  define st' where "st' = fst (handle_stats wait hasd write_ok addrs now st s)"
  obtain st1 where nb: "note_barrier write_ok (length addrs) now s st = Some st1" using assms(4) by auto
  have q: "tracker_state st' (ls_agent_id s) \<in> {AgentReady, Preparing}"
    unfolding st'_def handle_stats_state [OF assms(2,3) nb]
    using assms(1,2) by (auto simp: tracker_try_cases received_tracker_state Let_def controller_moves split: PbStage.split)
  then have "\<exists>tr. hget (trackers st') (ls_agent_id s) = Some tr \<and> tr_state tr \<noteq> Completed"
    by (auto simp: tracker_state_def split: option.splits)
  then obtain tr where "(ls_agent_id s, tr) \<in> set (trackers st')" "tr_state tr \<noteq> Completed"
    by (auto simp: hget_def dest: map_of_SomeD)
  then have "\<not> list_all (\<lambda>(_, t). tr_state t = Completed) (real_agents (trackers st'))"
    using assms(5) by (force simp: real_agents_def list_all_iff)
  then show ?thesis
    using q count_state_all [of Completed "real_agents (trackers st')"]
    by (auto simp: check_test_status_def Let_def st'_def)
qed

lemma completion_without_workload_lost_witness:
  "let st' = fst (handle_stats (\<lambda>bm. (StillWaiting, bm)) True (\<lambda>_. True) [''h:1''] 9
      (run_events [''h:1''] [Startup 0 0 (ready_message ''agent-1''), Message 1 (blank_stats ''agent-1''\<lparr>current_stage := 1\<rparr>)])
      (completing ''agent-1'' 1))
   in tracker_state st' (ls_agent_id (completing ''agent-1'' 1)) \<in> {AgentReady, Preparing}
      \<and> \<not> success (check_test_status (trackers st') [])"
  by (rule completion_without_workload_lost) (simp_all add: run_simps)

text \<open>
  The run ends as soon as every agent that has reported is completed: if one agent finishes
  before any other has sent its first statistics, the controller leaves the loop and the results
  of the others are lost, however many agents are expected.
\<close>

lemma first_finisher_ends_run:
  assumes "map fst (agent_stats (aggregator st)) = [ls_agent_id s]"
    and "completed s" and "ls_status s = 4" and "barrier_manager st = None"
    and "last_stage st \<noteq> StagePrepare"
  shows "snd (handle_stats wait hasd write_ok addrs now st s) = Finished"
proof -
  obtain a where a: "agent_stats (aggregator st) = [(ls_agent_id s, a)]"
    using assms(1) by auto
  have keys: "aggregator (register_message now s st) = aggregator st"
    using assms(2) a by (auto simp: register_message_def unmark_completed_def put_tracker_def Let_def high_water_def
        hget_def split: PbStage.split)
  show ?thesis
    using assms a keys
    by (simp add: handle_stats_def note_barrier_def conclude_message_def Let_def note_stage_elapsed_def
        put_tracker_def all_completed_def mark_completed_def hget_def hput_def)
qed

lemma first_finisher_ends_run_witness:
  "snd (handle_stats (\<lambda>bm. (StillWaiting, bm)) True (\<lambda>_. True) [''h:1'', ''h:2''] 9
      (run_events [''h:1'', ''h:2''] [Startup 0 0 (ready_message ''agent-1''), Startup 0 0 (ready_message ''agent-2''),
         Message 1 (blank_stats ''agent-1''\<lparr>current_stage := 2\<rparr>)])
      (completing ''agent-1'' 2)) = Finished"
  by (rule first_finisher_ends_run) (simp_all add: run_simps)

text \<open>
  The phase barrier cannot be satisfied when agents report under ids and the manager was
  created with their addresses: their heartbeats are ignored, their status queries find no
  client, and the wait can only fail or time out.
\<close>

lemma phase_barrier_needs_addresses_as_ids:
  assumes "addrs \<noteq> []" and "set ids \<inter> set addrs = {}" and "fst ` snd ` set reports \<subseteq> set ids"
    and "barrier_run (barrier_manager_new now addrs cfg) reports = Some (bm, out)"
  shows "fst (wait_for_barrier ids answer clock start readings bm) \<notin> {WaitOk Ready, WaitOk Degraded}"
proof -
  have k: "set (hkeys (bm_agents (barrier_manager_new now addrs cfg))) = set addrs"
    by (rule barrier_manager_new_agents)
  have "fst ` snd ` set reports \<inter> set (hkeys (bm_agents (barrier_manager_new now addrs cfg))) = {}"
    using assms(2,3) k by blast
  from barrier_run_unknown [OF barrier_manager_new_inv assms(4) this]
  have bm: "bm_inv bm" "bm_ready bm = []" "set (hkeys (bm_agents bm)) = set addrs"
    using k by (simp_all add: barrier_manager_new_def)
  moreover have "bm_agents bm \<noteq> []" using bm(3) assms(1) by (auto simp: hkeys_def)
  ultimately show ?thesis using assms(2) by (intro wait_for_barrier_unknown_ids) auto
qed

definition misnamed_manager :: BarrierManager where
  "misnamed_manager = fst (the (barrier_run (barrier_manager_new 0 [''h:1''] (sample_barrier_config BestEffort))
     [(1, ''agent-1'', sample_progress, 0)]))"

lemma phase_barrier_needs_addresses_as_ids_witness:
  "fst (wait_for_barrier [''agent-1''] (\<lambda>_ _ _. Response (Some sample_progress)) (\<lambda>_ _. 0) 0 [(1, 1)] misnamed_manager)
     \<notin> {WaitOk Ready, WaitOk Degraded}"
proof (rule phase_barrier_needs_addresses_as_ids [where addrs = "[''h:1'']" and now = 0
      and cfg = "sample_barrier_config BestEffort" and reports = "[(1, ''agent-1'', sample_progress, 0)]"])
  show "barrier_run (barrier_manager_new 0 [''h:1''] (sample_barrier_config BestEffort))
      [(1, ''agent-1'', sample_progress, 0)]
    = Some (misnamed_manager, snd (the (barrier_run (barrier_manager_new 0 [''h:1''] (sample_barrier_config BestEffort))
      [(1, ''agent-1'', sample_progress, 0)])))"
    by (simp add: misnamed_manager_def report_step_def barrier_manager_new_def process_heartbeat_def
        agent_at_barrier_def check_barrier_ready_def can_release_def sample_barrier_config_def
        sample_progress_def hget_def hput_def fresh_heartbeat_def clear_barrier_def)
qed simp_all

text \<open>
  The stall sweep disconnects exactly the agents in \<open>Preparing\<close> or \<open>Running\<close> that have been
  silent for ten minutes; an agent that hangs in the cleanup stage is never disconnected,
  although the transition table foresees it.
\<close>

lemma sweep_disconnects_active_only:
  "tracker_state (sweep now st) i =
     (case hget (trackers st) i of
        Some tr \<Rightarrow>
          (if tr_state tr \<in> {Preparing, Running} \<and> from_secs 600 \<le> now - tr_last_seen tr then Disconnected
           else tr_state tr)
      | None \<Rightarrow> Connecting)
   \<and> (tracker_state st i = Cleaning \<longleftrightarrow> tracker_state (sweep now st) i = Cleaning)"
  by (auto simp: tracker_state_def sweep_def hget_map_values sweep_tracker_state tracker_is_active_def timeout_dead_def
      split: option.split)

text \<open>
  Aborting the run leaves the record of every real agent unchanged: the trackers are looked
  up by address, the agents are tracked by id, so the state \<open>Aborting\<close> never shows in the verdict.
\<close>

lemma abort_leaves_verdict:
  assumes "list_all (\<lambda>a. CHR '':'' \<in> set a) addrs"
  shows "check_test_status (trackers (abort_all_agents now addrs st)) summaries
    = check_test_status (trackers st) summaries"
  using real_agents_abort [OF assms] by (simp add: check_test_status_def abort_all_agents_def)

lemma abort_leaves_verdict_witness:
  "check_test_status (trackers (abort_all_agents 5 [''h:1''] (run_events [''h:1''] [Startup 0 0 (ready_message ''agent-1'')]))) []
    = check_test_status (trackers (run_events [''h:1''] [Startup 0 0 (ready_message ''agent-1'')])) []"
  by (rule abort_leaves_verdict) simp

end
