(* ===== verification/Oplog_Session.thy ===== *)
theory Oplog_Session
  imports Interfaces
begin

text \<open>
  The process-wide op-log session of \<open>src/oplog_session.rs\<close>: the three states, the path key, the
  decision, and \<open>begin\<close>, \<open>end\<close>, \<open>check\<close>, \<open>active_path\<close> as state-passing functions. The s3dlio
  logger (\<open>init_operation_logger\<close>, \<open>finalize_operation_logger\<close>) is a parameter: whether the
  call succeeds. The calls made to it are recorded in the state, so that what the process asks
  of s3dlio can be stated.
\<close>

subsection \<open>Path keys\<close>

text \<open>
  \<open>Path::components\<close> on Unix drops empty and \<open>.\<close> components of an absolute path; \<open>..\<close> pops,
  and is pushed where there is nothing to pop. A relative path is taken from the current
  directory; the empty path is not absolutised and has the empty relative key.
\<close>

type_synonym path_key = "bool \<times> string list"

definition normal_components :: "string \<Rightarrow> string list" where
  "normal_components p = filter (\<lambda>c. c \<noteq> [] \<and> c \<noteq> ''.'') (split_on (CHR ''/'') p)"

fun fold_components :: "string list \<Rightarrow> string list \<Rightarrow> string list" where
  "fold_components out [] = out"
| "fold_components out (c # cs) =
     (if c = ''..'' then
        (if out = [] then fold_components [''..''] cs else fold_components (butlast out) cs)
      else fold_components (out @ [c]) cs)"

definition key_of :: "string \<Rightarrow> string \<Rightarrow> path_key" where
  "key_of cwd p =
     (if p = [] then (False, [])
      else if starts_with p ''/'' then (True, fold_components [] (normal_components p))
      else (True, fold_components [] (normal_components (cwd @ ''/'' @ p))))"

subsection \<open>The session\<close>

datatype session_state =
    SessionIdle
  | SessionActive string path_key
  | SessionFinalized string

datatype session_error =
    PathConflict string string
  | AlreadyFinalized string string
  | InitFailed string
  | FinalizeFailed string

datatype logger_call = InitLogger string bool | FinalizeLogger

record session =
  sess :: session_state
  calls :: "logger_call list"

definition session_start :: session where
  "session_start = \<lparr> sess = SessionIdle, calls = [] \<rparr>"

definition decide :: "string \<Rightarrow> session_state \<Rightarrow> string \<Rightarrow> session_error + bool" where
  "decide cwd st path =
     (case st of
        SessionIdle \<Rightarrow> Inr False
      | SessionActive requested key \<Rightarrow>
          (if key = key_of cwd path then Inr True else Inl (PathConflict requested path))
      | SessionFinalized requested \<Rightarrow> Inl (AlreadyFinalized requested path))"

definition session_check :: "string \<Rightarrow> session \<Rightarrow> string \<Rightarrow> session_error + unit" where
  "session_check cwd s path =
     (case decide cwd (sess s) path of Inl e \<Rightarrow> Inl e | Inr _ \<Rightarrow> Inr ())"

definition session_begin ::
  "string \<Rightarrow> (string \<Rightarrow> bool) \<Rightarrow> session \<Rightarrow> string \<Rightarrow> (session_error + unit) \<times> session" where
  "session_begin cwd init_ok s path =
     (case decide cwd (sess s) path of
        Inl e \<Rightarrow> (Inl e, s)
      | Inr True \<Rightarrow> (Inr (), s)
      | Inr False \<Rightarrow>
          (let s' = s\<lparr>calls := calls s @ [InitLogger path (init_ok path)]\<rparr>
           in if init_ok path
              then (Inr (), s'\<lparr>sess := SessionActive path (key_of cwd path)\<rparr>)
              else (Inl (InitFailed path), s')))"

definition active_path :: "session \<Rightarrow> string option" where
  "active_path s = (case sess s of SessionActive requested _ \<Rightarrow> Some requested | _ \<Rightarrow> None)"

definition session_end :: "bool \<Rightarrow> session \<Rightarrow> (session_error + unit) \<times> session" where
  "session_end finalize_ok s =
     (case sess s of
        SessionActive requested _ \<Rightarrow>
          (let s' = s\<lparr>sess := SessionFinalized requested, calls := calls s @ [FinalizeLogger]\<rparr>
           in (if finalize_ok then Inr () else Inl (FinalizeFailed requested), s'))
      | _ \<Rightarrow> (Inr (), s))"

subsection \<open>Runs\<close>

datatype session_op = Begin string "string \<Rightarrow> bool" | End bool

fun session_step :: "string \<Rightarrow> session \<Rightarrow> session_op \<Rightarrow> session" where
  "session_step cwd s (Begin path init_ok) = snd (session_begin cwd init_ok s path)"
| "session_step cwd s (End ok) = snd (session_end ok s)"

definition session_run :: "string \<Rightarrow> session_op list \<Rightarrow> session" where
  "session_run cwd ops = foldl (session_step cwd) session_start ops"

definition opened :: "logger_call \<Rightarrow> bool" where
  "opened c = (case c of InitLogger _ ok \<Rightarrow> ok | FinalizeLogger \<Rightarrow> False)"

text \<open>
  The invariant between the session state and the calls made to s3dlio: before the session
  opens, only failed initialisations; while it is open, exactly one successful initialisation,
  the last call, with the key of its path; after it, one finalisation at the very end.
\<close>

definition session_inv :: "string \<Rightarrow> session \<Rightarrow> bool" where
  "session_inv cwd s =
     (case sess s of
        SessionIdle \<Rightarrow> list_all (\<lambda>c. \<exists>p. c = InitLogger p False) (calls s)
      | SessionActive p k \<Rightarrow>
          k = key_of cwd p \<and>
          (\<exists>cs. calls s = cs @ [InitLogger p True] \<and> list_all (\<lambda>c. \<exists>q. c = InitLogger q False) cs)
      | SessionFinalized p \<Rightarrow>
          (\<exists>cs. calls s = cs @ [InitLogger p True, FinalizeLogger]
             \<and> list_all (\<lambda>c. \<exists>q. c = InitLogger q False) cs))"

lemma session_inv_start: "session_inv cwd session_start"
  by (simp add: session_inv_def session_start_def)

lemma session_begin_inv:
  "session_inv cwd s \<Longrightarrow> session_inv cwd (snd (session_begin cwd init_ok s path))"
  by (auto simp: session_begin_def decide_def session_inv_def Let_def
      split: session_state.splits bool.splits)

lemma session_end_inv: "session_inv cwd s \<Longrightarrow> session_inv cwd (snd (session_end ok s))"
  by (auto simp: session_end_def session_inv_def Let_def split: session_state.splits)

lemma session_run_inv: "session_inv cwd (session_run cwd ops)"
proof (induction ops rule: rev_induct)
  case Nil
  show ?case using session_inv_start by (simp add: session_run_def)
next
  case (snoc x ops)
  then show ?case
    by (cases x) (simp_all add: session_run_def session_begin_inv session_end_inv)
qed

lemma failed_only_opened:
  "list_all (\<lambda>c. \<exists>q. c = InitLogger q False) cs \<Longrightarrow> filter opened cs = [] \<and> FinalizeLogger \<notin> set cs"
  by (induction cs) (auto simp: opened_def)

lemma session_inv_calls:
  assumes "session_inv cwd s"
  shows "length (filter opened (calls s)) \<le> 1"
    and "count_list (calls s) FinalizeLogger \<le> length (filter opened (calls s))"
proof -
  have "length (filter opened (calls s)) \<le> 1 \<and>
      count_list (calls s) FinalizeLogger \<le> length (filter opened (calls s))"
    using assms
    by (auto simp: session_inv_def opened_def count_list_0_iff
        dest!: failed_only_opened split: session_state.splits)
  then show "length (filter opened (calls s)) \<le> 1"
    and "count_list (calls s) FinalizeLogger \<le> length (filter opened (calls s))" by auto
qed

lemma session_begin_ok:
  assumes "fst (session_begin cwd init_ok s path) = Inr ()" and "session_inv cwd s"
  shows "\<exists>p. sess (snd (session_begin cwd init_ok s path)) = SessionActive p (key_of cwd path)"
  using assms
  by (auto simp: session_begin_def decide_def Let_def
      split: session_state.splits bool.splits if_splits)

lemma session_check_agrees:
  "session_check cwd s path = Inl e \<longleftrightarrow>
     fst (session_begin cwd (\<lambda>_. True) s path) = Inl e"
  by (auto simp: session_check_def session_begin_def Let_def split: sum.splits bool.splits)

lemma key_of_dot: "p \<noteq> [] \<Longrightarrow> \<not> starts_with p ''/'' \<Longrightarrow> key_of cwd (''./'' @ p) = key_of cwd p"
  by (simp add: key_of_def starts_with_def normal_components_def split_on_append_sep)

subsection \<open>Properties\<close>

text \<open>
  Whatever sequence of \<open>begin\<close> and \<open>end\<close> a process makes, with s3dlio calls that succeed or
  fail, s3dlio's logger is opened successfully at most once, and finalised at most once and only
  after it was opened.
\<close>

lemma session_opens_logger_at_most_once:
  "length (filter opened (calls (session_run cwd ops))) \<le> 1
   \<and> count_list (calls (session_run cwd ops)) FinalizeLogger
       \<le> length (filter opened (calls (session_run cwd ops)))"
  using session_inv_calls [OF session_run_inv] by blast

text \<open>
  \<open>check\<close> rejects exactly the paths that \<open>begin\<close> would reject at that moment, with the same
  error, when s3dlio's initialisation does not fail.
\<close>

lemma session_check_predicts_begin:
  "session_check cwd s path = Inl e \<longleftrightarrow> fst (session_begin cwd (\<lambda>_. True) s path) = Inl e"
  by (rule session_check_agrees)

end
