(* ===== verification/Agent.thy ===== *)
theory Agent
  imports Config Oplog_Session
begin

text \<open>
  The agent (\<open>src/bin/agent.rs\<close>): its workload state machine, the control reader's handler of
  every command, the abort RPC with its two delayed checks, the status query, the stats writer's
  life and the YAML-driven stage workflow with its barriers. Parsing and validating a
  configuration, running a stage, and the s3dlio logger are arguments; the messages the agent
  sends are recorded as their status code and text, the final results it hands to the stats
  writer as \<open>job_results\<close>.
\<close>

subsection \<open>The state machine\<close>

datatype WorkloadState =
    Idle
  | AtStage nat string bool
  | JobCompleted
  | JobFailed
  | JobAborting

fun agent_can_transition :: "WorkloadState \<Rightarrow> WorkloadState \<Rightarrow> bool" where
  "agent_can_transition (AtStage i n r) (AtStage j m r') =
     (if \<not> r \<and> r' \<and> i = j then True
      else if r \<and> \<not> r' \<and> j = i + 1 then True
      else if i = 0 \<and> r \<and> j = 0 \<and> \<not> r' \<and> n = ''validated'' then True
      else i = 0 \<and> \<not> r \<and> j = 1 \<and> \<not> r' \<and> n = ''preflight'')"
| "agent_can_transition Idle (AtStage i n r) = (i = 0)"
| "agent_can_transition (AtStage i n r) JobCompleted = r"
| "agent_can_transition (AtStage i n r) Idle = r"
| "agent_can_transition (AtStage i n r) JobFailed = True"
| "agent_can_transition s JobAborting = True"
| "agent_can_transition JobCompleted Idle = True"
| "agent_can_transition JobFailed Idle = True"
| "agent_can_transition JobAborting Idle = True"
| "agent_can_transition Idle Idle = True"
| "agent_can_transition JobFailed JobFailed = True"
| "agent_can_transition s t = False"

definition agent_step :: "WorkloadState \<Rightarrow> WorkloadState \<Rightarrow> (WorkloadState \<times> WorkloadState) + WorkloadState" where
  "agent_step s t =
     (if s = t then Inr s else if agent_can_transition s t then Inr t else Inl (s, t))"

interpretation agt: guarded_machine agent_can_transition agent_step
  by unfold_locales (auto simp: agent_step_def split: if_splits)

record agent =
  a_state :: WorkloadState
  a_error :: "string option"
  agent_op_log_path :: "string option"
  a_id :: "string option"
  a_config_yaml :: "string option"
  has_tracker :: bool
  a_op_log_path :: "string option"
  a_index :: "nat option"
  a_num_agents :: "nat option"
  completion_sent :: bool
  a_shared_storage :: "bool option"
  a_stages :: "StageConfig list option"
  oplog :: session
  abort_signals :: nat
  barrier_releases :: "(nat \<times> nat) list"
  outbox :: "(nat \<times> string) list"
  job_results :: "(string + unit) list"
  barrier_reports :: "(nat \<times> bool) list"
  running_config :: "Config option"

definition agent_new :: "string option \<Rightarrow> agent" where
  "agent_new op_log =
     \<lparr> a_state = Idle, a_error = None, agent_op_log_path = op_log, a_id = None, a_config_yaml = None,
       has_tracker = False, a_op_log_path = None, a_index = None, a_num_agents = None,
       completion_sent = False, a_shared_storage = None, a_stages = None, oplog = session_start,
       abort_signals = 0, barrier_releases = [], outbox = [], job_results = [], barrier_reports = [], running_config = None \<rparr>"

definition transition_to :: "WorkloadState \<Rightarrow> agent \<Rightarrow> (WorkloadState \<times> WorkloadState) + agent" where
  "transition_to t a = (case agent_step (a_state a) t of Inl e \<Rightarrow> Inl e | Inr s \<Rightarrow> Inr (a\<lparr>a_state := s\<rparr>))"

definition try_transition :: "WorkloadState \<Rightarrow> agent \<Rightarrow> agent" where
  "try_transition t a = (case transition_to t a of Inl _ \<Rightarrow> a | Inr a' \<Rightarrow> a')"

definition set_state :: "WorkloadState \<Rightarrow> agent \<Rightarrow> agent" where
  "set_state t a = a\<lparr>a_state := t\<rparr>"

definition set_error :: "string \<Rightarrow> agent \<Rightarrow> agent" where "set_error e a = a\<lparr>a_error := Some e\<rparr>"

definition send_abort :: "agent \<Rightarrow> agent" where "send_abort a = a\<lparr>abort_signals := abort_signals a + 1\<rparr>"

definition send_stats :: "nat \<Rightarrow> string \<Rightarrow> agent \<Rightarrow> agent" where
  "send_stats status msg a = a\<lparr>outbox := outbox a @ [(status, msg)]\<rparr>"

definition send_result :: "string + unit \<Rightarrow> agent \<Rightarrow> agent" where
  "send_result r a = a\<lparr>job_results := job_results a @ [r]\<rparr>"

definition notify_barrier_release :: "nat \<Rightarrow> nat \<Rightarrow> agent \<Rightarrow> agent" where
  "notify_barrier_release index sq a = a\<lparr>barrier_releases := barrier_releases a @ [(index, sq)]\<rparr>"

subsection \<open>Op-log file names\<close>

definition op_log_base_name :: "string \<Rightarrow> string" where
  "op_log_base_name f =
     (if ends_with f ''.tsv.zst'' then take (length f - 8) f
      else if ends_with f ''.tsv'' then take (length f - 4) f else f)"

text \<open>
  A path that ends in a file name is the text before that name and the name; \<open>parent.join\<close> puts
  the new name behind that text.
\<close>

definition split_path :: "string \<Rightarrow> string \<times> string" where
  "split_path p =
     (let f = rev (takeWhile (\<lambda>c. c \<noteq> CHR ''/'') (rev p)) in (take (length p - length f) p, f))"

definition staged_op_log_path :: "string \<Rightarrow> string \<Rightarrow> string" where
  "staged_op_log_path base i =
     (let (parent, f) = split_path base
      in parent @ op_log_base_name f @ ''_'' @ i @ ''.tsv.zst'')"

definition unary_op_log_path :: "string \<Rightarrow> string \<Rightarrow> string" where
  "unary_op_log_path base i =
     (let (parent, f) = split_path base;
          ext = (if ends_with f ''.tsv.zst'' then ''.tsv.zst'' else if ends_with f ''.tsv'' then ''.tsv'' else [])
      in parent @ op_log_base_name f @ ''-'' @ i @ ext)"

subsection \<open>Commands of the control stream\<close>

record ControlMessage =
  cm_config_yaml :: string
  cm_agent_id :: string
  cm_path_prefix :: string
  cm_shared_storage :: bool
  cm_agent_index :: nat
  cm_num_agents :: nat
  cm_barrier_sequence :: nat
  cm_target_stage_index :: nat
  cm_target_stage_name :: string
  cm_ready_for_next :: bool

text \<open>How a handler leaves the reader: keep reading, break to the disconnect handling, return.\<close>

datatype reader = KeepReading | BreakLoop | ReturnNow

definition reported_id :: "agent \<Rightarrow> string" where
  "reported_id a = (case a_id a of Some i \<Rightarrow> i | None \<Rightarrow> ''unknown'')"

definition handle_ping :: "agent \<Rightarrow> agent \<times> reader" where
  "handle_ping a = (send_stats 6 [] a, KeepReading)"

definition refuse_start :: "string \<Rightarrow> agent \<Rightarrow> agent \<times> reader" where
  "refuse_start reason a =
     (send_result (Inl reason) (try_transition JobFailed (set_error reason a)), ReturnNow)"

definition enter_preflight :: "Config \<Rightarrow> string option \<Rightarrow> StageConfig list option \<Rightarrow> agent \<Rightarrow> agent \<times> reader" where
  "enter_preflight cfg op_log stage_list a =
     (case transition_to (AtStage 0 ''preflight'' False) (a\<lparr>a_stages := stage_list\<rparr>) of
        Inl _ \<Rightarrow> (send_result (Inl ''State transition failed'') (a\<lparr>a_stages := stage_list\<rparr>), ReturnNow)
      | Inr a' \<Rightarrow>
          (a'\<lparr>has_tracker := True, a_op_log_path := op_log, running_config := Some cfg\<rparr>, KeepReading))"

definition begin_oplog ::
  "string \<Rightarrow> (string \<Rightarrow> bool) \<Rightarrow> string option \<Rightarrow> agent \<Rightarrow> (session_error + unit) \<times> agent" where
  "begin_oplog cwd init_ok op_log a =
     (case op_log of
        None \<Rightarrow> (Inr (), a)
      | Some base \<Rightarrow>
          (let (r, s) = session_begin cwd init_ok (oplog a) (staged_op_log_path base (reported_id a))
           in (r, a\<lparr>oplog := s\<rparr>)))"

text \<open>
  START: \<open>parse\<close> reads the YAML, \<open>validate\<close> is the error of \<open>validate_workload_config\<close> if any.
\<close>

definition start_fields :: "ControlMessage \<Rightarrow> agent \<Rightarrow> agent" where
  "start_fields m a =
     a\<lparr>a_id := Some (cm_agent_id m), completion_sent := False,
       a_index := Some (cm_agent_index m), a_num_agents := Some (cm_num_agents m),
       a_shared_storage := Some (cm_shared_storage m), a_config_yaml := Some (cm_config_yaml m)\<rparr>"

definition start_stages :: "Config \<Rightarrow> string + StageConfig list option" where
  "start_stages cfg =
     (case distributed cfg of
        None \<Rightarrow> Inr None
      | Some d \<Rightarrow>
          (case get_sorted_stages d of
             Inl _ \<Rightarrow> Inl ''Stage parsing failed''
           | Inr sts \<Rightarrow> Inr (if sts = [] then None else Some sts)))"

definition start_config ::
  "(Config \<Rightarrow> string option) \<Rightarrow> string \<Rightarrow> (string \<Rightarrow> bool) \<Rightarrow> Config \<Rightarrow> agent \<Rightarrow> agent \<times> reader" where
  "start_config validate cwd init_ok cfg a =
     (case validate cfg of
        Some e \<Rightarrow> refuse_start e a
      | None \<Rightarrow>
          (case start_stages cfg of
             Inl e \<Rightarrow> refuse_start e a
           | Inr stage_list \<Rightarrow>
               (let op_log = (case op_log_path cfg of Some p \<Rightarrow> Some p | None \<Rightarrow> agent_op_log_path a);
                    (r, a') = begin_oplog cwd init_ok op_log a
                in case r of
                     Inl _ \<Rightarrow> (send_stats 3 ''Op-log rejected'' (set_error ''Op-log rejected'' a'), ReturnNow)
                   | Inr _ \<Rightarrow> enter_preflight cfg op_log stage_list a')))"

definition handle_start ::
  "(string \<Rightarrow> Config option) \<Rightarrow> (Config \<Rightarrow> string option) \<Rightarrow> string \<Rightarrow> (string \<Rightarrow> bool)
    \<Rightarrow> ControlMessage \<Rightarrow> agent \<Rightarrow> agent \<times> reader" where
  "handle_start parse validate cwd init_ok m a =
     (if a_state a \<noteq> Idle then (send_result (Inl ''Agent in unexpected state'') a, ReturnNow)
      else case parse (cm_config_yaml m) of
        None \<Rightarrow> refuse_start ''Invalid YAML'' (start_fields m a)
      | Some cfg \<Rightarrow>
          start_config validate cwd init_ok
            (apply_agent_prefix cfg (cm_path_prefix m) (cm_shared_storage m)) (start_fields m a))"

definition handle_abort :: "agent \<Rightarrow> agent \<times> reader" where
  "handle_abort a =
     (try_transition Idle
        (send_stats 5 ''Aborted by controller'' (try_transition JobAborting (send_abort a))), KeepReading)"

definition handle_release :: "ControlMessage \<Rightarrow> agent \<Rightarrow> agent \<times> reader" where
  "handle_release m a =
     (notify_barrier_release (cm_barrier_sequence m) (cm_barrier_sequence m) a, KeepReading)"

definition handle_goodbye :: "agent \<Rightarrow> agent \<times> reader" where
  "handle_goodbye a = (try_transition Idle a, BreakLoop)"

definition handle_reset :: "agent \<Rightarrow> agent \<times> reader" where
  "handle_reset a =
     (send_stats 1 ''Reset complete - back to Idle''
        ((send_abort a)\<lparr>a_error := None, a_state := Idle, completion_sent := False, a_config_yaml := None,
           has_tracker := False, a_index := None, a_num_agents := None, a_shared_storage := None,
           a_stages := None\<rparr>), KeepReading)"

definition handle_sync :: "ControlMessage \<Rightarrow> agent \<Rightarrow> agent \<times> reader" where
  "handle_sync m a =
     (send_stats (if cm_ready_for_next m then 2 else 1) ''Synced''
        (set_state (AtStage (cm_target_stage_index m) (cm_target_stage_name m) (cm_ready_for_next m)) a),
      KeepReading)"

text \<open>PREFLIGHT validates without touching the state; \<open>report\<close> is the JSON of the results.\<close>

definition handle_preflight :: "(string \<Rightarrow> string) \<Rightarrow> ControlMessage \<Rightarrow> agent \<Rightarrow> agent \<times> reader" where
  "handle_preflight report m a = (send_stats 7 (report (cm_config_yaml m)) a, KeepReading)"

definition handle_stream_error :: "agent \<Rightarrow> agent \<times> reader" where
  "handle_stream_error a =
     (if a_state a = Idle then (a, BreakLoop) else (send_stats 3 ''Connection error'' a, BreakLoop))"

definition AGENT_READY_TIMEOUT_SECS :: nat where "AGENT_READY_TIMEOUT_SECS = 60"

definition handle_timer :: "duration \<Rightarrow> agent \<Rightarrow> agent \<times> reader" where
  "handle_timer elapsed a =
     (let exceeded = (case a_state a of
          AtStage _ n True \<Rightarrow> n = ''validated'' \<and> AGENT_READY_TIMEOUT_SECS < as_secs elapsed
        | _ \<Rightarrow> False)
      in if exceeded
         then (try_transition Idle (try_transition JobFailed
                 (set_error ''READY state timeout'' (send_stats 3 ''Timeout in READY state'' a))), BreakLoop)
         else (a, KeepReading))"

text \<open>After the loop: what a disconnected controller leaves behind.\<close>

definition handle_disconnect :: "agent \<Rightarrow> agent" where
  "handle_disconnect a =
     (case a_state a of
        Idle \<Rightarrow> a
      | JobAborting \<Rightarrow> try_transition Idle (try_transition JobFailed a)
      | JobFailed \<Rightarrow> a
      | JobCompleted \<Rightarrow> a
      | AtStage _ _ True \<Rightarrow> try_transition Idle a
      | AtStage _ _ False \<Rightarrow> try_transition Idle (try_transition JobFailed (send_abort a)))"

subsection \<open>The abort RPC\<close>

text \<open>
  The RPC answers at once; where it started an abort it also starts a task that looks at the
  state after 5 s and again after 15 s. The task of a running stage also resets a stage at 15 s.
\<close>

datatype abort_task = NoTask | StageTask | OtherTask

definition abort_workload :: "agent \<Rightarrow> agent \<times> abort_task" where
  "abort_workload a =
     (case a_state a of
        AtStage _ _ _ \<Rightarrow>
          (case transition_to JobAborting a of Inl _ \<Rightarrow> (a, NoTask) | Inr a' \<Rightarrow> (send_abort a', StageTask))
      | JobAborting \<Rightarrow> (a, NoTask)
      | Idle \<Rightarrow> (a, NoTask)
      | JobFailed \<Rightarrow> (a, NoTask)
      | JobCompleted \<Rightarrow>
          (case transition_to JobAborting a of Inl _ \<Rightarrow> (a, NoTask) | Inr a' \<Rightarrow> (send_abort a', OtherTask)))"

definition abort_check_5s :: "agent \<Rightarrow> agent" where
  "abort_check_5s a = (if a_state a = JobAborting then try_transition Idle a else a)"

definition abort_check_15s :: "abort_task \<Rightarrow> agent \<Rightarrow> agent" where
  "abort_check_15s t a =
     (if a_state a = JobAborting then set_state Idle a
      else case (t, a_state a) of
        (StageTask, AtStage _ _ _) \<Rightarrow> set_state Idle a
      | _ \<Rightarrow> a)"

subsection \<open>The status query\<close>

definition query_phase :: "agent \<Rightarrow> nat \<times> string" where
  "query_phase a =
     (case a_state a of
        Idle \<Rightarrow> (0, ''Agent is idle and ready to accept workload'')
      | AtStage _ n True \<Rightarrow> (2, ''Stage '' @ n @ '' complete, waiting at barrier'')
      | AtStage _ n False \<Rightarrow> (5, ''Executing stage '' @ n)
      | JobCompleted \<Rightarrow> (8, ''All phases completed successfully'')
      | JobFailed \<Rightarrow> (9, case a_error a of Some e \<Rightarrow> e | None \<Rightarrow> ''Agent in failed state'')
      | JobAborting \<Rightarrow> (10, ''Aborting workload''))"

definition query_at_barrier :: "agent \<Rightarrow> bool" where
  "query_at_barrier a = (case a_state a of AtStage _ _ r \<Rightarrow> r | _ \<Rightarrow> False)"

subsection \<open>The stage workflow\<close>

text \<open>
  \<open>execute_stages_workflow\<close> as the machine of its await points: \<open>WF_Start i\<close> before stage \<open>i\<close> of
  the list, \<open>WF_Run i\<close> while it executes, \<open>WF_Barrier i k q\<close> while attempt \<open>k\<close> waits for the
  release with sequence at least \<open>q\<close>, \<open>WF_Done\<close> with the result sent. An attempt reports
  \<open>(i, k = 0)\<close>: the barrier's index and whether the stage summary is attached.
\<close>

datatype workflow =
    WF_Start nat
  | WF_Run nat
  | WF_Barrier nat nat nat
  | WF_Done "string + unit"

datatype workflow_event =
    NextStage bool
  | StageEnds "string + unit"
  | ReleaseSeen "nat \<times> nat"
  | ReceiverLagged
  | BarrierTimeout
  | ChannelClosed

definition max_barrier_retries :: nat where "max_barrier_retries = 5"

definition report_barrier :: "nat \<Rightarrow> nat \<Rightarrow> agent \<Rightarrow> agent" where
  "report_barrier i retry a = a\<lparr>barrier_reports := barrier_reports a @ [(i, retry = 0)]\<rparr>"

definition workflow_ends :: "string + unit \<Rightarrow> agent \<Rightarrow> workflow \<times> agent" where
  "workflow_ends r a = (WF_Done r, send_result r a)"

definition start_stage :: "StageConfig list \<Rightarrow> bool \<Rightarrow> nat \<Rightarrow> agent \<Rightarrow> workflow \<times> agent" where
  "start_stage sts abort_seen i a =
     (if length sts \<le> i then workflow_ends (Inr ()) (try_transition JobCompleted a)
      else if abort_seen then workflow_ends (Inl ''Workload aborted by user'') a
      else case transition_to (AtStage (i + 1) (StageConfig.name (sts ! i)) False) a of
        Inl _ \<Rightarrow> workflow_ends (Inl ''State transition failed'') a
      | Inr a' \<Rightarrow> (WF_Run i, a'))"

definition finish_stage :: "StageConfig list \<Rightarrow> string + unit \<Rightarrow> nat \<Rightarrow> agent \<Rightarrow> workflow \<times> agent" where
  "finish_stage sts r i a =
     (case r of
        Inl e \<Rightarrow> workflow_ends (Inl e) a
      | Inr _ \<Rightarrow>
          (case transition_to (AtStage (i + 1) (StageConfig.name (sts ! i)) True) a of
             Inl _ \<Rightarrow> workflow_ends (Inl ''State transition failed'') a
           | Inr a' \<Rightarrow> (WF_Barrier i 0 0, report_barrier i 0 a')))"

definition accepts_release :: "nat \<Rightarrow> nat \<Rightarrow> nat \<times> nat \<Rightarrow> bool" where
  "accepts_release i q m = (fst m = i \<and> q \<le> snd m)"

fun workflow_step ::
  "StageConfig list \<Rightarrow> workflow_event \<Rightarrow> workflow \<times> agent \<Rightarrow> workflow \<times> agent" where
  "workflow_step sts (NextStage ab) (WF_Start i, a) = start_stage sts ab i a"
| "workflow_step sts (StageEnds r) (WF_Run i, a) = finish_stage sts r i a"
| "workflow_step sts (ReleaseSeen m) (WF_Barrier i k q, a) =
     (if accepts_release i q m then (WF_Start (i + 1), a) else (WF_Barrier i k q, a))"
| "workflow_step sts BarrierTimeout (WF_Barrier i k q, a) =
     (if k < max_barrier_retries then (WF_Barrier i (k + 1) (q + 1), report_barrier i (k + 1) a)
      else workflow_ends (Inl ''Barrier coordination failed'') a)"
| "workflow_step sts ChannelClosed (WF_Barrier i k q, a) =
     workflow_ends (Inl ''Barrier coordination failed'') a"
| "workflow_step sts e (w, a) = (w, a)"

text \<open>The task START spawns: without stages it panics (\<open>expect\<close>), which is \<open>None\<close> here.\<close>

definition spawn_workflow :: "agent \<Rightarrow> (StageConfig list \<times> workflow) option" where
  "spawn_workflow a = map_option (\<lambda>sts. (sts, WF_Start 0)) (a_stages a)"

definition workflow_run ::
  "StageConfig list \<Rightarrow> workflow_event list \<Rightarrow> workflow \<times> agent \<Rightarrow> workflow \<times> agent" where
  "workflow_run sts es p = fold (workflow_step sts) es p"

subsection \<open>The stats writer\<close>

datatype writer = WaitValidated | WaitRunning nat | Reporting | WriterExited

definition MAX_WAIT_SECS :: nat where "MAX_WAIT_SECS = 60"

text \<open>One wake-up of the task; \<open>ok\<close> tells whether the controller's stream still takes messages.\<close>

fun writer_tick :: "bool \<Rightarrow> writer \<times> agent \<Rightarrow> writer \<times> agent" where
  "writer_tick ok (WaitValidated, a) =
     (case a_state a of
        AtStage _ _ True \<Rightarrow> if ok then (WaitRunning 0, send_stats 1 [] a) else (WriterExited, a)
      | JobFailed \<Rightarrow> (WriterExited, a)
      | Idle \<Rightarrow> (WriterExited, a)
      | _ \<Rightarrow> (WaitValidated, a))"
| "writer_tick ok (WaitRunning w, a) =
     (if \<not> ok then (WriterExited, a)
      else (let a' = send_stats 1 [] a in
        case a_state a of
          AtStage _ _ False \<Rightarrow> (if has_tracker a then Reporting else WriterExited, a')
        | JobFailed \<Rightarrow> (WriterExited, a')
        | Idle \<Rightarrow> (WriterExited, a')
        | JobAborting \<Rightarrow> (WriterExited, a')
        | _ \<Rightarrow> (if MAX_WAIT_SECS \<le> w + 1 then WriterExited else WaitRunning (w + 1), a')))"
| "writer_tick ok (Reporting, a) = (if ok then (Reporting, send_stats 2 [] a) else (WriterExited, a))"
| "writer_tick ok (WriterExited, a) = (WriterExited, a)"

text \<open>The first result of the workload task, taken from the channel.\<close>

fun writer_result :: "writer \<times> agent \<Rightarrow> writer \<times> agent" where
  "writer_result (Reporting, a) =
     (case job_results a of
        [] \<Rightarrow> (Reporting, a)
      | Inr _ # rs \<Rightarrow>
          (WriterExited, try_transition Idle
             (send_stats 4 [] (a\<lparr>job_results := rs, completion_sent := True\<rparr>)))
      | Inl e # rs \<Rightarrow>
          (WriterExited, try_transition Idle (try_transition JobFailed
             (set_error e (send_stats 3 e (a\<lparr>job_results := rs\<rparr>))))))"
| "writer_result (w, a) = (w, a)"

subsection \<open>One job: the workflow and the writer interleaved\<close>

datatype job_event = Work workflow_event | Tick bool | Recv

fun job_step ::
  "StageConfig list \<Rightarrow> job_event \<Rightarrow> workflow \<times> writer \<times> agent \<Rightarrow> workflow \<times> writer \<times> agent" where
  "job_step sts (Work e) (w, v, a) = (let (w', a') = workflow_step sts e (w, a) in (w', v, a'))"
| "job_step sts (Tick ok) (w, v, a) = (w, writer_tick ok (v, a))"
| "job_step sts Recv (w, v, a) = (w, writer_result (v, a))"

definition job_run ::
  "StageConfig list \<Rightarrow> job_event list \<Rightarrow> workflow \<times> writer \<times> agent \<Rightarrow> workflow \<times> writer \<times> agent" where
  "job_run sts es j = fold (job_step sts) es j"

definition job_agent :: "workflow \<times> writer \<times> agent \<Rightarrow> agent" where "job_agent j = snd (snd j)"

fun released :: "job_event list \<Rightarrow> nat list" where
  "released [] = []"
| "released (Work (ReleaseSeen m) # es) = fst m # released es"
| "released (e # es) = released es"

lemmas agent_setters = send_stats_def send_result_def set_error_def set_state_def send_abort_def
  report_barrier_def notify_barrier_release_def

lemma transition_to_eq:
  "transition_to t a =
     (if a_state a = t \<or> agent_can_transition (a_state a) t then Inr (a\<lparr>a_state := t\<rparr>) else Inl (a_state a, t))"
  by (auto simp: transition_to_def agent_step_def)

lemma try_transition_eq:
  "try_transition t a =
     (if a_state a = t \<or> agent_can_transition (a_state a) t then a\<lparr>a_state := t\<rparr> else a)"
  by (simp add: try_transition_def transition_to_eq)

lemma released_append: "released (es @ fs) = released es @ released fs"
  by (induction es rule: released.induct) auto

lemma job_run_simps [simp]:
  "job_run sts [] j = j" "job_run sts (es @ fs) j = job_run sts fs (job_run sts es j)"
  "job_run sts (e # es) j = job_run sts es (job_step sts e j)"
  by (simp_all add: job_run_def)

subsection \<open>What a COMPLETED message means\<close>

fun reached :: "StageConfig list \<Rightarrow> workflow \<Rightarrow> nat" where
  "reached sts (WF_Start i) = i"
| "reached sts (WF_Run i) = i"
| "reached sts (WF_Barrier i k q) = i"
| "reached sts (WF_Done (Inr r)) = length sts"
| "reached sts (WF_Done (Inl e)) = 0"

text \<open>
  \<open>job_inv\<close>: the barriers passed so far were released in order, and a success result or a
  COMPLETED message exists only when the workflow has ended with success.
\<close>

definition job_inv :: "StageConfig list \<Rightarrow> nat list \<Rightarrow> workflow \<times> writer \<times> agent \<Rightarrow> bool" where
  "job_inv sts rel j =
     (case j of (w, v, a) \<Rightarrow>
        reached sts w \<le> length sts \<and> subseq [0..<reached sts w] rel
        \<and> (w \<noteq> WF_Done (Inr ()) \<longrightarrow> Inr () \<notin> set (job_results a) \<and> 4 \<notin> fst ` set (outbox a))
        \<and> (case w of WF_Run i \<Rightarrow> i < length sts | WF_Barrier i k q \<Rightarrow> i < length sts | _ \<Rightarrow> True))"

lemma subseq_snocI: "subseq xs ys \<Longrightarrow> subseq (xs @ [y]) (ys @ [y])"
  by (intro list_emb_append_mono) auto

lemma subseq_weaken: "subseq xs ys \<Longrightarrow> subseq xs (ys @ zs)"
  by (rule subseq_order.order_trans [where y = ys]) (auto simp: subseq_rev_drop_many)

lemma writer_tick_frame:
  "writer_tick ok (v, a) = (v', a') \<Longrightarrow> job_results a' = job_results a \<and> (4 \<in> fst ` set (outbox a') \<longleftrightarrow> 4 \<in> fst ` set (outbox a))
    \<and> a_state a' = a_state a"
  by (cases v; cases "a_state a") (auto simp: agent_setters Let_def split: if_splits bool.splits)

lemma writer_result_frame:
  "writer_result (v, a) = (v', a') \<Longrightarrow>
     set (job_results a') \<subseteq> set (job_results a) \<and> (4 \<in> fst ` set (outbox a') \<longrightarrow> 4 \<in> fst ` set (outbox a) \<or> Inr () \<in> set (job_results a))"
  by (cases v; cases "job_results a")
    (auto simp: agent_setters try_transition_eq split: if_splits sum.splits)

lemma start_stage_cases:
  "start_stage sts ab i a = (w, a') \<Longrightarrow>
     (\<exists>e. w = WF_Done (Inl e) \<and> job_results a' = job_results a @ [Inl e] \<and> outbox a' = outbox a)
     \<or> (w = WF_Done (Inr ()) \<and> length sts \<le> i)
     \<or> (w = WF_Run i \<and> i < length sts \<and> job_results a' = job_results a \<and> outbox a' = outbox a)"
  by (auto simp: start_stage_def workflow_ends_def agent_setters try_transition_eq transition_to_eq
      split: if_splits)

lemma finish_stage_cases:
  "finish_stage sts r i a = (w, a') \<Longrightarrow>
     (\<exists>e. w = WF_Done (Inl e) \<and> job_results a' = job_results a @ [Inl e] \<and> outbox a' = outbox a)
     \<or> (w = WF_Barrier i 0 0 \<and> job_results a' = job_results a \<and> outbox a' = outbox a)"
  by (auto simp: finish_stage_def workflow_ends_def agent_setters transition_to_eq
      split: if_splits sum.splits)

lemma job_inv_work:
  assumes inv: "job_inv sts rel (w, v, a)" and st: "workflow_step sts e (w, a) = (w', a')"
  shows "job_inv sts (rel @ released [Work e]) (w', v, a')"
proof (cases w)
  case (WF_Start i)
  with inv st show ?thesis
    by (cases e) (auto simp: job_inv_def subseq_weaken split: workflow.splits sum.splits
        dest!: start_stage_cases)
next
  case (WF_Run i)
  with inv st show ?thesis
    by (cases e) (auto simp: job_inv_def subseq_weaken dest!: finish_stage_cases)
next
  case (WF_Barrier i k q)
  have "subseq [0..<Suc i] (rel @ [i])" using inv WF_Barrier by (simp add: job_inv_def subseq_snocI)
  with inv st WF_Barrier show ?thesis
    by (cases e) (auto simp: job_inv_def subseq_weaken accepts_release_def workflow_ends_def
        agent_setters split: if_splits)
next
  case (WF_Done r)
  with inv st show ?thesis
    by (cases e; cases r) (auto simp: job_inv_def subseq_weaken)
qed

lemma job_inv_step:
  assumes inv: "job_inv sts rel j"
  shows "job_inv sts (rel @ released [e]) (job_step sts e j)"
proof -
  obtain w v a where j: "j = (w, v, a)" by (cases j)
  show ?thesis
  proof (cases e)
    case (Work x)
    obtain w' a' where st: "workflow_step sts x (w, a) = (w', a')" by (cases "workflow_step sts x (w, a)")
    show ?thesis using job_inv_work [OF inv [unfolded j] st] st j Work by simp
  next
    case (Tick ok)
    obtain v' a' where t: "writer_tick ok (v, a) = (v', a')" by (cases "writer_tick ok (v, a)")
    show ?thesis using inv writer_tick_frame [OF t] j t Tick by (simp add: job_inv_def)
  next
    case Recv
    obtain v' a' where t: "writer_result (v, a) = (v', a')" by (cases "writer_result (v, a)")
    show ?thesis using inv writer_result_frame [OF t] j t Recv by (auto simp: job_inv_def)
  qed
qed

lemma job_inv_run: "job_inv sts rel j \<Longrightarrow> job_inv sts (rel @ released es) (job_run sts es j)"
proof (induction es arbitrary: rel j)
  case (Cons e es)
  have "job_inv sts ((rel @ released [e]) @ released es) (job_run sts es (job_step sts e j))"
    using Cons.IH job_inv_step Cons.prems by blast
  moreover have "released (e # es) = released [e] @ released es"
    using released_append [of "[e]" es] by simp
  ultimately show ?case by simp
qed simp

text \<open>
  C3: For every interleaving of a job's stages, barrier messages, timeouts and stats-writer
  wake-ups, a COMPLETED message (status 4) is sent only after the controller's releases contained
  the indices of all stages of the workflow, in order: no stage is skipped, whatever fails, lags
  or times out.
\<close>

theorem completed_needs_all_releases:
  assumes "job_run sts es (WF_Start 0, v, a) = (w, v', a')"
    and "job_results a = []" and "outbox a = []" and "4 \<in> fst ` set (outbox a')"
  shows "w = WF_Done (Inr ()) \<and> subseq [0..<length sts] (released es)"
proof -
  have "job_inv sts [] (WF_Start 0, v, a)" using assms by (simp add: job_inv_def)
  then have "job_inv sts ([] @ released es) (w, v', a')" using job_inv_run assms(1) by metis
  with assms(4) show ?thesis by (auto simp: job_inv_def)
qed

definition sample_stage :: StageConfig where
  "sample_stage =
     \<lparr> name = ''s'', order = 1, completion = ValidationPassed, barrier = None, timeout_secs = None,
       optional = False, config = Validation \<rparr>"

definition preflight_agent :: agent where
  "preflight_agent = (agent_new None)\<lparr>a_state := AtStage 0 ''preflight'' False, has_tracker := True\<rparr>"

lemmas job_simps = preflight_agent_def agent_new_def sample_stage_def start_stage_def
  finish_stage_def workflow_ends_def agent_setters transition_to_eq try_transition_eq
  accepts_release_def max_barrier_retries_def

lemma completed_needs_all_releases_witness:
  "(let (w, v, a) = job_run [sample_stage]
      [Work (NextStage False), Work (StageEnds (Inr ())), Tick True, Work (ReleaseSeen (0, 0)),
       Work (NextStage False), Recv] (WF_Start 0, Reporting, preflight_agent)
    in 4 \<in> fst ` set (outbox a) \<and> w = WF_Done (Inr ()) \<and> subseq [0..<1] [0::nat])"
proof -
  let ?es = "[Work (NextStage False), Work (StageEnds (Inr ())), Tick True, Work (ReleaseSeen (0, 0)),
       Work (NextStage False), Recv]"
  obtain w v a where r: "job_run [sample_stage] ?es (WF_Start 0, Reporting, preflight_agent) = (w, v, a)"
    by (cases "job_run [sample_stage] ?es (WF_Start 0, Reporting, preflight_agent)")
  then have "4 \<in> fst ` set (outbox a)" by (auto simp: job_simps)
  with completed_needs_all_releases [OF r] have "w = WF_Done (Inr ()) \<and> subseq [0..<1] [0::nat]"
    by (simp add: preflight_agent_def agent_new_def)
  with r show ?thesis using \<open>4 \<in> fst ` set (outbox a)\<close> by (simp only: r) simp
qed

subsection \<open>A job whose barriers are released runs to completion\<close>

text \<open>Stage \<open>i\<close>'s events: begin, success, \<open>k\<close> timeouts at the barrier, the controller's release.\<close>

definition stage_events :: "nat \<Rightarrow> nat \<Rightarrow> workflow_event list" where
  "stage_events k i =
     [NextStage False, StageEnds (Inr ())] @ replicate k BarrierTimeout @ [ReleaseSeen (i, i)]"

fun reports_of :: "nat \<Rightarrow> nat \<Rightarrow> (nat \<times> bool) list" where
  "reports_of i 0 = [(i, True)]"
| "reports_of i (Suc k) = reports_of i k @ [(i, False)]"

definition job_at :: "nat \<Rightarrow> WorkloadState \<Rightarrow> bool" where
  "job_at i s =
     (case s of AtStage j n r \<Rightarrow> if i = 0 then j = 0 \<and> \<not> r \<and> n = ''preflight'' else j = i \<and> r | _ \<Rightarrow> False)"

lemma workflow_run_simps [simp]:
  "workflow_run sts [] p = p" "workflow_run sts (es @ fs) p = workflow_run sts fs (workflow_run sts es p)"
  "workflow_run sts (e # es) p = workflow_run sts es (workflow_step sts e p)"
  by (simp_all add: workflow_run_def)

lemma barrier_timeouts:
  "k + m \<le> 5 \<Longrightarrow> workflow_run sts (replicate m BarrierTimeout) (WF_Barrier i k k, a) =
     (WF_Barrier i (k + m) (k + m),
      a\<lparr>barrier_reports := barrier_reports a @ map (\<lambda>_. (i, False)) [0..<m]\<rparr>)"
proof (induction m arbitrary: k a)
  case (Suc m)
  have "[0..<Suc m] = 0 # map Suc [0..<m]" by (simp add: upt_conv_Cons map_Suc_upt)
  with Suc.prems Suc.IH [of "Suc k"] show ?case
    by (simp add: max_barrier_retries_def report_barrier_def comp_def)
qed simp

lemma reports_of_eq: "reports_of i k = (i, True) # map (\<lambda>_. (i, False)) [0..<k]"
  by (induction k) simp_all

lemma stage_reaches_barrier:
  assumes "i < length sts" and "job_at i (a_state a)"
  shows "workflow_run sts [NextStage False, StageEnds (Inr ())] (WF_Start i, a) =
    (WF_Barrier i 0 0,
     a\<lparr>a_state := AtStage (i + 1) (StageConfig.name (sts ! i)) True,
       barrier_reports := barrier_reports a @ [(i, True)]\<rparr>)"
proof -
  have "agent_can_transition (a_state a) (AtStage (i + 1) m False)" for m
    using assms(2) by (cases "a_state a") (auto simp: job_at_def split: if_splits)
  then have "start_stage sts False i a = (WF_Run i, a\<lparr>a_state := AtStage (i + 1) (StageConfig.name (sts ! i)) False\<rparr>)"
    using assms(1) by (simp add: start_stage_def transition_to_eq)
  then show ?thesis by (simp add: finish_stage_def transition_to_eq report_barrier_def)
qed

lemma stage_passes:
  assumes "i < length sts" and "job_at i (a_state a)" and "k \<le> 5"
  shows "workflow_run sts (stage_events k i) (WF_Start i, a) =
    (if k \<le> i then WF_Start (i + 1) else WF_Barrier i k k,
     a\<lparr>a_state := AtStage (i + 1) (StageConfig.name (sts ! i)) True,
       barrier_reports := barrier_reports a @ reports_of i k\<rparr>)"
  using stage_reaches_barrier [OF assms(1,2)] barrier_timeouts [of 0 k sts i] assms(3)
  by (simp add: stage_events_def accepts_release_def reports_of_eq)

definition all_events :: "(nat \<Rightarrow> nat) \<Rightarrow> nat \<Rightarrow> nat \<Rightarrow> workflow_event list" where
  "all_events late i n = concat (map (\<lambda>j. stage_events (late j) j) [i..<n])"

lemma all_events_Cons: "i < n \<Longrightarrow> all_events late i n = stage_events (late i) i @ all_events late (Suc i) n"
  by (simp add: all_events_def upt_conv_Cons)

lemma stages_pass:
  assumes "i < length sts" and "job_at i (a_state a)" and "\<And>j. late j \<le> j \<and> late j \<le> 5"
  shows "\<exists>m. workflow_run sts (all_events late i (length sts)) (WF_Start i, a) =
    (WF_Start (length sts),
     a\<lparr>a_state := AtStage (length sts) m True,
       barrier_reports := barrier_reports a @ concat (map (\<lambda>j. reports_of j (late j)) [i..<length sts])\<rparr>)"
  using assms(1,2)
proof (induction "length sts - Suc i" arbitrary: i a)
  case 0
  then have last: "length sts = Suc i" by simp
  have "workflow_run sts (stage_events (late i) i) (WF_Start i, a) =
      (WF_Start (i + 1), a\<lparr>a_state := AtStage (i + 1) (StageConfig.name (sts ! i)) True,
       barrier_reports := barrier_reports a @ reports_of i (late i)\<rparr>)"
    using stage_passes [OF 0(2,3)] assms(3) by simp
  then show ?case using last by (auto simp: all_events_def)
next
  case (Suc d)
  let ?a = "a\<lparr>a_state := AtStage (i + 1) (StageConfig.name (sts ! i)) True,
       barrier_reports := barrier_reports a @ reports_of i (late i)\<rparr>"
  have "workflow_run sts (stage_events (late i) i) (WF_Start i, a) = (WF_Start (i + 1), ?a)"
    using stage_passes [OF Suc(3,4)] assms(3) by simp
  moreover have lt: "Suc i < length sts" using Suc(2) by simp
  moreover have "job_at (Suc i) (a_state ?a)" by (simp add: job_at_def)
  moreover have "d = length sts - Suc (Suc i)" using Suc(2) by simp
  ultimately obtain m where "workflow_run sts (all_events late (Suc i) (length sts)) (WF_Start (i + 1), ?a) =
      (WF_Start (length sts), ?a\<lparr>a_state := AtStage (length sts) m True,
         barrier_reports := barrier_reports ?a @ concat (map (\<lambda>j. reports_of j (late j)) [Suc i..<length sts])\<rparr>)"
    using Suc(1) [of "Suc i" ?a] by (metis Suc_eq_plus1)
  then show ?case
    using \<open>workflow_run sts (stage_events (late i) i) (WF_Start i, a) = (WF_Start (i + 1), ?a)\<close> Suc(3)
    by (intro exI [of _ m]) (simp add: all_events_Cons upt_conv_Cons [of i])
qed

text \<open>
  C9: A workflow whose stages succeed and whose barrier \<open>j\<close> is released after \<open>late j\<close> timeouts
  (with \<open>late j \<le> j\<close>, at most five) runs to completion: the agent ends in Completed, hands a
  success to the stats writer, and has reported every barrier in order, with the stage summary
  exactly once per stage.
\<close>

theorem workflow_completes:
  assumes "sts \<noteq> []" and "a_state a = AtStage 0 ''preflight'' False" and "barrier_reports a = []"
    and "\<And>j. late j \<le> j \<and> late j \<le> 5"
  shows "\<exists>a'. workflow_run sts (all_events late 0 (length sts) @ [NextStage False]) (WF_Start 0, a)
           = (WF_Done (Inr ()), a')
    \<and> a_state a' = JobCompleted \<and> job_results a' = job_results a @ [Inr ()]
    \<and> filter snd (barrier_reports a') = map (\<lambda>j. (j, True)) [0..<length sts]"
proof -
  have "job_at 0 (a_state a)" using assms(2) by (simp add: job_at_def)
  then obtain m where r: "workflow_run sts (all_events late 0 (length sts)) (WF_Start 0, a) =
      (WF_Start (length sts), a\<lparr>a_state := AtStage (length sts) m True,
         barrier_reports := concat (map (\<lambda>j. reports_of j (late j)) [0..<length sts])\<rparr>)"
    using stages_pass [of 0 sts a late] assms by auto
  have "filter snd (concat (map (\<lambda>j. reports_of j (late j)) js)) = map (\<lambda>j. (j, True)) js" for js
    by (induction js) (auto simp: reports_of_eq)
  with r show ?thesis
    by (simp add: start_stage_def workflow_ends_def try_transition_eq send_result_def)
qed

lemma workflow_completes_witness:
  "\<exists>a'. workflow_run [sample_stage, sample_stage]
      (all_events (\<lambda>j. min j 1) 0 (length [sample_stage, sample_stage]) @ [NextStage False]) (WF_Start 0, preflight_agent)
        = (WF_Done (Inr ()), a')
    \<and> a_state a' = JobCompleted \<and> job_results a' = job_results preflight_agent @ [Inr ()]
    \<and> filter snd (barrier_reports a') = map (\<lambda>j. (j, True)) [0..<length [sample_stage, sample_stage]]"
  by (rule workflow_completes) (auto simp: preflight_agent_def agent_new_def)

text \<open>
  After \<open>k\<close> timeouts (at most five) the agent still accepts the controller's release of
  barrier \<open>i\<close>, whose sequence is its index, exactly when \<open>k \<le> i\<close>: the first barrier's release is
  lost after one timeout, and the retries up to the limit end the workload with an error.
\<close>

lemma late_release_accepted_iff:
  assumes "k \<le> 5"
  shows "(fst (workflow_run sts (replicate k BarrierTimeout @ [ReleaseSeen (i, i)]) (WF_Barrier i 0 0, a))
           = WF_Start (i + 1)) = (k \<le> i)
    \<and> (i < k \<longrightarrow>
        fst (workflow_run sts (replicate k BarrierTimeout @ [ReleaseSeen (i, i)]
               @ replicate (6 - k) BarrierTimeout) (WF_Barrier i 0 0, a))
          = WF_Done (Inl ''Barrier coordination failed''))"
proof -
  have t: "workflow_run sts (replicate k BarrierTimeout) (WF_Barrier i 0 0, a) =
      (WF_Barrier i k k, a\<lparr>barrier_reports := barrier_reports a @ map (\<lambda>_. (i, False)) [0..<k]\<rparr>)"
    using barrier_timeouts [of 0 k sts i a] assms by simp
  have "6 - k = Suc (5 - k)" using assms by simp
  then have "replicate (6 - k) BarrierTimeout = replicate (5 - k) BarrierTimeout @ [BarrierTimeout]"
    by (simp add: replicate_append_same)
  then show ?thesis
    using t barrier_timeouts [of k "5 - k" sts i] assms
    by (simp add: accepts_release_def max_barrier_retries_def workflow_ends_def)
qed

lemma late_release_accepted_iff_witness:
  "(fst (workflow_run [sample_stage] (replicate 1 BarrierTimeout @ [ReleaseSeen (0, 0)])
           (WF_Barrier 0 0 0, preflight_agent)) = WF_Start (0 + 1)) = (1 \<le> (0 :: nat))
   \<and> fst (workflow_run [sample_stage] (replicate 1 BarrierTimeout @ [ReleaseSeen (0, 0)]
               @ replicate (6 - 1) BarrierTimeout) (WF_Barrier 0 0 0, preflight_agent))
          = WF_Done (Inl ''Barrier coordination failed'')"
  using late_release_accepted_iff [of 1 "[sample_stage]" 0 preflight_agent] by (simp del: replicate.simps)

subsection \<open>Aborting\<close>

lemma try_transition_from_idle:
  "a_state a = Idle \<Longrightarrow> t \<noteq> JobAborting \<Longrightarrow> (\<And>i n r. t = AtStage i n r \<Longrightarrow> i \<noteq> 0)
    \<Longrightarrow> a_state (try_transition t a) = Idle"
  by (cases t) (auto simp: try_transition_eq)

lemma idle_kept_by_workflow:
  assumes "a_state a = Idle"
  shows "a_state (snd (workflow_step sts e (w, a))) = Idle"
proof (cases w)
  case (WF_Start i)
  with assms show ?thesis
    by (cases e) (auto simp: start_stage_def workflow_ends_def agent_setters transition_to_eq
        try_transition_eq)
next
  case (WF_Run i)
  with assms show ?thesis
    by (cases e) (auto simp: finish_stage_def workflow_ends_def agent_setters transition_to_eq
        split: sum.splits)
next
  case (WF_Barrier i k q)
  with assms show ?thesis
    by (cases e) (auto simp: workflow_ends_def agent_setters)
next
  case (WF_Done r)
  with assms show ?thesis by (cases e) auto
qed

lemma idle_kept_by_result:
  "a_state a = Idle \<Longrightarrow> a_state (snd (writer_result (v, a))) = Idle"
  by (cases v) (auto simp: try_transition_eq agent_setters split: list.splits sum.splits)

lemma idle_kept_by_job: "a_state (job_agent j) = Idle \<Longrightarrow> a_state (job_agent (job_step sts e j)) = Idle"
proof -
  assume idle: "a_state (job_agent j) = Idle"
  obtain w v a where j: "j = (w, v, a)" by (cases j)
  show ?thesis
  proof (cases e)
    case (Work x)
    then show ?thesis using idle j idle_kept_by_workflow [of a sts x w]
      by (simp add: job_agent_def split: prod.split) (metis snd_conv)
  next
    case (Tick ok)
    obtain v' a' where t: "writer_tick ok (v, a) = (v', a')" by (cases "writer_tick ok (v, a)")
    show ?thesis using idle j t Tick writer_tick_frame [OF t] by (simp add: job_agent_def)
  next
    case Recv
    then show ?thesis using idle j idle_kept_by_result [of a v] by (simp add: job_agent_def)
  qed
qed

text \<open>
  ABORT takes the agent to Idle from every state, and whatever the abandoned workflow and the
  stats writer still do after it (stages ending or failing, releases, timeouts, results), the
  agent stays Idle.
\<close>

lemma abort_ends_idle:
  "a_state (job_agent (job_run sts es (w, v, fst (handle_abort a)))) = Idle"
proof -
  have "a_state (fst (handle_abort a)) = Idle"
    by (cases "a_state a") (simp_all add: handle_abort_def try_transition_eq agent_setters)
  then have "a_state (job_agent (w, v, fst (handle_abort a))) = Idle" by (simp add: job_agent_def)
  then show ?thesis
    by (induction es arbitrary: w v a rule: rev_induct) (simp_all add: idle_kept_by_job)
qed

text \<open>
  The abort RPC's 15 s check does not know which job it was started for: if the agent became
  Idle at the 5 s check and runs stage \<open>j\<close> of a new job ten seconds later, the check sets it to
  Idle, and the new job fails as soon as its stage ends.
\<close>

lemma late_abort_check_stops_new_job:
  assumes "a_state a = AtStage i n r" and "abort_workload a = (a1, t)"
    and "a_state a2 = AtStage (j + 1) m False"
  shows "a_state (abort_check_5s a1) = Idle
    \<and> a_state (abort_check_15s t a2) = Idle
    \<and> fst (workflow_step sts (StageEnds (Inr ())) (WF_Run j, abort_check_15s t a2))
        = WF_Done (Inl ''State transition failed'')"
  using assms
  by (auto simp: abort_workload_def transition_to_eq abort_check_5s_def abort_check_15s_def
      try_transition_eq agent_setters finish_stage_def workflow_ends_def)

lemma late_abort_check_stops_new_job_witness:
  "a_state (abort_check_5s (fst (abort_workload preflight_agent))) = Idle
    \<and> a_state (abort_check_15s (snd (abort_workload preflight_agent))
        (preflight_agent\<lparr>a_state := AtStage (0 + 1) ''s'' False\<rparr>)) = Idle"
proof -
  obtain a1 t where r: "abort_workload preflight_agent = (a1, t)"
    by (cases "abort_workload preflight_agent")
  have "a_state preflight_agent = AtStage 0 ''preflight'' False" by (simp add: preflight_agent_def)
  from late_abort_check_stops_new_job [OF this r, of "preflight_agent\<lparr>a_state := AtStage (0 + 1) ''s'' False\<rparr>" 0 "''s''"]
  show ?thesis using r by simp
qed

subsection \<open>What the controller hears\<close>

lemma exited_writer_silent: "job_step sts e (w, WriterExited, a) = (w', v', a') \<Longrightarrow> v' = WriterExited \<and> outbox a' = outbox a"
proof (cases e)
  case (Work x)
  assume st: "job_step sts e (w, WriterExited, a) = (w', v', a')"
  have "outbox (snd (workflow_step sts x (w, a))) = outbox a"
  proof (cases w)
    case (WF_Start i)
    then show ?thesis by (cases x) (auto simp: start_stage_def workflow_ends_def agent_setters
        transition_to_eq try_transition_eq)
  next
    case (WF_Run i)
    then show ?thesis by (cases x) (auto simp: finish_stage_def workflow_ends_def agent_setters
        transition_to_eq split: sum.splits)
  next
    case (WF_Barrier i k q)
    then show ?thesis by (cases x) (auto simp: workflow_ends_def agent_setters)
  next
    case (WF_Done r)
    then show ?thesis by (cases x) auto
  qed
  with st Work show ?thesis by (auto split: prod.splits)
qed auto

lemma exited_run_silent:
  "fst (snd (job_run sts es (w, WriterExited, a))) = WriterExited
   \<and> outbox (job_agent (job_run sts es (w, WriterExited, a))) = outbox a"
proof (induction es arbitrary: w a)
  case (Cons e es)
  obtain w' v' a' where s: "job_step sts e (w, WriterExited, a) = (w', v', a')"
    by (cases "job_step sts e (w, WriterExited, a)")
  with exited_writer_silent [OF s] Cons [of w' a'] show ?case by simp
qed (simp add: job_agent_def)

lemma refused_start_idle:
  assumes "a_state a = Idle"
  shows "a_state (fst (refuse_start e a)) = Idle \<and> outbox (fst (refuse_start e a)) = outbox a"
  using assms by (simp add: refuse_start_def agent_setters try_transition_eq)

lemma start_config_refuses:
  assumes "validate cfg \<noteq> None \<or> \<not> is_ok (start_stages cfg)"
  shows "\<exists>e. start_config validate cwd init_ok cfg a = refuse_start e a"
proof (cases "validate cfg")
  case None
  then obtain e where "start_stages cfg = Inl e" using assms by (cases "start_stages cfg") auto
  with None show ?thesis by (auto simp: start_config_def)
qed (auto simp: start_config_def)

text \<open>
  A START whose configuration does not parse, is invalid or has bad stages leaves the agent
  Idle (the transition to Failed is not in the table): the stats writer, which looks for Failed
  or Idle, exits, and the controller never receives an ERROR message.
\<close>

lemma refused_start_unreported:
  assumes "a_state a = Idle"
    and "case parse (cm_config_yaml m) of
        None \<Rightarrow> True
      | Some cfg \<Rightarrow>
          (let cfg' = apply_agent_prefix cfg (cm_path_prefix m) (cm_shared_storage m)
           in validate cfg' \<noteq> None \<or> \<not> is_ok (start_stages cfg'))"
  shows "case handle_start parse validate cwd init_ok m a of (a', r) \<Rightarrow>
    a_state a' = Idle \<and> r = ReturnNow \<and> a_error a' \<noteq> None
    \<and> outbox (job_agent (job_run sts (Tick ok # es) (w, WaitValidated, a'))) = outbox a"
proof -
  obtain e where h: "handle_start parse validate cwd init_ok m a = refuse_start e (start_fields m a)"
  proof (cases "parse (cm_config_yaml m)")
    case None
    then show ?thesis using that assms(1) by (simp add: handle_start_def)
  next
    case (Some cfg)
    let ?c = "apply_agent_prefix cfg (cm_path_prefix m) (cm_shared_storage m)"
    have "validate ?c \<noteq> None \<or> \<not> is_ok (start_stages ?c)"
      using assms(2) Some by (simp add: Let_def del: not_None_eq)
    then obtain e where "start_config validate cwd init_ok ?c (start_fields m a) = refuse_start e (start_fields m a)"
      using start_config_refuses by blast
    then show ?thesis using that Some assms(1) by (simp add: handle_start_def)
  qed
  let ?a = "fst (refuse_start e (start_fields m a))"
  have idle: "a_state ?a = Idle" "outbox ?a = outbox a"
    using refused_start_idle [of "start_fields m a" e] assms(1) by (simp_all add: start_fields_def)
  have "outbox (job_agent (job_run sts (Tick ok # es) (w, WaitValidated, ?a))) = outbox a"
    using exited_run_silent [of sts es w ?a] idle by simp
  moreover have "snd (refuse_start e (start_fields m a)) = ReturnNow" "a_error ?a \<noteq> None"
    by (simp_all add: refuse_start_def agent_setters try_transition_eq)
  ultimately show ?thesis using h idle by (simp add: split_def)
qed

definition sample_start :: ControlMessage where
  "sample_start =
     \<lparr> cm_config_yaml = ''bad'', cm_agent_id = ''agent-1'', cm_path_prefix = ''agent-1/'',
       cm_shared_storage = False, cm_agent_index = 0, cm_num_agents = 1, cm_barrier_sequence = 0,
       cm_target_stage_index = 0, cm_target_stage_name = [], cm_ready_for_next = False \<rparr>"

lemma refused_start_unreported_witness:
  "case handle_start (\<lambda>y. None) (\<lambda>c. None) [] (\<lambda>p. True) sample_start (agent_new None) of (a', r) \<Rightarrow>
    a_state a' = Idle \<and> r = ReturnNow \<and> a_error a' \<noteq> None
    \<and> outbox (job_agent (job_run [] [Tick True, Tick True] (WF_Start 0, WaitValidated, a'))) = outbox (agent_new None)"
  by (rule refused_start_unreported) (simp_all add: agent_new_def)

text \<open>
  From START until the first stage ends, whatever is interleaved, the agent sends nothing: no
  READY, RUNNING or barrier message. The controller's startup loop waits 30 s plus 5 s per agent
  for a first message, so a first stage longer than that is aborted as unresponsive.
\<close>

lemma silent_until_first_stage_ends:
  assumes "a_state a = AtStage 0 ''preflight'' False"
    and "list_all (\<lambda>e. case e of Work (StageEnds r) \<Rightarrow> False | _ \<Rightarrow> True) es"
  shows "outbox (job_agent (job_run sts es (WF_Start 0, WaitValidated, a))) = outbox a
    \<and> barrier_reports (job_agent (job_run sts es (WF_Start 0, WaitValidated, a))) = barrier_reports a"
proof -
  let ?P = "\<lambda>(w, v, b). (w \<in> {WF_Start 0, WF_Run 0} \<or> (\<exists>r. w = WF_Done r)) \<and> v = WaitValidated
     \<and> (\<exists>i n. a_state b = AtStage i n False) \<and> outbox b = outbox a \<and> barrier_reports b = barrier_reports a"
  have step: "?P (job_step sts e j)"
    if "?P j" and ok: "case e of Work (StageEnds r) \<Rightarrow> False | _ \<Rightarrow> True" for e j
  proof -
    obtain w v b where j: "j = (w, v, b)" by (cases j)
    show ?thesis
    proof (cases e)
      case (Work x)
      have "?P (w', v, b')" if s: "workflow_step sts x (w, b) = (w', b')" for w' b'
      proof (cases x)
        case (NextStage ab)
        with s \<open>?P j\<close> j show ?thesis
          by (auto simp: start_stage_def workflow_ends_def agent_setters transition_to_eq
              try_transition_eq split: if_splits)
      qed (use s \<open>?P j\<close> j Work ok in auto)
      then show ?thesis using Work j by (cases "workflow_step sts x (w, b)") simp
    qed (use \<open>?P j\<close> j in auto)
  qed
  have "?P (job_run sts es j)" if "?P j" for j
    using assms(2) that
  proof (induction es arbitrary: j)
    case (Cons e es)
    then show ?case using step [of j e] by simp
  qed simp
  from this [of "(WF_Start 0, WaitValidated, a)"] show ?thesis
    using assms(1) by (auto simp: job_agent_def)
qed

lemma silent_until_first_stage_ends_witness:
  "outbox (job_agent (job_run [sample_stage] [Tick True, Work (NextStage False), Tick True]
      (WF_Start 0, WaitValidated, preflight_agent))) = outbox preflight_agent
    \<and> barrier_reports (job_agent (job_run [sample_stage] [Tick True, Work (NextStage False), Tick True]
      (WF_Start 0, WaitValidated, preflight_agent))) = barrier_reports preflight_agent"
  by (rule silent_until_first_stage_ends) (simp_all add: preflight_agent_def)

text \<open>
  After RESET, from any state, a START with a valid configuration is accepted: the agent runs
  the prefixed configuration with its sorted stages from the preflight stage.
\<close>

lemma reset_then_start_runs:
  fixes a m
  assumes "parse (cm_config_yaml m) = Some cfg"
    and "cfg' = apply_agent_prefix cfg (cm_path_prefix m) (cm_shared_storage m)"
    and "validate cfg' = None" and "start_stages cfg' = Inr sts"
    and "fst (begin_oplog cwd init_ok (case op_log_path cfg' of Some p \<Rightarrow> Some p | None \<Rightarrow> agent_op_log_path a)
          (start_fields m (fst (handle_reset a)))) = Inr ()"
  shows "case handle_start parse validate cwd init_ok m (fst (handle_reset a)) of (a', r) \<Rightarrow>
    r = KeepReading \<and> a_state a' = AtStage 0 ''preflight'' False \<and> a_error a' = None
    \<and> running_config a' = Some cfg' \<and> a_stages a' = sts \<and> has_tracker a'"
proof -
  let ?a = "fst (handle_reset a)"
  have idle: "a_state ?a = Idle" "a_error ?a = None" "agent_op_log_path ?a = agent_op_log_path a"
    by (simp_all add: handle_reset_def agent_setters)
  let ?log = "case op_log_path cfg' of Some p \<Rightarrow> Some p | None \<Rightarrow> agent_op_log_path a"
  obtain b where b: "begin_oplog cwd init_ok ?log (start_fields m ?a) = (Inr (), b)"
    using assms(5) by (cases "begin_oplog cwd init_ok ?log (start_fields m ?a)") auto
  then have st: "a_state b = Idle" "a_error b = None"
    using idle by (auto simp: begin_oplog_def start_fields_def Let_def split: option.splits prod.splits)
  have "handle_start parse validate cwd init_ok m ?a = enter_preflight cfg' ?log sts b"
    using idle assms b by (simp add: handle_start_def start_config_def start_fields_def split: option.splits)
  then show ?thesis using st by (simp add: enter_preflight_def transition_to_eq)
qed

lemma reset_then_start_runs_witness:
  "case handle_start (\<lambda>y. Some (sample_config ''file:///d'')) (\<lambda>c. None) [] (\<lambda>p. True) sample_start
      (fst (handle_reset (preflight_agent))) of (a', r) \<Rightarrow>
    r = KeepReading \<and> a_state a' = AtStage 0 ''preflight'' False \<and> a_error a' = None
    \<and> running_config a' = Some (apply_agent_prefix (sample_config ''file:///d'')
         (cm_path_prefix sample_start) (cm_shared_storage sample_start))
    \<and> a_stages a' = None \<and> has_tracker a'"
  by (rule reset_then_start_runs [OF _ refl])
    (auto simp: apply_agent_prefix_def sample_config_def start_stages_def sample_start_def begin_oplog_def
      preflight_agent_def agent_new_def Let_def)

end
