(* ===== verification/Distributed_Run.thy ===== *)
theory Distributed_Run
  imports Controller Agent
begin

text \<open>
  Controller and agents together: the barrier manager of \<open>src/bin/controller.rs\<close> and one stage
  workflow of \<open>src/bin/agent.rs\<close> per agent, joined by barrier reports and RELEASE_BARRIER messages
  in flight. The step relation interleaves them freely, loses and delays messages, and lets agents
  fail; reachability is its reflexive transitive closure. The properties are the promise of the
  stage barriers (no agent starts a stage before all agents finished the one before) and what a
  distributed configuration without barriers leads to.
\<close>

subsection \<open>Creation of the manager\<close>

definition create_barrier_manager :: "nat \<Rightarrow> string list \<Rightarrow> DistributedConfig option \<Rightarrow> BarrierManager option" where
  "create_barrier_manager now addrs dc =
     (case dc of
        None \<Rightarrow> None
      | Some d \<Rightarrow>
          (if enabled (barrier_sync d) \<or> list_ex (\<lambda>s. barrier s \<noteq> None) (stages d)
           then Some (barrier_manager_new now addrs (get_phase_config (barrier_sync d) ''prepare''))
           else None))"

subsection \<open>The system\<close>

record system =
  sys_manager :: BarrierManager
  sys_agent :: "string \<Rightarrow> workflow \<times> agent"
  sys_reports :: "(string \<times> nat) list"
  sys_mail :: "string \<Rightarrow> nat list"

definition agent_reports :: "system \<Rightarrow> string \<Rightarrow> nat set" where
  "agent_reports s x = fst ` set (barrier_reports (snd (sys_agent s x)))"

definition mail_releases :: "BarrierReleaseInfo list \<Rightarrow> (string \<Rightarrow> nat list) \<Rightarrow> string \<Rightarrow> nat list" where
  "mail_releases out mail x =
     mail x @ map barrier_index (filter (\<lambda>info. x \<in> set (bi_ready_agents info)) out)"

definition is_release :: "workflow_event \<Rightarrow> bool" where
  "is_release e = (case e of ReleaseSeen m \<Rightarrow> True | _ \<Rightarrow> False)"

inductive sys_step :: "string set \<Rightarrow> StageConfig list \<Rightarrow> system \<Rightarrow> system \<Rightarrow> bool"
  for A :: "string set" and sts :: "StageConfig list" where
  agent_works:
    "x \<in> A \<Longrightarrow> \<not> is_release e \<Longrightarrow> workflow_step sts e (sys_agent s x) = p \<Longrightarrow>
     sys_step A sts s
       (s\<lparr>sys_agent := (sys_agent s)(x := p),
          sys_reports := sys_reports s
            @ map (\<lambda>r. (x, fst r)) (drop (length (barrier_reports (snd (sys_agent s x)))) (barrier_reports (snd p)))\<rparr>)"
| agent_repeats:
    "x \<in> A \<Longrightarrow> k \<in> agent_reports s x \<Longrightarrow>
     sys_step A sts s (s\<lparr>sys_reports := sys_reports s @ [(x, k)]\<rparr>)"
| agent_state_changes:
    "x \<in> A \<Longrightarrow> sys_step A sts s
       (s\<lparr>sys_agent := (sys_agent s)(x := (fst (sys_agent s x), (snd (sys_agent s x))\<lparr>a_state := st\<rparr>))\<rparr>)"
| release_arrives:
    "x \<in> A \<Longrightarrow> sys_mail s x = us @ k # vs \<Longrightarrow>
     workflow_step sts (ReleaseSeen (k, k)) (sys_agent s x) = p \<Longrightarrow>
     sys_step A sts s
       (s\<lparr>sys_agent := (sys_agent s)(x := p), sys_mail := (sys_mail s)(x := us @ vs)\<rparr>)"
| release_lost:
    "sys_mail s x = us @ k # vs \<Longrightarrow> sys_step A sts s (s\<lparr>sys_mail := (sys_mail s)(x := us @ vs)\<rparr>)"
| report_arrives:
    "sys_reports s = us @ (x, k) # vs \<Longrightarrow> pp_at_barrier p \<Longrightarrow>
     report_step (sys_manager s) (now, x, p, k) = Some (bm, out) \<Longrightarrow>
     sys_step A sts s
       (s\<lparr>sys_manager := bm, sys_reports := us @ vs, sys_mail := mail_releases out (sys_mail s)\<rparr>)"
| report_lost:
    "sys_reports s = us @ (x, k) # vs \<Longrightarrow> sys_step A sts s (s\<lparr>sys_reports := us @ vs\<rparr>)"
| heartbeat:
    "\<not> pp_at_barrier p \<Longrightarrow> report_step (sys_manager s) (now, x, p, k) = Some (bm, out) \<Longrightarrow>
     sys_step A sts s (s\<lparr>sys_manager := bm\<rparr>)"
| liveness:
    "sys_step A sts s (s\<lparr>sys_manager := check_liveness clients answer clock now (sys_manager s)\<rparr>)"
| reset:
    "sys_step A sts s (s\<lparr>sys_manager := reset_barrier_state now (sys_manager s)\<rparr>)"

definition sys_start :: "BarrierManager \<Rightarrow> agent \<Rightarrow> system" where
  "sys_start bm a =
     \<lparr> sys_manager = bm, sys_agent = (\<lambda>x. (WF_Start 0, a\<lparr>barrier_reports := []\<rparr>)),
       sys_reports = [], sys_mail = (\<lambda>x. []) \<rparr>"

subsection \<open>The invariant\<close>

definition all_reported :: "string set \<Rightarrow> system \<Rightarrow> nat \<Rightarrow> bool" where
  "all_reported A s k = (\<forall>x \<in> A. k \<in> agent_reports s x)"

definition manager_inv :: "string set \<Rightarrow> (nat \<Rightarrow> string set) \<Rightarrow> BarrierManager \<Rightarrow> bool" where
  "manager_inv A R bm =
     (bm_inv bm \<and> barrier_type (bm_config bm) = AllOrNothing \<and> length (bm_agents bm) = card A
      \<and> (\<forall>k. set (hkeys (bs_ready (barrier_of bm k))) \<subseteq> R k))"

definition sys_inv :: "string set \<Rightarrow> StageConfig list \<Rightarrow> system \<Rightarrow> bool" where
  "sys_inv A sts s =
     (manager_inv A (\<lambda>k. {x \<in> A. k \<in> agent_reports s x}) (sys_manager s)
      \<and> (\<forall>(x, k) \<in> set (sys_reports s). x \<in> A \<and> k \<in> agent_reports s x)
      \<and> (\<forall>x. \<forall>k \<in> set (sys_mail s x). all_reported A s k)
      \<and> (\<forall>x \<in> A. \<forall>j < reached sts (fst (sys_agent s x)). all_reported A s j))"

lemma length_from_keys:
  assumes "bm_inv bm" and "bm_inv bm'" and "set (hkeys (bm_agents bm')) = set (hkeys (bm_agents bm))"
  shows "length (bm_agents bm') = length (bm_agents bm)"
proof -
  have "distinct (hkeys (bm_agents bm))" "distinct (hkeys (bm_agents bm'))"
    using assms(1,2) by (simp_all add: bm_inv_def hwf_keys)
  then show ?thesis using assms(3) distinct_card hkeys_length by metis
qed

lemma manager_inv_mono: "manager_inv A R bm \<Longrightarrow> (\<And>k. R k \<subseteq> S k) \<Longrightarrow> manager_inv A S bm"
  unfolding manager_inv_def by blast

lemma manager_inv_heartbeat:
  "manager_inv A R bm \<Longrightarrow> manager_inv A R (process_heartbeat now i p bm)"
  using length_from_keys [OF _ process_heartbeat_inv process_heartbeat_keys]
  by (simp add: manager_inv_def process_heartbeat_inv)

lemma manager_inv_reset: "manager_inv A R bm \<Longrightarrow> manager_inv A R (reset_barrier_state now bm)"
  by (simp add: manager_inv_def reset_barrier_state_inv)
    (simp add: reset_barrier_state_def barrier_of_def hkeys_def)

lemma query_all_frame:
  "bm_inv b \<Longrightarrow> set is \<subseteq> set (hkeys (bm_agents b)) \<Longrightarrow>
     set (hkeys (bm_agents (foldl (query_and_mark clients answer clock) b is))) = set (hkeys (bm_agents b))
     \<and> bm_barriers (foldl (query_and_mark clients answer clock) b is) = bm_barriers b"
proof (induction "is" arbitrary: b)
  case (Cons i "is")
  have "bm_barriers (query_and_mark clients answer clock b i) = bm_barriers b"
    by (auto simp: query_and_mark_def process_heartbeat_def mark_agent_failed_def Let_def
        split: sum.split option.split)
  with Cons query_and_mark_inv [OF Cons.prems(1), of i clients answer clock] show ?case by simp
qed simp

lemma check_liveness_frame:
  assumes "bm_inv bm"
  shows "set (hkeys (bm_agents (check_liveness clients answer clock now bm))) = set (hkeys (bm_agents bm))
    \<and> bm_barriers (check_liveness clients answer clock now bm) = bm_barriers bm"
proof -
  let ?pass = "map (\<lambda>(i, hb). (i, miss_heartbeat bm now i hb)) (bm_agents bm)"
  let ?b = "bm\<lparr>bm_agents := map (\<lambda>(i, hb, _). (i, hb)) ?pass\<rparr>"
  let ?is = "map fst (filter (\<lambda>(i, _, q). q) ?pass)"
  have k: "hkeys (bm_agents ?b) = hkeys (bm_agents bm)"
    by (auto simp: hkeys_def case_prod_beta)
  then have "bm_inv ?b" using assms by (simp add: bm_inv_def hwf_keys)
  moreover have "set ?is \<subseteq> set (hkeys (bm_agents ?b))" unfolding k by (force simp: hkeys_def)
  ultimately show ?thesis
    using query_all_frame [of ?b ?is clients answer clock] k unfolding check_liveness_def Let_def by simp
qed

lemma manager_inv_liveness:
  assumes "manager_inv A R bm"
  shows "manager_inv A R (check_liveness clients answer clock now bm)"
proof -
  have inv: "bm_inv bm" using assms by (simp add: manager_inv_def)
  have "barrier_of (check_liveness clients answer clock now bm) k = barrier_of bm k" for k
    using check_liveness_frame [OF inv] by (simp add: barrier_of_def)
  moreover have "length (bm_agents (check_liveness clients answer clock now bm)) = length (bm_agents bm)"
    using length_from_keys [OF inv check_liveness_inv [OF inv]] check_liveness_frame [OF inv] by blast
  ultimately show ?thesis using assms check_liveness_inv [OF inv] by (simp add: manager_inv_def)
qed

text \<open>A release of barrier \<open>k\<close> under the all-or-nothing policy means that \<open>card A\<close> agents reported.\<close>

lemma report_step_released:
  assumes m: "manager_inv A R bm" and x: "x \<in> R k" and fin: "finite A" and sub: "R k \<subseteq> A"
    and p: "pp_at_barrier p" and st: "report_step bm (now, x, p, k) = Some (bm', out)"
  shows "manager_inv A R bm' \<and> (\<forall>info \<in> set out. barrier_index info = k \<and> R k = A)"
proof -
  let ?b = "agent_at_barrier x k k (process_heartbeat now x p bm)"
  have b: "manager_inv A R ?b"
  proof -
    have h: "manager_inv A R (process_heartbeat now x p bm)" using m by (rule manager_inv_heartbeat)
    then have "bm_inv ?b" by (simp add: manager_inv_def agent_at_barrier_inv)
    moreover have "set (hkeys (bs_ready (barrier_of ?b j))) \<subseteq> R j" for j
      using h x by (auto simp: manager_inv_def barrier_of_at)
    ultimately show ?thesis using h by (simp add: manager_inv_def)
  qed
  then have inv: "bm_inv ?b" by (simp add: manager_inv_def)
  have present: "hget (bm_barriers ?b) k \<noteq> None" by (rule at_barrier_present)
  have full: "R k = A" if "length (bs_ready (barrier_of ?b k)) = length (bm_agents ?b)"
  proof -
    have "set (hkeys (bs_ready (barrier_of ?b k))) \<subseteq> R k" using b by (simp add: manager_inv_def)
    moreover have "card (set (hkeys (bs_ready (barrier_of ?b k)))) = card A"
      using that b bm_inv_barrier_of [OF inv, of k] distinct_card
      by (metis hkeys_length hwf_keys manager_inv_def)
    ultimately show ?thesis
      using sub fin card_subset_eq [of A "set (hkeys (bs_ready (barrier_of ?b k)))"] by auto
  qed
  have clear: "manager_inv A R (clear_barrier k ?b)"
    using b barrier_of_clear [OF present] by (auto simp: manager_inv_def clear_barrier_inv)
  have r: "report_step bm (now, x, p, k) =
      map_option (\<lambda>rel. case rel of Some info \<Rightarrow> (clear_barrier k ?b, [info]) | None \<Rightarrow> (?b, []))
        (check_barrier_ready k ?b)"
    using p by (simp add: report_step_def Let_def)
  have ty: "barrier_type (bm_config ?b) = AllOrNothing" using b by (simp add: manager_inv_def)
  show ?thesis
    using st b clear full ty unfolding r check_ready_cases [OF inv present]
    by (auto simp: can_release_def split: if_splits)
qed

subsection \<open>Preservation\<close>

definition grows :: "system \<Rightarrow> system \<Rightarrow> bool" where
  "grows s s' = (\<forall>x. agent_reports s x \<subseteq> agent_reports s' x)"

lemma all_reported_mono: "grows s s' \<Longrightarrow> all_reported A s k \<Longrightarrow> all_reported A s' k"
  by (auto simp: grows_def all_reported_def)

lemma workflow_step_reports:
  assumes "workflow_step sts e (w, a) = (w', a')"
  shows "\<exists>rs. barrier_reports a' = barrier_reports a @ rs"
proof (cases w)
  case (WF_Start i)
  with assms show ?thesis
    by (cases e) (auto simp: start_stage_def workflow_ends_def agent_setters transition_to_eq
        try_transition_eq split: if_splits)
next
  case (WF_Run i)
  with assms show ?thesis
    by (cases e) (auto simp: finish_stage_def workflow_ends_def agent_setters transition_to_eq
        split: if_splits sum.splits)
next
  case (WF_Barrier i k q)
  with assms show ?thesis
    by (cases e) (auto simp: workflow_ends_def agent_setters split: if_splits)
next
  case (WF_Done r)
  with assms show ?thesis by (cases e) auto
qed

lemma workflow_step_reached:
  assumes "workflow_step sts e (w, a) = (w', a')" and "\<not> is_release e"
  shows "reached sts w' \<le> reached sts w"
proof (cases w)
  case (WF_Start i)
  with assms show ?thesis
    by (cases e) (auto simp: is_release_def dest!: start_stage_cases)
next
  case (WF_Run i)
  with assms show ?thesis
    by (cases e) (auto simp: is_release_def dest!: finish_stage_cases)
next
  case (WF_Barrier i k q)
  with assms show ?thesis
    by (cases e) (auto simp: is_release_def workflow_ends_def split: if_splits)
next
  case (WF_Done r)
  with assms show ?thesis by (cases e) auto
qed

lemma workflow_release_reached:
  assumes "workflow_step sts (ReleaseSeen (k, k)) (w, a) = (w', a')"
  shows "a' = a \<and> (reached sts w' = reached sts w \<or> (reached sts w = k \<and> reached sts w' = Suc k))"
  using assms by (cases w) (auto simp: accepts_release_def split: if_splits)

lemma sys_inv_agent:
  assumes inv: "sys_inv A sts s" and g: "grows s s'"
    and m: "sys_manager s' = sys_manager s"
    and rep: "\<forall>(x, k) \<in> set (sys_reports s'). (x, k) \<in> set (sys_reports s) \<or> (x \<in> A \<and> k \<in> agent_reports s' x)"
    and mail: "\<forall>x. set (sys_mail s' x) \<subseteq> set (sys_mail s x)"
    and idx: "\<forall>x \<in> A. \<forall>j < reached sts (fst (sys_agent s' x)).
       j < reached sts (fst (sys_agent s x)) \<or> all_reported A s j"
  shows "sys_inv A sts s'"
proof -
  have "manager_inv A (\<lambda>k. {x \<in> A. k \<in> agent_reports s' x}) (sys_manager s')"
    unfolding m
    by (rule manager_inv_mono [where R = "\<lambda>k. {x \<in> A. k \<in> agent_reports s x}"])
      (use inv g in \<open>auto simp: sys_inv_def grows_def\<close>)
  moreover have "\<forall>(x, k) \<in> set (sys_reports s'). x \<in> A \<and> k \<in> agent_reports s' x"
    using rep inv g by (fastforce simp: sys_inv_def grows_def)
  moreover have "\<forall>x. \<forall>k \<in> set (sys_mail s' x). all_reported A s' k"
    using mail inv all_reported_mono [OF g] unfolding sys_inv_def by blast
  moreover have "\<forall>x \<in> A. \<forall>j < reached sts (fst (sys_agent s' x)). all_reported A s' j"
    using idx inv all_reported_mono [OF g] unfolding sys_inv_def by blast
  ultimately show ?thesis by (simp add: sys_inv_def)
qed

lemma sys_inv_manager:
  assumes inv: "sys_inv A sts s" and m: "manager_inv A (\<lambda>k. {x \<in> A. k \<in> agent_reports s x}) bm"
    and rep: "set reps \<subseteq> set (sys_reports s)"
    and mail: "\<And>x k. k \<in> set (mail x) \<Longrightarrow> k \<in> set (sys_mail s x) \<or> all_reported A s k"
  shows "sys_inv A sts (s\<lparr>sys_manager := bm, sys_reports := reps, sys_mail := mail\<rparr>)"
proof -
  let ?s = "s\<lparr>sys_manager := bm, sys_reports := reps, sys_mail := mail\<rparr>"
  have r: "agent_reports ?s = agent_reports s" by (simp add: agent_reports_def fun_eq_iff)
  then have a: "all_reported A ?s = all_reported A s" by (simp add: all_reported_def fun_eq_iff)
  have "\<forall>(x, k) \<in> set reps. x \<in> A \<and> k \<in> agent_reports s x" using inv rep unfolding sys_inv_def by blast
  moreover have "\<forall>x. \<forall>k \<in> set (mail x). all_reported A s k" using inv mail unfolding sys_inv_def by blast
  ultimately show ?thesis using inv m by (simp add: sys_inv_def r a)
qed

lemma sys_step_inv:
  assumes "sys_step A sts s s'" and "sys_inv A sts s" and fin: "finite A"
  shows "sys_inv A sts s'"
  using assms(1,2)
proof (induction rule: sys_step.induct)
  case (agent_works x e s p)
  obtain w a where wa: "sys_agent s x = (w, a)" by (cases "sys_agent s x")
  obtain w' a' where p: "p = (w', a')" by (cases p)
  have st: "workflow_step sts e (w, a) = (w', a')" using agent_works wa p by simp
  obtain rs where rs: "barrier_reports a' = barrier_reports a @ rs" using workflow_step_reports [OF st] by blast
  let ?s = "s\<lparr>sys_agent := (sys_agent s)(x := p),
          sys_reports := sys_reports s
            @ map (\<lambda>r. (x, fst r)) (drop (length (barrier_reports (snd (sys_agent s x)))) (barrier_reports (snd p)))\<rparr>"
  have g: "grows s ?s" using wa p rs by (auto simp: grows_def agent_reports_def)
  have idx: "reached sts w' \<le> reached sts w" using workflow_step_reached [OF st agent_works(2)] .
  show ?case
    by (rule sys_inv_agent [OF agent_works(4) g])
      (use agent_works(1) wa p rs idx in \<open>auto simp: agent_reports_def\<close>)
next
  case (agent_repeats x k s)
  then show ?case
    by (intro sys_inv_agent [OF agent_repeats(3)]) (auto simp: grows_def agent_reports_def)
next
  case (agent_state_changes x s st)
  then show ?case
    by (intro sys_inv_agent [OF agent_state_changes(2)]) (auto simp: grows_def agent_reports_def)
next
  case (release_arrives x s us k vs p)
  obtain w a where wa: "sys_agent s x = (w, a)" by (cases "sys_agent s x")
  obtain w' a' where p: "p = (w', a')" by (cases p)
  have st: "workflow_step sts (ReleaseSeen (k, k)) (w, a) = (w', a')" using release_arrives wa p by simp
  let ?s = "s\<lparr>sys_agent := (sys_agent s)(x := p), sys_mail := (sys_mail s)(x := us @ vs)\<rparr>"
  have a: "a' = a" and r: "reached sts w' = reached sts w \<or> (reached sts w = k \<and> reached sts w' = Suc k)"
    using workflow_release_reached [OF st] by simp_all
  have k: "all_reported A s k" using release_arrives(2,4) unfolding sys_inv_def by (metis in_set_conv_decomp)
  have g: "grows s ?s" using wa p a by (auto simp: grows_def agent_reports_def)
  have "\<forall>y \<in> A. \<forall>j < reached sts (fst (sys_agent ?s y)).
       j < reached sts (fst (sys_agent s y)) \<or> all_reported A s j"
    using wa p r k by (auto simp: less_Suc_eq)
  then show ?case
    by (intro sys_inv_agent [OF release_arrives(4) g]) (use release_arrives(2) in auto)
next
  case (release_lost s x us k vs)
  then show ?case
    by (intro sys_inv_agent [OF release_lost(2)]) (auto simp: grows_def agent_reports_def)
next
  case (report_arrives s us x k vs p now bm out)
  let ?R = "\<lambda>k. {x \<in> A. k \<in> agent_reports s x}"
  have m: "manager_inv A ?R (sys_manager s)" using report_arrives(4) by (simp add: sys_inv_def)
  have x: "x \<in> ?R k" using report_arrives(1,4) by (simp add: sys_inv_def)
  have sub: "?R k \<subseteq> A" by blast
  have r: "manager_inv A ?R bm" "\<forall>info \<in> set out. barrier_index info = k \<and> ?R k = A"
    using report_step_released [OF m x fin sub report_arrives(2,3)] by simp_all
  have mail: "j \<in> set (mail_releases out (sys_mail s) y) \<Longrightarrow> j \<in> set (sys_mail s y) \<or> all_reported A s j" for y j
    using r(2) by (auto simp: mail_releases_def all_reported_def)
  show ?case
    by (rule sys_inv_manager [OF report_arrives(4) r(1)]) (use report_arrives(1) mail in auto)
next
  case (report_lost s us x k vs)
  then show ?case
    by (intro sys_inv_agent [OF report_lost(2)]) (auto simp: grows_def agent_reports_def)
next
  case (heartbeat p s now x k bm out)
  then have "bm = process_heartbeat now x p (sys_manager s)" by (simp add: report_step_def Let_def)
  then have "manager_inv A (\<lambda>k. {x \<in> A. k \<in> agent_reports s x}) bm"
    using heartbeat(3) manager_inv_heartbeat unfolding sys_inv_def by blast
  then show ?case
    using sys_inv_manager [OF heartbeat(3), of bm "sys_reports s" "sys_mail s"] by simp
next
  case (liveness s clients answer clock now)
  then show ?case
    using sys_inv_manager [OF liveness manager_inv_liveness, of _ "sys_reports s" "sys_mail s"]
    by (simp add: sys_inv_def)
next
  case (reset s now)
  then show ?case
    using sys_inv_manager [OF reset manager_inv_reset, of _ "sys_reports s" "sys_mail s"]
    by (simp add: sys_inv_def)
qed

lemma sys_start_inv:
  assumes "length (bm_agents bm) = card A" and "bm_inv bm" and "bm_barriers bm = []"
    and "barrier_type (bm_config bm) = AllOrNothing"
  shows "sys_inv A sts (sys_start bm a)"
  using assms by (auto simp: sys_inv_def sys_start_def manager_inv_def barrier_of_def hkeys_def)

text \<open>
  C1: With the all-or-nothing policy, in every reachable state of the distributed run (reports and
  releases delayed, repeated and lost, barriers retried, agents failing, aborted or reset, liveness
  queries in between), an agent that executes stage \<open>k\<close> or waits at its barrier does so only after
  every agent has finished every earlier stage. The manager may count agents under other names
  than they report, as the controller's does.
\<close>

theorem stage_synchrony:
  assumes "finite A" and "length (bm_agents (barrier_manager_new now ids cfg)) = card A"
    and "barrier_type cfg = AllOrNothing"
    and "(sys_step A sts)\<^sup>*\<^sup>* (sys_start (barrier_manager_new now ids cfg) a) s"
    and "x \<in> A" and "y \<in> A" and "j < k"
    and "fst (sys_agent s x) \<in> {WF_Run k, WF_Barrier k r q}"
  shows "j \<in> agent_reports s y"
proof -
  have "sys_inv A sts (sys_start (barrier_manager_new now ids cfg) a)"
    using assms(2,3) barrier_manager_new_inv by (intro sys_start_inv) (simp_all add: barrier_manager_new_def)
  with assms(4) have "sys_inv A sts s"
    by (induction rule: rtranclp_induct) (simp_all add: sys_step_inv [OF _ _ assms(1)])
  moreover have "reached sts (fst (sys_agent s x)) = k" using assms(8) by auto
  ultimately show ?thesis using assms(5-7) by (auto simp: sys_inv_def all_reported_def)
qed

definition two_stages :: "StageConfig list" where
  "two_stages = [sample_stage, sample_stage\<lparr>order := 2\<rparr>]"

lemma one_agent_passes_first_barrier:
  fixes bm0 :: BarrierManager and p :: "workflow \<times> agent"
  defines "bm0 \<equiv> barrier_manager_new 0 [''h:1''] (sample_barrier_config AllOrNothing)"
  shows "\<exists>s. (sys_step {''a''} two_stages)\<^sup>*\<^sup>* (sys_start bm0 preflight_agent) s
     \<and> fst (sys_agent s ''a'') = WF_Run 1"
proof -
  let ?A = "{''a''}"
  let ?step = "\<lambda>e q. workflow_step two_stages e q"
  let ?s0 = "sys_start bm0 preflight_agent"
  let ?p1 = "?step (NextStage False) (sys_agent ?s0 ''a'')"
  let ?s1 = "?s0\<lparr>sys_agent := (sys_agent ?s0)(''a'' := ?p1)\<rparr>"
  let ?p2 = "?step (StageEnds (Inr ())) ?p1"
  let ?s2 = "?s1\<lparr>sys_agent := (sys_agent ?s1)(''a'' := ?p2), sys_reports := [(''a'', 0)]\<rparr>"
  let ?bm = "fst (the (report_step bm0 (0, ''a'', sample_progress\<lparr>pp_at_barrier := True\<rparr>, 0)))"
  let ?s3 = "?s2\<lparr>sys_manager := ?bm, sys_reports := [], sys_mail := (\<lambda>x. if x = ''a'' then [0] else [])\<rparr>"
  let ?p4 = "?step (ReleaseSeen (0, 0)) ?p2"
  let ?s4 = "?s3\<lparr>sys_agent := (sys_agent ?s3)(''a'' := ?p4), sys_mail := (sys_mail ?s3)(''a'' := [] @ [])\<rparr>"
  let ?p5 = "?step (NextStage False) ?p4"
  let ?s5 = "?s4\<lparr>sys_agent := (sys_agent ?s4)(''a'' := ?p5)\<rparr>"
  note ev = sys_start_def two_stages_def job_simps
  have "sys_step ?A two_stages ?s0 ?s1"
    using agent_works [of "''a''" ?A "NextStage False" two_stages ?s0 ?p1]
    by (simp add: is_release_def) (simp add: ev)
  moreover have "sys_step ?A two_stages ?s1 ?s2"
    using agent_works [of "''a''" ?A "StageEnds (Inr ())" two_stages ?s1 ?p2]
    by (simp add: is_release_def) (simp add: ev)
  moreover have "sys_step ?A two_stages ?s2 ?s3"
  proof -
    have r: "report_step bm0 (0, ''a'', sample_progress\<lparr>pp_at_barrier := True\<rparr>, 0) =
        Some (?bm, [\<lparr> barrier_index = 0, bi_ready_agents = [''a''] \<rparr>])"
      by (simp add: report_step_def bm0_def barrier_manager_new_def process_heartbeat_def
          agent_at_barrier_def check_barrier_ready_def clear_barrier_def can_release_def
          sample_barrier_config_def hget_def hput_def hkeys_def Let_def)
    have "sys_step ?A two_stages ?s2 (?s2\<lparr>sys_manager := ?bm, sys_reports := [] @ [],
        sys_mail := mail_releases [\<lparr> barrier_index = 0, bi_ready_agents = [''a''] \<rparr>] (sys_mail ?s2)\<rparr>)"
    proof (rule report_arrives)
      show "sys_reports ?s2 = [] @ (''a'', 0) # []" by simp
      show "pp_at_barrier (sample_progress\<lparr>pp_at_barrier := True\<rparr>)" by simp
      have "sys_manager ?s2 = bm0" by (simp add: sys_start_def)
      then show "report_step (sys_manager ?s2) (0, ''a'', sample_progress\<lparr>pp_at_barrier := True\<rparr>, 0) =
          Some (?bm, [\<lparr> barrier_index = 0, bi_ready_agents = [''a''] \<rparr>])"
        using r by simp
    qed
    moreover have "mail_releases [\<lparr> barrier_index = 0, bi_ready_agents = [''a''] \<rparr>] (\<lambda>x. [])
        = (\<lambda>x. if x = ''a'' then [0] else [])"
      by (rule ext) (simp add: mail_releases_def)
    ultimately show ?thesis by (simp add: sys_start_def)
  qed
  moreover have "sys_step ?A two_stages ?s3 ?s4"
    by (rule release_arrives) simp_all
  moreover have "sys_step ?A two_stages ?s4 ?s5"
    using agent_works [of "''a''" ?A "NextStage False" two_stages ?s4 ?p5]
    by (simp add: is_release_def) (simp add: ev)
  ultimately have "(sys_step ?A two_stages)\<^sup>*\<^sup>* ?s0 ?s5" by (meson converse_rtranclp_into_rtranclp rtranclp.rtrancl_refl)
  moreover have "fst (sys_agent ?s5 ''a'') = WF_Run 1" by (simp add: ev)
  ultimately show ?thesis by blast
qed

lemma stage_synchrony_witness:
  "\<exists>s. fst (sys_agent s ''a'') = WF_Run 1 \<and> 0 \<in> agent_reports s ''a''"
proof -
  let ?bm = "barrier_manager_new 0 [''h:1''] (sample_barrier_config AllOrNothing)"
  obtain s where s: "(sys_step {''a''} two_stages)\<^sup>*\<^sup>* (sys_start ?bm preflight_agent) s"
      "fst (sys_agent s ''a'') = WF_Run 1"
    using one_agent_passes_first_barrier by blast
  have "length (bm_agents ?bm) = card {''a''}" by (simp add: barrier_manager_new_def hput_def)
  from stage_synchrony [OF _ this _ s(1), of "''a''" "''a''" 0 1] s(2)
  show ?thesis by (auto simp: sample_barrier_config_def)
qed

subsection \<open>Without barriers\<close>

definition no_manager :: "controller \<Rightarrow> bool" where
  "no_manager st = (barrier_manager st = None \<and> releases st = [])"

lemma no_manager_update [simp]:
  "no_manager (st\<lparr>trackers := t\<rparr>) = no_manager st" "no_manager (st\<lparr>aggregator := g\<rparr>) = no_manager st"
  "no_manager (st\<lparr>ctl_stage_elapsed_s := e\<rparr>) = no_manager st"
  "no_manager (put_tracker i tr st) = no_manager st"
  "no_manager (st\<lparr>agent_summaries := u\<rparr>) = no_manager st"
  "no_manager (st\<lparr>prepare_summaries := v\<rparr>) = no_manager st"
  "no_manager (abort_all_agents now addrs st) = no_manager st"
  "no_manager (sweep now st) = no_manager st"
  "no_manager (high_water s st) = no_manager st"
  by (simp_all add: no_manager_def put_tracker_def abort_all_agents_def sweep_def high_water_def split: PbStage.split)

lemma no_manager_register [simp]: "no_manager (register_message now s st) = no_manager st"
proof -
  have "no_manager (st'\<lparr>last_stage := l, last_stage_name := n\<rparr>) = no_manager st'" for st' l n
    by (simp add: no_manager_def)
  then show ?thesis by (simp add: register_message_def Let_def)
qed

lemma no_manager_conclude [simp]: "no_manager (fst (conclude_message now addrs s tr st)) = no_manager st"
  by (simp add: conclude_message_def Let_def)

lemma no_manager_enter:
  "no_manager st \<Longrightarrow> no_manager (fst (enter_workload wait hasd now addrs st))"
  by (simp add: enter_workload_def Let_def no_manager_def)

lemma no_manager_handle:
  assumes "no_manager st"
  shows "no_manager (fst (handle_stats wait hasd write_ok addrs now st s))"
proof -
  have n: "note_barrier write_ok (length addrs) now s st = Some st"
    using assms by (simp add: note_barrier_def no_manager_def)
  let ?reg = "register_message now s st"
  let ?e = "if last_stage st = StagePrepare \<and> stage_of_i32 (current_stage s) = StageWorkload
            then enter_workload wait hasd now addrs ?reg else (?reg, Proceed)"
  obtain st3 out where e: "?e = (st3, out)" by (cases ?e)
  have "no_manager (fst ?e)" using assms no_manager_enter [of ?reg] by simp
  then have "no_manager st3" using e by simp
  then show ?thesis
    unfolding handle_stats_def n using e by (simp add: Let_def note_stage_elapsed_def)
qed

lemma no_manager_run:
  "no_manager st \<Longrightarrow> no_manager (controller_run wait hasd write_ok addrs st evs)"
proof (induction evs rule: rev_induct)
  case (snoc e evs)
  then show ?case
    by (cases e) (simp_all add: controller_run_def no_manager_handle handle_startup_def Let_def)
qed (simp add: controller_run_def)

text \<open>
  A distributed configuration without any barrier (no \<open>barrier_sync\<close>, no stage barrier) cannot
  complete: the controller creates no manager and releases nothing, whatever messages it gets,
  while each agent waits for the release of every stage; so no agent sends COMPLETED.
\<close>

lemma no_barrier_config_never_completes:
  assumes "\<not> enabled (barrier_sync d)" and "list_all (\<lambda>s. barrier s = None) (stages d)"
    and "get_sorted_stages d = Inr sts" and "stages d \<noteq> []"
    and "st = controller_run wait hasd write_ok addrs
            (controller_start now addrs (create_barrier_manager now addrs (Some d))) evs"
    and "set (released es) \<subseteq> set (map barrier_index (releases st))"
    and "job_run sts es (WF_Start 0, v, a) = (w, v', a')" and "job_results a = []" and "outbox a = []"
  shows "4 \<notin> fst ` set (outbox a')"
proof -
  have "create_barrier_manager now addrs (Some d) = None"
    using assms(1,2) by (simp add: create_barrier_manager_def list_ex_iff list_all_iff)
  then have "no_manager (controller_start now addrs (create_barrier_manager now addrs (Some d)))"
    by (simp add: no_manager_def controller_start_def)
  then have "no_manager st" using no_manager_run assms(5) by blast
  then have "released es = []" using assms(6) by (simp add: no_manager_def)
  moreover have "job_inv sts ([] @ released es) (w, v', a')"
    using job_inv_run [of sts "[]" "(WF_Start 0, v, a)" es] assms(7-9) by (simp add: job_inv_def)
  moreover have "length sts = length (stages d)"
    using assms(3) by (auto simp: get_sorted_stages_def Let_def split: sum.splits if_splits)
  then have "sts \<noteq> []" using assms(4) by auto
  ultimately show ?thesis by (auto simp: job_inv_def)
qed

definition unsynchronised_config :: DistributedConfig where
  "unsynchronised_config =
     \<lparr> agents = [], start_delay = 0, path_template = [], shared_filesystem = False,
       tree_creation_mode = Isolated, path_selection = RandomPath, partition_overlap = 0,
       grpc_keepalive_interval = 30, grpc_keepalive_timeout = 10, agent_ready_timeout = 120,
       barrier_sync = BarrierSyncConfig_default, stages = [sample_stage], kv_cache_dir = None \<rparr>"

lemma no_barrier_config_never_completes_witness:
  "4 \<notin> fst ` set (outbox (job_agent (job_run [sample_stage] [Work (NextStage False), Tick True]
      (WF_Start 0, Reporting, preflight_agent))))"
proof -
  obtain w v a where j: "job_run [sample_stage] [Work (NextStage False), Tick True]
      (WF_Start 0, Reporting, preflight_agent) = (w, v, a)"
    by (cases "job_run [sample_stage] [Work (NextStage False), Tick True] (WF_Start 0, Reporting, preflight_agent)")
  have "get_sorted_stages unsynchronised_config = Inr [sample_stage]"
    by (simp add: get_sorted_stages_def validate_stages_def unsynchronised_config_def
        BarrierSyncConfig_default_def sample_stage_def completion_matches_def Let_def)
  then have "4 \<notin> fst ` set (outbox a)"
    by (rule no_barrier_config_never_completes [OF _ _ _ _ refl _ j, where wait = "\<lambda>bm. (StillWaiting, bm)"
          and hasd = True and write_ok = "\<lambda>k. True" and addrs = "[]" and now = 0 and evs = "[]", rotated 2])
      (simp_all add: unsynchronised_config_def BarrierSyncConfig_default_def sample_stage_def
        preflight_agent_def agent_new_def)
  then show ?thesis unfolding j job_agent_def by simp
qed

end
