(* ===== verification/Directory_Tree.thy ===== *)
theory Directory_Tree
  imports Config
begin

text \<open>
  Directory trees (\<open>src/directory_tree.rs\<close>): the generation of the tree with its level-by-level
  numbering, the manifest agents share, the map from file numbers to paths, and the assignment of
  directories and files to agents. The key \<open>"{level}_{index}"\<close> of the node map is the pair of its
  numbers; \<open>width.pow\<close> does not overflow here. The configuration hash and the JSON form are not
  modelled.
\<close>

subsection \<open>Generation\<close>

definition replace_first :: "string \<Rightarrow> string \<Rightarrow> string \<Rightarrow> string" where
  "replace_first p r s =
     (case find_sub p s of None \<Rightarrow> s | Some i \<Rightarrow> take i s @ r @ drop (i + length p) s)"

record DirectoryNode =
  node_depth :: nat
  node_width :: nat
  full_path :: string
  dir_name :: string
  has_files :: bool

definition node_name :: "DirectoryStructureConfig \<Rightarrow> nat \<Rightarrow> nat \<Rightarrow> string" where
  "node_name c d local_width =
     replace_first ''%d'' (show_nat local_width) (replace_first ''%d'' (show_nat d) (dir_mask c))"

type_synonym node_map = "(nat \<times> nat, DirectoryNode) hmap"

text \<open>
  \<open>create_node\<close>: the path extends the parent's, looked up or built recursively. Levels start at 1.
\<close>

fun create_node :: "DirectoryStructureConfig \<Rightarrow> node_map \<Rightarrow> nat \<Rightarrow> nat \<Rightarrow> DirectoryNode" where
  "create_node c dirs d g =
     (let local_width = (g - 1) mod width c + 1;
          nm = node_name c d local_width;
          path = (if d \<le> 1 then nm
                  else
                    (let parent = (g - 1) div width c + 1
                     in case hget dirs (d - 1, parent) of
                          Some p \<Rightarrow> full_path p @ ''/'' @ nm
                        | None \<Rightarrow> full_path (create_node c dirs (d - 1) parent) @ ''/'' @ nm))
      in \<lparr> node_depth = d, node_width = local_width, full_path = path, dir_name = nm,
           has_files = (if distribution c = ''bottom'' then d = depth c
                        else distribution c = ''all'') \<rparr>)"

declare create_node.simps [simp del]

record DirectoryTree =
  dt_config :: DirectoryStructureConfig
  directories :: node_map
  dt_all_paths :: "string list"
  dt_by_level :: "(nat, string list) hmap"
  total_directories :: nat
  dt_total_files :: nat

datatype tree_error = ZeroWidth | ZeroDepth | BadDistribution string

definition dirs_up_to :: "nat \<Rightarrow> nat \<Rightarrow> nat" where
  "dirs_up_to w d = sum_list (map (\<lambda>level. w ^ level) [1..<d + 1])"

definition generate_level :: "DirectoryStructureConfig \<Rightarrow> node_map \<Rightarrow> nat \<Rightarrow> node_map \<times> string list" where
  "generate_level c dirs level =
     foldl (\<lambda>(m, ps) i. let n = create_node c m level i in (hput (level, i) n m, ps @ [full_path n]))
       (dirs, []) [1..<width c ^ level + 1]"

definition add_level ::
  "DirectoryStructureConfig \<Rightarrow> node_map \<times> string list \<times> (nat, string list) hmap \<Rightarrow> nat
    \<Rightarrow> node_map \<times> string list \<times> (nat, string list) hmap" where
  "add_level c st level =
     (case st of (dirs, ps, lv) \<Rightarrow>
        let (dirs', level_paths) = generate_level c dirs level
        in (dirs', ps @ level_paths, hput level level_paths lv))"

definition tree_new :: "DirectoryStructureConfig \<Rightarrow> tree_error + DirectoryTree" where
  "tree_new c =
     (if width c = 0 then Inl ZeroWidth
      else if depth c = 0 then Inl ZeroDepth
      else
        (let (dirs, ps, lv) = foldl (add_level c) ([], [], []) [1..<depth c + 1];
             n = dirs_up_to (width c) (depth c);
             t = \<lparr> dt_config = c, directories = dirs, dt_all_paths = ps, dt_by_level = lv,
                   total_directories = n, dt_total_files = 0 \<rparr>
         in if distribution c = ''bottom''
            then Inr (t\<lparr>dt_total_files := width c ^ depth c * files_per_dir c\<rparr>)
            else if distribution c = ''all'' then Inr (t\<lparr>dt_total_files := n * files_per_dir c\<rparr>)
            else Inl (BadDistribution (distribution c))))"

subsection \<open>The manifest\<close>

record TreeManifest =
  all_directories :: "string list"
  by_level :: "(nat, string list) hmap"
  agent_assignments :: "(nat, string list) hmap"
  total_dirs :: nat
  total_files :: nat
  tm_files_per_dir :: nat
  tm_distribution :: string
  file_ranges :: "(string \<times> nat \<times> nat) list"
  max_depth :: nat
  leaf_start_index :: nat

definition max_level :: "(nat, string list) hmap \<Rightarrow> nat option" where
  "max_level lv = (if lv = [] then None else Some (Max (set (hkeys lv))))"

definition slashes :: "string \<Rightarrow> nat" where
  "slashes p = length (filter (\<lambda>ch. ch = CHR ''/'') p)"

fun file_ranges_from :: "(string \<Rightarrow> bool) \<Rightarrow> nat \<Rightarrow> nat \<Rightarrow> string list \<Rightarrow> (string \<times> nat \<times> nat) list \<times> nat" where
  "file_ranges_from holds k g [] = ([], g)"
| "file_ranges_from holds k g (p # ps) =
     (if holds p \<and> 0 < k
      then (let (rs, n) = file_ranges_from holds k (g + k) ps in ((p, g, g + k) # rs, n))
      else file_ranges_from holds k g ps)"

definition dir_holds_files :: "string \<Rightarrow> nat \<Rightarrow> string \<Rightarrow> bool" where
  "dir_holds_files where_files deepest p =
     (if where_files = ''bottom'' then slashes p + 1 = deepest else where_files = ''all'')"

definition compute_file_ranges :: "TreeManifest \<Rightarrow> TreeManifest" where
  "compute_file_ranges m =
     (case max_level (by_level m) of
        None \<Rightarrow> m\<lparr>file_ranges := []\<rparr>
      | Some deepest \<Rightarrow>
          (let (rs, n) = file_ranges_from (dir_holds_files (tm_distribution m) deepest)
                 (tm_files_per_dir m) 0 (all_directories m)
           in m\<lparr>file_ranges := rs, total_files := n\<rparr>))"

definition from_tree :: "DirectoryTree \<Rightarrow> TreeManifest" where
  "from_tree t =
     (let m = compute_file_ranges
            \<lparr> all_directories = dt_all_paths t, by_level = dt_by_level t, agent_assignments = [],
              total_dirs = total_directories t, total_files = dt_total_files t,
              tm_files_per_dir = files_per_dir (dt_config t), tm_distribution = distribution (dt_config t),
              file_ranges = [], max_depth = 0, leaf_start_index = 0 \<rparr>;
          deepest = (case max_level (by_level m) of Some l \<Rightarrow> l | None \<Rightarrow> 0)
      in m\<lparr>max_depth := deepest,
           leaf_start_index := sum_list (map (\<lambda>l. case hget (by_level m) l of Some ps \<Rightarrow> length ps | None \<Rightarrow> 0)
             [1..<deepest])\<rparr>)"

definition get_file_name :: "nat \<Rightarrow> string" where
  "get_file_name i = ''file_'' @ show_padded 8 i @ ''.dat''"

definition get_file_range :: "TreeManifest \<Rightarrow> string \<Rightarrow> (nat \<times> nat) option" where
  "get_file_range m p = map_option snd (find (\<lambda>r. fst r = p) (file_ranges m))"

definition nth_path :: "TreeManifest \<Rightarrow> nat \<Rightarrow> string option" where
  "nth_path m i = (if i < length (all_directories m) then Some (all_directories m ! i) else None)"

definition get_file_path :: "TreeManifest \<Rightarrow> nat \<Rightarrow> string option" where
  "get_file_path m i =
     (if tm_files_per_dir m = 0 \<or> total_files m \<le> i then None
      else if tm_distribution m = ''bottom''
      then map_option (\<lambda>d. d @ ''/'' @ get_file_name i) (nth_path m (leaf_start_index m + i div tm_files_per_dir m))
      else if tm_distribution m = ''all''
      then map_option (\<lambda>d. d @ ''/'' @ get_file_name i) (nth_path m (i div tm_files_per_dir m))
      else None)"

definition get_files_in_directory :: "TreeManifest \<Rightarrow> string \<Rightarrow> string list" where
  "get_files_in_directory m p =
     (case get_file_range m p of Some (a, b) \<Rightarrow> map get_file_name [a..<b] | None \<Rightarrow> [])"

subsection \<open>Work of the agents\<close>

definition assign_dir :: "nat \<Rightarrow> (nat, string list) hmap \<Rightarrow> nat \<times> string \<Rightarrow> (nat, string list) hmap" where
  "assign_dir n m ip =
     (let a = fst ip mod n
      in hput a ((case hget m a of Some l \<Rightarrow> l | None \<Rightarrow> []) @ [snd ip]) m)"

definition assign_agents :: "nat \<Rightarrow> TreeManifest \<Rightarrow> TreeManifest" where
  "assign_agents n m =
     (if n = 0 then m
      else m\<lparr>agent_assignments :=
               foldl (assign_dir n) [] (zip [0..<length (all_directories m)] (all_directories m))\<rparr>)"

definition get_agent_dirs :: "TreeManifest \<Rightarrow> nat \<Rightarrow> string list" where
  "get_agent_dirs m a = (case hget (agent_assignments m) a of Some l \<Rightarrow> l | None \<Rightarrow> [])"

definition should_agent_handle_file :: "nat \<Rightarrow> nat \<Rightarrow> nat \<Rightarrow> bool" where
  "should_agent_handle_file i a n = (n \<le> 1 \<or> i mod n = a)"

definition get_agent_file_indices :: "TreeManifest \<Rightarrow> nat \<Rightarrow> nat \<Rightarrow> nat list" where
  "get_agent_file_indices m a n =
     (if n \<le> 1 then [0..<total_files m] else filter (\<lambda>i. i mod n = a) [0..<total_files m])"

definition get_agent_file_paths :: "TreeManifest \<Rightarrow> nat \<Rightarrow> nat \<Rightarrow> string list" where
  "get_agent_file_paths m a n = List.map_filter (get_file_path m) (get_agent_file_indices m a n)"

definition create_tree_manifest_only :: "PrepareConfig \<Rightarrow> nat \<Rightarrow> tree_error option + TreeManifest" where
  "create_tree_manifest_only p n =
     (case directory_structure p of
        None \<Rightarrow> Inl None
      | Some c \<Rightarrow> (case tree_new c of Inl e \<Rightarrow> Inl (Some e) | Inr t \<Rightarrow> Inr (assign_agents n (from_tree t))))"

subsection \<open>The owner of a work item\<close>

text \<open>The agent of file or directory \<open>i\<close>: the modulus the code uses in every phase.\<close>

definition assigned_agent :: "nat \<Rightarrow> nat \<Rightarrow> nat" where "assigned_agent n i = i mod n"

interpretation agent_shard: round_robin assigned_agent
  by unfold_locales (simp_all add: assigned_agent_def)

subsection \<open>Names and paths\<close>

text \<open>Masks as documented: two placeholders and no slash.\<close>

definition mask_ok :: "string \<Rightarrow> bool" where
  "mask_ok m = (\<exists>a b e. m = a @ ''%d'' @ b @ ''%d'' @ e \<and> CHR ''%'' \<notin> set a \<and> CHR ''%'' \<notin> set b
     \<and> CHR ''/'' \<notin> set m)"

fun tree_path :: "DirectoryStructureConfig \<Rightarrow> nat \<Rightarrow> nat \<Rightarrow> string" where
  "tree_path c d g =
     (if d \<le> 1 then node_name c d ((g - 1) mod width c + 1)
      else tree_path c (d - 1) ((g - 1) div width c + 1) @ ''/'' @ node_name c d ((g - 1) mod width c + 1))"

declare tree_path.simps [simp del]

definition level_paths :: "DirectoryStructureConfig \<Rightarrow> nat \<Rightarrow> string list" where
  "level_paths c l = map (tree_path c l) [1..<width c ^ l + 1]"

definition tree_paths :: "DirectoryStructureConfig \<Rightarrow> nat \<Rightarrow> string list" where
  "tree_paths c n = concat (map (level_paths c) [1..<n + 1])"

lemma find_placeholder: "CHR ''%'' \<notin> set x \<Longrightarrow> find_sub ''%d'' (x @ ''%d'' @ y) = Some (length x)"
  by (induction x) (auto simp: starts_with_def)

lemma replace_placeholder:
  "CHR ''%'' \<notin> set x \<Longrightarrow> replace_first ''%d'' r (x @ ''%d'' @ y) = x @ r @ y"
  using find_placeholder [of x y] by (simp add: replace_first_def)

lemma show_nat_chars: "CHR ''%'' \<notin> set (show_nat n)" "CHR ''/'' \<notin> set (show_nat n)"
  using show_nat_digits by (fastforce simp: digit_val_def)+

lemma node_name_form:
  assumes "mask_ok (dir_mask c)"
  obtains a b e where "\<And>d w. node_name c d w = a @ show_nat d @ b @ show_nat w @ e"
    and "\<And>d w. CHR ''/'' \<notin> set (node_name c d w)"
proof -
  obtain a b e where m: "dir_mask c = a @ ''%d'' @ b @ ''%d'' @ e" "CHR ''%'' \<notin> set a" "CHR ''%'' \<notin> set b"
      "CHR ''/'' \<notin> set (dir_mask c)"
    using assms by (auto simp: mask_ok_def)
  have "node_name c d w = a @ show_nat d @ b @ show_nat w @ e" for d w
  proof -
    have "replace_first ''%d'' (show_nat d) (dir_mask c) = (a @ show_nat d @ b) @ ''%d'' @ e"
      unfolding m(1) using replace_placeholder [OF m(2)] by simp
    then show ?thesis
      unfolding node_name_def using replace_placeholder [of "a @ show_nat d @ b" "show_nat w" e] m(2,3)
      by (simp add: show_nat_chars)
  qed
  moreover from this have "CHR ''/'' \<notin> set (node_name c d w)" for d w
    using m show_nat_chars by simp
  ultimately show ?thesis using that by blast
qed

lemma last_slash:
  "x @ CHR ''/'' # n = y @ CHR ''/'' # m \<Longrightarrow> CHR ''/'' \<notin> set n \<Longrightarrow> CHR ''/'' \<notin> set m \<Longrightarrow> x = y \<and> n = m"
proof (induction x arbitrary: y)
  case Nil
  then show ?case by (cases y) auto
next
  case (Cons ch x)
  then show ?case by (cases y) auto
qed

lemma slashes_append [simp]: "slashes (x @ y) = slashes x + slashes y"
  by (simp add: slashes_def)

lemma slashes_tree_path:
  assumes "mask_ok (dir_mask c)"
  shows "slashes (tree_path c d g) = d - 1"
proof -
  obtain a b e where n: "\<And>d w. CHR ''/'' \<notin> set (node_name c d w)"
    using node_name_form [OF assms] by blast
  have z: "slashes (node_name c d w) = 0" for d w
    using n [of d w] by (auto simp: slashes_def filter_empty_conv)
  show ?thesis
  proof (induction d arbitrary: g)
    case (Suc d)
    then show ?case using z by (simp add: tree_path.simps [of c "Suc d"]) (simp add: slashes_def)
  qed (simp add: tree_path.simps [of c 0] z)
qed

lemma tree_path_inject:
  assumes "mask_ok (dir_mask c)" and "0 < width c"
  shows "1 \<le> g \<Longrightarrow> 1 \<le> g' \<Longrightarrow> d \<noteq> 0 \<Longrightarrow> g \<le> width c ^ d \<Longrightarrow> g' \<le> width c ^ d \<Longrightarrow>
    tree_path c d g = tree_path c d g' \<Longrightarrow> g = g'"
proof (induction d arbitrary: g g')
  case (Suc d)
  obtain a b e where n: "\<And>d w. node_name c d w = a @ show_nat d @ b @ show_nat w @ e"
      "\<And>d w. CHR ''/'' \<notin> set (node_name c d w)"
    using node_name_form [OF assms(1)] by blast
  have nm: "node_name c l i = node_name c l j \<Longrightarrow> i = j" for l i j by (simp add: n(1))
  let ?q = "\<lambda>g. (g - 1) div width c + 1" and ?r = "\<lambda>g. (g - 1) mod width c + 1"
  have eq: "g = g'" if "(g - 1) div width c = (g' - 1) div width c" "(g - 1) mod width c = (g' - 1) mod width c"
  proof -
    have "g - 1 = g' - 1" using that by (metis div_mod_decomp)
    then show ?thesis using Suc.prems(1,2) by simp
  qed
  show ?case
  proof (cases "d = 0")
    case True
    then have "node_name c 1 (?r g) = node_name c 1 (?r g')"
      using Suc.prems(6) by (simp add: tree_path.simps [of c "Suc 0"])
    then have "(g - 1) mod width c = (g' - 1) mod width c" using nm by fastforce
    moreover have "g - 1 < width c" "g' - 1 < width c" using Suc.prems True by auto
    ultimately show ?thesis using Suc.prems(1,2) by simp
  next
    case False
    then have "tree_path c d (?q g) @ CHR ''/'' # node_name c (Suc d) (?r g)
        = tree_path c d (?q g') @ CHR ''/'' # node_name c (Suc d) (?r g')"
      using Suc.prems(6) by (simp add: tree_path.simps [of c "Suc d"])
    from last_slash [OF this n(2) n(2)]
    have p: "tree_path c d (?q g) = tree_path c d (?q g')" and r: "?r g = ?r g'" using nm by auto
    have "?q g \<le> width c ^ d" "?q g' \<le> width c ^ d"
      using Suc.prems(1,2,4,5) assms(2) by (simp_all add: div_less_iff_less_mult Suc_le_eq mult.commute)
    then have "?q g = ?q g'" using Suc.IH [of "?q g" "?q g'"] False p by simp
    with r show ?thesis using eq by simp
  qed
qed simp

lemma level_paths_distinct:
  assumes "mask_ok (dir_mask c)" and "0 < width c" and "l \<noteq> 0"
  shows "distinct (level_paths c l)"
proof -
  have "inj_on (tree_path c l) (set [1..<width c ^ l + 1])"
  proof (rule inj_onI)
    fix g g' assume "g \<in> set [1..<width c ^ l + 1]" "g' \<in> set [1..<width c ^ l + 1]"
      and "tree_path c l g = tree_path c l g'"
    moreover from this have "1 \<le> g" "g \<le> width c ^ l" "1 \<le> g'" "g' \<le> width c ^ l" by auto
    ultimately show "g = g'" using tree_path_inject [OF assms(1,2), of g g' l] assms(3) by blast
  qed
  then show ?thesis by (simp add: level_paths_def distinct_map)
qed

lemma level_paths_length: "length (level_paths c l) = width c ^ l"
  by (simp add: level_paths_def del: upt_Suc)

lemma tree_paths_Suc: "tree_paths c (Suc n) = tree_paths c n @ level_paths c (Suc n)"
  by (simp add: tree_paths_def)

lemma level_paths_slashes:
  "mask_ok (dir_mask c) \<Longrightarrow> p \<in> set (level_paths c l) \<Longrightarrow> slashes p = l - 1"
  by (auto simp: level_paths_def slashes_tree_path)

lemma tree_paths_slashes:
  "mask_ok (dir_mask c) \<Longrightarrow> p \<in> set (tree_paths c n) \<Longrightarrow> slashes p < n"
  by (auto simp: tree_paths_def dest: level_paths_slashes)

lemma tree_paths_distinct:
  assumes "mask_ok (dir_mask c)" and "0 < width c"
  shows "distinct (tree_paths c n)"
proof (induction n)
  case (Suc n)
  have "p \<notin> set (tree_paths c n)" if "p \<in> set (level_paths c (Suc n))" for p
    using level_paths_slashes [OF assms(1) that] tree_paths_slashes [OF assms(1), of p n] by auto
  then show ?case using Suc level_paths_distinct [OF assms, of "Suc n"] by (auto simp: tree_paths_Suc)
qed (simp add: tree_paths_def)

lemma tree_paths_length: "length (tree_paths c n) = dirs_up_to (width c) n"
  by (induction n) (simp_all add: tree_paths_def dirs_up_to_def level_paths_def)

subsection \<open>What generation builds\<close>

definition map_ok :: "DirectoryStructureConfig \<Rightarrow> node_map \<Rightarrow> bool" where
  "map_ok c dirs = (\<forall>l i n. hget dirs (l, i) = Some n \<longrightarrow> full_path n = tree_path c l i)"

lemma create_node_path: "map_ok c dirs \<Longrightarrow> full_path (create_node c dirs d g) = tree_path c d g"
proof (induction d arbitrary: g)
  case (Suc d)
  have "full_path n = tree_path c d ((g - 1) div width c + 1)"
    if "hget dirs (d, (g - 1) div width c + 1) = Some n" for n
    using Suc.prems that unfolding map_ok_def by blast
  with Suc show ?case
    by (simp add: create_node.simps [of c dirs "Suc d"] tree_path.simps [of c "Suc d"] Let_def split: option.split)
qed (simp add: create_node.simps [of c dirs 0] tree_path.simps [of c 0] Let_def)

lemma map_ok_put: "map_ok c dirs \<Longrightarrow> full_path n = tree_path c l i \<Longrightarrow> map_ok c (hput (l, i) n dirs)"
  by (auto simp: map_ok_def hm.get_put)

lemma generate_level_paths:
  assumes "map_ok c dirs"
  shows "map_ok c (fst (generate_level c dirs l)) \<and> snd (generate_level c dirs l) = level_paths c l"
proof -
  let ?f = "\<lambda>(m, ps) i. let n = create_node c m l i in (hput (l, i) n m, ps @ [full_path n])"
  have "map_ok c (fst (foldl ?f (dirs, ps) is)) \<and> snd (foldl ?f (dirs, ps) is) = ps @ map (tree_path c l) is"
    if "map_ok c dirs" for dirs ps "is"
    using that
    by (induction "is" arbitrary: dirs ps) (simp_all add: Let_def map_ok_put create_node_path)
  then show ?thesis using assms unfolding generate_level_def level_paths_def by simp
qed

lemma add_levels:
  "map_ok c (fst (foldl (add_level c) ([], [], []) [1..<n + 1]))
   \<and> fst (snd (foldl (add_level c) ([], [], []) [1..<n + 1])) = tree_paths c n
   \<and> hwf (snd (snd (foldl (add_level c) ([], [], []) [1..<n + 1])))
   \<and> (\<forall>l. hget (snd (snd (foldl (add_level c) ([], [], []) [1..<n + 1]))) l
        = (if l \<in> {1..n} then Some (level_paths c l) else None))"
proof (induction n)
  case 0
  then show ?case by (simp add: map_ok_def tree_paths_def)
next
  case (Suc n)
  obtain dirs ps lv where st: "foldl (add_level c) ([], [], []) [1..<n + 1] = (dirs, ps, lv)"
    by (cases "foldl (add_level c) ([], [], []) [1..<n + 1]")
  obtain dirs' new where g: "generate_level c dirs (Suc n) = (dirs', new)"
    by (cases "generate_level c dirs (Suc n)")
  have ih: "map_ok c dirs" "ps = tree_paths c n" "hwf lv"
      "\<And>l. hget lv l = (if l \<in> {1..n} then Some (level_paths c l) else None)"
    using Suc st by simp_all
  have "map_ok c dirs'" "new = level_paths c (Suc n)"
    using generate_level_paths [OF ih(1), of "Suc n"] g by simp_all
  moreover have "foldl (add_level c) ([], [], []) [1..<Suc n + 1] = (dirs', ps @ new, hput (Suc n) new lv)"
    using st g by (simp add: add_level_def)
  ultimately show ?case using ih by (auto simp: tree_paths_Suc hm.get_put hm.wf_put)
qed

lemma tree_new_fields:
  assumes "tree_new c = Inr t"
  shows "width c \<noteq> 0" "depth c \<noteq> 0" "dt_config t = c" "dt_all_paths t = tree_paths c (depth c)"
    "total_directories t = dirs_up_to (width c) (depth c)"
    "distribution c \<in> {''bottom'', ''all''}"
    "dt_total_files t = (if distribution c = ''bottom'' then width c ^ depth c
       else dirs_up_to (width c) (depth c)) * files_per_dir c"
    "hget (dt_by_level t) l = (if l \<in> {1..depth c} then Some (level_paths c l) else None)"
proof -
  obtain dirs ps lv where st: "foldl (add_level c) ([], [], []) [1..<depth c + 1] = (dirs, ps, lv)"
    by (cases "foldl (add_level c) ([], [], []) [1..<depth c + 1]")
  show "width c \<noteq> 0" "depth c \<noteq> 0" "dt_config t = c" "dt_all_paths t = tree_paths c (depth c)"
    "total_directories t = dirs_up_to (width c) (depth c)"
    "distribution c \<in> {''bottom'', ''all''}"
    "dt_total_files t = (if distribution c = ''bottom'' then width c ^ depth c
       else dirs_up_to (width c) (depth c)) * files_per_dir c"
    "hget (dt_by_level t) l = (if l \<in> {1..depth c} then Some (level_paths c l) else None)"
    using assms add_levels [of c "depth c"] unfolding tree_new_def st
    by (auto simp: Let_def split: if_splits)
qed

lemma max_level_upto:
  assumes "\<And>l. hget lv l = (if l \<in> {1..n} then Some (f l) else None)" and "n \<noteq> 0"
  shows "max_level lv = Some n"
proof -
  have "set (hkeys lv) = {1..n}" using assms(1) by (auto simp: hm.set_keys dom_def split: if_splits)
  moreover from this have "lv \<noteq> []" using assms(2) by (auto simp: hkeys_def)
  moreover have "Max {1..n} = n" using assms(2) by (intro Max_eqI) auto
  ultimately show ?thesis by (simp add: max_level_def)
qed

lemma file_ranges_from_eq:
  "0 < k \<Longrightarrow> file_ranges_from holds k g ps =
     (map (\<lambda>j. (filter holds ps ! j, g + j * k, g + (j + 1) * k)) [0..<length (filter holds ps)],
      g + length (filter holds ps) * k)"
proof (induction ps arbitrary: g)
  case (Cons p ps)
  have "map (\<lambda>j. ((p # qs) ! j, g + j * k, g + (j + 1) * k)) [0..<Suc (length qs)]
      = (p, g, g + k) # map (\<lambda>j. (qs ! j, g + k + j * k, g + k + (j + 1) * k)) [0..<length qs]" for qs :: "string list"
  proof -
    have "[0..<Suc (length qs)] = 0 # map Suc [0..<length qs]"
      unfolding map_Suc_upt by (rule upt_conv_Cons) simp
    then show ?thesis by (simp add: algebra_simps)
  qed
  from this [of "filter holds ps"] show ?case using Cons by (simp add: algebra_simps)
qed simp

lemma file_ranges_from_none: "file_ranges_from holds 0 g ps = ([], g)"
  by (induction ps) simp_all

text \<open>The directories that hold files.\<close>

definition file_dirs :: "DirectoryStructureConfig \<Rightarrow> string list" where
  "file_dirs c = (if distribution c = ''bottom'' then level_paths c (depth c) else tree_paths c (depth c))"

lemma bottom_filter:
  assumes "mask_ok (dir_mask c)" and "d \<noteq> 0"
  shows "filter (\<lambda>p. slashes p + 1 = d) (tree_paths c d) = level_paths c d"
proof -
  obtain n where d: "d = Suc n" using assms(2) by (cases d) auto
  have "filter (\<lambda>p. slashes p + 1 = d) (tree_paths c n) = []"
    using tree_paths_slashes [OF assms(1)] by (fastforce simp: filter_empty_conv d)
  moreover have "filter (\<lambda>p. slashes p + 1 = d) (level_paths c d) = level_paths c d"
    using level_paths_slashes [OF assms(1)] assms(2) by (auto intro!: filter_True)
  ultimately show ?thesis using tree_paths_Suc [of c n] d by simp
qed

lemma from_tree_fields:
  assumes "tree_new c = Inr t" and "mask_ok (dir_mask c)"
  shows "all_directories (from_tree t) = tree_paths c (depth c)"
    "tm_files_per_dir (from_tree t) = files_per_dir c"
    "tm_distribution (from_tree t) = distribution c"
    "leaf_start_index (from_tree t) = dirs_up_to (width c) (depth c - 1)"
    "file_ranges (from_tree t) = (if files_per_dir c = 0 then [] else
       map (\<lambda>j. (file_dirs c ! j, j * files_per_dir c, (j + 1) * files_per_dir c)) [0..<length (file_dirs c)])"
    "total_files (from_tree t) = length (file_dirs c) * files_per_dir c"
    "max_depth (from_tree t) = depth c" "total_dirs (from_tree t) = total_directories t"
proof -
  note f = tree_new_fields [OF assms(1)]
  have lv: "max_level (dt_by_level t) = Some (depth c)" using max_level_upto [OF f(8) f(2)] .
  let ?holds = "dir_holds_files (distribution c) (depth c)"
  have fd: "filter ?holds (tree_paths c (depth c)) = file_dirs c"
    using bottom_filter [OF assms(2) f(2)] f(6) unfolding dir_holds_files_def by (auto simp: file_dirs_def)
  have r: "file_ranges_from ?holds (files_per_dir c) 0 (tree_paths c (depth c)) =
      (if files_per_dir c = 0 then [] else
       map (\<lambda>j. (file_dirs c ! j, j * files_per_dir c, (j + 1) * files_per_dir c)) [0..<length (file_dirs c)],
       length (file_dirs c) * files_per_dir c)"
    using file_ranges_from_eq [of "files_per_dir c" ?holds 0 "tree_paths c (depth c)"] file_ranges_from_none [of ?holds 0]
    unfolding fd by (cases "files_per_dir c = 0") simp_all
  have ls: "sum_list (map (\<lambda>l. case hget (dt_by_level t) l of Some ps \<Rightarrow> length ps | None \<Rightarrow> 0) [1..<depth c])
      = dirs_up_to (width c) (depth c - 1)"
  proof -
    have eq: "map (\<lambda>l. case hget (dt_by_level t) l of Some ps \<Rightarrow> length ps | None \<Rightarrow> 0) [1..<depth c]
        = map (\<lambda>l. width c ^ l) [1..<depth c]"
      using f(8) by (auto simp: level_paths_length simp del: upt_Suc)
    show ?thesis unfolding eq using f(2) by (simp add: dirs_up_to_def)
  qed
  show "all_directories (from_tree t) = tree_paths c (depth c)"
    "tm_files_per_dir (from_tree t) = files_per_dir c"
    "tm_distribution (from_tree t) = distribution c"
    "leaf_start_index (from_tree t) = dirs_up_to (width c) (depth c - 1)"
    "file_ranges (from_tree t) = (if files_per_dir c = 0 then [] else
       map (\<lambda>j. (file_dirs c ! j, j * files_per_dir c, (j + 1) * files_per_dir c)) [0..<length (file_dirs c)])"
    "total_files (from_tree t) = length (file_dirs c) * files_per_dir c"
    "max_depth (from_tree t) = depth c" "total_dirs (from_tree t) = total_directories t"
    using r ls lv f by (simp_all add: from_tree_def compute_file_ranges_def Let_def)
qed

lemma file_dirs_nth:
  assumes "tree_new c = Inr t" and "mask_ok (dir_mask c)" and "i < total_files (from_tree t)"
  shows "i div files_per_dir c < length (file_dirs c)"
    and "get_file_path (from_tree t) i = Some (file_dirs c ! (i div files_per_dir c) @ ''/'' @ get_file_name i)"
proof -
  note f = tree_new_fields [OF assms(1)] and m = from_tree_fields [OF assms(1,2)]
  have k: "0 < files_per_dir c" using assms(3) m(6) by (cases "files_per_dir c") auto
  show lt: "i div files_per_dir c < length (file_dirs c)"
    using assms(3) m(6) k by (simp add: div_less_iff_less_mult)
  obtain d where d: "depth c = Suc d" using f(2) by (cases "depth c") auto
  have len: "length (tree_paths c d) = dirs_up_to (width c) d" by (rule tree_paths_length)
  have "nth_path (from_tree t) (leaf_start_index (from_tree t) + j) = Some (level_paths c (depth c) ! j)"
    if "j < length (level_paths c (depth c))" for j
    using that m(1,4) d len by (simp add: nth_path_def tree_paths_Suc nth_append)
  moreover have "nth_path (from_tree t) j = Some (tree_paths c (depth c) ! j)"
    if "j < length (tree_paths c (depth c))" for j
    using that m(1) by (simp add: nth_path_def)
  ultimately show "get_file_path (from_tree t) i = Some (file_dirs c ! (i div files_per_dir c) @ ''/'' @ get_file_name i)"
    using assms(3) m f(6) k lt by (auto simp: get_file_path_def file_dirs_def not_le split: if_splits)
qed

lemma file_name_no_slash: "CHR ''/'' \<notin> set (get_file_name i)"
  using show_nat_chars by (simp add: get_file_name_def show_padded_def)

lemma get_file_name_inject: "get_file_name i = get_file_name j \<longleftrightarrow> i = j"
  by (simp add: get_file_name_def)

lemma file_dirs_distinct:
  "tree_new c = Inr t \<Longrightarrow> mask_ok (dir_mask c) \<Longrightarrow> distinct (file_dirs c) \<and> set (file_dirs c) \<subseteq> set (tree_paths c (depth c))"
  using tree_new_fields(1,2) [of c t] level_paths_distinct [of c "depth c"] tree_paths_distinct [of c "depth c"]
  by (cases "depth c") (auto simp: file_dirs_def tree_paths_Suc)

lemma find_distinct:
  "distinct (map f xs) \<Longrightarrow> i < length xs \<Longrightarrow> find (\<lambda>x. f x = f (xs ! i)) xs = Some (xs ! i)"
proof (induction xs arbitrary: i)
  case (Cons x xs)
  show ?case
  proof (cases i)
    case (Suc j)
    then have "f (xs ! j) \<in> f ` set xs" using Cons.prems(2) by simp
    then show ?thesis using Cons Suc by auto
  qed simp
qed simp

subsection \<open>Properties\<close>

text \<open>
  C14: With a documented mask, the paths of a generated tree are pairwise different, there are
  as many as the announced sum of the levels, and the manifest carries exactly these paths.
\<close>

theorem tree_paths_unique:
  assumes "tree_new c = Inr t" and "mask_ok (dir_mask c)"
  shows "distinct (dt_all_paths t) \<and> length (dt_all_paths t) = total_directories t
    \<and> total_directories t = (\<Sum>l = 1..depth c. width c ^ l)
    \<and> all_directories (from_tree t) = dt_all_paths t"
proof -
  note f = tree_new_fields [OF assms(1)]
  have "dirs_up_to w n = (\<Sum>l = 1..n. w ^ l)" for w n by (induction n) (simp_all add: dirs_up_to_def)
  then show ?thesis
    using f tree_paths_distinct [OF assms(2), of "depth c"] tree_paths_length [of c "depth c"]
      from_tree_fields(1) [OF assms]
    by simp
qed

text \<open>
  C12: The constant-time map from file numbers to paths agrees with the table of file ranges: every
  file number below the manifest's total has a path, in the directory whose range contains it, no
  two files share a path, and the manifest's total is the tree's.
\<close>

theorem file_paths_agree_with_ranges:
  assumes "tree_new c = Inr t" and "mask_ok (dir_mask c)" and "m = from_tree t"
  shows "total_files m = dt_total_files t
    \<and> (\<forall>i. (i < total_files m) = (get_file_path m i \<noteq> None))
    \<and> (\<forall>i. i < total_files m \<longrightarrow> (\<exists>p a b. get_file_path m i = Some (p @ ''/'' @ get_file_name i)
         \<and> get_file_range m p = Some (a, b) \<and> a \<le> i \<and> i < b))
    \<and> inj_on (get_file_path m) {i. i < total_files m}"
proof -
  note f = tree_new_fields [OF assms(1)] and g = from_tree_fields [OF assms(1,2), folded assms(3)]
    and n = file_dirs_nth [OF assms(1,2), folded assms(3)]
  let ?k = "files_per_dir c"
  have "length (file_dirs c) = (if distribution c = ''bottom'' then width c ^ depth c
       else dirs_up_to (width c) (depth c))"
    by (simp add: file_dirs_def level_paths_length tree_paths_length)
  then have tot: "total_files m = dt_total_files t" using g(6) f(7) by simp
  have path: "(i < total_files m) = (get_file_path m i \<noteq> None)" for i
    using n(2) [of i] by (cases "i < total_files m") (auto simp: get_file_path_def)
  have range: "\<exists>p a b. get_file_path m i = Some (p @ ''/'' @ get_file_name i)
         \<and> get_file_range m p = Some (a, b) \<and> a \<le> i \<and> i < b" if i: "i < total_files m" for i
  proof -
    have k: "0 < ?k" using i g(6) by (cases ?k) auto
    let ?j = "i div ?k"
    have "map fst (file_ranges m) = file_dirs c"
      using g(5) k by (simp add: comp_def map_nth)
    moreover have "?j < length (file_ranges m)" "file_ranges m ! ?j = (file_dirs c ! ?j, ?j * ?k, (?j + 1) * ?k)"
      using g(5) k n(1) [OF i] by simp_all
    ultimately have "get_file_range m (file_dirs c ! ?j) = Some (?j * ?k, (?j + 1) * ?k)"
      using find_distinct [of fst "file_ranges m" ?j] file_dirs_distinct [OF assms(1,2)]
      by (simp add: get_file_range_def)
    moreover have "?j * ?k \<le> i" "i < (?j + 1) * ?k"
      using k by (simp_all add: div_times_less_eq_dividend dividend_less_div_times)
    ultimately show ?thesis using n(2) [OF i] by blast
  qed
  have "inj_on (get_file_path m) {i. i < total_files m}"
  proof (rule inj_onI)
    fix i j assume ij: "i \<in> {i. i < total_files m}" "j \<in> {i. i < total_files m}"
      and eq: "get_file_path m i = get_file_path m j"
    then have "file_dirs c ! (i div ?k) @ CHR ''/'' # get_file_name i
        = file_dirs c ! (j div ?k) @ CHR ''/'' # get_file_name j"
      using n(2) [of i] n(2) [of j] by simp
    from last_slash [OF this file_name_no_slash file_name_no_slash] show "i = j"
      by (simp add: get_file_name_inject)
  qed
  then show ?thesis using tot path range by blast
qed

definition sample_tree_config :: DirectoryStructureConfig where
  "sample_tree_config =
     \<lparr> width = 2, depth = 2, files_per_dir = 2, distribution = ''bottom'', dir_mask = ''d%d_w%d'' \<rparr>"

definition sample_tree :: DirectoryTree where
  "sample_tree = (case tree_new sample_tree_config of Inr t \<Rightarrow> t)"

lemma sample_tree_new: "tree_new sample_tree_config = Inr sample_tree"
  by (simp add: sample_tree_def sample_tree_config_def tree_new_def split: prod.split)

lemma sample_mask_ok: "mask_ok (dir_mask sample_tree_config)"
  unfolding mask_ok_def sample_tree_config_def
  by (rule exI [of _ "''d''"], rule exI [of _ "''_w''"], rule exI [of _ "[]"]) simp

lemma tree_paths_unique_witness:
  "distinct (dt_all_paths sample_tree) \<and> length (dt_all_paths sample_tree) = 6"
  using tree_paths_unique [OF sample_tree_new sample_mask_ok]
  by (simp add: sample_tree_config_def numeral_2_eq_2)

lemma file_paths_agree_with_ranges_witness:
  "get_file_path (from_tree sample_tree) 3 \<noteq> None"
proof -
  have "dt_total_files sample_tree = 8"
    using tree_new_fields(7) [OF sample_tree_new] by (simp add: sample_tree_config_def)
  then show ?thesis
    using file_paths_agree_with_ranges [OF sample_tree_new sample_mask_ok refl] by (metis less_numeral_extra(3) numeral_less_iff semiring_norm(76) semiring_norm(81))
qed

lemma map_filter_concat: "List.map_filter f (concat xss) = concat (map (List.map_filter f) xss)"
  by (induction xss) (simp_all add: List.map_filter_def)

lemma mset_map_filter_cong: "mset xs = mset ys \<Longrightarrow> mset (List.map_filter f xs) = mset (List.map_filter f ys)"
  by (simp add: List.map_filter_def mset_filter)

lemma get_agent_file_indices_eq:
  "a < n \<Longrightarrow> get_agent_file_indices m a n = filter (\<lambda>i. assigned_agent n i = a) [0..<total_files m]"
  by (cases "n = 1") (auto simp: get_agent_file_indices_def assigned_agent_def)

lemma agent_files_shared:
  assumes "0 < n"
  shows "mset (concat (map (\<lambda>a. get_agent_file_paths m a n) [0..<n]))
      = mset (List.map_filter (get_file_path m) [0..<total_files m])"
proof -
  let ?f = "get_file_path m" and ?part = "\<lambda>a. filter (\<lambda>i. assigned_agent n i = a) [0..<total_files m]"
  have "concat (map (\<lambda>a. get_agent_file_paths m a n) [0..<n])
      = concat (map (List.map_filter ?f) (map ?part [0..<n]))"
    by (intro arg_cong [where f = concat]) (simp add: get_agent_file_paths_def get_agent_file_indices_eq)
  also have "\<dots> = List.map_filter ?f (concat (map ?part [0..<n]))" by (simp only: map_filter_concat)
  finally show ?thesis
    using mset_map_filter_cong [OF agent_shard.shards_mset [OF assms, of "[0..<total_files m]"]] by metis
qed

lemma assign_dirs:
  "hget (foldl (assign_dir n) mp ips) a =
     (let new = map snd (filter (\<lambda>ip. fst ip mod n = a) ips)
      in case hget mp a of Some l \<Rightarrow> Some (l @ new) | None \<Rightarrow> if new = [] then None else Some new)"
proof (induction ips arbitrary: mp)
  case (Cons ip ips)
  then show ?case by (auto simp: assign_dir_def Let_def hm.get_put split: option.split)
qed (simp split: option.split)

lemma get_agent_dirs_eq:
  "0 < n \<Longrightarrow> get_agent_dirs (assign_agents n m) a =
     map (\<lambda>i. all_directories m ! i) (filter (\<lambda>i. assigned_agent n i = a) [0..<length (all_directories m)])"
proof -
  assume n: "0 < n"
  have "zip [0..<length ds] ds = map (\<lambda>i. (i, ds ! i)) [0..<length ds]" for ds :: "string list"
    by (rule nth_equalityI) simp_all
  then show ?thesis
    using n by (simp add: get_agent_dirs_def assign_agents_def assign_dirs Let_def filter_map comp_def assigned_agent_def)
qed

lemma agent_dirs_shared:
  assumes "0 < n"
  shows "mset (concat (map (get_agent_dirs (assign_agents n m)) [0..<n])) = mset (all_directories m)"
proof -
  let ?ds = "all_directories m"
  let ?part = "\<lambda>a. filter (\<lambda>i. assigned_agent n i = a) [0..<length ?ds]"
  have "get_agent_dirs (assign_agents n m) = (\<lambda>a. map ((!) ?ds) (?part a))"
    using get_agent_dirs_eq [OF assms] by (rule ext)
  then have "concat (map (get_agent_dirs (assign_agents n m)) [0..<n]) = map ((!) ?ds) (concat (map ?part [0..<n]))"
    by (simp only: map_concat map_map comp_def)
  then have "mset (concat (map (get_agent_dirs (assign_agents n m)) [0..<n])) = image_mset ((!) ?ds) (mset [0..<length ?ds])"
    using agent_shard.shards_mset [OF assms, of "[0..<length ?ds]"] by simp
  also have "\<dots> = mset (map ((!) ?ds) [0..<length ?ds])" by simp
  finally show ?thesis by (simp only: map_nth)
qed

text \<open>
  C13: The files and the directories of a manifest are shared out without loss or overlap: the paths
  the \<open>n\<close> agents take are together exactly those of all files, likewise for the directories of
  \<open>assign_agents\<close>, and the agents' numbers of files differ by at most one.
\<close>

theorem agents_share_out_tree:
  assumes "0 < n" and "a < n"
  shows "mset (concat (map (\<lambda>a. get_agent_file_paths m a n) [0..<n]))
      = mset (List.map_filter (get_file_path m) [0..<total_files m])
    \<and> mset (concat (map (get_agent_dirs (assign_agents n m)) [0..<n])) = mset (all_directories m)
    \<and> length (get_agent_file_indices m a n)
      = total_files m div n + (if a < total_files m mod n then 1 else 0)"
  using agent_files_shared [OF assms(1)] agent_dirs_shared [OF assms(1)]
    agent_shard.shard_size [OF assms] get_agent_file_indices_eq [OF assms(2)]
  by simp

lemma agents_share_out_tree_witness:
  "mset (concat (map (get_agent_dirs (assign_agents 4 (from_tree sample_tree))) [0..<4]))
    = mset (all_directories (from_tree sample_tree))"
  using agents_share_out_tree [of 4 0 "from_tree sample_tree"] by simp

end
