(* ===== verification/Error_Handling.thy ===== *)
theory Error_Handling
  imports Interfaces
begin

text \<open>
  Error handling: the trackers of the prepare and listing phases
  (\<open>src/prepare/error_tracking.rs\<close>), the workload's tracker with its rate window, the retry loops
  with exponential back-off (\<open>src/workload.rs\<close>) and the deferred retries of the prepare phase
  (\<open>src/prepare/retry.rs\<close>). An operation is the function from the attempt number to its outcome,
  the jitter a function from the attempt number to a factor; a loop also returns the delays it
  slept, in milliseconds. Floating point is exact rationals, instants are integers in seconds.
\<close>

subsection \<open>The interface of a counting tracker\<close>

fun tracker_after :: "('t \<Rightarrow> 't) \<Rightarrow> ('e \<Rightarrow> 't \<Rightarrow> (bool \<times> nat \<times> nat) \<times> 't) \<Rightarrow> 'e option list \<Rightarrow> 't \<Rightarrow> 't" where
  "tracker_after ok err [] t = t"
| "tracker_after ok err (None # es) t = tracker_after ok err es (ok t)"
| "tracker_after ok err (Some e # es) t = tracker_after ok err es (snd (err e t))"

definition errors_in :: "'e option list \<Rightarrow> nat" where
  "errors_in es = length (filter (\<lambda>e. e \<noteq> None) es)"

definition streak :: "'e option list \<Rightarrow> nat" where
  "streak es = length (takeWhile (\<lambda>e. e \<noteq> None) (rev es))"

locale counting_tracker =
  fixes ok :: "'t \<Rightarrow> 't"
    and err :: "'e \<Rightarrow> 't \<Rightarrow> (bool \<times> nat \<times> nat) \<times> 't"
    and errs :: "'t \<Rightarrow> nat"
    and consec :: "'t \<Rightarrow> nat"
    and limits :: "'t \<Rightarrow> nat \<times> nat"
  assumes ok_counts: "errs (ok t) = errs t" "consec (ok t) = 0" "limits (ok t) = limits t"
    and err_counts: "errs (snd (err e t)) = errs t + 1" "consec (snd (err e t)) = consec t + 1"
      "limits (snd (err e t)) = limits t"
    and err_answer: "fst (err e t) =
      (fst (limits t) \<le> errs t + 1 \<or> snd (limits t) \<le> consec t + 1, errs t + 1, consec t + 1)"
begin

lemma after_append: "tracker_after ok err (es @ fs) t = tracker_after ok err fs (tracker_after ok err es t)"
  by (induction ok err es t rule: tracker_after.induct) simp_all

lemma after_counts:
  assumes "errs t = 0" and "consec t = 0"
  shows "errs (tracker_after ok err es t) = errors_in es
    \<and> consec (tracker_after ok err es t) = streak es
    \<and> limits (tracker_after ok err es t) = limits t"
  using assms
proof (induction es rule: rev_induct)
  case (snoc e es)
  then show ?case
    by (cases e) (simp_all add: after_append ok_counts err_counts errors_in_def streak_def)
qed (simp add: errors_in_def streak_def)

lemma abort_iff:
  assumes "errs t = 0" and "consec t = 0"
  shows "fst (err e (tracker_after ok err es t)) =
    (fst (limits t) \<le> errors_in (es @ [Some e]) \<or> snd (limits t) \<le> streak (es @ [Some e]),
     errors_in (es @ [Some e]), streak (es @ [Some e]))"
  using after_counts [OF assms, of es] by (simp add: err_answer errors_in_def streak_def)

end

subsection \<open>Prepare and listing\<close>

record PrepareFailure =
  pf_uri :: string
  pf_size :: nat
  pf_error :: string

record PrepareErrorTracker =
  pt_total :: nat
  pt_consecutive :: nat
  pt_max_total :: nat
  pt_max_consecutive :: nat
  failed_objects :: "PrepareFailure list"

definition prepare_tracker_new :: "nat \<Rightarrow> nat \<Rightarrow> PrepareErrorTracker" where
  "prepare_tracker_new max_total max_consecutive =
     \<lparr> pt_total = 0, pt_consecutive = 0, pt_max_total = max_total, pt_max_consecutive = max_consecutive,
       failed_objects = [] \<rparr>"

definition prepare_success :: "PrepareErrorTracker \<Rightarrow> PrepareErrorTracker" where
  "prepare_success t = t\<lparr>pt_consecutive := 0\<rparr>"

definition prepare_error ::
  "PrepareFailure \<Rightarrow> PrepareErrorTracker \<Rightarrow> (bool \<times> nat \<times> nat) \<times> PrepareErrorTracker" where
  "prepare_error f t =
     (let total_now = pt_total t + 1; consecutive = pt_consecutive t + 1
      in ((pt_max_total t \<le> total_now \<or> pt_max_consecutive t \<le> consecutive, total_now, consecutive),
          t\<lparr>pt_total := total_now, pt_consecutive := consecutive, failed_objects := failed_objects t @ [f]\<rparr>))"

record ListingErrorTracker =
  lt_total :: nat
  lt_consecutive :: nat
  lt_max_total :: nat
  lt_max_consecutive :: nat
  error_messages :: "string list"

definition listing_tracker_new :: "nat \<Rightarrow> nat \<Rightarrow> ListingErrorTracker" where
  "listing_tracker_new max_total max_consecutive =
     \<lparr> lt_total = 0, lt_consecutive = 0, lt_max_total = max_total, lt_max_consecutive = max_consecutive,
       error_messages = [] \<rparr>"

definition listing_success :: "ListingErrorTracker \<Rightarrow> ListingErrorTracker" where
  "listing_success t = t\<lparr>lt_consecutive := 0\<rparr>"

definition listing_error ::
  "string \<Rightarrow> ListingErrorTracker \<Rightarrow> (bool \<times> nat \<times> nat) \<times> ListingErrorTracker" where
  "listing_error msg t =
     (let total_now = lt_total t + 1; consecutive = lt_consecutive t + 1
      in ((lt_max_total t \<le> total_now \<or> lt_max_consecutive t \<le> consecutive, total_now, consecutive),
          t\<lparr>lt_total := total_now, lt_consecutive := consecutive,
            error_messages := (if length (error_messages t) < 20 then error_messages t @ [msg] else error_messages t)\<rparr>))"

interpretation prep: counting_tracker prepare_success prepare_error pt_total pt_consecutive
    "\<lambda>t. (pt_max_total t, pt_max_consecutive t)"
  by unfold_locales (simp_all add: prepare_success_def prepare_error_def Let_def)

interpretation lst: counting_tracker listing_success listing_error lt_total lt_consecutive
    "\<lambda>t. (lt_max_total t, lt_max_consecutive t)"
  by unfold_locales (simp_all add: listing_success_def listing_error_def Let_def)

subsection \<open>The workload's tracker\<close>

record ErrorHandlingConfig =
  max_total_errors :: nat
  error_rate_threshold :: rat
  backoff_duration :: nat
  error_rate_window :: rat
  retry_on_error :: bool
  max_retries :: nat
  initial_retry_delay_ms :: nat
  max_retry_delay_ms :: nat
  retry_backoff_multiplier :: rat
  retry_jitter_factor :: rat

record ErrorTracker =
  et_total :: nat
  recent_errors :: "rat list"
  et_config :: ErrorHandlingConfig

definition error_tracker_new :: "ErrorHandlingConfig \<Rightarrow> ErrorTracker" where
  "error_tracker_new cfg = \<lparr> et_total = 0, recent_errors = [], et_config = cfg \<rparr>"

text \<open>\<open>record_error\<close> at instant \<open>now\<close>: back off, abort, total, errors per second.\<close>

definition record_error :: "rat \<Rightarrow> ErrorTracker \<Rightarrow> (bool \<times> bool \<times> nat \<times> rat) \<times> ErrorTracker" where
  "record_error now t =
     (let c = et_config t;
          total_now = et_total t + 1;
          recent = filter (\<lambda>e. now - error_rate_window c \<le> e) (recent_errors t @ [now]);
          rate = of_nat (length recent) / error_rate_window c
      in ((error_rate_threshold c \<le> rate, max_total_errors c \<le> total_now, total_now, rate),
          t\<lparr>et_total := total_now, recent_errors := recent\<rparr>))"

definition error_stats :: "rat \<Rightarrow> ErrorTracker \<Rightarrow> (nat \<times> rat) \<times> ErrorTracker" where
  "error_stats now t =
     (let recent = filter (\<lambda>e. now - error_rate_window (et_config t) \<le> e) (recent_errors t)
      in ((et_total t, of_nat (length recent) / error_rate_window (et_config t)), t\<lparr>recent_errors := recent\<rparr>))"

subsection \<open>Retries\<close>

record RetryConfig =
  rc_max_retries :: nat
  rc_initial_delay_ms :: nat
  rc_max_delay_ms :: nat
  rc_multiplier :: rat
  rc_jitter :: rat

definition retry_config_of :: "ErrorHandlingConfig \<Rightarrow> RetryConfig" where
  "retry_config_of c =
     \<lparr> rc_max_retries = max_retries c, rc_initial_delay_ms = initial_retry_delay_ms c,
       rc_max_delay_ms = max_retry_delay_ms c, rc_multiplier = retry_backoff_multiplier c,
       rc_jitter = retry_jitter_factor c \<rparr>"

text \<open>\<open>max_retries + 1\<close> on a \<open>u32\<close>.\<close>

definition attempts_of :: "nat \<Rightarrow> nat" where "attempts_of retries = (retries + 1) mod 2 ^ 32"

text \<open>The delay slept, with its jitter (a negative one casts to 0), and the delay of the next round.\<close>

definition jittered :: "nat \<Rightarrow> rat \<Rightarrow> rat \<Rightarrow> nat" where
  "jittered max_ms delay jitter = nat \<lfloor>min (delay * jitter) (of_nat max_ms)\<rfloor>"

definition next_delay :: "nat \<Rightarrow> rat \<Rightarrow> rat \<Rightarrow> rat" where
  "next_delay max_ms multiplier delay = min (delay * multiplier) (of_nat max_ms)"

function retry_loop ::
  "RetryConfig \<Rightarrow> (nat \<Rightarrow> 'e + 'a) \<Rightarrow> (nat \<Rightarrow> rat) \<Rightarrow> nat \<Rightarrow> rat \<Rightarrow> nat \<Rightarrow> nat list \<Rightarrow> ('e option + 'a) \<times> nat list" where
  "retry_loop c op jit n delay k slept =
     (if n < k then (Inl None, slept)
      else case op k of
        Inr x \<Rightarrow> (Inr x, slept)
      | Inl e \<Rightarrow>
          (if k = n then (Inl (Some e), slept)
           else retry_loop c op jit n (next_delay (rc_max_delay_ms c) (rc_multiplier c) delay) (k + 1)
                  (slept @ [jittered (rc_max_delay_ms c) delay (jit k)])))"
  by pat_completeness auto
termination by (relation "measure (\<lambda>(c, op, jit, n, delay, k, slept). Suc n - k)") auto

declare retry_loop.simps [simp del]

definition retry_with_backoff ::
  "RetryConfig \<Rightarrow> (nat \<Rightarrow> 'e + 'a) \<Rightarrow> (nat \<Rightarrow> rat) \<Rightarrow> ('e option + 'a) \<times> nat list" where
  "retry_with_backoff c op jit =
     retry_loop c op jit (attempts_of (rc_max_retries c)) (of_nat (rc_initial_delay_ms c)) 1 []"

text \<open>
  \<open>execute_with_error_handling\<close>: \<open>Inl\<close> the total at which the workload is aborted, \<open>Inr None\<close> a
  skipped operation. \<open>clock\<close> gives the instant at which an attempt's error is recorded.
\<close>

function handling_loop ::
  "(nat \<Rightarrow> 'e + 'a) \<Rightarrow> (nat \<Rightarrow> rat) \<Rightarrow> (nat \<Rightarrow> rat) \<Rightarrow> nat \<Rightarrow> rat \<Rightarrow> nat \<Rightarrow> ErrorTracker \<Rightarrow> nat list
    \<Rightarrow> (nat + 'a option) \<times> ErrorTracker \<times> nat list" where
  "handling_loop op clock jit n delay k t slept =
     (if n < k then (Inr None, t, slept)
      else case op k of
        Inr x \<Rightarrow> (Inr (Some x), t, slept)
      | Inl e \<Rightarrow>
          (let c = et_config t;
               ((backoff, abort, total_now, rate), t') = record_error (clock k) t
           in if abort then (Inl total_now, t', slept)
              else
                (let slept1 = (if backoff then slept @ [as_millis (backoff_duration c)] else slept)
                 in if k = n then (Inr None, t', slept1)
                    else handling_loop op clock jit n
                           (next_delay (max_retry_delay_ms c) (retry_backoff_multiplier c) delay) (k + 1) t'
                           (slept1 @ [jittered (max_retry_delay_ms c) delay (jit k)]))))"
  by pat_completeness auto
termination
  by (relation "measure (\<lambda>(op, clock, jit, n, delay, k, t, slept). Suc n - k)") auto

declare handling_loop.simps [simp del]

definition execute_with_error_handling ::
  "(nat \<Rightarrow> 'e + 'a) \<Rightarrow> (nat \<Rightarrow> rat) \<Rightarrow> (nat \<Rightarrow> rat) \<Rightarrow> ErrorTracker \<Rightarrow> (nat + 'a option) \<times> ErrorTracker \<times> nat list" where
  "execute_with_error_handling op clock jit t =
     (let c = et_config t
      in handling_loop op clock jit (if retry_on_error c then attempts_of (max_retries c) else 1)
           (of_nat (initial_retry_delay_ms c)) 1 t [])"

subsection \<open>Deferred retries\<close>

definition determine_retry_strategy :: "nat \<Rightarrow> nat \<Rightarrow> bool \<times> nat" where
  "determine_retry_strategy failed_count attempted =
     (if attempted = 0 then (False, 0)
      else
        (let rate = (of_nat failed_count / of_nat attempted) * 100 :: rat
         in if 80 < rate then (False, 0) else if 20 \<le> rate then (True, 3) else (True, 10)))"

definition store_uri :: "string \<Rightarrow> string" where
  "store_uri uri =
     (if CHR ''/'' \<in> set uri then rev (dropWhile (\<lambda>ch. ch \<noteq> CHR ''/'') (rev uri)) else uri)"

definition store_for :: "(string, 's) hmap \<Rightarrow> string \<Rightarrow> 's option" where
  "store_for stores uri =
     (case hget stores (store_uri uri) of
        Some s \<Rightarrow> Some s
      | None \<Rightarrow> map_option snd (find (\<lambda>(u, s). starts_with uri u) stores))"

definition deferred_config :: "nat \<Rightarrow> RetryConfig" where
  "deferred_config retries =
     \<lparr> rc_max_retries = retries, rc_initial_delay_ms = 500, rc_max_delay_ms = 30000,
       rc_multiplier = 2, rc_jitter = 3 / 10 \<rparr>"

definition retry_object ::
  "(string, 's) hmap \<Rightarrow> ('s \<Rightarrow> string \<Rightarrow> nat \<Rightarrow> string + unit) \<Rightarrow> (nat \<Rightarrow> rat) \<Rightarrow> nat \<Rightarrow> PrepareFailure
    \<Rightarrow> string \<times> string + string \<times> nat" where
  "retry_object stores put jit retries f =
     (case store_for stores (pf_uri f) of
        None \<Rightarrow> Inl (pf_uri f, ''Store not found in cache for URI: '' @ pf_uri f)
      | Some s \<Rightarrow>
          (case fst (retry_with_backoff (deferred_config retries) (put s (pf_uri f)) jit) of
             Inr _ \<Rightarrow> Inr (pf_uri f, pf_size f)
           | Inl e \<Rightarrow> Inl (pf_uri f, case e of Some m \<Rightarrow> m | None \<Rightarrow> ''Unknown error in retry'')))"

text \<open>The results in the order the tasks complete, here the order of \<open>failures\<close>.\<close>

definition retry_failed_objects ::
  "(string, 's) hmap \<Rightarrow> ('s \<Rightarrow> string \<Rightarrow> nat \<Rightarrow> string + unit) \<Rightarrow> (nat \<Rightarrow> rat) \<Rightarrow> PrepareFailure list \<Rightarrow> nat
    \<Rightarrow> (string \<times> nat) list \<times> (string \<times> string) list" where
  "retry_failed_objects stores put jit failures attempted =
     (if failures = [] then ([], [])
      else
        (let (should_retry, retries) = determine_retry_strategy (length failures) attempted
         in if \<not> should_retry
            then ([], map (\<lambda>f. (pf_uri f, ''Skipped retry due to high failure rate: '' @ pf_error f)) failures)
            else
              (let rs = map (retry_object stores put jit retries) failures
               in (List.map_filter (\<lambda>r. case r of Inr x \<Rightarrow> Some x | Inl _ \<Rightarrow> None) rs,
                   List.map_filter (\<lambda>r. case r of Inl x \<Rightarrow> Some x | Inr _ \<Rightarrow> None) rs))))"

subsection \<open>Facts about the loops\<close>

lemma jittered_le: "jittered m d j \<le> m"
proof -
  have "min (d * j) (of_nat m) \<le> (of_nat m :: rat)" by (rule min.cobounded2)
  then have "\<lfloor>min (d * j) (of_nat m)\<rfloor> \<le> int m" by (metis floor_mono floor_of_nat)
  then show ?thesis by (simp add: jittered_def)
qed

lemma retry_loop_slept:
  "\<exists>more. snd (retry_loop c op jit n delay k slept) = slept @ more
     \<and> list_all (\<lambda>d. d \<le> rc_max_delay_ms c) more \<and> length more \<le> n - k"
proof (induction c op jit n delay k slept rule: retry_loop.induct)
  case (1 c op jit n delay k slept)
  show ?case
  proof (cases "n < k \<or> is_ok (op k) \<or> k = n")
    case True
    then show ?thesis by (auto simp: retry_loop.simps [of c op jit n delay k slept] split: sum.split)
  next
    case False
    then obtain e where e: "op k = Inl e" by (cases "op k") auto
    let ?d = "jittered (rc_max_delay_ms c) delay (jit k)"
    obtain more where "snd (retry_loop c op jit n (next_delay (rc_max_delay_ms c) (rc_multiplier c) delay)
          (k + 1) (slept @ [?d])) = (slept @ [?d]) @ more"
        "list_all (\<lambda>d. d \<le> rc_max_delay_ms c) more" "length more \<le> n - (k + 1)"
      using 1 [OF _ e] False by auto
    moreover from this False have "Suc (length more) \<le> n - k" by linarith
    ultimately show ?thesis
      using False e by (intro exI [of _ "?d # more"])
        (simp add: retry_loop.simps [of c op jit n delay k slept] jittered_le)
  qed
qed

lemma retry_loop_result:
  "k \<le> n \<Longrightarrow>
     (fst (retry_loop c op jit n delay k slept) = Inr x)
       = (\<exists>j. k \<le> j \<and> j \<le> n \<and> op j = Inr x \<and> list_all (\<lambda>i. \<not> is_ok (op i)) [k..<j])
     \<and> (fst (retry_loop c op jit n delay k slept) = Inl e)
       = (list_all (\<lambda>i. \<not> is_ok (op i)) [k..<n] \<and> (\<exists>m. op n = Inl m \<and> e = Some m))"
proof (induction c op jit n delay k slept rule: retry_loop.induct)
  case (1 c op jit n delay k slept)
  show ?case
  proof (cases "op k")
    case (Inr y)
    have "(\<exists>j. k \<le> j \<and> j \<le> n \<and> op j = Inr x \<and> list_all (\<lambda>i. \<not> is_ok (op i)) [k..<j]) = (y = x)"
    proof
      assume "\<exists>j. k \<le> j \<and> j \<le> n \<and> op j = Inr x \<and> list_all (\<lambda>i. \<not> is_ok (op i)) [k..<j]"
      then obtain j where j: "k \<le> j" "op j = Inr x" "list_all (\<lambda>i. \<not> is_ok (op i)) [k..<j]" by blast
      then have "j = k" using Inr by (cases "j = k") (auto simp: upt_conv_Cons)
      then show "y = x" using j Inr by simp
    next
      assume "y = x"
      then show "\<exists>j. k \<le> j \<and> j \<le> n \<and> op j = Inr x \<and> list_all (\<lambda>i. \<not> is_ok (op i)) [k..<j]"
        using Inr 1(2) by (intro exI [of _ k]) simp
    qed
    moreover have "\<not> (list_all (\<lambda>i. \<not> is_ok (op i)) [k..<n] \<and> (\<exists>m. op n = Inl m \<and> e = Some m))"
      using Inr 1(2) by (cases "k = n") (auto simp: upt_conv_Cons)
    ultimately show ?thesis
      using 1(2) Inr by (simp add: retry_loop.simps [of c op jit n delay k slept])
  next
    case (Inl m)
    show ?thesis
    proof (cases "k = n")
      case True
      then show ?thesis using Inl by (auto simp: retry_loop.simps [of c op jit n delay n slept])
    next
      case False
      have l: "list_all (\<lambda>i. \<not> is_ok (op i)) [k..<j] = list_all (\<lambda>i. \<not> is_ok (op i)) [Suc k..<j]"
        if "k < j" for j
        using that Inl by (simp add: upt_conv_Cons)
      have ex: "(\<exists>j. k \<le> j \<and> j \<le> n \<and> op j = Inr x \<and> list_all (\<lambda>i. \<not> is_ok (op i)) [k..<j])
          = (\<exists>j. Suc k \<le> j \<and> j \<le> n \<and> op j = Inr x \<and> list_all (\<lambda>i. \<not> is_ok (op i)) [Suc k..<j])"
        using l Inl by (metis Suc_le_eq Suc_leD le_neq_implies_less sum.distinct(1))
      show ?thesis
        using 1 False Inl l [of n] ex by (simp add: retry_loop.simps [of c op jit n delay k slept])
    qed
  qed
qed

lemma record_error_facts:
  "et_total (snd (record_error now t)) = et_total t + 1"
  "et_config (snd (record_error now t)) = et_config t"
  "fst (snd (fst (record_error now t))) = (max_total_errors (et_config t) \<le> et_total t + 1)"
  "fst (snd (snd (fst (record_error now t)))) = et_total t + 1"
  by (simp_all add: record_error_def Let_def)

text \<open>\<open>handled\<close>: what one operation leaves of the error count, relative to the limit.\<close>

definition handled :: "ErrorTracker \<Rightarrow> (nat + 'a option) \<times> ErrorTracker \<times> nat list \<Rightarrow> bool" where
  "handled t res =
     (case res of (r, t', slept) \<Rightarrow>
        et_config t' = et_config t \<and> et_total t \<le> et_total t'
        \<and> (case r of Inl n \<Rightarrow> n = max_total_errors (et_config t) \<and> et_total t' = n
           | Inr _ \<Rightarrow> et_total t' < max_total_errors (et_config t)))"

lemma handling_loop_handled:
  "et_total t < max_total_errors (et_config t) \<Longrightarrow> handled t (handling_loop op clock jit n delay k t slept)"
proof (induction op clock jit n delay k t slept rule: handling_loop.induct)
  case (1 op clock jit n delay k t slept)
  show ?case
  proof (cases "n < k \<or> is_ok (op k)")
    case True
    then show ?thesis
      using 1(2) by (auto simp: handling_loop.simps [of op clock jit n delay k t slept] handled_def split: sum.split)
  next
    case False
    then obtain e where e: "op k = Inl e" by (cases "op k") auto
    obtain b ab n' rate t' where r: "record_error (clock k) t = ((b, ab, n', rate), t')"
      by (metis surj_pair)
    have f: "et_total t' = et_total t + 1" "et_config t' = et_config t"
        "ab = (max_total_errors (et_config t) \<le> et_total t + 1)" "n' = et_total t + 1"
      using record_error_facts [of "clock k" t] r by simp_all
    let ?s1 = "if b then slept @ [as_millis (backoff_duration (et_config t))] else slept"
    have step: "handling_loop op clock jit n delay k t slept =
        (if ab then (Inl n', t', slept)
         else if k = n then (Inr None, t', ?s1)
         else handling_loop op clock jit n
           (next_delay (max_retry_delay_ms (et_config t)) (retry_backoff_multiplier (et_config t)) delay)
           (k + 1) t' (?s1 @ [jittered (max_retry_delay_ms (et_config t)) delay (jit k)]))"
      using False e r by (subst handling_loop.simps) (simp add: Let_def)
    show ?thesis
    proof (cases "ab \<or> k = n")
      case True
      then show ?thesis using step f 1(2) by (auto simp: handled_def)
    next
      case no: False
      have "handled t' (handling_loop op clock jit n
           (next_delay (max_retry_delay_ms (et_config t)) (retry_backoff_multiplier (et_config t)) delay)
           (k + 1) t' (?s1 @ [jittered (max_retry_delay_ms (et_config t)) delay (jit k)]))"
        using 1(1) [OF _ e refl r [symmetric] refl refl refl refl] no False f by auto
      then show ?thesis using step no f unfolding handled_def by (auto split: sum.splits)
    qed
  qed
qed

text \<open>A worker's operations one after another; an abort ends the run.\<close>

fun run_operations ::
  "((nat \<Rightarrow> 'e + 'a) \<times> (nat \<Rightarrow> rat) \<times> (nat \<Rightarrow> rat)) list \<Rightarrow> ErrorTracker \<Rightarrow> (nat + 'a option list) \<times> ErrorTracker" where
  "run_operations [] t = (Inr [], t)"
| "run_operations ((op, clock, jit) # ops) t =
     (case execute_with_error_handling op clock jit t of
        (Inl n, t', slept) \<Rightarrow> (Inl n, t')
      | (Inr r, t', slept) \<Rightarrow>
          (case run_operations ops t' of
             (Inl n, t'') \<Rightarrow> (Inl n, t'')
           | (Inr rs, t'') \<Rightarrow> (Inr (r # rs), t'')))"

lemma run_operations_total:
  "et_total t < max_total_errors (et_config t) \<Longrightarrow> run_operations ops t = (r, t') \<Longrightarrow>
     et_config t' = et_config t
     \<and> (case r of Inl n \<Rightarrow> n = max_total_errors (et_config t) \<and> et_total t' = n
        | Inr rs \<Rightarrow> et_total t' < max_total_errors (et_config t) \<and> length rs = length ops)"
proof (induction ops arbitrary: t r)
  case (Cons o' ops)
  obtain op clock jit where o': "o' = (op, clock, jit)" by (cases o')
  obtain q t1 slept where x: "execute_with_error_handling op clock jit t = (q, t1, slept)"
    by (cases "execute_with_error_handling op clock jit t")
  have h: "handled t (q, t1, slept)"
    using handling_loop_handled [OF Cons.prems(1)] x by (metis execute_with_error_handling_def)
  show ?case
  proof (cases q)
    case (Inl n)
    then show ?thesis using Cons.prems(2) x h o' by (auto simp: handled_def)
  next
    case (Inr y)
    obtain r2 t2 where r2: "run_operations ops t1 = (r2, t2)" by (cases "run_operations ops t1")
    have "et_total t1 < max_total_errors (et_config t1)" using h Inr by (simp add: handled_def)
    from Cons.IH [OF this] r2 show ?thesis
      using Cons.prems(2) x o' Inr h by (cases r2) (auto simp: handled_def)
  qed
qed auto

lemma recent_after:
  assumes "sorted (ts @ [now])" and "0 \<le> error_rate_window (et_config t)"
    and "recent_errors t = filter (\<lambda>e. last (0 # ts) - error_rate_window (et_config t) \<le> e) ts"
  shows "filter (\<lambda>e. now - error_rate_window (et_config t) \<le> e) (recent_errors t @ [now])
    = filter (\<lambda>e. now - error_rate_window (et_config t) \<le> e) (ts @ [now])"
proof (cases "ts = []")
  case False
  have "last ts \<le> now" using assms(1) False by (auto simp: sorted_append)
  then show ?thesis using assms(3) False by (auto intro!: filter_cong)
qed (use assms in simp)

lemma record_errors_recent:
  fixes t :: ErrorTracker
  defines "w \<equiv> error_rate_window (et_config t)"
  assumes "0 \<le> w" and "recent_errors t = []" and "sorted ts"
  shows "recent_errors (fold (\<lambda>n u. snd (record_error n u)) ts t) = filter (\<lambda>e. last (0 # ts) - w \<le> e) ts
    \<and> et_config (fold (\<lambda>n u. snd (record_error n u)) ts t) = et_config t
    \<and> et_total (fold (\<lambda>n u. snd (record_error n u)) ts t) = et_total t + length ts"
  using assms(4)
proof (induction ts rule: rev_induct)
  case Nil
  then show ?case using assms(3) by simp
next
  case (snoc now ts)
  let ?u = "fold (\<lambda>n u. snd (record_error n u)) ts t"
  have ih: "recent_errors ?u = filter (\<lambda>e. last (0 # ts) - w \<le> e) ts" "et_config ?u = et_config t"
      "et_total ?u = et_total t + length ts"
    using snoc by (simp_all add: sorted_append)
  have "recent_errors (snd (record_error now ?u)) = filter (\<lambda>e. now - w \<le> e) (ts @ [now])"
    using recent_after [of ts now ?u] snoc.prems ih assms(2)
    by (simp add: record_error_def Let_def w_def)
  then show ?case using ih by (simp add: record_error_facts)
qed

lemma map_filter_simps:
  "List.map_filter f [] = []"
  "List.map_filter f (x # xs) = (case f x of Some y \<Rightarrow> y # List.map_filter f xs | None \<Rightarrow> List.map_filter f xs)"
  by (simp_all add: List.map_filter_def split: option.split)

lemma retry_object_uri:
  "(case retry_object stores put jit r f of Inr x \<Rightarrow> fst x | Inl x \<Rightarrow> fst x) = pf_uri f"
  by (auto simp: retry_object_def split: option.split sum.split)

lemma split_results:
  "mset (map fst (List.map_filter (\<lambda>r. case r of Inr x \<Rightarrow> Some x | Inl _ \<Rightarrow> None) (map (retry_object stores put jit r) fs)))
   + mset (map fst (List.map_filter (\<lambda>r. case r of Inl x \<Rightarrow> Some x | Inr _ \<Rightarrow> None) (map (retry_object stores put jit r) fs)))
   = mset (map pf_uri fs)"
proof (induction fs)
  case (Cons f fs)
  then show ?case
    using retry_object_uri [of stores put jit r f]
    by (cases "retry_object stores put jit r f") (auto simp: map_filter_simps)
qed (simp add: map_filter_simps)

subsection \<open>Properties\<close>

text \<open>
  Over every sequence of successes and failures, the trackers of the prepare and of the listing
  phase ask for an abort at an error exactly when the errors so far reach the total limit or the
  run of errors since the last success reaches the consecutive limit.
\<close>

lemma trackers_abort_exactly:
  "fst (prepare_error f (tracker_after prepare_success prepare_error es (prepare_tracker_new mt mc))) =
     (mt \<le> errors_in (es @ [Some f]) \<or> mc \<le> streak (es @ [Some f]), errors_in (es @ [Some f]), streak (es @ [Some f]))
   \<and> fst (listing_error m (tracker_after listing_success listing_error ms (listing_tracker_new lt lc))) =
     (lt \<le> errors_in (ms @ [Some m]) \<or> lc \<le> streak (ms @ [Some m]), errors_in (ms @ [Some m]), streak (ms @ [Some m]))"
  using prep.abort_iff [of "prepare_tracker_new mt mc" f es] lst.abort_iff [of "listing_tracker_new lt lc" m ms]
  by (simp add: prepare_tracker_new_def listing_tracker_new_def)

text \<open>
  A worker that runs operations under the error handling is aborted exactly when the shared
  count reaches \<open>max_total_errors\<close>, never above it; otherwise every operation got a result or was
  skipped, and the count stays below the limit.
\<close>

lemma workload_aborts_at_limit:
  assumes "0 < max_total_errors cfg" and "run_operations ops (error_tracker_new cfg) = (r, t)"
  shows "(case r of
      Inl n \<Rightarrow> n = max_total_errors cfg \<and> et_total t = n
    | Inr rs \<Rightarrow> et_total t < max_total_errors cfg \<and> length rs = length ops)"
  using run_operations_total [OF _ assms(2)] assms(1) by (cases r) (simp_all add: error_tracker_new_def)

definition sample_handling :: ErrorHandlingConfig where
  "sample_handling =
     \<lparr> max_total_errors = 2, error_rate_threshold = 5, backoff_duration = from_secs 5, error_rate_window = 1,
       retry_on_error = True, max_retries = 3, initial_retry_delay_ms = 100, max_retry_delay_ms = 5000,
       retry_backoff_multiplier = 2, retry_jitter_factor = 1 / 4 \<rparr>"

definition failing_operation :: "(nat \<Rightarrow> unit + unit) \<times> (nat \<Rightarrow> rat) \<times> (nat \<Rightarrow> rat)" where
  "failing_operation = (\<lambda>k. Inl (), \<lambda>k. of_nat k, \<lambda>k. 1)"

lemma workload_aborts_at_limit_witness:
  "case run_operations [failing_operation] (error_tracker_new sample_handling) of (r, t) \<Rightarrow>
    (case r of
      Inl n \<Rightarrow> n = max_total_errors sample_handling \<and> et_total t = n
    | Inr rs \<Rightarrow> et_total t < max_total_errors sample_handling \<and> length rs = length [failing_operation])"
proof -
  obtain r t where x: "run_operations [failing_operation] (error_tracker_new sample_handling) = (r, t)"
    by (cases "run_operations [failing_operation] (error_tracker_new sample_handling)")
  have "0 < max_total_errors sample_handling" by (simp add: sample_handling_def)
  from workload_aborts_at_limit [OF this x] show ?thesis unfolding x by simp
qed

text \<open>
  With clock readings that never go back, the rate an error is judged by is exactly the number
  of errors in the window that ends now, divided by the window, and back-off is asked for exactly
  when it reaches the threshold.
\<close>

lemma error_rate_is_windowed:
  assumes "sorted (ts @ [now])" and "0 \<le> error_rate_window cfg"
  shows "case fst (record_error now (fold (\<lambda>n u. snd (record_error n u)) ts (error_tracker_new cfg))) of
    (backoff, abort, n, rate) \<Rightarrow>
      rate = of_nat (length (filter (\<lambda>e. now - error_rate_window cfg \<le> e) (ts @ [now]))) / error_rate_window cfg
      \<and> backoff = (error_rate_threshold cfg \<le> rate) \<and> n = length ts + 1 \<and> abort = (max_total_errors cfg \<le> n)"
proof -
  let ?u = "fold (\<lambda>n u. snd (record_error n u)) ts (error_tracker_new cfg)"
  have ih: "recent_errors ?u = filter (\<lambda>e. last (0 # ts) - error_rate_window cfg \<le> e) ts"
      "et_config ?u = cfg" "et_total ?u = length ts"
    using record_errors_recent [of "error_tracker_new cfg" ts] assms
    by (simp_all add: error_tracker_new_def sorted_append)
  then show ?thesis
    using recent_after [OF assms(1), of ?u] assms(2) by (simp add: record_error_def Let_def)
qed

lemma error_rate_is_windowed_witness:
  "fst (fst (record_error 2 (fold (\<lambda>n u. snd (record_error n u)) [0, 1] (error_tracker_new sample_handling)))) = False"
  using error_rate_is_windowed [of "[0, 1]" 2 sample_handling]
  by (auto simp: sample_handling_def split: prod.splits)

text \<open>
  A retried operation returns the value of its first successful attempt among
  \<open>max_retries + 1\<close>, and the error of the last attempt exactly when all fail; it sleeps at most
  \<open>max_retries\<close> times, never longer than the maximal delay.
\<close>

lemma retry_returns_first_success:
  assumes "rc_max_retries c < 2 ^ 32 - 1"
  shows "(fst (retry_with_backoff c op jit) = Inr x)
      = (\<exists>j. 1 \<le> j \<and> j \<le> rc_max_retries c + 1 \<and> op j = Inr x \<and> list_all (\<lambda>i. \<not> is_ok (op i)) [1..<j])
    \<and> (fst (retry_with_backoff c op jit) = Inl e)
      = (list_all (\<lambda>i. \<not> is_ok (op i)) [1..<rc_max_retries c + 1]
         \<and> (\<exists>m. op (rc_max_retries c + 1) = Inl m \<and> e = Some m))
    \<and> length (snd (retry_with_backoff c op jit)) \<le> rc_max_retries c
    \<and> list_all (\<lambda>d. d \<le> rc_max_delay_ms c) (snd (retry_with_backoff c op jit))"
proof -
  have n: "attempts_of (rc_max_retries c) = rc_max_retries c + 1" using assms by (simp add: attempts_of_def)
  show ?thesis
    using retry_loop_result [of 1 "rc_max_retries c + 1" c op jit "of_nat (rc_initial_delay_ms c)" "[]" x e]
      retry_loop_slept [of c op jit "rc_max_retries c + 1" "of_nat (rc_initial_delay_ms c)" 1 "[]"]
    unfolding retry_with_backoff_def n by auto
qed

lemma retry_returns_first_success_witness:
  "fst (retry_with_backoff (deferred_config 3) (\<lambda>k. if k < 3 then Inl ''timeout'' else Inr k) (\<lambda>k. 1)) = Inr (3 :: nat)"
proof -
  have r: "rc_max_retries (deferred_config 3) < 2 ^ 32 - 1" by (simp add: deferred_config_def)
  let ?op = "\<lambda>k :: nat. if k < 3 then Inl ''timeout'' else Inr k"
  have "\<exists>j. 1 \<le> j \<and> j \<le> rc_max_retries (deferred_config 3) + 1 \<and> ?op j = Inr 3
      \<and> list_all (\<lambda>i. \<not> is_ok (?op i)) [1..<j]"
    by (rule exI [of _ 3]) (simp add: deferred_config_def list_all_iff)
  then show ?thesis using retry_returns_first_success [OF r, of ?op "\<lambda>k. 1" 3 None] by blast
qed

lemma should_retry_iff: "fst (determine_retry_strategy n attempted) = (0 < attempted \<and> 5 * n \<le> 4 * attempted)"
proof (cases "attempted = 0")
  case False
  have "80 < (of_nat n / of_nat attempted) * (100 :: rat) \<longleftrightarrow> 80 * of_nat attempted < (of_nat n * 100 :: rat)"
    using False by (simp add: field_simps)
  also have "\<dots> \<longleftrightarrow> of_nat (80 * attempted) < (of_nat (n * 100) :: rat)" by simp
  also have "\<dots> \<longleftrightarrow> 4 * attempted < 5 * n" by (subst of_nat_less_iff) linarith
  finally show ?thesis using False by (simp add: determine_retry_strategy_def Let_def not_less)
qed (simp add: determine_retry_strategy_def)

text \<open>
  The deferred retry loses no object: every failed object of the prepare phase ends up either
  among the successes or among the permanent failures, and none is tried at all when more than
  80 percent of the objects failed.
\<close>

lemma deferred_retry_accounts_for_all:
  "mset (map fst (fst (retry_failed_objects stores put jit fs attempted)))
     + mset (map fst (snd (retry_failed_objects stores put jit fs attempted))) = mset (map pf_uri fs)
   \<and> fst (determine_retry_strategy n attempted) = (0 < attempted \<and> 5 * n \<le> 4 * attempted)"
proof -
  have "mset (map fst (fst (retry_failed_objects stores put jit fs attempted)))
     + mset (map fst (snd (retry_failed_objects stores put jit fs attempted))) = mset (map pf_uri fs)"
    using split_results [of stores put jit _ fs]
    by (simp add: retry_failed_objects_def Let_def comp_def multiset.map_comp split: prod.split)
  then show ?thesis using should_retry_iff by blast
qed

end
