(* ===== verification/Metadata_Cache.thy ===== *)
theory Metadata_Cache
  imports Directory_Tree
begin

text \<open>
  The metadata cache of the prepare phase (\<open>src/metadata_cache.rs\<close>): object states kept in one
  key-value database per endpoint, a coordinator database, the flush policies, the coverage that
  lets prepare skip a listing, and the checkpoints on the storage under test.

  The database (fjall) and the entry encoding (postcard) are parameters, the records \<open>fjall\<close> and
  \<open>codec\<close>; \<open>fjall_ok\<close> and \<open>codec_ok\<close> state what they document. Every operation can fail where the
  source has a question mark, and then returns the state it has reached. Counters are natural
  numbers, the clock is an argument.
\<close>

subsection \<open>The database and the encoding\<close>

datatype keyspace =
    ObjectsSpace | ListingSpace | EndpointMapSpace | SeedSpace
  | ManifestSpace | RegistrySpace | ConfigSpace

record 'd fjall =
  db_get :: "keyspace \<Rightarrow> string \<Rightarrow> 'd \<Rightarrow> string + string option"
  db_insert :: "keyspace \<Rightarrow> string \<Rightarrow> string \<Rightarrow> 'd \<Rightarrow> (string + unit) \<times> 'd"
  db_iter :: "keyspace \<Rightarrow> 'd \<Rightarrow> string + (string \<times> string) list"
  db_persist :: "'d \<Rightarrow> (string + unit) \<times> 'd"

definition fjall_ok :: "'d fjall \<Rightarrow> ('d \<Rightarrow> keyspace \<Rightarrow> string \<Rightarrow> string option) \<Rightarrow> bool" where
  "fjall_ok fj view \<longleftrightarrow>
     (\<forall>ks k d x. db_get fj ks k d = Inr x \<longrightarrow> x = view d ks k)
   \<and> (\<forall>ks k v d. view (snd (db_insert fj ks k v d)) =
         (if is_ok (fst (db_insert fj ks k v d)) then (view d)(ks := (view d ks)(k \<mapsto> v)) else view d))
   \<and> (\<forall>ks d l. db_iter fj ks d = Inr l \<longrightarrow> map_of l = view d ks \<and> distinct (map fst l))
   \<and> (\<forall>d. view (snd (db_persist fj d)) = view d)"

datatype ObjectState = DirectoryNonExistent | Planned | Creating | Created | ObjectFailed | Deleted

definition from_u8 :: "nat \<Rightarrow> ObjectState option" where
  "from_u8 v =
     (if v = 0 then Some DirectoryNonExistent else if v = 1 then Some Planned
      else if v = 2 then Some Creating else if v = 3 then Some Created
      else if v = 4 then Some ObjectFailed else if v = 5 then Some Deleted else None)"

definition to_u8 :: "ObjectState \<Rightarrow> nat" where
  "to_u8 s =
     (case s of DirectoryNonExistent \<Rightarrow> 0 | Planned \<Rightarrow> 1 | Creating \<Rightarrow> 2 | Created \<Rightarrow> 3
      | ObjectFailed \<Rightarrow> 4 | Deleted \<Rightarrow> 5)"

definition is_created :: "ObjectState \<Rightarrow> bool" where "is_created s = (s = Created)"

definition is_failed :: "ObjectState \<Rightarrow> bool" where "is_failed s = (s = ObjectFailed)"

definition needs_creation :: "ObjectState \<Rightarrow> bool" where
  "needs_creation s = (s = Planned \<or> s = ObjectFailed)"

lemma object_state_byte: "from_u8 (to_u8 s) = Some s" "from_u8 v = Some s \<longleftrightarrow> v = to_u8 s"
  by (cases s; auto simp: from_u8_def to_u8_def)+

record ObjectEntry =
  obj_path :: string
  obj_size :: nat
  obj_state :: ObjectState
  endpoint_idx :: nat
  created_at :: "nat option"
  checksum :: "nat option"

definition new_planned :: "string \<Rightarrow> nat \<Rightarrow> nat \<Rightarrow> ObjectEntry" where
  "new_planned p sz ep =
     \<lparr> obj_path = p, obj_size = sz, obj_state = Planned, endpoint_idx = ep, created_at = None,
       checksum = None \<rparr>"

record codec =
  to_bytes :: "ObjectEntry \<Rightarrow> string + string"
  from_bytes :: "string \<Rightarrow> string + ObjectEntry"

definition codec_ok :: "codec \<Rightarrow> bool" where
  "codec_ok cd \<longleftrightarrow> (\<forall>e b. to_bytes cd e = Inr b \<longrightarrow> from_bytes cd b = Inr e)"

subsection \<open>Flushing\<close>

datatype FlushPolicy = Immediate | BatchSize nat | AsyncInterval nat

definition FlushPolicy_default :: FlushPolicy where "FlushPolicy_default = AsyncInterval 30"

definition batch :: "nat \<Rightarrow> FlushPolicy" where
  "batch n = (if n = 0 then Immediate else BatchSize n)"

text \<open>What the two kinds of cache have in common.\<close>

record 'd cache_db =
  db_state :: 'd
  pending_writes :: nat
  flush_policy :: FlushPolicy

definition persist :: "'d fjall \<Rightarrow> ('d, 'b) cache_db_scheme \<Rightarrow> (string + unit) \<times> ('d, 'b) cache_db_scheme" where
  "persist fj c = (let (r, d) = db_persist fj (db_state c) in (r, c\<lparr>db_state := d\<rparr>))"

definition maybe_flush :: "'d fjall \<Rightarrow> ('d, 'b) cache_db_scheme \<Rightarrow> (string + unit) \<times> ('d, 'b) cache_db_scheme" where
  "maybe_flush fj c =
     (case flush_policy c of
        Immediate \<Rightarrow> persist fj c
      | BatchSize threshold \<Rightarrow>
          (let pending = pending_writes c + 1
           in if threshold \<le> pending then persist fj (c\<lparr>pending_writes := 0\<rparr>)
              else (Inr (), c\<lparr>pending_writes := pending\<rparr>))
      | AsyncInterval _ \<Rightarrow> (Inr (), c\<lparr>pending_writes := pending_writes c + 1\<rparr>))"

definition force_flush :: "'d fjall \<Rightarrow> ('d, 'b) cache_db_scheme \<Rightarrow> (string + unit) \<times> ('d, 'b) cache_db_scheme" where
  "force_flush fj c = persist fj (c\<lparr>pending_writes := 0\<rparr>)"

definition set_flush_policy :: "FlushPolicy \<Rightarrow> ('d, 'b) cache_db_scheme \<Rightarrow> ('d, 'b) cache_db_scheme" where
  "set_flush_policy p c = c\<lparr>flush_policy := p, pending_writes := 0\<rparr>"

definition pending_write_count :: "('d, 'b) cache_db_scheme \<Rightarrow> nat" where
  "pending_write_count c = pending_writes c"

text \<open>One step after another, the first error ending the sequence; and a write to a keyspace.\<close>

definition and_then :: "('s \<Rightarrow> ('e + 'a) \<times> 's) \<Rightarrow> ('s \<Rightarrow> ('e + 'b) \<times> 's) \<Rightarrow> 's \<Rightarrow> ('e + 'b) \<times> 's" where
  "and_then f g s = (case f s of (Inl e, t) \<Rightarrow> (Inl e, t) | (Inr _, t) \<Rightarrow> g t)"

definition write_key ::
  "'d fjall \<Rightarrow> keyspace \<Rightarrow> string \<Rightarrow> string \<Rightarrow> ('d, 'b) cache_db_scheme \<Rightarrow> (string + unit) \<times> ('d, 'b) cache_db_scheme" where
  "write_key fj ks k v c = (let (r, d) = db_insert fj ks k v (db_state c) in (r, c\<lparr>db_state := d\<rparr>))"

definition put_flushed ::
  "'d fjall \<Rightarrow> keyspace \<Rightarrow> string \<Rightarrow> string \<Rightarrow> ('d, 'b) cache_db_scheme \<Rightarrow> (string + unit) \<times> ('d, 'b) cache_db_scheme" where
  "put_flushed fj ks k v = and_then (write_key fj ks k v) (maybe_flush fj)"

subsection \<open>The cache of an endpoint\<close>

record 'd EndpointCache = "'d cache_db" +
  endpoint_index :: nat
  endpoint_uri :: string
  cache_location :: string

definition object_key :: "string \<Rightarrow> nat \<Rightarrow> string" where
  "object_key config_hash file_idx = config_hash @ '':'' @ show_padded 8 file_idx"

definition plan_object ::
  "'d fjall \<Rightarrow> codec \<Rightarrow> string \<Rightarrow> nat \<Rightarrow> string \<Rightarrow> nat \<Rightarrow> 'd EndpointCache \<Rightarrow> (string + unit) \<times> 'd EndpointCache" where
  "plan_object fj cd h i path sz c =
     (case to_bytes cd (new_planned path sz (endpoint_index c)) of
        Inl e \<Rightarrow> (Inl e, c)
      | Inr b \<Rightarrow> put_flushed fj ObjectsSpace (object_key h i) b c)"

text \<open>The common body of the \<open>mark\<close> operations: an absent object is left absent.\<close>

definition mark_entry ::
  "'d fjall \<Rightarrow> codec \<Rightarrow> (ObjectEntry \<Rightarrow> ObjectEntry) \<Rightarrow> string \<Rightarrow> nat \<Rightarrow> 'd EndpointCache \<Rightarrow> (string + unit) \<times> 'd EndpointCache" where
  "mark_entry fj cd f h i c =
     (case db_get fj ObjectsSpace (object_key h i) (db_state c) of
        Inl e \<Rightarrow> (Inl e, c)
      | Inr None \<Rightarrow> maybe_flush fj c
      | Inr (Some old) \<Rightarrow>
          (case from_bytes cd old of
             Inl e \<Rightarrow> (Inl e, c)
           | Inr entry \<Rightarrow>
               (case to_bytes cd (f entry) of
                  Inl e \<Rightarrow> (Inl e, c)
                | Inr b \<Rightarrow> put_flushed fj ObjectsSpace (object_key h i) b c)))"

definition mark_creating :: "'d fjall \<Rightarrow> codec \<Rightarrow> string \<Rightarrow> nat \<Rightarrow> 'd EndpointCache \<Rightarrow> (string + unit) \<times> 'd EndpointCache" where
  "mark_creating fj cd = mark_entry fj cd (\<lambda>e. e\<lparr>obj_state := Creating\<rparr>)"

definition as_created :: "nat \<Rightarrow> nat option \<Rightarrow> nat option \<Rightarrow> ObjectEntry \<Rightarrow> ObjectEntry" where
  "as_created now ts chk e =
     e\<lparr>obj_state := Created, created_at := Some (case ts of Some t \<Rightarrow> t | None \<Rightarrow> now), checksum := chk\<rparr>"

definition mark_created ::
  "'d fjall \<Rightarrow> codec \<Rightarrow> nat \<Rightarrow> string \<Rightarrow> nat \<Rightarrow> nat option \<Rightarrow> nat option \<Rightarrow> 'd EndpointCache \<Rightarrow> (string + unit) \<times> 'd EndpointCache" where
  "mark_created fj cd now h i ts chk = mark_entry fj cd (as_created now ts chk) h i"

definition mark_failed :: "'d fjall \<Rightarrow> codec \<Rightarrow> string \<Rightarrow> nat \<Rightarrow> 'd EndpointCache \<Rightarrow> (string + unit) \<times> 'd EndpointCache" where
  "mark_failed fj cd = mark_entry fj cd (\<lambda>e. e\<lparr>obj_state := ObjectFailed\<rparr>)"

definition mark_deleted :: "'d fjall \<Rightarrow> codec \<Rightarrow> string \<Rightarrow> nat \<Rightarrow> 'd EndpointCache \<Rightarrow> (string + unit) \<times> 'd EndpointCache" where
  "mark_deleted fj cd = mark_entry fj cd (\<lambda>e. e\<lparr>obj_state := Deleted\<rparr>)"

definition record_created ::
  "'d fjall \<Rightarrow> codec \<Rightarrow> nat \<Rightarrow> string \<Rightarrow> nat \<Rightarrow> string \<Rightarrow> nat \<Rightarrow> nat option \<Rightarrow> nat option \<Rightarrow> 'd EndpointCache
    \<Rightarrow> (string + unit) \<times> 'd EndpointCache" where
  "record_created fj cd now h i path sz ts chk c =
     (case db_get fj ObjectsSpace (object_key h i) (db_state c) of
        Inl e \<Rightarrow> (Inl e, c)
      | Inr found \<Rightarrow>
          (case (case found of None \<Rightarrow> Inr (new_planned path sz (endpoint_index c))
                 | Some old \<Rightarrow> from_bytes cd old) of
             Inl e \<Rightarrow> (Inl e, c)
           | Inr entry \<Rightarrow>
               (case to_bytes cd (as_created now ts chk entry) of
                  Inl e \<Rightarrow> (Inl e, c)
                | Inr b \<Rightarrow> put_flushed fj ObjectsSpace (object_key h i) b c)))"

definition get_object :: "'d fjall \<Rightarrow> codec \<Rightarrow> string \<Rightarrow> nat \<Rightarrow> 'd EndpointCache \<Rightarrow> string + ObjectEntry option" where
  "get_object fj cd h i c =
     (case db_get fj ObjectsSpace (object_key h i) (db_state c) of
        Inl e \<Rightarrow> Inl e
      | Inr None \<Rightarrow> Inr None
      | Inr (Some b) \<Rightarrow> (case from_bytes cd b of Inl e \<Rightarrow> Inl e | Inr x \<Rightarrow> Inr (Some x)))"

text \<open>
  The scans: the entries whose key starts with the hash and a colon, each with the rest of its
  key; the first value that does not decode ends the scan with its error.
\<close>

fun scan_entries :: "codec \<Rightarrow> string \<Rightarrow> (string \<times> string) list \<Rightarrow> string + (string \<times> ObjectEntry) list" where
  "scan_entries cd pre [] = Inr []"
| "scan_entries cd pre ((k, v) # l) =
     (case strip_prefix pre k of
        None \<Rightarrow> scan_entries cd pre l
      | Some rest \<Rightarrow>
          (case from_bytes cd v of
             Inl e \<Rightarrow> Inl e
           | Inr entry \<Rightarrow> bind_result (scan_entries cd pre l) (\<lambda>es. Inr ((rest, entry) # es))))"

definition scan_objects :: "'d fjall \<Rightarrow> codec \<Rightarrow> string \<Rightarrow> 'd EndpointCache \<Rightarrow> string + (string \<times> ObjectEntry) list" where
  "scan_objects fj cd h c =
     bind_result (db_iter fj ObjectsSpace (db_state c)) (scan_entries cd (h @ '':''))"

definition get_objects_by_state ::
  "'d fjall \<Rightarrow> codec \<Rightarrow> string \<Rightarrow> ObjectState \<Rightarrow> 'd EndpointCache \<Rightarrow> string + (nat \<times> ObjectEntry) list" where
  "get_objects_by_state fj cd h s c =
     bind_result (scan_objects fj cd h c)
       (\<lambda>es. Inr (List.map_filter
          (\<lambda>(rest, e). if obj_state e = s then map_option (\<lambda>i. (i, e)) (parse_u64 rest) else None) es))"

definition bump :: "'k \<Rightarrow> nat \<Rightarrow> ('k, nat) hmap \<Rightarrow> ('k, nat) hmap" where
  "bump k n m = hput k ((case hget m k of None \<Rightarrow> 0 | Some x \<Rightarrow> x) + n) m"

definition count_by_state :: "'d fjall \<Rightarrow> codec \<Rightarrow> string \<Rightarrow> 'd EndpointCache \<Rightarrow> string + (ObjectState, nat) hmap" where
  "count_by_state fj cd h c =
     bind_result (scan_objects fj cd h c)
       (\<lambda>es. Inr (foldl (\<lambda>m (_, e). bump (obj_state e) 1 m) [] es))"

definition count_and_bytes_by_state ::
  "'d fjall \<Rightarrow> codec \<Rightarrow> string \<Rightarrow> 'd EndpointCache \<Rightarrow> string + (ObjectState, nat) hmap \<times> (ObjectState, nat) hmap" where
  "count_and_bytes_by_state fj cd h c =
     bind_result (scan_objects fj cd h c)
       (\<lambda>es. Inr (foldl (\<lambda>m (_, e). bump (obj_state e) 1 m) [] es,
                  foldl (\<lambda>m (_, e). bump (obj_state e) (obj_size e) m) [] es))"

text \<open>Batch planning: a flush check every 100,000 objects, a forced flush at the end.\<close>

fun plan_batch_from ::
  "'d fjall \<Rightarrow> codec \<Rightarrow> string \<Rightarrow> nat \<Rightarrow> (nat \<times> string \<times> nat) list \<Rightarrow> 'd EndpointCache \<Rightarrow> (string + unit) \<times> 'd EndpointCache" where
  "plan_batch_from fj cd h idx [] c = force_flush fj c"
| "plan_batch_from fj cd h idx ((i, path, sz) # objs) c =
     (case to_bytes cd (new_planned path sz (endpoint_index c)) of
        Inl e \<Rightarrow> (Inl e, c)
      | Inr b \<Rightarrow>
          and_then (write_key fj ObjectsSpace (object_key h i) b)
            (and_then (\<lambda>c. if (idx + 1) mod 100000 = 0 then maybe_flush fj c else (Inr (), c))
              (plan_batch_from fj cd h (idx + 1) objs)) c)"

definition plan_objects_batch ::
  "'d fjall \<Rightarrow> codec \<Rightarrow> string \<Rightarrow> (nat \<times> string \<times> nat) list \<Rightarrow> 'd EndpointCache \<Rightarrow> (string + unit) \<times> 'd EndpointCache" where
  "plan_objects_batch fj cd h objs = plan_batch_from fj cd h 0 objs"

text \<open>The endpoint map and the seeds: little-endian integers of 4 and 8 bytes.\<close>

definition le_bytes :: "nat \<Rightarrow> nat \<Rightarrow> string" where
  "le_bytes k n = map (\<lambda>j. char_of (n div 256 ^ j mod 256)) [0..<k]"

fun from_le_bytes :: "string \<Rightarrow> nat" where
  "from_le_bytes [] = 0"
| "from_le_bytes (b # bs) = of_char b + 256 * from_le_bytes bs"

definition map_key :: "string \<Rightarrow> string \<Rightarrow> nat \<Rightarrow> string" where
  "map_key config_hash kind i = config_hash @ '':'' @ kind @ '':'' @ show_padded 8 i"

definition read_int :: "nat \<Rightarrow> string \<Rightarrow> string option \<Rightarrow> string + nat option" where
  "read_int k err found =
     (case found of None \<Rightarrow> Inr None
      | Some b \<Rightarrow> if length b = k then Inr (Some (from_le_bytes b)) else Inl err)"

definition get_endpoint_index :: "'d fjall \<Rightarrow> string \<Rightarrow> string \<Rightarrow> nat \<Rightarrow> 'd EndpointCache \<Rightarrow> string + nat option" where
  "get_endpoint_index fj h kind i c =
     bind_result (db_get fj EndpointMapSpace (map_key h kind i) (db_state c))
       (read_int 4 ''Invalid endpoint index bytes'')"

text \<open>\<open>endpoint_idx as u32\<close> truncates; every strategy is round robin.\<close>

fun populate_from ::
  "'d fjall \<Rightarrow> string \<Rightarrow> string \<Rightarrow> nat \<Rightarrow> nat list \<Rightarrow> 'd EndpointCache \<Rightarrow> (string + unit) \<times> 'd EndpointCache" where
  "populate_from fj h kind n [] c = force_flush fj c"
| "populate_from fj h kind n (i # idxs) c =
     and_then (write_key fj EndpointMapSpace (map_key h kind i) (le_bytes 4 (i mod n mod 2 ^ 32)))
       (and_then (\<lambda>c. if (i + 1) mod 100000 = 0 then maybe_flush fj c else (Inr (), c))
         (populate_from fj h kind n idxs)) c"

definition populate_endpoint_map ::
  "'d fjall \<Rightarrow> string \<Rightarrow> string \<Rightarrow> nat \<Rightarrow> nat \<Rightarrow> 'd EndpointCache \<Rightarrow> (string + unit) \<times> 'd EndpointCache" where
  "populate_endpoint_map fj h kind n_files n c = populate_from fj h kind n [0..<n_files] c"

definition get_seed :: "'d fjall \<Rightarrow> string \<Rightarrow> string \<Rightarrow> nat \<Rightarrow> 'd EndpointCache \<Rightarrow> string + nat option" where
  "get_seed fj h kind i c =
     bind_result (db_get fj SeedSpace (map_key h kind i) (db_state c)) (read_int 8 ''Invalid seed bytes'')"

definition put_seed ::
  "'d fjall \<Rightarrow> string \<Rightarrow> string \<Rightarrow> nat \<Rightarrow> 64 word \<Rightarrow> 'd EndpointCache \<Rightarrow> (string + unit) \<times> 'd EndpointCache" where
  "put_seed fj h kind i seed = put_flushed fj SeedSpace (map_key h kind i) (le_bytes 8 (unat seed))"

definition owns_file :: "nat \<Rightarrow> nat \<Rightarrow> 'd EndpointCache \<Rightarrow> bool" where
  "owns_file i n c = (i mod n = endpoint_index c)"

text \<open>Cached listings: JSON and zstd are the two functions \<open>pack\<close> and \<open>unpack\<close>.\<close>

definition get_packed ::
  "'d fjall \<Rightarrow> (string \<Rightarrow> string + string list) \<Rightarrow> keyspace \<Rightarrow> string \<Rightarrow> ('d, 'b) cache_db_scheme \<Rightarrow> string + string list option" where
  "get_packed fj unpack ks k c =
     bind_result (db_get fj ks k (db_state c))
       (\<lambda>found. case found of None \<Rightarrow> Inr None | Some b \<Rightarrow> bind_result (unpack b) (\<lambda>ps. Inr (Some ps)))"

definition put_packed ::
  "'d fjall \<Rightarrow> (string list \<Rightarrow> string + string) \<Rightarrow> keyspace \<Rightarrow> string \<Rightarrow> string list \<Rightarrow> ('d, 'b) cache_db_scheme
    \<Rightarrow> (string + unit) \<times> ('d, 'b) cache_db_scheme" where
  "put_packed fj pack ks k paths c =
     (case pack paths of Inl e \<Rightarrow> (Inl e, c) | Inr b \<Rightarrow> put_flushed fj ks k b c)"

definition listing_key :: "string \<Rightarrow> nat \<Rightarrow> string" where
  "listing_key h timestamp = h @ '':list_timestamp:'' @ show_nat timestamp"

definition get_listing ::
  "'d fjall \<Rightarrow> (string \<Rightarrow> string + string list) \<Rightarrow> string \<Rightarrow> nat \<Rightarrow> 'd EndpointCache \<Rightarrow> string + string list option" where
  "get_listing fj unpack h timestamp = get_packed fj unpack ListingSpace (listing_key h timestamp)"

definition put_listing ::
  "'d fjall \<Rightarrow> (string list \<Rightarrow> string + string) \<Rightarrow> string \<Rightarrow> nat \<Rightarrow> string list \<Rightarrow> 'd EndpointCache
    \<Rightarrow> (string + unit) \<times> 'd EndpointCache" where
  "put_listing fj pack h timestamp = put_packed fj pack ListingSpace (listing_key h timestamp)"

subsection \<open>The coordinator's cache\<close>

record 'd CoordinatorCache = "'d cache_db" +
  cache_dir :: string

definition get_tree_manifest :: "'d fjall \<Rightarrow> string \<Rightarrow> 'd CoordinatorCache \<Rightarrow> string + string option" where
  "get_tree_manifest fj h c = db_get fj ManifestSpace (h @ '':manifest'') (db_state c)"

definition put_tree_manifest :: "'d fjall \<Rightarrow> string \<Rightarrow> string \<Rightarrow> 'd CoordinatorCache \<Rightarrow> (string + unit) \<times> 'd CoordinatorCache" where
  "put_tree_manifest fj h json = put_flushed fj ManifestSpace (h @ '':manifest'') json"

definition get_endpoints ::
  "'d fjall \<Rightarrow> (string \<Rightarrow> string + string list) \<Rightarrow> string \<Rightarrow> 'd CoordinatorCache \<Rightarrow> string + string list option" where
  "get_endpoints fj from_json h = get_packed fj from_json RegistrySpace (h @ '':endpoints'')"

definition put_endpoints ::
  "'d fjall \<Rightarrow> (string list \<Rightarrow> string + string) \<Rightarrow> string \<Rightarrow> string list \<Rightarrow> 'd CoordinatorCache
    \<Rightarrow> (string + unit) \<times> 'd CoordinatorCache" where
  "put_endpoints fj to_json h = put_packed fj to_json RegistrySpace (h @ '':endpoints'')"

definition get_config_metadata :: "'d fjall \<Rightarrow> string \<Rightarrow> 'd CoordinatorCache \<Rightarrow> string + string option" where
  "get_config_metadata fj h c = db_get fj ConfigSpace h (db_state c)"

definition put_config_metadata :: "'d fjall \<Rightarrow> string \<Rightarrow> string \<Rightarrow> 'd CoordinatorCache \<Rightarrow> (string + unit) \<times> 'd CoordinatorCache" where
  "put_config_metadata fj h json = put_flushed fj ConfigSpace h json"

definition coordinator_get_listing ::
  "'d fjall \<Rightarrow> (string \<Rightarrow> string + string list) \<Rightarrow> string \<Rightarrow> 'd CoordinatorCache \<Rightarrow> string + string list option" where
  "coordinator_get_listing fj unpack h = get_packed fj unpack ConfigSpace (h @ '':listing'')"

definition coordinator_put_listing ::
  "'d fjall \<Rightarrow> (string list \<Rightarrow> string + string) \<Rightarrow> string \<Rightarrow> string list \<Rightarrow> 'd CoordinatorCache
    \<Rightarrow> (string + unit) \<times> 'd CoordinatorCache" where
  "coordinator_put_listing fj pack h = put_packed fj pack ConfigSpace (h @ '':listing'')"

subsection \<open>All endpoints together\<close>

record 'd MetadataCache =
  coordinator :: "'d CoordinatorCache"
  cache_endpoints :: "(nat, 'd EndpointCache) hmap"
  config_hash :: string

text \<open>The remainder by the number of endpoints: the left value is the panic of an empty map.\<close>

definition endpoint_for_file :: "nat \<Rightarrow> 'd MetadataCache \<Rightarrow> string + 'd EndpointCache option" where
  "endpoint_for_file i m =
     (if cache_endpoints m = [] then Inl ''remainder with a divisor of zero''
      else Inr (hget (cache_endpoints m) (i mod length (cache_endpoints m))))"

fun flush_endpoints ::
  "'d fjall \<Rightarrow> (nat \<times> 'd EndpointCache) list \<Rightarrow> (string + unit) \<times> (nat \<times> 'd EndpointCache) list" where
  "flush_endpoints fj [] = (Inr (), [])"
| "flush_endpoints fj ((i, c) # eps) =
     (case force_flush fj c of
        (Inl e, c') \<Rightarrow> (Inl e, (i, c') # eps)
      | (Inr _, c') \<Rightarrow> (let (r, eps') = flush_endpoints fj eps in (r, (i, c') # eps')))"

definition flush_all :: "'d fjall \<Rightarrow> 'd MetadataCache \<Rightarrow> (string + unit) \<times> 'd MetadataCache" where
  "flush_all fj m =
     (case force_flush fj (coordinator m) of
        (Inl e, c) \<Rightarrow> (Inl e, m\<lparr>coordinator := c\<rparr>)
      | (Inr _, c) \<Rightarrow>
          (let (r, eps) = flush_endpoints fj (cache_endpoints m)
           in (r, m\<lparr>coordinator := c, cache_endpoints := eps\<rparr>)))"

definition set_all_policies :: "FlushPolicy \<Rightarrow> 'd MetadataCache \<Rightarrow> 'd MetadataCache" where
  "set_all_policies p m =
     m\<lparr>coordinator := set_flush_policy p (coordinator m),
       cache_endpoints := map (\<lambda>(i, c). (i, set_flush_policy p c)) (cache_endpoints m)\<rparr>"

definition enable_async_flush :: "nat \<Rightarrow> 'd MetadataCache \<Rightarrow> 'd MetadataCache" where
  "enable_async_flush secs = set_all_policies (AsyncInterval secs)"

definition set_batch_flush :: "nat \<Rightarrow> 'd MetadataCache \<Rightarrow> 'd MetadataCache" where
  "set_batch_flush n = set_all_policies (BatchSize n)"

definition add_counts :: "('k, nat) hmap \<Rightarrow> ('k, nat) hmap \<Rightarrow> ('k, nat) hmap" where
  "add_counts totals counts = foldl (\<lambda>m (s, n). bump s n m) totals counts"

fun aggregate_progress_from ::
  "'d fjall \<Rightarrow> codec \<Rightarrow> string \<Rightarrow> (nat \<times> 'd EndpointCache) list \<Rightarrow> (ObjectState, nat) hmap \<Rightarrow> string + (ObjectState, nat) hmap" where
  "aggregate_progress_from fj cd h [] totals = Inr totals"
| "aggregate_progress_from fj cd h ((i, c) # eps) totals =
     bind_result (count_by_state fj cd h c)
       (\<lambda>counts. aggregate_progress_from fj cd h eps (add_counts totals counts))"

definition aggregate_progress :: "'d fjall \<Rightarrow> codec \<Rightarrow> string \<Rightarrow> 'd MetadataCache \<Rightarrow> string + (ObjectState, nat) hmap" where
  "aggregate_progress fj cd h m = aggregate_progress_from fj cd h (cache_endpoints m) []"

fun aggregate_coverage_from ::
  "'d fjall \<Rightarrow> codec \<Rightarrow> string \<Rightarrow> (nat \<times> 'd EndpointCache) list \<Rightarrow> (ObjectState, nat) hmap \<times> (ObjectState, nat) hmap
    \<Rightarrow> string + (ObjectState, nat) hmap \<times> (ObjectState, nat) hmap" where
  "aggregate_coverage_from fj cd h [] totals = Inr totals"
| "aggregate_coverage_from fj cd h ((i, c) # eps) totals =
     bind_result (count_and_bytes_by_state fj cd h c)
       (\<lambda>(counts, bytes). aggregate_coverage_from fj cd h eps
          (add_counts (fst totals) counts, add_counts (snd totals) bytes))"

definition aggregate_coverage ::
  "'d fjall \<Rightarrow> codec \<Rightarrow> string \<Rightarrow> 'd MetadataCache \<Rightarrow> string + (ObjectState, nat) hmap \<times> (ObjectState, nat) hmap" where
  "aggregate_coverage fj cd h m = aggregate_coverage_from fj cd h (cache_endpoints m) ([], [])"

subsection \<open>Coverage\<close>

record CheckpointCoverage =
  created_count :: nat
  planned_count :: nat
  failed_count :: nat
  total_tracked :: nat
  expected_count :: nat
  covers_all :: bool
  state_counts :: "(ObjectState, nat) hmap"
  bytes_by_state :: "(ObjectState, nat) hmap"

definition count_of :: "('k, nat) hmap \<Rightarrow> 'k \<Rightarrow> nat" where
  "count_of m k = (case hget m k of None \<Rightarrow> 0 | Some n \<Rightarrow> n)"

definition from_state_counts :: "(ObjectState, nat) hmap \<Rightarrow> (ObjectState, nat) hmap \<Rightarrow> nat \<Rightarrow> CheckpointCoverage" where
  "from_state_counts counts bytes expected =
     (let created = count_of counts Created
      in \<lparr> created_count = created, planned_count = count_of counts Planned,
           failed_count = count_of counts ObjectFailed, total_tracked = sum_list (map snd counts),
           expected_count = expected, covers_all = (expected \<le> created \<and> 0 < expected),
           state_counts = counts, bytes_by_state = bytes \<rparr>)"

definition check_coverage :: "'d fjall \<Rightarrow> codec \<Rightarrow> string \<Rightarrow> nat \<Rightarrow> 'd EndpointCache \<Rightarrow> string + CheckpointCoverage" where
  "check_coverage fj cd h expected c =
     bind_result (count_and_bytes_by_state fj cd h c)
       (\<lambda>(counts, bytes). Inr (from_state_counts counts bytes expected))"

definition check_listing_coverage :: "'d fjall \<Rightarrow> codec \<Rightarrow> nat \<Rightarrow> 'd MetadataCache \<Rightarrow> string + CheckpointCoverage option" where
  "check_listing_coverage fj cd expected m =
     bind_result (aggregate_coverage fj cd (config_hash m) m)
       (\<lambda>(counts, bytes). Inr (if counts = [] then None else Some (from_state_counts counts bytes expected)))"

subsection \<open>Keys\<close>

lemma takeWhile_absent: "c \<notin> set p \<Longrightarrow> takeWhile (\<lambda>a. a \<noteq> c) p = p"
  by (induction p) auto

lemma append_sep_inject:
  assumes "c \<notin> set p" and "c \<notin> set q"
  shows "x @ c # p = y @ c # q \<longleftrightarrow> x = y \<and> p = q"
proof
  assume eq: "x @ c # p = y @ c # q"
  then have "takeWhile (\<lambda>a. a \<noteq> c) (rev (x @ c # p)) = takeWhile (\<lambda>a. a \<noteq> c) (rev (y @ c # q))" by simp
  then have "rev p = rev q"
    using assms takeWhile_absent [of c "rev p"] takeWhile_absent [of c "rev q"] by (simp add: takeWhile_tail)
  then show "x = y \<and> p = q" using eq by simp
qed simp

lemma padded_digits: "c \<in> set (show_padded w n) \<Longrightarrow> digit_val c \<noteq> None"
  by (auto simp: show_padded_def digit_val_def dest: show_nat_digits split: if_splits)

lemma padded_no_char: "digit_val c = None \<Longrightarrow> c \<notin> set (show_padded w n)"
  using padded_digits by blast

lemma colon_no_digit: "digit_val (CHR '':'') = None"
  by (simp add: digit_val_def)

lemma object_key_inject [simp]: "object_key h i = object_key h' j \<longleftrightarrow> h = h' \<and> i = j"
  using append_sep_inject [OF padded_no_char [OF colon_no_digit] padded_no_char [OF colon_no_digit], of h 8 i h' 8 j]
  by (simp add: object_key_def)

lemma parse_padded:
  assumes "n \<le> u64_max"
  shows "parse_u64 (show_padded w n) = Some n"
proof -
  obtain c s where cs: "show_padded w n = c # s"
    by (cases "show_padded w n") (auto simp: show_padded_def)
  then have "digit_val c \<noteq> None" using padded_digits [of c w n] by auto
  then have "c \<noteq> CHR ''+''" by (auto simp: digit_val_def)
  then show ?thesis
    using assms cs parse_digits_zeros [of "w - length (show_nat n)" "show_nat n"] parse_digits_show [of 0 n]
    by (simp add: parse_u64_def show_padded_def)
qed

lemma key_of_hash:
  assumes "CHR '':'' \<notin> set h" and "CHR '':'' \<notin> set h'"
  shows "strip_prefix (h @ '':'') (object_key h' i) = (if h = h' then Some (show_padded 8 i) else None)"
proof (cases "h = h'")
  case True
  then show ?thesis using strip_prefix_append [of "h @ '':''" "show_padded 8 i"] by (simp add: object_key_def)
next
  case False
  have "strip_prefix (h @ '':'') (object_key h' i) = None"
  proof (rule ccontr)
    assume "strip_prefix (h @ '':'') (object_key h' i) \<noteq> None"
    then obtain r where "object_key h' i = (h @ '':'') @ r" by (auto dest: strip_prefix_SomeD)
    then have "h' @ CHR '':'' # show_padded 8 i = h @ CHR '':'' # r" by (simp add: object_key_def)
    then have "takeWhile (\<lambda>a. a \<noteq> CHR '':'') (h' @ CHR '':'' # show_padded 8 i)
        = takeWhile (\<lambda>a. a \<noteq> CHR '':'') (h @ CHR '':'' # r)" by simp
    then show False
      using assms False takeWhile_absent [of _ h] takeWhile_absent [of _ h'] by (simp add: takeWhile_tail)
  qed
  then show ?thesis using False by simp
qed

subsection \<open>What a write does\<close>

lemma fjall_okD:
  assumes "fjall_ok fj view"
  shows "db_get fj ks k d = Inr x \<Longrightarrow> x = view d ks k"
    and "view (snd (db_insert fj ks k v d)) =
          (if is_ok (fst (db_insert fj ks k v d)) then (view d)(ks := (view d ks)(k \<mapsto> v)) else view d)"
    and "db_iter fj ks d = Inr l \<Longrightarrow> map_of l = view d ks"
    and "db_iter fj ks d = Inr l \<Longrightarrow> distinct (map fst l)"
    and "view (snd (db_persist fj d)) = view d"
  using assms unfolding fjall_ok_def by blast+

lemma persist_view: "fjall_ok fj view \<Longrightarrow> view (db_state (snd (persist fj c))) = view (db_state c)"
  by (simp add: persist_def Let_def split_beta fjall_okD(5))

lemma maybe_flush_view: "fjall_ok fj view \<Longrightarrow> view (db_state (snd (maybe_flush fj c))) = view (db_state c)"
  by (simp add: maybe_flush_def Let_def persist_view split: FlushPolicy.split)

lemma force_flush_view: "fjall_ok fj view \<Longrightarrow> view (db_state (snd (force_flush fj c))) = view (db_state c)"
  by (simp add: force_flush_def persist_view)

lemma flush_index [simp]:
  "endpoint_index (snd (persist fj c)) = endpoint_index c"
  "endpoint_index (snd (maybe_flush fj c)) = endpoint_index c"
  "endpoint_index (snd (force_flush fj c)) = endpoint_index c"
  "endpoint_index (snd (write_key fj ks k v c)) = endpoint_index c"
  by (simp_all add: persist_def maybe_flush_def force_flush_def write_key_def Let_def split_beta
      split: FlushPolicy.split)

lemma put_flushed_split:
  "snd (put_flushed fj ks k v c) =
     (if is_ok (fst (write_key fj ks k v c)) then snd (maybe_flush fj (snd (write_key fj ks k v c)))
      else snd (write_key fj ks k v c))"
  "is_ok (fst (put_flushed fj ks k v c)) \<Longrightarrow> is_ok (fst (write_key fj ks k v c))"
  by (auto simp: put_flushed_def and_then_def is_ok_def split: prod.splits sum.splits)

lemma put_flushed_view:
  assumes "fjall_ok fj view"
  shows "view (db_state (snd (put_flushed fj ks k v c))) =
      (if is_ok (fst (write_key fj ks k v c)) then (view (db_state c))(ks := (view (db_state c) ks)(k \<mapsto> v))
       else view (db_state c))"
  by (simp add: put_flushed_split(1) maybe_flush_view [OF assms] write_key_def Let_def split_beta
      fjall_okD(2) [OF assms])

lemma put_flushed_index [simp]: "endpoint_index (snd (put_flushed fj ks k v c)) = endpoint_index c"
  by (simp add: put_flushed_split(1))

subsection \<open>The abstract object map\<close>

definition object_view ::
  "codec \<Rightarrow> ('d \<Rightarrow> keyspace \<Rightarrow> string \<Rightarrow> string option) \<Rightarrow> string \<Rightarrow> 'd EndpointCache \<Rightarrow> nat \<Rightarrow> ObjectEntry option" where
  "object_view cd view h c i =
     (case view (db_state c) ObjectsSpace (object_key h i) of
        None \<Rightarrow> None
      | Some b \<Rightarrow> (case from_bytes cd b of Inl _ \<Rightarrow> None | Inr e \<Rightarrow> Some e))"

lemma object_view_Some_iff:
  "object_view cd view h c i = Some e \<longleftrightarrow>
     (\<exists>b. view (db_state c) ObjectsSpace (object_key h i) = Some b \<and> from_bytes cd b = Inr e)"
  by (auto simp: object_view_def split: option.split sum.split)

datatype cache_op =
    PlanOp nat string nat
  | CreatingOp nat
  | CreatedOp nat nat "nat option" "nat option"
  | FailedOp nat
  | DeletedOp nat
  | RecordOp nat nat string nat "nat option" "nat option"

fun op_index :: "cache_op \<Rightarrow> nat" where
  "op_index (PlanOp i _ _) = i"
| "op_index (CreatingOp i) = i"
| "op_index (CreatedOp _ i _ _) = i"
| "op_index (FailedOp i) = i"
| "op_index (DeletedOp i) = i"
| "op_index (RecordOp _ i _ _ _ _) = i"

fun apply_op :: "'d fjall \<Rightarrow> codec \<Rightarrow> string \<Rightarrow> cache_op \<Rightarrow> 'd EndpointCache \<Rightarrow> (string + unit) \<times> 'd EndpointCache" where
  "apply_op fj cd h (PlanOp i p sz) = plan_object fj cd h i p sz"
| "apply_op fj cd h (CreatingOp i) = mark_creating fj cd h i"
| "apply_op fj cd h (CreatedOp now i ts chk) = mark_created fj cd now h i ts chk"
| "apply_op fj cd h (FailedOp i) = mark_failed fj cd h i"
| "apply_op fj cd h (DeletedOp i) = mark_deleted fj cd h i"
| "apply_op fj cd h (RecordOp now i p sz ts chk) = record_created fj cd now h i p sz ts chk"

text \<open>What an operation does to one entry of the abstract map.\<close>

fun spec_entry :: "nat \<Rightarrow> cache_op \<Rightarrow> ObjectEntry option \<Rightarrow> ObjectEntry option" where
  "spec_entry ep (PlanOp i p sz) m = Some (new_planned p sz ep)"
| "spec_entry ep (CreatingOp i) m = map_option (\<lambda>e. e\<lparr>obj_state := Creating\<rparr>) m"
| "spec_entry ep (CreatedOp now i ts chk) m = map_option (as_created now ts chk) m"
| "spec_entry ep (FailedOp i) m = map_option (\<lambda>e. e\<lparr>obj_state := ObjectFailed\<rparr>) m"
| "spec_entry ep (DeletedOp i) m = map_option (\<lambda>e. e\<lparr>obj_state := Deleted\<rparr>) m"
| "spec_entry ep (RecordOp now i p sz ts chk) m =
     Some (as_created now ts chk (case m of None \<Rightarrow> new_planned p sz ep | Some e \<Rightarrow> e))"

definition spec_op :: "nat \<Rightarrow> (nat \<Rightarrow> ObjectEntry option) \<Rightarrow> cache_op \<Rightarrow> nat \<Rightarrow> ObjectEntry option" where
  "spec_op ep m x = m(op_index x := spec_entry ep x (m (op_index x)))"

fun run_ops :: "'d fjall \<Rightarrow> codec \<Rightarrow> string \<Rightarrow> cache_op list \<Rightarrow> 'd EndpointCache \<Rightarrow> (string + unit) \<times> 'd EndpointCache" where
  "run_ops fj cd h [] c = (Inr (), c)"
| "run_ops fj cd h (x # xs) c = and_then (apply_op fj cd h x) (run_ops fj cd h xs) c"

text \<open>
  Every operation fails without touching the database, or writes the entry the abstract operation
  gives, or writes nothing where there is nothing to change.
\<close>

definition same_db :: "'d EndpointCache \<Rightarrow> 'd EndpointCache \<Rightarrow> ('d \<Rightarrow> keyspace \<Rightarrow> string \<Rightarrow> string option) \<Rightarrow> bool" where
  "same_db c c' view = (view (db_state c') = view (db_state c) \<and> endpoint_index c' = endpoint_index c)"

definition wrote :: "codec \<Rightarrow> string \<Rightarrow> nat \<Rightarrow> ObjectEntry \<Rightarrow> 'd EndpointCache \<Rightarrow> 'd EndpointCache \<Rightarrow>
    ('d \<Rightarrow> keyspace \<Rightarrow> string \<Rightarrow> string option) \<Rightarrow> bool" where
  "wrote cd h i e c c' view =
     (\<exists>b. to_bytes cd e = Inr b \<and> endpoint_index c' = endpoint_index c
        \<and> view (db_state c') = (view (db_state c))(ObjectsSpace := (view (db_state c) ObjectsSpace)(object_key h i \<mapsto> b)))"

lemma put_entry:
  assumes "fjall_ok fj view" and "to_bytes cd e = Inr b"
    and "put_flushed fj ObjectsSpace (object_key h i) b c = (r, c')"
  shows "wrote cd h i e c c' view \<or> (\<not> is_ok r \<and> same_db c c' view)"
proof -
  have v: "view (db_state c') =
      (if is_ok (fst (write_key fj ObjectsSpace (object_key h i) b c))
       then (view (db_state c))(ObjectsSpace := (view (db_state c) ObjectsSpace)(object_key h i \<mapsto> b))
       else view (db_state c))"
    using put_flushed_view [OF assms(1), of ObjectsSpace "object_key h i" b c] assms(3) by simp
  have i: "endpoint_index c' = endpoint_index c"
    using put_flushed_index [of fj ObjectsSpace "object_key h i" b c] assms(3) by simp
  show ?thesis
  proof (cases "is_ok (fst (write_key fj ObjectsSpace (object_key h i) b c))")
    case True
    then show ?thesis using v i assms(2) by (auto simp: wrote_def)
  next
    case False
    then have "\<not> is_ok r" using put_flushed_split(2) [of fj ObjectsSpace "object_key h i" b c] assms(3) by auto
    then show ?thesis using v i False by (simp add: same_db_def)
  qed
qed

lemma mark_entry_step:
  assumes "fjall_ok fj view" and "mark_entry fj cd f h i c = (r, c')"
  shows "(\<exists>e. object_view cd view h c i = Some e \<and> wrote cd h i (f e) c c' view)
       \<or> (same_db c c' view \<and> (is_ok r \<longrightarrow> object_view cd view h c i = None))"
proof (cases "db_get fj ObjectsSpace (object_key h i) (db_state c)")
  case (Inl e)
  then show ?thesis using assms(2) by (auto simp: mark_entry_def same_db_def)
next
  case (Inr found)
  then have v: "found = view (db_state c) ObjectsSpace (object_key h i)"
    using fjall_okD(1) [OF assms(1)] by blast
  show ?thesis
  proof (cases found)
    case None
    then have "c' = snd (maybe_flush fj c)" using assms(2) Inr by (simp add: mark_entry_def)
    then show ?thesis
      using v None maybe_flush_view [OF assms(1), of c] by (simp add: same_db_def object_view_def)
  next
    case (Some old)
    show ?thesis
    proof (cases "from_bytes cd old")
      case (Inl e)
      then show ?thesis using assms(2) Inr Some by (auto simp: mark_entry_def same_db_def)
    next
      case (Inr e)
      then have o: "object_view cd view h c i = Some e" using v Some by (simp add: object_view_def flip: v)
      show ?thesis
      proof (cases "to_bytes cd (f e)")
        case (Inl x)
        then show ?thesis using assms(2) \<open>db_get _ _ _ _ = Inr found\<close> Some Inr
          by (auto simp: mark_entry_def same_db_def)
      next
        case (Inr b)
        then have "put_flushed fj ObjectsSpace (object_key h i) b c = (r, c')"
          using assms(2) \<open>db_get _ _ _ _ = Inr found\<close> Some \<open>from_bytes cd old = Inr e\<close>
          by (simp add: mark_entry_def)
        from put_entry [OF assms(1) Inr this] o show ?thesis by auto
      qed
    qed
  qed
qed

lemma plan_object_step:
  assumes "fjall_ok fj view" and "plan_object fj cd h i p sz c = (r, c')"
  shows "wrote cd h i (new_planned p sz (endpoint_index c)) c c' view \<or> (\<not> is_ok r \<and> same_db c c' view)"
proof (cases "to_bytes cd (new_planned p sz (endpoint_index c))")
  case (Inl e)
  then show ?thesis using assms(2) by (auto simp: plan_object_def same_db_def)
next
  case (Inr b)
  then show ?thesis using put_entry [OF assms(1) Inr, of h i c r c'] assms(2) by (simp add: plan_object_def)
qed

lemma record_created_step:
  assumes "fjall_ok fj view" and "record_created fj cd now h i p sz ts chk c = (r, c')"
  shows "wrote cd h i (as_created now ts chk (case object_view cd view h c i of
            None \<Rightarrow> new_planned p sz (endpoint_index c) | Some e \<Rightarrow> e)) c c' view
         \<or> (\<not> is_ok r \<and> same_db c c' view)"
proof (cases "db_get fj ObjectsSpace (object_key h i) (db_state c)")
  case (Inl e)
  then show ?thesis using assms(2) by (auto simp: record_created_def same_db_def)
next
  case (Inr found)
  let ?e = "case found of None \<Rightarrow> Inr (new_planned p sz (endpoint_index c)) | Some old \<Rightarrow> from_bytes cd old"
  have v: "found = view (db_state c) ObjectsSpace (object_key h i)"
    using Inr fjall_okD(1) [OF assms(1)] by blast
  show ?thesis
  proof (cases ?e)
    case (Inl x)
    then show ?thesis using assms(2) Inr by (auto simp: record_created_def same_db_def)
  next
    case e: (Inr e)
    then have o: "e = (case object_view cd view h c i of None \<Rightarrow> new_planned p sz (endpoint_index c) | Some e \<Rightarrow> e)"
      using v by (auto simp: object_view_def split: option.splits)
    show ?thesis
    proof (cases "to_bytes cd (as_created now ts chk e)")
      case (Inl x)
      then show ?thesis using assms(2) Inr e by (auto simp: record_created_def same_db_def)
    next
      case b: (Inr b)
      then have "put_flushed fj ObjectsSpace (object_key h i) b c = (r, c')"
        using assms(2) Inr e by (simp add: record_created_def)
      from put_entry [OF assms(1) b this] o show ?thesis by simp
    qed
  qed
qed

text \<open>All operations at once.\<close>

lemma apply_op_step:
  assumes "fjall_ok fj view" and "apply_op fj cd h x c = (r, c')"
  shows "(\<exists>e. spec_entry (endpoint_index c) x (object_view cd view h c (op_index x)) = Some e
            \<and> wrote cd h (op_index x) e c c' view)
       \<or> (same_db c c' view \<and>
            (is_ok r \<longrightarrow> spec_entry (endpoint_index c) x (object_view cd view h c (op_index x))
                          = object_view cd view h c (op_index x)))"
proof -
  have mark: "mark_entry fj cd f h i c = (r, c') \<Longrightarrow> op_index x = i
      \<Longrightarrow> spec_entry (endpoint_index c) x (object_view cd view h c i) = map_option f (object_view cd view h c i)
      \<Longrightarrow> ?thesis" for f i
    using mark_entry_step [OF assms(1), of cd f h i c r c'] by auto
  show ?thesis
  proof (cases x)
    case (PlanOp i p sz)
    then show ?thesis using plan_object_step [OF assms(1), of cd h i p sz c r c'] assms(2) by auto
  next
    case (RecordOp now i p sz ts chk)
    then show ?thesis
      using record_created_step [OF assms(1), of cd now h i p sz ts chk c r c'] assms(2) by auto
  qed (use assms(2) mark in \<open>auto simp: mark_creating_def mark_created_def mark_failed_def mark_deleted_def\<close>)
qed

lemma wrote_view:
  assumes "codec_ok cd" and "wrote cd h i e c c' view"
  shows "object_view cd view h' c' = (if h' = h then (object_view cd view h c)(i \<mapsto> e) else object_view cd view h' c)"
proof -
  obtain b where b: "to_bytes cd e = Inr b" "endpoint_index c' = endpoint_index c"
    "view (db_state c') = (view (db_state c))(ObjectsSpace := (view (db_state c) ObjectsSpace)(object_key h i \<mapsto> b))"
    using assms(2) by (auto simp: wrote_def)
  then have "from_bytes cd b = Inr e" using assms(1) by (auto simp: codec_ok_def)
  then show ?thesis using b by (auto simp: object_view_def fun_eq_iff)
qed

lemma same_db_view: "same_db c c' view \<Longrightarrow> object_view cd view h' c' = object_view cd view h' c"
  by (simp add: same_db_def object_view_def fun_eq_iff)

lemma apply_op_refines:
  assumes "fjall_ok fj view" and "codec_ok cd" and "apply_op fj cd h x c = (Inr u, c')"
  shows "object_view cd view h c' = spec_op (endpoint_index c) (object_view cd view h c) x"
    and "h' \<noteq> h \<Longrightarrow> object_view cd view h' c' = object_view cd view h' c"
    and "endpoint_index c' = endpoint_index c"
proof -
  have "object_view cd view h c' = spec_op (endpoint_index c) (object_view cd view h c) x
      \<and> (h' \<noteq> h \<longrightarrow> object_view cd view h' c' = object_view cd view h' c)
      \<and> endpoint_index c' = endpoint_index c"
    using apply_op_step [OF assms(1,3)]
  proof (elim disjE exE conjE)
    fix e
    assume e: "spec_entry (endpoint_index c) x (object_view cd view h c (op_index x)) = Some e"
      and w: "wrote cd h (op_index x) e c c' view"
    then have "endpoint_index c' = endpoint_index c" by (auto simp: wrote_def)
    then show ?thesis using e wrote_view [OF assms(2) w] by (simp add: spec_op_def)
  next
    assume s: "same_db c c' view"
      and "is_ok (Inr u) \<longrightarrow> spec_entry (endpoint_index c) x (object_view cd view h c (op_index x))
                            = object_view cd view h c (op_index x)"
    then have "spec_op (endpoint_index c) (object_view cd view h c) x = object_view cd view h c"
      by (simp add: spec_op_def)
    then show ?thesis using s by (simp add: same_db_view [OF s]) (simp add: same_db_def)
  qed
  then show "object_view cd view h c' = spec_op (endpoint_index c) (object_view cd view h c) x"
    and "h' \<noteq> h \<Longrightarrow> object_view cd view h' c' = object_view cd view h' c"
    and "endpoint_index c' = endpoint_index c" by blast+
qed

lemma run_ops_refines:
  assumes "fjall_ok fj view" and "codec_ok cd"
  shows "run_ops fj cd h xs c = (Inr (), c') \<Longrightarrow>
    object_view cd view h c' = foldl (spec_op (endpoint_index c)) (object_view cd view h c) xs
    \<and> (\<forall>h'. h' \<noteq> h \<longrightarrow> object_view cd view h' c' = object_view cd view h' c)
    \<and> endpoint_index c' = endpoint_index c"
proof (induction xs arbitrary: c)
  case (Cons x xs)
  obtain r c1 where st: "apply_op fj cd h x c = (r, c1)" by (cases "apply_op fj cd h x c")
  then obtain u where r: "r = Inr u" and rest: "run_ops fj cd h xs c1 = (Inr (), c')"
    using Cons.prems by (cases r) (auto simp: and_then_def)
  note step = apply_op_refines [OF assms st [unfolded r]]
  show ?case using Cons.IH [OF rest] step(1,3) step(2) by simp
qed simp

lemma get_object_view:
  assumes "fjall_ok fj view" and "get_object fj cd h i c = Inr x"
  shows "x = object_view cd view h c i"
  using assms(2) fjall_okD(1) [OF assms(1), of ObjectsSpace "object_key h i" "db_state c"]
  by (auto simp: get_object_def object_view_def split: sum.splits option.splits)

subsection \<open>Typed caches\<close>

text \<open>
  An entry is typed when it belongs to its cache's endpoint and a created object has its creation
  time; a cache is typed when every value of the object space is the encoding of such an entry
  under a key of the documented form.
\<close>

definition entry_typed :: "nat \<Rightarrow> ObjectEntry \<Rightarrow> bool" where
  "entry_typed ep e \<longleftrightarrow>
     endpoint_idx e = ep \<and> obj_state e \<noteq> DirectoryNonExistent \<and> (obj_state e = Created \<longrightarrow> created_at e \<noteq> None)"

definition cache_typed :: "codec \<Rightarrow> ('d \<Rightarrow> keyspace \<Rightarrow> string \<Rightarrow> string option) \<Rightarrow> 'd EndpointCache \<Rightarrow> bool" where
  "cache_typed cd view c \<longleftrightarrow>
     (\<forall>k b. view (db_state c) ObjectsSpace k = Some b \<longrightarrow>
        (\<exists>h i e. CHR '':'' \<notin> set h \<and> i \<le> u64_max \<and> k = object_key h i \<and> from_bytes cd b = Inr e
           \<and> entry_typed (endpoint_index c) e))"

lemma object_view_typed: "cache_typed cd view c \<Longrightarrow> object_view cd view h c i = Some e \<Longrightarrow> entry_typed (endpoint_index c) e"
  by (fastforce simp: cache_typed_def object_view_def split: option.splits sum.splits)

lemma spec_entry_typed:
  assumes "\<And>e. m = Some e \<Longrightarrow> entry_typed ep e" and "spec_entry ep x m = Some e"
  shows "entry_typed ep e"
  using assms by (cases x; cases m) (auto simp: entry_typed_def new_planned_def as_created_def)

lemma apply_op_typed:
  assumes "fjall_ok fj view" and "codec_ok cd" and "cache_typed cd view c"
    and "CHR '':'' \<notin> set h" and "op_index x \<le> u64_max"
  shows "cache_typed cd view (snd (apply_op fj cd h x c))"
proof -
  obtain r c' where st: "apply_op fj cd h x c = (r, c')" by (cases "apply_op fj cd h x c")
  from apply_op_step [OF assms(1) st] have "cache_typed cd view c'"
  proof (elim disjE exE conjE)
    fix e
    assume e: "spec_entry (endpoint_index c) x (object_view cd view h c (op_index x)) = Some e"
      and "wrote cd h (op_index x) e c c' view"
    then obtain b where b: "to_bytes cd e = Inr b" "endpoint_index c' = endpoint_index c"
      "view (db_state c') = (view (db_state c))(ObjectsSpace :=
         (view (db_state c) ObjectsSpace)(object_key h (op_index x) \<mapsto> b))"
      by (auto simp: wrote_def)
    have "entry_typed (endpoint_index c) e"
      using spec_entry_typed [OF object_view_typed [OF assms(3)] e] .
    moreover have "from_bytes cd b = Inr e" using assms(2) b(1) by (auto simp: codec_ok_def)
    ultimately show ?thesis
      using assms(3-5) b(2,3) unfolding cache_typed_def by (auto split: if_splits)
  next
    assume "same_db c c' view"
    then show ?thesis using assms(3) by (simp add: cache_typed_def same_db_def)
  qed
  then show ?thesis using st by simp
qed

lemma and_then_snd:
  "snd (and_then f g s) = (if is_ok (fst (f s)) then snd (g (snd (f s))) else snd (f s))"
  by (auto simp: and_then_def is_ok_def split: prod.splits sum.splits)

lemma run_ops_typed:
  assumes "fjall_ok fj view" and "codec_ok cd" and "CHR '':'' \<notin> set h"
  shows "cache_typed cd view c \<Longrightarrow> list_all (\<lambda>x. op_index x \<le> u64_max) xs \<Longrightarrow> cache_typed cd view (snd (run_ops fj cd h xs c))"
proof (induction xs arbitrary: c)
  case (Cons x xs)
  have "cache_typed cd view (snd (apply_op fj cd h x c))"
    using apply_op_typed [OF assms(1,2) Cons.prems(1) assms(3)] Cons.prems(2) by simp
  then show ?case using Cons by (simp add: and_then_snd)
qed simp

subsection \<open>What the scans count\<close>

lemma scan_entries_ok: "list_all (\<lambda>kv. is_ok (from_bytes cd (snd kv))) l \<Longrightarrow> is_ok (scan_entries cd pre l)"
  by (induction l) (auto simp: is_ok_iff split: option.split sum.splits)

lemma scan_entries_spec:
  "scan_entries cd pre l = Inr es \<Longrightarrow> distinct (map fst l) \<Longrightarrow>
     distinct (map fst es)
   \<and> set es = {(rest, e). \<exists>k v. (k, v) \<in> set l \<and> strip_prefix pre k = Some rest \<and> from_bytes cd v = Inr e}"
proof (induction l arbitrary: es)
  case (Cons kv l)
  obtain k v where kv: "kv = (k, v)" by (cases kv)
  show ?case
  proof (cases "strip_prefix pre k")
    case None
    then show ?thesis using Cons kv by auto
  next
    case (Some rest)
    obtain e es' where e: "from_bytes cd v = Inr e" "scan_entries cd pre l = Inr es'" "es = (rest, e) # es'"
      using Cons.prems(1) kv Some by (auto simp: bind_result_Inr_iff split: sum.splits)
    have new: "rest \<notin> fst ` set es'"
    proof
      assume "rest \<in> fst ` set es'"
      then obtain k' v' where "(k', v') \<in> set l" "strip_prefix pre k' = Some rest"
        using Cons.IH [OF e(2)] Cons.prems(2) kv by auto
      moreover have "k' = k" using calculation(2) Some by (auto dest!: strip_prefix_SomeD)
      ultimately show False using Cons.prems(2) kv by (auto simp: rev_image_eqI)
    qed
    then show ?thesis using Cons.IH [OF e(2)] Cons.prems(2) kv Some e(1,3) by auto
  qed
qed simp

lemma scan_objects_spec:
  assumes "fjall_ok fj view" and "cache_typed cd view c" and h: "CHR '':'' \<notin> set h"
    and es: "scan_objects fj cd h c = Inr es"
  shows "distinct (map fst es)"
    and "set es = {(show_padded 8 i, e) |i e. object_view cd view h c i = Some e}"
proof -
  obtain l where l: "db_iter fj ObjectsSpace (db_state c) = Inr l" "scan_entries cd (h @ '':'') l = Inr es"
    using es by (auto simp: scan_objects_def bind_result_Inr_iff)
  note d = fjall_okD(4) [OF assms(1) l(1)]
  note v = fjall_okD(3) [OF assms(1) l(1)]
  show "distinct (map fst es)" using scan_entries_spec [OF l(2) d] by blast
  have in_l: "(k, b) \<in> set l \<longleftrightarrow> view (db_state c) ObjectsSpace k = Some b" for k b
    using d v by (metis map_of_eq_Some_iff)
  have "(rest, e) \<in> set es \<longleftrightarrow> (\<exists>i. rest = show_padded 8 i \<and> object_view cd view h c i = Some e)" for rest e
  proof
    assume "(rest, e) \<in> set es"
    then obtain k b where k: "view (db_state c) ObjectsSpace k = Some b"
        "strip_prefix (h @ '':'') k = Some rest" "from_bytes cd b = Inr e"
      using scan_entries_spec [OF l(2) d] in_l by auto
    moreover obtain h' i where "CHR '':'' \<notin> set h'" "k = object_key h' i"
      using assms(2) k(1) unfolding cache_typed_def by blast
    ultimately show "\<exists>i. rest = show_padded 8 i \<and> object_view cd view h c i = Some e"
      using key_of_hash [OF h, of h' i] by (auto simp: object_view_def split: if_splits)
  next
    assume "\<exists>i. rest = show_padded 8 i \<and> object_view cd view h c i = Some e"
    then obtain i b where "rest = show_padded 8 i" "view (db_state c) ObjectsSpace (object_key h i) = Some b"
        "from_bytes cd b = Inr e"
      by (auto simp: object_view_Some_iff)
    then show "(rest, e) \<in> set es" using scan_entries_spec [OF l(2) d] in_l key_of_hash [OF h h, of i] by auto
  qed
  then show "set es = {(show_padded 8 i, e) |i e. object_view cd view h c i = Some e}" by auto
qed

definition objects_in ::
  "codec \<Rightarrow> ('d \<Rightarrow> keyspace \<Rightarrow> string \<Rightarrow> string option) \<Rightarrow> string \<Rightarrow> ObjectState \<Rightarrow> 'd EndpointCache \<Rightarrow> nat set" where
  "objects_in cd view h s c = {i. \<exists>e. object_view cd view h c i = Some e \<and> obj_state e = s}"

lemma scan_counts:
  assumes "fjall_ok fj view" and "cache_typed cd view c" and "CHR '':'' \<notin> set h"
    and "scan_objects fj cd h c = Inr es"
  shows "length (filter (\<lambda>(_, e). obj_state e = s) es) = card (objects_in cd view h s c)"
proof -
  note spec = scan_objects_spec [OF assms]
  let ?f = "\<lambda>i. (show_padded 8 i, the (object_view cd view h c i))"
  have "distinct es" using spec(1) by (simp add: distinct_map)
  then have "length (filter (\<lambda>(_, e). obj_state e = s) es) = card (set (filter (\<lambda>(_, e). obj_state e = s) es))"
    by (metis distinct_card distinct_filter)
  also have "set (filter (\<lambda>(_, e). obj_state e = s) es) = ?f ` objects_in cd view h s c"
    by (auto simp: spec(2) objects_in_def image_iff)
  also have "card \<dots> = card (objects_in cd view h s c)"
    by (rule card_image) (auto simp: inj_on_def)
  finally show ?thesis .
qed

lemma count_of_bump: "count_of (bump k n m) s = count_of m s + (if k = s then n else 0)"
  by (auto simp: count_of_def bump_def hash_simps split: option.split)

lemma count_of_Nil [simp]: "count_of [] s = 0"
  by (simp add: count_of_def)

lemma hwf_bump: "hwf m \<Longrightarrow> hwf (bump k n m)"
  by (simp add: bump_def hash_simps)

lemma fold_bump:
  "count_of (foldl (\<lambda>m (_, e). bump (obj_state e) 1 m) m es) s
     = count_of m s + length (filter (\<lambda>(_, e). obj_state e = s) es)"
  "hwf m \<Longrightarrow> hwf (foldl (\<lambda>m (_, e). bump (obj_state e) 1 m) m es)"
  by (induction es arbitrary: m) (auto simp: count_of_bump hwf_bump)

lemma count_of_add_counts:
  "hwf counts \<Longrightarrow> count_of (add_counts totals counts) s = count_of totals s + count_of counts s"
proof (induction counts arbitrary: totals)
  case (Cons kn counts)
  obtain k n where kn: "kn = (k, n)" by (cases kn)
  have "count_of (kn # counts) s = (if k = s then n else count_of counts s)"
    by (simp add: kn count_of_def hget_def)
  moreover have "k = s \<Longrightarrow> count_of counts s = 0"
    using Cons.prems kn by (simp add: hwf_def count_of_def hget_def map_of_eq_None_iff [THEN iffD2])
  ultimately show ?case
    using Cons kn by (auto simp: add_counts_def count_of_bump hwf_def)
qed (simp add: add_counts_def)

lemma count_and_bytes_counts:
  assumes "fjall_ok fj view" and "cache_typed cd view c" and "CHR '':'' \<notin> set h"
    and "count_and_bytes_by_state fj cd h c = Inr (counts, bytes)"
  shows "count_of counts s = card (objects_in cd view h s c)" and "hwf counts"
proof -
  obtain es where es: "scan_objects fj cd h c = Inr es"
      "counts = foldl (\<lambda>m (_, e). bump (obj_state e) 1 m) [] es"
    using assms(4) by (auto simp: count_and_bytes_by_state_def bind_result_Inr_iff)
  show "count_of counts s = card (objects_in cd view h s c)"
    using scan_counts [OF assms(1-3) es(1), of s] es(2) fold_bump(1) [of "[]" es s] by simp
  show "hwf counts" using fold_bump(2) [OF hwf_Nil] es(2) by blast
qed

lemma aggregate_coverage_counts:
  assumes "fjall_ok fj view" and "CHR '':'' \<notin> set h"
  shows "list_all (\<lambda>(i, c). cache_typed cd view c) eps \<Longrightarrow>
    aggregate_coverage_from fj cd h eps totals = Inr (counts, bytes) \<Longrightarrow>
    count_of counts s = count_of (fst totals) s + sum_list (map (\<lambda>(i, c). card (objects_in cd view h s c)) eps)"
proof (induction eps arbitrary: totals)
  case (Cons ic eps)
  obtain i c where ic: "ic = (i, c)" by (cases ic)
  obtain cs bs where st: "count_and_bytes_by_state fj cd h c = Inr (cs, bs)"
      "aggregate_coverage_from fj cd h eps (add_counts (fst totals) cs, add_counts (snd totals) bs) = Inr (counts, bytes)"
    using Cons.prems(2) ic by (auto simp: bind_result_Inr_iff)
  have "cache_typed cd view c" using Cons.prems(1) ic by simp
  note one = count_and_bytes_counts [OF assms(1) this assms(2) st(1)]
  show ?case
    using Cons.IH [OF _ st(2)] Cons.prems(1) ic one(1) count_of_add_counts [OF one(2)] by simp
qed simp

subsection \<open>Integers, maps and batches\<close>

lemma le_bytes_Suc: "le_bytes (Suc k) n = char_of (n mod 256) # le_bytes k (n div 256)"
proof -
  have u: "[0..<Suc k] = 0 # map Suc [0..<k]"
    by (simp add: map_Suc_upt upt_conv_Cons del: upt_Suc)
  show ?thesis unfolding le_bytes_def u by (simp add: div_mult2_eq)
qed

lemma le_bytes_length [simp]: "length (le_bytes k n) = k"
  by (simp add: le_bytes_def)

lemma from_le_bytes_le_bytes: "from_le_bytes (le_bytes k n) = n mod 256 ^ k"
proof (induction k arbitrary: n)
  case (Suc k)
  have "n mod (256 * 256 ^ k) = 256 * (n div 256 mod 256 ^ k) + n mod 256" by (rule mod_mult2_eq)
  then show ?case using Suc [of "n div 256"] by (simp add: le_bytes_Suc)
qed (simp add: le_bytes_def)

lemma map_key_inject: "map_key h kind i = map_key h kind j \<longleftrightarrow> i = j"
  by (simp add: map_key_def)

lemma write_key_view:
  assumes "fjall_ok fj view" and "write_key fj ks k v c = (Inr u, c')"
  shows "view (db_state c') = (view (db_state c))(ks := (view (db_state c) ks)(k \<mapsto> v))"
proof -
  have "is_ok (fst (db_insert fj ks k v (db_state c)))" "db_state c' = snd (db_insert fj ks k v (db_state c))"
    using assms(2) by (auto simp: write_key_def Let_def split_beta)
  then show ?thesis by (simp add: fjall_okD(2) [OF assms(1)])
qed

lemma put_flushed_ok:
  assumes "fjall_ok fj view" and "put_flushed fj ks k v c = (Inr u, c')"
  shows "view (db_state c') = (view (db_state c))(ks := (view (db_state c) ks)(k \<mapsto> v))"
  using put_flushed_view [OF assms(1), of ks k v c] put_flushed_split(2) [of fj ks k v c] assms(2) by simp

lemma and_then_Inr: "and_then f g s = (Inr y, t) \<Longrightarrow> \<exists>x s'. f s = (Inr x, s') \<and> g s' = (Inr y, t)"
  by (auto simp: and_then_def split: prod.splits sum.splits)

lemma populate_from_view:
  assumes "fjall_ok fj view"
  shows "populate_from fj h kind n idxs c = (Inr (), c') \<Longrightarrow>
    view (db_state c') EndpointMapSpace (map_key h kind i) =
      (if i \<in> set idxs then Some (le_bytes 4 (i mod n mod 2 ^ 32))
       else view (db_state c) EndpointMapSpace (map_key h kind i))"
proof (induction idxs arbitrary: c)
  case Nil
  then show ?case using force_flush_view [OF assms, of c] by simp
next
  case (Cons j idxs)
  obtain u c1 where w: "write_key fj EndpointMapSpace (map_key h kind j) (le_bytes 4 (j mod n mod 2 ^ 32)) c = (Inr u, c1)"
    and r: "and_then (\<lambda>c. if (j + 1) mod 100000 = 0 then maybe_flush fj c else (Inr (), c))
              (populate_from fj h kind n idxs) c1 = (Inr (), c')"
    using and_then_Inr [OF Cons.prems [unfolded populate_from.simps]] by blast
  obtain u2 c2 where c2: "(if (j + 1) mod 100000 = 0 then maybe_flush fj c1 else (Inr (), c1)) = (Inr u2, c2)"
    and r2: "populate_from fj h kind n idxs c2 = (Inr (), c')"
    using and_then_Inr [OF r] by blast
  have "view (db_state c2) = view (db_state c1)"
    using c2 maybe_flush_view [OF assms, of c1] by (auto split: if_splits)
  then show ?case
    using Cons.IH [OF r2] write_key_view [OF assms w] by (auto simp: map_key_inject)
qed

lemma plan_batch_from_view:
  assumes "fjall_ok fj view" and "codec_ok cd"
  shows "plan_batch_from fj cd h k objs c = (Inr (), c') \<Longrightarrow>
    object_view cd view h c' =
      foldl (spec_op (endpoint_index c)) (object_view cd view h c) (map (\<lambda>(i, p, sz). PlanOp i p sz) objs)
    \<and> endpoint_index c' = endpoint_index c"
proof (induction objs arbitrary: k c)
  case Nil
  then have "c' = snd (force_flush fj c)" by simp
  then show ?case using force_flush_view [OF assms(1), of c] by (simp add: object_view_def fun_eq_iff)
next
  case (Cons x objs)
  obtain i p sz where x: "x = (i, p, sz)" by (cases x)
  let ?e = "new_planned p sz (endpoint_index c)"
  obtain b where b: "to_bytes cd ?e = Inr b"
    and w0: "and_then (write_key fj ObjectsSpace (object_key h i) b)
            (and_then (\<lambda>c. if (k + 1) mod 100000 = 0 then maybe_flush fj c else (Inr (), c))
              (plan_batch_from fj cd h (k + 1) objs)) c = (Inr (), c')"
    using Cons.prems x by (auto split: sum.splits)
  obtain u c1 where w: "write_key fj ObjectsSpace (object_key h i) b c = (Inr u, c1)"
    and r: "and_then (\<lambda>c. if (k + 1) mod 100000 = 0 then maybe_flush fj c else (Inr (), c))
              (plan_batch_from fj cd h (k + 1) objs) c1 = (Inr (), c')"
    using and_then_Inr [OF w0] by blast
  obtain u2 c2 where c2: "(if (k + 1) mod 100000 = 0 then maybe_flush fj c1 else (Inr (), c1)) = (Inr u2, c2)"
    and r2: "plan_batch_from fj cd h (k + 1) objs c2 = (Inr (), c')"
    using and_then_Inr [OF r] by blast
  have i1: "endpoint_index c1 = endpoint_index c" using w flush_index(4) [of fj ObjectsSpace "object_key h i" b c] by simp
  have "wrote cd h i ?e c c1 view" using b i1 write_key_view [OF assms(1) w] by (auto simp: wrote_def)
  from wrote_view [OF assms(2) this, of h]
  have v1: "object_view cd view h c1 = spec_op (endpoint_index c) (object_view cd view h c) (PlanOp i p sz)"
    by (simp add: spec_op_def)
  have "endpoint_index c2 = endpoint_index c1"
    using c2 flush_index(2) [of fj c1] by (cases "(k + 1) mod 100000 = 0") (auto simp del: flush_index)
  moreover have "view (db_state c2) = view (db_state c1)"
    using c2 maybe_flush_view [OF assms(1), of c1] by (auto split: if_splits)
  ultimately have "object_view cd view h c2 = object_view cd view h c1" "endpoint_index c2 = endpoint_index c"
    using i1 by (auto simp: object_view_def fun_eq_iff)
  then show ?case using Cons.IH [OF r2] v1 x by simp
qed

subsection \<open>Pending writes\<close>

definition flush_inv :: "nat \<Rightarrow> ('d, 'b) cache_db_scheme \<Rightarrow> bool" where
  "flush_inv n c = (flush_policy c = BatchSize n \<and> pending_writes c < max n 1)"

lemma maybe_flush_inv: "flush_inv n (snd (maybe_flush fj c))" if "flush_inv n c"
  using that
  by (auto simp: flush_inv_def maybe_flush_def persist_def Let_def split_beta split: FlushPolicy.split)

lemma write_key_inv: "flush_inv n (snd (write_key fj ks k v c)) = flush_inv n c"
  by (simp add: flush_inv_def write_key_def Let_def split_beta split: FlushPolicy.split)

lemma put_flushed_inv: "flush_inv n c \<Longrightarrow> flush_inv n (snd (put_flushed fj ks k v c))"
  by (simp add: put_flushed_split(1) maybe_flush_inv write_key_inv)

lemma mark_entry_inv: "flush_inv n c \<Longrightarrow> flush_inv n (snd (mark_entry fj cd f h i c))"
  by (auto simp: mark_entry_def maybe_flush_inv put_flushed_inv split: sum.split option.split)

lemma apply_op_inv: "flush_inv n c \<Longrightarrow> flush_inv n (snd (apply_op fj cd h x c))"
  by (cases x)
    (auto simp: plan_object_def record_created_def mark_creating_def mark_created_def mark_failed_def
      mark_deleted_def mark_entry_inv put_flushed_inv split: sum.split option.split)

lemma run_ops_inv: "flush_inv n c \<Longrightarrow> flush_inv n (snd (run_ops fj cd h xs c))"
  by (induction xs arbitrary: c) (simp_all add: and_then_snd apply_op_inv)

subsection \<open>A database and an encoding that keep the laws\<close>

type_synonym table = "(keyspace \<times> string, string) hmap"

definition table_view :: "table \<Rightarrow> keyspace \<Rightarrow> string \<Rightarrow> string option" where
  "table_view d ks k = hget d (ks, k)"

definition table_fjall :: "table fjall" where
  "table_fjall =
     \<lparr> db_get = (\<lambda>ks k d. Inr (hget d (ks, k))),
       db_insert = (\<lambda>ks k v d. (Inr (), hput (ks, k) v d)),
       db_iter = (\<lambda>ks d. if hwf d then Inr (map (\<lambda>((_, k), v). (k, v)) (filter (\<lambda>((s, _), _). s = ks) d))
                         else Inl ''corrupt''),
       db_persist = (\<lambda>d. (Inr (), d)) \<rparr>"

lemma map_of_keyspace:
  "map_of (map (\<lambda>((_, k), v). (k, v)) (filter (\<lambda>((s, _), _). s = ks) d)) k = map_of d (ks, k)"
  by (induction d) auto

lemma distinct_keyspace:
  "distinct (map fst d) \<Longrightarrow> distinct (map fst (map (\<lambda>((_, k), v). (k, v)) (filter (\<lambda>((s, _), _). s = ks) d)))"
proof (induction d)
  case (Cons x d)
  obtain s k v where "x = ((s, k), v)" by (metis prod.exhaust)
  then show ?case using Cons by (auto simp: rev_image_eqI)
qed simp

lemma table_fjall_ok: "fjall_ok table_fjall table_view"
proof -
  have "table_view (hput (ks, k) v d) = (table_view d)(ks := (table_view d ks)(k \<mapsto> v))" for ks k v d
    by (auto simp: table_view_def fun_eq_iff hash_simps)
  moreover have "map_of l = table_view d ks \<and> distinct (map fst l)"
    if "db_iter table_fjall ks d = Inr l" for ks d l
    using that distinct_keyspace [of d ks]
    by (auto simp: table_fjall_def hwf_def table_view_def hget_def map_of_keyspace fun_eq_iff split: if_splits)
  ultimately show ?thesis
    unfolding fjall_ok_def by (simp add: table_fjall_def) (auto simp: table_view_def fun_eq_iff)
qed

definition show_option :: "nat option \<Rightarrow> string" where
  "show_option x = (case x of None \<Rightarrow> [] | Some n \<Rightarrow> show_nat n)"

definition read_option :: "string \<Rightarrow> nat option" where
  "read_option s = (if s = [] then None else parse_digits 0 s)"

definition text_codec :: codec where
  "text_codec =
     \<lparr> to_bytes = (\<lambda>e. Inr (show_nat (obj_size e) @ '','' @ show_nat (to_u8 (obj_state e)) @ '',''
          @ show_nat (endpoint_idx e) @ '','' @ show_option (created_at e) @ '','' @ show_option (checksum e)
          @ '','' @ obj_path e)),
       from_bytes = (\<lambda>b. case split_on (CHR '','') b of
            sz # st # ep # ca # ck # p \<Rightarrow>
              (case (parse_digits 0 sz, parse_digits 0 st, parse_digits 0 ep) of
                 (Some sz, Some st, Some ep) \<Rightarrow>
                   (case from_u8 st of
                      Some st \<Rightarrow> Inr \<lparr> obj_path = join_with '','' p, obj_size = sz, obj_state = st,
                        endpoint_idx = ep, created_at = read_option ca, checksum = read_option ck \<rparr>
                    | None \<Rightarrow> Inl ''bad state'')
               | _ \<Rightarrow> Inl ''bad number'')
          | _ \<Rightarrow> Inl ''too short'') \<rparr>"

lemma show_nat_no_comma: "CHR '','' \<notin> set (show_nat n)"
  using show_nat_digits [of "CHR '',''" n] by (auto simp: digit_val_def)

lemma read_show_option [simp]: "read_option (show_option x) = x" "CHR '','' \<notin> set (show_option x)"
  by (auto simp: read_option_def show_option_def parse_digits_show show_nat_no_comma split: option.split)

lemma text_codec_ok: "codec_ok text_codec"
  by (auto simp: codec_ok_def text_codec_def split_on_append show_nat_no_comma parse_digits_show
      object_state_byte(1) join_split)

definition empty_endpoint :: "nat \<Rightarrow> table EndpointCache" where
  "empty_endpoint i =
     \<lparr> db_state = [], pending_writes = 0, flush_policy = FlushPolicy_default, endpoint_index = i,
       endpoint_uri = ''file:///mnt/nvme1/'', cache_location = ''/tmp/sai3-cache'' \<rparr>"

definition sample_ops :: "cache_op list" where
  "sample_ops = [PlanOp 7 ''d1/file_00000007.dat'' 4, CreatingOp 7, CreatedOp 9 7 None (Some 5),
     RecordOp 10 8 ''d1/file_00000008.dat'' 10 None None, FailedOp 8]"

lemma empty_endpoint_simps [simp]:
  "object_view cd table_view h (empty_endpoint i) = Map.empty" "endpoint_index (empty_endpoint i) = i"
  by (simp_all add: object_view_def table_view_def empty_endpoint_def fun_eq_iff)

lemma empty_endpoint_typed: "cache_typed cd table_view (empty_endpoint i)"
  by (simp add: cache_typed_def empty_endpoint_def table_view_def)

subsection \<open>Properties\<close>

text \<open>
  C15: The cache refines the abstract object map: after operations that all succeeded, the entries
  of the hash are those the abstract operations give, the entries of every other hash are
  untouched, and a successful lookup returns the abstract entry.
\<close>

theorem cache_refines_object_map:
  assumes "fjall_ok fj view" and "codec_ok cd" and "run_ops fj cd h xs c = (Inr (), c')"
    and "m = foldl (spec_op (endpoint_index c)) (object_view cd view h c) xs"
  shows "object_view cd view h c' = m
    \<and> (\<forall>h'. h' \<noteq> h \<longrightarrow> object_view cd view h' c' = object_view cd view h' c)
    \<and> (get_object fj cd h i c' = Inr x \<longrightarrow> x = m i)"
  using run_ops_refines [OF assms(1-3)] get_object_view [OF assms(1), of cd h i c' x] assms(4) by simp

lemma sample_ops_run: "fst (run_ops table_fjall text_codec ''ab'' sample_ops (empty_endpoint 1)) = Inr ()"
  by code_simp

lemma cache_refines_object_map_witness:
  "let c' = snd (run_ops table_fjall text_codec ''ab'' sample_ops (empty_endpoint 1))
   in object_view text_codec table_view ''ab'' c' 7 =
        Some \<lparr> obj_path = ''d1/file_00000007.dat'', obj_size = 4, obj_state = Created, endpoint_idx = 1,
               created_at = Some 9, checksum = Some 5 \<rparr>
    \<and> map_option obj_state (object_view text_codec table_view ''ab'' c' 8) = Some ObjectFailed
    \<and> object_view text_codec table_view ''ba'' c' 7 = None"
proof -
  let ?c = "empty_endpoint 1"
  let ?r = "run_ops table_fjall text_codec ''ab'' sample_ops ?c"
  have run: "?r = (Inr (), snd ?r)" using sample_ops_run by (metis prod.collapse)
  show ?thesis
    using cache_refines_object_map [OF table_fjall_ok text_codec_ok run refl]
    by (simp add: Let_def) (simp add: sample_ops_def spec_op_def new_planned_def as_created_def)
qed

text \<open>
  C16: A typed cache stays typed under every sequence of operations, failing ones included, and in
  a typed cache no stored value is unreadable: scans and lookups fail only when the database does.
\<close>

theorem cache_stays_typed:
  assumes "fjall_ok fj view" and "codec_ok cd" and "CHR '':'' \<notin> set h"
    and "cache_typed cd view c" and "list_all (\<lambda>x. op_index x \<le> u64_max) xs"
    and "c' = snd (run_ops fj cd h xs c)"
  shows "cache_typed cd view c'
    \<and> is_ok (scan_objects fj cd h' c') = is_ok (db_iter fj ObjectsSpace (db_state c'))
    \<and> is_ok (get_object fj cd h' i c') = is_ok (db_get fj ObjectsSpace (object_key h' i) (db_state c'))"
proof -
  have typed: "cache_typed cd view c'" using run_ops_typed [OF assms(1-5)] assms(6) by simp
  have dec: "is_ok (from_bytes cd b)" if "view (db_state c') ObjectsSpace k = Some b" for k b
    using typed that unfolding cache_typed_def by fastforce
  have "is_ok (scan_objects fj cd h' c')" if l: "db_iter fj ObjectsSpace (db_state c') = Inr l" for l
  proof -
    have "list_all (\<lambda>kv. is_ok (from_bytes cd (snd kv))) l"
      using dec fjall_okD(3,4) [OF assms(1) l] by (auto simp: list_all_iff) (metis map_of_eq_Some_iff)
    from scan_entries_ok [OF this] show ?thesis using l by (simp add: scan_objects_def)
  qed
  moreover have "is_ok (get_object fj cd h' i c')"
    if x: "db_get fj ObjectsSpace (object_key h' i) (db_state c') = Inr x" for x
  proof (cases x)
    case (Some b)
    then have "is_ok (from_bytes cd b)"
      using dec [of "object_key h' i" b] fjall_okD(1) [OF assms(1) x] by simp
    then show ?thesis using x Some by (auto simp: get_object_def is_ok_iff)
  qed (simp add: get_object_def x)
  moreover have "\<not> is_ok (scan_objects fj cd h' c')"
    if "db_iter fj ObjectsSpace (db_state c') = Inl e" for e
    using that by (simp add: scan_objects_def)
  moreover have "\<not> is_ok (get_object fj cd h' i c')"
    if "db_get fj ObjectsSpace (object_key h' i) (db_state c') = Inl e" for e
    using that by (simp add: get_object_def)
  ultimately show ?thesis
    using typed by (cases "db_iter fj ObjectsSpace (db_state c')";
      cases "db_get fj ObjectsSpace (object_key h' i) (db_state c')") auto
qed

lemma cache_stays_typed_witness:
  "cache_typed text_codec table_view (snd (run_ops table_fjall text_codec ''ab'' sample_ops (empty_endpoint 1)))"
  using cache_stays_typed [OF table_fjall_ok text_codec_ok _ empty_endpoint_typed _ refl, of "''ab''" sample_ops 1]
  by (simp add: sample_ops_def u64_max_def)

text \<open>
  The coverage that lets prepare skip a listing is exact: in typed caches the created count is
  the number of objects whose entry is in state Created, over all endpoints, and the listing is
  skipped exactly when that number is positive and reaches the expected one.
\<close>

lemma coverage_counts_created:
  assumes "fjall_ok fj view" and "CHR '':'' \<notin> set (config_hash m)"
    and "list_all (\<lambda>(i, c). cache_typed cd view c) (cache_endpoints m)"
    and "check_listing_coverage fj cd expected m = Inr (Some cov)"
    and "amount = sum_list (map (\<lambda>(i, c). card (objects_in cd view (config_hash m) Created c)) (cache_endpoints m))"
  shows "created_count cov = amount \<and> covers_all cov = (expected \<le> amount \<and> 0 < expected)"
proof -
  obtain counts bytes where a: "aggregate_coverage_from fj cd (config_hash m) (cache_endpoints m) ([], []) = Inr (counts, bytes)"
      and "cov = from_state_counts counts bytes expected"
    using assms(4) by (auto simp: check_listing_coverage_def aggregate_coverage_def bind_result_Inr_iff split: if_splits)
  moreover have "count_of counts Created = amount"
    using aggregate_coverage_counts [OF assms(1,2,3) a] assms(5) by simp
  ultimately show ?thesis by (simp add: from_state_counts_def Let_def)
qed

definition sample_cache :: "table MetadataCache" where
  "sample_cache =
     \<lparr> coordinator = \<lparr> db_state = [], pending_writes = 0, flush_policy = FlushPolicy_default, cache_dir = ''r'' \<rparr>,
       cache_endpoints = [(0, empty_endpoint 0),
         (1, snd (run_ops table_fjall text_codec ''ab'' sample_ops (empty_endpoint 1)))],
       config_hash = ''ab'' \<rparr>"

lemma coverage_counts_created_witness:
  "\<exists>cov. check_listing_coverage table_fjall text_codec 1 sample_cache = Inr (Some cov)
     \<and> covers_all cov = (1 \<le> sum_list (map (\<lambda>(i, c). card (objects_in text_codec table_view ''ab'' Created c))
                                (cache_endpoints sample_cache)))"
proof -
  have "case check_listing_coverage table_fjall text_codec 1 sample_cache of
      Inr (Some cov) \<Rightarrow> created_count cov = 1 | _ \<Rightarrow> False" by code_simp
  then obtain cov where cov: "check_listing_coverage table_fjall text_codec 1 sample_cache = Inr (Some cov)"
    by (auto split: sum.splits option.splits)
  have "list_all (\<lambda>(i, c). cache_typed text_codec table_view c) (cache_endpoints sample_cache)"
    using run_ops_typed [OF table_fjall_ok text_codec_ok _ empty_endpoint_typed, of "''ab''" sample_ops 1]
    by (simp add: sample_cache_def empty_endpoint_typed) (simp add: sample_ops_def u64_max_def)
  from coverage_counts_created [OF table_fjall_ok _ this cov refl] cov show ?thesis
    by (simp add: sample_cache_def)
qed

text \<open>
  Seeds and the endpoint map read back: a stored 64-bit seed is returned as it was, and after
  the map was populated every file's entry is the endpoint that owns the file.
\<close>

lemma seeds_and_map_read_back:
  assumes "fjall_ok fj view" and "put_seed fj h kind i seed c = (Inr (), c1)"
    and "populate_endpoint_map fj h strat n_files n c = (Inr (), c2)"
    and "j < n_files" and "0 < n" and "n \<le> 2 ^ 32"
  shows "(get_seed fj h kind i c1 = Inr x \<longrightarrow> x = Some (unat seed))
    \<and> (get_endpoint_index fj h strat j c2 = Inr y \<longrightarrow>
         (\<exists>e. y = Some e \<and> e < n \<and> owns_file j n (c\<lparr>endpoint_index := e\<rparr>)))"
proof -
  have s: "view (db_state c1) SeedSpace (map_key h kind i) = Some (le_bytes 8 (unat seed))"
    using put_flushed_ok [OF assms(1) assms(2) [unfolded put_seed_def]] by simp
  have "unat seed < 2 ^ LENGTH(64)" by (rule unsigned_less)
  then have "unat seed mod 256 ^ 8 = unat seed" by simp
  then have g: "get_seed fj h kind i c1 = Inr x \<Longrightarrow> x = Some (unat seed)"
    using s by (auto simp: get_seed_def bind_result_Inr_iff read_int_def from_le_bytes_le_bytes
        dest!: fjall_okD(1) [OF assms(1)] split: option.splits if_splits)
  have m: "view (db_state c2) EndpointMapSpace (map_key h strat j) = Some (le_bytes 4 (j mod n mod 2 ^ 32))"
    using populate_from_view [OF assms(1) assms(3) [unfolded populate_endpoint_map_def], of j] assms(4) by simp
  have lt: "j mod n < n" using assms(5) by simp
  then have "j mod n mod 2 ^ 32 mod 256 ^ 4 = j mod n" using assms(6) by simp
  then have "get_endpoint_index fj h strat j c2 = Inr y \<Longrightarrow> y = Some (j mod n)"
    using m by (auto simp: get_endpoint_index_def bind_result_Inr_iff read_int_def from_le_bytes_le_bytes
        dest!: fjall_okD(1) [OF assms(1)] split: option.splits if_splits)
  then show ?thesis using g lt by (auto simp: owns_file_def)
qed

lemma seeds_and_map_read_back_witness:
  "let c1 = snd (put_seed table_fjall ''ab'' ''size'' 3 77 (empty_endpoint 0));
       c2 = snd (populate_endpoint_map table_fjall ''ab'' ''round_robin'' 5 2 (empty_endpoint 0))
   in get_seed table_fjall ''ab'' ''size'' 3 c1 = Inr (Some 77)
    \<and> get_endpoint_index table_fjall ''ab'' ''round_robin'' 4 c2 = Inr (Some 0)"
proof -
  let ?p = "put_seed table_fjall ''ab'' ''size'' 3 77 (empty_endpoint 0)"
  let ?m = "populate_endpoint_map table_fjall ''ab'' ''round_robin'' 5 2 (empty_endpoint 0)"
  note run_defs = put_flushed_def and_then_def write_key_def table_fjall_def maybe_flush_def empty_endpoint_def
    force_flush_def persist_def FlushPolicy_default_def upt_rec
  have "fst ?p = Inr ()" "fst ?m = Inr ()"
    by (simp_all add: run_defs put_seed_def populate_endpoint_map_def)
  then have p: "?p = (Inr (), snd ?p)" and m: "?m = (Inr (), snd ?m)" by (metis prod.collapse)+
  have "is_ok (get_seed table_fjall ''ab'' ''size'' 3 (snd ?p))"
    by (simp add: run_defs put_seed_def get_seed_def hash_simps read_int_def)
  moreover have "is_ok (get_endpoint_index table_fjall ''ab'' ''round_robin'' 4 (snd ?m))"
    by (simp add: run_defs populate_endpoint_map_def get_endpoint_index_def hash_simps read_int_def)
  ultimately obtain x y where g: "get_seed table_fjall ''ab'' ''size'' 3 (snd ?p) = Inr x"
      "get_endpoint_index table_fjall ''ab'' ''round_robin'' 4 (snd ?m) = Inr y"
    by (auto simp: is_ok_iff)
  from seeds_and_map_read_back [OF table_fjall_ok p m, of 4 x y] g show ?thesis
    by (auto simp: owns_file_def Let_def)
qed

text \<open>
  Under a batch policy the writes waiting for a flush stay below the batch size, whatever
  operations are run and whether they fail.
\<close>

lemma pending_writes_below_batch:
  assumes "flush_policy c = BatchSize n" and "0 < n" and "pending_writes c < n"
    and "c' = snd (run_ops fj cd h xs c)"
  shows "flush_policy c' = BatchSize n \<and> pending_write_count c' < n"
  using run_ops_inv [of n c fj cd h xs] assms by (simp add: flush_inv_def pending_write_count_def)

lemma pending_writes_below_batch_witness:
  "pending_write_count (snd (run_ops table_fjall text_codec ''ab'' sample_ops (set_flush_policy (batch 3) (empty_endpoint 1)))) < 3"
  using pending_writes_below_batch [OF _ _ _ refl, of "set_flush_policy (batch 3) (empty_endpoint 1)" 3
      table_fjall text_codec "''ab''" sample_ops]
  by (simp add: set_flush_policy_def batch_def)

end
