(* ===== verification/Cache_Checkpoint.thy ===== *)
theory Cache_Checkpoint
  imports Metadata_Cache
begin

text \<open>
  Checkpoints of the metadata cache (\<open>src/metadata_cache.rs\<close>): which endpoints share a storage
  location, where a cache lives on the local disk, the archive written to the storage under test
  with its retries, and its restoration when a cache is opened. URL parsing, the archive format,
  the hash and the object store are arguments; a local directory is a named content, and the local
  disk the map of these. Timeouts are errors of the argument they guard.
\<close>

subsection \<open>Storage locations\<close>

record url =
  url_scheme :: string
  url_host :: "string option"
  url_path :: string

definition first_component :: "string \<Rightarrow> string" where
  "first_component p = hd (split_on (CHR ''/'') (trim_start_matches (CHR ''/'') p))"

definition extract_storage_location :: "(string \<Rightarrow> url option) \<Rightarrow> string \<Rightarrow> string option" where
  "extract_storage_location parse uri =
     (case parse uri of
        None \<Rightarrow> None
      | Some u \<Rightarrow>
          if url_scheme u = ''s3'' then
            (if first_component (url_path u) = [] then None else Some (''s3://'' @ first_component (url_path u)))
          else if url_scheme u = ''gs'' then
            (case url_host u of None \<Rightarrow> None | Some b \<Rightarrow> if b = [] then None else Some (''gs://'' @ b))
          else if url_scheme u = ''az'' \<or> url_scheme u = ''azure'' then
            (if first_component (url_path u) = [] then None else Some (''az://'' @ first_component (url_path u)))
          else if url_scheme u = ''file'' then Some (''file://'' @ trim_end_matches (CHR ''/'') (url_path u))
          else if url_scheme u = ''direct'' then
            map_option (\<lambda>p. ''direct://'' @ trim_end_matches (CHR ''/'') p) (strip_prefix ''direct://'' uri)
          else None)"

definition endpoints_share_storage :: "(string \<Rightarrow> url option) \<Rightarrow> string list \<Rightarrow> bool" where
  "endpoints_share_storage parse uris =
     (if length uris \<le> 1 then False
      else
        (let locations = List.map_filter (extract_storage_location parse) uris
         in if length locations \<noteq> length uris then False
            else list_all (\<lambda>l. l = locations ! 0) locations))"

subsection \<open>File numbers of paths\<close>

text \<open>The text after the last occurrence of a character.\<close>

definition after_last :: "char \<Rightarrow> string \<Rightarrow> string option" where
  "after_last c s = (if c \<in> set s then Some (last (split_on c s)) else None)"

definition extract_file_index_from_path :: "string \<Rightarrow> nat option" where
  "extract_file_index_from_path path =
     (let filename = last (split_on (CHR ''/'') path);
          stem = (case strip_suffix ''.dat'' filename of Some n \<Rightarrow> n | None \<Rightarrow> filename)
      in case after_last (CHR ''_'') stem of
           Some num \<Rightarrow> parse_u64 num
         | None \<Rightarrow> (case after_last (CHR ''-'') stem of Some num \<Rightarrow> parse_u64 num | None \<Rightarrow> None))"

subsection \<open>Names and places\<close>

definition resolve_cache_location :: "(string \<Rightarrow> string) \<Rightarrow> string \<Rightarrow> nat option \<Rightarrow> string option \<Rightarrow> string \<Rightarrow> string" where
  "resolve_cache_location hash temp_dir agent base_dir uri =
     slash_end (case base_dir of Some d \<Rightarrow> d | None \<Rightarrow> temp_dir) @
     (case agent of
        Some a \<Rightarrow> ''sai3-cache-agent-'' @ show_nat a @ ''-'' @ hash uri
      | None \<Rightarrow> ''sai3-cache-'' @ hash uri)"

definition checkpoint_name :: "nat option \<Rightarrow> string" where
  "checkpoint_name agent =
     (case agent of
        Some a \<Rightarrow> ''.sai3-cache-agent-'' @ show_nat a @ ''.tar.zst''
      | None \<Rightarrow> ''sai3-kv-cache.tar.zst'')"

definition restore_uri :: "string \<Rightarrow> nat option \<Rightarrow> string" where
  "restore_uri endpoint agent =
     (if ends_with endpoint ''/'' then endpoint @ checkpoint_name agent
      else endpoint @ ''/'' @ checkpoint_name agent)"

definition cloud_endpoint :: "string \<Rightarrow> bool" where
  "cloud_endpoint uri = (starts_with uri ''s3://'' \<or> starts_with uri ''az://'' \<or> starts_with uri ''gs://'')"

subsection \<open>Writing a checkpoint\<close>

text \<open>One attempt: the archive, then its upload or the write of the file; the location on success.\<close>

definition write_at :: "(string \<Rightarrow> string \<Rightarrow> string + unit) \<Rightarrow> string \<Rightarrow> string \<Rightarrow> string + string" where
  "write_at put location bytes = bind_result (put location bytes) (\<lambda>_. Inr location)"

definition try_write_checkpoint ::
  "(string \<Rightarrow> string option) \<Rightarrow> (string \<Rightarrow> string \<Rightarrow> string + unit) \<Rightarrow> string + string \<Rightarrow> string \<Rightarrow> string \<Rightarrow> string + string" where
  "try_write_checkpoint to_file_path put archive endpoint cp_name =
     bind_result archive (\<lambda>bytes.
       if starts_with endpoint ''file://'' then
         (case to_file_path endpoint of
            None \<Rightarrow> Inl ''Invalid file:// path''
          | Some base \<Rightarrow> write_at put (slash_end base @ cp_name) bytes)
       else if starts_with endpoint ''direct://'' then
         write_at put (slash_end (drop (length ''direct://'') endpoint) @ cp_name) bytes
       else if cloud_endpoint endpoint then write_at put (endpoint @ cp_name) bytes
       else Inl (''Unsupported URI scheme for checkpointing: '' @ endpoint))"

fun write_attempts :: "(nat \<Rightarrow> string + string) \<Rightarrow> nat \<Rightarrow> nat \<Rightarrow> nat list \<Rightarrow> (string + string) \<times> nat list" where
  "write_attempts shot k 0 delays = (Inl ''Retry loop should always return'', delays)"
| "write_attempts shot k (Suc left) delays =
     (case shot k of
        Inr location \<Rightarrow> (Inr location, delays)
      | Inl e \<Rightarrow>
          if left = 0 then (Inl (''Failed to create KV cache checkpoint after 5 attempts. Last error: '' @ e), delays)
          else write_attempts shot (k + 1) left (delays @ [1000 * 2 ^ (k - 1)]))"

text \<open>
  \<open>write_checkpoint\<close>: the flush, the check of the database files, five attempts; the local copy is
  removed after a success. \<open>create_and_write_checkpoint_static\<close>, which the periodic task runs, is
  the attempts alone.
\<close>

definition write_checkpoint ::
  "'d fjall \<Rightarrow> string + unit \<Rightarrow> (nat \<Rightarrow> string + string) \<Rightarrow> string \<Rightarrow> (string, 'c) hmap \<Rightarrow> 'd EndpointCache
    \<Rightarrow> (string + string) \<times> nat list \<times> (string, 'c) hmap \<times> 'd EndpointCache" where
  "write_checkpoint fj verified shot removal_error dirs c =
     (case force_flush fj c of
        (Inl e, c') \<Rightarrow> (Inl e, [], dirs, c')
      | (Inr _, c') \<Rightarrow>
          (case verified of
             Inl e \<Rightarrow> (Inl e, [], dirs, c')
           | Inr _ \<Rightarrow>
               (case write_attempts shot 1 5 [] of
                  (Inl e, delays) \<Rightarrow> (Inl e, delays, dirs, c')
                | (Inr location, delays) \<Rightarrow>
                    (Inr location, delays,
                     if removal_error = [] then hdel (cache_location c') dirs else dirs, c'))))"

subsection \<open>Restoring a checkpoint\<close>

text \<open>An archive holds one directory under its last name; it is unpacked beside the cache directory.\<close>

definition file_name :: "string \<Rightarrow> string" where
  "file_name path = last (split_on (CHR ''/'') path)"

definition sibling :: "string \<Rightarrow> string \<Rightarrow> string" where
  "sibling path nm = join_with ''/'' (butlast (split_on (CHR ''/'') path) @ [nm])"

record 'c restore_env =
  store_get :: "string \<Rightarrow> string + string"
  unarchive :: "string \<Rightarrow> string + string \<times> 'c"
  download_error :: "string option"
  remove_error :: "string option"
  unpack_error :: "string option"

definition try_restore_from_checkpoint ::
  "'c restore_env \<Rightarrow> string \<Rightarrow> string \<Rightarrow> nat option \<Rightarrow> (string, 'c) hmap \<Rightarrow> (string + bool) \<times> (string, 'c) hmap" where
  "try_restore_from_checkpoint env endpoint location agent dirs =
     (case store_get env (restore_uri endpoint agent) of
        Inl _ \<Rightarrow> (Inr False, dirs)
      | Inr bytes \<Rightarrow>
          (case download_error env of
             Some e \<Rightarrow> (Inl e, dirs)
           | None \<Rightarrow>
               (case unarchive env bytes of
                  Inl e \<Rightarrow> (Inl e, dirs)
                | Inr (archived, content) \<Rightarrow>
                    (case (if hget dirs location = None then None else remove_error env) of
                       Some e \<Rightarrow> (Inl e, dirs)
                     | None \<Rightarrow>
                         (let cleared = hdel location dirs
                          in case unpack_error env of
                               Some e \<Rightarrow> (Inl e, cleared)
                             | None \<Rightarrow>
                                 (let unpacked = hput (sibling location archived) content cleared
                                  in if hget unpacked location = None
                                     then (Inl ''Checkpoint extraction failed'', unpacked)
                                     else (Inr True, unpacked)))))))"

text \<open>
  Opening a cache: a failed restoration is only logged. \<open>open_db\<close> opens a directory's content,
  or a new database where there is none.
\<close>

definition endpoint_cache_at :: "FlushPolicy \<Rightarrow> string \<Rightarrow> nat \<Rightarrow> string \<Rightarrow> 'd \<Rightarrow> 'd EndpointCache" where
  "endpoint_cache_at p uri i location d =
     \<lparr> db_state = d, pending_writes = 0, flush_policy = p, endpoint_index = i, endpoint_uri = uri,
       cache_location = location \<rparr>"

definition endpoint_cache_new ::
  "'c restore_env \<Rightarrow> ('c option \<Rightarrow> string + 'd) \<Rightarrow> string \<Rightarrow> nat \<Rightarrow> string \<Rightarrow> nat option \<Rightarrow> (string, 'c) hmap
    \<Rightarrow> (string + 'd EndpointCache) \<times> (string, 'c) hmap" where
  "endpoint_cache_new env open_db uri i location agent dirs =
     (let dirs' = snd (try_restore_from_checkpoint env uri location agent dirs)
      in (bind_result (open_db (hget dirs' location))
            (\<lambda>d. Inr (endpoint_cache_at FlushPolicy_default uri i location d)), dirs'))"

definition try_load_from_checkpoint ::
  "'c restore_env \<Rightarrow> ('c option \<Rightarrow> string + 'd) \<Rightarrow> string \<Rightarrow> string \<Rightarrow> nat option \<Rightarrow> (string, 'c) hmap
    \<Rightarrow> (string + 'd EndpointCache option) \<times> (string, 'c) hmap" where
  "try_load_from_checkpoint env open_db uri location agent dirs =
     (case try_restore_from_checkpoint env uri location agent dirs of
        (Inl e, dirs') \<Rightarrow> (Inl e, dirs')
      | (Inr False, dirs') \<Rightarrow> (Inr None, dirs')
      | (Inr True, dirs') \<Rightarrow>
          (bind_result (open_db (hget dirs' location))
             (\<lambda>d. Inr (Some (endpoint_cache_at Immediate uri 0 location d))), dirs'))"

definition query_checkpoint_coverage ::
  "'c restore_env \<Rightarrow> ('c option \<Rightarrow> string + 'd) \<Rightarrow> 'd fjall \<Rightarrow> codec \<Rightarrow> string \<Rightarrow> string \<Rightarrow> nat option \<Rightarrow> string \<Rightarrow> nat
    \<Rightarrow> (string, 'c) hmap \<Rightarrow> (string + CheckpointCoverage option) \<times> (string, 'c) hmap" where
  "query_checkpoint_coverage env open_db fj cd uri location agent h expected dirs =
     (case try_load_from_checkpoint env open_db uri location agent dirs of
        (Inl e, dirs') \<Rightarrow> (Inl e, dirs')
      | (Inr None, dirs') \<Rightarrow> (Inr None, dirs')
      | (Inr (Some c), dirs') \<Rightarrow>
          (bind_result (check_coverage fj cd h expected c) (\<lambda>cov. Inr (Some cov)), dirs'))"

fun open_endpoints ::
  "'c restore_env \<Rightarrow> ('c option \<Rightarrow> string + 'd) \<Rightarrow> (string \<Rightarrow> string) \<Rightarrow> nat option \<Rightarrow> nat \<Rightarrow> string list
    \<Rightarrow> (string, 'c) hmap \<Rightarrow> (string + (nat \<times> 'd EndpointCache) list) \<times> (string, 'c) hmap" where
  "open_endpoints env open_db location agent i [] dirs = (Inr [], dirs)"
| "open_endpoints env open_db location agent i (uri # uris) dirs =
     (case endpoint_cache_new env open_db uri i (location uri) agent dirs of
        (Inl e, dirs') \<Rightarrow> (Inl e, dirs')
      | (Inr c, dirs') \<Rightarrow>
          (let (r, dirs'') = open_endpoints env open_db location agent (i + 1) uris dirs'
           in (bind_result r (\<lambda>eps. Inr ((i, c) # eps)), dirs'')))"

definition metadata_cache_new ::
  "'c restore_env \<Rightarrow> ('c option \<Rightarrow> string + 'd) \<Rightarrow> (string \<Rightarrow> string) \<Rightarrow> string + 'd CoordinatorCache \<Rightarrow> string list \<Rightarrow> string
    \<Rightarrow> nat option \<Rightarrow> (string, 'c) hmap \<Rightarrow> (string + 'd MetadataCache) \<times> (string, 'c) hmap" where
  "metadata_cache_new env open_db location coordinator_db uris h agent dirs =
     (case coordinator_db of
        Inl e \<Rightarrow> (Inl e, dirs)
      | Inr co \<Rightarrow>
          (let (r, dirs') = open_endpoints env open_db location agent 0 uris dirs
           in (bind_result r (\<lambda>eps. Inr \<lparr> coordinator = co, cache_endpoints = eps, config_hash = h \<rparr>), dirs')))"

subsection \<open>Paths\<close>

lemma sibling_self [simp]: "sibling p (file_name p) = p"
  by (simp add: sibling_def file_name_def join_split)

lemma last_split_append: "CHR ''/'' \<notin> set t \<Longrightarrow> last (split_on (CHR ''/'') (p @ CHR ''/'' # t)) = t"
  by (simp add: split_on_append_sep split_on_no_sep)

lemma last_split_no_sep: "c \<notin> set t \<Longrightarrow> last (split_on c t) = t"
  by (simp add: split_on_no_sep)

lemma after_last_append: "c \<notin> set t \<Longrightarrow> after_last c (p @ c # t) = Some t"
  by (simp add: after_last_def split_on_append_sep split_on_no_sep)

lemma padded_chars: "CHR ''/'' \<notin> set (show_padded w n)" "CHR ''_'' \<notin> set (show_padded w n)"
    "CHR ''-'' \<notin> set (show_padded w n)"
  by (rule padded_no_char; simp add: digit_val_def)+

lemma file_index_of_tree_name:
  assumes "i \<le> u64_max"
  shows "extract_file_index_from_path (p @ CHR ''/'' # get_file_name i) = Some i"
proof -
  let ?n = "CHR ''f'' # CHR ''i'' # CHR ''l'' # CHR ''e'' # CHR ''_'' # show_padded 8 i"
  have n: "get_file_name i = ?n @ ''.dat''" by (simp add: get_file_name_def)
  have "CHR ''/'' \<notin> set (?n @ ''.dat'')" using padded_chars(1) by simp
  then have "last (split_on (CHR ''/'') (p @ CHR ''/'' # get_file_name i)) = ?n @ ''.dat''"
    unfolding n by (rule last_split_append)
  moreover have "strip_suffix ''.dat'' (?n @ ''.dat'') = Some ?n" by (rule strip_suffix_append)
  moreover have "after_last (CHR ''_'') ?n = Some (show_padded 8 i)"
    using after_last_append [of "CHR ''_''" "show_padded 8 i" "''file''"] padded_chars(2) by simp
  ultimately show ?thesis
    using parse_padded [OF assms, of 8] by (simp add: extract_file_index_from_path_def)
qed

lemma file_index_of_flat_name:
  assumes "i \<le> u64_max" and "CHR ''/'' \<notin> set q" and "CHR ''_'' \<notin> set q"
  shows "extract_file_index_from_path (p @ CHR ''/'' # q @ ''-'' @ show_padded 8 i @ ''.dat'') = Some i"
proof -
  let ?n = "q @ CHR ''-'' # show_padded 8 i"
  have "CHR ''/'' \<notin> set (?n @ ''.dat'')" using assms(2) padded_chars(1) by simp
  then have "last (split_on (CHR ''/'') (p @ CHR ''/'' # ?n @ ''.dat'')) = ?n @ ''.dat''"
    by (rule last_split_append)
  moreover have "strip_suffix ''.dat'' (?n @ ''.dat'') = Some ?n" by (rule strip_suffix_append)
  moreover have "after_last (CHR ''_'') ?n = None"
    using assms(3) padded_chars(2) by (simp add: after_last_def)
  moreover have "after_last (CHR ''-'') ?n = Some (show_padded 8 i)"
    using after_last_append padded_chars(3) by simp
  ultimately show ?thesis
    using parse_padded [OF assms(1), of 8] by (simp add: extract_file_index_from_path_def)
qed

lemma get_file_path_form:
  "get_file_path m i = Some p \<Longrightarrow> \<exists>d. p = d @ CHR ''/'' # get_file_name i"
  by (auto simp: get_file_path_def split: if_splits option.splits)

lemma map_filter_all:
  "length (List.map_filter f xs) \<le> length xs"
  "length (List.map_filter f xs) = length xs \<Longrightarrow> list_all (\<lambda>x. f x = Some (the (f x))) xs \<and> List.map_filter f xs = map (\<lambda>x. the (f x)) xs"
  "list_all (\<lambda>x. f x \<noteq> None) xs \<Longrightarrow> length (List.map_filter f xs) = length xs"
proof -
  show le: "length (List.map_filter f ys) \<le> length ys" for ys
    by (induction ys) (auto split: option.split)
  show "length (List.map_filter f xs) = length xs \<Longrightarrow> list_all (\<lambda>x. f x = Some (the (f x))) xs \<and> List.map_filter f xs = map (\<lambda>x. the (f x)) xs"
  proof (induction xs)
    case (Cons x xs)
    then show ?case using le [of xs] by (cases "f x") auto
  qed simp
  show "list_all (\<lambda>x. f x \<noteq> None) xs \<Longrightarrow> length (List.map_filter f xs) = length xs"
    by (induction xs) auto
qed

subsection \<open>Properties\<close>

text \<open>
  The file numbers of prepared objects can be read back from their paths: for the paths of a
  directory tree and for the flat names of the pools, on every base.
\<close>

lemma file_index_reads_back:
  assumes "i \<le> u64_max"
  shows "(get_file_path m i = Some p \<longrightarrow> extract_file_index_from_path p = Some i)
    \<and> extract_file_index_from_path (base @ ''/prepared-'' @ show_padded 8 i @ ''.dat'') = Some i
    \<and> extract_file_index_from_path (base @ ''/deletable-'' @ show_padded 8 i @ ''.dat'') = Some i"
  using get_file_path_form [of m i p] file_index_of_tree_name [OF assms]
    file_index_of_flat_name [OF assms, of "''prepared''" base] file_index_of_flat_name [OF assms, of "''deletable''" base]
  by auto

lemma file_index_reads_back_witness:
  "extract_file_index_from_path ''s3://b/prepared-00000042.dat'' = Some 42"
proof -
  have "show_padded 8 42 = ''00000042''" by code_simp
  then show ?thesis using file_index_reads_back [of 42 _ _ "''s3://b''"] by (simp add: u64_max_def)
qed

text \<open>
  Endpoints are taken to share their storage exactly when there are at least two and all of
  their URIs have one and the same storage location; of S3 and Azure URIs that location is the
  first component of the path, whatever the host.
\<close>

lemma share_storage_iff_same_location:
  "endpoints_share_storage parse uris =
     (2 \<le> length uris \<and> (\<exists>l. list_all (\<lambda>u. extract_storage_location parse u = Some l) uris))"
proof (cases "length uris \<le> 1")
  case True
  then show ?thesis by (simp add: endpoints_share_storage_def)
next
  case False
  let ?f = "extract_storage_location parse"
  let ?ls = "List.map_filter ?f uris"
  show ?thesis
  proof (cases "length ?ls = length uris")
    case True
    note m = map_filter_all(2) [OF True]
    have "list_all (\<lambda>l. l = ?ls ! 0) ?ls = (\<exists>l. list_all (\<lambda>u. ?f u = Some l) uris)"
    proof
      assume "list_all (\<lambda>l. l = ?ls ! 0) ?ls"
      then have "list_all (\<lambda>u. ?f u = Some (?ls ! 0)) uris"
        using m by (auto simp: list_all_iff)
      then show "\<exists>l. list_all (\<lambda>u. ?f u = Some l) uris" ..
    next
      assume "\<exists>l. list_all (\<lambda>u. ?f u = Some l) uris"
      then obtain l where "list_all (\<lambda>u. ?f u = Some l) uris" ..
      then have "?ls = replicate (length uris) l" using m by (auto simp: list_all_iff map_replicate_const [symmetric])
      then show "list_all (\<lambda>l. l = ?ls ! 0) ?ls" using False by (simp add: list_all_iff)
    qed
    then show ?thesis using False True by (auto simp: endpoints_share_storage_def Let_def)
  next
    case no: False
    then have "\<not> list_all (\<lambda>u. ?f u = Some l) uris" for l
      using map_filter_all(3) [of ?f uris] by (auto simp: list_all_iff)
    then show ?thesis using False no by (simp add: endpoints_share_storage_def Let_def)
  qed
qed



text \<open>
  On cloud storage a checkpoint is written where its restoration looks for it only if the
  endpoint's URI ends with a slash: the writer appends the name as it is, the reader inserts one.
\<close>

lemma checkpoint_found_iff_slash:
  assumes "cloud_endpoint endpoint"
    and "try_write_checkpoint to_file_path put archive endpoint (checkpoint_name agent) = Inr written"
  shows "(written = restore_uri endpoint agent) = ends_with endpoint ''/''"
proof -
  have "\<not> starts_with endpoint ''file://'' \<and> \<not> starts_with endpoint ''direct://''"
    using assms(1) by (cases endpoint) (auto simp: cloud_endpoint_def starts_with_def)
  then have "written = endpoint @ checkpoint_name agent"
    using assms by (auto simp: try_write_checkpoint_def write_at_def bind_result_Inr_iff)
  moreover have "checkpoint_name agent \<noteq> ''/'' @ checkpoint_name agent" by (metis append_self_conv2 list.simps(3))
  ultimately show ?thesis by (auto simp: restore_uri_def)
qed

lemma checkpoint_found_iff_slash_witness:
  "''s3://b/data'' @ checkpoint_name None \<noteq> restore_uri ''s3://b/data'' None"
  using checkpoint_found_iff_slash [of "''s3://b/data''" "\<lambda>_. None" "\<lambda>_ _. Inr ()" "Inr ''zst''" None]
  by (simp add: cloud_endpoint_def starts_with_def ends_with_def try_write_checkpoint_def write_at_def)

text \<open>
  When the checkpoint found belongs to another endpoint, as on shared storage where only one
  endpoint writes one, the restoration fails after it has removed the local cache: the cache that is
  opened next is a new, empty database.
\<close>

lemma foreign_checkpoint_destroys_cache:
  assumes "store_get env (restore_uri endpoint agent) = Inr bytes"
    and "unarchive env bytes = Inr (archived, content)" and "sibling location archived \<noteq> location"
    and "download_error env = None" and "remove_error env = None"
  shows "\<not> is_ok (fst (try_restore_from_checkpoint env endpoint location agent dirs))
    \<and> fst (endpoint_cache_new env open_db endpoint i location agent dirs)
        = bind_result (open_db None) (\<lambda>d. Inr (endpoint_cache_at FlushPolicy_default endpoint i location d))"
proof -
  have "\<not> is_ok (fst (try_restore_from_checkpoint env endpoint location agent dirs))
      \<and> hget (snd (try_restore_from_checkpoint env endpoint location agent dirs)) location = None"
    using assms by (cases "unpack_error env") (simp_all add: try_restore_from_checkpoint_def Let_def hash_simps)
  then show ?thesis by (simp add: endpoint_cache_new_def Let_def)
qed

lemma foreign_checkpoint_destroys_cache_witness:
  "fst (endpoint_cache_new
     \<lparr> store_get = (\<lambda>_. Inr ''zst''), unarchive = (\<lambda>_. Inr (''sai3-cache-1'', 3)), download_error = None,
       remove_error = None, unpack_error = None \<rparr>
     (\<lambda>c. Inr (case c of None \<Rightarrow> 0 | Some n \<Rightarrow> n)) ''s3://10.9.0.25/b/'' 1 ''/tmp/sai3-cache-2'' None [(''/tmp/sai3-cache-2'', 7)])
   = (Inr (endpoint_cache_at FlushPolicy_default ''s3://10.9.0.25/b/'' 1 ''/tmp/sai3-cache-2'' (0 :: nat)) :: string + nat EndpointCache)"
  using foreign_checkpoint_destroys_cache [of "\<lparr> store_get = (\<lambda>_. Inr ''zst''), unarchive = (\<lambda>_. Inr (''sai3-cache-1'', 3 :: nat)),
      download_error = None, remove_error = None, unpack_error = None \<rparr>" "''s3://10.9.0.25/b/''" None "''zst''"
      "''sai3-cache-1''" 3 "''/tmp/sai3-cache-2''" "[(''/tmp/sai3-cache-2'', 7)]"
      "\<lambda>c. Inr (case c of None \<Rightarrow> 0 | Some n \<Rightarrow> n)" 1]
  by (simp add: sibling_def)

subsection \<open>Attempts\<close>

text \<open>
  The attempts succeed when one of them does, sleep between two attempts for a time that doubles,
  and never after the last; the local copy is given up only after a success.
\<close>

lemma write_attempts_ok:
  "is_ok (fst (write_attempts shot k n delays)) = (\<exists>j. k \<le> j \<and> j < k + n \<and> is_ok (shot j))"
proof (induction shot k n delays rule: write_attempts.induct)
  case (2 shot k left delays)
  have "(\<exists>j. k \<le> j \<and> j < k + Suc left \<and> is_ok (shot j))
      = (is_ok (shot k) \<or> (\<exists>j. k + 1 \<le> j \<and> j < k + 1 + left \<and> is_ok (shot j)))"
    (is "?l = ?r")
  proof
    assume ?l
    then obtain j where j: "k \<le> j" "j < k + Suc left" "is_ok (shot j)" by blast
    then show ?r by (cases "j = k") auto
  next
    assume ?r
    then show ?l
    proof (elim disjE exE)
      fix j assume "k + 1 \<le> j \<and> j < k + 1 + left \<and> is_ok (shot j)"
      then show ?l by (intro exI [of _ j]) simp
    qed (auto intro: exI [of _ k])
  qed
  then show ?case using 2 by (cases "shot k") auto
qed simp

lemma write_attempts_delays:
  "\<exists>m. m \<le> n - 1 \<and> snd (write_attempts shot k n delays) = delays @ map (\<lambda>j. 1000 * 2 ^ (j - 1)) [k..<k + m]"
proof (induction shot k n delays rule: write_attempts.induct)
  case (2 shot k left delays)
  show ?case
  proof (cases "is_ok (shot k) \<or> left = 0")
    case True
    then show ?thesis by (auto simp: is_ok_def intro!: exI [of _ "0::nat"] split: sum.splits)
  next
    case False
    then obtain e m where e: "shot k = Inl e" and "m \<le> left - 1"
      "snd (write_attempts shot (k + 1) left (delays @ [1000 * 2 ^ (k - 1)]))
         = (delays @ [1000 * 2 ^ (k - 1)]) @ map (\<lambda>j. 1000 * 2 ^ (j - 1)) [k + 1..<k + 1 + m]"
      using 2 by (cases "shot k") auto
    moreover have "[k..<k + Suc m] = k # [k + 1..<k + 1 + m]" by (simp add: upt_conv_Cons)
    ultimately show ?thesis using False by (intro exI [of _ "Suc m"]) auto
  qed
qed (rule exI [of _ "0::nat"], simp)

lemma write_checkpoint_keeps_cache:
  "\<not> is_ok (fst (write_checkpoint fj verified shot removal_error dirs c)) \<Longrightarrow>
     fst (snd (snd (write_checkpoint fj verified shot removal_error dirs c))) = dirs"
  by (auto simp: write_checkpoint_def split: prod.split sum.split)

end
