(* ===== verification/Object_Listing.thy ===== *)
theory Object_Listing
  imports Cache_Checkpoint Error_Handling
begin

text \<open>
  The listing of existing objects before prepare (\<open>src/prepare/listing.rs\<close>): file numbers parsed
  from object names, streams of a store with errors in between, the share of directories an agent
  lists. A stream is the list of its items, \<open>Inl\<close> an error; the store is the function from a URI to
  its stream.
\<close>

definition DEFAULT_LISTING_MAX_ERRORS :: nat where "DEFAULT_LISTING_MAX_ERRORS = 50"

definition DEFAULT_LISTING_MAX_CONSECUTIVE_ERRORS :: nat where
  "DEFAULT_LISTING_MAX_CONSECUTIVE_ERRORS = 5"

record ListingResult =
  file_count :: nat
  indices :: "nat list"
  dirs_listed :: nat
  errors_encountered :: nat
  aborted :: bool

definition ListingResult_default :: ListingResult where
  "ListingResult_default =
     \<lparr> file_count = 0, indices = [], dirs_listed = 0, errors_encountered = 0, aborted = False \<rparr>"

text \<open>The three name formats, tried in this order; the first that matches is parsed.\<close>

definition numbered :: "string \<Rightarrow> string \<Rightarrow> string option" where
  "numbered p f = Option.bind (strip_prefix p f) (strip_suffix ''.dat'')"

definition object_index :: "string \<Rightarrow> nat option" where
  "object_index path =
     (let f = file_name path
      in case numbered ''file_'' f of
           Some s \<Rightarrow> parse_u64 s
         | None \<Rightarrow>
             (case numbered ''prepared-'' f of
                Some s \<Rightarrow> parse_u64 s
              | None \<Rightarrow> (case numbered ''deletable-'' f of Some s \<Rightarrow> parse_u64 s | None \<Rightarrow> None)))"

definition process_list_item :: "string \<Rightarrow> ListingResult \<Rightarrow> ListingResult" where
  "process_list_item path r =
     (let r1 = r\<lparr>file_count := file_count r + 1\<rparr>
      in case object_index path of
           Some i \<Rightarrow> r1\<lparr>indices := hset_insert i (indices r)\<rparr>
         | None \<Rightarrow> r1)"

text \<open>One stream: an abort leaves the rest unread.\<close>

fun list_items ::
  "string \<Rightarrow> (string + string) list \<Rightarrow> ListingErrorTracker \<Rightarrow> ListingResult \<Rightarrow> ListingErrorTracker \<times> ListingResult" where
  "list_items uri [] t r = (t, r)"
| "list_items uri (Inr path # items) t r = list_items uri items (listing_success t) (process_list_item path r)"
| "list_items uri (Inl e # items) t r =
     (let ((abort, total_errs, consecutive), t') = listing_error (uri @ '': '' @ e) t;
          r' = r\<lparr>errors_encountered := total_errs\<rparr>
      in if abort then (t', r'\<lparr>aborted := True\<rparr>) else list_items uri items t' r')"

fun list_dirs ::
  "(string \<Rightarrow> (string + string) list) \<Rightarrow> string \<Rightarrow> string list \<Rightarrow> ListingErrorTracker \<Rightarrow> ListingResult
    \<Rightarrow> ListingErrorTracker \<times> ListingResult" where
  "list_dirs list_stream base [] t r = (t, r)"
| "list_dirs list_stream base (d # ds) t r =
     (let uri = base @ d @ ''/''; (t', r') = list_items uri (list_stream uri) t r
      in if aborted r' then (t', r')
         else list_dirs list_stream base ds t' (r'\<lparr>dirs_listed := dirs_listed r' + 1\<rparr>))"

definition abort_message :: "ListingErrorTracker \<Rightarrow> ListingResult \<Rightarrow> string" where
  "abort_message t r =
     ''Listing aborted after '' @ show_nat (errors_encountered r) @ '' errors (found ''
     @ show_nat (file_count r) @ '' files so far). Sample errors: ''
     @ join_with ''; '' (take 3 (error_messages t))"

definition listing_base :: "string \<Rightarrow> string" where
  "listing_base uri = (if ends_with uri ''/'' then uri else uri @ ''/'')"

definition list_existing_objects_distributed ::
  "(string \<Rightarrow> (string + string) list) \<Rightarrow> string \<Rightarrow> TreeManifest option \<Rightarrow> nat \<Rightarrow> nat \<Rightarrow> string + ListingResult" where
  "list_existing_objects_distributed list_stream root_uri manifest agent n =
     (let t0 = listing_tracker_new DEFAULT_LISTING_MAX_ERRORS DEFAULT_LISTING_MAX_CONSECUTIVE_ERRORS;
          base = listing_base root_uri;
          whole = list_items base (list_stream base) t0 ListingResult_default;
          (t, r) = (case manifest of
                      Some m \<Rightarrow> if 1 < n then list_dirs list_stream base (get_agent_dirs m agent) t0 ListingResult_default
                                else whole
                    | None \<Rightarrow> whole)
      in if aborted r then Inl (abort_message t r) else Inr r)"

subsection \<open>What a listing reports\<close>

lemma numbered_append [simp]: "numbered p (p @ s @ ''.dat'') = Some s"
  by (simp add: numbered_def)

lemma numbered_None: "\<not> starts_with f p \<Longrightarrow> numbered p f = None"
  by (simp add: numbered_def strip_prefix_def)

lemma file_name_append: "CHR ''/'' \<notin> set f \<Longrightarrow> file_name (p @ CHR ''/'' # f) = f"
  by (simp add: file_name_def last_split_append)

lemma object_index_names:
  assumes "i \<le> u64_max"
  shows "object_index (p @ CHR ''/'' # get_file_name i) = Some i"
    and "object_index (p @ CHR ''/'' # ''prepared-'' @ show_padded 8 i @ ''.dat'') = Some i"
    and "object_index (p @ CHR ''/'' # ''deletable-'' @ show_padded 8 i @ ''.dat'') = Some i"
proof -
  have n: "CHR ''/'' \<notin> set (''file_'' @ show_padded 8 i @ ''.dat'')"
      "CHR ''/'' \<notin> set (''prepared-'' @ show_padded 8 i @ ''.dat'')"
      "CHR ''/'' \<notin> set (''deletable-'' @ show_padded 8 i @ ''.dat'')"
    using padded_chars(1) [of 8 i] by auto
  note p = parse_padded [OF assms, of 8]
  show "object_index (p @ CHR ''/'' # get_file_name i) = Some i"
    unfolding object_index_def get_file_name_def file_name_append [OF n(1)] Let_def numbered_append using p by simp
  have "\<not> starts_with (''prepared-'' @ show_padded 8 i @ ''.dat'') ''file_''"
    by (simp add: starts_with_def)
  note np = numbered_None [OF this]
  show "object_index (p @ CHR ''/'' # ''prepared-'' @ show_padded 8 i @ ''.dat'') = Some i"
    unfolding object_index_def file_name_append [OF n(2)] Let_def numbered_append np using p by simp
  have "\<not> starts_with (''deletable-'' @ show_padded 8 i @ ''.dat'') ''file_''"
      "\<not> starts_with (''deletable-'' @ show_padded 8 i @ ''.dat'') ''prepared-''"
    by (simp_all add: starts_with_def)
  note nd = this [THEN numbered_None]
  show "object_index (p @ CHR ''/'' # ''deletable-'' @ show_padded 8 i @ ''.dat'') = Some i"
    unfolding object_index_def file_name_append [OF n(3)] Let_def numbered_append nd using p by simp
qed

definition ok_paths :: "(string + string) list \<Rightarrow> string list" where
  "ok_paths items = List.map_filter (\<lambda>i. case i of Inr p \<Rightarrow> Some p | Inl _ \<Rightarrow> None) items"

lemma ok_paths_simps [simp]:
  "ok_paths [] = []" "ok_paths (Inr p # items) = p # ok_paths items" "ok_paths (Inl e # items) = ok_paths items"
  by (simp_all add: ok_paths_def)

lemma list_items_complete:
  "\<not> aborted r \<Longrightarrow> list_items uri items t r = (t', r') \<Longrightarrow> \<not> aborted r' \<Longrightarrow>
     file_count r' = file_count r + length (ok_paths items)
   \<and> set (indices r') = set (indices r) \<union> set (List.map_filter object_index (ok_paths items))
   \<and> dirs_listed r' = dirs_listed r"
proof (induction uri items t r rule: list_items.induct)
  case (2 uri path items t r)
  then show ?case
    by (cases "object_index path") (auto simp: process_list_item_def Let_def)
next
  case (3 uri e items t r)
  obtain a n k t1 where err: "listing_error (uri @ '': '' @ e) t = ((a, n, k), t1)"
    by (metis prod.exhaust)
  then show ?case using 3 by (cases a) auto
qed simp

text \<open>The tracker of a stream is the counting tracker of its outcomes.\<close>

definition outcome :: "string \<Rightarrow> string + string \<Rightarrow> string option" where
  "outcome uri i = (case i of Inr _ \<Rightarrow> None | Inl e \<Rightarrow> Some (uri @ '': '' @ e))"

lemma outcome_simps: "outcome uri (Inr p) = None" "outcome uri (Inl e) = Some (uri @ '': '' @ e)"
  by (simp_all add: outcome_def)

lemma first_item_Inr:
  "(\<exists>pre e post. Inr p # items = pre @ Inl e # post \<and> P pre e) =
   (\<exists>pre e post. items = pre @ Inl e # post \<and> P (Inr p # pre) e)"
  by (simp add: Cons_eq_append_conv conj_disj_distribR ex_disj_distrib) blast

lemma first_item_Inl:
  "(\<exists>pre e' post. Inl e # items = pre @ Inl e' # post \<and> P pre e') =
   (P [] e \<or> (\<exists>pre e' post. items = pre @ Inl e' # post \<and> P (Inl e # pre) e'))"
  by (simp add: Cons_eq_append_conv conj_disj_distribR ex_disj_distrib) blast

lemma list_items_aborts:
  assumes "\<not> aborted r"
  shows "aborted (snd (list_items uri items t r)) =
    (\<exists>pre e post. items = pre @ Inl e # post \<and>
        fst (fst (listing_error (uri @ '': '' @ e)
          (tracker_after listing_success listing_error (map (outcome uri) pre) t))))"
  using assms
proof (induction uri items t r rule: list_items.induct)
  case (2 uri path items t r)
  have "\<not> aborted (process_list_item path r)"
    using 2(2) by (simp add: process_list_item_def Let_def split: option.split)
  from 2(1) [OF this] show ?case
    by (simp only: first_item_Inr list_items.simps list.map outcome_simps tracker_after.simps)
next
  case (3 uri e items t r)
  obtain a n k t1 where err: "listing_error (uri @ '': '' @ e) t = ((a, n, k), t1)"
    by (metis prod.exhaust)
  show ?case
  proof (cases a)
    case True
    then show ?thesis unfolding first_item_Inl using err by simp
  next
    case False
    then have "aborted (snd (list_items uri items t1 (r\<lparr>errors_encountered := n\<rparr>))) =
      (\<exists>pre e' post. items = pre @ Inl e' # post \<and>
        fst (fst (listing_error (uri @ '': '' @ e')
          (tracker_after listing_success listing_error (map (outcome uri) pre) t1))))"
      using 3 err by auto
    then show ?thesis
      unfolding first_item_Inl list.map outcome_simps tracker_after.simps using err False by simp
  qed
qed simp

subsection \<open>Properties\<close>

text \<open>The limits are reached at some error of a stream.\<close>

definition reaches_limits :: "(string + string) list \<Rightarrow> bool" where
  "reaches_limits items =
     (\<exists>pre e post. items = pre @ Inl e # post \<and>
        (DEFAULT_LISTING_MAX_ERRORS \<le> errors_in (map (outcome []) (pre @ [Inl e]))
         \<or> DEFAULT_LISTING_MAX_CONSECUTIVE_ERRORS \<le> streak (map (outcome []) (pre @ [Inl e]))))"

lemma outcome_counts:
  "errors_in (map (outcome uri) xs) = errors_in (map (outcome []) xs)"
  "streak (map (outcome uri) xs) = streak (map (outcome []) xs)"
proof -
  have o: "outcome uri x = None \<longleftrightarrow> outcome [] x = None" for x by (cases x) (simp_all add: outcome_def)
  show "errors_in (map (outcome uri) xs) = errors_in (map (outcome []) xs)"
    by (simp add: errors_in_def filter_map comp_def o del: not_None_eq)
  show "streak (map (outcome uri) xs) = streak (map (outcome []) xs)"
    by (simp add: streak_def rev_map takeWhile_map comp_def o del: not_None_eq)
qed

text \<open>
  C18: A listing of a base aborts exactly when its stream reaches the limits, 50 errors or 5 in a row
  with no object between them; otherwise it counts every object of the stream, whatever errors came
  between, and its indices are exactly the numbers in the objects' names.
\<close>

theorem listing_is_exact:
  "case list_existing_objects_distributed list_stream uri None agent n of
     Inl _ \<Rightarrow> reaches_limits (list_stream (listing_base uri))
   | Inr r \<Rightarrow> \<not> reaches_limits (list_stream (listing_base uri))
       \<and> file_count r = length (ok_paths (list_stream (listing_base uri)))
       \<and> set (indices r) = set (List.map_filter object_index (ok_paths (list_stream (listing_base uri))))"
proof -
  let ?b = "listing_base uri" and ?t = "listing_tracker_new DEFAULT_LISTING_MAX_ERRORS DEFAULT_LISTING_MAX_CONSECUTIVE_ERRORS"
  obtain t r where run: "list_items ?b (list_stream ?b) ?t ListingResult_default = (t, r)" by force
  have fresh: "\<not> aborted ListingResult_default" by (simp add: ListingResult_default_def)
  have "fst (fst (listing_error e (tracker_after listing_success listing_error (map (outcome ?b) pre) ?t))) =
      (DEFAULT_LISTING_MAX_ERRORS \<le> errors_in (map (outcome ?b) pre @ [Some e])
       \<or> DEFAULT_LISTING_MAX_CONSECUTIVE_ERRORS \<le> streak (map (outcome ?b) pre @ [Some e]))" for e pre
    using lst.abort_iff [of ?t e "map (outcome ?b) pre"] by (simp add: listing_tracker_new_def)
  then have "aborted r = reaches_limits (list_stream ?b)"
    using list_items_aborts [OF fresh, of ?b "list_stream ?b" ?t] run outcome_counts [of ?b "_ @ [Inl _]"]
    by (simp add: reaches_limits_def outcome_simps)
  moreover have "\<not> aborted r \<Longrightarrow> file_count r = length (ok_paths (list_stream ?b))
       \<and> set (indices r) = set (List.map_filter object_index (ok_paths (list_stream ?b)))"
    using list_items_complete [OF fresh run] by (simp add: ListingResult_default_def)
  ultimately show ?thesis
    using run by (simp add: list_existing_objects_distributed_def Let_def)
qed

end
