(* ===== verification/Size_Generator.thy ===== *)
theory Size_Generator
  imports Config
begin

text \<open>
  Object sizes (\<open>src/size_generator.rs\<close>): the validation of a size specification and the
  generation of one size after another. The random generator is a state of type \<open>'r\<close> with its
  seeding and the two samplers of the rand crates (uniform over an inclusive range, log-normal for
  a mean and a deviation, a rational) as parameters; the conversion of mean and deviation to log
  space belongs to the second sampler.
\<close>

record 'r rng =
  seed_from :: "nat \<Rightarrow> 'r"
  sample_uniform :: "nat \<Rightarrow> nat \<Rightarrow> 'r \<Rightarrow> nat \<times> 'r"
  sample_lognormal :: "nat \<Rightarrow> nat \<Rightarrow> 'r \<Rightarrow> rat \<times> 'r"

datatype SizeGeneratorImpl =
    FixedGen nat
  | UniformGen nat nat
  | LogNormalGen nat nat nat nat

type_synonym 'r SizeGenerator = "SizeGeneratorImpl \<times> 'r"

definition size_impl :: "SizeSpec \<Rightarrow> string + SizeGeneratorImpl" where
  "size_impl sp =
     (case sp of
        Fixed sz \<Rightarrow> if sz = 0 then Inl ''Object size must be greater than 0'' else Inr (FixedGen sz)
      | Distribution d \<Rightarrow>
          (case dist_type d of
             Uniform \<Rightarrow>
               (let mn = (case sd_min d of Some m \<Rightarrow> m | None \<Rightarrow> 1024);
                    mx = (case sd_max d of Some m \<Rightarrow> m | None \<Rightarrow> 1048576)
                in if mx < mn
                   then Inl (''Uniform distribution: min ('' @ show_nat mn @ '') > max ('' @ show_nat mx @ '')'')
                   else if mn = 0 then Inl ''Uniform distribution: min must be > 0''
                   else Inr (UniformGen mn mx))
           | Lognormal \<Rightarrow>
               (case sd_mean d of
                  None \<Rightarrow> Inl ''Lognormal distribution requires 'mean' parameter''
                | Some mean \<Rightarrow>
                    (case sd_std_dev d of
                       None \<Rightarrow> Inl ''Lognormal distribution requires 'std_dev' parameter''
                     | Some sd \<Rightarrow>
                         if mean = 0 then Inl ''Lognormal distribution: mean must be > 0''
                         else if sd = 0 then Inl ''Lognormal distribution: std_dev must be > 0''
                         else
                           (let mn = (case sd_min d of Some m \<Rightarrow> m | None \<Rightarrow> 1);
                                mx = (case sd_max d of Some m \<Rightarrow> m | None \<Rightarrow> u64_max)
                            in if mx < mn
                               then Inl (''Lognormal distribution: min ('' @ show_nat mn @ '') > max ('' @ show_nat mx @ '')'')
                               else Inr (LogNormalGen mean sd mn mx))))))"

definition new_with_seed :: "'r rng \<Rightarrow> SizeSpec \<Rightarrow> nat \<Rightarrow> string + 'r SizeGenerator" where
  "new_with_seed g sp seed = bind_result (size_impl sp) (\<lambda>impl. Inr (impl, seed_from g seed))"

definition size_generator_new :: "'r rng \<Rightarrow> SizeSpec \<Rightarrow> string + 'r SizeGenerator" where
  "size_generator_new g sp = new_with_seed g sp 0"

text \<open>\<open>f64::round\<close> on the non-negative samples, and the saturating cast to \<open>u64\<close>.\<close>

definition round_f64 :: "rat \<Rightarrow> rat" where "round_f64 x = of_int \<lfloor>x + 1 / 2\<rfloor>"

definition cast_u64 :: "rat \<Rightarrow> nat" where "cast_u64 x = min u64_max (nat \<lfloor>x\<rfloor>)"

text \<open>Rejection sampling with at most \<open>n\<close> attempts, then one sample clamped to the range.\<close>

fun lognormal_attempts ::
  "'r rng \<Rightarrow> nat \<Rightarrow> nat \<Rightarrow> nat \<Rightarrow> nat \<Rightarrow> nat \<Rightarrow> 'r \<Rightarrow> nat \<times> 'r" where
  "lognormal_attempts g mean sd mn mx 0 r =
     (let (x, r') = sample_lognormal g mean sd r
      in (cast_u64 (max (of_nat mn) (min (of_nat mx) (round_f64 x))), r'))"
| "lognormal_attempts g mean sd mn mx (Suc n) r =
     (let (x, r') = sample_lognormal g mean sd r; sz = cast_u64 (round_f64 x)
      in if mn \<le> sz \<and> sz \<le> mx then (sz, r') else lognormal_attempts g mean sd mn mx n r')"

definition MAX_ATTEMPTS :: nat where "MAX_ATTEMPTS = 100"

definition generate :: "'r rng \<Rightarrow> 'r SizeGenerator \<Rightarrow> nat \<times> 'r SizeGenerator" where
  "generate g s =
     (case fst s of
        FixedGen sz \<Rightarrow> (sz, s)
      | UniformGen mn mx \<Rightarrow> (let (x, r) = sample_uniform g mn mx (snd s) in (x, (fst s, r)))
      | LogNormalGen mean sd mn mx \<Rightarrow>
          (let (x, r) = lognormal_attempts g mean sd mn mx MAX_ATTEMPTS (snd s) in (x, (fst s, r))))"

text \<open>The first \<open>n\<close> sizes a generator gives, one per object number.\<close>

fun generate_sizes :: "'r rng \<Rightarrow> nat \<Rightarrow> 'r SizeGenerator \<Rightarrow> nat list" where
  "generate_sizes g 0 s = []"
| "generate_sizes g (Suc n) s = (let (x, s') = generate g s in x # generate_sizes g n s')"

subsection \<open>The range of the sizes\<close>

definition impl_range :: "SizeGeneratorImpl \<Rightarrow> nat \<times> nat" where
  "impl_range i =
     (case i of FixedGen sz \<Rightarrow> (sz, sz) | UniformGen mn mx \<Rightarrow> (mn, mx) | LogNormalGen _ _ mn mx \<Rightarrow> (mn, mx))"

definition uniform_ok :: "'r rng \<Rightarrow> bool" where
  "uniform_ok g = (\<forall>mn mx r. mn \<le> mx \<longrightarrow> fst (sample_uniform g mn mx r) \<in> {mn..mx})"

lemma lognormal_in_range:
  assumes "mn \<le> mx" and "mx \<le> u64_max"
  shows "fst (lognormal_attempts g mean sd mn mx n r) \<in> {mn..mx}"
proof (induction n arbitrary: r)
  case 0
  obtain x r' where x: "sample_lognormal g mean sd r = (x, r')" by force
  let ?k = "max (int mn) (min (int mx) \<lfloor>x + 1 / 2\<rfloor>)"
  have "max (of_nat mn) (min (of_nat mx) (round_f64 x)) = (of_int ?k :: rat)"
    by (simp add: round_f64_def of_int_max of_int_min)
  moreover have "int mn \<le> ?k" and "?k \<le> int mx" using assms(1) by auto
  ultimately have "fst (lognormal_attempts g mean sd mn mx 0 r) = min u64_max (nat ?k)" and "mn \<le> nat ?k" and "nat ?k \<le> mx"
    using x by (simp_all add: cast_u64_def)
  then show ?case using assms(2) by simp
next
  case (Suc n)
  then show ?case by (simp add: split_beta Let_def)
qed

lemma size_impl_range:
  assumes "size_impl sp = Inr i"
  shows "fst (impl_range i) \<le> snd (impl_range i)"
  using assms
  by (auto simp: size_impl_def impl_range_def Let_def split: SizeSpec.splits DistributionType.splits option.splits if_splits)

lemma generate_impl: "fst (snd (generate g s)) = fst s"
  by (simp add: generate_def split_beta Let_def split: SizeGeneratorImpl.split)

lemma generate_in_range:
  assumes "uniform_ok g" and "fst (impl_range (fst s)) \<le> snd (impl_range (fst s))" and "snd (impl_range (fst s)) \<le> u64_max"
  shows "fst (generate g s) \<in> {fst (impl_range (fst s))..snd (impl_range (fst s))}"
proof (cases "fst s")
  case (UniformGen mn mx)
  then show ?thesis using assms by (simp add: generate_def impl_range_def split_beta Let_def uniform_ok_def)
next
  case (LogNormalGen mean sd mn mx)
  then show ?thesis
    using assms lognormal_in_range [of mn mx g mean sd MAX_ATTEMPTS "snd s"]
    by (simp add: generate_def impl_range_def split_beta Let_def)
qed (simp add: generate_def impl_range_def)

lemma generate_sizes_in_range:
  assumes "uniform_ok g" and "fst (impl_range (fst s)) \<le> snd (impl_range (fst s))" and "snd (impl_range (fst s)) \<le> u64_max"
  shows "set (generate_sizes g n s) \<subseteq> {fst (impl_range (fst s))..snd (impl_range (fst s))}"
  using assms
proof (induction n arbitrary: s)
  case (Suc n)
  have "fst (generate g s) \<in> {fst (impl_range (fst s))..snd (impl_range (fst s))}"
    by (rule generate_in_range [OF Suc.prems])
  moreover have "set (generate_sizes g n (snd (generate g s))) \<subseteq> {fst (impl_range (fst s))..snd (impl_range (fst s))}"
    using Suc.IH [of "snd (generate g s)"] Suc.prems generate_impl [of g s] by simp
  ultimately show ?case by (simp add: split_beta Let_def)
qed simp

definition spec_range :: "SizeSpec \<Rightarrow> nat \<times> nat" where
  "spec_range sp =
     (case sp of
        Fixed sz \<Rightarrow> (sz, sz)
      | Distribution d \<Rightarrow>
          (let (lo, hi) = (case dist_type d of Uniform \<Rightarrow> (1024, 1048576) | Lognormal \<Rightarrow> (1, u64_max))
           in (case sd_min d of Some m \<Rightarrow> m | None \<Rightarrow> lo, case sd_max d of Some m \<Rightarrow> m | None \<Rightarrow> hi)))"

lemma size_impl_spec_range: "size_impl sp = Inr i \<Longrightarrow> impl_range i = spec_range sp"
  by (auto simp: size_impl_def impl_range_def spec_range_def Let_def
      split: SizeSpec.splits DistributionType.splits option.splits if_splits)

lemma generate_sizes_length [simp]: "length (generate_sizes g n s) = n"
  by (induction n arbitrary: s) (simp_all add: split_beta Let_def)

lemma generate_sizes_take:
  "m \<le> n \<Longrightarrow> take m (generate_sizes g n s) = generate_sizes g m s"
proof (induction m arbitrary: n s)
  case (Suc m)
  then obtain k where "n = Suc k" "m \<le> k" by (cases n) auto
  then show ?case using Suc.IH by (simp add: split_beta Let_def)
qed simp

text \<open>The size of object \<open>i\<close> does not depend on how many objects there are.\<close>

lemma generate_sizes_nth:
  assumes "i < m" and "m \<le> n"
  shows "generate_sizes g n s ! i = generate_sizes g m s ! i"
  using generate_sizes_take [OF assms(2), of g s] assms(1) by (metis nth_take)

text \<open>
  Every size a generator gives lies in the range of its specification, with the defaults the
  code fills in, whatever the random generator draws: the rejection loop of the log-normal case
  ends after 100 attempts with a clamped sample, and an empty range is refused when the generator
  is made. A prefix of the sizes is the sizes of the prefix: object \<open>i\<close> keeps its size when the
  number of objects changes.
\<close>

lemma generated_sizes_in_range:
  assumes "uniform_ok g" and "new_with_seed g sp seed = Inr s" and "snd (spec_range sp) \<le> u64_max"
  shows "set (generate_sizes g n s) \<subseteq> {fst (spec_range sp)..snd (spec_range sp)}
    \<and> fst (spec_range sp) \<le> snd (spec_range sp)
    \<and> take m (generate_sizes g (m + n) s) = generate_sizes g m s"
proof -
  have i: "size_impl sp = Inr (fst s)" using assms(2) by (auto simp: new_with_seed_def bind_result_Inr_iff)
  note r = size_impl_spec_range [OF i] size_impl_range [OF i]
  show ?thesis
    using generate_sizes_in_range [OF assms(1), of s n] r assms(3) generate_sizes_take [of m "m + n" g s] by simp
qed

definition constant_rng :: "nat rng" where
  "constant_rng = \<lparr> seed_from = (\<lambda>s. s), sample_uniform = (\<lambda>mn mx r. (max mn (min mx r), r + 1)),
     sample_lognormal = (\<lambda>mean sd r. (of_nat r, r)) \<rparr>"

lemma generated_sizes_in_range_witness:
  "set (generate_sizes constant_rng 4
      (LogNormalGen 8 2 4 16, 90)) \<subseteq> {4..16}"
  using generated_sizes_in_range [of constant_rng
      "Distribution \<lparr> dist_type = Lognormal, sd_min = Some 4, sd_max = Some 16, sd_mean = Some 8, sd_std_dev = Some 2 \<rparr>"
      90 "(LogNormalGen 8 2 4 16, 90)" 4 0]
  by (simp add: uniform_ok_def constant_rng_def new_with_seed_def size_impl_def spec_range_def u64_max_def)

end
