(* ===== verification/Prepare_Phase.thy ===== *)
theory Prepare_Phase
  imports Object_Listing Size_Generator
begin

text \<open>
  The prepare phase (\<open>src/prepare/sequential.rs\<close>, \<open>parallel.rs\<close>, \<open>mod.rs\<close>): which objects exist,
  which an agent creates, the tasks in the order they are made, their execution with retries, error
  thresholds and the record in the metadata cache, the deferred retries, and the wait for the
  progress monitor. Tasks complete in the order they were made. A phase that never returns is the
  value \<open>None\<close>: a semaphore without permits, or a monitor whose position never reaches its length.
  The outcome of a PUT is a function of store, object, size and attempt; what a listing returns is a
  function of the objects created before it. Metrics, progress bars and live statistics are left out.
\<close>

subsection \<open>Objects and their names\<close>

record PreparedObject =
  po_uri :: string
  po_size :: nat
  po_created :: bool

definition join_key :: "string \<Rightarrow> string \<Rightarrow> string" where
  "join_key base key = (if ends_with base ''/'' then base @ key else base @ ''/'' @ key)"

definition hex_digit :: "nat \<Rightarrow> char" where "hex_digit d = ''0123456789abcdef'' ! d"

fun show_hex :: "nat \<Rightarrow> string" where
  "show_hex n = (if n < 16 then [hex_digit n] else show_hex (n div 16) @ [hex_digit (n mod 16)])"

declare show_hex.simps [simp del]

definition hex2 :: "nat \<Rightarrow> string" where
  "hex2 n = replicate (2 - length (show_hex n)) (CHR ''0'') @ show_hex n"

definition plain_key :: "string \<Rightarrow> nat \<Rightarrow> string" where
  "plain_key pfx i = pfx @ ''-'' @ show_padded 8 i @ ''.dat''"

definition flat_key :: "nat \<Rightarrow> string \<Rightarrow> nat \<Rightarrow> string" where
  "flat_key shards pfx i =
     (if 0 < shards then hex2 (i mod shards) @ ''/'' @ plain_key pfx i else plain_key pfx i)"

definition pools :: "bool \<Rightarrow> string list" where
  "pools needs_separate = (if needs_separate then [''prepared'', ''deletable''] else [''prepared''])"

definition detect_pool_requirements :: "WeightedOp list \<Rightarrow> bool \<times> bool" where
  "detect_pool_requirements ops =
     ((\<exists>w\<in>set ops. case spec w of Delete _ \<Rightarrow> True | Rmdir _ _ \<Rightarrow> True | _ \<Rightarrow> False),
      (\<exists>w\<in>set ops. case spec w of Get _ \<Rightarrow> True | Stat _ \<Rightarrow> True | _ \<Rightarrow> False))"

definition uri_seed :: "string \<Rightarrow> 64 word" where
  "uri_seed uri = foldl (\<lambda>acc b. acc * 31 + of_nat (of_char b)) 0 uri"

definition object_uri :: "TreeManifest option \<Rightarrow> string \<Rightarrow> nat \<Rightarrow> string \<Rightarrow> nat \<Rightarrow> string option" where
  "object_uri tree base shards pfx i =
     (case tree of
        Some m \<Rightarrow> map_option (join_key base) (get_file_path m i)
      | None \<Rightarrow> Some (join_key base (flat_key shards pfx i)))"

subsection \<open>The environment\<close>

record ('r, 'd) prepare_env =
  env_rng :: "'r rng"
  env_open :: "string list \<Rightarrow> string + unit"
  env_list :: "PreparedObject list \<Rightarrow> string \<Rightarrow> (string + string) list"
  env_put :: "string \<Rightarrow> string \<Rightarrow> nat \<Rightarrow> nat \<Rightarrow> string + unit"
  env_retry_put :: "string \<Rightarrow> string \<Rightarrow> nat \<Rightarrow> string + unit"
  env_jitter :: "nat \<Rightarrow> rat"
  env_fjall :: "'d fjall"
  env_codec :: codec
  env_now :: "nat \<Rightarrow> nat"

type_synonym 'd cache_slot = "'d MetadataCache option"

type_synonym ('a, 'd) phase = "'d cache_slot \<Rightarrow> ((string + 'a) \<times> 'd cache_slot) option"

definition bind_phase :: "('a, 'd) phase \<Rightarrow> ('a \<Rightarrow> ('b, 'd) phase) \<Rightarrow> ('b, 'd) phase" where
  "bind_phase f g c =
     (case f c of None \<Rightarrow> None | Some (Inl e, c') \<Rightarrow> Some (Inl e, c') | Some (Inr x, c') \<Rightarrow> g x c')"

definition lift_result :: "string + 'a \<Rightarrow> ('a, 'd) phase" where
  "lift_result r c = Some (r, c)"

subsection \<open>What exists already\<close>

definition kv_cache_covers :: "('r, 'd) prepare_env \<Rightarrow> nat \<Rightarrow> 'd cache_slot \<Rightarrow> bool" where
  "kv_cache_covers env expected c =
     (case c of
        None \<Rightarrow> False
      | Some m \<Rightarrow>
          (case check_listing_coverage (env_fjall env) (env_codec env) expected m of
             Inr (Some cov) \<Rightarrow> covers_all cov
           | _ \<Rightarrow> False))"

definition list_pattern :: "PrepareConfig \<Rightarrow> TreeManifest option \<Rightarrow> string \<Rightarrow> string \<Rightarrow> string" where
  "list_pattern cfg tree base pfx =
     (if tree \<noteq> None then base
      else if 0 < key_prefix_shards cfg then listing_base base
      else join_key base (pfx @ ''-''))"

definition existing_objects ::
  "('r, 'd) prepare_env \<Rightarrow> PrepareConfig \<Rightarrow> TreeManifest option \<Rightarrow> nat \<Rightarrow> nat \<Rightarrow> PreparedObject list \<Rightarrow> string
    \<Rightarrow> EnsureSpec \<Rightarrow> string \<Rightarrow> 'd cache_slot \<Rightarrow> string + nat \<times> nat list" where
  "existing_objects env cfg tree agent n before base sp pfx c =
     (if skip_verification cfg \<and> \<not> force_overwrite cfg then Inr (es_count sp, [])
      else if force_overwrite cfg then Inr (0, [])
      else if kv_cache_covers env (es_count sp) c then Inr (es_count sp, [])
      else
        (case list_existing_objects_distributed (env_list env before) (list_pattern cfg tree base pfx) tree agent n of
           Inl _ \<Rightarrow> Inl ''Failed to list existing objects''
         | Inr r \<Rightarrow> Inr (file_count r, indices r)))"

text \<open>An error with a context shows the context.\<close>

definition size_context :: "string + 'a \<Rightarrow> string + 'a" where
  "size_context r = (case r of Inl _ \<Rightarrow> Inl ''Failed to create size generator'' | Inr x \<Rightarrow> Inr x)"

text \<open>The objects taken to exist: sizes from a generator with the default seed.\<close>

definition reconstruct :: "('r, 'd) prepare_env \<Rightarrow> EnsureSpec \<Rightarrow> string list \<Rightarrow> string + PreparedObject list" where
  "reconstruct env sp uris =
     bind_result (size_context (size_generator_new (env_rng env) (get_size_spec sp)))
       (\<lambda>sg. Inr (map2 (\<lambda>u sz. \<lparr> po_uri = u, po_size = sz, po_created = False \<rparr>)
                    uris (generate_sizes (env_rng env) (length uris) sg)))"

subsection \<open>Running tasks\<close>

record put_task =
  pt_store :: string
  pt_uri :: string
  pt_size :: nat
  pt_index :: nat

record 'd prepare_run =
  run_tracker :: PrepareErrorTracker
  run_cache :: "'d cache_slot"
  run_created :: "PreparedObject list"
  run_error :: "string option"

definition RetryConfig_default :: RetryConfig where
  "RetryConfig_default =
     \<lparr> rc_max_retries = 3, rc_initial_delay_ms = 100, rc_max_delay_ms = 5000, rc_multiplier = 2,
       rc_jitter = 1 / 4 \<rparr>"

definition run_start :: "'d cache_slot \<Rightarrow> 'd prepare_run" where
  "run_start c =
     \<lparr> run_tracker = prepare_tracker_new 100 10, run_cache = c, run_created = [], run_error = None \<rparr>"

text \<open>The result of recording an object is ignored; the map of endpoints is never empty here.\<close>

definition record_prepared :: "('r, 'd) prepare_env \<Rightarrow> put_task \<Rightarrow> 'd cache_slot \<Rightarrow> 'd cache_slot" where
  "record_prepared env t c =
     (case c of
        None \<Rightarrow> None
      | Some m \<Rightarrow>
          (case endpoint_for_file (pt_index t) m of
             Inr (Some ep) \<Rightarrow>
               Some (m\<lparr>cache_endpoints := hput (pt_index t mod length (cache_endpoints m))
                   (snd (record_created (env_fjall env) (env_codec env) (env_now env (pt_index t)) (config_hash m)
                          (pt_index t) (pt_uri t) (pt_size t) None None ep))
                   (cache_endpoints m)\<rparr>)
           | _ \<Rightarrow> Some m))"

definition put_result :: "('r, 'd) prepare_env \<Rightarrow> put_task \<Rightarrow> string option + unit" where
  "put_result env t =
     fst (retry_with_backoff RetryConfig_default (env_put env (pt_store t) (pt_uri t) (pt_size t)) (env_jitter env))"

definition failure_of :: "put_task \<Rightarrow> string option \<Rightarrow> PrepareFailure" where
  "failure_of t e =
     \<lparr> pf_uri = pt_uri t, pf_size = pt_size t,
       pf_error = (case e of Some m \<Rightarrow> m | None \<Rightarrow> ''Unknown error in retry'') \<rparr>"

text \<open>The messages of the two strategies.\<close>

definition sequential_abort :: "nat \<Rightarrow> nat \<Rightarrow> string" where
  "sequential_abort total_errs consecutive =
     ''Prepare aborted: '' @ show_nat total_errs @ '' total errors or '' @ show_nat consecutive @ '' consecutive errors''"

definition parallel_abort :: "nat \<Rightarrow> nat \<Rightarrow> string" where
  "parallel_abort total_errs consecutive =
     ''Prepare aborted: '' @ show_nat total_errs @ '' total errors (max: 100) or '' @ show_nat consecutive
     @ '' consecutive errors (max: 10)''"

definition finish_task ::
  "('r, 'd) prepare_env \<Rightarrow> (nat \<Rightarrow> nat \<Rightarrow> string) \<Rightarrow> put_task \<Rightarrow> 'd prepare_run \<Rightarrow> 'd prepare_run" where
  "finish_task env abort_msg t st =
     (case put_result env t of
        Inr _ \<Rightarrow>
          st\<lparr>run_tracker := prepare_success (run_tracker st),
             run_cache := record_prepared env t (run_cache st),
             run_created := run_created st @ [\<lparr> po_uri = pt_uri t, po_size = pt_size t, po_created = True \<rparr>]\<rparr>
      | Inl e \<Rightarrow>
          (let ((abort, total_errs, consecutive), trk) = prepare_error (failure_of t e) (run_tracker st)
           in st\<lparr>run_tracker := trk,
                 run_error := (if abort \<and> run_error st = None
                   then Some (abort_msg total_errs consecutive)
                   else run_error st)\<rparr>))"

definition run_tasks ::
  "('r, 'd) prepare_env \<Rightarrow> (nat \<Rightarrow> nat \<Rightarrow> string) \<Rightarrow> put_task list \<Rightarrow> 'd prepare_run \<Rightarrow> 'd prepare_run" where
  "run_tasks env abort_msg ts st = foldl (\<lambda>s t. finish_task env abort_msg t s) st ts"

text \<open>
  The deferred retries, with their number of workers: with a retry to run and no worker the tasks
  wait for a permit that never comes.
\<close>

definition deferred_retry ::
  "('r, 'd) prepare_env \<Rightarrow> string list \<Rightarrow> nat \<Rightarrow> PrepareFailure list \<Rightarrow> nat
    \<Rightarrow> ((string \<times> nat) list \<times> (string \<times> string) list) option" where
  "deferred_retry env stores workers failures attempted =
     (if failures \<noteq> [] \<and> fst (determine_retry_strategy (length failures) attempted) \<and> workers = 0 then None
      else Some (retry_failed_objects (map (\<lambda>s. (s, s)) stores) (env_retry_put env) (env_jitter env) failures attempted))"

definition retried_objects :: "(string \<times> nat) list \<Rightarrow> PreparedObject list" where
  "retried_objects rs = map (\<lambda>(u, sz). \<lparr> po_uri = u, po_size = sz, po_created = True \<rparr>) rs"

text \<open>
  After the tasks: the monitor ends once the position of the progress bar, one step per task run,
  reaches its length. The sequential strategy waits for it before anything else, the parallel one
  before returning an error and at the end.
\<close>

definition finish_run ::
  "('r, 'd) prepare_env \<Rightarrow> string list \<Rightarrow> nat \<Rightarrow> nat \<Rightarrow> nat \<Rightarrow> 'd prepare_run
    \<Rightarrow> ((string + PreparedObject list) \<times> 'd cache_slot) option" where
  "finish_run env stores workers position planned st =
     (if position < planned then None
      else case run_error st of
        Some e \<Rightarrow> Some (Inl e, run_cache st)
      | None \<Rightarrow>
          (case deferred_retry env stores (workers div 4) (failed_objects (run_tracker st)) planned of
             None \<Rightarrow> None
           | Some (again, lost) \<Rightarrow> Some (Inr (run_created st @ retried_objects again), run_cache st)))"

subsection \<open>The sequential strategy\<close>

text \<open>
  The tasks of a pool: one size is drawn for every object number, existing and foreign ones
  included; with several agents the sequential strategy always takes one agent's share.
\<close>

definition mine :: "nat \<Rightarrow> nat \<Rightarrow> nat \<Rightarrow> bool" where
  "mine agent n i = (1 < n \<longrightarrow> i mod n = agent)"

definition missing_indices :: "nat list \<Rightarrow> nat \<Rightarrow> nat \<Rightarrow> nat \<Rightarrow> nat list" where
  "missing_indices existing agent n amount = filter (\<lambda>i. i \<notin> set existing \<and> mine agent n i) [0..<amount]"

definition pool_task ::
  "TreeManifest option \<Rightarrow> string \<Rightarrow> nat \<Rightarrow> string \<Rightarrow> nat list \<Rightarrow> nat \<Rightarrow> nat \<Rightarrow> nat \<times> nat \<Rightarrow> put_task option" where
  "pool_task tree base shards pfx existing agent n isz =
     (let (i, sz) = isz
      in if i \<in> set existing \<or> \<not> mine agent n i then None
         else map_option (\<lambda>u. \<lparr> pt_store = base, pt_uri = u, pt_size = sz, pt_index = i \<rparr>)
                (object_uri tree base shards pfx i))"

definition pool_tasks ::
  "TreeManifest option \<Rightarrow> string \<Rightarrow> nat \<Rightarrow> string \<Rightarrow> nat list \<Rightarrow> nat \<Rightarrow> nat \<Rightarrow> nat list \<Rightarrow> put_task list" where
  "pool_tasks tree base shards pfx existing agent n sizes =
     List.map_filter (pool_task tree base shards pfx existing agent n) (zip [0..<length sizes] sizes)"

definition base_uri_message :: "base_uri_error + string \<Rightarrow> string + string" where
  "base_uri_message r =
     (case r of Inl _ \<Rightarrow> Inl ''Failed to determine base_uri for prepare phase'' | Inr u \<Rightarrow> Inr u)"

definition create_pool ::
  "('r, 'd) prepare_env \<Rightarrow> PrepareConfig \<Rightarrow> TreeManifest option \<Rightarrow> nat \<Rightarrow> nat \<Rightarrow> nat \<Rightarrow> EnsureSpec \<Rightarrow> string \<Rightarrow> string
    \<Rightarrow> nat list \<Rightarrow> (PreparedObject list, 'd) phase" where
  "create_pool env cfg tree workers agent n sp pfx base existing c =
     (case size_context (new_with_seed (env_rng env) (get_size_spec sp) (unat (uri_seed base))) of
        Inl e \<Rightarrow> Some (Inl e, c)
      | Inr sg \<Rightarrow>
          (let tasks = pool_tasks tree base (key_prefix_shards cfg) pfx existing agent n
                         (generate_sizes (env_rng env) (es_count sp) sg)
           in if workers = 0 \<and> tasks \<noteq> [] then None
              else finish_run env [base] workers (length tasks)
                     (length (missing_indices existing agent n (es_count sp)))
                     (run_tasks env sequential_abort tasks (run_start c))))"

definition prepare_pool ::
  "('r, 'd) prepare_env \<Rightarrow> PrepareConfig \<Rightarrow> MultiEndpointConfig option \<Rightarrow> TreeManifest option \<Rightarrow> nat \<Rightarrow> nat \<Rightarrow> nat
    \<Rightarrow> PreparedObject list \<Rightarrow> EnsureSpec \<Rightarrow> string \<Rightarrow> (PreparedObject list, 'd) phase" where
  "prepare_pool env cfg me tree workers agent n before sp pfx c =
     (case base_uri_message (get_base_uri sp (map_option endpoints me)) of
        Inl e \<Rightarrow> Some (Inl e, c)
      | Inr base \<Rightarrow>
          (case env_open env (case me of Some m \<Rightarrow> endpoints m | None \<Rightarrow> [base]) of
             Inl e \<Rightarrow> Some (Inl e, c)
           | Inr _ \<Rightarrow>
               (case existing_objects env cfg tree agent n before base sp pfx c of
                  Inl e \<Rightarrow> Some (Inl e, c)
                | Inr (found, existing) \<Rightarrow>
                    if es_count sp \<le> found
                    then lift_result (reconstruct env sp
                           (List.map_filter (object_uri tree base (key_prefix_shards cfg) pfx) [0..<es_count sp])) c
                    else create_pool env cfg tree workers agent n sp pfx base existing c)))"

fun prepare_jobs ::
  "('r, 'd) prepare_env \<Rightarrow> PrepareConfig \<Rightarrow> MultiEndpointConfig option \<Rightarrow> TreeManifest option \<Rightarrow> nat \<Rightarrow> nat \<Rightarrow> nat
    \<Rightarrow> (EnsureSpec \<times> string) list \<Rightarrow> PreparedObject list \<Rightarrow> (PreparedObject list, 'd) phase" where
  "prepare_jobs env cfg me tree workers agent n [] before = lift_result (Inr before)"
| "prepare_jobs env cfg me tree workers agent n ((sp, pfx) # jobs) before =
     bind_phase (prepare_pool env cfg me tree workers agent n before sp pfx)
       (\<lambda>objs. prepare_jobs env cfg me tree workers agent n jobs (before @ objs))"

definition pool_jobs :: "PrepareConfig \<Rightarrow> bool \<Rightarrow> (EnsureSpec \<times> string) list" where
  "pool_jobs cfg needs_separate = concat (map (\<lambda>sp. map (Pair sp) (pools needs_separate)) (ensure_objects cfg))"

definition prepare_sequential ::
  "('r, 'd) prepare_env \<Rightarrow> PrepareConfig \<Rightarrow> bool \<Rightarrow> MultiEndpointConfig option \<Rightarrow> TreeManifest option \<Rightarrow> nat \<Rightarrow> nat \<Rightarrow> nat
    \<Rightarrow> (PreparedObject list, 'd) phase" where
  "prepare_sequential env cfg needs_separate me tree workers agent n =
     prepare_jobs env cfg me tree workers agent n (pool_jobs cfg needs_separate) []"

subsection \<open>The parallel strategy\<close>

record PreparePlan =
  plan_count :: nat
  plan_size_spec :: SizeSpec
  plan_prefix :: string
  plan_endpoints :: "string list"
  plan_existing :: "nat list"
  plan_force :: bool
  plan_skip :: bool
  plan_seed :: nat
  plan_shards :: nat

definition mine_if_shared :: "bool \<Rightarrow> nat \<Rightarrow> nat \<Rightarrow> nat \<Rightarrow> bool" where
  "mine_if_shared shared agent n i = (shared \<and> 1 < n \<longrightarrow> i mod n = agent)"

text \<open>The number of objects a plan is to create: counted, or computed when all are overwritten.\<close>

definition planned_to_create :: "PrepareConfig \<Rightarrow> nat \<Rightarrow> nat list \<Rightarrow> bool \<Rightarrow> nat \<Rightarrow> nat \<Rightarrow> nat" where
  "planned_to_create cfg amount existing shared agent n =
     (if skip_verification cfg \<and> \<not> force_overwrite cfg then 0
      else if force_overwrite cfg
      then (if shared \<and> 1 < n then (amount + n - 1 - agent) div n else amount)
      else length (filter (\<lambda>i. i \<notin> set existing \<and> mine_if_shared shared agent n i) [0..<amount]))"

definition plan_endpoint_uris :: "MultiEndpointConfig option \<Rightarrow> EnsureSpec \<Rightarrow> string + string list" where
  "plan_endpoint_uris me sp =
     (case me of
        Some m \<Rightarrow> if endpoints m = [] then Inl ''index out of bounds'' else Inr (endpoints m)
      | None \<Rightarrow> bind_result (base_uri_message (get_base_uri sp None)) (\<lambda>u. Inr [u]))"

definition make_plan ::
  "('r, 'd) prepare_env \<Rightarrow> PrepareConfig \<Rightarrow> MultiEndpointConfig option \<Rightarrow> TreeManifest option \<Rightarrow> nat \<Rightarrow> nat \<Rightarrow> bool
    \<Rightarrow> 'd cache_slot \<Rightarrow> EnsureSpec \<times> string \<Rightarrow> string + (PreparePlan \<times> nat) option" where
  "make_plan env cfg me tree agent n shared c job =
     (let (sp, pfx) = job
      in case plan_endpoint_uris me sp of
           Inl e \<Rightarrow> Inl e
         | Inr uris \<Rightarrow>
             (case env_open env uris of
                Inl e \<Rightarrow> Inl e
              | Inr _ \<Rightarrow>
                  (case existing_objects env cfg tree agent n [] (hd uris) sp pfx c of
                     Inl e \<Rightarrow> Inl e
                   | Inr (found, existing) \<Rightarrow>
                       (let planned = planned_to_create cfg (es_count sp) existing shared agent n
                        in if planned = 0 then Inr None
                           else
                             (case size_generator_new (env_rng env) (get_size_spec sp) of
                                Inl e \<Rightarrow> Inl e
                              | Inr _ \<Rightarrow>
                                  Inr (Some (\<lparr> plan_count = es_count sp, plan_size_spec = get_size_spec sp,
                                               plan_prefix = pfx, plan_endpoints = uris, plan_existing = existing,
                                               plan_force = force_overwrite cfg, plan_skip = skip_verification cfg,
                                               plan_seed = unat (uri_seed (hd uris)),
                                               plan_shards = key_prefix_shards cfg \<rparr>, planned)))))))"

fun collect_plans :: "('j \<Rightarrow> string + 'p option) \<Rightarrow> 'j list \<Rightarrow> string + 'p list" where
  "collect_plans f [] = Inr []"
| "collect_plans f (j # js) =
     bind_result (f j) (\<lambda>p. bind_result (collect_plans f js)
       (\<lambda>ps. Inr (case p of None \<Rightarrow> ps | Some x \<Rightarrow> x # ps)))"

definition should_create :: "PreparePlan \<Rightarrow> nat \<Rightarrow> bool" where
  "should_create p i =
     (if plan_skip p \<and> \<not> plan_force p then False
      else if plan_force p then True
      else i \<notin> set (plan_existing p))"

text \<open>The object goes to the endpoint of its number; outside the manifest it gets the flat name.\<close>

definition plan_uri :: "TreeManifest option \<Rightarrow> PreparePlan \<Rightarrow> nat \<Rightarrow> string \<times> string" where
  "plan_uri tree p i =
     (let ep = plan_endpoints p ! (i mod length (plan_endpoints p))
      in (ep, join_key ep
           (case tree of
              Some m \<Rightarrow> (case get_file_path m i of Some path \<Rightarrow> path | None \<Rightarrow> plain_key (plan_prefix p) i)
            | None \<Rightarrow> flat_key (plan_shards p) (plan_prefix p) i)))"

definition plan_task :: "TreeManifest option \<Rightarrow> bool \<Rightarrow> nat \<Rightarrow> nat \<Rightarrow> nat \<Rightarrow> PreparePlan \<times> nat list \<Rightarrow> put_task option" where
  "plan_task tree shared agent n i p_sizes =
     (let (p, sizes) = p_sizes
      in if i < plan_count p \<and> should_create p i \<and> mine_if_shared shared agent n i
         then (let (ep, uri) = plan_uri tree p i
               in Some \<lparr> pt_store = ep, pt_uri = uri, pt_size = sizes ! i, pt_index = i \<rparr>)
         else None)"

text \<open>One object of every plan in each round, until the longest plan is exhausted.\<close>

definition interleaved_tasks ::
  "TreeManifest option \<Rightarrow> bool \<Rightarrow> nat \<Rightarrow> nat \<Rightarrow> (PreparePlan \<times> nat list) list \<Rightarrow> put_task list" where
  "interleaved_tasks tree shared agent n plans =
     concat (map (\<lambda>i. List.map_filter (plan_task tree shared agent n i) plans)
       [0..<fold max (map (plan_count \<circ> fst) plans) 0])"

fun plan_sizes :: "'r rng \<Rightarrow> PreparePlan list \<Rightarrow> string + (PreparePlan \<times> nat list) list" where
  "plan_sizes g [] = Inr []"
| "plan_sizes g (p # ps) =
     bind_result (size_context (new_with_seed g (plan_size_spec p) (plan_seed p)))
       (\<lambda>sg. bind_result (plan_sizes g ps) (\<lambda>rest. Inr ((p, generate_sizes g (plan_count p) sg) # rest)))"

text \<open>Chunks of \<open>k\<close> tasks: the first error ends the phase after its chunk. The number of tasks run.\<close>

function run_chunks ::
  "('r, 'd) prepare_env \<Rightarrow> nat \<Rightarrow> put_task list \<Rightarrow> nat \<Rightarrow> 'd prepare_run \<Rightarrow> nat \<times> 'd prepare_run" where
  "run_chunks env k ts position st =
     (if ts = [] \<or> k = 0 \<or> run_error st \<noteq> None then (position, st)
      else run_chunks env k (drop k ts) (position + length (take k ts))
             (run_tasks env parallel_abort (take k ts) st))"
  by pat_completeness auto
termination by (relation "measure (\<lambda>(env, k, ts, position, st). length ts)") auto

declare run_chunks.simps [simp del]

definition TASK_CHUNK_SIZE :: nat where "TASK_CHUNK_SIZE = 100000"

definition distinct_endpoints :: "PreparePlan list \<Rightarrow> string list" where
  "distinct_endpoints plans = foldl (\<lambda>seen ep. hset_insert ep seen) [] (concat (map plan_endpoints plans))"

definition open_all :: "('r, 'd) prepare_env \<Rightarrow> string list \<Rightarrow> string + unit" where
  "open_all env uris =
     (case find (\<lambda>u. \<not> is_ok (env_open env [u])) uris of
        None \<Rightarrow> Inr ()
      | Some u \<Rightarrow> Inl (''Failed to create store for '' @ u))"

definition reconstruct_job ::
  "('r, 'd) prepare_env \<Rightarrow> PrepareConfig \<Rightarrow> MultiEndpointConfig option \<Rightarrow> TreeManifest option \<Rightarrow> EnsureSpec \<times> string
    \<Rightarrow> string + PreparedObject list option" where
  "reconstruct_job env cfg me tree job =
     (let (sp, pfx) = job
      in bind_result (plan_endpoint_uris me sp)
           (\<lambda>uris. bind_result (reconstruct env sp
              (List.map_filter (\<lambda>i. object_uri tree (uris ! (i mod length uris)) (key_prefix_shards cfg) pfx i)
                [0..<es_count sp]))
              (\<lambda>objs. Inr (Some objs))))"

definition run_plans ::
  "('r, 'd) prepare_env \<Rightarrow> nat \<Rightarrow> TreeManifest option \<Rightarrow> nat \<Rightarrow> nat \<Rightarrow> nat \<Rightarrow> bool \<Rightarrow> (PreparePlan \<times> nat) list
    \<Rightarrow> (PreparedObject list, 'd) phase" where
  "run_plans env chunk tree workers agent n shared plans c =
     (case open_all env (distinct_endpoints (map fst plans)) of
        Inl e \<Rightarrow> Some (Inl e, c)
      | Inr _ \<Rightarrow>
          (case plan_sizes (env_rng env) (map fst plans) of
             Inl e \<Rightarrow> Some (Inl e, c)
           | Inr sized \<Rightarrow>
               (let tasks = interleaved_tasks tree shared agent n sized;
                    (position, st) = run_chunks env chunk tasks 0 (run_start c)
                in if workers = 0 \<and> tasks \<noteq> [] then None
                   else finish_run env (distinct_endpoints (map fst plans)) workers position
                          (sum_list (map snd plans)) st)))"

definition prepare_parallel ::
  "('r, 'd) prepare_env \<Rightarrow> PrepareConfig \<Rightarrow> bool \<Rightarrow> MultiEndpointConfig option \<Rightarrow> TreeManifest option \<Rightarrow> nat \<Rightarrow> nat \<Rightarrow> nat
    \<Rightarrow> bool \<Rightarrow> (PreparedObject list, 'd) phase" where
  "prepare_parallel env cfg needs_separate me tree workers agent n shared c =
     (case collect_plans (make_plan env cfg me tree agent n shared c) (pool_jobs cfg needs_separate) of
        Inl e \<Rightarrow> Some (Inl e, c)
      | Inr plans \<Rightarrow>
          if sum_list (map snd plans) = 0
          then lift_result (bind_result (collect_plans (reconstruct_job env cfg me tree) (pool_jobs cfg needs_separate))
                 (\<lambda>objs. Inr (concat objs))) c
          else run_plans env TASK_CHUNK_SIZE tree workers agent n shared plans c)"

subsection \<open>The phase\<close>

definition needs_mkdir :: "string \<Rightarrow> bool" where
  "needs_mkdir base = (starts_with base ''file://'' \<or> starts_with base ''direct://'')"

fun make_directories :: "(string \<Rightarrow> string + unit) \<Rightarrow> string \<Rightarrow> string list \<Rightarrow> nat \<Rightarrow> string + nat" where
  "make_directories mkdir base [] made = Inr made"
| "make_directories mkdir base (d # ds) made =
     (case mkdir (join_key base d) of
        Inl _ \<Rightarrow> Inl (''Failed to create directory: '' @ join_key base d)
      | Inr _ \<Rightarrow> make_directories mkdir base ds (made + 1))"

definition finalize_tree_with_mkdir ::
  "('r, 'd) prepare_env \<Rightarrow> (string \<Rightarrow> string + unit) \<Rightarrow> PrepareConfig \<Rightarrow> string \<Rightarrow> string + nat" where
  "finalize_tree_with_mkdir env mkdir cfg base =
     (case directory_structure cfg of
        None \<Rightarrow> Inl ''No directory_structure specified''
      | Some dc \<Rightarrow>
          bind_result (env_open env [base])
            (\<lambda>_. if needs_mkdir base
                 then (case tree_new dc of
                         Inl _ \<Rightarrow> Inl ''Failed to create DirectoryTree''
                       | Inr t \<Rightarrow> make_directories mkdir base (all_directories (from_tree t)) 0)
                 else Inr 0))"

definition first_base_uri :: "PrepareConfig \<Rightarrow> MultiEndpointConfig option \<Rightarrow> string option" where
  "first_base_uri cfg me =
     (case ensure_objects cfg of
        [] \<Rightarrow> None
      | sp # _ \<Rightarrow> (case get_base_uri sp (map_option endpoints me) of Inl _ \<Rightarrow> None | Inr u \<Rightarrow> Some u))"

definition phase_tree :: "PrepareConfig \<Rightarrow> MultiEndpointConfig option \<Rightarrow> nat \<Rightarrow> string + TreeManifest option" where
  "phase_tree cfg me n =
     (if directory_structure cfg = None then Inr None
      else if first_base_uri cfg me = None
      then Inl ''directory_structure requires at least one ensure_objects entry for base_uri''
      else case create_tree_manifest_only cfg n of
             Inl _ \<Rightarrow> Inl ''Failed to create tree manifest''
           | Inr m \<Rightarrow> Inr (Some m))"

definition needs_separate_pools :: "WeightedOp list option \<Rightarrow> bool" where
  "needs_separate_pools wl =
     (case wl of None \<Rightarrow> False | Some ops \<Rightarrow> (let (del, ro) = detect_pool_requirements ops in del \<and> ro))"

record prepare_summary =
  prepared :: "PreparedObject list"
  prepared_tree :: "TreeManifest option"
  mkdir_count :: nat
  objects_created :: nat
  objects_existed :: nat

definition summarize :: "PreparedObject list \<Rightarrow> TreeManifest option \<Rightarrow> nat \<Rightarrow> prepare_summary" where
  "summarize objs tree made =
     \<lparr> prepared = objs, prepared_tree = tree, mkdir_count = made,
       objects_created = length (filter po_created objs),
       objects_existed = length (filter (\<lambda>x. \<not> po_created x) objs) \<rparr>"

definition prepare_objects ::
  "('r, 'd) prepare_env \<Rightarrow> (string \<Rightarrow> string + unit) \<Rightarrow> PrepareConfig \<Rightarrow> WeightedOp list option
    \<Rightarrow> MultiEndpointConfig option \<Rightarrow> nat \<Rightarrow> nat \<Rightarrow> nat \<Rightarrow> bool \<Rightarrow> (prepare_summary, 'd) phase" where
  "prepare_objects env mkdir cfg wl me workers agent n shared =
     bind_phase (lift_result (phase_tree cfg me n)) (\<lambda>tree.
     bind_phase
       (case prepare_strategy cfg of
          Sequential \<Rightarrow> prepare_sequential env cfg (needs_separate_pools wl) me tree workers agent n
        | Parallel \<Rightarrow> prepare_parallel env cfg (needs_separate_pools wl) me tree workers agent n shared)
       (\<lambda>objs. lift_result
          (if tree = None then Inr (summarize objs tree 0)
           else case first_base_uri cfg me of
                  None \<Rightarrow> Inl ''Failed to get base_uri for finalizing tree''
                | Some base \<Rightarrow> bind_result (finalize_tree_with_mkdir env mkdir cfg base)
                                 (\<lambda>made. Inr (summarize objs tree made)))))"

text \<open>
  The endpoints whose caches are checkpointed, during the phase and at its end: with shared storage
  the first in the order of the map.
\<close>

definition checkpoint_targets :: "(string \<Rightarrow> url option) \<Rightarrow> 'd MetadataCache \<Rightarrow> (nat \<times> 'd EndpointCache) list" where
  "checkpoint_targets parse m =
     (let eps = cache_endpoints m
      in if 1 < length eps \<and> endpoints_share_storage parse (map (\<lambda>e. endpoint_uri (snd e)) eps) then take 1 eps else eps)"

subsection \<open>The work of the agents\<close>

lemma mset_concat_map_cong: "mset xs = mset ys \<Longrightarrow> mset (concat (map g xs)) = mset (concat (map g ys))"
proof -
  have "mset (concat (map g zs)) = sum_mset (image_mset (\<lambda>x. mset (g x)) (mset zs))" for zs
    by (induction zs) simp_all
  then show "mset xs = mset ys \<Longrightarrow> mset (concat (map g xs)) = mset (concat (map g ys))" by simp
qed

lemma agents_split_work:
  assumes "0 < n"
  shows "mset (concat (map (\<lambda>a. concat (map g (filter (\<lambda>i. assigned_agent n i = a) xs))) [0..<n])) = mset (concat (map g xs))"
proof -
  have "concat (map (\<lambda>a. concat (map g (filter (\<lambda>i. assigned_agent n i = a) xs))) as)
      = concat (map g (concat (map (\<lambda>a. filter (\<lambda>i. assigned_agent n i = a) xs) as)))" for as
    by (induction as) simp_all
  then show ?thesis using mset_concat_map_cong [OF agent_shard.shards_mset [OF assms, of xs], of g] by simp
qed

lemma map_filter_as_concat:
  "List.map_filter f xs = concat (map (\<lambda>x. case f x of None \<Rightarrow> [] | Some y \<Rightarrow> [y]) xs)"
  by (induction xs) (auto split: option.split)

lemma concat_map_filter: "concat (map (\<lambda>x. if P x then g x else []) xs) = concat (map g (filter P xs))"
  by (induction xs) auto

lemma zip_upt: "zip [0..<length ys] ys = map (\<lambda>i. (i, ys ! i)) [0..<length ys]"
  by (rule nth_equalityI) simp_all

lemma mine_alone [simp]: "mine 0 1 i" "mine 0 (Suc 0) i"
  by (simp_all add: mine_def)

lemma mine_iff: "a < n \<Longrightarrow> mine a n i \<longleftrightarrow> assigned_agent n i = a"
  by (cases "n = 1") (auto simp: mine_def assigned_agent_def)

lemma pool_tasks_share:
  assumes "a < n"
  shows "pool_tasks tree base sh pfx ex a n sizes =
    concat (map (\<lambda>i. case pool_task tree base sh pfx ex 0 1 (i, sizes ! i) of None \<Rightarrow> [] | Some y \<Rightarrow> [y])
      (filter (\<lambda>i. assigned_agent n i = a) [0..<length sizes]))"
proof -
  have one: "(case pool_task tree base sh pfx ex a n (i, sz) of None \<Rightarrow> [] | Some y \<Rightarrow> [y]) =
      (if assigned_agent n i = a
       then (case pool_task tree base sh pfx ex 0 1 (i, sz) of None \<Rightarrow> [] | Some y \<Rightarrow> [y]) else [])" for i sz
    by (simp add: pool_task_def mine_iff [OF assms])
  show ?thesis
    unfolding pool_tasks_def map_filter_as_concat zip_upt map_map comp_def one concat_map_filter ..
qed

lemma pool_tasks_alone:
  "pool_tasks tree base sh pfx ex 0 1 sizes =
    concat (map (\<lambda>i. case pool_task tree base sh pfx ex 0 1 (i, sizes ! i) of None \<Rightarrow> [] | Some y \<Rightarrow> [y]) [0..<length sizes])"
  unfolding pool_tasks_def map_filter_as_concat zip_upt map_map comp_def ..

lemma interleaved_share:
  assumes "a < n"
  shows "interleaved_tasks tree True a n plans =
    concat (map (\<lambda>i. List.map_filter (plan_task tree True 0 1 i) plans)
      (filter (\<lambda>i. assigned_agent n i = a) [0..<fold max (map (plan_count \<circ> fst) plans) 0]))"
proof -
  have one: "List.map_filter (plan_task tree True a n i) plans =
      (if assigned_agent n i = a then List.map_filter (plan_task tree True 0 1 i) plans else [])" for i
  proof (cases "assigned_agent n i = a")
    case True
    then have "plan_task tree True a n i = plan_task tree True 0 1 i"
      by (auto simp: plan_task_def mine_if_shared_def assigned_agent_def fun_eq_iff)
    then show ?thesis using True by simp
  next
    case False
    then have "plan_task tree True a n i = (\<lambda>_. None)"
      using assms by (cases "n = 1") (auto simp: plan_task_def mine_if_shared_def assigned_agent_def fun_eq_iff)
    then show ?thesis using False by (simp add: map_filter_as_concat)
  qed
  show ?thesis unfolding interleaved_tasks_def one concat_map_filter ..
qed



subsection \<open>Whether the phase returns\<close>

lemma map_filter_length: "length (List.map_filter f xs) = length (filter (\<lambda>x. f x \<noteq> None) xs)"
  by (induction xs) (auto split: option.split)

lemma pool_tasks_length:
  "length (pool_tasks tree base sh pfx ex a n sizes) =
    length (filter (\<lambda>i. i \<notin> set ex \<and> mine a n i \<and> object_uri tree base sh pfx i \<noteq> None) [0..<length sizes])"
  by (simp add: pool_tasks_def map_filter_length zip_upt filter_map comp_def pool_task_def conj_ac cong: conj_cong)

lemma filter_length_less_iff:
  "length (filter (\<lambda>i. P i \<and> Q i) xs) < length (filter P xs) \<longleftrightarrow> (\<exists>i\<in>set xs. P i \<and> \<not> Q i)"
proof -
  have "length (filter P xs) = length (filter (\<lambda>i. P i \<and> Q i) xs) + length (filter (\<lambda>i. P i \<and> \<not> Q i) xs)"
    by (induction xs) auto
  then show ?thesis by (auto simp: filter_empty_conv simp flip: length_greater_0_conv)
qed

lemma pool_position_short_iff:
  "length (pool_tasks tree base sh pfx ex a n sizes) < length (missing_indices ex a n (length sizes)) \<longleftrightarrow>
    (\<exists>i<length sizes. i \<notin> set ex \<and> mine a n i \<and> object_uri tree base sh pfx i = None)"
  using filter_length_less_iff [of "\<lambda>i. i \<notin> set ex \<and> mine a n i" "\<lambda>i. object_uri tree base sh pfx i \<noteq> None" "[0..<length sizes]"]
  by (auto simp: pool_tasks_length missing_indices_def conj_assoc)

lemma deferred_retry_None_iff:
  "deferred_retry env stores w fs attempted = None \<longleftrightarrow>
     fs \<noteq> [] \<and> fst (determine_retry_strategy (length fs) attempted) \<and> w = 0"
  by (simp add: deferred_retry_def)

lemma finish_run_None_iff:
  "finish_run env stores w position planned st = None \<longleftrightarrow>
     position < planned
   \<or> (run_error st = None \<and> failed_objects (run_tracker st) \<noteq> []
      \<and> fst (determine_retry_strategy (length (failed_objects (run_tracker st))) planned) \<and> w < 4)"
proof -
  have "w div 4 = 0 \<longleftrightarrow> w < 4" by linarith
  then show ?thesis
    using deferred_retry_None_iff [of env stores "w div 4" "failed_objects (run_tracker st)" planned]
    by (auto simp: finish_run_def split: option.split)
qed

lemma create_pool_None_iff:
  assumes "new_with_seed (env_rng env) (get_size_spec sp) (unat (uri_seed base)) = Inr sg"
    and "ts = pool_tasks tree base (key_prefix_shards cfg) pfx ex a n (generate_sizes (env_rng env) (es_count sp) sg)"
    and "st = run_tasks env sequential_abort ts (run_start c)"
  shows "create_pool env cfg tree w a n sp pfx base ex c = None \<longleftrightarrow>
      (\<exists>i<es_count sp. i \<notin> set ex \<and> mine a n i \<and> object_uri tree base (key_prefix_shards cfg) pfx i = None)
    \<or> (w = 0 \<and> ts \<noteq> [])
    \<or> (run_error st = None \<and> failed_objects (run_tracker st) \<noteq> [] \<and> w < 4
       \<and> fst (determine_retry_strategy (length (failed_objects (run_tracker st)))
                (length (missing_indices ex a n (es_count sp)))))"
proof -
  have "create_pool env cfg tree w a n sp pfx base ex c =
      (if w = 0 \<and> ts \<noteq> [] then None
       else finish_run env [base] w (length ts) (length (missing_indices ex a n (es_count sp))) st)"
    using assms by (simp add: create_pool_def size_context_def Let_def)
  then show ?thesis
    using pool_position_short_iff [of tree base "key_prefix_shards cfg" pfx ex a n "generate_sizes (env_rng env) (es_count sp) sg"]
      assms(2) by (auto simp: finish_run_None_iff)
qed

definition tree_covers :: "TreeManifest option \<Rightarrow> nat \<Rightarrow> bool" where
  "tree_covers tree amount = (case tree of None \<Rightarrow> True | Some m \<Rightarrow> list_all (\<lambda>i. get_file_path m i \<noteq> None) [0..<amount])"

lemma tree_covers_uri: "tree_covers tree amount \<Longrightarrow> i < amount \<Longrightarrow> object_uri tree base sh pfx i \<noteq> None"
  by (auto simp: tree_covers_def object_uri_def list_all_iff split: option.splits)

lemma create_pool_returns:
  assumes "4 \<le> w" and "tree_covers tree (es_count sp)"
  shows "create_pool env cfg tree w a n sp pfx base ex c \<noteq> None"
proof (cases "new_with_seed (env_rng env) (get_size_spec sp) (unat (uri_seed base))")
  case (Inl e)
  then show ?thesis by (simp add: create_pool_def size_context_def)
next
  case (Inr sg)
  show ?thesis
    unfolding create_pool_None_iff [OF Inr refl refl]
    using assms tree_covers_uri [OF assms(2)] by auto
qed

lemma prepare_pool_returns:
  assumes "4 \<le> w" and "tree_covers tree (es_count sp)"
  shows "prepare_pool env cfg me tree w a n before sp pfx c \<noteq> None"
  using create_pool_returns [OF assms]
  by (auto simp: prepare_pool_def lift_result_def split: sum.split)

lemma prepare_jobs_returns:
  assumes "4 \<le> w" and "list_all (\<lambda>j. tree_covers tree (es_count (fst j))) jobs"
  shows "prepare_jobs env cfg me tree w a n jobs before c \<noteq> None"
  using assms(2)
proof (induction jobs arbitrary: before c)
  case (Cons j jobs)
  obtain sp pfx where j: "j = (sp, pfx)" by force
  then obtain r c' where "prepare_pool env cfg me tree w a n before sp pfx c = Some (r, c')"
    using prepare_pool_returns [OF assms(1), of tree sp env cfg me a n before pfx c] Cons.prems by auto
  then show ?case using j Cons by (simp add: bind_phase_def split: sum.split)
qed (simp add: lift_result_def)
lemma run_chunks_position:
  assumes "0 < k"
  shows "run_error (snd (run_chunks env k ts position st)) = None
      \<Longrightarrow> fst (run_chunks env k ts position st) = position + length ts"
  using assms
proof (induction env k ts position st rule: run_chunks.induct)
  case (1 env k ts position st)
  show ?case
  proof (cases "ts = [] \<or> k = 0 \<or> run_error st \<noteq> None")
    case True
    then have "run_chunks env k ts position st = (position, st)"
      by (subst run_chunks.simps) auto
    then show ?thesis using True 1(2,3) by auto
  next
    case False
    then show ?thesis using 1 by (simp add: run_chunks.simps [of env k ts position st] min_def split: if_splits)
  qed
qed

lemma run_chunks_single:
  assumes "length ts \<le> k" and "run_error st = None"
  shows "fst (run_chunks env k ts position st) = position + length ts"
proof (cases "ts = []")
  case True
  then show ?thesis by (subst run_chunks.simps) simp
next
  case False
  then have "0 < k" using assms(1) by (cases k) simp_all
  then have "run_chunks env k ts position st =
      run_chunks env k [] (position + length ts) (run_tasks env parallel_abort ts st)"
    using False assms by (simp add: run_chunks.simps [of env k ts position st])
  then show ?thesis by (simp add: run_chunks.simps [of env k "[]"])
qed

lemma interleaved_length_aux:
  "length (concat (map (\<lambda>i. List.map_filter (f i) ps) xs)) =
    (\<Sum>p\<leftarrow>ps. length (filter (\<lambda>i. f i p \<noteq> None) xs))"
proof (induction xs)
  case (Cons i xs)
  have "(\<Sum>p\<leftarrow>ps. length (filter (\<lambda>i. f i p \<noteq> None) (i # xs))) =
      length (filter (\<lambda>p. f i p \<noteq> None) ps) + (\<Sum>p\<leftarrow>ps. length (filter (\<lambda>i. f i p \<noteq> None) xs))"
    by (induction ps) auto
  then show ?case using Cons by (simp add: map_filter_length)
qed (simp add: sum_list_triv)

lemma filter_upt_bounded: "m \<le> k \<Longrightarrow> filter (\<lambda>i. i < m \<and> P i) [0..<k] = filter P [0..<m]"
proof (induction k)
  case (Suc k)
  show ?case
  proof (cases "m \<le> k")
    case True
    then show ?thesis using Suc by simp
  next
    case False
    then have "m = Suc k" using Suc.prems by simp
    then show ?thesis by (intro filter_cong) auto
  qed
qed simp

lemma fold_max_ge: "x \<in> set xs \<or> x \<le> a \<Longrightarrow> x \<le> fold max xs (a::nat)"
  by (induction xs arbitrary: a) (auto simp: max_def)

definition plan_total :: "bool \<Rightarrow> nat \<Rightarrow> nat \<Rightarrow> PreparePlan \<Rightarrow> nat" where
  "plan_total shared agent n p =
     length (filter (\<lambda>i. should_create p i \<and> mine_if_shared shared agent n i) [0..<plan_count p])"

lemma interleaved_length:
  "length (interleaved_tasks tree shared agent n plans) = (\<Sum>p\<leftarrow>plans. plan_total shared agent n (fst p))"
proof -
  have "(\<lambda>i. plan_task tree shared agent n i p \<noteq> None) =
      (\<lambda>i. i < plan_count (fst p) \<and> (should_create (fst p) i \<and> mine_if_shared shared agent n i))" for p
    by (cases p) (simp add: plan_task_def fun_eq_iff split: prod.split)
  moreover have "plan_count (fst p) \<le> fold max (map (plan_count \<circ> fst) plans) 0" if "p \<in> set plans" for p
    using that by (intro fold_max_ge) auto
  ultimately show ?thesis
    unfolding interleaved_tasks_def interleaved_length_aux
    by (intro arg_cong [where f = sum_list] map_cong) (simp_all add: filter_upt_bounded plan_total_def)
qed

lemma computed_share:
  assumes "a < n"
  shows "(amount + n - 1 - a) div n = length (filter (\<lambda>i. i mod n = a) [0..<amount])"
proof -
  have n: "0 < n" using assms by simp
  let ?q = "amount div n" and ?r = "amount mod n"
  have r: "?r < n" using n by simp
  have "amount + n - 1 - a = ?q * n + (?r + n - 1 - a)"
    using div_mult_mod_eq [of amount n] assms by linarith
  then have "(amount + n - 1 - a) div n = ?q + (?r + n - 1 - a) div n" using n by simp
  moreover have "(?r + n - 1 - a) div n = (if a < ?r then 1 else 0)"
  proof (cases "a < ?r")
    case True
    then have q: "?r + n - 1 - a = n + (?r - 1 - a)" and "?r - 1 - a < n" using r by simp_all
    then have "(?r + n - 1 - a) div n = (n + (?r - 1 - a)) div n" using q by (simp only:)
    also have "\<dots> = 1" using \<open>?r - 1 - a < n\<close> n by (simp only: div_add_self1 div_less)
    finally show ?thesis using True by simp
  next
    case False
    then have "?r + n - 1 - a < n" using n by linarith
    then show ?thesis using False by simp
  qed
  ultimately show ?thesis
    using agent_shard.shard_size [OF n assms, of amount] by (simp add: assigned_agent_def)
qed

lemma make_plan_total:
  assumes "make_plan env cfg me tree a n shared c job = Inr (Some (p, k))" and "a < n"
  shows "plan_total shared a n p = k"
    and "k \<le> es_count (fst job)"
proof -
  obtain sp pfx where j: "job = (sp, pfx)" by force
  obtain ex where k: "k = planned_to_create cfg (es_count sp) ex shared a n"
    and p: "plan_count p = es_count sp" "plan_existing p = ex" "plan_force p = force_overwrite cfg"
      "plan_skip p = skip_verification cfg" and k0: "k \<noteq> 0"
    using assms(1) j by (auto simp: make_plan_def Let_def split: sum.splits if_splits)
  show "plan_total shared a n p = k"
    using k p k0 computed_share [OF assms(2), of "es_count sp"]
    by (auto simp: plan_total_def planned_to_create_def should_create_def mine_if_shared_def split: if_splits)
  then show "k \<le> es_count (fst job)"
    using p(1) j by (metis fst_conv length_filter_le length_upt minus_nat.diff_0 plan_total_def)
qed

lemma collect_plans_total:
  assumes "collect_plans (make_plan env cfg me tree a n shared c) jobs = Inr plans" and "a < n"
  shows "(\<Sum>p\<leftarrow>map fst plans. plan_total shared a n p) = sum_list (map snd plans)
    \<and> sum_list (map snd plans) \<le> (\<Sum>j\<leftarrow>jobs. es_count (fst j))"
  using assms(1)
proof (induction jobs arbitrary: plans)
  case (Cons j jobs)
  then obtain p ps where p: "make_plan env cfg me tree a n shared c j = Inr p"
    and ps: "collect_plans (make_plan env cfg me tree a n shared c) jobs = Inr ps"
    and plans: "plans = (case p of None \<Rightarrow> ps | Some x \<Rightarrow> x # ps)"
    by (auto simp: bind_result_Inr_iff)
  show ?case
  proof (cases p)
    case None
    then show ?thesis using Cons.IH [OF ps] plans by simp
  next
    case (Some x)
    obtain q k where x: "x = (q, k)" by force
    note t = make_plan_total [OF _ assms(2), of env cfg me tree shared c j q k]
    show ?thesis using Cons.IH [OF ps] plans Some x t p by simp
  qed
qed simp

lemma plan_sizes_fst: "plan_sizes g ps = Inr sized \<Longrightarrow> map fst sized = ps"
  by (induction ps arbitrary: sized) (auto simp: bind_result_Inr_iff)

lemma interleaved_planned:
  assumes "collect_plans (make_plan env cfg me tree a n shared c) jobs = Inr plans" and "a < n"
    and "plan_sizes g (map fst plans) = Inr sized"
  shows "length (interleaved_tasks tree shared a n sized) = sum_list (map snd plans)"
proof -
  have "(\<Sum>p\<leftarrow>sized. plan_total shared a n (fst p)) = (\<Sum>p\<leftarrow>map fst plans. plan_total shared a n p)"
    unfolding plan_sizes_fst [OF assms(3), symmetric] by (simp add: comp_def)
  then show ?thesis using collect_plans_total [OF assms(1,2)] by (simp add: interleaved_length)
qed

lemma run_plans_None_iff:
  assumes "open_all env (distinct_endpoints (map fst plans)) = Inr ()"
    and "plan_sizes (env_rng env) (map fst plans) = Inr sized"
    and "ts = interleaved_tasks tree shared a n sized"
    and "run_chunks env k ts 0 (run_start c) = (position, st)"
  shows "run_plans env k tree w a n shared plans c = None \<longleftrightarrow>
     (w = 0 \<and> ts \<noteq> []) \<or> position < sum_list (map snd plans)
   \<or> (run_error st = None \<and> failed_objects (run_tracker st) \<noteq> []
      \<and> fst (determine_retry_strategy (length (failed_objects (run_tracker st))) (sum_list (map snd plans))) \<and> w < 4)"
  using assms by (auto simp: run_plans_def Let_def finish_run_None_iff)

text \<open>
  The prepare phase returns, whatever the store, the cache and the random generator do, when it
  has at least four workers and every object number has a path: under the sequential strategy
  always, under the parallel one when the objects fit one chunk of tasks.
\<close>

lemma prepare_returns:
  assumes "4 \<le> w" and "a < n"
    and "list_all (\<lambda>sp. tree_covers tree (es_count sp)) (ensure_objects cfg)"
    and "(\<Sum>j\<leftarrow>pool_jobs cfg needs. es_count (fst j)) \<le> TASK_CHUNK_SIZE"
  shows "prepare_sequential env cfg needs me tree w a n c \<noteq> None
    \<and> prepare_parallel env cfg needs me tree w a n shared c \<noteq> None"
proof
  have "list_all (\<lambda>j. tree_covers tree (es_count (fst j))) (pool_jobs cfg needs)"
    using assms(3) by (auto simp: pool_jobs_def list_all_iff)
  from prepare_jobs_returns [OF assms(1) this]
  show "prepare_sequential env cfg needs me tree w a n c \<noteq> None" by (simp add: prepare_sequential_def)
  show "prepare_parallel env cfg needs me tree w a n shared c \<noteq> None"
  proof (cases "collect_plans (make_plan env cfg me tree a n shared c) (pool_jobs cfg needs)")
    case (Inl e)
    then show ?thesis by (simp add: prepare_parallel_def)
  next
    case (Inr plans)
    note total = collect_plans_total [OF Inr assms(2)]
    have "run_plans env TASK_CHUNK_SIZE tree w a n shared plans c \<noteq> None"
    proof (cases "\<exists>sized. open_all env (distinct_endpoints (map fst plans)) = Inr ()
        \<and> plan_sizes (env_rng env) (map fst plans) = Inr sized")
      case True
      then obtain sized where o: "open_all env (distinct_endpoints (map fst plans)) = Inr ()"
        and s: "plan_sizes (env_rng env) (map fst plans) = Inr sized" by blast
      let ?ts = "interleaved_tasks tree shared a n sized"
      have len: "length ?ts = sum_list (map snd plans)" by (rule interleaved_planned [OF Inr assms(2) s])
      obtain position st where r: "run_chunks env TASK_CHUNK_SIZE ?ts 0 (run_start c) = (position, st)" by force
      have "position = length ?ts"
        using run_chunks_single [of ?ts TASK_CHUNK_SIZE "run_start c" env 0] total assms(4) len r
        by (simp add: run_start_def)
      then show ?thesis using run_plans_None_iff [OF o s refl r, of w] len assms(1) by auto
    next
      case False
      then show ?thesis by (auto simp: run_plans_def split: sum.split)
    qed
    then show ?thesis using Inr by (simp add: prepare_parallel_def lift_result_def)
  qed
qed

subsection \<open>An environment for examples\<close>

lemma constant_retry:
  assumes "rc_max_retries c < 2 ^ 32 - 1"
  shows "fst (retry_with_backoff c (\<lambda>_. r) jit) = (case r of Inl e \<Rightarrow> Inl (Some e) | Inr x \<Rightarrow> Inr x)"
proof -
  have n: "attempts_of (rc_max_retries c) = rc_max_retries c + 1" using assms by (simp add: attempts_of_def)
  note res = retry_loop_result [of 1 "rc_max_retries c + 1" c "\<lambda>_. r" jit "of_nat (rc_initial_delay_ms c)" "[]"]
  show ?thesis
  proof (cases r)
    case (Inl e)
    then show ?thesis using res [of undefined "Some e"] unfolding retry_with_backoff_def n by (simp add: list_all_iff)
  next
    case (Inr x)
    then have "\<exists>j\<ge>1. j \<le> rc_max_retries c + 1 \<and> r = Inr x \<and> list_all (\<lambda>i. \<not> is_ok r) [1..<j]"
      by (intro exI [of _ 1]) simp
    then show ?thesis using res [of x undefined] Inr unfolding retry_with_backoff_def n by simp
  qed
qed

definition plain_rng :: "unit rng" where
  "plain_rng = \<lparr> seed_from = (\<lambda>_. ()), sample_uniform = (\<lambda>mn mx r. (mn, r)),
     sample_lognormal = (\<lambda>mean sd r. (of_nat mean, r)) \<rparr>"

definition blank_fjall :: "unit fjall" where
  "blank_fjall = \<lparr> db_get = (\<lambda>_ _ _. Inr None), db_insert = (\<lambda>_ _ _ d. (Inr (), d)), db_iter = (\<lambda>_ _. Inr []),
     db_persist = (\<lambda>d. (Inr (), d)) \<rparr>"

text \<open>An environment with nothing to list, in which the PUTs of some objects fail; and one without a cache.\<close>

definition test_env :: "'d fjall \<Rightarrow> codec \<Rightarrow> (string \<Rightarrow> bool) \<Rightarrow> (unit, 'd) prepare_env" where
  "test_env fj cd bad =
     \<lparr> env_rng = plain_rng, env_open = (\<lambda>_. Inr ()), env_list = (\<lambda>_ _. []),
       env_put = (\<lambda>_ uri _ _. if bad uri then Inl ''503'' else Inr ()),
       env_retry_put = (\<lambda>_ _ _. Inr ()), env_jitter = (\<lambda>_. 1), env_fjall = fj, env_codec = cd,
       env_now = (\<lambda>_. 0) \<rparr>"

definition plain_env :: "(string \<Rightarrow> bool) \<Rightarrow> (unit, unit) prepare_env" where
  "plain_env = test_env blank_fjall \<lparr> to_bytes = (\<lambda>_. Inr []), from_bytes = (\<lambda>_. Inl []) \<rparr>"

lemma put_result_test: "put_result (test_env fj cd bad) t = (if bad (pt_uri t) then Inl (Some ''503'') else Inr ())"
  by (simp add: put_result_def test_env_def RetryConfig_default_def constant_retry)

lemma put_result_plain: "put_result (plain_env bad) t = (if bad (pt_uri t) then Inl (Some ''503'') else Inr ())"
  by (simp add: plain_env_def put_result_test)

definition one_mib_spec :: "nat \<Rightarrow> EnsureSpec" where
  "one_mib_spec amount =
     \<lparr> base_uri = Some ''s3://b/'', es_count = amount, min_size = None, max_size = None, size_spec = Some (Fixed 7),
       fill = Zero, dedup_factor = 1, compress_factor = 1 \<rparr>"

definition plain_config :: "EnsureSpec list \<Rightarrow> PrepareConfig" where
  "plain_config specs =
     \<lparr> ensure_objects = specs, cleanup = False, cleanup_only = None, post_prepare_delay = 0,
       directory_structure = None, prepare_strategy = Parallel, skip_verification = False, force_overwrite = False,
       cleanup_mode = Tolerant, key_prefix_shards = 0 \<rparr>"

lemma plain_simps [simp]:
  "ensure_objects (plain_config sps) = sps" "skip_verification (plain_config sps) = False"
  "force_overwrite (plain_config sps) = False" "key_prefix_shards (plain_config sps) = 0"
  "es_count (one_mib_spec n) = n" "get_size_spec (one_mib_spec n) = Fixed 7"
  "get_base_uri (one_mib_spec n) us = Inr ''s3://b/''"
  by (simp_all add: plain_config_def one_mib_spec_def get_size_spec_def get_base_uri_def)

lemma prepare_returns_witness:
  "prepare_sequential (plain_env (\<lambda>_. True)) (plain_config [one_mib_spec 3]) True None None 4 0 1 None \<noteq> None
   \<and> prepare_parallel (plain_env (\<lambda>_. True)) (plain_config [one_mib_spec 3]) True None None 4 0 1 True None \<noteq> None"
  by (rule prepare_returns)
    (simp_all add: pool_jobs_def pools_def tree_covers_def TASK_CHUNK_SIZE_def)

lemma fixed_sizes: "generate_sizes g n (FixedGen k, r) = replicate n k"
  by (induction n) (simp_all add: generate_def)

lemma fixed_generator:
  "size_spec sp = Some (Fixed k) \<Longrightarrow> 0 < k \<Longrightarrow> new_with_seed g (get_size_spec sp) seed = Inr (FixedGen k, seed_from g seed)"
  by (simp add: new_with_seed_def get_size_spec_def size_impl_def)

text \<open>
  C20: The creation of a pool never returns in exactly three cases: some object the agent is to create
  has no path in the directory tree, so that the progress monitor, which the phase waits for, never
  sees its last object; there are no workers; or objects failed, at most 80 percent of the planned
  ones and without reaching the error thresholds, and there are fewer than four workers, a quarter
  of which, rounded down, is to run the deferred retries.
\<close>

theorem pool_hangs_exactly_when:
  assumes "new_with_seed (env_rng env) (get_size_spec sp) (unat (uri_seed base)) = Inr sg"
    and "ts = pool_tasks tree base (key_prefix_shards cfg) pfx ex a n (generate_sizes (env_rng env) (es_count sp) sg)"
    and "st = run_tasks env sequential_abort ts (run_start c)"
    and "fs = failed_objects (run_tracker st)"
    and "attempted = length (missing_indices ex a n (es_count sp))"
  shows "create_pool env cfg tree w a n sp pfx base ex c = None \<longleftrightarrow>
      (\<exists>i<es_count sp. i \<notin> set ex \<and> mine a n i \<and> object_uri tree base (key_prefix_shards cfg) pfx i = None)
    \<or> (w = 0 \<and> ts \<noteq> [])
    \<or> (w < 4 \<and> run_error st = None \<and> fs \<noteq> [] \<and> 0 < attempted \<and> 5 * length fs \<le> 4 * attempted)"
  unfolding create_pool_None_iff [OF assms(1,2,3)] should_retry_iff assms(4,5) by blast

text \<open>Five objects, one of which fails, and three workers; one worker more and the phase returns.\<close>

lemma pool_hangs_exactly_when_witness:
  "create_pool (plain_env (\<lambda>u. u = ''s3://b/prepared-00000002.dat'')) (plain_config []) None 3 0 1 (one_mib_spec 5)
      ''prepared'' ''s3://b/'' [] None = None"
proof -
  let ?env = "plain_env (\<lambda>u. u = ''s3://b/prepared-00000002.dat'')"
  let ?ts = "pool_tasks None ''s3://b/'' 0 ''prepared'' [] 0 1 (replicate 5 7)"
  have sg: "new_with_seed (env_rng ?env) (get_size_spec (one_mib_spec 5)) seed
      = Inr (FixedGen 7, seed_from (env_rng ?env) seed)" for seed
    by (rule fixed_generator) (simp_all add: one_mib_spec_def)
  have names: "show_padded 8 0 = ''00000000''" "show_padded 8 (Suc 0) = ''00000001''" "show_padded 8 2 = ''00000002''"
      "show_padded 8 3 = ''00000003''" "show_padded 8 4 = ''00000004''"
    by code_simp+
  have ts: "?ts = map (\<lambda>i. \<lparr> pt_store = ''s3://b/'', pt_uri = ''s3://b/prepared-'' @ show_padded 8 i @ ''.dat'',
      pt_size = 7, pt_index = i \<rparr>) [0, 1, 2, 3, 4]"
    by code_simp
  let ?st = "run_tasks ?env sequential_abort ?ts (run_start None)"
  have st: "run_error ?st = None" "length (failed_objects (run_tracker ?st)) = 1"
    unfolding ts run_tasks_def
    by (simp_all add: finish_task_def put_result_plain names run_start_def record_prepared_def prepare_success_def
        prepare_error_def prepare_tracker_new_def)
  have missing: "length (missing_indices [] 0 1 5) = 5" by (simp add: missing_indices_def)
  show ?thesis
    using pool_hangs_exactly_when [OF sg refl refl refl refl, where tree = None and cfg = "plain_config []"
        and pfx = "''prepared''" and ex = "[]" and a = 0 and n = 1 and c = None and w = 3, of "''s3://b/''"] st missing
    by (auto simp: fixed_sizes)
qed

text \<open>
  A parallel prepare whose error thresholds are reached before its last chunk of tasks never
  returns the error: it stops making tasks, then waits for the progress monitor, which waits for
  the objects that will not be tried.
\<close>

lemma parallel_abort_never_returns:
  assumes "collect_plans (make_plan env cfg me tree a n shared c) jobs = Inr plans" and "a < n"
    and "open_all env (distinct_endpoints (map fst plans)) = Inr ()"
    and "plan_sizes (env_rng env) (map fst plans) = Inr sized"
    and "ts = interleaved_tasks tree shared a n sized" and "0 < k" and "k < length ts"
    and "run_error (run_tasks env parallel_abort (take k ts) (run_start c)) \<noteq> None"
  shows "run_plans env k tree w a n shared plans c = None"
proof -
  let ?st = "run_tasks env parallel_abort (take k ts) (run_start c)"
  have "run_chunks env k ts 0 (run_start c) = run_chunks env k (drop k ts) k ?st"
    using assms(6,7) by (subst run_chunks.simps) (auto simp: run_start_def min_def)
  also have "\<dots> = (k, ?st)" using assms(8) by (subst run_chunks.simps) simp
  finally have "run_chunks env k ts 0 (run_start c) = (k, ?st)" .
  moreover have "length ts = sum_list (map snd plans)"
    using interleaved_planned [OF assms(1,2,4)] assms(5) by simp
  ultimately show ?thesis
    using run_plans_None_iff [OF assms(3,4,5)] assms(7) by simp
qed

lemma parallel_abort_never_returns_witness:
  "case collect_plans (make_plan (plain_env (\<lambda>_. True)) (plain_config []) None None 0 1 True None) [(one_mib_spec 11, ''prepared'')] of
     Inl _ \<Rightarrow> False
   | Inr plans \<Rightarrow> run_plans (plain_env (\<lambda>_. True)) 10 None 16 0 1 True plans None = None"
proof -
  let ?env = "plain_env (\<lambda>_. True)" and ?sp = "one_mib_spec 11"
  let ?p = "\<lparr> plan_count = 11, plan_size_spec = Fixed 7, plan_prefix = ''prepared'', plan_endpoints = [''s3://b/''],
     plan_existing = [], plan_force = False, plan_skip = False, plan_seed = unat (uri_seed ''s3://b/''), plan_shards = 0 \<rparr>"
  have sg: "new_with_seed (env_rng ?env) (Fixed 7) seed = Inr (FixedGen 7, seed_from (env_rng ?env) seed)" for seed
    by (simp add: new_with_seed_def size_impl_def)
  have find_none: "find (\<lambda>u. False) us = None" for us :: "string list" by (induction us) simp_all
  have gen: "size_generator_new (env_rng ?env) (Fixed 7) = Inr (FixedGen 7, seed_from (env_rng ?env) 0)"
    unfolding size_generator_new_def by (rule sg)
  have uris: "plan_endpoint_uris None ?sp = Inr [''s3://b/'']"
    by (simp add: plan_endpoint_uris_def base_uri_message_def)
  have opened: "env_open ?env us = Inr ()" "env_list ?env os u = []" for us os u by (simp_all add: plain_env_def test_env_def)
  have "list_existing_objects_distributed (env_list ?env []) u None 0 1 = Inr ListingResult_default" for u
    by (simp add: list_existing_objects_distributed_def opened ListingResult_default_def Let_def)
  then have "existing_objects ?env (plain_config []) None 0 1 [] ''s3://b/'' ?sp ''prepared'' None = Inr (0, [])"
    by (simp add: existing_objects_def kv_cache_covers_def ListingResult_default_def)
  moreover have "planned_to_create (plain_config []) 11 [] True 0 1 = 11"
    by (simp add: planned_to_create_def mine_if_shared_def)
  ultimately have plans: "collect_plans (make_plan ?env (plain_config []) None None 0 1 True None) [(?sp, ''prepared'')] = Inr [(?p, 11)]"
    using uris gen by (simp add: make_plan_def opened)
  have sized: "plan_sizes (env_rng ?env) (map fst [(?p, 11)]) = Inr [(?p, replicate 11 7)]"
    using sg by (simp add: size_context_def fixed_sizes)
  let ?ts = "interleaved_tasks None True 0 1 [(?p, replicate 11 7)]"
  have len: "length ?ts = 11"
    using interleaved_planned [OF plans _ sized] by simp
  have errs: "run_error (run_tasks ?env msg ts st) \<noteq> None"
    if "10 \<le> pt_consecutive (run_tracker st) + length ts" "ts \<noteq> []" "pt_max_consecutive (run_tracker st) = 10" for msg ts st
    using that
  proof (induction ts arbitrary: st)
    case (Cons t ts)
    show ?case
    proof (cases "ts = []")
      case True
      then show ?thesis using Cons.prems
        by (simp add: run_tasks_def finish_task_def put_result_plain prepare_error_def Let_def)
    next
      case False
      have "run_error (run_tasks ?env msg ts (finish_task ?env msg t st)) \<noteq> None"
        by (rule Cons.IH) (use Cons.prems False in \<open>simp_all add: finish_task_def put_result_plain prepare_error_def Let_def\<close>)
      then show ?thesis by (simp add: run_tasks_def)
    qed
  qed simp
  have "run_plans ?env 10 None 16 0 1 True [(?p, 11)] None = None"
  proof (rule parallel_abort_never_returns [OF plans _ _ sized refl])
    show "run_error (run_tasks ?env parallel_abort (take 10 ?ts) (run_start None)) \<noteq> None"
      by (rule errs) (use len in \<open>auto simp: run_start_def prepare_tracker_new_def\<close>)
  qed (use len in \<open>simp_all add: open_all_def distinct_endpoints_def opened find_none\<close>)
  then show ?thesis using plans by simp
qed

text \<open>
  When the metadata cache reports as many created objects as a specification asks for, the two
  strategies do opposite things, and neither is per pool: the sequential one creates nothing in any
  pool, the second pool of the same specification included, and reports its objects as existing; the
  parallel one takes no object to exist and plans all of them again.
\<close>

lemma cache_hit_is_not_per_pool:
  assumes "kv_cache_covers env (es_count sp) c" and "\<not> skip_verification cfg" and "\<not> force_overwrite cfg"
    and "get_base_uri sp (map_option endpoints me) = Inr base"
    and "env_open env (case me of Some m \<Rightarrow> endpoints m | None \<Rightarrow> [base]) = Inr ()"
    and "reconstruct env sp (List.map_filter (object_uri tree base (key_prefix_shards cfg) pfx) [0..<es_count sp]) = Inr objs"
  shows "prepare_pool env cfg me tree w a n before sp pfx c = Some (Inr objs, c)
    \<and> list_all (\<lambda>x. \<not> po_created x) objs
    \<and> (make_plan env cfg me tree a n shared c (sp, pfx) = Inr (Some (p, k)) \<longrightarrow>
         plan_existing p = [] \<and> k = planned_to_create cfg (es_count sp) [] shared a n)"
proof -
  have ex: "existing_objects env cfg tree a n os u sp q c = Inr (es_count sp, [])" for os u q
    using assms(1-3) by (simp add: existing_objects_def)
  have "list_all (\<lambda>x. \<not> po_created x) objs"
    using assms(6) by (auto simp: reconstruct_def bind_result_Inr_iff list_all_iff in_set_zip)
  moreover have "prepare_pool env cfg me tree w a n before sp pfx c = Some (Inr objs, c)"
    using assms(4-6) by (simp add: prepare_pool_def base_uri_message_def ex lift_result_def)
  ultimately show ?thesis by (auto simp: make_plan_def ex Let_def split: sum.splits if_splits)
qed

definition empty_cache :: "table MetadataCache" where
  "empty_cache =
     \<lparr> coordinator = coordinator sample_cache, cache_endpoints = [(0, empty_endpoint 0)], config_hash = ''ab'' \<rparr>"

text \<open>Once the only object of the first pool is recorded, the second pool is reported without a PUT.\<close>

lemma cache_hit_is_not_per_pool_witness:
  "let env = test_env table_fjall text_codec (\<lambda>_. False);
       c = record_prepared env \<lparr> pt_store = ''s3://b/'', pt_uri = ''s3://b/prepared-00000000.dat'', pt_size = 7, pt_index = 0 \<rparr>
             (Some empty_cache)
   in prepare_pool env (plain_config []) None None 4 0 1 [] (one_mib_spec 1) ''deletable'' c =
        Some (Inr [\<lparr> po_uri = ''s3://b/deletable-00000000.dat'', po_size = 7, po_created = False \<rparr>], c)"
proof -
  let ?env = "test_env table_fjall text_codec (\<lambda>_. False)"
  let ?c = "record_prepared ?env \<lparr> pt_store = ''s3://b/'', pt_uri = ''s3://b/prepared-00000000.dat'', pt_size = 7, pt_index = 0 \<rparr>
             (Some empty_cache)"
  let ?objs = "[\<lparr> po_uri = ''s3://b/deletable-00000000.dat'', po_size = 7, po_created = False \<rparr>]"
  have covers: "kv_cache_covers ?env 1 ?c" by code_simp
  have uri: "object_uri None ''s3://b/'' 0 ''deletable'' 0 = Some ''s3://b/deletable-00000000.dat''" by code_simp
  have "size_generator_new (env_rng ?env) (Fixed 7) = Inr (FixedGen 7, seed_from (env_rng ?env) 0)"
    by (simp add: size_generator_new_def new_with_seed_def size_impl_def)
  then have objs: "reconstruct ?env (one_mib_spec 1) (List.map_filter (object_uri None ''s3://b/'' 0 ''deletable'') [0..<1]) = Inr ?objs"
    using uri by (simp add: reconstruct_def size_context_def generate_def)
  have "env_open ?env us = Inr ()" for us by (simp add: test_env_def)
  then show ?thesis
    using cache_hit_is_not_per_pool [of ?env "one_mib_spec 1" ?c "plain_config []" None "''s3://b/''" None "''deletable''" ?objs
        4 0 1 "[]"] covers objs by (simp add: Let_def)
qed

subsection \<open>The listing of flat pools\<close>

text \<open>A listing by prefix: the objects whose URI starts with the one asked for.\<close>

definition prefix_listing :: "string list \<Rightarrow> string \<Rightarrow> (string + string) list" where
  "prefix_listing objs uri = map Inr (filter (\<lambda>u. starts_with u uri) objs)"

lemma starts_with_chars: "starts_with s p \<Longrightarrow> set p \<subseteq> set s"
  by (auto simp: starts_with_prefix prefix_def)

lemma flat_name_not_listed:
  assumes "CHR ''/'' \<notin> set q"
  shows "\<not> starts_with (join_key base (plain_key q i)) (listing_base (join_key base (pfx @ ''-'')))"
proof
  define b where "b = (if ends_with base ''/'' then base else base @ ''/'')"
  have join: "join_key base k = b @ k" for k by (simp add: join_key_def b_def)
  have dash: "listing_base (b @ pfx @ ''-'') = b @ pfx @ ''-/''"
    by (simp add: listing_base_def ends_with_def starts_with_def)
  assume "starts_with (join_key base (plain_key q i)) (listing_base (join_key base (pfx @ ''-'')))"
  then have "starts_with (plain_key q i) (pfx @ ''-/'')"
    unfolding join dash by (simp add: starts_with_def)
  then have "CHR ''/'' \<in> set (plain_key q i)" using starts_with_chars by fastforce
  then show False using assms padded_chars(1) [of 8 i] by (auto simp: plain_key_def)
qed

text \<open>
  The listing of a flat pool finds none of its objects in a store that lists by prefix: the slash
  appended to the pattern \<open>base/prepared-\<close> turns it into a directory no object lies in. So a
  prepare that does not skip the verification creates every object again.
\<close>

lemma flat_listing_finds_nothing:
  assumes "key_prefix_shards cfg = 0" and "\<not> skip_verification cfg" and "\<not> force_overwrite cfg"
    and "\<not> kv_cache_covers env (es_count sp) c"
    and "env_list env before = prefix_listing objs"
    and "list_all (\<lambda>u. \<exists>q\<in>set (pools True). \<exists>i. u = join_key base (plain_key q i)) objs"
  shows "existing_objects env cfg None agent n before base sp pfx c = Inr (0, [])"
proof -
  have "\<not> starts_with u (listing_base (join_key base (pfx @ ''-'')))" if "u \<in> set objs" for u
  proof -
    obtain q i where "q \<in> set (pools True)" "u = join_key base (plain_key q i)"
      using assms(6) \<open>u \<in> set objs\<close> by (auto simp: list_all_iff)
    then show ?thesis using flat_name_not_listed [of q base i pfx] by (auto simp: pools_def)
  qed
  then have "prefix_listing objs (listing_base (join_key base (pfx @ ''-''))) = []"
    by (simp add: prefix_listing_def filter_empty_conv)
  then show ?thesis
    using assms(1-5) by (simp add: existing_objects_def list_pattern_def list_existing_objects_distributed_def
        ListingResult_default_def Let_def)
qed

lemma flat_listing_finds_nothing_witness:
  "existing_objects ((plain_env (\<lambda>_. False))\<lparr>env_list := (\<lambda>_. prefix_listing [''s3://b/prepared-00000000.dat''])\<rparr>)
     (plain_config []) None 0 1 [] ''s3://b/'' (one_mib_spec 1) ''prepared'' None = Inr (0, [])"
proof (rule flat_listing_finds_nothing)
  have "join_key ''s3://b/'' (plain_key ''prepared'' 0) = ''s3://b/prepared-00000000.dat''" by code_simp
  then show "list_all (\<lambda>u. \<exists>q\<in>set (pools True). \<exists>i. u = join_key ''s3://b/'' (plain_key q i)) [''s3://b/prepared-00000000.dat'']"
    by (auto simp: pools_def intro!: exI [of _ 0])
qed (simp_all add: kv_cache_covers_def)

end
