(* ===== verification/Cleanup_Phase.thy ===== *)
theory Cleanup_Phase
  imports Prepare_Phase "HOL-Library.List_Lexorder" "HOL-Library.Char_ord"
begin

text \<open>
  Cleanup and verification (\<open>src/cleanup.rs\<close>, \<open>src/prepare/cleanup.rs\<close>): the objects an agent
  deletes (generated from the configuration, or listed), their deletion under the three modes, the
  sweep of the directory markers, and the verification of prepared objects. The store is a state of
  type \<open>'s\<close> with its operations; deletions complete in the order they were started. A panic is the
  value \<open>None\<close>.
\<close>

record 's object_store =
  st_delete :: "string \<Rightarrow> 's \<Rightarrow> (string + unit) \<times> 's"
  st_list :: "string \<Rightarrow> 's \<Rightarrow> string + string list"
  st_stat :: "string \<Rightarrow> 's \<Rightarrow> string + unit"

subsection \<open>The objects of an agent\<close>

text \<open>\<open>generate_cleanup_objects\<close>: both pools, the share of the agent, always the flat names.\<close>

definition generate_cleanup_objects :: "PrepareConfig \<Rightarrow> nat \<Rightarrow> nat \<Rightarrow> PreparedObject list" where
  "generate_cleanup_objects cfg agent n =
     concat (map (\<lambda>sp.
       (let base = (case get_base_uri sp None of Inr u \<Rightarrow> u | Inl _ \<Rightarrow> [])
        in if base = [] then []
           else concat (map (\<lambda>pfx.
                  map (\<lambda>i. \<lparr> po_uri = join_key base (flat_key (key_prefix_shards cfg) pfx i), po_size = 0, po_created = True \<rparr>)
                    (filter (mine agent n) [0..<es_count sp])) [''prepared'', ''deletable''])))
       (ensure_objects cfg))"

text \<open>
  The number between the first dash and the first dot of a name. The outer \<open>None\<close> is the panic of a
  slice that ends before it starts, the inner one a name without such a number.
\<close>

definition dashed_index :: "string \<Rightarrow> nat option option" where
  "dashed_index f =
     (case find_sub ''-'' f of
        None \<Rightarrow> Some None
      | Some d \<Rightarrow>
          (case find_sub ''.'' f of
             None \<Rightarrow> Some None
           | Some p \<Rightarrow> if p < d + 1 then None else Some (parse_u64 (take (p - (d + 1)) (drop (d + 1) f)))))"

definition full_uri :: "string \<Rightarrow> string \<Rightarrow> string" where
  "full_uri base path = (if str_contains path ''://'' then path else base @ path)"

definition existing :: "string \<Rightarrow> string \<Rightarrow> PreparedObject" where
  "existing base path = \<lparr> po_uri = full_uri base path, po_size = 0, po_created = False \<rparr>"

definition tree_file_mine :: "nat \<Rightarrow> nat \<Rightarrow> string \<Rightarrow> bool" where
  "tree_file_mine agent n path =
     (case Option.bind (numbered ''file_'' (file_name path)) parse_u64 of
        None \<Rightarrow> False
      | Some i \<Rightarrow> mine agent n i)"

definition flat_file_mine :: "nat \<Rightarrow> nat \<Rightarrow> string \<Rightarrow> bool option" where
  "flat_file_mine agent n path =
     (if n \<le> 1 then Some True
      else (case dashed_index (file_name path) of
              None \<Rightarrow> None
            | Some None \<Rightarrow> Some True
            | Some (Some i) \<Rightarrow> Some (i mod n = agent)))"

fun flat_files_mine :: "nat \<Rightarrow> nat \<Rightarrow> string list \<Rightarrow> string list option" where
  "flat_files_mine agent n [] = Some []"
| "flat_files_mine agent n (p # ps) =
     (case flat_file_mine agent n p of
        None \<Rightarrow> None
      | Some b \<Rightarrow> map_option (\<lambda>rest. if b then p # rest else rest) (flat_files_mine agent n ps))"

definition list_existing_objects ::
  "'s object_store \<Rightarrow> (string \<Rightarrow> string + unit) \<Rightarrow> PrepareConfig \<Rightarrow> nat \<Rightarrow> nat \<Rightarrow> 's \<Rightarrow> (string + PreparedObject list) option" where
  "list_existing_objects st open_store cfg agent n s =
     (case first_base_uri cfg None of
        None \<Rightarrow> Some (Inl ''ensure_objects must have at least one entry with valid base_uri'')
      | Some uri \<Rightarrow>
          (case open_store uri of
             Inl e \<Rightarrow> Some (Inl e)
           | Inr _ \<Rightarrow>
               (let base = listing_base uri
                in case st_list st base s of
                     Inl _ \<Rightarrow> Some (Inl ''Failed to list existing objects'')
                   | Inr files \<Rightarrow>
                       if directory_structure cfg \<noteq> None
                       then Some (Inr (map (existing base) (filter (tree_file_mine agent n) files)))
                       else map_option (\<lambda>fs. Inr (map (existing base) fs)) (flat_files_mine agent n (sort files)))))"

subsection \<open>Deletion\<close>

datatype DeleteResult = DeleteSuccess | AlreadyDeleted | DeleteError

definition is_not_found :: "string \<Rightarrow> bool" where
  "is_not_found err =
     (let m = to_lowercase err
      in str_contains m ''not found'' \<or> str_contains m ''no such'' \<or> str_contains m ''404'')"

definition delete_verdict :: "CleanupMode \<Rightarrow> string \<Rightarrow> string + unit \<Rightarrow> string + DeleteResult" where
  "delete_verdict mode uri r =
     (case r of
        Inr _ \<Rightarrow> Inr DeleteSuccess
      | Inl e \<Rightarrow>
          if is_not_found e
          then (case mode of
                  Strict \<Rightarrow> Inl (''Object not found (strict mode): '' @ uri)
                | Tolerant \<Rightarrow> Inr AlreadyDeleted
                | BestEffortCleanup \<Rightarrow> Inr AlreadyDeleted)
          else (case mode of
                  Strict \<Rightarrow> Inl (''Failed to delete '' @ uri @ '': '' @ e)
                | Tolerant \<Rightarrow> Inl (''Failed to delete '' @ uri @ '': '' @ e)
                | BestEffortCleanup \<Rightarrow> Inr DeleteError))"

fun delete_all :: "'s object_store \<Rightarrow> CleanupMode \<Rightarrow> PreparedObject list \<Rightarrow> 's \<Rightarrow> (string + DeleteResult) list \<times> 's" where
  "delete_all st mode [] s = ([], s)"
| "delete_all st mode (x # xs) s =
     (let (r, s') = st_delete st (po_uri x) s; (rs, s'') = delete_all st mode xs s'
      in (delete_verdict mode (po_uri x) r # rs, s''))"

text \<open>Succeeded, already deleted, errors; the first error ends a strict cleanup.\<close>

fun tally :: "CleanupMode \<Rightarrow> (string + DeleteResult) list \<Rightarrow> nat \<times> nat \<times> nat \<Rightarrow> string + nat \<times> nat \<times> nat" where
  "tally mode [] (ok, gone, errs) = Inr (ok, gone, errs)"
| "tally mode (Inr DeleteSuccess # rs) (ok, gone, errs) = tally mode rs (ok + 1, gone, errs)"
| "tally mode (Inr AlreadyDeleted # rs) (ok, gone, errs) = tally mode rs (ok, gone + 1, errs)"
| "tally mode (Inr DeleteError # rs) (ok, gone, errs) = tally mode rs (ok, gone, errs + 1)"
| "tally mode (Inl e # rs) (ok, gone, errs) =
     (if mode = Strict then Inl e else tally mode rs (ok, gone, errs + 1))"

fun delete_ignoring :: "'s object_store \<Rightarrow> string list \<Rightarrow> 's \<Rightarrow> 's" where
  "delete_ignoring st [] s = s"
| "delete_ignoring st (u # us) s = delete_ignoring st us (snd (st_delete st u s))"

text \<open>Agent 0 deletes whatever is left in front of the tree's first directory.\<close>

definition sweep_base :: "TreeManifest option \<Rightarrow> PreparedObject list \<Rightarrow> string option" where
  "sweep_base tree objs =
     (case (tree, objs) of
        (Some m, x # _) \<Rightarrow>
          (case all_directories m of
             [] \<Rightarrow> None
           | top_dir # _ \<Rightarrow> map_option (\<lambda>pos. take pos (po_uri x)) (find_sub top_dir (po_uri x)))
      | _ \<Rightarrow> None)"

definition sweep_directories ::
  "'s object_store \<Rightarrow> TreeManifest option \<Rightarrow> nat \<Rightarrow> PreparedObject list \<Rightarrow> 's \<Rightarrow> 's" where
  "sweep_directories st tree agent objs s =
     (if agent \<noteq> 0 then s
      else case sweep_base tree objs of
             None \<Rightarrow> s
           | Some base \<Rightarrow>
               (case st_list st base s of
                  Inl _ \<Rightarrow> s
                | Inr remaining \<Rightarrow> delete_ignoring st (map (full_uri base) remaining) s))"

definition cleanup_prepared_objects ::
  "'s object_store \<Rightarrow> (string \<Rightarrow> string + unit) \<Rightarrow> PreparedObject list \<Rightarrow> TreeManifest option \<Rightarrow> nat \<Rightarrow> CleanupMode \<Rightarrow> 's
    \<Rightarrow> (string + nat \<times> nat \<times> nat) \<times> 's" where
  "cleanup_prepared_objects st open_store objs tree agent mode s =
     (case objs of
        [] \<Rightarrow> (Inr (0, 0, 0), s)
      | x # _ \<Rightarrow>
          (case open_store (po_uri x) of
             Inl _ \<Rightarrow> (Inl ''Failed to create object store for cleanup'', s)
           | Inr _ \<Rightarrow>
               (let (rs, s') = delete_all st mode objs s
                in case tally mode rs (0, 0, 0) of
                     Inl e \<Rightarrow> (Inl e, s')
                   | Inr counts \<Rightarrow> (Inr counts, sweep_directories st tree agent objs s'))))"

subsection \<open>Verification\<close>

fun verify_specs :: "'s object_store \<Rightarrow> (string \<Rightarrow> string + unit) \<Rightarrow> 's \<Rightarrow> EnsureSpec list \<Rightarrow> string + unit" where
  "verify_specs st open_store s [] = Inr ()"
| "verify_specs st open_store s (sp # sps) =
     (case get_base_uri sp None of
        Inl _ \<Rightarrow> Inl ''Failed to determine base_uri for verification''
      | Inr base \<Rightarrow>
          (case open_store base of
             Inl e \<Rightarrow> Inl e
           | Inr _ \<Rightarrow>
               (case st_list st base s of
                  Inl _ \<Rightarrow> Inl ''Failed to list objects during verification''
                | Inr found \<Rightarrow>
                    if length found < es_count sp
                    then Inl (''Verification failed: Found '' @ show_nat (length found) @ '' objects but expected ''
                              @ show_nat (es_count sp) @ '' at '' @ base)
                    else
                      (let reachable = filter (\<lambda>u. is_ok (st_stat st u s)) (take (es_count sp) found)
                       in if length reachable < es_count sp
                          then Inl (''Verification failed: '' @ show_nat (length reachable) @ ''/'' @ show_nat (es_count sp)
                                    @ '' objects accessible at '' @ base)
                          else verify_specs st open_store s sps))))"

definition verify_prepared_objects :: "'s object_store \<Rightarrow> (string \<Rightarrow> string + unit) \<Rightarrow> PrepareConfig \<Rightarrow> 's \<Rightarrow> string + unit" where
  "verify_prepared_objects st open_store cfg s = verify_specs st open_store s (ensure_objects cfg)"

subsection \<open>What a cleanup reports\<close>

fun raw_deletes :: "'s object_store \<Rightarrow> PreparedObject list \<Rightarrow> 's \<Rightarrow> (string + unit) list" where
  "raw_deletes st [] s = []"
| "raw_deletes st (x # xs) s = (let (r, s') = st_delete st (po_uri x) s in r # raw_deletes st xs s')"

definition absent :: "string + unit \<Rightarrow> bool" where
  "absent r = (case r of Inl e \<Rightarrow> is_not_found e | Inr _ \<Rightarrow> False)"

lemma delete_all_raw:
  "fst (delete_all st mode xs s) = map2 (delete_verdict mode) (map po_uri xs) (raw_deletes st xs s)"
  by (induction xs arbitrary: s) (simp_all add: split_beta Let_def)

lemma raw_deletes_length [simp]: "length (raw_deletes st xs s) = length xs"
  by (induction xs arbitrary: s) (simp_all add: split_beta Let_def)

lemma tally_strict:
  "length us = length rs \<Longrightarrow>
     tally Strict (map2 (delete_verdict Strict) us rs) (ok, gone, errs) = Inr counts \<longleftrightarrow>
       list_all is_ok rs \<and> counts = (ok + length rs, gone, errs)"
proof (induction us rs arbitrary: ok rule: list_induct2)
  case (Cons u us r rs)
  then show ?case by (cases r) (auto simp: delete_verdict_def)
qed auto

lemma tally_lenient:
  assumes "mode \<noteq> Strict"
  shows "length us = length rs \<Longrightarrow>
     tally mode (map2 (delete_verdict mode) us rs) (ok, gone, errs) =
       Inr (ok + length (filter is_ok rs), gone + length (filter absent rs),
            errs + length (filter (\<lambda>r. \<not> is_ok r \<and> \<not> absent r) rs))"
proof (induction us rs arbitrary: ok gone errs rule: list_induct2)
  case (Cons u us r rs)
  then show ?case
    using assms by (cases r; cases mode) (auto simp: delete_verdict_def absent_def)
qed simp

lemma counts_add_up:
  "length (filter is_ok rs) + length (filter absent rs) + length (filter (\<lambda>r. \<not> is_ok r \<and> \<not> absent r) rs) = length rs"
  by (induction rs) (auto simp: absent_def split: sum.split)

text \<open>
  C21: The verdict of a cleanup: the strict mode succeeds exactly when every deletion did; the other
  two always succeed, with the deletions counted as succeeded, already gone and failed, which add up
  to the number of objects. Tolerant and best-effort cleanups differ in no result.
\<close>

theorem cleanup_verdict:
  assumes "open_store (po_uri (hd objs)) = Inr ()" and "objs \<noteq> []"
    and "rs = raw_deletes st objs s"
  shows "is_ok (fst (cleanup_prepared_objects st open_store objs tree agent Strict s)) = list_all is_ok rs
    \<and> fst (cleanup_prepared_objects st open_store objs tree agent Tolerant s) =
        Inr (length (filter is_ok rs), length (filter absent rs), length (filter (\<lambda>r. \<not> is_ok r \<and> \<not> absent r) rs))
    \<and> length (filter is_ok rs) + length (filter absent rs) + length (filter (\<lambda>r. \<not> is_ok r \<and> \<not> absent r) rs) = length objs
    \<and> fst (cleanup_prepared_objects st open_store objs tree agent BestEffortCleanup s) =
        fst (cleanup_prepared_objects st open_store objs tree agent Tolerant s)"
proof -
  have run: "fst (cleanup_prepared_objects st open_store objs tree agent mode s) =
      tally mode (map2 (delete_verdict mode) (map po_uri objs) rs) (0, 0, 0)" for mode
    using assms delete_all_raw [of st mode objs s]
    by (cases objs) (auto simp: cleanup_prepared_objects_def split_beta Let_def split: sum.split)
  have len: "length (map po_uri objs) = length rs" using assms(3) by simp
  show ?thesis
    unfolding run using tally_strict [OF len, of 0 0 0] tally_lenient [OF _ len] counts_add_up [of rs] assms(3)
    by (simp add: is_ok_iff)
qed

text \<open>A store that is the list of its objects; a missing one is reported, a listing is by prefix.\<close>

definition list_store :: "string list object_store" where
  "list_store =
     \<lparr> st_delete = (\<lambda>u s. if u \<in> set s then (Inr (), removeAll u s) else (Inl ''404 Not Found'', s)),
       st_list = (\<lambda>p s. Inr (filter (\<lambda>u. starts_with u p) s)),
       st_stat = (\<lambda>u s. if u \<in> set s then Inr () else Inl ''404 Not Found'') \<rparr>"

definition sample_objects :: "PreparedObject list" where
  "sample_objects = map (\<lambda>i. \<lparr> po_uri = ''s3://b/prepared-'' @ show_nat i, po_size = 7, po_created = True \<rparr>) [0, 1, 2]"

lemma cleanup_verdict_witness:
  "fst (cleanup_prepared_objects list_store (\<lambda>_. Inr ()) sample_objects None 0 Tolerant [''s3://b/prepared-0'', ''s3://b/prepared-2''])
     = Inr (2, 1, 0)
   \<and> \<not> is_ok (fst (cleanup_prepared_objects list_store (\<lambda>_. Inr ()) sample_objects None 0 Strict
          [''s3://b/prepared-0'', ''s3://b/prepared-2'']))"
proof -
  let ?s = "[''s3://b/prepared-0'', ''s3://b/prepared-2'']"
  have rs: "raw_deletes list_store sample_objects ?s = [Inr (), Inl ''404 Not Found'', Inr ()]" by code_simp
  have absent: "absent (Inl ''404 Not Found'')" "\<not> absent (Inr ())" by code_simp+
  have ne: "sample_objects \<noteq> []" by (simp add: sample_objects_def)
  show ?thesis
    using cleanup_verdict [OF _ ne rs [symmetric], of "\<lambda>_. Inr ()" None 0] absent by simp
qed

subsection \<open>Whose objects are deleted\<close>

lemma list_store_delete_ignoring:
  "delete_ignoring list_store us s = filter (\<lambda>u. u \<notin> set us) s"
proof (induction us arbitrary: s)
  case (Cons u us)
  have "u \<notin> set s \<Longrightarrow> filter (\<lambda>x. x \<noteq> u) s = s" by (auto simp: filter_id_conv)
  then have "snd (st_delete list_store u s) = filter (\<lambda>x. x \<noteq> u) s"
    by (simp add: list_store_def removeAll_filter_not_eq neq_commute)
  then show ?case using Cons by (simp add: conj_commute)
qed simp

lemma delete_all_list_store: "set (snd (delete_all list_store mode xs s)) = set s - po_uri ` set xs"
proof (induction xs arbitrary: s)
  case (Cons x xs)
  have "set (snd (st_delete list_store (po_uri x) s)) = set s - {po_uri x}" by (auto simp: list_store_def)
  then show ?case using Cons by (auto simp: split_beta Let_def)
qed simp

text \<open>
  The sweep of the directory markers is not restricted to markers: when agent 0 of a tree
  workload cleans up, nothing is left below the base the tree's first directory is found under,
  whichever agent created it, and whether or not it was prepared at all.
\<close>

lemma agent_zero_empties_base:
  assumes "sweep_base tree objs = Some base" and "open_store (po_uri (hd objs)) = Inr ()" and "mode \<noteq> Strict"
    and "list_all (\<lambda>u. str_contains u ''://'') s"
  shows "filter (\<lambda>u. starts_with u base) (snd (cleanup_prepared_objects list_store open_store objs tree 0 mode s)) = []"
proof -
  obtain x xs where objs: "objs = x # xs"
    using assms(1) by (cases objs) (auto simp: sweep_base_def split: option.splits)
  obtain rs s' where d: "delete_all list_store mode objs s = (rs, s')" by force
  have rs: "rs = map2 (delete_verdict mode) (map po_uri objs) (raw_deletes list_store objs s)"
    using delete_all_raw [of list_store mode objs s] d by simp
  have "length (map po_uri objs) = length (raw_deletes list_store objs s)" by simp
  then obtain counts where "tally mode rs (0, 0, 0) = Inr counts"
    using tally_lenient [OF assms(3), of "map po_uri objs" "raw_deletes list_store objs s" 0 0 0] rs by blast
  then have run: "snd (cleanup_prepared_objects list_store open_store objs tree 0 mode s) = sweep_directories list_store tree 0 objs s'"
    using assms(2) objs d by (simp add: cleanup_prepared_objects_def)
  have s': "list_all (\<lambda>u. str_contains u ''://'') s'"
    using delete_all_list_store [of mode objs s] d assms(4) by (auto simp: list_all_iff)
  have uris: "map (full_uri base) (filter (\<lambda>u. starts_with u base) s') = filter (\<lambda>u. starts_with u base) s'"
    using s' by (intro map_idI) (auto simp: full_uri_def list_all_iff)
  have listed: "st_list list_store base s' = Inr (filter (\<lambda>u. starts_with u base) s')" by (simp add: list_store_def)
  have "sweep_directories list_store tree 0 objs s' = filter (\<lambda>u. u \<notin> set (filter (\<lambda>u. starts_with u base) s')) s'"
    unfolding sweep_directories_def assms(1) by (simp add: listed uris list_store_delete_ignoring)
  then show ?thesis unfolding run by (auto simp: filter_empty_conv)
qed

lemma agent_zero_empties_base_witness:
  "filter (\<lambda>u. starts_with u ''s3://b/'')
     (snd (cleanup_prepared_objects list_store (\<lambda>_. Inr ())
        [\<lparr> po_uri = ''s3://b/d1_w1.dir/file_00000000.dat'', po_size = 7, po_created = True \<rparr>]
        (Some \<lparr> all_directories = [''d1_w1.dir''], by_level = [], agent_assignments = [], total_dirs = 1, total_files = 1,
                tm_files_per_dir = 1, tm_distribution = ''bottom'', file_ranges = [], max_depth = 1, leaf_start_index = 0 \<rparr>)
        0 Tolerant [''s3://b/results/run1.tsv'', ''s3://b/d1_w1.dir/file_00000001.dat''])) = []"
proof (rule agent_zero_empties_base)
  show "list_all (\<lambda>u. str_contains u ''://'') [''s3://b/results/run1.tsv'', ''s3://b/d1_w1.dir/file_00000001.dat'']"
    by (simp add: str_contains_def starts_with_def)
  show "sweep_base (Some \<lparr> all_directories = [''d1_w1.dir''], by_level = [], agent_assignments = [], total_dirs = 1, total_files = 1,
          tm_files_per_dir = 1, tm_distribution = ''bottom'', file_ranges = [], max_depth = 1, leaf_start_index = 0 \<rparr>)
      [\<lparr> po_uri = ''s3://b/d1_w1.dir/file_00000000.dat'', po_size = 7, po_created = True \<rparr>] = Some ''s3://b/''"
    by (simp add: sweep_base_def starts_with_def)
qed simp_all

lemma pool_tasks_uris:
  "length sizes = amount \<Longrightarrow>
     map pt_uri (pool_tasks None base sh pfx [] a n sizes) =
       map (\<lambda>i. join_key base (flat_key sh pfx i)) (filter (mine a n) [0..<amount])"
proof -
  assume l: "length sizes = amount"
  have "map pt_uri (List.map_filter (\<lambda>i. pool_task None base sh pfx [] a n (i, sizes ! i)) xs) =
      map (\<lambda>i. join_key base (flat_key sh pfx i)) (filter (mine a n) xs)" for xs
    by (induction xs) (auto simp: pool_task_def object_uri_def)
  moreover have "pool_tasks None base sh pfx [] a n sizes =
      List.map_filter (\<lambda>i. pool_task None base sh pfx [] a n (i, sizes ! i)) [0..<amount]"
    unfolding l [symmetric] pool_tasks_def zip_upt map_filter_as_concat map_map comp_def ..
  ultimately show ?thesis by simp
qed

text \<open>
  The generated cleanup list is what the agent's prepare would create from scratch, pool by pool
  and object by object, for a specification with a base URI of its own: in flat mode a cleanup
  without listing finds every object of the agent. In tree mode, where the objects have tree names,
  it names none of them.
\<close>

lemma cleanup_list_matches_prepare:
  assumes "ensure_objects cfg = [sp]" and "get_base_uri sp None = Inr base" and "base \<noteq> []"
    and "length sizes = es_count sp"
  shows "map po_uri (generate_cleanup_objects cfg a n) =
      concat (map (\<lambda>pfx. map pt_uri (pool_tasks None base (key_prefix_shards cfg) pfx [] a n sizes)) (pools True))
    \<and> (key_prefix_shards cfg = 0 \<longrightarrow> object_uri (Some m) base 0 pfx i = Some u
         \<longrightarrow> u \<notin> po_uri ` set (generate_cleanup_objects cfg a n))"
proof
  show "map po_uri (generate_cleanup_objects cfg a n) =
      concat (map (\<lambda>pfx. map pt_uri (pool_tasks None base (key_prefix_shards cfg) pfx [] a n sizes)) (pools True))"
    using assms(1-3) pool_tasks_uris [OF assms(4), of base "key_prefix_shards cfg" _ a n]
    by (simp add: generate_cleanup_objects_def pools_def)
  have apart: "join_key base (p @ CHR ''/'' # get_file_name i) \<noteq> join_key base (plain_key q j)"
    if q: "q \<in> {''prepared'', ''deletable''}" for p q j
  proof
    assume "join_key base (p @ CHR ''/'' # get_file_name i) = join_key base (plain_key q j)"
    then have "plain_key q j = p @ CHR ''/'' # get_file_name i" by (simp add: join_key_def split: if_splits)
    then have "CHR ''/'' \<in> set (plain_key q j)" by (metis in_set_conv_decomp)
    then show False using q padded_chars(1) [of 8 j] by (auto simp: plain_key_def)
  qed
  show "key_prefix_shards cfg = 0 \<longrightarrow> object_uri (Some m) base 0 pfx i = Some u
         \<longrightarrow> u \<notin> po_uri ` set (generate_cleanup_objects cfg a n)"
  proof (intro impI)
    assume sh: "key_prefix_shards cfg = 0" and u: "object_uri (Some m) base 0 pfx i = Some u"
    then obtain z where z: "get_file_path m i = Some z" "u = join_key base z" by (auto simp: object_uri_def)
    then obtain p where "u = join_key base (p @ CHR ''/'' # get_file_name i)"
      using get_file_path_form [OF z(1)] by blast
    then show "u \<notin> po_uri ` set (generate_cleanup_objects cfg a n)"
      using assms(1-3) apart sh by (auto simp: generate_cleanup_objects_def flat_key_def)
  qed
qed

lemma cleanup_list_matches_prepare_witness:
  "map po_uri (generate_cleanup_objects (plain_config [one_mib_spec 2]) 0 1) =
     [''s3://b/prepared-00000000.dat'', ''s3://b/prepared-00000001.dat'',
      ''s3://b/deletable-00000000.dat'', ''s3://b/deletable-00000001.dat'']"
proof -
  have "map pt_uri (pool_tasks None ''s3://b/'' 0 ''prepared'' [] 0 1 [7, 7]) =
        [''s3://b/prepared-00000000.dat'', ''s3://b/prepared-00000001.dat'']"
      "map pt_uri (pool_tasks None ''s3://b/'' 0 ''deletable'' [] 0 1 [7, 7]) =
        [''s3://b/deletable-00000000.dat'', ''s3://b/deletable-00000001.dat'']"
    by code_simp+
  then show ?thesis
    using cleanup_list_matches_prepare [where cfg = "plain_config [one_mib_spec 2]" and sp = "one_mib_spec 2" and base = "''s3://b/''"
        and sizes = "[7, 7]" and a = 0 and n = 1]
    by (simp add: pools_def)
qed

lemma flat_files_mine_None_iff:
  "flat_files_mine a n files = None \<longleftrightarrow> (\<exists>p\<in>set files. flat_file_mine a n p = None)"
  by (induction files) (auto split: option.split)

text \<open>
  A distributed cleanup that lists a flat base panics exactly when some object below the base,
  prepared or not, has a name with a dash that a dot precedes.
\<close>

lemma cleanup_listing_panics_exactly_when:
  assumes "first_base_uri cfg None = Some uri" and "open_store uri = Inr ()" and "directory_structure cfg = None"
    and "st_list st (listing_base uri) s = Inr files" and "1 < n"
  shows "list_existing_objects st open_store cfg a n s = None \<longleftrightarrow>
    (\<exists>p\<in>set files. \<exists>d q. find_sub ''-'' (file_name p) = Some d \<and> find_sub ''.'' (file_name p) = Some q \<and> q \<le> d)"
proof -
  have "flat_file_mine a n p = None \<longleftrightarrow>
      (\<exists>d q. find_sub ''-'' (file_name p) = Some d \<and> find_sub ''.'' (file_name p) = Some q \<and> q \<le> d)" for p
    using assms(5) by (auto simp: flat_file_mine_def dashed_index_def split: option.split)
  moreover have "list_existing_objects st open_store cfg a n s = None \<longleftrightarrow> flat_files_mine a n (sort files) = None"
    using assms by (simp add: list_existing_objects_def Let_def)
  ultimately show ?thesis by (simp add: flat_files_mine_None_iff)
qed

lemma cleanup_listing_panics_exactly_when_witness:
  "list_existing_objects list_store (\<lambda>_. Inr ()) (plain_config [one_mib_spec 2]) 0 2
     [''s3://b/prepared-00000000.dat'', ''s3://b/run.2024-01.log''] = None"
proof -
  have f: "first_base_uri (plain_config [one_mib_spec 2]) None = Some ''s3://b/''" by (simp add: first_base_uri_def)
  have l: "st_list list_store (listing_base ''s3://b/'') [''s3://b/prepared-00000000.dat'', ''s3://b/run.2024-01.log''] =
      Inr [''s3://b/prepared-00000000.dat'', ''s3://b/run.2024-01.log'']" by code_simp
  have "find_sub ''-'' (file_name ''s3://b/run.2024-01.log'') = Some 8"
      "find_sub ''.'' (file_name ''s3://b/run.2024-01.log'') = Some 3"
    by code_simp+
  then show ?thesis
    using cleanup_listing_panics_exactly_when [OF f _ _ l, of "\<lambda>_. Inr ()" 2 0]
    by (simp add: plain_config_def)
qed

text \<open>
  Objects taken to exist are not shared out: with the verification skipped every agent's prepare
  returns all of them, and each agent cleans up all of them. After one agent's cleanup a strict
  cleanup of another fails, although the cleanup relies on its caller for the distribution.
\<close>

lemma agents_clean_up_existing_twice:
  assumes "skip_verification cfg" and "\<not> force_overwrite cfg"
    and "prepare_pool env cfg me tree w a n before sp pfx c = Some (Inr objs, c')" and "objs \<noteq> []"
    and "open_store (po_uri (hd objs)) = Inr ()"
  shows "prepare_pool env cfg me tree w b n before sp pfx c = Some (Inr objs, c')
    \<and> \<not> is_ok (fst (cleanup_prepared_objects list_store open_store objs None b Strict
          (snd (cleanup_prepared_objects list_store open_store objs None a Tolerant s))))"
proof
  have "existing_objects env cfg tree x n before base sp pfx c = Inr (es_count sp, [])" for x base
    using assms(1,2) by (simp add: existing_objects_def)
  then have "prepare_pool env cfg me tree w b n before sp pfx c = prepare_pool env cfg me tree w a n before sp pfx c"
    by (simp add: prepare_pool_def split: sum.split)
  then show "prepare_pool env cfg me tree w b n before sp pfx c = Some (Inr objs, c')" using assms(3) by simp
  obtain x xs where objs: "objs = x # xs" using assms(4) by (cases objs) auto
  let ?s = "snd (cleanup_prepared_objects list_store open_store objs None a Tolerant s)"
  obtain rs s' where d: "delete_all list_store Tolerant objs s = (rs, s')" by force
  have "set ?s \<subseteq> set s - po_uri ` set objs"
    using delete_all_list_store [of Tolerant objs s] d assms(5) objs
    by (auto simp: cleanup_prepared_objects_def sweep_directories_def sweep_base_def split: sum.split)
  then have gone: "po_uri x \<notin> set ?s" using objs by auto
  then have "\<not> list_all is_ok (raw_deletes list_store objs ?s)"
    unfolding objs by (simp add: list_store_def split_beta Let_def)
  moreover have "fst (cleanup_prepared_objects list_store open_store objs None b Strict ?s) =
      tally Strict (map2 (delete_verdict Strict) (map po_uri objs) (raw_deletes list_store objs ?s)) (0, 0, 0)"
    using delete_all_raw [of list_store Strict objs ?s] assms(5) objs
    by (auto simp: cleanup_prepared_objects_def split_beta Let_def split: sum.split)
  ultimately show "\<not> is_ok (fst (cleanup_prepared_objects list_store open_store objs None b Strict ?s))"
    using tally_strict [of "map po_uri objs" "raw_deletes list_store objs ?s" 0 0 0] by (simp add: is_ok_iff)
qed

lemma agents_clean_up_existing_twice_witness:
  "let env = plain_env (\<lambda>_. False); cfg = (plain_config [])\<lparr>skip_verification := True\<rparr>;
       objs = [\<lparr> po_uri = ''s3://b/prepared-00000000.dat'', po_size = 7, po_created = False \<rparr>]
   in prepare_pool env cfg None None 4 1 2 [] (one_mib_spec 1) ''prepared'' None = Some (Inr objs, None)"
proof -
  let ?env = "plain_env (\<lambda>_. False)" and ?cfg = "(plain_config [])\<lparr>skip_verification := True\<rparr>"
  let ?objs = "[\<lparr> po_uri = ''s3://b/prepared-00000000.dat'', po_size = 7, po_created = False \<rparr>]"
  have uri: "object_uri None ''s3://b/'' 0 ''prepared'' 0 = Some ''s3://b/prepared-00000000.dat''" by code_simp
  have "size_generator_new (env_rng ?env) (Fixed 7) = Inr (FixedGen 7, seed_from (env_rng ?env) 0)"
    by (simp add: size_generator_new_def new_with_seed_def size_impl_def)
  then have "reconstruct ?env (one_mib_spec 1) (List.map_filter (object_uri None ''s3://b/'' 0 ''prepared'') [0..<1]) = Inr ?objs"
    using uri by (simp add: reconstruct_def size_context_def generate_def)
  moreover have "env_open ?env us = Inr ()" for us by (simp add: plain_env_def test_env_def)
  ultimately have "prepare_pool ?env ?cfg None None 4 0 2 [] (one_mib_spec 1) ''prepared'' None = Some (Inr ?objs, None)"
    by (simp add: prepare_pool_def base_uri_message_def existing_objects_def lift_result_def)
  then show ?thesis
    using agents_clean_up_existing_twice [of ?cfg ?env None None 4 0 2 "[]" "one_mib_spec 1" "''prepared''" None ?objs None
        "\<lambda>_. Inr ()" 1] by (simp add: Let_def)
qed

end
