(* ===== verification/Rate_Controller.thy ===== *)
theory Rate_Controller
  imports Config
begin

text \<open>
  The rate limiter of the workload (\<open>src/rate_controller.rs\<close>). Times are microseconds; a
  floating-point number that is not negative is a rational, infinite, or not a number, so that the
  divisions by zero of the source are values here. The generator of exponential delays and the
  timer of the tokio library are parameters.
\<close>

subsection \<open>Floating-point numbers that are not negative\<close>

datatype f64 = Fin rat | Infinite | NaN

fun div_f64 :: "f64 \<Rightarrow> f64 \<Rightarrow> f64" where
  "div_f64 (Fin a) (Fin b) = (if b = 0 then (if a = 0 then NaN else Infinite) else Fin (a / b))"
| "div_f64 (Fin a) Infinite = Fin 0"
| "div_f64 Infinite (Fin b) = Infinite"
| "div_f64 _ _ = NaN"

fun mul_f64 :: "f64 \<Rightarrow> f64 \<Rightarrow> f64" where
  "mul_f64 (Fin a) (Fin b) = Fin (a * b)"
| "mul_f64 (Fin a) Infinite = (if a = 0 then NaN else Infinite)"
| "mul_f64 Infinite (Fin b) = (if b = 0 then NaN else Infinite)"
| "mul_f64 Infinite Infinite = Infinite"
| "mul_f64 _ _ = NaN"

fun minus_f64 :: "f64 \<Rightarrow> rat \<Rightarrow> f64" where
  "minus_f64 (Fin a) b = Fin (a - b)"
| "minus_f64 Infinite b = Infinite"
| "minus_f64 NaN b = NaN"

fun is_positive :: "f64 \<Rightarrow> bool" where
  "is_positive (Fin a) = (0 < a)"
| "is_positive Infinite = True"
| "is_positive NaN = False"

fun as_u64 :: "f64 \<Rightarrow> nat" where
  "as_u64 (Fin a) = min u64_max (nat \<lfloor>a\<rfloor>)"
| "as_u64 Infinite = u64_max"
| "as_u64 NaN = 0"

subsection \<open>The controller\<close>

text \<open>
  \<open>Exp::new\<close> returns \<open>None\<close> for a rate it refuses. An interval is its period and its next deadline;
  \<open>interval\<close> panics on a period of zero, and its first tick is due at once.
\<close>

record 'd RateController =
  rc_config :: IoRateConfig
  inter_arrival_micros :: f64
  exp_dist :: "'d option"
  uniform_interval :: "(nat \<times> nat) option"
  rc_start_time :: nat
  ops_issued :: nat

definition tokio_interval :: "nat \<Rightarrow> nat \<Rightarrow> (nat \<times> nat) option" where
  "tokio_interval now period = (if period = 0 then None else Some (period, now))"

definition inter_arrival :: "IopsTarget \<Rightarrow> nat \<Rightarrow> f64" where
  "inter_arrival t workers =
     (case t of
        IopsMax \<Rightarrow> Fin 0
      | IopsFixed n \<Rightarrow> div_f64 (Fin 1000000) (div_f64 (Fin (of_nat n)) (Fin (of_nat workers))))"

definition rate_controller_new ::
  "(f64 \<Rightarrow> 'd option) \<Rightarrow> IoRateConfig \<Rightarrow> nat \<Rightarrow> nat \<Rightarrow> 'd RateController option" where
  "rate_controller_new exp_new cfg workers now =
     (let ia = inter_arrival (iops cfg) workers;
          rc = \<lparr> rc_config = cfg, inter_arrival_micros = ia, exp_dist = None,
                 uniform_interval = None, rc_start_time = now, ops_issued = 0 \<rparr>
      in if arrival cfg = Exponential \<and> is_positive ia
         then map_option (\<lambda>d. rc\<lparr>exp_dist := Some d\<rparr>) (exp_new (div_f64 (Fin 1) ia))
         else if arrival cfg = UniformArrival \<and> is_positive ia
         then map_option (\<lambda>iv. rc\<lparr>uniform_interval := Some iv\<rparr>) (tokio_interval now (as_u64 ia))
         else Some rc)"

text \<open>
  \<open>wait_for_next\<close> called at \<open>now\<close>: when the caller goes on, and the controller. \<open>sample\<close> draws a
  delay, \<open>next_tick now period deadline\<close> is the timer's next deadline. \<open>None\<close> is a panic.
\<close>

definition wait_for_next ::
  "('d \<Rightarrow> f64) \<Rightarrow> (nat \<Rightarrow> nat \<Rightarrow> nat \<Rightarrow> nat) \<Rightarrow> nat \<Rightarrow> 'd RateController \<Rightarrow> (nat \<times> 'd RateController) option" where
  "wait_for_next sample next_tick now rc =
     (if inter_arrival_micros rc = Fin 0 then Some (now, rc)
      else case arrival (rc_config rc) of
        Exponential \<Rightarrow>
          map_option (\<lambda>d. (let delay = sample d
             in (if is_positive delay then now + as_u64 delay else now, rc))) (exp_dist rc)
      | UniformArrival \<Rightarrow>
          Some (case uniform_interval rc of
             None \<Rightarrow> (now, rc)
           | Some (period, deadline) \<Rightarrow>
               (max now deadline, rc\<lparr>uniform_interval := Some (period, next_tick now period deadline)\<rparr>))
      | Deterministic \<Rightarrow>
          (let target_micros = mul_f64 (Fin (of_nat (ops_issued rc))) (inter_arrival_micros rc);
               delay = minus_f64 target_micros (of_nat (now - rc_start_time rc))
           in Some (if is_positive delay then now + as_u64 delay else now,
                    rc\<lparr>ops_issued := ops_issued rc + 1\<rparr>)))"

definition current_rate :: "nat \<Rightarrow> 'd RateController \<Rightarrow> rat" where
  "current_rate now rc =
     (let elapsed = of_nat (now - rc_start_time rc) / 1000000
      in if elapsed = 0 then 0 else of_nat (ops_issued rc) / elapsed)"

definition target_iops :: "'d RateController \<Rightarrow> nat option" where
  "target_iops rc = (case iops (rc_config rc) of IopsMax \<Rightarrow> None | IopsFixed n \<Rightarrow> Some n)"

text \<open>
  \<open>OptionalRateController\<close>: no configuration, no limit. Its clones share one controller, so the
  calls of all workers are one sequence of calls on it.
\<close>

definition optional_rate_controller_new ::
  "(f64 \<Rightarrow> 'd option) \<Rightarrow> IoRateConfig option \<Rightarrow> nat \<Rightarrow> nat \<Rightarrow> 'd RateController option option" where
  "optional_rate_controller_new exp_new cfg workers now =
     (case cfg of
        None \<Rightarrow> Some None
      | Some c \<Rightarrow> map_option Some (rate_controller_new exp_new c workers now))"

definition rate_wait ::
  "('d \<Rightarrow> f64) \<Rightarrow> (nat \<Rightarrow> nat \<Rightarrow> nat \<Rightarrow> nat) \<Rightarrow> nat \<Rightarrow> 'd RateController option
    \<Rightarrow> (nat \<times> 'd RateController option) option" where
  "rate_wait sample next_tick now rc =
     (case rc of
        None \<Rightarrow> Some (now, None)
      | Some c \<Rightarrow> map_option (\<lambda>(t, c'). (t, Some c')) (wait_for_next sample next_tick now c))"

text \<open>The times at which operations start, for calls at the given times by any of the workers.\<close>

fun starts ::
  "('d \<Rightarrow> f64) \<Rightarrow> (nat \<Rightarrow> nat \<Rightarrow> nat \<Rightarrow> nat) \<Rightarrow> nat list \<Rightarrow> 'd RateController option \<Rightarrow> nat list option" where
  "starts sample next_tick [] rc = Some []"
| "starts sample next_tick (now # later) rc =
     (case rate_wait sample next_tick now rc of
        None \<Rightarrow> None
      | Some (t, rc') \<Rightarrow> map_option ((#) t) (starts sample next_tick later rc'))"

subsection \<open>What the limiter limits\<close>

lemma inter_arrival_fixed:
  "0 < n \<Longrightarrow> 0 < workers \<Longrightarrow>
     inter_arrival (IopsFixed n) workers = Fin (1000000 * of_nat workers / of_nat n)"
  by (simp add: inter_arrival_def)

text \<open>A call of a deterministic controller at which \<open>k\<close> operations were issued before.\<close>

lemma deterministic_call:
  assumes "arrival (rc_config rc) = Deterministic" "inter_arrival_micros rc = Fin a" "0 < a"
    and "wait_for_next sample next_tick now rc = Some (t, rc')"
    and "rc_start_time rc \<le> now" "of_nat (ops_issued rc) * a < of_nat u64_max"
  shows "rc' = rc\<lparr>ops_issued := ops_issued rc + 1\<rparr> \<and> now \<le> t
    \<and> of_nat (rc_start_time rc) + of_nat (ops_issued rc) * a - 1 < of_nat t"
proof -
  define d where "d = of_nat (ops_issued rc) * a - of_nat (now - rc_start_time rc)"
  have t: "t = (if 0 < d then now + min u64_max (nat \<lfloor>d\<rfloor>) else now)"
    and rc': "rc' = rc\<lparr>ops_issued := ops_issued rc + 1\<rparr>"
    using assms by (auto simp: wait_for_next_def d_def Let_def split: if_splits)
  have now: "(of_nat now :: rat) = of_nat (rc_start_time rc) + of_nat (now - rc_start_time rc)"
    using assms(5) by (simp add: of_nat_diff)
  have small: "d < of_nat u64_max"
    using assms(6) of_nat_0_le_iff [of "now - rc_start_time rc", where ?'a = rat] unfolding d_def by linarith
  have "of_nat (rc_start_time rc) + of_nat (ops_issued rc) * a - 1 < (of_nat t :: rat)"
  proof (cases "0 < d")
    case True
    have "\<lfloor>d\<rfloor> < int u64_max" using small by (simp add: floor_less_iff)
    then have "nat \<lfloor>d\<rfloor> \<le> u64_max" using True by linarith
    then have "(of_nat t :: rat) = of_nat now + of_nat (nat \<lfloor>d\<rfloor>)" using t True by simp
    moreover have "d - 1 < of_nat (nat \<lfloor>d\<rfloor>)"
      using True floor_correct [of d] by (simp add: of_nat_nat)
    ultimately show ?thesis using now unfolding d_def by linarith
  next
    case False
    then have "t = now" using t by simp
    then show ?thesis using now False unfolding d_def by linarith
  qed
  then show ?thesis using rc' t by simp
qed

lemma deterministic_starts:
  assumes "arrival (rc_config rc) = Deterministic" "inter_arrival_micros rc = Fin a" "0 < a"
  shows "starts sample next_tick calls (Some rc) = Some ts \<Longrightarrow>
    \<forall>c\<in>set calls. rc_start_time rc \<le> c \<Longrightarrow>
    of_nat (ops_issued rc + length calls) * a < of_nat u64_max \<Longrightarrow>
    k < length ts \<Longrightarrow>
    of_nat (rc_start_time rc) + of_nat (ops_issued rc + k) * a - 1 < of_nat (ts ! k)"
  using assms
proof (induction calls arbitrary: rc ts k)
  case (Cons c calls)
  from Cons.prems(1) obtain t rc' ts' where w: "wait_for_next sample next_tick c rc = Some (t, rc')"
    and rest: "starts sample next_tick calls (Some rc') = Some ts'" and ts: "ts = t # ts'"
    by (auto simp: rate_wait_def split: option.splits prod.splits)
  have "of_nat (ops_issued rc) * a \<le> of_nat (ops_issued rc + length (c # calls)) * a"
    using Cons.prems(7) by (intro mult_right_mono) auto
  then have small: "of_nat (ops_issued rc) * a < of_nat u64_max" using Cons.prems(3) by linarith
  from deterministic_call [OF Cons.prems(5-7) w] Cons.prems(2) small
  have rc': "rc' = rc\<lparr>ops_issued := ops_issued rc + 1\<rparr>"
    and now: "of_nat (rc_start_time rc) + of_nat (ops_issued rc) * a - 1 < of_nat t" by auto
  show ?case
  proof (cases k)
    case 0
    then show ?thesis using now ts by simp
  next
    case (Suc j)
    then show ?thesis
      using Cons.IH [OF rest, of j] Cons.prems rc' ts by (simp add: algebra_simps)
  qed
qed simp

text \<open>A timer whose deadlines are at least a period apart, as tokio documents for all its behaviours.\<close>

definition ticks_apart :: "(nat \<Rightarrow> nat \<Rightarrow> nat \<Rightarrow> nat) \<Rightarrow> bool" where
  "ticks_apart next_tick = (\<forall>now period deadline. deadline + period \<le> next_tick now period deadline)"

lemma uniform_starts:
  assumes "arrival (rc_config rc) = UniformArrival" "inter_arrival_micros rc \<noteq> Fin 0" "ticks_apart next_tick"
  shows "starts sample next_tick calls (Some rc) = Some ts \<Longrightarrow>
    uniform_interval rc = Some (period, deadline) \<Longrightarrow> k < length ts \<Longrightarrow> deadline + k * period \<le> ts ! k"
  using assms(1,2)
proof (induction calls arbitrary: rc ts k deadline)
  case (Cons c calls)
  define rc1 where "rc1 = rc\<lparr>uniform_interval := Some (period, next_tick c period deadline)\<rparr>"
  from Cons.prems obtain ts' where rest: "starts sample next_tick calls (Some rc1) = Some ts'"
    and ts: "ts = max c deadline # ts'"
    by (auto simp: rate_wait_def wait_for_next_def rc1_def split: option.splits)
  show ?case
  proof (cases k)
    case (Suc j)
    have "next_tick c period deadline + j * period \<le> ts' ! j"
      using Cons.IH [OF rest, of "next_tick c period deadline" j] Cons.prems Suc ts by (simp add: rc1_def)
    moreover have "deadline + period \<le> next_tick c period deadline" using assms(3) by (simp add: ticks_apart_def)
    ultimately show ?thesis using Suc ts by simp
  qed (simp add: ts)
qed simp

lemma count_below:
  assumes "0 < a" "\<And>k. k < length ts \<Longrightarrow> of_nat k * a - 1 < (of_nat (ts ! k) :: rat)"
  shows "of_nat (length (filter (\<lambda>t. t < T) ts)) \<le> (of_nat T + 1) / a + 1"
proof -
  let ?m = "nat \<lceil>(of_nat T + 1) / a\<rceil>"
  have "{i. i < length ts \<and> ts ! i < T} \<subseteq> {..<?m}"
  proof (intro subsetI, elim CollectE conjE)
    fix i assume "i < length ts" "ts ! i < T"
    then have "of_nat i * a < of_nat T + 1"
      using assms(2) [of i] of_nat_less_iff [of "ts ! i" T, where ?'a = rat] by linarith
    then have "of_nat i < (of_nat T + 1) / a" using assms(1) by (simp add: pos_less_divide_eq)
    then have "int i < \<lceil>(of_nat T + 1) / a\<rceil>" by (simp add: less_ceiling_iff)
    then show "i \<in> {..<?m}" by simp
  qed
  then have "length (filter (\<lambda>t. t < T) ts) \<le> ?m"
    using card_mono [of "{..<?m}"] by (simp add: length_filter_conv_card)
  moreover have "0 \<le> (of_nat T + 1) / a" using assms(1) by simp
  then have "(of_nat ?m :: rat) \<le> (of_nat T + 1) / a + 1"
    by (simp add: of_nat_nat)
  ultimately show ?thesis by (meson of_nat_mono order_trans)
qed

text \<open>Exponential delays leave the controller alone: every worker waits for its own sample.\<close>

lemma exponential_starts:
  assumes "arrival (rc_config rc) = Exponential" "inter_arrival_micros rc \<noteq> Fin 0" "exp_dist rc = Some d"
  shows "starts sample next_tick calls (Some rc) =
    Some (map (\<lambda>now. if is_positive (sample d) then now + as_u64 (sample d) else now) calls)"
  using assms by (induction calls) (simp_all add: rate_wait_def wait_for_next_def Let_def)

lemma uniform_limit_panics:
  assumes "iops cfg = IopsFixed n" "0 < n" "0 < workers" "arrival cfg = UniformArrival"
  shows "rate_controller_new exp_new cfg workers now = None \<longleftrightarrow> 1000000 * workers < n"
proof -
  let ?q = "1000000 * of_nat workers / (of_nat n :: rat)"
  have "?q < 1 \<longleftrightarrow> (of_nat (1000000 * workers) :: rat) < of_nat n"
    using assms(2) by (simp add: divide_less_eq)
  then have "?q < 1 \<longleftrightarrow> 1000000 * workers < n" by (simp only: of_nat_less_iff)
  moreover have "as_u64 (Fin ?q) = 0 \<longleftrightarrow> ?q < 1"
    by (simp add: u64_max_def min_def) linarith
  ultimately show ?thesis
    using assms by (simp add: rate_controller_new_def inter_arrival_fixed tokio_interval_def Let_def)
qed

subsection \<open>Properties\<close>




end
