(* ===== verification/Path_Selection.thy ===== *)
theory Path_Selection
  imports Prepare_Phase Stage_Converter
begin

text \<open>
  The selection of directories and files in a tree workload (\<open>PathSelector\<close> in
  \<open>src/prepare/directory_tree.rs\<close>) and the creation of the tree's files there
  (\<open>create_directory_tree\<close>). The thread's random generator is a state of type \<open>'g\<close> with its two
  samplers; floating point is exact rationals.
\<close>

subsection \<open>The selector\<close>

record 'g thread_rng =
  random_f64 :: "'g \<Rightarrow> rat \<times> 'g"
  random_range :: "nat \<Rightarrow> 'g \<Rightarrow> nat \<times> 'g"

definition thread_rng_ok :: "'g thread_rng \<Rightarrow> bool" where
  "thread_rng_ok g = ((\<forall>n r. 0 < n \<longrightarrow> fst (random_range g n r) < n)
     \<and> (\<forall>r. 0 \<le> fst (random_f64 g r) \<and> fst (random_f64 g r) < 1))"

record PathSelector =
  ps_manifest :: TreeManifest
  ps_agent_id :: nat
  ps_num_agents :: nat
  ps_strategy :: PathSelectionStrategy
  ps_overlap :: rat

definition path_selector_new ::
  "TreeManifest \<Rightarrow> nat \<Rightarrow> nat \<Rightarrow> PathSelectionStrategy \<Rightarrow> rat \<Rightarrow> PathSelector" where
  "path_selector_new m a n st ov =
     \<lparr> ps_manifest = m, ps_agent_id = a, ps_num_agents = n, ps_strategy = st, ps_overlap = ov \<rparr>"

text \<open>An element of a list that is not empty, at a random index.\<close>

definition pick_one :: "'g thread_rng \<Rightarrow> 'a list \<Rightarrow> 'g \<Rightarrow> 'a \<times> 'g" where
  "pick_one g xs r = (let (i, r') = random_range g (length xs) r in (xs ! i, r'))"

definition agent_dirs :: "PathSelector \<Rightarrow> string list" where
  "agent_dirs s = get_agent_dirs (ps_manifest s) (ps_agent_id s)"

definition select_random :: "'g thread_rng \<Rightarrow> PathSelector \<Rightarrow> 'g \<Rightarrow> string \<times> 'g" where
  "select_random g s r = pick_one g (all_directories (ps_manifest s)) r"

definition select_partitioned :: "'g thread_rng \<Rightarrow> PathSelector \<Rightarrow> 'g \<Rightarrow> string \<times> 'g" where
  "select_partitioned g s r =
     (let (x, r') = random_f64 g r
      in if x < 7 / 10 \<and> agent_dirs s \<noteq> [] then pick_one g (agent_dirs s) r' else select_random g s r')"

definition select_exclusive :: "'g thread_rng \<Rightarrow> PathSelector \<Rightarrow> 'g \<Rightarrow> string \<times> 'g" where
  "select_exclusive g s r =
     (if agent_dirs s = [] then select_random g s r else pick_one g (agent_dirs s) r)"

definition select_weighted :: "'g thread_rng \<Rightarrow> PathSelector \<Rightarrow> 'g \<Rightarrow> string \<times> 'g" where
  "select_weighted g s r =
     (let (x, r') = random_f64 g r
      in if x < 1 - ps_overlap s \<and> agent_dirs s \<noteq> [] then pick_one g (agent_dirs s) r'
         else (let others = filter (\<lambda>d. d \<notin> set (agent_dirs s)) (all_directories (ps_manifest s))
               in if others \<noteq> [] then pick_one g others r' else select_exclusive g s r'))"

definition select_directory :: "'g thread_rng \<Rightarrow> PathSelector \<Rightarrow> 'g \<Rightarrow> string \<times> 'g" where
  "select_directory g s r =
     (if all_directories (ps_manifest s) = [] then (''fallback_dir'', r)
      else case ps_strategy s of
        RandomPath \<Rightarrow> select_random g s r
      | Partitioned \<Rightarrow> select_partitioned g s r
      | Exclusive \<Rightarrow> select_exclusive g s r
      | Weighted \<Rightarrow> select_weighted g s r)"

definition dirs_with_files :: "PathSelector \<Rightarrow> string list" where
  "dirs_with_files s = map fst (file_ranges (ps_manifest s))"

definition assigned_with_files :: "PathSelector \<Rightarrow> string list" where
  "assigned_with_files s = filter (\<lambda>d. get_file_range (ps_manifest s) d \<noteq> None) (agent_dirs s)"

definition pick_assigned :: "'g thread_rng \<Rightarrow> bool \<Rightarrow> PathSelector \<Rightarrow> 'g \<Rightarrow> string \<times> 'g" where
  "pick_assigned g use s r =
     (if use \<and> assigned_with_files s \<noteq> [] then pick_one g (assigned_with_files s) r
      else pick_one g (dirs_with_files s) r)"

definition select_directory_with_files :: "'g thread_rng \<Rightarrow> PathSelector \<Rightarrow> 'g \<Rightarrow> string \<times> 'g" where
  "select_directory_with_files g s r =
     (if dirs_with_files s = [] then select_directory g s r
      else case ps_strategy s of
        RandomPath \<Rightarrow> pick_one g (dirs_with_files s) r
      | Exclusive \<Rightarrow> pick_assigned g True s r
      | Partitioned \<Rightarrow> (let (x, r') = random_f64 g r in pick_assigned g (x < 7 / 10) s r')
      | Weighted \<Rightarrow> (let (x, r') = random_f64 g r in pick_assigned g (x < 1 - ps_overlap s) s r'))"

definition select_file :: "'g thread_rng \<Rightarrow> PathSelector \<Rightarrow> 'g \<Rightarrow> string \<times> 'g" where
  "select_file g s r =
     (let (d, r1) = select_directory_with_files g s r;
          fallback = (if d = [] then ''fallback_file_00000.dat'' else d @ ''/fallback_file_00000.dat'')
      in case get_file_range (ps_manifest s) d of
           None \<Rightarrow> (fallback, r1)
         | Some (a, b) \<Rightarrow>
             (if b \<le> a then (fallback, r1)
              else (let (j, r2) = random_range g (b - a) r1
                    in (case get_file_path (ps_manifest s) (a + j) of Some p \<Rightarrow> p | None \<Rightarrow> fallback, r2))))"

text \<open>
  The selector of a workload run (\<open>workload::run\<close>): with a distributed configuration its strategy,
  but the agent number is always 0.
\<close>

definition run_selector :: "Config \<Rightarrow> TreeManifest \<Rightarrow> PathSelector" where
  "run_selector cfg m =
     (case distributed cfg of
        Some d \<Rightarrow> path_selector_new m 0 (length (agents d)) (path_selection d) (partition_overlap d)
      | None \<Rightarrow> path_selector_new m 0 1 RandomPath (3 / 10))"

subsection \<open>The creation of the tree's files\<close>

text \<open>
  \<open>create_directory_tree\<close>: the agent's directories are made, the directories of the tree are listed
  (\<open>listing\<close> gives the URIs of one directory, or fails, which counts as empty), and of the files
  the listings do not show the agent creates its own, in the order of their numbers. \<open>mkdir\<close> and
  \<open>put\<close> are the outcomes of the store's operations; the first failure ends the creation.
\<close>

definition relative_path :: "string \<Rightarrow> string \<Rightarrow> string option" where
  "relative_path base u = map_option (trim_start_matches (CHR ''/'')) (strip_prefix base u)"

definition existing_files :: "(string \<Rightarrow> string + string list) \<Rightarrow> string \<Rightarrow> TreeManifest \<Rightarrow> string list" where
  "existing_files listing base m =
     concat (map (\<lambda>d. case listing (join_key base d @ ''/'') of
                        Inl _ \<Rightarrow> []
                      | Inr us \<Rightarrow> List.map_filter (relative_path base) us)
                 (map fst (file_ranges m)))"

definition missing_files :: "(string \<Rightarrow> string + string list) \<Rightarrow> string \<Rightarrow> TreeManifest \<Rightarrow> string list" where
  "missing_files listing base m =
     filter (\<lambda>p. p \<notin> set (existing_files listing base m))
       (List.map_filter (get_file_path m) [0..<total_files m])"

definition files_of_dirs :: "TreeManifest \<Rightarrow> (nat \<times> string) list" where
  "files_of_dirs m =
     (let dirs = map fst (file_ranges m); k = tm_files_per_dir m
      in map (\<lambda>i. (i, dirs ! (i div k))) [0..<length dirs * k])"

definition agent_missing_files ::
  "(string \<Rightarrow> string + string list) \<Rightarrow> string \<Rightarrow> TreeManifest \<Rightarrow> nat \<Rightarrow> nat \<Rightarrow> string list" where
  "agent_missing_files listing base m a n =
     map (\<lambda>(i, d). join_key base d @ ''/'' @ get_file_name i)
       (filter (\<lambda>(i, d). d @ ''/'' @ get_file_name i \<in> set (missing_files listing base m) \<and> assigned_agent n i = a)
          (files_of_dirs m))"

fun put_files ::
  "'r rng \<Rightarrow> (string \<Rightarrow> nat \<Rightarrow> string + unit) \<Rightarrow> string list \<Rightarrow> 'r SizeGenerator \<Rightarrow> string + (string \<times> nat) list" where
  "put_files g put [] sg = Inr []"
| "put_files g put (u # us) sg =
     (let (sz, sg') = generate g sg
      in case put u sz of
           Inl _ \<Rightarrow> Inl (''Failed to create file: '' @ u)
         | Inr _ \<Rightarrow> bind_result (put_files g put us sg') (\<lambda>made. Inr ((u, sz) # made)))"

definition tree_file_spec :: "PrepareConfig \<Rightarrow> SizeSpec" where
  "tree_file_spec cfg = (case ensure_objects cfg of e # _ \<Rightarrow> get_size_spec e | [] \<Rightarrow> Fixed 1024)"

definition create_missing_files ::
  "'r rng \<Rightarrow> (string \<Rightarrow> nat \<Rightarrow> string + unit) \<Rightarrow> (string \<Rightarrow> string + string list) \<Rightarrow> PrepareConfig \<Rightarrow> string
    \<Rightarrow> TreeManifest \<Rightarrow> nat \<Rightarrow> nat \<Rightarrow> string + (string \<times> nat) list" where
  "create_missing_files g put listing cfg base m a n =
     (if tm_files_per_dir m = 0 \<or> missing_files listing base m = [] then Inr []
      else bind_result (size_generator_new g (tree_file_spec cfg))
             (\<lambda>sg. put_files g put (agent_missing_files listing base m a n) sg))"

definition create_directory_tree ::
  "'r rng \<Rightarrow> (string \<Rightarrow> string + unit) \<Rightarrow> (string \<Rightarrow> string + unit) \<Rightarrow> (string \<Rightarrow> nat \<Rightarrow> string + unit)
    \<Rightarrow> (string \<Rightarrow> string + string list) \<Rightarrow> PrepareConfig \<Rightarrow> nat \<Rightarrow> nat \<Rightarrow> string
    \<Rightarrow> string + TreeManifest \<times> nat \<times> (string \<times> nat) list" where
  "create_directory_tree g open_store mkdir put listing cfg a n base =
     (case create_tree_manifest_only cfg n of
        Inl None \<Rightarrow> Inl ''No directory_structure specified in PrepareConfig''
      | Inl (Some _) \<Rightarrow> Inl ''Failed to create DirectoryTree''
      | Inr m \<Rightarrow>
          bind_result (open_store base) (\<lambda>_.
          bind_result
            (if needs_mkdir base
             then make_directories mkdir base (if n = 1 then all_directories m else get_agent_dirs m a) 0
             else Inr 0) (\<lambda>made.
          bind_result (create_missing_files g put listing cfg base m a n) (\<lambda>files.
          Inr (m, made, files)))))"

subsection \<open>Facts\<close>

lemma pick_one_in: "thread_rng_ok g \<Longrightarrow> xs \<noteq> [] \<Longrightarrow> fst (pick_one g xs r) \<in> set xs"
  by (auto simp: pick_one_def thread_rng_ok_def split: prod.split) (metis fst_conv length_greater_0_conv nth_mem)

lemma set_assigned_with_files:
  "set (assigned_with_files s) = set (agent_dirs s) \<inter> set (dirs_with_files s)"
  by (force simp: assigned_with_files_def dirs_with_files_def get_file_range_def find_None_iff)

lemma pick_assigned_in:
  "thread_rng_ok g \<Longrightarrow> dirs_with_files s \<noteq> [] \<Longrightarrow> fst (pick_assigned g use s r) \<in> set (dirs_with_files s)"
  using pick_one_in [of g "assigned_with_files s" r] pick_one_in [of g "dirs_with_files s" r]
    set_assigned_with_files [of s]
  by (auto simp only: pick_assigned_def split: if_splits)

text \<open>The directory a file is selected from always has files.\<close>

lemma select_directory_with_files_in:
  "thread_rng_ok g \<Longrightarrow> dirs_with_files s \<noteq> [] \<Longrightarrow>
     fst (select_directory_with_files g s r) \<in> set (dirs_with_files s)"
  by (auto simp: select_directory_with_files_def pick_assigned_in pick_one_in split: PathSelectionStrategy.split prod.split)

text \<open>What \<open>select_file\<close> returns when the range of the selected directory is known.\<close>

lemma select_file_in_range:
  assumes "thread_rng_ok g" "fst (select_directory_with_files g s r) = d"
    and "get_file_range (ps_manifest s) d = Some (a, b)" "a < b"
    and "\<And>i. a \<le> i \<Longrightarrow> i < b \<Longrightarrow> get_file_path (ps_manifest s) i = Some (d @ ''/'' @ get_file_name i)"
  shows "\<exists>i. a \<le> i \<and> i < b \<and> fst (select_file g s r) = d @ ''/'' @ get_file_name i"
proof -
  obtain r1 where d: "select_directory_with_files g s r = (d, r1)" using assms(2) by (metis prod.collapse)
  obtain j r2 where j: "random_range g (b - a) r1 = (j, r2)" by force
  have "j < b - a" using assms(1,4) j unfolding thread_rng_ok_def by (metis fst_conv zero_less_diff)
  then have "a \<le> a + j" "a + j < b" by simp_all
  moreover have "fst (select_file g s r) = d @ ''/'' @ get_file_name (a + j)"
    using assms(3,4) assms(5) [OF calculation] d j by (simp add: select_file_def Let_def)
  ultimately show ?thesis by blast
qed

lemma assign_agents_fields [simp]:
  "all_directories (assign_agents n m) = all_directories m"
  "file_ranges (assign_agents n m) = file_ranges m" "total_files (assign_agents n m) = total_files m"
  "tm_files_per_dir (assign_agents n m) = tm_files_per_dir m"
  "get_file_path (assign_agents n m) i = get_file_path m i"
  "get_file_range (assign_agents n m) d = get_file_range m d"
  by (simp_all add: assign_agents_def get_file_path_def nth_path_def get_file_range_def)

lemma tree_file_dirs:
  assumes "tree_new c = Inr t" "mask_ok (dir_mask c)" "0 < files_per_dir c"
  shows "map fst (file_ranges (from_tree t)) = file_dirs c" "file_dirs c \<noteq> []"
proof -
  note g = from_tree_fields [OF assms(1,2)]
  show "map fst (file_ranges (from_tree t)) = file_dirs c" using g(5) assms(3) by (simp add: comp_def map_nth)
  have "0 < width c" "0 < depth c" using assms(1) by (auto simp: tree_new_def split: if_splits)
  then show "file_dirs c \<noteq> []"
    by (cases "depth c") (auto simp: file_dirs_def tree_paths_Suc simp flip: length_greater_0_conv simp: level_paths_length)
qed

lemma tree_dir_range:
  assumes "tree_new c = Inr t" "mask_ok (dir_mask c)" "0 < files_per_dir c" "j < length (file_dirs c)"
    and "k = files_per_dir c" "m = from_tree t"
  shows "get_file_range m (file_dirs c ! j) = Some (j * k, (j + 1) * k)"
    and "j * k \<le> i \<Longrightarrow> i < (j + 1) * k \<Longrightarrow> i < total_files m
      \<and> get_file_path m i = Some (file_dirs c ! j @ ''/'' @ get_file_name i)"
proof -
  note g = from_tree_fields [OF assms(1,2)]
  have "file_ranges m ! j = (file_dirs c ! j, j * k, (j + 1) * k)" "j < length (file_ranges m)"
    using g(5) assms(3-6) by simp_all
  then show "get_file_range m (file_dirs c ! j) = Some (j * k, (j + 1) * k)"
    using find_distinct [of fst "file_ranges m" j] file_dirs_distinct [OF assms(1,2)]
      tree_file_dirs(1) [OF assms(1-3)] assms(6)
    by (simp add: get_file_range_def)
  show "i < total_files m \<and> get_file_path m i = Some (file_dirs c ! j @ ''/'' @ get_file_name i)"
    if i: "j * k \<le> i" "i < (j + 1) * k"
  proof -
    have "(j + 1) * k \<le> length (file_dirs c) * k" using assms(4) by (intro mult_right_mono) simp_all
    then have tot: "i < total_files m" using i g(6) assms(5,6) by simp
    have "i div k = j" using i by (intro div_nat_eqI) (simp_all add: mult.commute)
    then show ?thesis using file_dirs_nth(2) [OF assms(1,2), of i] tot assms(5,6) by simp
  qed
qed

lemma selected_file:
  assumes "tree_new c = Inr t" "mask_ok (dir_mask c)" "0 < files_per_dir c" "thread_rng_ok g"
    and "ps_manifest s = assign_agents n (from_tree t)"
    and "fst (select_directory_with_files g s r) = d" "d \<in> set (dirs_with_files s)"
  shows "\<exists>i < total_files (ps_manifest s). get_file_path (ps_manifest s) i = Some (fst (select_file g s r))
    \<and> fst (select_file g s r) = d @ ''/'' @ get_file_name i"
proof -
  have "d \<in> set (file_dirs c)" using assms(5,7) tree_file_dirs(1) [OF assms(1-3)] by (simp add: dirs_with_files_def)
  then obtain j where j: "j < length (file_dirs c)" "d = file_dirs c ! j" by (auto simp: in_set_conv_nth)
  note range = tree_dir_range [OF assms(1-3) j(1) refl refl]
  have "\<exists>i. j * files_per_dir c \<le> i \<and> i < (j + 1) * files_per_dir c \<and> fst (select_file g s r) = d @ ''/'' @ get_file_name i"
    by (rule select_file_in_range [OF assms(4,6)]) (use range assms(3,5) j in auto)
  then obtain i where i: "j * files_per_dir c \<le> i" "i < (j + 1) * files_per_dir c"
    and p: "fst (select_file g s r) = d @ ''/'' @ get_file_name i" by blast
  from range(2) [OF i] p assms(5) j(2) show ?thesis by (intro exI [of _ i]) simp
qed

lemma exclusive_directory:
  assumes "thread_rng_ok g" "ps_strategy s = Exclusive" "assigned_with_files s \<noteq> []"
  shows "fst (select_directory_with_files g s r) \<in> set (agent_dirs s) \<inter> set (dirs_with_files s)"
proof -
  have "dirs_with_files s \<noteq> []" using assms(3) set_assigned_with_files [of s] by (cases "assigned_with_files s") auto
  then show ?thesis
    using assms pick_one_in [OF assms(1,3)] set_assigned_with_files [of s]
    by (simp add: select_directory_with_files_def pick_assigned_def)
qed

lemma agent_dirs_disjoint:
  assumes "distinct (all_directories m)" "0 < n" "d \<in> set (get_agent_dirs (assign_agents n m) a)"
    "d \<in> set (get_agent_dirs (assign_agents n m) b)"
  shows "a = b"
  using assms(3,4) assms(1) by (auto simp: get_agent_dirs_eq [OF assms(2)] nth_eq_iff_index_eq)

lemma tree_dirs_distinct:
  "tree_new c = Inr t \<Longrightarrow> mask_ok (dir_mask c) \<Longrightarrow> distinct (all_directories (from_tree t))"
  using tree_paths_distinct [of c "depth c"] tree_new_fields(1) [of c t] by (simp add: from_tree_fields(1))

subsection \<open>Properties\<close>

text \<open>
  C22: In a tree workload every selected file is one of the tree's, whatever the strategy and the
  random choices: the path is that of a file number below the manifest's total. Exclusive selectors
  of different agents that both have directories with files never select the same file.
\<close>

theorem selected_files_exist_and_are_exclusive:
  assumes "tree_new c = Inr t" "mask_ok (dir_mask c)" "0 < files_per_dir c" "thread_rng_ok g"
    and "m = assign_agents n (from_tree t)" "0 < n" "a \<noteq> b"
    and "x = path_selector_new m a n Exclusive ov" "y = path_selector_new m b n Exclusive ov"
  shows "(\<exists>i < total_files m. get_file_path m i = Some (fst (select_file g (path_selector_new m a n st ov) r)))
    \<and> (assigned_with_files x \<noteq> [] \<longrightarrow> assigned_with_files y \<noteq> [] \<longrightarrow>
         fst (select_file g x r) \<noteq> fst (select_file g y r'))"
proof (intro conjI impI notI)
  note tree = assms(1-4)
  let ?s = "path_selector_new m a n st ov"
  have fields: "ps_manifest (path_selector_new m d n st' ov) = m" "ps_agent_id (path_selector_new m d n st' ov) = d"
      "ps_strategy (path_selector_new m d n st' ov) = st'" for d st'
    by (simp_all add: path_selector_new_def)
  have "dirs_with_files ?s = file_dirs c"
    using tree_file_dirs(1) [OF assms(1-3)] by (simp add: dirs_with_files_def path_selector_new_def assms(5))
  then have "dirs_with_files ?s \<noteq> []" using tree_file_dirs(2) [OF assms(1-3)] by simp
  from select_directory_with_files_in [OF assms(4) this]
  show "\<exists>i < total_files m. get_file_path m i = Some (fst (select_file g ?s r))"
    using selected_file [OF tree _ refl, of ?s n r] fields assms(5) by auto
  assume x: "assigned_with_files x \<noteq> []" and y: "assigned_with_files y \<noteq> []"
    and eq: "fst (select_file g x r) = fst (select_file g y r')"
  define dx where "dx = fst (select_directory_with_files g x r)"
  define dy where "dy = fst (select_directory_with_files g y r')"
  have dx: "dx \<in> set (get_agent_dirs m a) \<inter> set (dirs_with_files x)"
    using exclusive_directory [OF assms(4) _ x, of r] fields assms(8) by (simp add: dx_def agent_dirs_def)
  have dy: "dy \<in> set (get_agent_dirs m b) \<inter> set (dirs_with_files y)"
    using exclusive_directory [OF assms(4) _ y, of r'] fields assms(9) by (simp add: dy_def agent_dirs_def)
  obtain i where i: "fst (select_file g x r) = dx @ ''/'' @ get_file_name i"
    using selected_file [OF tree _ dx_def [symmetric], of n] dx fields assms(5,8) by auto
  obtain j where j: "fst (select_file g y r') = dy @ ''/'' @ get_file_name j"
    using selected_file [OF tree _ dy_def [symmetric], of n] dy fields assms(5,9) by auto
  have "dx = dy" using eq i j last_slash [OF _ file_name_no_slash file_name_no_slash, of dx i dy j] by simp
  moreover have "distinct (all_directories (from_tree t))"
    by (rule tree_dirs_distinct [OF assms(1,2)])
  ultimately show False
    using agent_dirs_disjoint [OF _ assms(6), of "from_tree t" dx a b] dx dy assms(5,7) by auto
qed

text \<open>A generator that always draws the first element, and a tree of four leaves for two agents.\<close>

definition first_rng :: "unit thread_rng" where
  "first_rng = \<lparr> random_f64 = (\<lambda>r. (0, r)), random_range = (\<lambda>n r. (0, r)) \<rparr>"

definition two_agents :: TreeManifest where "two_agents = assign_agents 2 (from_tree sample_tree)"

lemma first_rng_ok: "thread_rng_ok first_rng"
  by (simp add: thread_rng_ok_def first_rng_def)

lemma two_agents_assigned:
  "assigned_with_files (path_selector_new two_agents 0 2 Exclusive 0) \<noteq> []"
  "assigned_with_files (path_selector_new two_agents 1 2 Exclusive 0) \<noteq> []"
  by code_simp+

lemma selected_files_exist_and_are_exclusive_witness:
  "fst (select_file first_rng (path_selector_new two_agents 0 2 Exclusive 0) ())
     \<noteq> fst (select_file first_rng (path_selector_new two_agents 1 2 Exclusive 0) ())"
  using selected_files_exist_and_are_exclusive
      [OF sample_tree_new sample_mask_ok _ first_rng_ok two_agents_def _ _ refl refl, of 0 1]
    two_agents_assigned
  by (simp add: sample_tree_config_def)

text \<open>
  The selector of a workload run is built for agent 0 on every agent. With the exclusive strategy
  all agents select from the directories of agent 0 (if one of them has files), and no file of a
  directory assigned to another agent is ever selected.
\<close>

lemma exclusive_runs_share_agent_zero:
  assumes "tree_new c = Inr t" "mask_ok (dir_mask c)" "0 < files_per_dir c" "thread_rng_ok g"
    and "distributed cfg = Some dc" "path_selection dc = Exclusive" "n = length (agents dc)" "0 < n"
    and "m = assign_agents n (from_tree t)" "assigned_with_files (run_selector cfg m) \<noteq> []"
  shows "\<exists>d i. fst (select_file g (run_selector cfg m) r) = d @ ''/'' @ get_file_name i
    \<and> d \<in> set (get_agent_dirs m 0) \<and> (\<forall>a. 0 < a \<longrightarrow> d \<notin> set (get_agent_dirs m a))"
proof -
  let ?s = "run_selector cfg m"
  have fields: "ps_manifest ?s = m" "ps_agent_id ?s = 0" "ps_strategy ?s = Exclusive"
    using assms(5,6) by (simp_all add: run_selector_def path_selector_new_def)
  define d where "d = fst (select_directory_with_files g ?s r)"
  have d: "d \<in> set (get_agent_dirs m 0) \<inter> set (dirs_with_files ?s)"
    using exclusive_directory [OF assms(4) fields(3) assms(10), of r] fields by (simp add: d_def agent_dirs_def)
  obtain i where "fst (select_file g ?s r) = d @ ''/'' @ get_file_name i"
    using selected_file [OF assms(1-4) _ d_def [symmetric], of n] d fields assms(9) by auto
  moreover have "distinct (all_directories (from_tree t))"
    by (rule tree_dirs_distinct [OF assms(1,2)])
  then have "d \<notin> set (get_agent_dirs m a)" if "0 < a" for a
    using agent_dirs_disjoint [OF _ assms(8), of "from_tree t" d 0 a] d assms(9) that by auto
  ultimately show ?thesis using d by blast
qed

definition exclusive_run :: Config where
  "exclusive_run = (sample_config ''s3://b/'')\<lparr>distributed := Some (default_distributed\<lparr>
     agents := replicate 2 \<lparr> address = ''h'', ac_id = None, target_override = None,
       concurrency_override = None, ac_path_template = None, listen_port = 1, ac_multi_endpoint = None,
       ac_kv_cache_dir = None \<rparr>, path_selection := Exclusive\<rparr>)\<rparr>"

lemma exclusive_runs_share_agent_zero_witness:
  "\<exists>d i. fst (select_file first_rng (run_selector exclusive_run two_agents) ()) = d @ ''/'' @ get_file_name i
     \<and> d \<in> set (get_agent_dirs two_agents 0) \<and> d \<notin> set (get_agent_dirs two_agents 1)"
proof -
  have sel: "assigned_with_files (run_selector exclusive_run two_agents) \<noteq> []"
    using two_agents_assigned(1)
    by (simp add: run_selector_def exclusive_run_def assigned_with_files_def agent_dirs_def path_selector_new_def)
  have "\<exists>d i. fst (select_file first_rng (run_selector exclusive_run two_agents) ()) = d @ ''/'' @ get_file_name i
     \<and> d \<in> set (get_agent_dirs two_agents 0) \<and> (\<forall>a. 0 < a \<longrightarrow> d \<notin> set (get_agent_dirs two_agents a))"
    by (rule exclusive_runs_share_agent_zero
        [OF sample_tree_new sample_mask_ok _ first_rng_ok _ _ _ _ two_agents_def sel])
      (auto simp: sample_tree_config_def exclusive_run_def)
  then show ?thesis by (meson zero_less_one)
qed

text \<open>
  The agents of a tree creation put exactly the files that are missing, each by one agent.
\<close>

lemma tree_files_created_once:
  assumes "tree_new c = Inr t" "mask_ok (dir_mask c)" "0 < n" "m = assign_agents n (from_tree t)"
  shows "mset (concat (map (\<lambda>a. agent_missing_files listing base m a n) [0..<n]))
    = mset (map (join_key base) (missing_files listing base m))"
proof (cases "files_per_dir c = 0")
  case True
  then have "total_files m = 0" "tm_files_per_dir m = 0"
    using from_tree_fields(2,6) [OF assms(1,2)] assms(4) by simp_all
  then show ?thesis by (simp add: agent_missing_files_def missing_files_def files_of_dirs_def comp_def map_replicate_const)
next
  case False
  define path where "path i = file_dirs c ! (i div files_per_dir c) @ ''/'' @ get_file_name i" for i
  let ?all = "[0..<total_files m]" and ?gone = "\<lambda>p. p \<notin> set (existing_files listing base m)"
  have dirs: "map fst (file_ranges m) = file_dirs c"
    using tree_file_dirs(1) [OF assms(1,2)] False assms(4) by simp
  have tot: "total_files m = length (file_dirs c) * files_per_dir c"
    using from_tree_fields(6) [OF assms(1,2)] assms(4) by simp
  have "get_file_path m i = Some (path i)" if "i < total_files m" for i
    using file_dirs_nth(2) [OF assms(1,2), of i] that assms(4) by (simp add: path_def)
  then have "List.map_filter (get_file_path m) ?all = map path ?all"
    by (simp add: List.map_filter_def)
  then have missing: "missing_files listing base m = map path (filter (\<lambda>i. ?gone (path i)) ?all)"
    by (simp add: missing_files_def filter_map comp_def)
  have tm: "tm_files_per_dir m = files_per_dir c" using from_tree_fields(2) [OF assms(1,2)] assms(4) by simp
  have files: "files_of_dirs m = map (\<lambda>i. (i, file_dirs c ! (i div files_per_dir c))) ?all"
    unfolding files_of_dirs_def Let_def dirs tm tot ..
  have ins: "path i \<in> set (missing_files listing base m) \<longleftrightarrow> ?gone (path i)" if "i < total_files m" for i
    using that missing by auto
  have mine: "agent_missing_files listing base m a n =
      map (\<lambda>i. join_key base (path i)) (filter (\<lambda>i. assigned_agent n i = a) (filter (\<lambda>i. ?gone (path i)) ?all))" for a
  proof -
    have "filter (\<lambda>i. path i \<in> set (missing_files listing base m) \<and> assigned_agent n i = a) ?all
        = filter (\<lambda>i. ?gone (path i) \<and> assigned_agent n i = a) ?all"
      using ins by (intro filter_cong) auto
    then show ?thesis
      by (simp add: agent_missing_files_def files filter_map comp_def path_def join_key_def)
  qed
  have "concat (map (\<lambda>a. agent_missing_files listing base m a n) [0..<n])
      = map (\<lambda>i. join_key base (path i))
          (concat (map (\<lambda>a. filter (\<lambda>i. assigned_agent n i = a) (filter (\<lambda>i. ?gone (path i)) ?all)) [0..<n]))"
    by (simp only: mine map_concat map_map comp_def)
  then have "mset (concat (map (\<lambda>a. agent_missing_files listing base m a n) [0..<n]))
      = image_mset (\<lambda>i. join_key base (path i)) (mset (filter (\<lambda>i. ?gone (path i)) ?all))"
    by (simp only: mset_map agent_shard.shards_mset [OF assms(3)])
  then show ?thesis by (simp only: missing mset_map image_mset.compositionality comp_def)
qed

lemma tree_files_created_once_witness:
  "mset (concat (map (\<lambda>a. agent_missing_files (\<lambda>_. Inr []) ''s3://b'' two_agents a 2) [0..<2]))
    = mset (map (join_key ''s3://b'') (missing_files (\<lambda>_. Inr []) ''s3://b'' two_agents))"
  by (rule tree_files_created_once [OF sample_tree_new sample_mask_ok _ two_agents_def]) simp

end
