(* ===== verification/Workload_Targets.thy ===== *)
theory Workload_Targets
  imports Path_Selection
begin

text \<open>
  What the operations of a workload act on (\<open>src/workload.rs\<close>): backends and URIs, the two object
  pools of mixed workloads, the resolution of patterns to the objects they name, and the stores
  that are created before the workers start. Opening and listing a store are arguments. The regular
  expressions the source builds are those of glob patterns, whose matching is defined here directly.
\<close>

subsection \<open>Backends and URIs\<close>

datatype BackendType = S3 | Azure | Gcs | FileBackend | DirectIO

definition backend_of_uri :: "string \<Rightarrow> BackendType" where
  "backend_of_uri uri =
     (if starts_with uri ''s3://'' then S3
      else if starts_with uri ''az://'' \<or> starts_with uri ''azure://'' then Azure
      else if starts_with uri ''gs://'' \<or> starts_with uri ''gcs://'' then Gcs
      else if starts_with uri ''file://'' then FileBackend
      else if starts_with uri ''direct://'' then DirectIO
      else FileBackend)"

definition backend_name :: "BackendType \<Rightarrow> string" where
  "backend_name b =
     (case b of S3 \<Rightarrow> ''S3'' | Azure \<Rightarrow> ''Azure Blob'' | Gcs \<Rightarrow> ''Google Cloud Storage''
      | FileBackend \<Rightarrow> ''Local File'' | DirectIO \<Rightarrow> ''Direct I/O'')"

definition build_full_uri :: "BackendType \<Rightarrow> string \<Rightarrow> string \<Rightarrow> string" where
  "build_full_uri b base key =
     (if b \<in> {S3, Gcs, Azure} then join_key base key
      else
        (let path = (case strip_prefix ''file://'' base of
                       Some p \<Rightarrow> p
                     | None \<Rightarrow> (case strip_prefix ''direct://'' base of Some p \<Rightarrow> p | None \<Rightarrow> base));
             scheme = (if b = DirectIO then ''direct://'' else ''file://'')
         in scheme @ join_key path key))"

definition extract_base_uri :: "string \<Rightarrow> string" where
  "extract_base_uri uri =
     (case find_sub ''://'' uri of
        None \<Rightarrow> uri
      | Some i \<Rightarrow> take (i + 3) uri @ takeWhile (\<lambda>c. c \<noteq> CHR ''/'') (drop (i + 3) uri))"

subsection \<open>Pools\<close>

text \<open>\<open>str::replace\<close>: every occurrence, from the left.\<close>

function replace_all :: "string \<Rightarrow> string \<Rightarrow> string \<Rightarrow> string" where
  "replace_all p r s =
     (case find_sub p s of
        None \<Rightarrow> s
      | Some i \<Rightarrow> if p = [] then s else take i s @ r @ replace_all p r (drop (i + length p) s))"
  by pat_completeness auto
termination
proof (relation "measure (\<lambda>(p, r, s). length s)", goal_cases)
  case (2 p r s i)
  then show ?case using find_sub_Some [of p s i] by (cases p) auto
qed simp

declare replace_all.simps [simp del]

definition rewrite_pattern_for_pool :: "string \<Rightarrow> bool \<Rightarrow> bool \<Rightarrow> string" where
  "rewrite_pattern_for_pool pattern is_delete separate =
     (if separate \<and> str_contains pattern ''prepared-'' \<and> is_delete
      then replace_all ''prepared-'' ''deletable-'' pattern else pattern)"

subsection \<open>Globs\<close>

text \<open>
  The regular expression of a glob: every character stands for itself, except that a star stands for
  any characters but a line break.
\<close>

fun glob_match :: "string \<Rightarrow> string \<Rightarrow> bool" where
  "glob_match [] s = (s = [])"
| "glob_match (p # ps) [] = (p = CHR ''*'' \<and> glob_match ps [])"
| "glob_match (p # ps) (c # cs) =
     (if p = CHR ''*'' then glob_match ps (c # cs) \<or> (c \<noteq> CHR 0x0A \<and> glob_match (p # ps) cs)
      else c = p \<and> glob_match ps cs)"

text \<open>Found anywhere in the text, as without anchors.\<close>

definition glob_found :: "string \<Rightarrow> string \<Rightarrow> bool" where
  "glob_found p s = list_ex (\<lambda>i. list_ex (\<lambda>n. glob_match p (take n (drop i s))) [0..<length s + 1]) [0..<length s + 1]"

definition up_to_slash :: "string \<Rightarrow> string" where
  "up_to_slash s = rev (dropWhile (\<lambda>c. c \<noteq> CHR ''/'') (rev s))"

definition glob_list_params :: "string \<Rightarrow> string \<times> bool" where
  "glob_list_params uri =
     (let before = takeWhile (\<lambda>c. c \<noteq> CHR ''*'') uri
      in (up_to_slash before, CHR ''/'' \<in> set (drop (length before) uri)))"

definition normalize_scheme_for_matching :: "string \<Rightarrow> string" where
  "normalize_scheme_for_matching uri =
     (case find_sub ''://'' uri of Some i \<Rightarrow> ''file://'' @ drop (i + 3) uri | None \<Rightarrow> ''file://'' @ uri)"

definition prefetch_uris_multi_backend ::
  "(string \<Rightarrow> string + unit) \<Rightarrow> (string \<Rightarrow> bool \<Rightarrow> string + string list) \<Rightarrow> string \<Rightarrow> string + string list" where
  "prefetch_uris_multi_backend open_store ls base =
     bind_result (open_store base) (\<lambda>_.
       if CHR ''*'' \<in> set base
       then (let (list_prefix, rec) = glob_list_params base
             in bind_result (ls list_prefix rec) (\<lambda>us.
                  Inr (filter (\<lambda>u. glob_match (normalize_scheme_for_matching base) (normalize_scheme_for_matching u)) us)))
       else if ends_with base ''/'' then ls base False
       else Inr [base])"

definition prefetch_uris_multi_endpoint ::
  "(string \<Rightarrow> bool \<Rightarrow> string + string list) \<Rightarrow> string \<Rightarrow> string + string list" where
  "prefetch_uris_multi_endpoint ls base =
     (if CHR ''*'' \<in> set base
      then (let (list_prefix, rec) = glob_list_params base
            in bind_result (ls list_prefix rec) (\<lambda>us.
                 Inr (filter (glob_found (last (split_on (CHR ''/'') base))) us)))
      else if ends_with base ''/'' then ls base False
      else Inr [base])"

subsection \<open>Resolving the patterns of a workload\<close>

type_synonym UriSource = "string \<times> string list"

record PreResolved =
  get_lists :: "UriSource list"
  delete_lists :: "UriSource list"
  stat_lists :: "UriSource list"

definition PreResolved_default :: PreResolved where
  "PreResolved_default = \<lparr> get_lists = [], delete_lists = [], stat_lists = [] \<rparr>"

definition get_for_uri :: "PreResolved \<Rightarrow> string \<Rightarrow> UriSource option" where
  "get_for_uri pre uri = find (\<lambda>g. fst g = uri) (get_lists pre)"

definition delete_for_uri :: "PreResolved \<Rightarrow> string \<Rightarrow> UriSource option" where
  "delete_for_uri pre uri = find (\<lambda>g. fst g = uri) (delete_lists pre)"

definition stat_for_uri :: "PreResolved \<Rightarrow> string \<Rightarrow> UriSource option" where
  "stat_for_uri pre uri = find (\<lambda>g. fst g = uri) (stat_lists pre)"

definition push_source :: "OpSpec \<Rightarrow> UriSource \<Rightarrow> PreResolved \<Rightarrow> PreResolved" where
  "push_source op src pre =
     (case op of
        Get _ \<Rightarrow> pre\<lparr>get_lists := get_lists pre @ [src]\<rparr>
      | Delete _ \<Rightarrow> pre\<lparr>delete_lists := delete_lists pre @ [src]\<rparr>
      | Stat _ \<Rightarrow> pre\<lparr>stat_lists := stat_lists pre @ [src]\<rparr>
      | _ \<Rightarrow> pre)"

text \<open>The pattern of an operation that needs resolution, with its name in messages.\<close>

definition op_pattern :: "Config \<Rightarrow> bool \<Rightarrow> OpSpec \<Rightarrow> (string \<times> string) option" where
  "op_pattern cfg separate op =
     (case op of
        Get p \<Rightarrow> Some (''GET'', rewrite_pattern_for_pool (resolve_uri cfg p) False separate)
      | Delete p \<Rightarrow> Some (''DELETE'', rewrite_pattern_for_pool (resolve_uri cfg p) True separate)
      | Stat p \<Rightarrow> Some (''STAT'', rewrite_pattern_for_pool (resolve_uri cfg p) False separate)
      | _ \<Rightarrow> None)"

fun pre_resolve ::
  "(string \<Rightarrow> string + string list) \<Rightarrow> Config \<Rightarrow> bool \<Rightarrow> WeightedOp list \<Rightarrow> PreResolved \<Rightarrow> string + PreResolved" where
  "pre_resolve resolve cfg separate [] pre = Inr pre"
| "pre_resolve resolve cfg separate (w # ws) pre =
     (case op_pattern cfg separate (spec w) of
        None \<Rightarrow> pre_resolve resolve cfg separate ws pre
      | Some (what, uri) \<Rightarrow>
          (case resolve uri of
             Inl e \<Rightarrow> Inl (''Failed to resolve '' @ what @ '' pattern '' @ uri @ '': '' @ e)
           | Inr [] \<Rightarrow> Inl (''No URIs found for '' @ what @ '' pattern: '' @ uri)
           | Inr us \<Rightarrow> pre_resolve resolve cfg separate ws (push_source (spec w) (uri, us) pre)))"

definition needs_pools :: "WeightedOp list \<Rightarrow> bool" where
  "needs_pools ws = (let (has_delete, has_readonly) = detect_pool_requirements ws in has_delete \<and> has_readonly)"

text \<open>\<open>multi\<close> is the multi-endpoint store for the resolution, when one is configured and was made.\<close>

definition resolve_pattern ::
  "(string \<Rightarrow> string + unit) \<Rightarrow> (string \<Rightarrow> bool \<Rightarrow> string + string list)
    \<Rightarrow> (string \<Rightarrow> bool \<Rightarrow> string + string list) option \<Rightarrow> Config \<Rightarrow> string \<Rightarrow> string + string list" where
  "resolve_pattern open_store ls multi cfg uri =
     (case (multi_endpoint cfg, multi) of
        (Some _, Some mls) \<Rightarrow> prefetch_uris_multi_endpoint mls uri
      | _ \<Rightarrow> prefetch_uris_multi_backend open_store ls uri)"

definition resolve_workload ::
  "(string \<Rightarrow> string + string list) \<Rightarrow> Config \<Rightarrow> TreeManifest option \<Rightarrow> string + PreResolved" where
  "resolve_workload resolve cfg tree =
     (case tree of
        Some _ \<Rightarrow> Inr PreResolved_default
      | None \<Rightarrow> pre_resolve resolve cfg (needs_pools (workload cfg)) (workload cfg) PreResolved_default)"

subsection \<open>Stores\<close>

definition MULTI_EP_STORE_KEY :: string where "MULTI_EP_STORE_KEY = ''__multi_endpoint_store__''"

text \<open>The bases of the PUT operations; \<open>None\<close> where one has no size and its lookup panics.\<close>

fun put_bases :: "Config \<Rightarrow> WeightedOp list \<Rightarrow> string list option" where
  "put_bases cfg [] = Some []"
| "put_bases cfg (w # ws) =
     (case spec w of
        Put _ _ _ _ _ \<Rightarrow>
          (if multi_endpoint cfg \<noteq> None then put_bases cfg ws
           else case get_put_size_spec cfg (spec w) of
             None \<Rightarrow> None
           | Some (uri, _) \<Rightarrow> map_option ((#) (extract_base_uri uri)) (put_bases cfg ws))
      | _ \<Rightarrow> put_bases cfg ws)"

definition tree_bases :: "Config \<Rightarrow> TreeManifest option \<Rightarrow> string list" where
  "tree_bases cfg tree =
     (if tree = None then []
      else (case target cfg of Some t \<Rightarrow> [extract_base_uri t] | None \<Rightarrow> [])
         @ (case multi_endpoint cfg of Some me \<Rightarrow> map extract_base_uri (endpoints me) | None \<Rightarrow> []))"

definition store_keys :: "Config \<Rightarrow> TreeManifest option \<Rightarrow> PreResolved \<Rightarrow> string list option" where
  "store_keys cfg tree pre =
     map_option (\<lambda>puts.
       remdups (map extract_base_uri (concat (map snd (get_lists pre @ delete_lists pre @ stat_lists pre)))
         @ tree_bases cfg tree @ puts)
       @ (if multi_endpoint cfg \<noteq> None then [MULTI_EP_STORE_KEY] else []))
     (put_bases cfg (workload cfg))"

definition get_cached_store :: "string list \<Rightarrow> bool \<Rightarrow> string \<Rightarrow> string + string" where
  "get_cached_store keys use_multi uri =
     (if use_multi
      then if MULTI_EP_STORE_KEY \<in> set keys then Inr MULTI_EP_STORE_KEY
           else Inl ''multi_endpoint: block present but MultiEndpointStore was not pre-created''
      else if extract_base_uri uri \<in> set keys then Inr (extract_base_uri uri)
      else Inl (''Store not found for base URI: '' @ extract_base_uri uri @ '' (from '' @ uri @ '')''))"

definition create_multi_endpoint_store :: "(string list \<Rightarrow> string + unit) \<Rightarrow> MultiEndpointConfig \<Rightarrow> string + unit" where
  "create_multi_endpoint_store make_multi me =
     (if endpoints me = [] then Inl ''multi_endpoint.endpoints cannot be empty''
      else if to_lowercase (strategy me) \<in> {''round_robin'', ''roundrobin'', ''least_connections'', ''leastconnections''}
      then make_multi (endpoints me)
      else Inl (''Invalid load_balance_strategy '' @ strategy me))"

fun open_all_stores :: "(string \<Rightarrow> string + unit) \<Rightarrow> string list \<Rightarrow> string + unit" where
  "open_all_stores open_store [] = Inr ()"
| "open_all_stores open_store (k # ks) = bind_result (open_store k) (\<lambda>_. open_all_stores open_store ks)"

text \<open>The stores of a run: their keys, or an error. The keys' order is that of a hash set, and open.\<close>

definition create_stores ::
  "(string \<Rightarrow> string + unit) \<Rightarrow> (string list \<Rightarrow> string + unit) \<Rightarrow> Config \<Rightarrow> TreeManifest option \<Rightarrow> PreResolved
    \<Rightarrow> (string + string list) option" where
  "create_stores open_store make_multi cfg tree pre =
     map_option (\<lambda>keys.
       bind_result (open_all_stores open_store (removeAll MULTI_EP_STORE_KEY keys)) (\<lambda>_.
       bind_result (case multi_endpoint cfg of Some me \<Rightarrow> create_multi_endpoint_store make_multi me | None \<Rightarrow> Inr ()) (\<lambda>_.
       Inr keys)))
     (store_keys cfg tree pre)"

subsection \<open>Globs: the texts they match\<close>

text \<open>The texts of a glob are obtained by filling its stars.\<close>

fun fill_stars :: "string \<Rightarrow> string list \<Rightarrow> string" where
  "fill_stars [] fs = []"
| "fill_stars (p # ps) fs =
     (if p = CHR ''*'' then hd fs @ fill_stars ps (tl fs) else p # fill_stars ps fs)"

definition stars :: "string \<Rightarrow> nat" where "stars p = length (filter (\<lambda>c. c = CHR ''*'') p)"

definition glob_text :: "string \<Rightarrow> string \<Rightarrow> bool" where
  "glob_text p s = (\<exists>fs. length fs = stars p \<and> (\<forall>f\<in>set fs. CHR 0x0A \<notin> set f) \<and> s = fill_stars p fs)"

lemma glob_match_star:
  "glob_match (CHR ''*'' # ps) s \<longleftrightarrow> (\<exists>f t. s = f @ t \<and> CHR 0x0A \<notin> set f \<and> glob_match ps t)"
proof (induction s)
  case (Cons c s)
  have "(\<exists>f t. c # s = f @ t \<and> CHR 0x0A \<notin> set f \<and> glob_match ps t) \<longleftrightarrow>
      glob_match ps (c # s) \<or> c \<noteq> CHR 0x0A \<and> (\<exists>f t. s = f @ t \<and> CHR 0x0A \<notin> set f \<and> glob_match ps t)"
    (is "?l = ?r")
  proof
    assume ?l
    then obtain f t where "c # s = f @ t" "CHR 0x0A \<notin> set f" "glob_match ps t" by blast
    then show ?r by (cases f) auto
  next
    assume ?r
    then show ?l by (metis append_Cons append_Nil empty_iff empty_set set_ConsD)
  qed
  then show ?case using Cons.IH by simp
qed auto

lemma glob_match_text: "glob_match p s \<longleftrightarrow> glob_text p s"
proof (induction p arbitrary: s)
  case Nil
  then show ?case by (simp add: glob_text_def stars_def)
next
  case (Cons c p)
  show ?case
  proof (cases "c = CHR ''*''")
    case True
    have "glob_text (CHR ''*'' # p) s \<longleftrightarrow> (\<exists>f t. s = f @ t \<and> CHR 0x0A \<notin> set f \<and> glob_text p t)" (is "?l = ?r")
    proof
      assume ?l
      then obtain fs where "length fs = Suc (stars p)" "\<forall>f\<in>set fs. CHR 0x0A \<notin> set f"
        "s = fill_stars (CHR ''*'' # p) fs"
        by (auto simp: glob_text_def stars_def)
      then show ?r by (cases fs) (auto simp: glob_text_def)
    next
      assume ?r
      then obtain f fs where "s = f @ fill_stars p fs" "CHR 0x0A \<notin> set f" "length fs = stars p"
        "\<forall>f\<in>set fs. CHR 0x0A \<notin> set f"
        by (auto simp: glob_text_def)
      then show ?l unfolding glob_text_def by (intro exI [of _ "f # fs"]) (auto simp: stars_def)
    qed
    then show ?thesis using True Cons.IH by (simp only: glob_match_star)
  next
    case False
    then have "glob_text (c # p) s \<longleftrightarrow> (\<exists>t. s = c # t \<and> glob_text p t)" by (auto simp: glob_text_def stars_def)
    then show ?thesis using False Cons.IH by (cases s) auto
  qed
qed

lemma glob_match_literal:
  "CHR ''*'' \<notin> set l \<Longrightarrow> glob_match (l @ p) s \<longleftrightarrow> (\<exists>t. s = l @ t \<and> glob_match p t)"
proof (induction l arbitrary: s)
  case (Cons c l)
  then show ?case by (cases s) auto
qed simp

lemma glob_match_append: "glob_match (x @ y) s \<longleftrightarrow> (\<exists>a b. s = a @ b \<and> glob_match x a \<and> glob_match y b)"
proof (induction x arbitrary: s)
  case (Cons c x)
  show ?case
  proof (cases "c = CHR ''*''")
    case True
    have "(\<exists>f t. s = f @ t \<and> CHR 0x0A \<notin> set f \<and> (\<exists>a b. t = a @ b \<and> glob_match x a \<and> glob_match y b)) \<longleftrightarrow>
        (\<exists>a b. s = a @ b \<and> (\<exists>f t. a = f @ t \<and> CHR 0x0A \<notin> set f \<and> glob_match x t) \<and> glob_match y b)"
      (is "?l = ?r")
    proof
      assume ?l
      then obtain f a b where "s = (f @ a) @ b" "CHR 0x0A \<notin> set f" "glob_match x a" "glob_match y b" by auto
      then show ?r by blast
    next
      assume ?r
      then obtain f t b where "s = f @ (t @ b)" "CHR 0x0A \<notin> set f" "glob_match x t" "glob_match y b" by auto
      then show ?l by blast
    qed
    then show ?thesis using True by (simp only: append_Cons glob_match_star Cons.IH)
  next
    case False
    have one: "glob_match (c # x) a \<longleftrightarrow> (\<exists>a'. a = c # a' \<and> glob_match x a')" for a
      using False by (cases a) auto
    have all: "glob_match ((c # x) @ y) s \<longleftrightarrow> (\<exists>s'. s = c # s' \<and> glob_match (x @ y) s')"
      using False by (cases s) auto
    have "glob_match ((c # x) @ y) s \<longleftrightarrow> (\<exists>a b. s = c # (a @ b) \<and> glob_match x a \<and> glob_match y b)"
      unfolding all Cons.IH by blast
    also have "\<dots> \<longleftrightarrow> (\<exists>a b. s = a @ b \<and> glob_match (c # x) a \<and> glob_match y b)"
      unfolding one by (metis append_Cons)
    finally show ?thesis .
  qed
qed simp

lemma last_split_suffix: "\<exists>q. s = q @ last (split_on c s)"
proof (induction s)
  case (Cons x s)
  obtain w ws where w: "split_on c s = w # ws" by (cases "split_on c s") simp_all
  show ?case
  proof (cases "x \<noteq> c \<and> ws = []")
    case True
    then have "s = w" using join_split [of c s] w by simp
    then show ?thesis using True w by simp
  next
    case False
    then have "last (split_on c (x # s)) = last (split_on c s)" using w by auto
    then show ?thesis using Cons.IH by (metis append_Cons)
  qed
qed simp

lemma glob_found_append: "glob_match p b \<Longrightarrow> glob_found p (a @ b @ c)"
  unfolding glob_found_def list_ex_iff
  by (rule bexI [of _ "length a"], rule bexI [of _ "length b"]) simp_all

lemma find_sub_first: "x \<notin> set a \<Longrightarrow> find_sub (x # p) (a @ x # p @ r) = Some (length a)"
  by (induction a) (auto simp: starts_with_def)

lemma normalize_with_scheme:
  "CHR '':'' \<notin> set sc \<Longrightarrow> normalize_scheme_for_matching (sc @ ''://'' @ q) = ''file://'' @ q"
  using find_sub_first [of "CHR '':''" sc "''//''" q] by (simp add: normalize_scheme_for_matching_def)

lemma up_to_slash_prefix: "\<exists>r. s = up_to_slash s @ r \<and> CHR ''/'' \<notin> set r"
proof (intro exI conjI)
  let ?r = "rev (takeWhile (\<lambda>c. c \<noteq> CHR ''/'') (rev s))"
  have "rev (rev s) = up_to_slash s @ ?r"
    unfolding up_to_slash_def by (simp only: rev_append [symmetric] takeWhile_dropWhile_id)
  then show "s = up_to_slash s @ ?r" by simp
  show "CHR ''/'' \<notin> set ?r" using set_takeWhileD by fastforce
qed

text \<open>The prefix that is listed is free of stars, ends a directory, and every match starts with it.\<close>

lemma glob_list_prefix:
  assumes "glob_list_params p = (l, rec)"
  shows "CHR ''*'' \<notin> set l" and "\<exists>r. p = l @ r" and "glob_match p s \<Longrightarrow> starts_with s l"
proof -
  let ?b = "takeWhile (\<lambda>c. c \<noteq> CHR ''*'') p"
  obtain r where r: "?b = l @ r" using assms up_to_slash_prefix [of ?b] by (auto simp: glob_list_params_def Let_def)
  have p: "p = l @ r @ dropWhile (\<lambda>c. c \<noteq> CHR ''*'') p"
    using takeWhile_dropWhile_id [of "\<lambda>c. c \<noteq> CHR ''*''" p] r by simp
  have "set l \<subseteq> set ?b" unfolding r by simp
  then show star: "CHR ''*'' \<notin> set l" using set_takeWhileD by fastforce
  show "\<exists>r. p = l @ r" using p by blast
  obtain q where q: "p = l @ q" using p by blast
  show "starts_with s l" if "glob_match p s"
    using that glob_match_literal [OF star, of q s] by (auto simp: q)
qed

subsection \<open>Properties\<close>

text \<open>
  A store with the objects \<open>objs\<close>: a listing returns the objects below a prefix, or only those in
  the directory it names.
\<close>

definition lists_objects :: "string set \<Rightarrow> (string \<Rightarrow> bool \<Rightarrow> string + string list) \<Rightarrow> bool" where
  "lists_objects objs ls = (\<forall>l rec. \<exists>us. ls l rec = Inr us
     \<and> set us = {u \<in> objs. starts_with u l \<and> (rec \<or> CHR ''/'' \<notin> set (drop (length l) u))})"

text \<open>
  Resolving a glob finds exactly the objects whose name fills its stars, except that a glob with
  stars in the last path component only does not look into subdirectories.
\<close>

lemma glob_resolution_exact:
  assumes "lists_objects objs ls" "open_store p = Inr ()" "CHR ''*'' \<in> set p"
    and "p = sc @ ''://'' @ path" "CHR '':'' \<notin> set sc" "CHR ''*'' \<notin> set sc"
    and "\<forall>u\<in>objs. \<exists>q. u = sc @ ''://'' @ q" "glob_list_params p = (l, rec)"
  shows "\<exists>us. prefetch_uris_multi_backend open_store ls p = Inr us
    \<and> set us = {u \<in> objs. glob_text p u \<and> (rec \<or> CHR ''/'' \<notin> set (drop (length l) u))}"
proof -
  obtain us where us: "ls l rec = Inr us"
    "set us = {u \<in> objs. starts_with u l \<and> (rec \<or> CHR ''/'' \<notin> set (drop (length l) u))}"
    using assms(1) unfolding lists_objects_def by blast
  let ?hit = "\<lambda>u. glob_match (normalize_scheme_for_matching p) (normalize_scheme_for_matching u)"
  have hit: "?hit u \<longleftrightarrow> glob_match p u" if u: "u \<in> objs" for u
  proof -
    obtain q where q: "u = sc @ ''://'' @ q" using assms(7) u by blast
    have "glob_match p u \<longleftrightarrow> glob_match path q"
      using glob_match_literal [of "sc @ ''://''" path u] assms(4,6) q by auto
    moreover have "?hit u \<longleftrightarrow> glob_match path q"
      using glob_match_literal [of "''file://''" path "''file://'' @ q"] normalize_with_scheme [OF assms(5)]
        assms(4) q by simp
    ultimately show ?thesis by simp
  qed
  have "prefetch_uris_multi_backend open_store ls p = Inr (filter ?hit us)"
    using assms(2,3,8) us(1) by (simp add: prefetch_uris_multi_backend_def)
  moreover have "set (filter ?hit us) = {u \<in> objs. glob_text p u \<and> (rec \<or> CHR ''/'' \<notin> set (drop (length l) u))}"
    using us(2) hit glob_list_prefix(3) [OF assms(8)] by (auto simp flip: glob_match_text)
  ultimately show ?thesis by blast
qed

text \<open>A directory with two files and a subdirectory.\<close>

definition sample_keys :: "string list" where
  "sample_keys = [''s3://b/d/a.dat'', ''s3://b/d/a.dat.bak'', ''s3://b/d/e/a.dat'']"

definition sample_ls :: "string \<Rightarrow> bool \<Rightarrow> string + string list" where
  "sample_ls l rec = Inr (filter (\<lambda>u. starts_with u l \<and> (rec \<or> CHR ''/'' \<notin> set (drop (length l) u))) sample_keys)"

lemma glob_resolution_exact_witness:
  "\<exists>us. prefetch_uris_multi_backend (\<lambda>_. Inr ()) sample_ls ''s3://b/d/*.dat'' = Inr us
     \<and> set us = {u \<in> set sample_keys. glob_text ''s3://b/d/*.dat'' u \<and> CHR ''/'' \<notin> set (drop 9 u)}"
proof -
  have "lists_objects (set sample_keys) sample_ls" by (auto simp: lists_objects_def sample_ls_def)
  moreover have "glob_list_params ''s3://b/d/*.dat'' = (''s3://b/d/'', False)" by code_simp
  moreover have "\<forall>u\<in>set sample_keys. \<exists>q. u = ''s3'' @ ''://'' @ q" by (simp add: sample_keys_def)
  ultimately have "\<exists>us. prefetch_uris_multi_backend (\<lambda>_. Inr ()) sample_ls ''s3://b/d/*.dat'' = Inr us
     \<and> set us = {u \<in> set sample_keys. glob_text ''s3://b/d/*.dat'' u
          \<and> (False \<or> CHR ''/'' \<notin> set (drop (length ''s3://b/d/'') u))}"
    by (intro glob_resolution_exact [where sc = "''s3''" and path = "''b/d/*.dat''"]) simp_all
  moreover have "length ''s3://b/d/'' = 9" by simp
  ultimately show ?thesis by (simp only: simp_thms)
qed

text \<open>
  The resolution over several endpoints looks for the last component of the pattern anywhere in
  the listed names, without anchors: it finds everything the exact resolution finds, and also names
  that merely contain a match.
\<close>

lemma multi_endpoint_globs_unanchored:
  "(\<forall>p. {s. glob_match p s} \<subseteq> {s. glob_found (last (split_on (CHR ''/'') p)) s})
   \<and> prefetch_uris_multi_endpoint sample_ls ''s3://b/d/*.dat'' = Inr [''s3://b/d/a.dat'', ''s3://b/d/a.dat.bak'']
   \<and> prefetch_uris_multi_backend (\<lambda>_. Inr ()) sample_ls ''s3://b/d/*.dat'' = Inr [''s3://b/d/a.dat'']"
proof (intro conjI allI subsetI, unfold mem_Collect_eq)
  fix p s
  assume m: "glob_match p s"
  obtain q where q: "p = q @ last (split_on (CHR ''/'') p)" using last_split_suffix by blast
  obtain a b where "s = a @ b" "glob_match (last (split_on (CHR ''/'') p)) b"
    using m glob_match_append [of q "last (split_on (CHR ''/'') p)" s] q by auto
  then show "glob_found (last (split_on (CHR ''/'') p)) s" using glob_found_append [of _ b a "[]"] by simp
qed code_simp+

text \<open>
  A workload of LIST operations alone can do none of them: the stores are created for the
  objects of the other operations, and without a tree or several endpoints every LIST fails to find
  its store.
\<close>

lemma list_only_workload_fails:
  assumes "\<forall>w\<in>set (workload cfg). \<exists>p. spec w = List p" "multi_endpoint cfg = None"
    and "resolve_workload resolve cfg None = Inr pre" "create_stores open_store make_multi cfg None pre = Some (Inr keys)"
  shows "keys = [] \<and> (\<forall>u. \<not> is_ok (get_cached_store keys False u))"
proof -
  have "pre_resolve resolve cfg sep ws pr = Inr pr" if "\<forall>w\<in>set ws. \<exists>p. spec w = List p" for sep ws pr
    using that by (induction ws) (auto simp: op_pattern_def)
  then have "pre = PreResolved_default" using assms(1,3) by (simp add: resolve_workload_def)
  moreover have "put_bases cfg ws = Some []" if "\<forall>w\<in>set ws. \<exists>p. spec w = List p" for ws
    using that by (induction ws) auto
  ultimately have "store_keys cfg None pre = Some []"
    using assms(1,2) by (simp add: store_keys_def PreResolved_default_def tree_bases_def)
  then have "keys = []" using assms(2,4) by (simp add: create_stores_def)
  then show ?thesis by (simp add: get_cached_store_def)
qed

definition list_workload :: Config where
  "list_workload = (sample_config ''s3://b/'')\<lparr>workload :=
     [\<lparr> weight = 1, op_concurrency = None, spec = List ''data/'' \<rparr>]\<rparr>"

lemma list_only_workload_fails_witness:
  "resolve_workload (\<lambda>_. Inl ''none'') list_workload None = Inr PreResolved_default
   \<and> \<not> is_ok (get_cached_store [] False ''s3://b/data/'')"
proof -
  have r: "resolve_workload (\<lambda>_. Inl ''none'') list_workload None = Inr PreResolved_default"
    by (simp add: resolve_workload_def list_workload_def op_pattern_def)
  have c: "create_stores (\<lambda>_. Inr ()) (\<lambda>_. Inr ()) list_workload None PreResolved_default = Some (Inr [])"
    by (simp add: create_stores_def store_keys_def list_workload_def sample_config_def PreResolved_default_def tree_bases_def)
  show ?thesis
    using list_only_workload_fails [OF _ _ r c] r by (simp add: list_workload_def sample_config_def)
qed

end
