(* ===== verification/Workload_Run.thy ===== *)
theory Workload_Run
  imports Workload_Targets Rate_Controller
begin

text \<open>
  The execution of a workload (\<open>run\<close> in \<open>src/workload.rs\<close>) with the statistics it collects
  (\<open>src/metrics.rs\<close>): the loop of a worker, one handler per operation, the workers' interleaving on
  the shared lists, error tracker, rate limiter and live counters, and the joining of their results.
  Histograms, random generators, the answers of the stores and the clocks are arguments; durations
  are nanoseconds. A task that waits for a permit that is never given is stuck.
\<close>

subsection \<open>Size buckets and histograms\<close>

definition bucket_index :: "nat \<Rightarrow> nat" where
  "bucket_index n =
     (if n = 0 then 0
      else if n \<le> 8 * 1024 then 1
      else if n \<le> 64 * 1024 then 2
      else if n \<le> 512 * 1024 then 3
      else if n \<le> 4 * 1024 * 1024 then 4
      else if n \<le> 32 * 1024 * 1024 then 5
      else if n \<le> 256 * 1024 * 1024 then 6
      else if n \<le> 2 * 1024 * 1024 * 1024 then 7
      else 8)"

definition NUM_BUCKETS :: nat where "NUM_BUCKETS = 9"

text \<open>The histogram library: bounds, recording and adding (which can be refused), and statistics.\<close>

record 'h hdr =
  h_new :: "nat \<Rightarrow> nat \<Rightarrow> 'h"
  h_record :: "nat \<Rightarrow> 'h \<Rightarrow> 'h option"
  h_add :: "'h \<Rightarrow> 'h \<Rightarrow> 'h option"
  h_mean :: "'h \<Rightarrow> rat"
  h_quantile :: "rat \<Rightarrow> 'h \<Rightarrow> nat"

type_synonym 'h OpHists = "'h list"

definition op_hists_new :: "'h hdr \<Rightarrow> 'h OpHists" where
  "op_hists_new hg = replicate NUM_BUCKETS (h_new hg 1 3600000000)"

definition keep_record :: "'h hdr \<Rightarrow> nat \<Rightarrow> 'h \<Rightarrow> 'h" where
  "keep_record hg v h = (case h_record hg v h of Some h' \<Rightarrow> h' | None \<Rightarrow> h)"

definition keep_add :: "'h hdr \<Rightarrow> 'h \<Rightarrow> 'h \<Rightarrow> 'h" where
  "keep_add hg a b = (case h_add hg a b of Some h \<Rightarrow> h | None \<Rightarrow> a)"

definition hists_record :: "'h hdr \<Rightarrow> nat \<Rightarrow> duration \<Rightarrow> 'h OpHists \<Rightarrow> 'h OpHists" where
  "hists_record hg bucket d hs = hs[bucket := keep_record hg (d div 1000) (hs ! bucket)]"

definition hists_record_nanos :: "'h hdr \<Rightarrow> nat \<Rightarrow> duration \<Rightarrow> 'h OpHists \<Rightarrow> 'h OpHists" where
  "hists_record_nanos hg bucket d hs = hs[bucket := keep_record hg (max d 1) (hs ! bucket)]"

definition hists_merge :: "'h hdr \<Rightarrow> 'h OpHists \<Rightarrow> 'h OpHists \<Rightarrow> 'h OpHists" where
  "hists_merge hg a b = map2 (keep_add hg) a b"

definition combined_histogram :: "'h hdr \<Rightarrow> 'h OpHists \<Rightarrow> 'h" where
  "combined_histogram hg hs = foldl (keep_add hg) (h_new hg 1 3600000000) hs"

type_synonym SizeBins = "(nat, nat \<times> nat) hmap"

definition bins_put :: "nat \<Rightarrow> nat \<times> nat \<Rightarrow> SizeBins \<Rightarrow> SizeBins" where
  "bins_put k e bins =
     (case hget bins k of
        None \<Rightarrow> hput k e bins
      | Some (ops, bytes) \<Rightarrow> hput k (ops + fst e, bytes + snd e) bins)"

definition bins_add :: "nat \<Rightarrow> SizeBins \<Rightarrow> SizeBins" where
  "bins_add size_bytes bins = bins_put (bucket_index size_bytes) (1, size_bytes) bins"

definition bins_merge :: "SizeBins \<Rightarrow> SizeBins \<Rightarrow> SizeBins" where
  "bins_merge bins other = foldl (\<lambda>b (k, e). bins_put k e b) bins other"

subsection \<open>The state\<close>

record 'h WorkerStats =
  hist_get :: "'h OpHists"
  hist_put :: "'h OpHists"
  hist_meta :: "'h OpHists"
  hist_put_setup :: "'h OpHists"
  hist_put_io :: "'h OpHists"
  get_bytes :: nat
  get_ops :: nat
  put_bytes :: nat
  put_ops :: nat
  meta_bytes :: nat
  meta_ops :: nat
  get_bins :: SizeBins
  put_bins :: SizeBins
  meta_bins :: SizeBins

definition worker_stats_new :: "'h hdr \<Rightarrow> 'h WorkerStats" where
  "worker_stats_new hg =
     \<lparr> hist_get = op_hists_new hg, hist_put = op_hists_new hg, hist_meta = op_hists_new hg,
       hist_put_setup = op_hists_new hg, hist_put_io = op_hists_new hg, get_bytes = 0, get_ops = 0,
       put_bytes = 0, put_ops = 0, meta_bytes = 0, meta_ops = 0, get_bins = [], put_bins = [], meta_bins = [] \<rparr>"

text \<open>What all workers share, what one worker owns, and the state of its task.\<close>

record 'd shared =
  sh_pre :: PreResolved
  sh_errors :: ErrorTracker
  sh_rate :: "'d RateController option"
  live_ops :: nat
  live_bytes :: nat

record ('g, 'h) worker =
  w_rng :: 'g
  w_stats :: "'h WorkerStats"
  local_ops :: nat
  local_bytes :: nat

datatype ('g, 'h) task =
    Active "('g, 'h) worker" | Returned "'h WorkerStats" | TaskFailed string | Panicked | Stuck

text \<open>What a run has fixed before its workers start.\<close>

record run_context =
  cx_cfg :: Config
  cx_keys :: "string list"
  cx_selector :: "PathSelector option"
  cx_separate :: bool
  cx_deadline :: nat

record ('g, 'h, 'd, 'r) run_env =
  env_thread :: "'g thread_rng"
  env_u64 :: "'g \<Rightarrow> nat \<times> 'g"
  env_hist :: "'h hdr"
  env_sizes :: "'r rng"
  env_delay :: "'d \<Rightarrow> f64"
  env_tick :: "nat \<Rightarrow> nat \<Rightarrow> nat \<Rightarrow> nat"
  env_open_store :: "string \<Rightarrow> string + unit"

text \<open>
  The answer of a store to one attempt: no answer in time, a refusal, or a length with the times of
  the whole call, of its I/O and of its setup. One iteration of a worker has a clock reading, the
  index of the operation drawn, and per attempt an answer, an instant and a jitter.
\<close>

datatype answer = TimedOut | Refused string | Replied nat duration duration duration

record step_input =
  in_now :: nat
  in_op :: nat
  in_answer :: "nat \<Rightarrow> answer"
  in_clock :: "nat \<Rightarrow> rat"
  in_jitter :: "nat \<Rightarrow> rat"

subsection \<open>Operations on cached stores\<close>

definition DEFAULT_OP_TIMEOUT_SECS :: nat where "DEFAULT_OP_TIMEOUT_SECS = 120"

definition call_store :: "string \<Rightarrow> string \<Rightarrow> string \<Rightarrow> answer \<Rightarrow> string + nat \<times> duration \<times> duration \<times> duration" where
  "call_store what failing uri a =
     (case a of
        TimedOut \<Rightarrow> Inl (what @ '' timed out after '' @ show_nat DEFAULT_OP_TIMEOUT_SECS @ ''s: '' @ uri)
      | Refused e \<Rightarrow> Inl (failing @ uri)
      | Replied n t io setup \<Rightarrow> Inr (n, t, io, setup))"

definition get_object_cached :: "string list \<Rightarrow> bool \<Rightarrow> string \<Rightarrow> answer \<Rightarrow> string + nat \<times> duration \<times> duration \<times> duration" where
  "get_object_cached keys multi uri a =
     bind_result (get_cached_store keys multi uri) (\<lambda>_.
     bind_result (call_store ''GET'' ''Failed to get object from URI: '' uri a) (\<lambda>r.
       if fst r = 0 then Inl (''GET returned empty body (0 bytes): '' @ uri) else Inr r))"

definition put_object_cached :: "string list \<Rightarrow> bool \<Rightarrow> string \<Rightarrow> answer \<Rightarrow> string + nat \<times> duration \<times> duration \<times> duration" where
  "put_object_cached keys multi uri a =
     bind_result (get_cached_store keys multi uri) (\<lambda>_. call_store ''PUT'' ''Failed to put object to URI: '' uri a)"

definition delete_object_cached :: "string list \<Rightarrow> bool \<Rightarrow> string \<Rightarrow> answer \<Rightarrow> string + nat \<times> duration \<times> duration \<times> duration" where
  "delete_object_cached keys multi uri a =
     bind_result (get_cached_store keys multi uri) (\<lambda>_. call_store ''DELETE'' ''Failed to delete object from URI: '' uri a)"

definition list_objects_cached :: "string list \<Rightarrow> bool \<Rightarrow> string \<Rightarrow> answer \<Rightarrow> string + nat \<times> duration \<times> duration \<times> duration" where
  "list_objects_cached keys multi uri a =
     bind_result (get_cached_store keys multi uri) (\<lambda>_. call_store ''LIST'' ''Failed to list objects from URI: '' uri a)"

definition stat_object_cached :: "string list \<Rightarrow> bool \<Rightarrow> string \<Rightarrow> answer \<Rightarrow> string + nat \<times> duration \<times> duration \<times> duration" where
  "stat_object_cached keys multi uri a =
     bind_result (get_cached_store keys multi uri) (\<lambda>_. call_store ''STAT'' ''Failed to stat object from URI: '' uri a)"

text \<open>\<open>mkdir\<close> and \<open>rmdir\<close> open a store of their own and have no timeout.\<close>

definition mkdir_with_config :: "(string \<Rightarrow> string + unit) \<Rightarrow> string \<Rightarrow> answer \<Rightarrow> string + nat \<times> duration \<times> duration \<times> duration" where
  "mkdir_with_config open_store uri a =
     bind_result (open_store uri) (\<lambda>_. call_store ''MKDIR'' ''Failed to create directory at URI: '' uri a)"

definition rmdir_with_config :: "(string \<Rightarrow> string + unit) \<Rightarrow> string \<Rightarrow> answer \<Rightarrow> string + nat \<times> duration \<times> duration \<times> duration" where
  "rmdir_with_config open_store uri a =
     bind_result (open_store uri) (\<lambda>_. call_store ''RMDIR'' ''Failed to remove directory at URI: '' uri a)"

subsection \<open>The target of one operation\<close>

text \<open>\<open>None\<close> is a panic, \<open>Inl\<close> an error that ends the worker.\<close>

definition tree_base :: "Config \<Rightarrow> string \<Rightarrow> (string + string) option" where
  "tree_base cfg file_path =
     (case multi_endpoint cfg of
        Some me \<Rightarrow>
          (if endpoints me = [] then None
           else (let idx = (case extract_file_index_from_path file_path of Some i \<Rightarrow> i | None \<Rightarrow> 0)
                 in Some (Inr (endpoints me ! (idx mod length (endpoints me))))))
      | None \<Rightarrow> Some (case target cfg of Some t \<Rightarrow> Inr t | None \<Rightarrow> Inl ''target required in tree mode''))"

definition tree_target :: "'g thread_rng \<Rightarrow> Config \<Rightarrow> PathSelector \<Rightarrow> 'g \<Rightarrow> (string + string) option \<times> 'g" where
  "tree_target g cfg sel r =
     (let (file_path, r') = select_file g sel r
      in (map_option (\<lambda>b. bind_result b (\<lambda>base. Inr (join_key base file_path))) (tree_base cfg file_path), r'))"

definition directory_target :: "'g thread_rng \<Rightarrow> Config \<Rightarrow> string \<Rightarrow> PathSelector option \<Rightarrow> 'g \<Rightarrow> (string + string) option \<times> 'g" where
  "directory_target g cfg what sel r =
     (case sel of
        None \<Rightarrow> (Some (Inl (what @ '' operation requires directory_structure in prepare config.'')), r)
      | Some s \<Rightarrow>
          (let (d, r') = select_directory g s r
           in (Some (case target cfg of None \<Rightarrow> Inl ''target required in tree mode'' | Some b \<Rightarrow> Inr (join_key b d)), r')))"

definition pick_uri :: "'g thread_rng \<Rightarrow> UriSource \<Rightarrow> 'g \<Rightarrow> (string + string) option \<times> 'g" where
  "pick_uri g src r =
     (if snd src = [] then (None, r) else (let (u, r') = pick_one g (snd src) r in (Some (Inr u), r')))"

definition source_target :: "'g thread_rng \<Rightarrow> (string + string) option \<Rightarrow> UriSource option \<Rightarrow> 'g \<Rightarrow> (string + string) option \<times> 'g" where
  "source_target g missing src r = (case src of None \<Rightarrow> (missing, r) | Some s \<Rightarrow> pick_uri g s r)"

text \<open>The key of a new object: sharded by its number when the prepare configuration says so.\<close>

definition random_key :: "nat \<Rightarrow> nat \<Rightarrow> string" where
  "random_key shards v =
     (if 0 < shards then hex2 (v mod shards) @ ''/obj_'' @ show_nat v else ''obj_'' @ show_nat v)"

text \<open>
  The size of a PUT: fixed, or the first one of a new generator (\<open>SizeGenerator::new\<close>) made for
  this operation. The outcome is the target with the size, as for the targets above.
\<close>

definition put_size :: "'r rng \<Rightarrow> SizeSpec \<Rightarrow> string + nat" where
  "put_size g sp =
     (case as_fixed sp of
        Some n \<Rightarrow> Inr n
      | None \<Rightarrow> bind_result (size_generator_new g sp) (\<lambda>sg. Inr (fst (generate g sg))))"

definition put_target ::
  "('g, 'h, 'd, 'r) run_env \<Rightarrow> Config \<Rightarrow> PathSelector option \<Rightarrow> OpSpec \<Rightarrow> 'g \<Rightarrow> (string + string \<times> nat) option \<times> 'g" where
  "put_target env cfg sel op r =
     (case sel of
        Some s \<Rightarrow>
          (let (file_path, r') = select_file (env_thread env) s r
           in (case get_put_size_spec cfg op of
                 None \<Rightarrow> None
               | Some (_, sp) \<Rightarrow>
                   (case put_size (env_sizes env) sp of
                      Inl e \<Rightarrow> Some (Inl e)
                    | Inr sz \<Rightarrow> map_option (\<lambda>b. bind_result b (\<lambda>base. Inr (join_key base file_path, sz))) (tree_base cfg file_path)),
               r'))
      | None \<Rightarrow>
          (case get_put_size_spec cfg op of
             None \<Rightarrow> (None, r)
           | Some (base, sp) \<Rightarrow>
               (case put_size (env_sizes env) sp of
                  Inl e \<Rightarrow> (Some (Inl e), r)
                | Inr sz \<Rightarrow>
                    (let (v, r') = env_u64 env r;
                         shards = (case prepare cfg of Some p \<Rightarrow> key_prefix_shards p | None \<Rightarrow> 0)
                     in (Some (Inr (join_key base (random_key shards v), sz)), r')))))"

subsection \<open>The effect of a successful operation\<close>

definition FLUSH_INTERVAL :: nat where "FLUSH_INTERVAL = 64"

definition count_locally :: "nat \<Rightarrow> ('g, 'h) worker \<times> 'd shared \<Rightarrow> ('g, 'h) worker \<times> 'd shared" where
  "count_locally bytes wsh =
     (let (w, sh) = wsh; ops = local_ops w + 1; b = local_bytes w + bytes
      in if ops mod FLUSH_INTERVAL = 0
         then (w\<lparr>local_ops := 0, local_bytes := 0\<rparr>,
               sh\<lparr>live_ops := live_ops sh + ops, live_bytes := live_bytes sh + b\<rparr>)
         else (w\<lparr>local_ops := ops, local_bytes := b\<rparr>, sh))"

definition record_get :: "'h hdr \<Rightarrow> nat \<Rightarrow> duration \<Rightarrow> 'h WorkerStats \<Rightarrow> 'h WorkerStats" where
  "record_get hg n d ws =
     ws\<lparr>hist_get := hists_record hg (bucket_index n) d (hist_get ws), get_ops := get_ops ws + 1,
        get_bytes := get_bytes ws + n, get_bins := bins_add n (get_bins ws)\<rparr>"

definition record_put :: "'h hdr \<Rightarrow> nat \<Rightarrow> duration \<Rightarrow> duration \<Rightarrow> duration \<Rightarrow> 'h WorkerStats \<Rightarrow> 'h WorkerStats" where
  "record_put hg n d io setup ws =
     (let b = bucket_index n
      in ws\<lparr>hist_put := hists_record hg b d (hist_put ws),
            hist_put_setup := hists_record_nanos hg b setup (hist_put_setup ws),
            hist_put_io := hists_record hg b io (hist_put_io ws),
            put_ops := put_ops ws + 1, put_bytes := put_bytes ws + n, put_bins := bins_add n (put_bins ws)\<rparr>)"

definition record_meta :: "'h hdr \<Rightarrow> duration \<Rightarrow> 'h WorkerStats \<Rightarrow> 'h WorkerStats" where
  "record_meta hg d ws =
     ws\<lparr>hist_meta := hists_record hg 0 d (hist_meta ws), meta_ops := meta_ops ws + 1,
        meta_bins := bins_add 0 (meta_bins ws)\<rparr>"

text \<open>A new object joins the first GET list whose pattern, as text, is a prefix of its URI.\<close>

fun grow_pool :: "string \<Rightarrow> UriSource list \<Rightarrow> UriSource list" where
  "grow_pool uri [] = []"
| "grow_pool uri (src # srcs) =
     (let base = trim_end_matches (CHR ''/'') (fst src)
      in if starts_with uri (base @ ''/'') \<or> starts_with uri base
         then (fst src, snd src @ [uri]) # srcs else src # grow_pool uri srcs)"

definition add_to_pool :: "Config \<Rightarrow> PathSelector option \<Rightarrow> string \<Rightarrow> PreResolved \<Rightarrow> PreResolved" where
  "add_to_pool cfg sel uri pre =
     (if dynamic_put_pool cfg \<and> sel = None then pre\<lparr>get_lists := grow_pool uri (get_lists pre)\<rparr> else pre)"

subsection \<open>One iteration of a worker\<close>

definition pattern_of :: "run_context \<Rightarrow> OpSpec \<Rightarrow> string" where
  "pattern_of cx op = (case op_pattern (cx_cfg cx) (cx_separate cx) op of Some (_, u) \<Rightarrow> u | None \<Rightarrow> [])"

text \<open>
  \<open>with_target\<close> goes on with the target of an operation; \<open>perform\<close> calls the store under the error
  handling and applies \<open>effect\<close> to the answer of the attempt that succeeded.
\<close>

definition with_target ::
  "(string + 'x) option \<times> 'g \<Rightarrow> ('g, 'h) worker \<Rightarrow> 'd shared \<Rightarrow> ('x \<Rightarrow> ('g, 'h) worker \<Rightarrow> ('g, 'h) task \<times> 'd shared)
    \<Rightarrow> ('g, 'h) task \<times> 'd shared" where
  "with_target tr w sh go =
     (let (target, r) = tr
      in case target of
           None \<Rightarrow> (Panicked, sh)
         | Some (Inl e) \<Rightarrow> (TaskFailed e, sh)
         | Some (Inr x) \<Rightarrow> go x (w\<lparr>w_rng := r\<rparr>))"

definition perform ::
  "(answer \<Rightarrow> string + nat \<times> duration \<times> duration \<times> duration) \<Rightarrow> step_input
    \<Rightarrow> (nat \<times> duration \<times> duration \<times> duration \<Rightarrow> ('g, 'h) worker \<times> 'd shared \<Rightarrow> ('g, 'h) worker \<times> 'd shared)
    \<Rightarrow> ('g, 'h) worker \<Rightarrow> 'd shared \<Rightarrow> ('g, 'h) task \<times> 'd shared" where
  "perform call inp effect w sh =
     (let (r, errs, slept) = execute_with_error_handling (\<lambda>k. call (in_answer inp k))
            (in_clock inp) (in_jitter inp) (sh_errors sh);
          sh' = sh\<lparr>sh_errors := errs\<rparr>
      in case r of
           Inl n \<Rightarrow> (TaskFailed (''Error threshold exceeded: '' @ show_nat n), sh')
         | Inr None \<Rightarrow> (Active w, sh')
         | Inr (Some x) \<Rightarrow> (let (w', sh'') = effect x (w, sh') in (Active w', sh'')))"

definition get_effect ::
  "'h hdr \<Rightarrow> nat \<times> duration \<times> duration \<times> duration \<Rightarrow> ('g, 'h) worker \<times> 'd shared \<Rightarrow> ('g, 'h) worker \<times> 'd shared" where
  "get_effect hg x wsh =
     (let (n, d, io, setup) = x; (w, sh) = wsh
      in count_locally n (w\<lparr>w_stats := record_get hg n d (w_stats w)\<rparr>, sh))"

definition meta_effect ::
  "'h hdr \<Rightarrow> nat \<times> duration \<times> duration \<times> duration \<Rightarrow> ('g, 'h) worker \<times> 'd shared \<Rightarrow> ('g, 'h) worker \<times> 'd shared" where
  "meta_effect hg x wsh =
     (let (n, d, io, setup) = x; (w, sh) = wsh
      in count_locally 0 (w\<lparr>w_stats := record_meta hg d (w_stats w)\<rparr>, sh))"

definition put_effect ::
  "'h hdr \<Rightarrow> run_context \<Rightarrow> string \<Rightarrow> nat \<Rightarrow> nat \<times> duration \<times> duration \<times> duration
    \<Rightarrow> ('g, 'h) worker \<times> 'd shared \<Rightarrow> ('g, 'h) worker \<times> 'd shared" where
  "put_effect hg cx uri sz x wsh =
     (let (n, d, io, setup) = x; (w, sh) = wsh
      in count_locally sz
           (w\<lparr>w_stats := record_put hg sz d io setup (w_stats w)\<rparr>,
            sh\<lparr>sh_pre := add_to_pool (cx_cfg cx) (cx_selector cx) uri (sh_pre sh)\<rparr>))"

definition use_multi_ep :: "run_context \<Rightarrow> bool" where
  "use_multi_ep cx = (multi_endpoint (cx_cfg cx) \<noteq> None)"

text \<open>Where GET, STAT and DELETE find their object: in the tree, or among those of their pattern.\<close>

definition object_target ::
  "('g, 'h, 'd, 'r) run_env \<Rightarrow> run_context \<Rightarrow> (string + string) option \<Rightarrow> UriSource option \<Rightarrow> 'g \<Rightarrow> (string + string) option \<times> 'g" where
  "object_target env cx missing src r =
     (case cx_selector cx of
        Some s \<Rightarrow> tree_target (env_thread env) (cx_cfg cx) s r
      | None \<Rightarrow> source_target (env_thread env) missing src r)"

definition do_get ::
  "('g, 'h, 'd, 'r) run_env \<Rightarrow> run_context \<Rightarrow> step_input \<Rightarrow> OpSpec \<Rightarrow> ('g, 'h) worker \<Rightarrow> 'd shared \<Rightarrow> ('g, 'h) task \<times> 'd shared" where
  "do_get env cx inp op w sh =
     with_target (object_target env cx None (get_for_uri (sh_pre sh) (pattern_of cx op)) (w_rng w)) w sh
       (\<lambda>uri w'. perform (get_object_cached (cx_keys cx) (use_multi_ep cx) uri) inp (get_effect (env_hist env)) w' sh)"

definition do_put ::
  "('g, 'h, 'd, 'r) run_env \<Rightarrow> run_context \<Rightarrow> step_input \<Rightarrow> OpSpec \<Rightarrow> ('g, 'h) worker \<Rightarrow> 'd shared \<Rightarrow> ('g, 'h) task \<times> 'd shared" where
  "do_put env cx inp op w sh =
     with_target (put_target env (cx_cfg cx) (cx_selector cx) op (w_rng w)) w sh
       (\<lambda>(uri, sz) w'. perform (put_object_cached (cx_keys cx) (use_multi_ep cx) uri) inp
                         (put_effect (env_hist env) cx uri sz) w' sh)"

definition do_list ::
  "('g, 'h, 'd, 'r) run_env \<Rightarrow> run_context \<Rightarrow> step_input \<Rightarrow> string \<Rightarrow> ('g, 'h) worker \<Rightarrow> 'd shared \<Rightarrow> ('g, 'h) task \<times> 'd shared" where
  "do_list env cx inp path w sh =
     perform (list_objects_cached (cx_keys cx) (use_multi_ep cx) (resolve_uri (cx_cfg cx) path)) inp
       (meta_effect (env_hist env)) w sh"

definition do_stat ::
  "('g, 'h, 'd, 'r) run_env \<Rightarrow> run_context \<Rightarrow> step_input \<Rightarrow> OpSpec \<Rightarrow> ('g, 'h) worker \<Rightarrow> 'd shared \<Rightarrow> ('g, 'h) task \<times> 'd shared" where
  "do_stat env cx inp op w sh =
     with_target (object_target env cx (Some (Inl (''No pre-resolved URIs for STAT pattern: '' @ pattern_of cx op)))
                    (stat_for_uri (sh_pre sh) (pattern_of cx op)) (w_rng w)) w sh
       (\<lambda>uri w'. perform (stat_object_cached (cx_keys cx) (use_multi_ep cx) uri) inp (meta_effect (env_hist env)) w' sh)"

definition do_delete ::
  "('g, 'h, 'd, 'r) run_env \<Rightarrow> run_context \<Rightarrow> step_input \<Rightarrow> OpSpec \<Rightarrow> ('g, 'h) worker \<Rightarrow> 'd shared \<Rightarrow> ('g, 'h) task \<times> 'd shared" where
  "do_delete env cx inp op w sh =
     with_target (object_target env cx (Some (Inl (''No pre-resolved URIs for DELETE pattern: '' @ pattern_of cx op)))
                    (delete_for_uri (sh_pre sh) (pattern_of cx op)) (w_rng w)) w sh
       (\<lambda>uri w'. perform (delete_object_cached (cx_keys cx) (use_multi_ep cx) uri) inp (meta_effect (env_hist env)) w' sh)"

definition do_mkdir ::
  "('g, 'h, 'd, 'r) run_env \<Rightarrow> run_context \<Rightarrow> step_input \<Rightarrow> ('g, 'h) worker \<Rightarrow> 'd shared \<Rightarrow> ('g, 'h) task \<times> 'd shared" where
  "do_mkdir env cx inp w sh =
     with_target (directory_target (env_thread env) (cx_cfg cx) ''MKDIR'' (cx_selector cx) (w_rng w)) w sh
       (\<lambda>uri w'. perform (mkdir_with_config (env_open_store env) uri) inp (meta_effect (env_hist env)) w' sh)"

definition do_rmdir ::
  "('g, 'h, 'd, 'r) run_env \<Rightarrow> run_context \<Rightarrow> step_input \<Rightarrow> ('g, 'h) worker \<Rightarrow> 'd shared \<Rightarrow> ('g, 'h) task \<times> 'd shared" where
  "do_rmdir env cx inp w sh =
     with_target (directory_target (env_thread env) (cx_cfg cx) ''RMDIR'' (cx_selector cx) (w_rng w)) w sh
       (\<lambda>uri w'. perform (rmdir_with_config (env_open_store env) uri) inp (meta_effect (env_hist env)) w' sh)"

definition do_operation ::
  "('g, 'h, 'd, 'r) run_env \<Rightarrow> run_context \<Rightarrow> step_input \<Rightarrow> OpSpec \<Rightarrow> ('g, 'h) worker \<Rightarrow> 'd shared
    \<Rightarrow> ('g, 'h) task \<times> 'd shared" where
  "do_operation env cx inp op w sh =
     (case op of
        Get _ \<Rightarrow> do_get env cx inp op w sh
      | Put _ _ _ _ _ \<Rightarrow> do_put env cx inp op w sh
      | List path \<Rightarrow> do_list env cx inp path w sh
      | Stat _ \<Rightarrow> do_stat env cx inp op w sh
      | Delete _ \<Rightarrow> do_delete env cx inp op w sh
      | Mkdir _ \<Rightarrow> do_mkdir env cx inp w sh
      | Rmdir _ _ \<Rightarrow> do_rmdir env cx inp w sh)"

text \<open>A limit below the workers' number is a semaphore; with no permits it is never acquired.\<close>

definition never_permitted :: "Config \<Rightarrow> WeightedOp \<Rightarrow> bool" where
  "never_permitted cfg w = (case op_concurrency w of Some n \<Rightarrow> n < concurrency cfg \<and> n = 0 | None \<Rightarrow> False)"

definition worker_iteration ::
  "('g, 'h, 'd, 'r) run_env \<Rightarrow> run_context \<Rightarrow> step_input \<Rightarrow> ('g, 'h) worker \<Rightarrow> 'd shared
    \<Rightarrow> ('g, 'h) task \<times> 'd shared" where
  "worker_iteration env cx inp w sh =
     (if cx_deadline cx \<le> in_now inp
      then (Returned (w_stats w),
            if 0 < local_ops w
            then sh\<lparr>live_ops := live_ops sh + local_ops w, live_bytes := live_bytes sh + local_bytes w\<rparr> else sh)
      else if length (workload (cx_cfg cx)) \<le> in_op inp then (Panicked, sh)
      else case rate_wait (env_delay env) (env_tick env) (in_now inp div 1000) (sh_rate sh) of
        None \<Rightarrow> (Panicked, sh)
      | Some (_, rate) \<Rightarrow>
          (let sh' = sh\<lparr>sh_rate := rate\<rparr>; wo = workload (cx_cfg cx) ! in_op inp
           in if never_permitted (cx_cfg cx) wo then (Stuck, sh')
              else do_operation env cx inp (spec wo) w sh'))"

subsection \<open>All workers\<close>

text \<open>
  The iterations of the workers in the order in which they take effect; a task that has ended takes
  no more. The workers start with generators of their own.
\<close>

definition run_step ::
  "('g, 'h, 'd, 'r) run_env \<Rightarrow> run_context \<Rightarrow> nat \<times> step_input \<Rightarrow> ('g, 'h) task list \<times> 'd shared
    \<Rightarrow> ('g, 'h) task list \<times> 'd shared" where
  "run_step env cx step st =
     (let (i, inp) = step; (ts, sh) = st
      in if i < length ts
         then (case ts ! i of
                 Active w \<Rightarrow> (let (t, sh') = worker_iteration env cx inp w sh in (ts[i := t], sh'))
               | _ \<Rightarrow> st)
         else st)"

definition run_workers ::
  "('g, 'h, 'd, 'r) run_env \<Rightarrow> run_context \<Rightarrow> (nat \<times> step_input) list \<Rightarrow> ('g, 'h) task list \<times> 'd shared
    \<Rightarrow> ('g, 'h) task list \<times> 'd shared" where
  "run_workers env cx steps st = fold (run_step env cx) steps st"

definition spawn_workers :: "'h hdr \<Rightarrow> nat \<Rightarrow> (nat \<Rightarrow> 'g) \<Rightarrow> ('g, 'h) task list" where
  "spawn_workers hg n seeds =
     map (\<lambda>i. Active \<lparr> w_rng = seeds i, w_stats = worker_stats_new hg, local_ops = 0, local_bytes = 0 \<rparr>) [0..<n]"

subsection \<open>Joining the workers\<close>

definition DEFAULT_WORKER_DRAIN_TIMEOUT_SECS :: nat where "DEFAULT_WORKER_DRAIN_TIMEOUT_SECS = 150"

definition merge_stats :: "'h hdr \<Rightarrow> 'h WorkerStats \<Rightarrow> 'h WorkerStats \<Rightarrow> 'h WorkerStats" where
  "merge_stats hg a w =
     \<lparr> hist_get = hists_merge hg (hist_get a) (hist_get w), hist_put = hists_merge hg (hist_put a) (hist_put w),
       hist_meta = hists_merge hg (hist_meta a) (hist_meta w),
       hist_put_setup = hists_merge hg (hist_put_setup a) (hist_put_setup w),
       hist_put_io = hists_merge hg (hist_put_io a) (hist_put_io w),
       get_bytes = get_bytes a + get_bytes w, get_ops = get_ops a + get_ops w,
       put_bytes = put_bytes a + put_bytes w, put_ops = put_ops a + put_ops w,
       meta_bytes = meta_bytes a + meta_bytes w, meta_ops = meta_ops a + meta_ops w,
       get_bins = bins_merge (get_bins a) (get_bins w), put_bins = bins_merge (put_bins a) (put_bins w),
       meta_bins = bins_merge (meta_bins a) (meta_bins w) \<rparr>"

text \<open>
  The handles are awaited in their order; the first task that failed, or that has not ended when the
  drain time is over, decides. The tasks are given as they are at that time.
\<close>

fun join_workers :: "'h hdr \<Rightarrow> nat \<Rightarrow> nat \<Rightarrow> ('g, 'h) task list \<Rightarrow> 'h WorkerStats \<Rightarrow> string + 'h WorkerStats" where
  "join_workers hg n drained [] acc = Inr acc"
| "join_workers hg n drained (t # ts) acc =
     (case t of
        Returned ws \<Rightarrow> join_workers hg n (drained + 1) ts (merge_stats hg acc ws)
      | TaskFailed e \<Rightarrow> Inl e
      | Panicked \<Rightarrow> Inl ''Worker task panicked''
      | _ \<Rightarrow> Inl (''Worker drain timeout: '' @ show_nat (n - drained) @ '' of '' @ show_nat n
              @ '' worker(s) did not finish within '' @ show_nat DEFAULT_WORKER_DRAIN_TIMEOUT_SECS @ ''s''))"

subsection \<open>The summary\<close>

record OpAgg =
  agg_bytes :: nat
  agg_ops :: nat
  mean_us :: nat
  p50_us :: nat
  p95_us :: nat
  p99_us :: nat

definition op_agg :: "'h hdr \<Rightarrow> nat \<Rightarrow> nat \<Rightarrow> 'h \<Rightarrow> OpAgg" where
  "op_agg hg bytes ops h =
     \<lparr> agg_bytes = bytes, agg_ops = ops, mean_us = nat \<lfloor>h_mean hg h\<rfloor>, p50_us = h_quantile hg (1 / 2) h,
       p95_us = h_quantile hg (95 / 100) h, p99_us = h_quantile hg (99 / 100) h \<rparr>"

record 'h Summary =
  sum_bytes :: nat
  sum_ops :: nat
  overall :: "nat \<times> nat \<times> nat"
  sum_get :: OpAgg
  sum_put :: OpAgg
  sum_meta :: OpAgg
  sum_stats :: "'h WorkerStats"
  sum_errors :: nat
  sum_error_rate :: rat

definition overall_histogram :: "'h hdr \<Rightarrow> 'h WorkerStats \<Rightarrow> 'h" where
  "overall_histogram hg a =
     foldl (keep_add hg) (h_new hg 1 60000000) (map (combined_histogram hg) [hist_get a, hist_put a, hist_meta a])"

definition summarize_run :: "'h hdr \<Rightarrow> rat \<Rightarrow> ErrorTracker \<Rightarrow> 'h WorkerStats \<Rightarrow> 'h Summary" where
  "summarize_run hg now errs a =
     (let ((errors, rate), _) = error_stats now errs; h = overall_histogram hg a
      in \<lparr> sum_bytes = get_bytes a + put_bytes a + meta_bytes a, sum_ops = get_ops a + put_ops a + meta_ops a,
           overall = (h_quantile hg (1 / 2) h, h_quantile hg (95 / 100) h, h_quantile hg (99 / 100) h),
           sum_get = op_agg hg (get_bytes a) (get_ops a) (combined_histogram hg (hist_get a)),
           sum_put = op_agg hg (put_bytes a) (put_ops a) (combined_histogram hg (hist_put a)),
           sum_meta = op_agg hg (meta_bytes a) (meta_ops a) (combined_histogram hg (hist_meta a)),
           sum_stats = a, sum_errors = errors, sum_error_rate = rate \<rparr>)"

subsection \<open>The whole run\<close>

text \<open>\<open>WeightedIndex::new\<close> on \<open>u32\<close> weights.\<close>

definition weights_valid :: "WeightedOp list \<Rightarrow> bool" where
  "weights_valid ws = (0 < sum_list (map weight ws) \<and> sum_list (map weight ws) \<le> u32_max)"

definition start_run ::
  "('g, 'h, 'd, 'r) run_env \<Rightarrow> (string \<Rightarrow> string + string list) \<Rightarrow> (string list \<Rightarrow> string + unit) \<Rightarrow> (f64 \<Rightarrow> 'd option)
    \<Rightarrow> Config \<Rightarrow> ErrorHandlingConfig \<Rightarrow> TreeManifest option \<Rightarrow> nat \<Rightarrow> (string + run_context \<times> 'd shared) option" where
  "start_run env resolve make_multi exp_new cfg ecfg tree now =
     (case resolve_workload resolve cfg tree of
        Inl e \<Rightarrow> Some (Inl e)
      | Inr pre \<Rightarrow>
          if \<not> weights_valid (workload cfg) then Some (Inl ''invalid weights'')
          else case optional_rate_controller_new exp_new (io_rate cfg) (concurrency cfg) (now div 1000) of
            None \<Rightarrow> None
          | Some rate \<Rightarrow>
              map_option (\<lambda>r. bind_result r (\<lambda>keys.
                Inr (\<lparr> cx_cfg = cfg, cx_keys = keys, cx_selector = map_option (run_selector cfg) tree,
                       cx_separate = needs_pools (workload cfg), cx_deadline = now + cfg_duration cfg \<rparr>,
                     \<lparr> sh_pre = pre, sh_errors = error_tracker_new ecfg, sh_rate = rate, live_ops = 0, live_bytes = 0 \<rparr>)))
                (create_stores (env_open_store env) make_multi cfg tree pre))"

definition workload_run ::
  "('g, 'h, 'd, 'r) run_env \<Rightarrow> (string \<Rightarrow> string + string list) \<Rightarrow> (string list \<Rightarrow> string + unit) \<Rightarrow> (f64 \<Rightarrow> 'd option)
    \<Rightarrow> Config \<Rightarrow> ErrorHandlingConfig \<Rightarrow> TreeManifest option \<Rightarrow> nat \<Rightarrow> (nat \<Rightarrow> 'g) \<Rightarrow> (nat \<times> step_input) list \<Rightarrow> rat
    \<Rightarrow> (string + 'h Summary) option" where
  "workload_run env resolve make_multi exp_new cfg ecfg tree now seeds steps end_clock =
     map_option (\<lambda>r. bind_result r (\<lambda>(cx, sh0).
       (let (ts, sh) = run_workers env cx steps (spawn_workers (env_hist env) (concurrency cfg) seeds, sh0)
        in bind_result (join_workers (env_hist env) (length ts) 0 ts (worker_stats_new (env_hist env))) (\<lambda>a.
             Inr (summarize_run (env_hist env) end_clock (sh_errors sh) a)))))
     (start_run env resolve make_multi exp_new cfg ecfg tree now)"

subsection \<open>The statistics of a worker\<close>

definition bins_ops :: "SizeBins \<Rightarrow> nat" where "bins_ops b = sum_list (map (fst \<circ> snd) b)"

definition bins_bytes :: "SizeBins \<Rightarrow> nat" where "bins_bytes b = sum_list (map (snd \<circ> snd) b)"

lemma bins_put_sums [simp]:
  "bins_ops (bins_put k e b) = bins_ops b + fst e" "bins_bytes (bins_put k e b) = bins_bytes b + snd e"
proof -
  have "bins_ops (bins_put k e b) = bins_ops b + fst e \<and> bins_bytes (bins_put k e b) = bins_bytes b + snd e"
    by (induction b) (auto simp: bins_put_def bins_ops_def bins_bytes_def hget_def hput_def split: option.splits)
  then show "bins_ops (bins_put k e b) = bins_ops b + fst e" "bins_bytes (bins_put k e b) = bins_bytes b + snd e"
    by simp_all
qed

lemma bins_add_sums [simp]:
  "bins_ops (bins_add n b) = bins_ops b + 1" "bins_bytes (bins_add n b) = bins_bytes b + n"
  by (simp_all add: bins_add_def)

lemma bins_merge_sums [simp]:
  "bins_ops (bins_merge b b') = bins_ops b + bins_ops b'" "bins_bytes (bins_merge b b') = bins_bytes b + bins_bytes b'"
proof -
  have "bins_ops (bins_merge b b') = bins_ops b + bins_ops b' \<and> bins_bytes (bins_merge b b') = bins_bytes b + bins_bytes b'"
    by (induction b' arbitrary: b) (auto simp: bins_merge_def bins_ops_def [of "[]"] bins_bytes_def [of "[]"]
      bins_ops_def [of "_ # _"] bins_bytes_def [of "_ # _"] simp flip: bins_ops_def bins_bytes_def)
  then show "bins_ops (bins_merge b b') = bins_ops b + bins_ops b'" "bins_bytes (bins_merge b b') = bins_bytes b + bins_bytes b'"
    by simp_all
qed

definition stats_ok :: "'h WorkerStats \<Rightarrow> bool" where
  "stats_ok ws =
     (bins_ops (get_bins ws) = get_ops ws \<and> bins_bytes (get_bins ws) = get_bytes ws
      \<and> bins_ops (put_bins ws) = put_ops ws \<and> bins_bytes (put_bins ws) = put_bytes ws
      \<and> bins_ops (meta_bins ws) = meta_ops ws \<and> bins_bytes (meta_bins ws) = 0 \<and> meta_bytes ws = 0)"

definition stats_ops :: "'h WorkerStats \<Rightarrow> nat" where "stats_ops ws = get_ops ws + put_ops ws + meta_ops ws"

definition stats_bytes :: "'h WorkerStats \<Rightarrow> nat" where
  "stats_bytes ws = get_bytes ws + put_bytes ws + meta_bytes ws"

lemma stats_new_ok [simp]:
  "stats_ok (worker_stats_new hg)" "stats_ops (worker_stats_new hg) = 0" "stats_bytes (worker_stats_new hg) = 0"
  by (simp_all add: stats_ok_def stats_ops_def stats_bytes_def worker_stats_new_def bins_ops_def bins_bytes_def)

lemma record_get_facts [simp]:
  "stats_ok ws \<Longrightarrow> stats_ok (record_get hg n d ws)" "stats_ops (record_get hg n d ws) = stats_ops ws + 1"
  "stats_bytes (record_get hg n d ws) = stats_bytes ws + n"
  by (simp_all add: stats_ok_def stats_ops_def stats_bytes_def record_get_def)

lemma record_put_facts [simp]:
  "stats_ok ws \<Longrightarrow> stats_ok (record_put hg n d io su ws)" "stats_ops (record_put hg n d io su ws) = stats_ops ws + 1"
  "stats_bytes (record_put hg n d io su ws) = stats_bytes ws + n"
  by (simp_all add: stats_ok_def stats_ops_def stats_bytes_def record_put_def Let_def)

lemma record_meta_facts [simp]:
  "stats_ok ws \<Longrightarrow> stats_ok (record_meta hg d ws)" "stats_ops (record_meta hg d ws) = stats_ops ws + 1"
  "stats_bytes (record_meta hg d ws) = stats_bytes ws"
  by (simp_all add: stats_ok_def stats_ops_def stats_bytes_def record_meta_def)

lemma merge_stats_facts [simp]:
  "stats_ok a \<Longrightarrow> stats_ok b \<Longrightarrow> stats_ok (merge_stats hg a b)"
  "stats_ops (merge_stats hg a b) = stats_ops a + stats_ops b"
  "stats_bytes (merge_stats hg a b) = stats_bytes a + stats_bytes b"
  by (simp_all add: stats_ok_def stats_ops_def stats_bytes_def merge_stats_def)

subsection \<open>The live counters\<close>

fun task_stats :: "('g, 'h) task \<Rightarrow> 'h WorkerStats option" where
  "task_stats (Active w) = Some (w_stats w)"
| "task_stats (Returned ws) = Some ws"
| "task_stats _ = None"

fun unflushed :: "('g, 'h) task \<Rightarrow> nat \<times> nat" where
  "unflushed (Active w) = (local_ops w, local_bytes w)"
| "unflushed _ = (0, 0)"

definition task_ops :: "('g, 'h) task \<Rightarrow> nat" where
  "task_ops t = (case task_stats t of Some ws \<Rightarrow> stats_ops ws | None \<Rightarrow> 0)"

definition task_bytes :: "('g, 'h) task \<Rightarrow> nat" where
  "task_bytes t = (case task_stats t of Some ws \<Rightarrow> stats_bytes ws | None \<Rightarrow> 0)"

definition worker_ok :: "('g, 'h) worker \<Rightarrow> bool" where
  "worker_ok w = (stats_ok (w_stats w) \<and> (local_ops w = 0 \<longrightarrow> local_bytes w = 0))"

fun task_ok :: "('g, 'h) task \<Rightarrow> bool" where
  "task_ok (Active w) = worker_ok w"
| "task_ok (Returned ws) = stats_ok ws"
| "task_ok _ = True"

definition below_limit :: "ErrorTracker \<Rightarrow> bool" where
  "below_limit t = (et_total t < max_total_errors (et_config t))"

text \<open>What one step of a task must keep: the counts it adds to its own statistics are flushed or local.\<close>

definition step_counts :: "('g, 'h) task \<times> 'd shared \<Rightarrow> ('g, 'h) task \<times> 'd shared \<Rightarrow> bool" where
  "step_counts a b =
     (live_ops (snd b) + fst (unflushed (fst b)) + task_ops (fst a) = live_ops (snd a) + fst (unflushed (fst a)) + task_ops (fst b)
      \<and> live_bytes (snd b) + snd (unflushed (fst b)) + task_bytes (fst a) = live_bytes (snd a) + snd (unflushed (fst a)) + task_bytes (fst b))"

definition step_ok :: "('g, 'h) worker \<times> 'd shared \<Rightarrow> ('g, 'h) task \<times> 'd shared \<Rightarrow> bool" where
  "step_ok wsh b =
     (task_ok (fst b)
      \<and> (below_limit (sh_errors (snd wsh)) \<longrightarrow> task_stats (fst b) \<noteq> None \<longrightarrow>
           below_limit (sh_errors (snd b)) \<and> step_counts (Active (fst wsh), snd wsh) b))"

lemma count_locally_ok:
  assumes "count_locally n (w\<lparr>w_stats := ws\<rparr>, sh) = (w', sh')" "stats_ops ws = stats_ops (w_stats w) + 1"
    "stats_bytes ws = stats_bytes (w_stats w) + n"
  shows "w_stats w' = ws \<and> (local_ops w' = 0 \<longrightarrow> local_bytes w' = 0) \<and> sh_errors sh' = sh_errors sh
    \<and> step_counts (Active w, sh) (Active w', sh')"
  using assms by (auto simp: count_locally_def step_counts_def task_ops_def task_bytes_def Let_def split: if_splits)

lemma perform_ok:
  assumes eff: "\<And>x w' sh1 sh'. effect x (w, sh1) = (w', sh') \<Longrightarrow>
      worker_ok w' \<and> sh_errors sh' = sh_errors sh1 \<and> step_counts (Active w, sh1) (Active w', sh')"
    and "worker_ok w"
  shows "step_ok (w, sh) (perform call inp effect w sh)"
proof -
  let ?x = "execute_with_error_handling (\<lambda>k. call (in_answer inp k)) (in_clock inp) (in_jitter inp) (sh_errors sh)"
  obtain r errs slept where x: "?x = (r, errs, slept)" by (cases ?x)
  have h: "handled (sh_errors sh) (r, errs, slept)" if "below_limit (sh_errors sh)"
    using handling_loop_handled [of "sh_errors sh"] that x
    by (metis below_limit_def execute_with_error_handling_def)
  have counts: "step_counts (Active w, sh\<lparr>sh_errors := errs\<rparr>) b = step_counts (Active w, sh) b" for b :: "('a, 'b) task \<times> 'c shared"
    by (simp add: step_counts_def)
  show ?thesis
  proof (cases r)
    case (Inl n)
    then show ?thesis using x by (simp add: perform_def step_ok_def)
  next
    case (Inr y)
    then have low: "below_limit (sh_errors sh) \<Longrightarrow> below_limit errs" using h by (auto simp: handled_def below_limit_def)
    show ?thesis
    proof (cases y)
      case None
      then show ?thesis using x Inr low assms(2) by (simp add: perform_def step_ok_def step_counts_def)
    next
      case (Some z)
      obtain w' sh' where e: "effect z (w, sh\<lparr>sh_errors := errs\<rparr>) = (w', sh')" by force
      have "perform call inp effect w sh = (Active w', sh')"
        using x Inr Some e by (simp add: perform_def)
      then show ?thesis using eff [OF e] low counts by (simp add: step_ok_def)
    qed
  qed
qed

lemma effects_ok:
  assumes "worker_ok w"
  shows "get_effect hg x (w, sh) = (w', sh') \<Longrightarrow>
      worker_ok w' \<and> sh_errors sh' = sh_errors sh \<and> step_counts (Active w, sh) (Active w', sh')"
    and "meta_effect hg x (w, sh) = (w', sh') \<Longrightarrow>
      worker_ok w' \<and> sh_errors sh' = sh_errors sh \<and> step_counts (Active w, sh) (Active w', sh')"
    and "put_effect hg cx uri sz x (w, sh) = (w', sh') \<Longrightarrow>
      worker_ok w' \<and> sh_errors sh' = sh_errors sh \<and> step_counts (Active w, sh) (Active w', sh')"
proof -
  obtain n d io su where x: "x = (n, d, io, su)" by (cases x)
  have ok: "stats_ok (w_stats w)" using assms by (simp add: worker_ok_def)
  show "worker_ok w' \<and> sh_errors sh' = sh_errors sh \<and> step_counts (Active w, sh) (Active w', sh')"
    if "get_effect hg x (w, sh) = (w', sh')"
    using count_locally_ok [where n = n and w = w and ws = "record_get hg n d (w_stats w)" and sh = sh and w' = w' and sh' = sh'] that ok
    by (simp add: get_effect_def x worker_ok_def)
  show "worker_ok w' \<and> sh_errors sh' = sh_errors sh \<and> step_counts (Active w, sh) (Active w', sh')"
    if "meta_effect hg x (w, sh) = (w', sh')"
    using count_locally_ok [where n = 0 and w = w and ws = "record_meta hg d (w_stats w)" and sh = sh and w' = w' and sh' = sh'] that ok
    by (simp add: meta_effect_def x worker_ok_def)
  show "worker_ok w' \<and> sh_errors sh' = sh_errors sh \<and> step_counts (Active w, sh) (Active w', sh')"
    if "put_effect hg cx uri sz x (w, sh) = (w', sh')"
    using count_locally_ok [where n = sz and w = w and ws = "record_put hg sz d io su (w_stats w)" and w' = w' and sh' = sh'
        and sh = "sh\<lparr>sh_pre := add_to_pool (cx_cfg cx) (cx_selector cx) uri (sh_pre sh)\<rparr>"] that ok
    by (simp add: put_effect_def x worker_ok_def step_counts_def)
qed

text \<open>A step that changes neither the own statistics nor the shared counters may do so to the rest.\<close>

lemma step_ok_cong:
  assumes "step_ok (w', sh') b" "w_stats w' = w_stats w" "local_ops w' = local_ops w" "local_bytes w' = local_bytes w"
    "live_ops sh' = live_ops sh" "live_bytes sh' = live_bytes sh" "sh_errors sh' = sh_errors sh"
  shows "step_ok (w, sh) b"
  using assms by (simp add: step_ok_def step_counts_def task_ops_def task_bytes_def)

lemma perform_effects_ok:
  assumes "worker_ok w"
  shows "step_ok (w, sh) (perform call inp (get_effect hg) (w\<lparr>w_rng := r\<rparr>) sh)"
    and "step_ok (w, sh) (perform call inp (meta_effect hg) (w\<lparr>w_rng := r\<rparr>) sh)"
    and "step_ok (w, sh) (perform call inp (meta_effect hg) w sh)"
    and "step_ok (w, sh) (perform call inp (put_effect hg cx uri sz) (w\<lparr>w_rng := r\<rparr>) sh)"
proof -
  have w: "worker_ok (w\<lparr>w_rng := r\<rparr>)" using assms by (simp add: worker_ok_def)
  show "step_ok (w, sh) (perform call inp (get_effect hg) (w\<lparr>w_rng := r\<rparr>) sh)"
    by (rule step_ok_cong [OF perform_ok [OF effects_ok(1) [OF w] w]]) simp_all
  show "step_ok (w, sh) (perform call inp (meta_effect hg) (w\<lparr>w_rng := r\<rparr>) sh)"
    by (rule step_ok_cong [OF perform_ok [OF effects_ok(2) [OF w] w]]) simp_all
  show "step_ok (w, sh) (perform call inp (meta_effect hg) w sh)"
    by (rule perform_ok [OF effects_ok(2) [OF assms] assms])
  show "step_ok (w, sh) (perform call inp (put_effect hg cx uri sz) (w\<lparr>w_rng := r\<rparr>) sh)"
    by (rule step_ok_cong [OF perform_ok [OF effects_ok(3) [OF w] w]]) simp_all
qed

lemma step_ok_lost [simp]:
  "step_ok wsh (Panicked, sh)" "step_ok wsh (TaskFailed e, sh)" "step_ok wsh (Stuck, sh)"
  by (simp_all add: step_ok_def)

lemma do_operation_ok:
  assumes "worker_ok w"
  shows "step_ok (w, sh) (do_operation env cx inp op w sh)"
  using perform_effects_ok [OF assms]
  by (cases op) (auto simp: do_operation_def do_get_def do_put_def do_list_def do_stat_def do_delete_def do_mkdir_def
      do_rmdir_def with_target_def split: prod.split option.split sum.split)

lemma worker_iteration_ok:
  assumes "worker_ok w"
  shows "step_ok (w, sh) (worker_iteration env cx inp w sh)"
proof (cases "cx_deadline cx \<le> in_now inp")
  case True
  then show ?thesis
    using assms by (auto simp: worker_iteration_def step_ok_def step_counts_def task_ops_def task_bytes_def worker_ok_def)
next
  case False
  show ?thesis
  proof (cases "rate_wait (env_delay env) (env_tick env) (in_now inp div 1000) (sh_rate sh)")
    case None
    then show ?thesis using False by (simp add: worker_iteration_def step_ok_def)
  next
    case (Some x)
    obtain t rate where x: "x = (t, rate)" by (cases x)
    have "step_ok (w, sh) (do_operation env cx inp op w (sh\<lparr>sh_rate := rate\<rparr>))" for op
      by (rule step_ok_cong [OF do_operation_ok]) (use assms in simp_all)
    then show ?thesis using False Some x by (simp add: worker_iteration_def Let_def)
  qed
qed

subsection \<open>The invariant of a run\<close>

definition run_inv :: "('g, 'h) task list \<times> 'd shared \<Rightarrow> bool" where
  "run_inv st =
     (list_all task_ok (fst st)
      \<and> (list_all (\<lambda>t. task_stats t \<noteq> None) (fst st) \<longrightarrow>
           below_limit (sh_errors (snd st))
           \<and> live_ops (snd st) + sum_list (map (fst \<circ> unflushed) (fst st)) = sum_list (map task_ops (fst st))
           \<and> live_bytes (snd st) + sum_list (map (snd \<circ> unflushed) (fst st)) = sum_list (map task_bytes (fst st))))"

lemma sum_list_swap: "i < length ts \<Longrightarrow> sum_list (map f (ts[i := t])) + f (ts ! i) = sum_list (map f ts) + (f t :: nat)"
proof (induction ts arbitrary: i)
  case (Cons x ts)
  then show ?case by (cases i) fastforce+
qed simp

lemma list_all_update: "list_all P xs \<Longrightarrow> P x \<Longrightarrow> list_all P (xs[i := x])"
  by (simp add: list_all_iff) (metis in_set_conv_nth length_list_update nth_list_update nth_list_update_neq)

lemma run_step_inv:
  assumes "run_inv st"
  shows "run_inv (run_step env cx step st)"
proof -
  obtain i inp where step: "step = (i, inp)" by force
  obtain ts sh where st: "st = (ts, sh)" by force
  show ?thesis
  proof (cases "i < length ts \<and> (\<exists>w. ts ! i = Active w)")
    case False
    then have "run_step env cx step st = st" using step st by (auto simp: run_step_def split: task.split)
    then show ?thesis using assms by simp
  next
    case True
    then obtain w where i: "i < length ts" and w: "ts ! i = Active w" by blast
    obtain t sh' where it: "worker_iteration env cx inp w sh = (t, sh')" by force
    have new: "run_step env cx step st = (ts[i := t], sh')" using i w it step st by (simp add: run_step_def)
    have "task_ok (ts ! i)" using assms i st by (simp add: run_inv_def list_all_length)
    then have ok: "step_ok (w, sh) (t, sh')" using worker_iteration_ok [of w sh env cx inp] w it by simp
    have ts: "list_all task_ok (ts[i := t])"
      using ok assms st by (intro list_all_update) (simp_all add: run_inv_def step_ok_def)
    show ?thesis
    proof (cases "list_all (\<lambda>t. task_stats t \<noteq> None) (ts[i := t])")
      case all: True
      have alive: "list_all (\<lambda>t. task_stats t \<noteq> None) ts"
        unfolding list_all_length
      proof (intro allI impI)
        fix j assume "j < length ts"
        then show "task_stats (ts ! j) \<noteq> None"
          using all w by (cases "j = i") (auto simp: list_all_length nth_list_update_neq dest!: spec [of _ j] simp del: not_None_eq)
      qed
      moreover have "task_stats t \<noteq> None" using all i by (simp add: list_all_length) (metis nth_list_update_eq)
      moreover have "below_limit (sh_errors sh)" using assms alive st by (simp add: run_inv_def)
      ultimately show ?thesis
        unfolding new using assms ok ts all sum_list_swap [OF i, of "fst \<circ> unflushed" t] sum_list_swap [OF i, of "snd \<circ> unflushed" t]
          sum_list_swap [OF i, of task_ops t] sum_list_swap [OF i, of task_bytes t]
        unfolding st run_inv_def step_ok_def step_counts_def by (simp add: w)
    qed (use ts in \<open>simp add: new run_inv_def\<close>)
  qed
qed

lemma run_workers_inv: "run_inv st \<Longrightarrow> run_inv (run_workers env cx steps st)"
  unfolding run_workers_def by (induction steps arbitrary: st) (simp_all add: run_step_inv)

lemma spawn_inv:
  "below_limit (sh_errors sh) \<Longrightarrow> live_ops sh = 0 \<Longrightarrow> live_bytes sh = 0 \<Longrightarrow> run_inv (spawn_workers hg n seeds, sh)"
  by (auto simp: run_inv_def spawn_workers_def list_all_iff worker_ok_def task_ops_def task_bytes_def comp_def)

subsection \<open>Joining\<close>

lemma join_workers_ok:
  "join_workers hg n k ts acc = Inr a \<longleftrightarrow>
     (\<exists>wss. ts = map Returned wss \<and> a = foldl (merge_stats hg) acc wss)"
proof (induction ts arbitrary: acc k)
  case (Cons t ts)
  show ?case
  proof (cases t)
    case (Returned ws)
    have "(\<exists>wss. t # ts = map Returned wss \<and> a = foldl (merge_stats hg) acc wss) \<longleftrightarrow>
        (\<exists>wss. ts = map Returned wss \<and> a = foldl (merge_stats hg) (merge_stats hg acc ws) wss)" (is "?l = ?r")
    proof
      assume ?l
      then obtain wss where "t # ts = map Returned wss" "a = foldl (merge_stats hg) acc wss"
        by (elim exE conjE) (rule that)
      then show ?r using Returned by (cases wss) auto
    next
      assume ?r
      then obtain wss where "ts = map Returned wss" "a = foldl (merge_stats hg) (merge_stats hg acc ws) wss"
        by (elim exE conjE) (rule that)
      then show ?l using Returned by (intro exI [of _ "ws # wss"]) simp
    qed
    then show ?thesis using Cons.IH Returned by simp
  qed (auto simp: Cons_eq_map_conv)
qed auto

lemma merged_stats:
  assumes "list_all stats_ok wss" "stats_ok acc"
  shows "stats_ok (foldl (merge_stats hg) acc wss)
    \<and> stats_ops (foldl (merge_stats hg) acc wss) = stats_ops acc + sum_list (map stats_ops wss)
    \<and> stats_bytes (foldl (merge_stats hg) acc wss) = stats_bytes acc + sum_list (map stats_bytes wss)"
  using assms by (induction wss arbitrary: acc) (simp_all add: add.assoc)

subsection \<open>Properties\<close>

text \<open>
  C24: When all workers end normally, in whatever order their operations took effect, the error count
  stayed below its limit, every operation that succeeded is counted once in the totals and once in
  the size bins, and the live counters agree with the totals to the last operation.
\<close>

theorem finished_run_adds_up:
  assumes "run_workers env cx steps (spawn_workers hg n seeds, sh0) = (ts, sh)"
    and "join_workers hg (length ts) 0 ts (worker_stats_new hg) = Inr a"
    and "live_ops sh0 = 0" "live_bytes sh0 = 0" "et_total (sh_errors sh0) < max_total_errors (et_config (sh_errors sh0))"
    and "s = summarize_run hg now (sh_errors sh) a"
  shows "sum_ops s = live_ops sh \<and> sum_bytes s = live_bytes sh
    \<and> bins_ops (get_bins a) = agg_ops (sum_get s) \<and> bins_bytes (get_bins a) = agg_bytes (sum_get s)
    \<and> bins_ops (put_bins a) = agg_ops (sum_put s) \<and> bins_bytes (put_bins a) = agg_bytes (sum_put s)
    \<and> bins_ops (meta_bins a) = agg_ops (sum_meta s)
    \<and> et_total (sh_errors sh) < max_total_errors (et_config (sh_errors sh))"
proof -
  have "run_inv (spawn_workers hg n seeds, sh0)" using assms(3-5) by (intro spawn_inv) (simp_all add: below_limit_def)
  then have inv: "run_inv (ts, sh)" using run_workers_inv assms(1) by metis
  obtain wss where wss: "ts = map Returned wss" "a = foldl (merge_stats hg) (worker_stats_new hg) wss"
    using assms(2) join_workers_ok by blast
  have zero: "sum_list (map (fst \<circ> unflushed) ts) = 0" "sum_list (map (snd \<circ> unflushed) ts) = 0"
    by (simp_all add: wss(1) comp_def)
  have ok: "list_all stats_ok wss" using inv wss(1) by (simp add: run_inv_def list_all_iff)
  have live: "live_ops sh = sum_list (map stats_ops wss)" "live_bytes sh = sum_list (map stats_bytes wss)"
      "below_limit (sh_errors sh)"
    using inv zero wss(1) by (simp_all add: run_inv_def list_all_iff comp_def task_ops_def task_bytes_def)
  from merged_stats [OF ok, of "worker_stats_new hg" hg]
  have "stats_ok a" "stats_ops a = live_ops sh" "stats_bytes a = live_bytes sh" using wss(2) live by simp_all
  then show ?thesis
    using live(3) by (simp add: assms(6) summarize_run_def op_agg_def stats_ok_def stats_ops_def stats_bytes_def
        below_limit_def split_beta Let_def)
qed

text \<open>A histogram that keeps its values, and a worker that does one LIST and then ends.\<close>

definition list_hist :: "(nat \<times> nat list) hdr" where
  "list_hist =
     \<lparr> h_new = (\<lambda>lo hi. (hi, [])), h_record = (\<lambda>v (hi, xs). if v \<le> hi then Some (hi, v # xs) else None),
       h_add = (\<lambda>(hi, xs) (_, ys). if list_all (\<lambda>y. y \<le> hi) ys then Some (hi, xs @ ys) else None),
       h_mean = (\<lambda>(_, xs). if xs = [] then 0 else of_nat (sum_list xs) / of_nat (length xs)),
       h_quantile = (\<lambda>q (_, xs). if xs = [] then 0 else sort xs ! nat \<lfloor>q * of_nat (length xs - 1)\<rfloor>) \<rparr>"

definition sample_env :: "(unit, nat \<times> nat list, unit, nat) run_env" where
  "sample_env =
     \<lparr> env_thread = first_rng, env_u64 = (\<lambda>r. (7, r)), env_hist = list_hist, env_sizes = constant_rng,
       env_delay = (\<lambda>_. NaN), env_tick = (\<lambda>_ p d. d + p), env_open_store = (\<lambda>_. Inr ()) \<rparr>"

definition sample_context :: run_context where
  "sample_context = \<lparr> cx_cfg = list_workload, cx_keys = [''s3://b''], cx_selector = None, cx_separate = False, cx_deadline = 10 \<rparr>"

definition sample_shared :: "unit shared" where
  "sample_shared = \<lparr> sh_pre = PreResolved_default, sh_errors = error_tracker_new sample_handling, sh_rate = None,
     live_ops = 0, live_bytes = 0 \<rparr>"

definition sample_input :: "nat \<Rightarrow> step_input" where
  "sample_input now = \<lparr> in_now = now, in_op = 0, in_answer = (\<lambda>_. Replied 3 5000 4000 1), in_clock = (\<lambda>_. 0), in_jitter = (\<lambda>_. 1) \<rparr>"

lemma list_workload_fields [simp]:
  "workload list_workload = [\<lparr> weight = 1, op_concurrency = None, spec = List ''data/'' \<rparr>]"
  "multi_endpoint list_workload = None" "target list_workload = Some ''s3://b/''"
  "concurrency list_workload = 4" "prepare list_workload = prepare (sample_config ''s3://b/'')"
  by (simp_all add: list_workload_def sample_config_def)

lemma sample_list_step:
  "worker_iteration sample_env sample_context (sample_input 0)
     \<lparr> w_rng = (), w_stats = worker_stats_new list_hist, local_ops = 0, local_bytes = 0 \<rparr> sample_shared
   = (Active \<lparr> w_rng = (), w_stats = record_meta list_hist 5000 (worker_stats_new list_hist), local_ops = 1, local_bytes = 0 \<rparr>,
      sample_shared)"
proof -
  have base: "extract_base_uri ''s3://b/data/'' = ''s3://b''" by code_simp
  have uri: "resolve_uri list_workload ''data/'' = ''s3://b/data/''"
    by (simp add: resolve_uri_def str_contains_def ends_with_def starts_with_def)
  show ?thesis
    by (simp add: worker_iteration_def sample_context_def sample_input_def rate_wait_def sample_shared_def never_permitted_def
        do_operation_def do_list_def use_multi_ep_def perform_def execute_with_error_handling_def handling_loop.simps
        list_objects_cached_def get_cached_store_def call_store_def base uri meta_effect_def count_locally_def
        FLUSH_INTERVAL_def sample_env_def sample_handling_def error_tracker_new_def attempts_of_def
        Let_def)
qed

lemma finished_run_adds_up_witness:
  "\<exists>ts sh a. run_workers sample_env sample_context [(0, sample_input 0), (0, sample_input 20)]
      (spawn_workers list_hist 1 (\<lambda>_. ()), sample_shared) = (ts, sh)
    \<and> sum_ops (summarize_run list_hist 1 (sh_errors sh) a) = live_ops sh \<and> live_ops sh = 1"
proof -
  let ?ws = "record_meta list_hist 5000 (worker_stats_new list_hist)"
  let ?sh = "sample_shared\<lparr>live_ops := 1, live_bytes := 0\<rparr>"
  have run: "run_workers sample_env sample_context [(0, sample_input 0), (0, sample_input 20)]
      (spawn_workers list_hist 1 (\<lambda>_. ()), sample_shared) = ([Returned ?ws], ?sh)"
    using sample_list_step
    by (simp add: run_workers_def run_step_def spawn_workers_def)
      (simp add: worker_iteration_def sample_context_def sample_input_def sample_shared_def)
  have join: "join_workers list_hist (length [Returned ?ws :: (unit, _) task]) 0 [Returned ?ws :: (unit, _) task] (worker_stats_new list_hist)
      = Inr (merge_stats list_hist (worker_stats_new list_hist) ?ws)" by simp
  from finished_run_adds_up [OF run join _ _ _ refl, of 1] show ?thesis
    using run by (auto simp: sample_shared_def error_tracker_new_def sample_handling_def)
qed

text \<open>
  A run returns its statistics exactly when every task returned; otherwise the first task that
  did not, in the order of the workers, decides the error.
\<close>

lemma run_fails_with_first_worker:
  "is_ok (join_workers hg n k ts acc) = list_all (\<lambda>t. \<exists>ws. t = Returned ws) ts
   \<and> join_workers hg n k (map Returned wss @ TaskFailed e # ts) acc = Inl e"
proof
  have "is_ok (join_workers hg n k ts acc) \<longleftrightarrow> (\<exists>wss. ts = map Returned wss)"
    by (simp add: is_ok_iff join_workers_ok)
  also have "\<dots> \<longleftrightarrow> list_all (\<lambda>t. \<exists>ws. t = Returned ws) ts"
  proof (induction ts)
    case (Cons t ts)
    then show ?case by (auto simp: Cons_eq_map_conv)
  qed simp
  finally show "is_ok (join_workers hg n k ts acc) = list_all (\<lambda>t. \<exists>ws. t = Returned ws) ts" .
  show "join_workers hg n k (map Returned wss @ TaskFailed e # ts) acc = Inl e"
    by (induction wss arbitrary: k acc) simp_all
qed

text \<open>
  All PUTs of an operation with a size distribution have one and the same size, that of the first
  sample of a generator with seed 0: the generator is made anew for every PUT.
\<close>

lemma put_sizes_never_vary:
  assumes "get_put_size_spec cfg op = Some (base, sp)"
    and "fst (put_target env cfg sel op r) = Some (Inr (uri, sz))"
    and "fst (put_target env cfg sel' op r') = Some (Inr (uri', sz'))"
  shows "sz = sz' \<and> put_size (env_sizes env) sp = Inr sz"
proof -
  have "put_size (env_sizes env) sp = Inr z" if "fst (put_target env cfg sl op q) = Some (Inr (u, z))" for sl q u z
    using that assms(1)
    by (auto simp: put_target_def split_beta Let_def bind_result_Inr_iff split: option.splits sum.splits)
  from this [OF assms(2)] this [OF assms(3)] show ?thesis by simp
qed

definition varied_put :: OpSpec where
  "varied_put = Put ''data/'' None (Some (Distribution
     \<lparr> dist_type = Uniform, sd_min = Some 1000, sd_max = Some 2000, sd_mean = None, sd_std_dev = None \<rparr>)) 1 1"

lemma put_sizes_never_vary_witness:
  "put_size (env_sizes sample_env) (Distribution
     \<lparr> dist_type = Uniform, sd_min = Some 1000, sd_max = Some 2000, sd_mean = None, sd_std_dev = None \<rparr>) = Inr 1000"
proof -
  have spec: "get_put_size_spec list_workload varied_put = Some (resolve_uri list_workload ''data/'', Distribution
     \<lparr> dist_type = Uniform, sd_min = Some 1000, sd_max = Some 2000, sd_mean = None, sd_std_dev = None \<rparr>)"
    by (simp add: get_put_size_spec_def varied_put_def)
  have "\<exists>u. fst (put_target sample_env list_workload None varied_put ()) = Some (Inr (u, 1000))"
    by (simp add: put_target_def spec put_size_def as_fixed_def size_generator_new_def new_with_seed_def size_impl_def
        sample_env_def constant_rng_def generate_def)
  then obtain u where u: "fst (put_target sample_env list_workload None varied_put ()) = Some (Inr (u, 1000))" by blast
  from put_sizes_never_vary [OF spec u u] show ?thesis by simp
qed

lemma dropWhile_keeps: "x \<in> set xs \<Longrightarrow> \<not> P x \<Longrightarrow> x \<in> set (dropWhile P xs)"
  by (induction xs) auto

lemma trim_keeps: "x \<in> set s \<Longrightarrow> x \<noteq> c \<Longrightarrow> x \<in> set (trim_end_matches c s)"
  by (simp add: trim_end_matches_def dropWhile_keeps)

text \<open>
  New objects never join the objects of a GET whose pattern is a glob, whatever the setting
  \<open>dynamic_put_pool\<close>: the pattern is compared as plain text.
\<close>

lemma globs_never_grow:
  assumes "list_all (\<lambda>src. CHR ''*'' \<in> set (fst src)) (get_lists pre)" "CHR ''*'' \<notin> set uri"
  shows "add_to_pool cfg sel uri pre = pre"
proof -
  have "grow_pool uri srcs = srcs" if "list_all (\<lambda>src. CHR ''*'' \<in> set (fst src)) srcs" for srcs :: "UriSource list"
    using that
  proof (induction srcs)
    case (Cons src srcs)
    have "CHR ''*'' \<in> set (trim_end_matches (CHR ''/'') (fst src))"
      using Cons.prems by (simp add: trim_keeps)
    then have "\<not> starts_with uri (trim_end_matches (CHR ''/'') (fst src) @ t)" for t
      using assms(2) by (auto simp: starts_with_prefix prefix_def)
    from this [of "[]"] this [of "''/''"] show ?case using Cons by simp
  qed simp
  then show ?thesis using assms(1) by (simp add: add_to_pool_def)
qed

lemma globs_never_grow_witness:
  "add_to_pool (list_workload\<lparr>dynamic_put_pool := True\<rparr>) None ''s3://b/data/obj_1''
     \<lparr> get_lists = [(''s3://b/data/*'', [''s3://b/data/x''])], delete_lists = [], stat_lists = [] \<rparr>
   = \<lparr> get_lists = [(''s3://b/data/*'', [''s3://b/data/x''])], delete_lists = [], stat_lists = [] \<rparr>"
  by (rule globs_never_grow) simp_all

end
