(* ===== verification/Remap.thy ===== *)
theory Remap
  imports Workload_Targets
begin

text \<open>
  The remapping of URIs for a replay (\<open>src/remap.rs\<close>): parsed URIs, the four kinds of rules, and the
  engine with the state of its selection strategies. The URL parser, the regular expressions, the
  hash of a key and the random index are arguments.
\<close>

subsection \<open>Configuration\<close>

record MatchSpec =
  ms_host :: "string option"
  ms_bucket :: "string option"
  ms_prefix :: "string option"

record TargetSpec =
  ts_bucket :: string
  ts_prefix :: string

record ManyTargets =
  mt_targets :: "TargetSpec list"
  mt_strategy :: string

definition default_strategy :: string where "default_strategy = ''round_robin''"

datatype RemapRule =
    SimpleRule MatchSpec TargetSpec
  | FanoutRule MatchSpec ManyTargets
  | ConsolidateRule "MatchSpec list" TargetSpec
  | RegexRule string string

type_synonym RemapConfig = "RemapRule list"

text \<open>
  The libraries: \<open>rx_compile\<close> fails on an invalid expression, \<open>rx_replace e s t\<close> replaces the first
  match of \<open>e\<close> in \<open>s\<close> by \<open>t\<close>, \<open>random_index n\<close> draws below \<open>n\<close> from the thread's generator.
\<close>

record ('r, 'g) remap_env =
  parse_url :: "string \<Rightarrow> url option"
  rx_compile :: "string \<Rightarrow> 'r option"
  rx_is_match :: "'r \<Rightarrow> string \<Rightarrow> bool"
  rx_replace :: "'r \<Rightarrow> string \<Rightarrow> string \<Rightarrow> string"
  key_hash :: "string \<Rightarrow> nat"
  random_index :: "nat \<Rightarrow> 'g \<Rightarrow> nat \<times> 'g"

subsection \<open>Parsed URIs\<close>

record ParsedUri =
  pu_scheme :: string
  pu_bucket :: string
  pu_prefix :: string
  pu_key :: string

text \<open>The text up to the last slash, that slash included, and the text after it.\<close>

definition split_key :: "string \<Rightarrow> string \<times> string" where
  "split_key s =
     (let key = rev (takeWhile (\<lambda>c. c \<noteq> CHR ''/'') (rev s)) in (take (length s - length key) s, key))"

definition parse_remap_uri :: "('r, 'g) remap_env \<Rightarrow> string \<Rightarrow> string + ParsedUri" where
  "parse_remap_uri env uri =
     (case parse_url env uri of
        None \<Rightarrow> Inl (''Invalid URI: '' @ uri)
      | Some u \<Rightarrow>
          (let path = trim_start_matches (CHR ''/'') (url_path u);
               host = (case url_host u of Some h \<Rightarrow> h | None \<Rightarrow> [])
           in if url_scheme u \<noteq> ''file'' \<and> host \<noteq> []
              then (let (p, k) = split_key path
                    in Inr \<lparr> pu_scheme = url_scheme u, pu_bucket = host, pu_prefix = p, pu_key = k \<rparr>)
              else (let bucket = takeWhile (\<lambda>c. c \<noteq> CHR ''/'') path; (p, k) = split_key (drop (Suc (length bucket)) path)
                    in Inr \<lparr> pu_scheme = url_scheme u, pu_bucket = bucket, pu_prefix = p, pu_key = k \<rparr>)))"

definition to_uri :: "ParsedUri \<Rightarrow> string" where
  "to_uri p =
     (if pu_prefix p = [] \<and> pu_key p = [] then pu_scheme p @ ''://'' @ pu_bucket p @ ''/''
      else if pu_prefix p = [] then pu_scheme p @ ''://'' @ pu_bucket p @ ''/'' @ pu_key p
      else pu_scheme p @ ''://'' @ pu_bucket p @ ''/'' @ pu_prefix p @ pu_key p)"

subsection \<open>The engine\<close>

text \<open>The generator of the thread travels with the engine that draws from it.\<close>

record 'g RemapEngine =
  re_rules :: RemapConfig
  round_robin_state :: "(nat, nat) hmap"
  sticky_state :: "(string, (string, nat) hmap) hmap"
  re_rng :: 'g

definition remap_engine_new :: "RemapConfig \<Rightarrow> 'g \<Rightarrow> 'g RemapEngine" where
  "remap_engine_new rules g = \<lparr> re_rules = rules, round_robin_state = [], sticky_state = [], re_rng = g \<rparr>"

definition spec_matches :: "ParsedUri \<Rightarrow> MatchSpec \<Rightarrow> bool" where
  "spec_matches p m =
     ((case ms_bucket m of Some b \<Rightarrow> pu_bucket p = b | None \<Rightarrow> True)
      \<and> (case ms_prefix m of Some x \<Rightarrow> starts_with (pu_prefix p) x | None \<Rightarrow> True))"

definition apply_target :: "ParsedUri \<Rightarrow> TargetSpec \<Rightarrow> string" where
  "apply_target p t =
     to_uri \<lparr> pu_scheme = pu_scheme p, pu_bucket = ts_bucket t,
              pu_prefix = (if ts_prefix t = [] then pu_prefix p else ts_prefix t), pu_key = pu_key p \<rparr>"

definition counter_at :: "'g RemapEngine \<Rightarrow> nat \<Rightarrow> nat" where
  "counter_at eng i = (case hget (round_robin_state eng) i of Some c \<Rightarrow> c | None \<Rightarrow> 0)"

definition sticky_at :: "'g RemapEngine \<Rightarrow> nat \<Rightarrow> (string, nat) hmap" where
  "sticky_at eng i = (case hget (sticky_state eng) (show_nat i) of Some m \<Rightarrow> m | None \<Rightarrow> [])"

definition select_target_from_many ::
  "('r, 'g) remap_env \<Rightarrow> nat \<Rightarrow> string \<Rightarrow> ManyTargets \<Rightarrow> 'g RemapEngine \<Rightarrow> (string + TargetSpec) \<times> 'g RemapEngine" where
  "select_target_from_many env i key many eng =
     (let n = length (mt_targets many)
      in if mt_targets many = [] then (Inl ''No targets defined for fanout rule'', eng)
         else if mt_strategy many = ''round_robin'' then
           (Inr (mt_targets many ! (counter_at eng i mod n)),
            eng\<lparr>round_robin_state := hput i ((counter_at eng i + 1) mod n) (round_robin_state eng)\<rparr>)
         else if mt_strategy many = ''random'' then 
           (let (j, g) = random_index env n (re_rng eng) in (Inr (mt_targets many ! j), eng\<lparr>re_rng := g\<rparr>))
         else if mt_strategy many = ''sticky_key'' then
           (let idx = (case hget (sticky_at eng i) key of Some j \<Rightarrow> j | None \<Rightarrow> key_hash env key mod n)
            in (Inr (mt_targets many ! idx),
                eng\<lparr>sticky_state := hput (show_nat i) (hput key idx (sticky_at eng i)) (sticky_state eng)\<rparr>))
         else (Inl (''Unknown strategy: '' @ mt_strategy many), eng))"

fun remap_rules ::
  "('r, 'g) remap_env \<Rightarrow> string \<Rightarrow> ParsedUri \<Rightarrow> nat \<Rightarrow> RemapRule list \<Rightarrow> 'g RemapEngine \<Rightarrow> (string + string) \<times> 'g RemapEngine" where
  "remap_rules env uri p i [] eng = (Inr uri, eng)"
| "remap_rules env uri p i (SimpleRule m t # rs) eng =
     (if spec_matches p m then (Inr (apply_target p t), eng) else remap_rules env uri p (Suc i) rs eng)"
| "remap_rules env uri p i (FanoutRule m many # rs) eng =
     (if spec_matches p m
      then (let (r, eng') = select_target_from_many env i (pu_key p) many eng
            in (bind_result r (\<lambda>t. Inr (apply_target p t)), eng'))
      else remap_rules env uri p (Suc i) rs eng)"
| "remap_rules env uri p i (ConsolidateRule ms t # rs) eng =
     (if list_ex (spec_matches p) ms then (Inr (apply_target p t), eng) else remap_rules env uri p (Suc i) rs eng)"
| "remap_rules env uri p i (RegexRule e rep # rs) eng =
     (case rx_compile env e of
        None \<Rightarrow> (Inl (''Invalid regex: '' @ e), eng)
      | Some x \<Rightarrow> if rx_is_match env x uri then (Inr (rx_replace env x uri rep), eng)
                  else remap_rules env uri p (Suc i) rs eng)"

definition remap :: "('r, 'g) remap_env \<Rightarrow> string \<Rightarrow> 'g RemapEngine \<Rightarrow> (string + string) \<times> 'g RemapEngine" where
  "remap env uri eng =
     (case parse_remap_uri env uri of
        Inl e \<Rightarrow> (Inl e, eng)
      | Inr p \<Rightarrow> remap_rules env uri p 0 (re_rules eng) eng)"

text \<open>One engine used for a sequence of URIs.\<close>

fun remap_all :: "('r, 'g) remap_env \<Rightarrow> string list \<Rightarrow> 'g RemapEngine \<Rightarrow> (string + string) list" where
  "remap_all env [] eng = []"
| "remap_all env (u # us) eng = (let (r, eng') = remap env u eng in r # remap_all env us eng')"

subsection \<open>The specification\<close>

text \<open>
  What a remapping should be, without the engine's state: the first rule that matches decides; a
  round-robin rule takes its targets in turn, by the number of its earlier uses, and a sticky rule
  by the hash of the key. A rule that hits is \<open>Some True\<close>; an invalid expression is \<open>None\<close>.
\<close>

definition rule_hit :: "('r, 'g) remap_env \<Rightarrow> string \<Rightarrow> ParsedUri \<Rightarrow> RemapRule \<Rightarrow> bool option" where
  "rule_hit env uri p r =
     (case r of
        SimpleRule m _ \<Rightarrow> Some (spec_matches p m)
      | FanoutRule m _ \<Rightarrow> Some (spec_matches p m)
      | ConsolidateRule ms _ \<Rightarrow> Some (list_ex (spec_matches p) ms)
      | RegexRule e _ \<Rightarrow> map_option (\<lambda>x. rx_is_match env x uri) (rx_compile env e))"

fun first_rule :: "('r, 'g) remap_env \<Rightarrow> string \<Rightarrow> ParsedUri \<Rightarrow> nat \<Rightarrow> RemapRule list \<Rightarrow> (nat \<times> RemapRule) option" where
  "first_rule env uri p i [] = None"
| "first_rule env uri p i (r # rs) =
     (if rule_hit env uri p r = Some False then first_rule env uri p (Suc i) rs else Some (i, r))"

definition rule_of :: "('r, 'g) remap_env \<Rightarrow> RemapConfig \<Rightarrow> string \<Rightarrow> (nat \<times> RemapRule) option" where
  "rule_of env rules uri = (case parse_remap_uri env uri of Inl _ \<Rightarrow> None | Inr p \<Rightarrow> first_rule env uri p 0 rules)"

definition uses_of :: "('r, 'g) remap_env \<Rightarrow> RemapConfig \<Rightarrow> nat \<Rightarrow> string list \<Rightarrow> nat" where
  "uses_of env rules i us = length (filter (\<lambda>u. \<exists>r. rule_of env rules u = Some (i, r)) us)"

definition fanout_spec :: "('r, 'g) remap_env \<Rightarrow> nat \<Rightarrow> string \<Rightarrow> ManyTargets \<Rightarrow> string + TargetSpec" where
  "fanout_spec env uses key many =
     (if mt_targets many = [] then Inl ''No targets defined for fanout rule''
      else if mt_strategy many = ''round_robin'' then Inr (mt_targets many ! (uses mod length (mt_targets many)))
      else if mt_strategy many = ''sticky_key'' then Inr (mt_targets many ! (key_hash env key mod length (mt_targets many)))
      else Inl (''Unknown strategy: '' @ mt_strategy many))"

definition remap_spec :: "('r, 'g) remap_env \<Rightarrow> RemapConfig \<Rightarrow> string list \<Rightarrow> string \<Rightarrow> string + string" where
  "remap_spec env rules before uri =
     bind_result (parse_remap_uri env uri) (\<lambda>p.
       (case first_rule env uri p 0 rules of
          None \<Rightarrow> Inr uri
        | Some (i, SimpleRule m t) \<Rightarrow> Inr (apply_target p t)
        | Some (i, ConsolidateRule ms t) \<Rightarrow> Inr (apply_target p t)
        | Some (i, FanoutRule m many) \<Rightarrow>
            bind_result (fanout_spec env (uses_of env rules i before) (pu_key p) many) (\<lambda>t. Inr (apply_target p t))
        | Some (i, RegexRule e rep) \<Rightarrow>
            (case rx_compile env e of None \<Rightarrow> Inl (''Invalid regex: '' @ e) | Some x \<Rightarrow> Inr (rx_replace env x uri rep))))"

text \<open>How the engine's state after the URIs \<open>us\<close> corresponds to the specification.\<close>

definition not_random :: "RemapConfig \<Rightarrow> bool" where
  "not_random rules = list_all (\<lambda>r. case r of FanoutRule _ many \<Rightarrow> mt_strategy many \<noteq> ''random'' | _ \<Rightarrow> True) rules"

definition rule_ok :: "('r, 'g) remap_env \<Rightarrow> nat \<Rightarrow> 'g RemapEngine \<Rightarrow> nat \<Rightarrow> ManyTargets \<Rightarrow> bool" where
  "rule_ok env uses eng i many =
     (mt_targets many \<noteq> [] \<longrightarrow>
        (mt_strategy many = ''round_robin'' \<longrightarrow> counter_at eng i = uses mod length (mt_targets many))
        \<and> (mt_strategy many = ''sticky_key'' \<longrightarrow>
             (\<forall>k j. hget (sticky_at eng i) k = Some j \<longrightarrow> j = key_hash env k mod length (mt_targets many))))"

definition engine_inv :: "('r, 'g) remap_env \<Rightarrow> RemapConfig \<Rightarrow> string list \<Rightarrow> 'g RemapEngine \<Rightarrow> bool" where
  "engine_inv env rules us eng =
     (re_rules eng = rules
      \<and> (\<forall>i m many. i < length rules \<longrightarrow> rules ! i = FanoutRule m many \<longrightarrow> rule_ok env (uses_of env rules i us) eng i many))"

lemma state_access [simp]:
  "counter_at (eng\<lparr>round_robin_state := hput i c (round_robin_state eng)\<rparr>) j = (if j = i then c else counter_at eng j)"
  "sticky_at (eng\<lparr>round_robin_state := rr\<rparr>) j = sticky_at eng j"
  "sticky_at (eng\<lparr>sticky_state := hput (show_nat i) st (sticky_state eng)\<rparr>) j = (if j = i then st else sticky_at eng j)"
  "counter_at (eng\<lparr>sticky_state := ss\<rparr>) j = counter_at eng j"
  by (simp_all add: counter_at_def sticky_at_def hash_simps)

text \<open>One selection does what the specification says and leaves the state of the other rules.\<close>

lemma select_target:
  assumes "rule_ok env uses eng i many" "mt_strategy many \<noteq> ''random''"
    and "select_target_from_many env i key many eng = (r, eng')"
  shows "r = fanout_spec env uses key many \<and> rule_ok env (Suc uses) eng' i many \<and> re_rules eng' = re_rules eng
    \<and> (\<forall>j. j \<noteq> i \<longrightarrow> counter_at eng' j = counter_at eng j \<and> sticky_at eng' j = sticky_at eng j)"
proof -
  let ?n = "length (mt_targets many)"
  consider "mt_targets many = []" | "mt_targets many \<noteq> []" "mt_strategy many = ''round_robin''"
    | "mt_targets many \<noteq> []" "mt_strategy many = ''sticky_key''"
    | "mt_targets many \<noteq> []" "mt_strategy many \<notin> {''round_robin'', ''sticky_key''}" by blast
  then show ?thesis
  proof cases
    case 3
    then have old: "hget (sticky_at eng i) k = Some j \<Longrightarrow> j = key_hash env k mod ?n" for k j
      using assms(1) by (simp add: rule_ok_def)
    then have "(case hget (sticky_at eng i) key of Some j \<Rightarrow> j | None \<Rightarrow> key_hash env key mod ?n) = key_hash env key mod ?n"
      by (auto split: option.split)
    then have "r = Inr (mt_targets many ! (key_hash env key mod ?n))"
      "eng' = eng\<lparr>sticky_state := hput (show_nat i) (hput key (key_hash env key mod ?n) (sticky_at eng i)) (sticky_state eng)\<rparr>"
      using 3 assms(3) by (auto simp: select_target_from_many_def Let_def)
    then show ?thesis using 3 old by (auto simp: fanout_spec_def rule_ok_def hash_simps split: if_splits)
  qed (use assms in \<open>auto simp: select_target_from_many_def fanout_spec_def rule_ok_def mod_Suc_eq Let_def\<close>)
qed

lemma first_rule_nth:
  "first_rule env uri p i rules = Some (j, r) \<Longrightarrow> i \<le> j \<and> j - i < length rules \<and> rules ! (j - i) = r"
proof (induction rules arbitrary: i)
  case (Cons a rules)
  show ?case
  proof (cases "rule_hit env uri p a = Some False")
    case True
    then have "Suc i \<le> j \<and> j - Suc i < length rules \<and> rules ! (j - Suc i) = r" using Cons by simp
    then have "j - i = Suc (j - Suc i)" by linarith
    then show ?thesis using \<open>Suc i \<le> j \<and> _\<close> by simp
  next
    case False
    then show ?thesis using Cons.prems by simp
  qed
qed simp

text \<open>The recursion over the rules stops at the first rule.\<close>

definition apply_rule ::
  "('r, 'g) remap_env \<Rightarrow> string \<Rightarrow> ParsedUri \<Rightarrow> (nat \<times> RemapRule) option \<Rightarrow> 'g RemapEngine \<Rightarrow> (string + string) \<times> 'g RemapEngine" where
  "apply_rule env uri p f eng =
     (case f of
        None \<Rightarrow> (Inr uri, eng)
      | Some (i, SimpleRule m t) \<Rightarrow> (Inr (apply_target p t), eng)
      | Some (i, ConsolidateRule ms t) \<Rightarrow> (Inr (apply_target p t), eng)
      | Some (i, FanoutRule m many) \<Rightarrow>
          (let (r, eng') = select_target_from_many env i (pu_key p) many eng
           in (bind_result r (\<lambda>t. Inr (apply_target p t)), eng'))
      | Some (i, RegexRule e rep) \<Rightarrow>
          (case rx_compile env e of
             None \<Rightarrow> (Inl (''Invalid regex: '' @ e), eng) | Some x \<Rightarrow> (Inr (rx_replace env x uri rep), eng)))"

lemma remap_rules_first: "remap_rules env uri p i rules eng = apply_rule env uri p (first_rule env uri p i rules) eng"
proof (induction rules arbitrary: i)
  case (Cons r rules)
  then show ?case
    by (cases r) (auto simp: apply_rule_def rule_hit_def split: option.split)
qed (simp add: apply_rule_def)

lemma uses_of_snoc:
  "uses_of env rules i (us @ [u]) = uses_of env rules i us + (if \<exists>r. rule_of env rules u = Some (i, r) then 1 else 0)"
  by (simp add: uses_of_def)

lemma rule_of_nth: "rule_of env rules u = Some (i, r) \<Longrightarrow> i < length rules \<and> rules ! i = r"
  using first_rule_nth by (fastforce simp: rule_of_def split: sum.splits)

lemma uses_of_other:
  assumes "rules ! i = FanoutRule m many" "\<And>m' many'. rule_of env rules u \<noteq> Some (i, FanoutRule m' many')"
  shows "uses_of env rules i (us @ [u]) = uses_of env rules i us"
proof -
  have "rule_of env rules u \<noteq> Some (i, r)" for r using assms rule_of_nth [of env rules u i r] by metis
  then show ?thesis by (simp add: uses_of_snoc)
qed

lemma engine_inv_keep:
  assumes "engine_inv env rules us eng" "\<And>i m many. rule_of env rules u \<noteq> Some (i, FanoutRule m many)"
  shows "engine_inv env rules (us @ [u]) eng"
  using assms uses_of_other [OF _ assms(2)] by (simp add: engine_inv_def)

lemma select_meets_spec:
  assumes inv: "engine_inv env rules us eng" and u: "rule_of env rules u = Some (i, FanoutRule m many)"
    and nr: "mt_strategy many \<noteq> ''random''"
    and sel: "select_target_from_many env i key many eng = (r, eng')"
  shows "r = fanout_spec env (uses_of env rules i us) key many \<and> engine_inv env rules (us @ [u]) eng'"
proof -
  have i: "i < length rules" "rules ! i = FanoutRule m many" using rule_of_nth [OF u] by simp_all
  have ok: "rule_ok env (uses_of env rules i us) eng i many" using inv i by (simp add: engine_inv_def)
  note sel' = select_target [OF ok nr sel]
  have "rule_ok env (uses_of env rules j (us @ [u])) eng' j many'"
    if j: "j < length rules" "rules ! j = FanoutRule m' many'" for j m' many'
  proof (cases "j = i")
    case True
    then show ?thesis using sel' i j u by (simp add: uses_of_snoc)
  next
    case False
    moreover have "rule_ok env (uses_of env rules j us) eng j many'" using inv j by (simp add: engine_inv_def)
    ultimately show ?thesis using sel' u by (simp add: uses_of_snoc rule_ok_def)
  qed
  then show ?thesis using sel' inv by (simp add: engine_inv_def)
qed

lemma remap_step:
  assumes inv: "engine_inv env rules us eng" and nr: "not_random rules" and r: "remap env u eng = (r, eng')"
  shows "r = remap_spec env rules us u \<and> engine_inv env rules (us @ [u]) eng'"
proof (cases "parse_remap_uri env u")
  case (Inl e)
  then have "rule_of env rules u = None" by (simp add: rule_of_def)
  then show ?thesis using engine_inv_keep [OF inv] r Inl by (simp add: remap_def remap_spec_def)
next
  case (Inr p)
  have rules: "re_rules eng = rules" using inv by (simp add: engine_inv_def)
  have of: "rule_of env rules u = first_rule env u p 0 rules" using Inr by (simp add: rule_of_def)
  have r': "apply_rule env u p (first_rule env u p 0 rules) eng = (r, eng')"
    using r Inr rules by (simp add: remap_def remap_rules_first)
  show ?thesis
  proof (cases "\<exists>i m many. rule_of env rules u = Some (i, FanoutRule m many)")
    case True
    then obtain i m many where f: "rule_of env rules u = Some (i, FanoutRule m many)" by blast
    obtain r0 where sel: "select_target_from_many env i (pu_key p) many eng = (r0, eng')"
      and r0: "r = bind_result r0 (\<lambda>t. Inr (apply_target p t))"
      using r' f of by (auto simp: apply_rule_def split: prod.splits)
    have "mt_strategy many \<noteq> ''random''"
      using rule_of_nth [OF f] nr by (fastforce simp: not_random_def list_all_length)
    from select_meets_spec [OF inv f this sel] show ?thesis using Inr f of r0 by (simp add: remap_spec_def)
  next
    case False
    then have "r = remap_spec env rules us u \<and> eng' = eng"
      using r' of Inr by (auto simp: apply_rule_def remap_spec_def split: option.splits RemapRule.splits prod.splits)
    then show ?thesis using engine_inv_keep [OF inv] False by blast
  qed
qed

lemma remap_all_from:
  assumes "engine_inv env rules before eng" "not_random rules"
  shows "remap_all env us eng = map (\<lambda>k. remap_spec env rules (before @ take k us) (us ! k)) [0..<length us]"
  using assms
proof (induction us arbitrary: before eng)
  case (Cons u us)
  obtain r eng' where r: "remap env u eng = (r, eng')" by force
  note step = remap_step [OF Cons.prems r]
  have "remap_all env us eng' = map (\<lambda>k. remap_spec env rules ((before @ [u]) @ take k us) (us ! k)) [0..<length us]"
    by (rule Cons.IH) (use step Cons.prems in simp_all)
  then show ?case using r step by (simp add: upt_conv_Cons map_Suc_upt [symmetric] del: upt_Suc)
qed simp

lemma engine_inv_new: "engine_inv env rules [] (remap_engine_new rules g)"
  by (simp add: engine_inv_def rule_ok_def uses_of_def remap_engine_new_def counter_at_def sticky_at_def)


text \<open>A parser for URLs of the plain form, and an expression that is a literal text.\<close>

definition plain_url :: "string \<Rightarrow> url option" where
  "plain_url s =
     (case find_sub ''://'' s of
        None \<Rightarrow> None
      | Some i \<Rightarrow>
          (let rest = drop (i + 3) s
           in Some \<lparr> url_scheme = take i s, url_host = Some (takeWhile (\<lambda>c. c \<noteq> CHR ''/'') rest),
                     url_path = dropWhile (\<lambda>c. c \<noteq> CHR ''/'') rest \<rparr>))"

definition sample_remap_env :: "(string, unit) remap_env" where
  "sample_remap_env =
     \<lparr> parse_url = plain_url, rx_compile = Some, rx_is_match = (\<lambda>e s. str_contains s e), rx_replace = (\<lambda>e s t. t),
       key_hash = length, random_index = (\<lambda>n g. (0, g)) \<rparr>"

definition on_bucket :: "string \<Rightarrow> MatchSpec" where
  "on_bucket b = \<lparr> ms_host = None, ms_bucket = Some b, ms_prefix = None \<rparr>"

definition sample_rules :: RemapConfig where
  "sample_rules =
     [SimpleRule (on_bucket ''a'') \<lparr> ts_bucket = ''z'', ts_prefix = ''old/'' \<rparr>,
      FanoutRule (on_bucket ''b'') \<lparr> mt_targets = [\<lparr> ts_bucket = ''x'', ts_prefix = [] \<rparr>, \<lparr> ts_bucket = ''y'', ts_prefix = [] \<rparr>],
        mt_strategy = ''round_robin'' \<rparr>]"

definition sample_uris :: "string list" where
  "sample_uris = [''s3://b/k'', ''s3://a/d/k'', ''s3://b/k'']"


subsection \<open>Round trip of URIs\<close>

text \<open>
  What the code relies on of the URL parser, for object stores and files: plain hosts and paths
  without dot segments come back as they are.
\<close>

definition path_char :: "char \<Rightarrow> bool" where
  "path_char c = (c \<in> set ''abcdefghijklmnopqrstuvwxyzABCDEFGHIJKLMNOPQRSTUVWXYZ0123456789-_./'')"

definition plain_path :: "string \<Rightarrow> bool" where
  "plain_path s = (list_all path_char s \<and> list_all (\<lambda>w. w \<noteq> ''.'' \<and> w \<noteq> ''..'') (split_on (CHR ''/'') s))"

definition host_char :: "string \<Rightarrow> char \<Rightarrow> bool" where
  "host_char scheme c = (c \<in> set ''abcdefghijklmnopqrstuvwxyz0123456789'' \<or> scheme \<noteq> ''file'' \<and> c = CHR ''-'')"

lemma host_char_slash: "\<not> host_char scheme (CHR ''/'')"
  by (simp add: host_char_def)

definition plain_host :: "string \<Rightarrow> string \<Rightarrow> bool" where
  "plain_host scheme h =
     (h \<noteq> [] \<and> hd h \<in> set ''abcdefghijklmnopqrstuvwxyz'' \<and> h \<noteq> ''localhost''
      \<and> list_all (host_char scheme) h)"

definition url_law :: "(string \<Rightarrow> url option) \<Rightarrow> bool" where
  "url_law parse =
     (\<forall>scheme\<in>{''s3'', ''gs'', ''az'', ''file''}. \<forall>h p. plain_host scheme h \<longrightarrow> plain_path p \<longrightarrow>
        parse (scheme @ ''://'' @ h @ ''/'' @ p) = Some \<lparr> url_scheme = scheme, url_host = Some h, url_path = ''/'' @ p \<rparr>)"

definition plain_uri :: "ParsedUri \<Rightarrow> bool" where
  "plain_uri p =
     (pu_scheme p \<in> {''s3'', ''gs'', ''az'', ''file''} \<and> plain_host (pu_scheme p) (pu_bucket p)
      \<and> plain_path (pu_prefix p @ pu_key p) \<and> CHR ''/'' \<notin> set (pu_key p)
      \<and> (pu_prefix p = [] \<or> last (pu_prefix p) = CHR ''/'' \<and> hd (pu_prefix p) \<noteq> CHR ''/''))"

lemma to_uri_form: "to_uri p = pu_scheme p @ ''://'' @ pu_bucket p @ ''/'' @ (pu_prefix p @ pu_key p)"
  by (simp add: to_uri_def)

lemma split_key_append:
  assumes "CHR ''/'' \<notin> set k" "p = [] \<or> last p = CHR ''/''"
  shows "split_key (p @ k) = (p, k)"
proof -
  have "takeWhile (\<lambda>c. c \<noteq> CHR ''/'') (rev k @ zs) = rev k @ takeWhile (\<lambda>c. c \<noteq> CHR ''/'') zs" for zs
    using assms(1) by (intro takeWhile_append2) auto
  then have "takeWhile (\<lambda>c. c \<noteq> CHR ''/'') (rev (p @ k)) = rev k"
    using assms by (cases p rule: rev_cases) (auto simp: takeWhile_eq_all_conv)
  then show ?thesis by (simp add: split_key_def)
qed

lemma split_key_concat: "split_key s = (p, k) \<Longrightarrow> p @ k = s"
proof -
  have "s = rev (dropWhile (\<lambda>c. c \<noteq> CHR ''/'') (rev s)) @ rev (takeWhile (\<lambda>c. c \<noteq> CHR ''/'') (rev s))"
    by (metis rev_append rev_rev_ident takeWhile_dropWhile_id)
  then show "split_key s = (p, k) \<Longrightarrow> p @ k = s"
    unfolding split_key_def Let_def by (metis Pair_inject append_eq_conv_conj append_take_drop_id diff_is_0_eq' length_append
        add_diff_cancel_right' )
qed

text \<open>
  A URI rebuilt from its components parses back to the same components, except that no URI of a
  file does: its first directory becomes the host of the rebuilt URI.
\<close>

lemma uri_round_trip:
  assumes "url_law (parse_url env)" "plain_uri p"
  shows "parse_remap_uri env (to_uri p) = Inr p \<longleftrightarrow> pu_scheme p \<noteq> ''file''"
proof -
  let ?path = "pu_prefix p @ pu_key p"
  have url: "parse_url env (to_uri p) = Some \<lparr> url_scheme = pu_scheme p, url_host = Some (pu_bucket p), url_path = ''/'' @ ?path \<rparr>"
    unfolding to_uri_form using assms unfolding url_law_def plain_uri_def by blast
  have host: "pu_bucket p \<noteq> []" using assms(2) by (simp add: plain_uri_def plain_host_def)
  have no_slash: "?path = [] \<or> hd ?path \<noteq> CHR ''/''"
    using assms(2) by (cases "pu_prefix p"; cases "pu_key p") (auto simp: plain_uri_def)
  then have trim: "trim_start_matches (CHR ''/'') (''/'' @ ?path) = ?path"
    by (cases ?path) (auto simp: trim_start_matches_def simp del: append_is_Nil_conv)
  show ?thesis
  proof (cases "pu_scheme p = ''file''")
    case True
    let ?b = "takeWhile (\<lambda>c. c \<noteq> CHR ''/'') ?path"
    obtain x k where sk: "split_key (drop (Suc (length ?b)) ?path) = (x, k)" by force
    have "parse_remap_uri env (to_uri p) = Inr \<lparr> pu_scheme = ''file'', pu_bucket = ?b, pu_prefix = x, pu_key = k \<rparr>"
      using url trim True sk by (simp add: parse_remap_uri_def Let_def)
    moreover have "p \<noteq> \<lparr> pu_scheme = ''file'', pu_bucket = ?b, pu_prefix = x, pu_key = k \<rparr>"
    proof
      assume p: "p = \<lparr> pu_scheme = ''file'', pu_bucket = ?b, pu_prefix = x, pu_key = k \<rparr>"
      have "x @ k = ?path" by (metis p ParsedUri.select_convs(3,4))
      then have "length ?path = length ?path - Suc (length ?b)" using split_key_concat [OF sk] by (metis length_drop)
      then have "?path = []" by (cases ?path) auto
      then show False using host p by (metis ParsedUri.select_convs(2) takeWhile.simps(1))
    qed
    ultimately show ?thesis using True by auto
  next
    case False
    have "split_key ?path = (pu_prefix p, pu_key p)"
      using assms(2) by (intro split_key_append) (auto simp: plain_uri_def)
    then show ?thesis using url trim False host by (simp add: parse_remap_uri_def Let_def)
  qed
qed

lemma plain_url_law: "url_law plain_url"
  unfolding url_law_def
proof (intro ballI allI impI)
  fix scheme h p :: string
  assume s: "scheme \<in> {''s3'', ''gs'', ''az'', ''file''}" and h: "plain_host scheme h"
  have "CHR '':'' \<notin> set scheme" using s by auto
  then have f: "find_sub ''://'' (scheme @ ''://'' @ r) = Some (length scheme)" for r
    using find_sub_first [of "CHR '':''" scheme "''//''" r] by simp
  have ns: "\<forall>c\<in>set h. c \<noteq> CHR ''/''" 
    using h host_char_slash [of scheme] unfolding plain_host_def list_all_iff by metis
  have "takeWhile (\<lambda>c. c \<noteq> CHR ''/'') (h @ ''/'' @ p) = h" "dropWhile (\<lambda>c. c \<noteq> CHR ''/'') (h @ ''/'' @ p) = ''/'' @ p"
    using ns by (simp_all add: takeWhile_append2 dropWhile_append2)
  then show "plain_url (scheme @ ''://'' @ h @ ''/'' @ p) = Some \<lparr> url_scheme = scheme, url_host = Some h, url_path = ''/'' @ p \<rparr>"
    using f [of "h @ ''/'' @ p"] by (simp add: plain_url_def Let_def)
qed

lemma uri_round_trip_witness:
  "parse_remap_uri sample_remap_env ''s3://bucket/d/k.dat''
     = Inr \<lparr> pu_scheme = ''s3'', pu_bucket = ''bucket'', pu_prefix = ''d/'', pu_key = ''k.dat'' \<rparr>
   \<and> parse_remap_uri sample_remap_env ''file://tmp/d/k.dat''
     \<noteq> Inr \<lparr> pu_scheme = ''file'', pu_bucket = ''tmp'', pu_prefix = ''d/'', pu_key = ''k.dat'' \<rparr>"
proof -
  have law: "url_law (parse_url sample_remap_env)" by (simp add: sample_remap_env_def plain_url_law)
  let ?s = "\<lparr> pu_scheme = ''s3'', pu_bucket = ''bucket'', pu_prefix = ''d/'', pu_key = ''k.dat'' \<rparr>"
  let ?f = "\<lparr> pu_scheme = ''file'', pu_bucket = ''tmp'', pu_prefix = ''d/'', pu_key = ''k.dat'' \<rparr>"
  have "plain_uri ?s" by code_simp
  moreover have "plain_uri ?f" by code_simp
  ultimately show ?thesis
    using uri_round_trip [OF law, of ?s] uri_round_trip [OF law, of ?f] by (simp add: to_uri_def)
qed

end
