(* ===== verification/Replay.thy ===== *)
theory Replay
  imports Remap Oplog_Merge
begin

text \<open>
  The replay of an op-log (\<open>src/replay_streaming.rs\<close>): the backpressure controller with its flap
  tracker, the URI of an operation, and the loop that schedules the rows, bounds the operations in
  flight, drains them when the modes flap and counts the results; the older in-memory replay
  (\<open>src/replay.rs\<close>) is at the end. Instants and durations are nanoseconds. Clock readings, the order
  in which operations end and the answers of the store are arguments.
\<close>

subsection \<open>Backpressure\<close>

datatype ReplayMode = NormalMode | BestEffortMode

definition show_replay_mode :: "ReplayMode \<Rightarrow> string" where
  "show_replay_mode m = (case m of NormalMode \<Rightarrow> ''normal'' | BestEffortMode \<Rightarrow> ''best-effort'')"

record FlappingTracker =
  fl_transitions :: "int list"
  max_per_minute :: nat

definition flapping_tracker_new :: "nat \<Rightarrow> FlappingTracker" where
  "flapping_tracker_new n = \<lparr> fl_transitions = [], max_per_minute = n \<rparr>"

definition record_transition :: "int \<Rightarrow> FlappingTracker \<Rightarrow> bool \<times> FlappingTracker" where
  "record_transition now t =
     (let ts = filter (\<lambda>x. now - int (from_secs 60) < x) (fl_transitions t) @ [now]
      in (max_per_minute t < length ts, t\<lparr>fl_transitions := ts\<rparr>))"

text \<open>The backpressure section of a configuration, with its defaults.\<close>

record ReplayConfig =
  rc_lag_threshold :: duration
  rc_recovery_threshold :: duration
  rc_max_flaps :: nat
  rc_drain_timeout :: duration
  rc_max_concurrent :: nat

definition ReplayConfig_default :: ReplayConfig where
  "ReplayConfig_default =
     \<lparr> rc_lag_threshold = from_secs 5, rc_recovery_threshold = from_secs 1, rc_max_flaps = 3,
       rc_drain_timeout = from_secs 10, rc_max_concurrent = 1000 \<rparr>"

record BackpressureController =
  bp_mode :: ReplayMode
  lag_threshold :: duration
  recovery_threshold :: duration
  flap_tracker :: FlappingTracker
  drain_timeout :: duration
  total_transitions :: nat
  flap_limit_exceeded :: bool

definition backpressure_new :: "duration \<Rightarrow> duration \<Rightarrow> nat \<Rightarrow> duration \<Rightarrow> BackpressureController" where
  "backpressure_new lag recovery flaps drain =
     \<lparr> bp_mode = NormalMode, lag_threshold = lag, recovery_threshold = recovery,
       flap_tracker = flapping_tracker_new flaps, drain_timeout = drain, total_transitions = 0,
       flap_limit_exceeded = False \<rparr>"

definition backpressure_from_config :: "ReplayConfig \<Rightarrow> BackpressureController" where
  "backpressure_from_config c =
     backpressure_new (rc_lag_threshold c) (rc_recovery_threshold c) (rc_max_flaps c) (rc_drain_timeout c)"

definition default_controller :: BackpressureController where
  "default_controller = backpressure_from_config ReplayConfig_default"

definition switch_mode :: "int \<Rightarrow> ReplayMode \<Rightarrow> BackpressureController \<Rightarrow> bool \<times> BackpressureController" where
  "switch_mode now m c =
     (let (over, t) = record_transition now (flap_tracker c);
          c' = c\<lparr>bp_mode := m, total_transitions := total_transitions c + 1, flap_tracker := t\<rparr>
      in if over then (False, c'\<lparr>flap_limit_exceeded := True\<rparr>) else (True, c'))"

text \<open>\<open>update\<close>: \<open>now\<close> is the reading that a recorded transition takes.\<close>

definition bp_update :: "int \<Rightarrow> duration \<Rightarrow> BackpressureController \<Rightarrow> bool \<times> BackpressureController" where
  "bp_update now lag c =
     (case bp_mode c of
        NormalMode \<Rightarrow> if lag_threshold c < lag then switch_mode now BestEffortMode c else (True, c)
      | BestEffortMode \<Rightarrow> if lag < recovery_threshold c then switch_mode now NormalMode c else (True, c))"

subsection \<open>Configuration, statistics and state of a replay\<close>

record ReplayRunConfig =
  target_uri :: "string option"
  speed :: rat
  continue_on_error :: bool
  max_concurrent :: "nat option"
  remap_config :: "RemapConfig option"
  rc_backpressure :: "ReplayConfig option"

definition ReplayRunConfig_default :: ReplayRunConfig where
  "ReplayRunConfig_default =
     \<lparr> target_uri = None, speed = 1, continue_on_error = False, max_concurrent = Some 1000,
       remap_config = None, rc_backpressure = None \<rparr>"

record ReplayStats =
  total_operations :: nat
  completed_operations :: nat
  failed_operations :: nat
  skipped_operations :: nat
  mode_transitions :: nat
  flap_exit :: bool
  peak_lag :: duration
  best_effort_time :: duration

definition ReplayStats_default :: ReplayStats where
  "ReplayStats_default =
     \<lparr> total_operations = 0, completed_operations = 0, failed_operations = 0, skipped_operations = 0,
       mode_transitions = 0, flap_exit = False, peak_lag = 0, best_effort_time = 0 \<rparr>"

text \<open>
  How one operation ends, and why a replay ends early: with an error, by a panic, or never. An
  operation is given by its row, its delay and the mode in which it was spawned. The state holds the
  numbers of the operations in flight and all operations spawned so far; the last two fields count
  the clock readings and the operations that have ended.
\<close>

datatype op_outcome = OpSucceeded | OpFailed string | OpPanicked

datatype stop = Failed string | Panics | Hangs

record spawned_op =
  sp_entry :: OpLogEntry
  sp_delay :: duration
  sp_mode :: ReplayMode

record replay_state =
  rs_stats :: ReplayStats
  rs_bp :: BackpressureController
  rs_best_start :: "int option"
  rs_tasks :: "nat list"
  rs_spawned :: "spawned_op list"
  rs_cache :: "string list"
  rs_reads :: nat
  rs_ends :: nat

record ('r, 'g) replay_env =
  rp_remap :: "('r, 'g) remap_env"
  rp_rng :: "nat \<Rightarrow> 'g"
  rp_clock :: "nat \<Rightarrow> int"
  rp_next :: "nat \<Rightarrow> nat"
  rp_open :: "string \<Rightarrow> string + unit"
  rp_reply :: "nat \<Rightarrow> string \<Rightarrow> op_outcome"
  rp_drained :: nat

subsection \<open>One operation\<close>

definition translate_uri :: "string \<Rightarrow> string \<Rightarrow> string \<Rightarrow> string" where
  "translate_uri file endpoint tgt =
     (let relative = (case strip_prefix endpoint file of Some r \<Rightarrow> r | None \<Rightarrow> file)
      in trim_end_matches (CHR ''/'') tgt @ ''/'' @ trim_start_matches (CHR ''/'') relative)"

definition replay_uri :: "('r, 'g) replay_env \<Rightarrow> ReplayRunConfig \<Rightarrow> nat \<Rightarrow> OpLogEntry \<Rightarrow> string + string" where
  "replay_uri env cfg n e =
     (case remap_config cfg of
        Some rules \<Rightarrow> fst (remap (rp_remap env) (ol_endpoint e @ ol_file e) (remap_engine_new rules (rp_rng env n)))
      | None \<Rightarrow>
          (case target_uri cfg of
             Some t \<Rightarrow> Inr (translate_uri (ol_file e) (ol_endpoint e) t)
           | None \<Rightarrow> Inr (ol_endpoint e @ ol_file e)))"

definition get_or_create_store :: "(string \<Rightarrow> string + unit) \<Rightarrow> string \<Rightarrow> string list \<Rightarrow> (string + unit) \<times> string list" where
  "get_or_create_store open_store uri cache =
     (let base = extract_base_uri uri
      in if base \<in> set cache then (Inr (), cache)
         else (case open_store uri of Inl e \<Rightarrow> (Inl e, cache) | Inr _ \<Rightarrow> (Inr (), cache @ [base])))"

definition op_context :: "string \<Rightarrow> string" where
  "op_context what =
     (if what = ''GET'' then ''Failed to get object from URI: ''
      else if what = ''PUT'' then ''Failed to put object to URI: ''
      else if what = ''DELETE'' then ''Failed to delete object from URI: ''
      else if what = ''LIST'' then ''Failed to list objects from URI: ''
      else ''Failed to stat object from URI: '')"

definition execute_replay_op ::
  "('r, 'g) replay_env \<Rightarrow> nat \<Rightarrow> OpLogEntry \<Rightarrow> string \<Rightarrow> string list \<Rightarrow> op_outcome \<times> string list" where
  "execute_replay_op env n e uri cache =
     (let (r, cache') = get_or_create_store (rp_open env) uri cache
      in (case r of
            Inl msg \<Rightarrow> OpFailed msg
          | Inr _ \<Rightarrow> (case rp_reply env n uri of OpFailed _ \<Rightarrow> OpFailed (op_context (ol_op e) @ uri) | x \<Rightarrow> x),
          cache'))"

definition run_replay_op ::
  "('r, 'g) replay_env \<Rightarrow> ReplayRunConfig \<Rightarrow> nat \<Rightarrow> OpLogEntry \<Rightarrow> string list \<Rightarrow> op_outcome \<times> string list" where
  "run_replay_op env cfg n e cache =
     (case replay_uri env cfg n e of
        Inl msg \<Rightarrow> (OpFailed ''Failed to apply remap rules'', cache)
      | Inr uri \<Rightarrow> execute_replay_op env n e uri cache)"

text \<open>The instant at which an operation whose task starts at \<open>now\<close> goes to the store.\<close>

definition issue_time :: "int \<Rightarrow> int \<Rightarrow> spawned_op \<Rightarrow> int" where
  "issue_time epoch now sp = (if sp_mode sp = NormalMode then max now (epoch + int (sp_delay sp)) else now)"

definition handle_task_result :: "op_outcome \<Rightarrow> ReplayStats \<Rightarrow> bool \<Rightarrow> string option \<times> ReplayStats" where
  "handle_task_result r stats cont =
     (case r of
        OpSucceeded \<Rightarrow> (None, stats\<lparr>completed_operations := completed_operations stats + 1\<rparr>)
      | OpFailed e \<Rightarrow> (if cont then None else Some ''Operation failed'', stats\<lparr>failed_operations := failed_operations stats + 1\<rparr>)
      | OpPanicked \<Rightarrow> (if cont then None else Some ''task panicked'', stats\<lparr>failed_operations := failed_operations stats + 1\<rparr>))"

subsection \<open>The operations in flight\<close>

definition complete_next ::
  "('r, 'g) replay_env \<Rightarrow> ReplayRunConfig \<Rightarrow> bool \<Rightarrow> replay_state \<Rightarrow> string option \<times> replay_state" where
  "complete_next env cfg cont st =
     (let pos = rp_next env (rs_ends st) mod length (rs_tasks st); n = rs_tasks st ! pos;
          (out, cache) = run_replay_op env cfg n (sp_entry (rs_spawned st ! n)) (rs_cache st);
          (err, stats) = handle_task_result out (rs_stats st) cont
      in (err, st\<lparr>rs_stats := stats, rs_tasks := take pos (rs_tasks st) @ drop (Suc pos) (rs_tasks st),
                  rs_cache := cache, rs_ends := rs_ends st + 1\<rparr>))"

lemma complete_next_tasks:
  assumes "rs_tasks st \<noteq> []"
  shows "Suc (length (rs_tasks (snd (complete_next env cfg cont st)))) = length (rs_tasks st)"
proof -
  have "rp_next env (rs_ends st) mod length (rs_tasks st) < length (rs_tasks st)" using assms by simp
  then show ?thesis by (simp add: complete_next_def split_beta Let_def)
qed

text \<open>
  Operations are awaited until fewer than \<open>m\<close> are in flight; without any in flight the loop of the
  code spins for ever. The loop at the end of a replay is the one with \<open>m = 1\<close>.
\<close>

function await_below ::
  "('r, 'g) replay_env \<Rightarrow> ReplayRunConfig \<Rightarrow> nat \<Rightarrow> replay_state \<Rightarrow> stop + replay_state" where
  "await_below env cfg m st =
     (if length (rs_tasks st) < m then Inr st
      else if rs_tasks st = [] then Inl Hangs
      else case complete_next env cfg (continue_on_error cfg) st of
             (Some e, _) \<Rightarrow> Inl (Failed e)
           | (None, st') \<Rightarrow> await_below env cfg m st')"
  by pat_completeness auto
termination
proof (relation "measure (\<lambda>(env, cfg, m, st). length (rs_tasks st))", goal_cases)
  case (2 env cfg m st x st')
  then show ?case using complete_next_tasks [of st env cfg "continue_on_error cfg"] by (metis in_measure lessI old.prod.case snd_conv)
qed simp

declare await_below.simps [simp del]

fun drain_tasks :: "('r, 'g) replay_env \<Rightarrow> ReplayRunConfig \<Rightarrow> nat \<Rightarrow> replay_state \<Rightarrow> replay_state" where
  "drain_tasks env cfg 0 st = st"
| "drain_tasks env cfg (Suc k) st =
     (if rs_tasks st = [] then st else drain_tasks env cfg k (snd (complete_next env cfg True st)))"

subsection \<open>The rows\<close>

text \<open>\<open>Duration::from_secs_f64\<close> of the scaled offset; it panics on infinite, negative and huge values.\<close>

definition scaled_delay :: "rat \<Rightarrow> int \<Rightarrow> duration option" where
  "scaled_delay sp elapsed =
     (if elapsed < 0 then Some 0
      else (let x = of_int elapsed / sp
            in if sp = 0 \<or> x < 0 \<or> of_nat (from_secs (u64_max + 1)) \<le> x then None else Some (nat (round x))))"

definition read_clock :: "('r, 'g) replay_env \<Rightarrow> replay_state \<Rightarrow> int \<times> replay_state" where
  "read_clock env st = (rp_clock env (rs_reads st), st\<lparr>rs_reads := rs_reads st + 1\<rparr>)"

definition track_mode :: "('r, 'g) replay_env \<Rightarrow> ReplayMode \<Rightarrow> replay_state \<Rightarrow> replay_state" where
  "track_mode env prev st =
     (if prev = bp_mode (rs_bp st) then st
      else case bp_mode (rs_bp st) of
             BestEffortMode \<Rightarrow> (let (t, st') = read_clock env st in st'\<lparr>rs_best_start := Some t\<rparr>)
           | NormalMode \<Rightarrow>
               (case rs_best_start st of
                  None \<Rightarrow> st
                | Some s \<Rightarrow>
                    (let (t, st') = read_clock env st; stats = rs_stats st
                     in st'\<lparr>rs_best_start := None,
                            rs_stats := stats\<lparr>best_effort_time := best_effort_time stats + nat (t - s)\<rparr>\<rparr>)))"

definition spawn_op :: "OpLogEntry \<Rightarrow> duration \<Rightarrow> replay_state \<Rightarrow> replay_state" where
  "spawn_op e delay st =
     st\<lparr>rs_tasks := rs_tasks st @ [length (rs_spawned st)],
        rs_spawned := rs_spawned st @ [\<lparr> sp_entry = e, sp_delay = delay, sp_mode = bp_mode (rs_bp st) \<rparr>]\<rparr>"

text \<open>The controller sees the lag of a row; a transition takes a reading of its own.\<close>

definition update_backpressure :: "('r, 'g) replay_env \<Rightarrow> duration \<Rightarrow> replay_state \<Rightarrow> bool \<times> replay_state" where
  "update_backpressure env lag st =
     (let (go, bp) = bp_update (rp_clock env (rs_reads st)) lag (rs_bp st)
      in (go, st\<lparr>rs_bp := bp, rs_reads := rs_reads st + (total_transitions bp - total_transitions (rs_bp st))\<rparr>))"

text \<open>One row: the boolean says whether the loop goes on.\<close>

definition process_row ::
  "('r, 'g) replay_env \<Rightarrow> ReplayRunConfig \<Rightarrow> nat \<Rightarrow> int \<Rightarrow> int \<Rightarrow> OpLogEntry \<Rightarrow> replay_state \<Rightarrow> stop + bool \<times> replay_state" where
  "process_row env cfg m first epoch e st =
     (let st = st\<lparr>rs_stats := (rs_stats st)\<lparr>total_operations := total_operations (rs_stats st) + 1\<rparr>\<rparr>
      in case scaled_delay (speed cfg) (ol_start e - first) of
           None \<Rightarrow> Inl Panics
         | Some delay \<Rightarrow>
             (let (now, st) = read_clock env st;
                  lag = nat (now - (epoch + int delay));
                  prev = bp_mode (rs_bp st);
                  st = st\<lparr>rs_stats := (rs_stats st)\<lparr>peak_lag := max (peak_lag (rs_stats st)) lag\<rparr>\<rparr>;
                  (go, st) = update_backpressure env lag st
              in if go then bind_result (await_below env cfg m (spawn_op e delay (track_mode env prev st))) (\<lambda>st. Inr (True, st))
                 else (let st = drain_tasks env cfg (rp_drained env) st
                       in Inr (False, st\<lparr>rs_stats := (rs_stats st)\<lparr>flap_exit := True\<rparr>\<rparr>))))"

definition row_error :: "string \<Rightarrow> string" where
  "row_error e = ''replay stopped at an unsupported or unreadable op-log row: '' @ e"

definition skip_row :: "replay_state \<Rightarrow> replay_state" where
  "skip_row st = st\<lparr>rs_stats := (rs_stats st)\<lparr>skipped_operations := skipped_operations (rs_stats st) + 1\<rparr>\<rparr>"

fun replay_rows ::
  "('r, 'g) replay_env \<Rightarrow> ReplayRunConfig \<Rightarrow> nat \<Rightarrow> int \<Rightarrow> int \<Rightarrow> oplog_file \<Rightarrow> replay_state \<Rightarrow> stop + replay_state" where
  "replay_rows env cfg m first epoch [] st = Inr st"
| "replay_rows env cfg m first epoch (Inl e # rows) st =
     (if continue_on_error cfg then replay_rows env cfg m first epoch rows (skip_row st)
      else Inl (Failed (row_error e)))"
| "replay_rows env cfg m first epoch (Inr e # rows) st =
     bind_result (process_row env cfg m first epoch e st) (\<lambda>(go, st').
       if go then replay_rows env cfg m first epoch rows st' else Inr st')"

text \<open>The rows up to the first readable one, which sets the epoch.\<close>

fun first_row :: "bool \<Rightarrow> oplog_file \<Rightarrow> nat \<Rightarrow> string + (OpLogEntry \<times> oplog_file) option \<times> nat" where
  "first_row cont [] k = Inr (None, k)"
| "first_row cont (Inl e # rows) k = (if cont then first_row cont rows (k + 1) else Inl (row_error e))"
| "first_row cont (Inr e # rows) k = Inr (Some (e, rows), k)"

definition initial_state :: "ReplayRunConfig \<Rightarrow> nat \<Rightarrow> replay_state" where
  "initial_state cfg skipped =
     \<lparr> rs_stats = ReplayStats_default\<lparr>skipped_operations := skipped\<rparr>,
       rs_bp = (case rc_backpressure cfg of Some c \<Rightarrow> backpressure_from_config c | None \<Rightarrow> default_controller),
       rs_best_start = None, rs_tasks = [], rs_spawned = [], rs_cache = [], rs_reads = 0, rs_ends = 0 \<rparr>"

definition end_best_effort :: "('r, 'g) replay_env \<Rightarrow> replay_state \<Rightarrow> replay_state" where
  "end_best_effort env st =
     (case rs_best_start st of
        None \<Rightarrow> st
      | Some s \<Rightarrow>
          (let (t, st') = read_clock env st; stats = rs_stats st
           in st'\<lparr>rs_stats := stats\<lparr>best_effort_time := best_effort_time stats + nat (t - s)\<rparr>\<rparr>))"

text \<open>A whole replay, up to its final state, and the statistics it returns.\<close>

definition replay_run ::
  "('r, 'g) replay_env \<Rightarrow> ReplayRunConfig \<Rightarrow> oplog_file \<Rightarrow> stop + replay_state" where
  "replay_run env cfg rows =
     (case first_row (continue_on_error cfg) rows 0 of
        Inl e \<Rightarrow> Inl (Failed e)
      | Inr (None, skipped) \<Rightarrow> Inr (initial_state cfg skipped)
      | Inr (Some (e, rest), skipped) \<Rightarrow>
          (let st = initial_state cfg skipped;
               m = (case max_concurrent cfg of Some n \<Rightarrow> n | None \<Rightarrow> 1000);
               (epoch, st) = read_clock env st;
               st = spawn_op e 0 (st\<lparr>rs_stats := (rs_stats st)\<lparr>total_operations := 1\<rparr>\<rparr>)
           in bind_result (replay_rows env cfg m (ol_start e) epoch rest st) (\<lambda>st.
              bind_result (await_below env cfg 1 (end_best_effort env st)) (\<lambda>st.
                Inr (st\<lparr>rs_stats := (rs_stats st)\<lparr>mode_transitions := total_transitions (rs_bp st)\<rparr>\<rparr>)))))"

definition replay_workload_streaming ::
  "('r, 'g) replay_env \<Rightarrow> ReplayRunConfig \<Rightarrow> string + oplog_file \<Rightarrow> stop + ReplayStats" where
  "replay_workload_streaming env cfg source =
     (case source of
        Inl e \<Rightarrow> Inl (Failed ''Failed to open streaming op-log reader'')
      | Inr rows \<Rightarrow> bind_result (replay_run env cfg rows) (\<lambda>st. Inr (rs_stats st)))"

subsection \<open>The count of operations\<close>

text \<open>Every operation spawned has ended or is in flight; ending one changes nothing else.\<close>

definition counted :: "replay_state \<Rightarrow> bool" where
  "counted st =
     (completed_operations (rs_stats st) + failed_operations (rs_stats st) + length (rs_tasks st) = length (rs_spawned st))"

definition same_rows :: "replay_state \<Rightarrow> replay_state \<Rightarrow> bool" where
  "same_rows st st' =
     (rs_spawned st' = rs_spawned st \<and> rs_bp st' = rs_bp st \<and> rs_best_start st' = rs_best_start st \<and> rs_reads st' = rs_reads st
      \<and> total_operations (rs_stats st') = total_operations (rs_stats st)
      \<and> skipped_operations (rs_stats st') = skipped_operations (rs_stats st) \<and> flap_exit (rs_stats st') = flap_exit (rs_stats st))"

lemma same_rows_refl [simp]: "same_rows st st" by (simp add: same_rows_def)

lemma same_rows_trans: "same_rows a b \<Longrightarrow> same_rows b c \<Longrightarrow> same_rows a c" by (simp add: same_rows_def)

lemma handle_task_result_ok:
  assumes "handle_task_result out stats cont = (err, stats')"
  shows "completed_operations stats' + failed_operations stats' = Suc (completed_operations stats + failed_operations stats)"
    and "total_operations stats' = total_operations stats \<and> skipped_operations stats' = skipped_operations stats
      \<and> flap_exit stats' = flap_exit stats"
    and "cont \<Longrightarrow> err = None" "\<not> cont \<Longrightarrow> err = None \<Longrightarrow> failed_operations stats' = failed_operations stats"
  using assms by (cases out; force simp: handle_task_result_def)+

lemma complete_next_ok:
  assumes "complete_next env cfg cont st = (err, st')" "rs_tasks st \<noteq> []"
  shows "same_rows st st'" "counted st \<Longrightarrow> counted st'" "cont \<Longrightarrow> err = None"
    and "\<not> cont \<Longrightarrow> err = None \<Longrightarrow> failed_operations (rs_stats st') = failed_operations (rs_stats st)"
proof -
  obtain out cache stats ts where h: "handle_task_result out (rs_stats st) cont = (err, stats)"
    and st': "st' = st\<lparr>rs_stats := stats, rs_tasks := ts, rs_cache := cache, rs_ends := rs_ends st + 1\<rparr>"
    using assms(1) by (simp add: complete_next_def Let_def split: prod.splits) (metis (no_types))
  have ts: "Suc (length ts) = length (rs_tasks st)"
    using complete_next_tasks [OF assms(2), of env cfg cont] assms(1) st' by simp
  note h = handle_task_result_ok [OF h]
  show "same_rows st st'" using h(2) by (simp add: st' same_rows_def)
  show "counted st \<Longrightarrow> counted st'" using h(1) ts by (simp add: st' counted_def)
  show "cont \<Longrightarrow> err = None" by (rule h(3))
  show "\<not> cont \<Longrightarrow> err = None \<Longrightarrow> failed_operations (rs_stats st') = failed_operations (rs_stats st)"
    using h(4) by (simp add: st')
qed

lemma await_below_ok:
  assumes "await_below env cfg m st = Inr st'"
  shows "same_rows st st' \<and> (counted st \<longrightarrow> counted st') \<and> length (rs_tasks st') < m
    \<and> (\<not> continue_on_error cfg \<longrightarrow> failed_operations (rs_stats st') = failed_operations (rs_stats st))"
  using assms
proof (induction env cfg m st rule: await_below.induct)
  case (1 env cfg m st)
  show ?case
  proof (cases "length (rs_tasks st) < m")
    case True
    then show ?thesis using 1(2) by (simp add: await_below.simps)
  next
    case False
    then have ne: "rs_tasks st \<noteq> []" using 1(2) by (auto simp: await_below.simps)
    obtain err st1 where c: "complete_next env cfg (continue_on_error cfg) st = (err, st1)" by force
    then have err: "err = None" and rec: "await_below env cfg m st1 = Inr st'"
      using 1(2) False ne by (auto simp: await_below.simps [of env cfg m st] split: option.splits)
    note step = complete_next_ok [OF c ne]
    have "same_rows st1 st' \<and> (counted st1 \<longrightarrow> counted st') \<and> length (rs_tasks st') < m
        \<and> (\<not> continue_on_error cfg \<longrightarrow> failed_operations (rs_stats st') = failed_operations (rs_stats st1))"
      using 1(1) [OF False ne _ err rec] c by simp
    then show ?thesis using step(1,2) step(4) [OF _ err] same_rows_trans [OF step(1)] by (elim conjE) simp
  qed
qed

lemma drain_tasks_ok: "same_rows st (drain_tasks env cfg k st) \<and> (counted st \<longrightarrow> counted (drain_tasks env cfg k st))"
proof (induction k arbitrary: st)
  case (Suc k)
  obtain err st1 where c: "complete_next env cfg True st = (err, st1)" by force
  show ?case
  proof (cases "rs_tasks st = []")
    case False
    have "drain_tasks env cfg (Suc k) st = drain_tasks env cfg k st1" using False c by simp
    then show ?thesis
      using Suc.IH [of st1] complete_next_ok(2) [OF c False] same_rows_trans [OF complete_next_ok(1) [OF c False]] by (elim conjE) simp
  qed simp
qed simp

lemma bookkeeping [simp]:
  "rs_tasks (track_mode env prev st) = rs_tasks st" "rs_spawned (track_mode env prev st) = rs_spawned st"
  "total_operations (rs_stats (track_mode env prev st)) = total_operations (rs_stats st)"
  "completed_operations (rs_stats (track_mode env prev st)) = completed_operations (rs_stats st)"
  "failed_operations (rs_stats (track_mode env prev st)) = failed_operations (rs_stats st)"
  "skipped_operations (rs_stats (track_mode env prev st)) = skipped_operations (rs_stats st)"
  "flap_exit (rs_stats (track_mode env prev st)) = flap_exit (rs_stats st)"
  "rs_bp (track_mode env prev st) = rs_bp st"
  by (simp_all add: track_mode_def read_clock_def Let_def split: ReplayMode.split option.split)

lemma update_frame:
  "update_backpressure env lag st = (go, st') \<Longrightarrow> rs_stats st' = rs_stats st \<and> rs_tasks st' = rs_tasks st \<and> rs_spawned st' = rs_spawned st"
  by (auto simp: update_backpressure_def split: prod.splits)

lemma spawn_counted: "counted (spawn_op e d st) = counted st"
  by (simp add: counted_def spawn_op_def)

text \<open>What the parts of the state that count operations are before and after a row.\<close>

lemma process_row_ok:
  assumes "process_row env cfg m first epoch e st = Inr (go, st')" "counted st"
  shows "counted st' \<and> total_operations (rs_stats st') = Suc (total_operations (rs_stats st))
    \<and> skipped_operations (rs_stats st') = skipped_operations (rs_stats st)
    \<and> (if go then flap_exit (rs_stats st') = flap_exit (rs_stats st) \<and> length (rs_tasks st') < m
              \<and> (\<exists>d md. scaled_delay (speed cfg) (ol_start e - first) = Some d
                    \<and> rs_spawned st' = rs_spawned st @ [\<lparr> sp_entry = e, sp_delay = d, sp_mode = md \<rparr>])
              \<and> (\<not> continue_on_error cfg \<longrightarrow> failed_operations (rs_stats st') = failed_operations (rs_stats st))
       else flap_exit (rs_stats st') \<and> rs_spawned st' = rs_spawned st)"
proof -
  let ?a = "st\<lparr>rs_stats := (rs_stats st)\<lparr>total_operations := Suc (total_operations (rs_stats st))\<rparr>\<rparr>"
  obtain d where d: "scaled_delay (speed cfg) (ol_start e - first) = Some d"
    using assms(1) by (auto simp: process_row_def Let_def split: option.splits)
  obtain now b where rd: "read_clock env ?a = (now, b)" by force
  let ?lag = "nat (now - (epoch + int d))"
  let ?c = "b\<lparr>rs_stats := (rs_stats b)\<lparr>peak_lag := max (peak_lag (rs_stats b)) ?lag\<rparr>\<rparr>"
  obtain go' c where up: "update_backpressure env ?lag ?c = (go', c)" by force
  have c: "rs_tasks c = rs_tasks st" "rs_spawned c = rs_spawned st"
      "total_operations (rs_stats c) = Suc (total_operations (rs_stats st))"
      "completed_operations (rs_stats c) = completed_operations (rs_stats st)"
      "failed_operations (rs_stats c) = failed_operations (rs_stats st)"
      "skipped_operations (rs_stats c) = skipped_operations (rs_stats st)" "flap_exit (rs_stats c) = flap_exit (rs_stats st)"
    using update_frame [OF up] rd by (auto simp: read_clock_def)
  have row: "process_row env cfg m first epoch e st =
      (if go' then bind_result (await_below env cfg m (spawn_op e d (track_mode env (bp_mode (rs_bp b)) c))) (\<lambda>st. Inr (True, st))
       else Inr (False, (drain_tasks env cfg (rp_drained env) c)\<lparr>rs_stats := (rs_stats (drain_tasks env cfg (rp_drained env) c))\<lparr>flap_exit := True\<rparr>\<rparr>))"
    by (simp add: process_row_def d rd up Let_def)
  show ?thesis
  proof (cases go')
    case True
    let ?s = "spawn_op e d (track_mode env (bp_mode (rs_bp b)) c)"
    have go: "go" and aw: "await_below env cfg m ?s = Inr st'"
      using assms(1) row True by (auto simp: bind_result_Inr_iff)
    have s: "counted ?s" using c assms(2) by (simp add: spawn_counted) (simp add: counted_def)
    show ?thesis using await_below_ok [OF aw] s go d c by (simp add: same_rows_def spawn_op_def)
  next
    case False
    let ?t = "drain_tasks env cfg (rp_drained env) c"
    have st': "st' = ?t\<lparr>rs_stats := (rs_stats ?t)\<lparr>flap_exit := True\<rparr>\<rparr>" and go: "\<not> go" using assms(1) row False by auto
    have "counted c" using c assms(2) by (simp add: counted_def)
    then show ?thesis using drain_tasks_ok [of c env cfg "rp_drained env"] st' go c by (simp add: same_rows_def counted_def)
  qed
qed

definition good_rows :: "oplog_file \<Rightarrow> OpLogEntry list" where
  "good_rows rows = concat (map (\<lambda>r. case r of Inl _ \<Rightarrow> [] | Inr e \<Rightarrow> [e]) rows)"

definition bad_rows :: "oplog_file \<Rightarrow> nat" where
  "bad_rows rows = length rows - length (good_rows rows)"

lemma good_rows_simps [simp]:
  "good_rows [] = []" "good_rows (Inl x # rows) = good_rows rows" "good_rows (Inr e # rows) = e # good_rows rows"
  by (simp_all add: good_rows_def)

lemma length_good_rows: "length (good_rows rows) \<le> length rows"
proof (induction rows)
  case (Cons r rows)
  then show ?case by (cases r) auto
qed simp

lemma bad_rows_simps [simp]:
  "bad_rows [] = 0" "bad_rows (Inl x # rows) = Suc (bad_rows rows)" "bad_rows (Inr e # rows) = bad_rows rows"
  using length_good_rows [of rows] by (simp_all add: bad_rows_def Suc_diff_le)

text \<open>
  What the rows of a log leave behind: all of them without a flap exit, else a first part. An
  operation's delay is its scaled offset.
\<close>

definition timed :: "ReplayRunConfig \<Rightarrow> int \<Rightarrow> spawned_op \<Rightarrow> bool" where
  "timed cfg first sp = (scaled_delay (speed cfg) (ol_start (sp_entry sp) - first) = Some (sp_delay sp))"

lemma replay_rows_ok:
  assumes "replay_rows env cfg m first epoch rows st = Inr st'" "counted st" "\<not> flap_exit (rs_stats st)"
    "total_operations (rs_stats st) = length (rs_spawned st)"
  shows "counted st'
    \<and> total_operations (rs_stats st') = length (rs_spawned st') + (if flap_exit (rs_stats st') then 1 else 0)
    \<and> (\<exists>new. rs_spawned st' = rs_spawned st @ new \<and> list_all (timed cfg first) new
          \<and> (if flap_exit (rs_stats st') then \<exists>rest. rest \<noteq> [] \<and> good_rows rows = map sp_entry new @ rest
             else map sp_entry new = good_rows rows
               \<and> skipped_operations (rs_stats st') = skipped_operations (rs_stats st) + bad_rows rows))
    \<and> (\<not> continue_on_error cfg \<longrightarrow> skipped_operations (rs_stats st') = skipped_operations (rs_stats st)
          \<and> (\<not> flap_exit (rs_stats st') \<longrightarrow> failed_operations (rs_stats st') = failed_operations (rs_stats st)))"
  using assms
proof (induction rows arbitrary: st)
  case (Cons r rows)
  show ?case
  proof (cases r)
    case (Inl x)
    have k: "counted (skip_row st) = counted st" by (simp add: counted_def skip_row_def)
    show ?thesis using Cons.IH [of "skip_row st"] Cons.prems Inl k by (auto simp: skip_row_def split: if_splits)
  next
    case (Inr e)
    obtain go st1 where p: "process_row env cfg m first epoch e st = Inr (go, st1)"
      and rec: "(if go then replay_rows env cfg m first epoch rows st1 else Inr st1) = Inr st'"
      using Cons.prems(1) Inr by (auto simp: bind_result_Inr_iff)
    note step = process_row_ok [OF p Cons.prems(2)]
    show ?thesis
    proof (cases go)
      case False
      then have "st' = st1" using rec by simp
      then show ?thesis using step False Inr Cons.prems by (auto intro: exI [of _ "[]"])
    next
      case True
      obtain d md where sp: "scaled_delay (speed cfg) (ol_start e - first) = Some d"
          "rs_spawned st1 = rs_spawned st @ [\<lparr> sp_entry = e, sp_delay = d, sp_mode = md \<rparr>]"
        using step True by auto
      let ?e = "\<lparr> sp_entry = e, sp_delay = d, sp_mode = md \<rparr>"
      have "replay_rows env cfg m first epoch rows st1 = Inr st'" using rec True by simp
      note ih = Cons.IH [OF this]
      have pre: "counted st1" "\<not> flap_exit (rs_stats st1)" "total_operations (rs_stats st1) = length (rs_spawned st1)"
        "skipped_operations (rs_stats st1) = skipped_operations (rs_stats st)"
        "\<not> continue_on_error cfg \<longrightarrow> failed_operations (rs_stats st1) = failed_operations (rs_stats st)"
        using step True Cons.prems sp(2) by simp_all
      obtain new where new: "rs_spawned st' = rs_spawned st1 @ new" "list_all (timed cfg first) new"
          "if flap_exit (rs_stats st') then \<exists>rest. rest \<noteq> [] \<and> good_rows rows = map sp_entry new @ rest
           else map sp_entry new = good_rows rows \<and> skipped_operations (rs_stats st') = skipped_operations (rs_stats st1) + bad_rows rows"
        using ih [OF pre(1-3)] by blast
      have t: "timed cfg first ?e" using sp(1) by (simp add: timed_def)
      have "rs_spawned st' = rs_spawned st @ (?e # new)" "list_all (timed cfg first) (?e # new)"
        using new sp(2) t by simp_all
      then show ?thesis using ih [OF pre(1-3)] pre new(3) Inr by (intro conjI exI [of _ "?e # new"]) (auto split: if_splits)
    qed
  qed
qed auto

lemma first_row_ok:
  "first_row cont rows k = Inr (x, n) \<Longrightarrow>
     (case x of
        None \<Rightarrow> good_rows rows = [] \<and> n = k + bad_rows rows
      | Some (e, rest) \<Rightarrow> good_rows rows = e # good_rows rest \<and> n + bad_rows rest = k + bad_rows rows)
     \<and> (\<not> cont \<longrightarrow> n = k)"
proof (induction cont rows k rule: first_row.induct)
  case (2 cont e rows k)
  then show ?case by (fastforce split: if_splits option.splits)
qed auto

lemma initial_state_fields [simp]:
  "rs_tasks (initial_state cfg n) = []" "rs_spawned (initial_state cfg n) = []"
  "rs_stats (initial_state cfg n) = ReplayStats_default\<lparr>skipped_operations := n\<rparr>" "rs_best_start (initial_state cfg n) = None"
  by (simp_all add: initial_state_def)

lemma initial_counted: "counted (initial_state cfg n)"
  by (simp add: counted_def ReplayStats_default_def)

lemma end_best_effort_frame [simp]:
  "rs_tasks (end_best_effort env st) = rs_tasks st" "rs_spawned (end_best_effort env st) = rs_spawned st"
  "total_operations (rs_stats (end_best_effort env st)) = total_operations (rs_stats st)"
  "completed_operations (rs_stats (end_best_effort env st)) = completed_operations (rs_stats st)"
  "failed_operations (rs_stats (end_best_effort env st)) = failed_operations (rs_stats st)"
  "skipped_operations (rs_stats (end_best_effort env st)) = skipped_operations (rs_stats st)"
  "flap_exit (rs_stats (end_best_effort env st)) = flap_exit (rs_stats st)"
  by (simp_all add: end_best_effort_def read_clock_def Let_def split: option.split)

lemma replay_run_ok:
  assumes "replay_run env cfg rows = Inr st"
  shows "rs_tasks st = [] \<and> counted st
    \<and> total_operations (rs_stats st) = length (rs_spawned st) + (if flap_exit (rs_stats st) then 1 else 0)
    \<and> (if flap_exit (rs_stats st) then \<exists>rest. rest \<noteq> [] \<and> good_rows rows = map sp_entry (rs_spawned st) @ rest
       else map sp_entry (rs_spawned st) = good_rows rows \<and> skipped_operations (rs_stats st) = bad_rows rows)
    \<and> (rs_spawned st \<noteq> [] \<longrightarrow> sp_delay (hd (rs_spawned st)) = 0
          \<and> list_all (timed cfg (ol_start (sp_entry (hd (rs_spawned st))))) (tl (rs_spawned st)))
    \<and> (\<not> continue_on_error cfg \<longrightarrow> skipped_operations (rs_stats st) = 0 \<and> (\<not> flap_exit (rs_stats st) \<longrightarrow> failed_operations (rs_stats st) = 0))"
proof -
  obtain x n where f: "first_row (continue_on_error cfg) rows 0 = Inr (x, n)"
    using assms by (auto simp: replay_run_def split: sum.splits)
  note fr = first_row_ok [OF f]
  show ?thesis
  proof (cases x)
    case None
    then show ?thesis using assms fr f initial_counted by (auto simp: replay_run_def ReplayStats_default_def)
  next
    case (Some y)
    obtain e rest where y: "x = Some (e, rest)" using Some by (cases y) simp
    obtain epoch st0 where rd: "read_clock env (initial_state cfg n) = (epoch, st0)" by force
    let ?s = "spawn_op e 0 (st0\<lparr>rs_stats := (rs_stats st0)\<lparr>total_operations := 1\<rparr>\<rparr>)"
    obtain m st1 st2 where rr: "replay_rows env cfg m (ol_start e) epoch rest ?s = Inr st1"
      and aw: "await_below env cfg 1 (end_best_effort env st1) = Inr st2"
      and st: "st = st2\<lparr>rs_stats := (rs_stats st2)\<lparr>mode_transitions := total_transitions (rs_bp st2)\<rparr>\<rparr>"
      using assms f y rd by (auto simp: replay_run_def bind_result_Inr_iff Let_def)
    have s: "counted ?s" "\<not> flap_exit (rs_stats ?s)" "total_operations (rs_stats ?s) = length (rs_spawned ?s)"
        "skipped_operations (rs_stats ?s) = n" "failed_operations (rs_stats ?s) = 0"
        "rs_spawned ?s = [\<lparr> sp_entry = e, sp_delay = 0, sp_mode = bp_mode (rs_bp st0) \<rparr>]"
      using rd by (auto simp: read_clock_def counted_def spawn_op_def ReplayStats_default_def)
    note r = replay_rows_ok [OF rr s(1-3)]
    note a = await_below_ok [OF aw]
    have "counted (end_best_effort env st1)" using r by (simp add: counted_def)
    then have c: "counted st2" "rs_tasks st2 = []" "rs_spawned st2 = rs_spawned st1"
        "total_operations (rs_stats st2) = total_operations (rs_stats st1)"
        "skipped_operations (rs_stats st2) = skipped_operations (rs_stats st1)" "flap_exit (rs_stats st2) = flap_exit (rs_stats st1)"
        "\<not> continue_on_error cfg \<longrightarrow> failed_operations (rs_stats st2) = failed_operations (rs_stats st1)"
      using a by (simp_all add: same_rows_def)
    obtain new where new: "rs_spawned st1 = rs_spawned ?s @ new" "list_all (timed cfg (ol_start e)) new"
        "if flap_exit (rs_stats st1) then \<exists>more. more \<noteq> [] \<and> good_rows rest = map sp_entry new @ more
         else map sp_entry new = good_rows rest \<and> skipped_operations (rs_stats st1) = skipped_operations (rs_stats ?s) + bad_rows rest"
      using r by blast
    have "counted st" using c(1) by (simp add: st counted_def)
    moreover have "good_rows rows = e # good_rows rest" "n + bad_rows rest = bad_rows rows"
        "\<not> continue_on_error cfg \<longrightarrow> n = 0" using fr y by simp_all
    ultimately show ?thesis using r c new s(4-6) by (auto simp: st split: if_splits)
  qed
qed

text \<open>
  C25: When a replay returns, every row it has read is accounted for: without a flap exit all readable
  rows were replayed and have succeeded or failed, and the others were skipped; after a flap exit one
  row has been counted but not replayed. Without \<open>continue_on_error\<close> nothing was skipped, and nothing
  failed before a flap exit.
\<close>

theorem replay_accounts_for_rows:
  assumes "replay_workload_streaming env cfg (Inr rows) = Inr stats"
  shows "total_operations stats = completed_operations stats + failed_operations stats + (if flap_exit stats then 1 else 0)
    \<and> total_operations stats \<le> length (good_rows rows)
    \<and> (\<not> flap_exit stats \<longrightarrow> total_operations stats = length (good_rows rows) \<and> skipped_operations stats = bad_rows rows)
    \<and> (\<not> continue_on_error cfg \<longrightarrow> skipped_operations stats = 0 \<and> (\<not> flap_exit stats \<longrightarrow> failed_operations stats = 0))"
proof -
  obtain st where st: "replay_run env cfg rows = Inr st" "stats = rs_stats st"
    using assms by (auto simp: replay_workload_streaming_def bind_result_Inr_iff)
  note r = replay_run_ok [OF st(1)]
  have "rs_tasks st = []" "counted st" using r by simp_all
  then have c: "completed_operations stats + failed_operations stats = length (rs_spawned st)" using st(2) by (simp add: counted_def)
  show ?thesis
  proof (cases "flap_exit stats")
    case True
    then obtain more where "more \<noteq> []" "good_rows rows = map sp_entry (rs_spawned st) @ more" using r st(2) by auto
    then have "length (rs_spawned st) < length (good_rows rows)" by simp
    then show ?thesis using r c st(2) True by simp
  next
    case False
    then have m: "map sp_entry (rs_spawned st) = good_rows rows" using r st(2) by simp
    have "length (rs_spawned st) = length (good_rows rows)" unfolding m [symmetric] by simp
    then show ?thesis using r c st(2) False by (elim conjE) simp
  qed
qed

lemma scaled_delay_mono:
  assumes "a \<le> b" "scaled_delay sp a = Some x" "scaled_delay sp b = Some y"
  shows "x \<le> y"
proof (cases "a < 0")
  case True
  then show ?thesis using assms(2) by (simp add: scaled_delay_def)
next
  case False
  then have a: "sp \<noteq> 0" "0 \<le> of_int a / sp" "x = nat (round (of_int a / sp))"
    and b: "0 \<le> of_int b / sp" "y = nat (round (of_int b / sp))"
    using assms by (auto simp: scaled_delay_def Let_def split: if_splits)
  have "of_int a / sp \<le> of_int b / sp"
  proof (cases "0 < sp")
    case True
    then show ?thesis using assms(1) by (simp add: divide_right_mono)
  next
    case neg: False
    then have "sp < 0" using a(1) by simp
    then have "of_int b \<le> (0 :: rat)" using b(1) by (simp add: zero_le_divide_iff)
    then have "a = 0" "b = 0" using False assms(1) by simp_all
    then show ?thesis by simp
  qed
  then show ?thesis using a b by (simp add: nat_mono round_mono)
qed

text \<open>
  A replay without a flap exit spawns the readable rows in their order, the first at once and
  each other one at its scaled distance from the first; on a sorted log no row is scheduled before
  an earlier one.
\<close>

lemma replay_follows_timeline:
  assumes "replay_run env cfg rows = Inr st" "\<not> flap_exit (rs_stats st)" "good_rows rows = e # es"
  shows "map sp_entry (rs_spawned st) = good_rows rows \<and> sp_delay (hd (rs_spawned st)) = 0
    \<and> list_all (timed cfg (ol_start e)) (tl (rs_spawned st))
    \<and> (sorted (map ol_start (good_rows rows)) \<longrightarrow> sorted (map sp_delay (rs_spawned st)))"
proof -
  note r = replay_run_ok [OF assms(1)]
  have m: "map sp_entry (rs_spawned st) = e # es" using r assms(2,3) by simp
  then obtain s ss where s: "rs_spawned st = s # ss" "sp_entry s = e" "map sp_entry ss = es" by (cases "rs_spawned st") auto
  have t: "list_all (timed cfg (ol_start e)) ss" "sp_delay s = 0" using r s by simp_all
  have "sorted (map sp_delay ss)" if "sorted (map ol_start (map sp_entry ss))"
    using that t(1)
  proof (induction ss)
    case (Cons a ss)
    have "sp_delay a \<le> sp_delay b" if b: "b \<in> set ss" for b
    proof -
      have "ol_start (sp_entry a) \<le> ol_start (sp_entry b)" using Cons.prems(1) b by simp
      moreover have "timed cfg (ol_start e) b" using Cons.prems(2) b by (simp add: list_all_iff)
      ultimately show ?thesis using Cons.prems(2) 
        by (intro scaled_delay_mono [of "ol_start (sp_entry a) - ol_start e" "ol_start (sp_entry b) - ol_start e" "speed cfg"])
          (simp_all add: timed_def)
    qed
    then show ?case using Cons by simp
  qed simp
  then show ?thesis using m s t assms(3) by simp
qed

subsection \<open>Backpressure against its history\<close>

text \<open>
  The reference: the mode a lag asks for, and the instants of the changes it makes along a sequence
  of lags. A change is one too many when more than the allowed number, itself included, lie in the
  minute before it.
\<close>

definition wanted_mode :: "duration \<Rightarrow> duration \<Rightarrow> ReplayMode \<Rightarrow> duration \<Rightarrow> ReplayMode" where
  "wanted_mode lag_t rec_t m lag = (if lag_t < lag then BestEffortMode else if lag < rec_t then NormalMode else m)"

fun mode_changes :: "duration \<Rightarrow> duration \<Rightarrow> ReplayMode \<Rightarrow> (int \<times> duration) list \<Rightarrow> int list" where
  "mode_changes lag_t rec_t m [] = []"
| "mode_changes lag_t rec_t m ((now, lag) # steps) =
     (let m' = wanted_mode lag_t rec_t m lag
      in (if m' = m then [] else [now]) @ mode_changes lag_t rec_t m' steps)"

definition recent :: "int list \<Rightarrow> int \<Rightarrow> int list" where
  "recent ts now = filter (\<lambda>t. now - int (from_secs 60) < t) ts"

definition flaps_allowed :: "nat \<Rightarrow> int list \<Rightarrow> bool" where
  "flaps_allowed n ch = (\<forall>i\<in>{..<length ch}. length (recent (take (Suc i) ch) (ch ! i)) \<le> n)"

fun bp_updates :: "(int \<times> duration) list \<Rightarrow> BackpressureController \<Rightarrow> bool \<times> BackpressureController" where
  "bp_updates [] c = (True, c)"
| "bp_updates ((now, lag) # steps) c =
     (let (go, c') = bp_update now lag c in if go then bp_updates steps c' else (False, c'))"

text \<open>The controller after the changes \<open>ch\<close>: its tracker holds those of the last minute.\<close>

definition bp_inv :: "int list \<Rightarrow> BackpressureController \<Rightarrow> bool" where
  "bp_inv ch c =
     (total_transitions c = length ch
      \<and> fl_transitions (flap_tracker c) = (if ch = [] then [] else recent ch (last ch)) \<and> sorted ch)"

lemma recent_recent: "x \<le> y \<Longrightarrow> recent (recent ts x) y = recent ts y"
  by (auto simp: recent_def intro: filter_cong)

lemma recent_snoc: "recent (ch @ [now]) now = recent ch now @ [now]"
  by (simp add: recent_def from_secs_def)

lemma flaps_allowed_snoc:
  "flaps_allowed n (ch @ [now]) \<longleftrightarrow> flaps_allowed n ch \<and> length (recent ch now @ [now]) \<le> n"
proof -
  have "{..<length (ch @ [now])} = insert (length ch) {..<length ch}" by auto
  then show ?thesis by (auto simp: flaps_allowed_def nth_append recent_snoc)
qed

lemma flaps_allowed_prefix: "flaps_allowed n (ch @ later) \<Longrightarrow> flaps_allowed n ch"
  by (induction later rule: rev_induct) (simp_all add: flaps_allowed_snoc flip: append_assoc)

lemma switch_mode_inv:
  assumes "bp_inv ch c" "ch = [] \<or> last ch \<le> now" "switch_mode now m c = (go, c')"
  shows "bp_inv (ch @ [now]) c' \<and> bp_mode c' = m \<and> go = (length (recent ch now @ [now]) \<le> max_per_minute (flap_tracker c))
    \<and> max_per_minute (flap_tracker c') = max_per_minute (flap_tracker c)
    \<and> lag_threshold c' = lag_threshold c \<and> recovery_threshold c' = recovery_threshold c"
proof -
  have "filter (\<lambda>x. now - int (from_secs 60) < x) (fl_transitions (flap_tracker c)) = recent ch now"
    using assms(1,2) recent_recent [of "last ch" now ch] by (auto simp: bp_inv_def recent_def)
  moreover have "sorted (ch @ [now])"
    using assms(1,2) by (cases ch rule: rev_cases) (auto simp: bp_inv_def sorted_append intro: order_trans)
  ultimately show ?thesis
    using assms(1,3) by (auto simp: switch_mode_def record_transition_def Let_def bp_inv_def recent_snoc split: if_splits)
qed

lemma bp_update_cases:
  assumes "recovery_threshold c \<le> lag_threshold c"
  shows "bp_update now lag c =
    (let m = wanted_mode (lag_threshold c) (recovery_threshold c) (bp_mode c) lag
     in if m = bp_mode c then (True, c) else switch_mode now m c)"
  using assms by (cases "bp_mode c") (auto simp: bp_update_def wanted_mode_def Let_def)

lemma bp_updates_inv:
  assumes "bp_inv ch c" "recovery_threshold c \<le> lag_threshold c" "sorted (map fst steps)"
    "\<And>t. t \<in> set (map fst steps) \<Longrightarrow> ch = [] \<or> last ch \<le> t" "flaps_allowed (max_per_minute (flap_tracker c)) ch"
    "bp_updates steps c = (go, c')"
  shows "go = flaps_allowed (max_per_minute (flap_tracker c)) (ch @ mode_changes (lag_threshold c) (recovery_threshold c) (bp_mode c) steps)
    \<and> (go \<longrightarrow> bp_mode c' = foldl (wanted_mode (lag_threshold c) (recovery_threshold c)) (bp_mode c) (map snd steps)
         \<and> total_transitions c' = length (ch @ mode_changes (lag_threshold c) (recovery_threshold c) (bp_mode c) steps))"
  using assms
proof (induction steps arbitrary: ch c)
  case Nil
  then show ?case by (auto simp: bp_inv_def)
next
  case (Cons s steps)
  obtain now lag where s: "s = (now, lag)" by force
  let ?m = "wanted_mode (lag_threshold c) (recovery_threshold c) (bp_mode c) lag"
  obtain go1 c1 where u: "bp_update now lag c = (go1, c1)" by force
  show ?case
  proof (cases "?m = bp_mode c")
    case True
    then have "c1 = c" "go1" using u Cons.prems(2) by (auto simp: bp_update_cases)
    then show ?thesis using Cons.IH [of ch c] Cons.prems s u True by simp
  next
    case False
    then have sw: "switch_mode now ?m c = (go1, c1)" using u Cons.prems(2) by (simp add: bp_update_cases)
    have "ch = [] \<or> last ch \<le> now" using Cons.prems(4) s by simp
    note sw' = switch_mode_inv [OF Cons.prems(1) this sw]
    have go1: "go1 = flaps_allowed (max_per_minute (flap_tracker c)) (ch @ [now])"
      using sw' Cons.prems(5) by (simp add: flaps_allowed_snoc)
    show ?thesis
    proof (cases go1)
      case True
      have "\<And>t. t \<in> set (map fst steps) \<Longrightarrow> ch @ [now] = [] \<or> last (ch @ [now]) \<le> t" using Cons.prems(3) s by auto
      then show ?thesis using Cons.IH [of "ch @ [now]" c1] Cons.prems sw' go1 True u s False by simp
    next
      case no: False
      then have "\<not> flaps_allowed (max_per_minute (flap_tracker c)) ((ch @ [now]) @ mode_changes (lag_threshold c) (recovery_threshold c) ?m steps)"
        using go1 flaps_allowed_prefix by blast
      then show ?thesis using Cons.prems(6) u s no False by (simp add: Let_def)
    qed
  qed
qed

text \<open>
  C26: With a recovery threshold not above the lag threshold, the controller goes on exactly as long
  as no minute holds more mode changes than allowed, although its tracker keeps only the latest; and
  its mode is then the one that the last lag outside the band between the thresholds asked for.
\<close>

theorem backpressure_meets_history:
  assumes "recov \<le> lag" "sorted (map fst steps)" "bp_updates steps (backpressure_new lag recov flaps drain) = (go, c)"
  shows "go = flaps_allowed flaps (mode_changes lag recov NormalMode steps)
    \<and> (go \<longrightarrow> bp_mode c = foldl (wanted_mode lag recov) NormalMode (map snd steps)
         \<and> total_transitions c = length (mode_changes lag recov NormalMode steps))"
  using bp_updates_inv [of "[]" "backpressure_new lag recov flaps drain" steps go c] assms
  by (simp add: backpressure_new_def flapping_tracker_new_def bp_inv_def flaps_allowed_def)

lemma backpressure_meets_history_witness:
  "\<not> flaps_allowed 1 (mode_changes 5 1 NormalMode [(0, 6), (10, 3), (20, 0), (30, 2)])"
proof -
  obtain c where "bp_updates [(0, 6), (10, 3), (20, 0), (30, 2)] (backpressure_new 5 1 1 10) = (False, c)"
    by (simp add: backpressure_new_def flapping_tracker_new_def bp_update_def switch_mode_def record_transition_def from_secs_def)
  from backpressure_meets_history [OF _ _ this] show ?thesis by simp
qed

subsection \<open>Sample replays\<close>

definition sample_row :: "int \<Rightarrow> OpLogEntry" where
  "sample_row t = \<lparr> ol_op = ''GET'', ol_bytes = 1, ol_endpoint = ''s3://'', ol_file = ''b/k'', ol_error = None, ol_start = t,
     ol_duration_ns = None \<rparr>"

definition sample_replay_env :: "(string, unit) replay_env" where
  "sample_replay_env =
     \<lparr> rp_remap = sample_remap_env, rp_rng = (\<lambda>_. ()), rp_clock = int, rp_next = (\<lambda>_. 0), rp_open = (\<lambda>_. Inr ()),
       rp_reply = (\<lambda>n u. if u = ''s3://b/k'' then OpSucceeded else OpFailed ''no''), rp_drained = 0 \<rparr>"

definition tolerant_replay :: ReplayRunConfig where
  "tolerant_replay = ReplayRunConfig_default\<lparr>continue_on_error := True\<rparr>"

lemma scaled_delay_small [simp]: "scaled_delay 1 0 = Some 0" "scaled_delay 1 100 = Some 100"
  by (simp_all add: scaled_delay_def from_secs_def u64_max_def)

lemma sample_replay:
  "\<exists>st. replay_run sample_replay_env tolerant_replay [Inl ''bad'', Inr (sample_row 5), Inr (sample_row 105)] = Inr st
    \<and> completed_operations (rs_stats st) = 2 \<and> \<not> flap_exit (rs_stats st)"
proof -
  have ex: "extract_base_uri ''s3://b/k'' = ''s3://b''" by code_simp
  show ?thesis
    by (simp add: replay_run_def tolerant_replay_def ReplayRunConfig_default_def read_clock_def process_row_def sample_row_def
        update_backpressure_def bp_update_def initial_state_def default_controller_def backpressure_from_config_def
        ReplayConfig_default_def backpressure_new_def from_secs_def sample_replay_env_def await_below.simps spawn_op_def
        track_mode_def complete_next_def run_replay_op_def replay_uri_def execute_replay_op_def get_or_create_store_def ex
        handle_task_result_def ReplayStats_default_def end_best_effort_def Let_def)
qed

lemma replay_accounts_for_rows_witness:
  "\<exists>stats. replay_workload_streaming sample_replay_env tolerant_replay (Inr [Inl ''bad'', Inr (sample_row 5), Inr (sample_row 105)]) = Inr stats
    \<and> total_operations stats = 2 \<and> skipped_operations stats = 1"
proof -
  obtain st where st: "replay_run sample_replay_env tolerant_replay [Inl ''bad'', Inr (sample_row 5), Inr (sample_row 105)] = Inr st"
      "\<not> flap_exit (rs_stats st)" using sample_replay by blast
  then have r: "replay_workload_streaming sample_replay_env tolerant_replay (Inr [Inl ''bad'', Inr (sample_row 5), Inr (sample_row 105)])
      = Inr (rs_stats st)" by (simp add: replay_workload_streaming_def)
  from replay_accounts_for_rows [OF r] show ?thesis using r st(2) by simp
qed

lemma replay_follows_timeline_witness:
  "\<exists>st. replay_run sample_replay_env tolerant_replay [Inl ''bad'', Inr (sample_row 5), Inr (sample_row 105)] = Inr st
    \<and> map sp_delay (rs_spawned st) = [0, 100]"
proof -
  obtain st where st: "replay_run sample_replay_env tolerant_replay [Inl ''bad'', Inr (sample_row 5), Inr (sample_row 105)] = Inr st"
      "\<not> flap_exit (rs_stats st)" using sample_replay by blast
  have t: "map sp_entry (rs_spawned st) = [sample_row 5, sample_row 105]" "sp_delay (hd (rs_spawned st)) = 0"
      "list_all (timed tolerant_replay 5) (tl (rs_spawned st))"
    using replay_follows_timeline [OF st(1,2), of "sample_row 5" "[sample_row 105]"] by (simp_all add: sample_row_def)
  then obtain a b where ab: "rs_spawned st = [a, b]" "sp_entry b = sample_row 105" by auto
  have "speed tolerant_replay = 1" by (simp add: tolerant_replay_def ReplayRunConfig_default_def)
  then have "sp_delay b = 100" using t(3) ab by (simp add: timed_def sample_row_def)
  then show ?thesis using st(1) t(2) ab(1) by simp
qed

text \<open>
  In a replay a fanout rule with the round-robin strategy sends every operation it matches to its
  first target: each operation makes an engine of its own.
\<close>

lemma replay_round_robin_never_rotates:
  assumes "remap_config cfg = Some rules" "parse_remap_uri (rp_remap env) (ol_endpoint e @ ol_file e) = Inr p"
    and "first_rule (rp_remap env) (ol_endpoint e @ ol_file e) p 0 rules = Some (i, FanoutRule m many)"
    and "mt_strategy many = ''round_robin''" "mt_targets many \<noteq> []"
  shows "replay_uri env cfg n e = Inr (apply_target p (hd (mt_targets many)))"
  using assms
  by (simp add: replay_uri_def remap_def remap_engine_new_def remap_rules_first apply_rule_def select_target_from_many_def
      counter_at_def hd_conv_nth)

lemma replay_round_robin_never_rotates_witness:
  "replay_uri sample_replay_env (tolerant_replay\<lparr>remap_config := Some sample_rules\<rparr>) 7 (sample_row 5) = Inr ''s3://x/k''"
proof -
  let ?p = "\<lparr> pu_scheme = ''s3'', pu_bucket = ''b'', pu_prefix = [], pu_key = ''k'' \<rparr>"
  let ?many = "\<lparr> mt_targets = [\<lparr> ts_bucket = ''x'', ts_prefix = [] \<rparr>, \<lparr> ts_bucket = ''y'', ts_prefix = [] \<rparr>], mt_strategy = ''round_robin'' \<rparr>"
  have p: "parse_remap_uri (rp_remap sample_replay_env) (ol_endpoint (sample_row 5) @ ol_file (sample_row 5)) = Inr ?p" by code_simp
  have f: "first_rule (rp_remap sample_replay_env) (ol_endpoint (sample_row 5) @ ol_file (sample_row 5)) ?p 0 sample_rules
      = Some (1, FanoutRule (on_bucket ''b'') ?many)" by code_simp
  from replay_round_robin_never_rotates [OF _ p f, of "tolerant_replay\<lparr>remap_config := Some sample_rules\<rparr>" 7]
  show ?thesis by (simp add: apply_target_def to_uri_def)
qed

text \<open>
  With \<open>max_concurrent\<close> 0 a replay of at least two readable rows never returns its statistics,
  unless its modes flap.
\<close>

lemma zero_concurrency_never_returns:
  assumes "max_concurrent cfg = Some 0" "2 \<le> length (good_rows rows)" "replay_run env cfg rows = Inr st"
  shows "flap_exit (rs_stats st)"
proof (rule ccontr)
  assume nf: "\<not> flap_exit (rs_stats st)"
  obtain x n where f: "first_row (continue_on_error cfg) rows 0 = Inr (x, n)"
    using assms(3) by (auto simp: replay_run_def split: sum.splits)
  then obtain e rest where x: "x = Some (e, rest)" and "1 \<le> length (good_rows rest)"
    using first_row_ok [OF f] assms(2) by (cases x) auto
  then have rest: "good_rows rest \<noteq> []" by auto
  have never: "replay_rows env cfg 0 first epoch rs s = Inr s' \<Longrightarrow> good_rows rs \<noteq> [] \<Longrightarrow> counted s \<Longrightarrow> flap_exit (rs_stats s')"
    for first epoch rs s s'
  proof (induction rs arbitrary: s)
    case (Cons r rs)
    show ?case
    proof (cases r)
      case (Inl y)
      have "counted (skip_row s)" using Cons.prems(3) by (simp add: counted_def skip_row_def)
      then show ?thesis using Cons Inl by (auto split: if_splits)
    next
      case (Inr a)
      obtain go s1 where p: "process_row env cfg 0 first epoch a s = Inr (go, s1)"
        and rec: "(if go then replay_rows env cfg 0 first epoch rs s1 else Inr s1) = Inr s'"
        using Cons.prems(1) Inr by (auto simp: bind_result_Inr_iff)
      have "\<not> go" using process_row_ok [OF p Cons.prems(3)] by auto
      then show ?thesis using process_row_ok [OF p Cons.prems(3)] rec by simp
    qed
  qed simp
  obtain epoch st0 where rd: "read_clock env (initial_state cfg n) = (epoch, st0)" by force
  let ?s = "spawn_op e 0 (st0\<lparr>rs_stats := (rs_stats st0)\<lparr>total_operations := 1\<rparr>\<rparr>)"
  obtain st1 st2 where rr: "replay_rows env cfg 0 (ol_start e) epoch rest ?s = Inr st1"
    and aw: "await_below env cfg 1 (end_best_effort env st1) = Inr st2"
    and st: "st = st2\<lparr>rs_stats := (rs_stats st2)\<lparr>mode_transitions := total_transitions (rs_bp st2)\<rparr>\<rparr>"
    using assms(1,3) f x rd by (auto simp: replay_run_def bind_result_Inr_iff Let_def)
  have "counted ?s" using rd by (auto simp: read_clock_def counted_def spawn_op_def ReplayStats_default_def)
  then have "flap_exit (rs_stats st1)" by (rule never [OF rr rest])
  then show False using await_below_ok [OF aw] st nf by (simp add: same_rows_def)
qed

lemma zero_concurrency_never_returns_witness:
  "\<exists>st. replay_run sample_replay_env (tolerant_replay\<lparr>max_concurrent := Some 0,
      rc_backpressure := Some (ReplayConfig_default\<lparr>rc_lag_threshold := 0, rc_max_flaps := 0\<rparr>)\<rparr>)
      [Inr (sample_row 5), Inr (sample_row 5)] = Inr st \<and> flap_exit (rs_stats st)"
proof -
  let ?cfg = "tolerant_replay\<lparr>max_concurrent := Some 0,
      rc_backpressure := Some (ReplayConfig_default\<lparr>rc_lag_threshold := 0, rc_max_flaps := 0\<rparr>)\<rparr>"
  have ex: "extract_base_uri ''s3://b/k'' = ''s3://b''" by code_simp
  obtain st where st: "replay_run sample_replay_env ?cfg [Inr (sample_row 5), Inr (sample_row 5)] = Inr st"
    by (simp add: replay_run_def tolerant_replay_def ReplayRunConfig_default_def read_clock_def process_row_def sample_row_def
        update_backpressure_def bp_update_def initial_state_def backpressure_from_config_def switch_mode_def record_transition_def
        flapping_tracker_new_def ReplayConfig_default_def backpressure_new_def sample_replay_env_def await_below.simps spawn_op_def
        track_mode_def complete_next_def run_replay_op_def replay_uri_def execute_replay_op_def get_or_create_store_def ex
        handle_task_result_def ReplayStats_default_def end_best_effort_def Let_def)
  from zero_concurrency_never_returns [OF _ _ st] show ?thesis using st by simp
qed

end
