(* ===== verification/Replay_Legacy.thy ===== *)
theory Replay_Legacy
  imports Replay
begin

text \<open>
  The older replay that loads the whole op-log (\<open>src/replay.rs\<close>): parsing the rows, sorting them,
  and running all operations at once, each at its own time. The CSV reader gives each row as its
  fields or an error; the parser of time stamps, the store's answers and the order in which the
  operations end are arguments.
\<close>

datatype OpType = OpGet | OpPut | OpDelete | OpList | OpStat

definition op_type_from_str :: "string \<Rightarrow> OpType option" where
  "op_type_from_str s =
     (if s = ''GET'' then Some OpGet else if s = ''PUT'' then Some OpPut else if s = ''DELETE'' then Some OpDelete
      else if s = ''LIST'' then Some OpList else if s = ''STAT'' \<or> s = ''HEAD'' then Some OpStat else None)"

record LegacyEntry =
  le_idx :: nat
  le_op :: OpType
  le_bytes :: nat
  le_endpoint :: string
  le_file :: string
  le_start :: int

text \<open>The fields of one row; \<open>None\<close> is a row that is skipped.\<close>

definition parse_legacy_row :: "(string \<Rightarrow> int option) \<Rightarrow> string + string list \<Rightarrow> (string + LegacyEntry) option" where
  "parse_legacy_row rfc3339 row =
     (case row of
        Inl _ \<Rightarrow> None
      | Inr r \<Rightarrow>
          if length r < 13 then None
          else (case op_type_from_str (r ! 2) of
                  None \<Rightarrow> None
                | Some op \<Rightarrow> Some
                    (case parse_u64 (r ! 0) of None \<Rightarrow> Inl ''Failed to parse idx''
                     | Some i \<Rightarrow> (case parse_u64 (r ! 5) of None \<Rightarrow> Inl ''Failed to parse bytes''
                     | Some b \<Rightarrow> (case rfc3339 (r ! 9) of None \<Rightarrow> Inl ''Failed to parse start timestamp''
                     | Some t \<Rightarrow> Inr \<lparr> le_idx = i, le_op = op, le_bytes = b, le_endpoint = r ! 6, le_file = r ! 7, le_start = t \<rparr>)))))"

fun parse_legacy_rows :: "(string \<Rightarrow> int option) \<Rightarrow> (string + string list) list \<Rightarrow> string + LegacyEntry list" where
  "parse_legacy_rows rfc3339 [] = Inr []"
| "parse_legacy_rows rfc3339 (row # rows) =
     (case parse_legacy_row rfc3339 row of
        None \<Rightarrow> parse_legacy_rows rfc3339 rows
      | Some r \<Rightarrow> bind_result r (\<lambda>e. bind_result (parse_legacy_rows rfc3339 rows) (\<lambda>es. Inr (e # es))))"

definition parse_oplog :: "(string \<Rightarrow> int option) \<Rightarrow> string + (string + string list) list \<Rightarrow> string + LegacyEntry list" where
  "parse_oplog rfc3339 file =
     (case file of
        Inl e \<Rightarrow> Inl ''Failed to open op-log file''
      | Inr rows \<Rightarrow> bind_result (parse_legacy_rows rfc3339 rows) (\<lambda>es. Inr (sort_key le_start es)))"

text \<open>\<open>speed as u32\<close>, and the delay: a duration divided by zero panics.\<close>

definition cast_u32 :: "rat \<Rightarrow> nat" where "cast_u32 x = min u32_max (nat \<lfloor>x\<rfloor>)"

definition legacy_delay :: "rat \<Rightarrow> int \<Rightarrow> LegacyEntry \<Rightarrow> duration option" where
  "legacy_delay sp first e =
     (if cast_u32 sp = 0 then None else Some (nat (le_start e - first) div cast_u32 sp))"

definition legacy_uri :: "string option \<Rightarrow> LegacyEntry \<Rightarrow> string" where
  "legacy_uri tgt e = (case tgt of Some t \<Rightarrow> translate_uri (le_file e) (le_endpoint e) t | None \<Rightarrow> le_endpoint e @ le_file e)"

definition legacy_outcome :: "rat \<Rightarrow> string option \<Rightarrow> (OpType \<Rightarrow> string \<Rightarrow> op_outcome) \<Rightarrow> int \<Rightarrow> LegacyEntry \<Rightarrow> op_outcome" where
  "legacy_outcome sp tgt reply first e =
     (case legacy_delay sp first e of None \<Rightarrow> OpPanicked | Some _ \<Rightarrow> reply (le_op e) (legacy_uri tgt e))"

fun collect_results :: "bool \<Rightarrow> op_outcome list \<Rightarrow> nat \<Rightarrow> nat \<Rightarrow> string + nat \<times> nat" where
  "collect_results cont [] ok bad = Inr (ok, bad)"
| "collect_results cont (OpSucceeded # rs) ok bad = collect_results cont rs (ok + 1) bad"
| "collect_results cont (OpFailed e # rs) ok bad = (if cont then collect_results cont rs ok (bad + 1) else Inl e)"
| "collect_results cont (OpPanicked # rs) ok bad = (if cont then collect_results cont rs ok (bad + 1) else Inl ''task panicked'')"

text \<open>\<open>ended\<close> lists the outcomes in the order in which the operations end.\<close>

definition replay_workload ::
  "(string \<Rightarrow> int option) \<Rightarrow> (OpType \<Rightarrow> string \<Rightarrow> op_outcome) \<Rightarrow> (op_outcome list \<Rightarrow> op_outcome list)
    \<Rightarrow> string option \<Rightarrow> rat \<Rightarrow> bool \<Rightarrow> string + (string + string list) list \<Rightarrow> string + nat \<times> nat" where
  "replay_workload rfc3339 reply ended tgt sp cont file =
     bind_result (parse_oplog rfc3339 file) (\<lambda>ops.
       if ops = [] then Inl ''No operations in op-log''
       else collect_results cont (ended (map (legacy_outcome sp tgt reply (le_start (hd ops))) ops)) 0 0)"

subsection \<open>Properties\<close>

lemma parse_legacy_rows_ok:
  "parse_legacy_rows rfc3339 rows = Inr es \<longleftrightarrow> List.map_filter (parse_legacy_row rfc3339) rows = map Inr es"
proof (induction rows arbitrary: es)
  case (Cons row rows)
  show ?case
  proof (cases "parse_legacy_row rfc3339 row")
    case (Some r)
    have "parse_legacy_rows rfc3339 (row # rows) = Inr es \<longleftrightarrow>
        (\<exists>e fs. r = Inr e \<and> parse_legacy_rows rfc3339 rows = Inr fs \<and> es = e # fs)"
      using Some by (auto simp: bind_result_Inr_iff)
    also have "\<dots> \<longleftrightarrow> (\<exists>e fs. r = Inr e \<and> List.map_filter (parse_legacy_row rfc3339) rows = map Inr fs \<and> es = e # fs)"
      using Cons.IH by simp
    also have "\<dots> \<longleftrightarrow> List.map_filter (parse_legacy_row rfc3339) (row # rows) = map Inr es"
      using Some by (cases es) (auto simp: map_filter_simps)
    finally show ?thesis .
  qed (use Cons.IH in \<open>simp add: map_filter_simps\<close>)
qed (auto simp: map_filter_simps)

lemma collect_results_tolerant:
  "collect_results True rs ok bad = Inr (ok + length (filter (\<lambda>r. r = OpSucceeded) rs), bad + length (filter (\<lambda>r. r \<noteq> OpSucceeded) rs))"
proof (induction rs arbitrary: ok bad)
  case (Cons r rs)
  then show ?case by (cases r) simp_all
qed simp

text \<open>
  A tolerant replay runs every known row once, in whatever order the operations end: its counts add
  up to the rows kept. At a speed below one every operation panics on a division by zero.
\<close>

lemma legacy_replay_counts:
  assumes "parse_oplog rfc3339 file = Inr ops" "ops \<noteq> []" "\<And>rs. mset (ended rs) = mset rs"
  shows "\<exists>ok bad. replay_workload rfc3339 reply ended tgt sp True file = Inr (ok, bad) \<and> ok + bad = length ops
    \<and> (sp < 1 \<longrightarrow> ok = 0)"
proof -
  let ?rs = "map (legacy_outcome sp tgt reply (le_start (hd ops))) ops"
  have len: "length (ended ?rs) = length ops" using assms(3) [of ?rs] mset_eq_length by fastforce
  have "cast_u32 sp = 0" if "sp < 1"
  proof -
    have "\<lfloor>sp\<rfloor> < 1" using that by (simp add: floor_less_iff)
    then show ?thesis by (simp add: cast_u32_def)
  qed
  then have "\<forall>r\<in>set (ended ?rs). r \<noteq> OpSucceeded" if "sp < 1"
    using that mset_eq_setD [OF assms(3) [of ?rs]] by (auto simp: legacy_outcome_def legacy_delay_def)
  then have "length (filter (\<lambda>r. r = OpSucceeded) (ended ?rs)) = 0" if "sp < 1" using that by (simp add: filter_empty_conv)
  moreover have "length (filter (\<lambda>r. r = OpSucceeded) (ended ?rs)) + length (filter (\<lambda>r. r \<noteq> OpSucceeded) (ended ?rs)) = length ops"
    using sum_length_filter_compl [of "\<lambda>r. r = OpSucceeded" "ended ?rs"] len by simp
  ultimately show ?thesis using assms(1,2) by (simp add: replay_workload_def collect_results_tolerant)
qed

lemma legacy_log_sorted: "parse_oplog rfc3339 file = Inr ops \<Longrightarrow> sorted (map le_start ops)"
  by (auto simp: parse_oplog_def bind_result_Inr_iff split: sum.splits)

end
