(* ===== verification/Live_Stats.thy ===== *)
theory Live_Stats
  imports Workload_Run
begin

text \<open>
  The live statistics of an agent (\<open>src/live_stats.rs\<close>): the counters and histograms that the workers
  add to, the stage with its progress, and the snapshot that is sent to the controller. A method
  takes effect at once; a histogram that another worker holds is a lost sample. Histograms are the
  library of the workload's model; their serialisation is an argument.
\<close>

subsection \<open>Stages\<close>

datatype WorkloadStage = StageUnknown | StagePrepare | StageWorkload | StageCleanup | StageListing | StageCustom

definition to_proto_i32 :: "WorkloadStage \<Rightarrow> nat" where
  "to_proto_i32 s =
     (case s of StageUnknown \<Rightarrow> 0 | StagePrepare \<Rightarrow> 1 | StageWorkload \<Rightarrow> 2 | StageCleanup \<Rightarrow> 3 | StageListing \<Rightarrow> 4 | StageCustom \<Rightarrow> 10)"

definition from_i32 :: "nat \<Rightarrow> WorkloadStage" where
  "from_i32 n =
     (if n = 1 then StagePrepare else if n = 2 then StageWorkload else if n = 3 then StageCleanup
      else if n = 4 then StageListing else if n = 10 then StageCustom else StageUnknown)"

definition default_name :: "WorkloadStage \<Rightarrow> string" where
  "default_name s =
     (case s of StageUnknown \<Rightarrow> ''Unknown'' | StagePrepare \<Rightarrow> ''Prepare'' | StageWorkload \<Rightarrow> ''Workload''
      | StageCleanup \<Rightarrow> ''Cleanup'' | StageListing \<Rightarrow> ''Listing'' | StageCustom \<Rightarrow> ''Custom'')"

subsection \<open>The tracker\<close>

record 'h LiveStatsTracker =
  lt_get_ops :: nat
  lt_get_bytes :: nat
  lt_put_ops :: nat
  lt_put_bytes :: nat
  lt_meta_ops :: nat
  in_prepare_phase :: bool
  prepare_objects_created :: nat
  prepare_objects_total :: nat
  current_stage :: nat
  lt_stage_name :: string
  stage_progress_current :: nat
  stage_progress_total :: nat
  stage_start_time :: nat
  lt_concurrency :: nat
  lt_get_hist :: 'h
  lt_put_hist :: 'h
  lt_meta_hist :: 'h
  start_time :: nat

definition live_stats_new :: "'h hdr \<Rightarrow> nat \<Rightarrow> nat \<Rightarrow> 'h LiveStatsTracker" where
  "live_stats_new hg now n =
     \<lparr> lt_get_ops = 0, lt_get_bytes = 0, lt_put_ops = 0, lt_put_bytes = 0, lt_meta_ops = 0, in_prepare_phase = False,
       prepare_objects_created = 0, prepare_objects_total = 0, current_stage = to_proto_i32 StageUnknown, lt_stage_name = [],
       stage_progress_current = 0, stage_progress_total = 0, stage_start_time = now, lt_concurrency = n,
       lt_get_hist = h_new hg 1 3600000000, lt_put_hist = h_new hg 1 3600000000, lt_meta_hist = h_new hg 1 3600000000,
       start_time = now \<rparr>"

text \<open>\<open>free\<close> says whether the lock of the histogram was free.\<close>

definition try_record :: "'h hdr \<Rightarrow> bool \<Rightarrow> duration \<Rightarrow> 'h \<Rightarrow> 'h" where
  "try_record hg free d h = (if free then keep_record hg (min u64_max (d div 1000)) h else h)"

definition live_record_get :: "'h hdr \<Rightarrow> bool \<Rightarrow> nat \<Rightarrow> duration \<Rightarrow> 'h LiveStatsTracker \<Rightarrow> 'h LiveStatsTracker" where
  "live_record_get hg free n d t =
     t\<lparr>lt_get_ops := lt_get_ops t + 1, lt_get_bytes := lt_get_bytes t + n, lt_get_hist := try_record hg free d (lt_get_hist t)\<rparr>"

definition live_record_put :: "'h hdr \<Rightarrow> bool \<Rightarrow> nat \<Rightarrow> duration \<Rightarrow> 'h LiveStatsTracker \<Rightarrow> 'h LiveStatsTracker" where
  "live_record_put hg free n d t =
     t\<lparr>lt_put_ops := lt_put_ops t + 1, lt_put_bytes := lt_put_bytes t + n, lt_put_hist := try_record hg free d (lt_put_hist t)\<rparr>"

definition live_record_meta :: "'h hdr \<Rightarrow> bool \<Rightarrow> duration \<Rightarrow> 'h LiveStatsTracker \<Rightarrow> 'h LiveStatsTracker" where
  "live_record_meta hg free d t =
     t\<lparr>lt_meta_ops := lt_meta_ops t + 1, lt_meta_hist := try_record hg free d (lt_meta_hist t)\<rparr>"

definition set_stage :: "nat \<Rightarrow> WorkloadStage \<Rightarrow> nat \<Rightarrow> 'h LiveStatsTracker \<Rightarrow> 'h LiveStatsTracker" where
  "set_stage now s n t =
     (let t' = t\<lparr>current_stage := to_proto_i32 s, lt_stage_name := default_name s, stage_progress_current := 0,
                 stage_progress_total := n, stage_start_time := now\<rparr>
      in if s = StagePrepare
         then t'\<lparr>in_prepare_phase := True, prepare_objects_total := n, prepare_objects_created := 0\<rparr>
         else t'\<lparr>in_prepare_phase := False\<rparr>)"

definition set_stage_with_name :: "nat \<Rightarrow> WorkloadStage \<Rightarrow> string \<Rightarrow> nat \<Rightarrow> 'h LiveStatsTracker \<Rightarrow> 'h LiveStatsTracker" where
  "set_stage_with_name now s nm n t = (set_stage now s n t)\<lparr>lt_stage_name := nm\<rparr>"

definition set_stage_progress :: "nat \<Rightarrow> 'h LiveStatsTracker \<Rightarrow> 'h LiveStatsTracker" where
  "set_stage_progress n t =
     (let t' = t\<lparr>stage_progress_current := n\<rparr>
      in if current_stage t = to_proto_i32 StagePrepare then t'\<lparr>prepare_objects_created := n\<rparr> else t')"

definition increment_stage_progress :: "'h LiveStatsTracker \<Rightarrow> 'h LiveStatsTracker" where
  "increment_stage_progress t =
     (let t' = t\<lparr>stage_progress_current := stage_progress_current t + 1\<rparr>
      in if current_stage t = to_proto_i32 StagePrepare
         then t'\<lparr>prepare_objects_created := prepare_objects_created t + 1\<rparr> else t')"

definition get_stage :: "'h LiveStatsTracker \<Rightarrow> WorkloadStage" where
  "get_stage t =
     (if current_stage t = 1 then StagePrepare else if current_stage t = 2 then StageWorkload
      else if current_stage t = 3 then StageCleanup else if current_stage t = 10 then StageCustom else StageUnknown)"

definition set_prepare_progress :: "nat \<Rightarrow> nat \<Rightarrow> 'h LiveStatsTracker \<Rightarrow> 'h LiveStatsTracker" where
  "set_prepare_progress created n t =
     t\<lparr>in_prepare_phase := True, prepare_objects_created := created, prepare_objects_total := n,
       current_stage := to_proto_i32 StagePrepare, stage_progress_current := created, stage_progress_total := n\<rparr>"

definition set_prepare_complete :: "'h LiveStatsTracker \<Rightarrow> 'h LiveStatsTracker" where
  "set_prepare_complete t = t\<lparr>in_prepare_phase := False\<rparr>"

text \<open>\<open>Histogram::clear\<close> empties a histogram and keeps its bounds.\<close>

definition clear_counters :: "'h hdr \<Rightarrow> 'h LiveStatsTracker \<Rightarrow> 'h LiveStatsTracker" where
  "clear_counters hg t =
     t\<lparr>lt_get_ops := 0, lt_get_bytes := 0, lt_put_ops := 0, lt_put_bytes := 0, lt_meta_ops := 0,
       lt_get_hist := h_new hg 1 3600000000, lt_put_hist := h_new hg 1 3600000000, lt_meta_hist := h_new hg 1 3600000000\<rparr>"

definition reset_for_workload :: "'h hdr \<Rightarrow> 'h LiveStatsTracker \<Rightarrow> 'h LiveStatsTracker" where
  "reset_for_workload hg t = clear_counters hg t"

definition reset_for_stage :: "'h hdr \<Rightarrow> nat \<Rightarrow> string \<Rightarrow> WorkloadStage \<Rightarrow> 'h LiveStatsTracker \<Rightarrow> 'h LiveStatsTracker" where
  "reset_for_stage hg now nm s t =
     (clear_counters hg t)\<lparr>stage_progress_current := 0, stage_progress_total := 0, current_stage := to_proto_i32 s,
                           lt_stage_name := nm, stage_start_time := now\<rparr>"

subsection \<open>Snapshots\<close>

record latencies =
  la_mean :: nat
  la_p50 :: nat
  la_p90 :: nat
  la_p95 :: nat
  la_p99 :: nat

text \<open>\<open>unused\<close> is the library's test for a histogram without samples.\<close>

definition latencies_of :: "'h hdr \<Rightarrow> ('h \<Rightarrow> bool) \<Rightarrow> 'h \<Rightarrow> latencies" where
  "latencies_of hg unused h =
     (if unused h then \<lparr> la_mean = 0, la_p50 = 0, la_p90 = 0, la_p95 = 0, la_p99 = 0 \<rparr>
      else \<lparr> la_mean = nat \<lfloor>h_mean hg h\<rfloor>, la_p50 = h_quantile hg (1 / 2) h, la_p90 = h_quantile hg (9 / 10) h,
             la_p95 = h_quantile hg (95 / 100) h, la_p99 = h_quantile hg (99 / 100) h \<rparr>)"

record LiveStatsSnapshot =
  sn_elapsed :: nat
  sn_get_ops :: nat
  sn_get_bytes :: nat
  sn_get :: latencies
  sn_put_ops :: nat
  sn_put_bytes :: nat
  sn_put :: latencies
  sn_meta_ops :: nat
  sn_meta :: latencies
  sn_in_prepare :: bool
  sn_created :: nat
  sn_total :: nat
  sn_stage :: WorkloadStage
  sn_stage_name :: string
  sn_progress :: nat
  sn_progress_total :: nat
  sn_stage_elapsed :: nat
  sn_concurrency :: nat

definition live_snapshot :: "'h hdr \<Rightarrow> ('h \<Rightarrow> bool) \<Rightarrow> nat \<Rightarrow> 'h LiveStatsTracker \<Rightarrow> LiveStatsSnapshot" where
  "live_snapshot hg unused now t =
     \<lparr> sn_elapsed = now - start_time t, sn_get_ops = lt_get_ops t, sn_get_bytes = lt_get_bytes t,
       sn_get = latencies_of hg unused (lt_get_hist t), sn_put_ops = lt_put_ops t, sn_put_bytes = lt_put_bytes t,
       sn_put = latencies_of hg unused (lt_put_hist t), sn_meta_ops = lt_meta_ops t,
       sn_meta = latencies_of hg unused (lt_meta_hist t), sn_in_prepare = in_prepare_phase t,
       sn_created = prepare_objects_created t, sn_total = prepare_objects_total t, sn_stage = from_i32 (current_stage t),
       sn_stage_name = lt_stage_name t, sn_progress = stage_progress_current t, sn_progress_total = stage_progress_total t,
       sn_stage_elapsed = now - stage_start_time t, sn_concurrency = lt_concurrency t \<rparr>"

definition serialize_histograms ::
  "('h \<Rightarrow> string + nat list) \<Rightarrow> 'h LiveStatsTracker \<Rightarrow> string + nat list \<times> nat list \<times> nat list" where
  "serialize_histograms ser t =
     bind_result (case ser (lt_get_hist t) of Inl e \<Rightarrow> Inl (''Failed to serialize GET histogram: '' @ e) | Inr b \<Rightarrow> Inr b) (\<lambda>g.
     bind_result (case ser (lt_put_hist t) of Inl e \<Rightarrow> Inl (''Failed to serialize PUT histogram: '' @ e) | Inr b \<Rightarrow> Inr b) (\<lambda>p.
     bind_result (case ser (lt_meta_hist t) of Inl e \<Rightarrow> Inl (''Failed to serialize META histogram: '' @ e) | Inr b \<Rightarrow> Inr b) (\<lambda>m.
       Inr (g, p, m))))"

end
