(* ===== verification/Perf_Log.thy ===== *)
theory Perf_Log
  imports Live_Stats Oplog_Merge
begin

text \<open>
  The performance log (\<open>src/perf_log.rs\<close>) and the CPU monitor that feeds it (\<open>src/cpu_monitor.rs\<close>):
  the rows of a log are differences of the live counters. Instants are nanoseconds, floating point is
  exact rationals; the clock, the system time and the text of \<open>/proc/stat\<close> are arguments.
\<close>

subsection \<open>CPU utilisation\<close>

record CpuUtilization =
  user_percent :: rat
  system_percent :: rat
  iowait_percent :: rat
  total_percent :: rat

definition CpuUtilization_default :: CpuUtilization where
  "CpuUtilization_default = \<lparr> user_percent = 0, system_percent = 0, iowait_percent = 0, total_percent = 0 \<rparr>"

record CpuTime =
  cpu_user :: nat
  cpu_nice :: nat
  cpu_system :: nat
  cpu_idle :: nat
  cpu_iowait :: nat
  cpu_irq :: nat
  cpu_softirq :: nat
  cpu_steal :: nat

definition split_whitespace :: "string \<Rightarrow> string list" where
  "split_whitespace s = filter (\<lambda>w. w \<noteq> []) (split_on (CHR '' '') (map (\<lambda>c. if is_ws c then CHR '' '' else c) s))"

text \<open>The lines of \<open>/proc/stat\<close>; a failure to read them is the caller's.\<close>

definition stat_field :: "string list \<Rightarrow> nat \<Rightarrow> string \<Rightarrow> string + nat" where
  "stat_field parts i e = (case parse_u64 (parts ! i) of Some n \<Rightarrow> Inr n | None \<Rightarrow> Inl e)"

definition from_proc_stat :: "string list \<Rightarrow> string + CpuTime" where
  "from_proc_stat ls =
     (case ls of
        [] \<Rightarrow> Inl ''Empty /proc/stat''
      | l # _ \<Rightarrow>
          if \<not> starts_with l ''cpu '' then Inl ''Invalid /proc/stat format''
          else (let num = stat_field (split_whitespace l)
                in if length (split_whitespace l) < 9 then Inl ''Insufficient fields in /proc/stat cpu line''
                   else bind_result (num 1 ''Invalid user time'') (\<lambda>u. bind_result (num 2 ''Invalid nice time'') (\<lambda>n.
                        bind_result (num 3 ''Invalid system time'') (\<lambda>s. bind_result (num 4 ''Invalid idle time'') (\<lambda>i.
                        bind_result (num 5 ''Invalid iowait time'') (\<lambda>w. bind_result (num 6 ''Invalid irq time'') (\<lambda>q.
                        bind_result (num 7 ''Invalid softirq time'') (\<lambda>sq. bind_result (num 8 ''Invalid steal time'') (\<lambda>st.
                          Inr \<lparr> cpu_user = u, cpu_nice = n, cpu_system = s, cpu_idle = i, cpu_iowait = w, cpu_irq = q,
                                cpu_softirq = sq, cpu_steal = st \<rparr>))))))))))"

definition cpu_total :: "CpuTime \<Rightarrow> nat" where
  "cpu_total c = cpu_user c + cpu_nice c + cpu_system c + cpu_idle c + cpu_iowait c + cpu_irq c + cpu_softirq c + cpu_steal c"

record CpuMonitor =
  last_sample :: "CpuTime option"
  last_sample_time :: nat
  min_interval :: duration

definition cpu_monitor_new :: "nat \<Rightarrow> CpuMonitor" where
  "cpu_monitor_new now = \<lparr> last_sample = None, last_sample_time = now, min_interval = from_secs 1 \<rparr>"

definition percent_of :: "nat \<Rightarrow> nat \<Rightarrow> rat" where "percent_of d tot = of_nat d / of_nat tot * 100"

definition utilization :: "CpuTime \<Rightarrow> CpuTime \<Rightarrow> CpuUtilization" where
  "utilization old new =
     (let us = (cpu_user new - cpu_user old) + (cpu_nice new - cpu_nice old);
          sy = (cpu_system new - cpu_system old) + (cpu_irq new - cpu_irq old) + (cpu_softirq new - cpu_softirq old);
          io = cpu_iowait new - cpu_iowait old; tot = cpu_total new - cpu_total old
      in if tot = 0 then CpuUtilization_default
         else \<lparr> user_percent = percent_of us tot, system_percent = percent_of sy tot, iowait_percent = percent_of io tot,
                total_percent = percent_of us tot + percent_of sy tot + percent_of io tot \<rparr>)"

definition cpu_sample :: "nat \<Rightarrow> string + CpuTime \<Rightarrow> CpuMonitor \<Rightarrow> (string + CpuUtilization option) \<times> CpuMonitor" where
  "cpu_sample now stat m =
     (case stat of
        Inl e \<Rightarrow> (Inl e, m)
      | Inr cur \<Rightarrow>
          (case last_sample m of
             None \<Rightarrow> (Inr None, m\<lparr>last_sample := Some cur, last_sample_time := now\<rparr>)
           | Some old \<Rightarrow>
               if now - last_sample_time m < min_interval m * 4 div 5 then (Inr None, m)
               else (Inr (Some (utilization old cur)), m\<lparr>last_sample := Some cur, last_sample_time := now\<rparr>)))"

definition cpu_sample_now :: "nat \<Rightarrow> string + CpuTime \<Rightarrow> CpuMonitor \<Rightarrow> (string + CpuUtilization option) \<times> CpuMonitor" where
  "cpu_sample_now now stat m =
     cpu_sample now stat (if last_sample m = None then m else m\<lparr>last_sample_time := now - min_interval m\<rparr>)"

subsection \<open>Rows\<close>

record PerfMetrics =
  pm_get_ops :: nat
  pm_get_bytes :: nat
  pm_put_ops :: nat
  pm_put_bytes :: nat
  pm_meta_ops :: nat
  pm_errors :: nat
  pm_get :: latencies
  pm_put :: latencies
  pm_meta :: latencies
  pm_cpu :: CpuUtilization

record PerfLogEntry =
  agent_name :: string
  timestamp_epoch_ms :: nat
  elapsed_s :: rat
  pe_stage :: WorkloadStage
  pe_stage_name :: string
  pe_get_ops :: nat
  pe_get_bytes :: nat
  get_iops :: rat
  get_mbps :: rat
  pe_put_ops :: nat
  pe_put_bytes :: nat
  put_iops :: rat
  put_mbps :: rat
  pe_meta_ops :: nat
  meta_iops :: rat
  pe_errors :: nat
  pe_metrics :: PerfMetrics

text \<open>\<open>{:.k}\<close> of a non-negative number: the exact value, rounded half to even at the last digit.\<close>

definition round_half_even :: "rat \<Rightarrow> nat" where
  "round_half_even x =
     (let n = nat \<lfloor>x\<rfloor>; r = x - of_nat n in if r < 1 / 2 \<or> r = 1 / 2 \<and> even n then n else n + 1)"

definition show_fixed :: "nat \<Rightarrow> rat \<Rightarrow> string" where
  "show_fixed k x =
     (let n = round_half_even (x * 10 ^ k) in show_nat (n div 10 ^ k) @ ''.'' @ show_padded k (n mod 10 ^ k))"

definition tab :: char where "tab = CHR 0x09"

definition latency_columns :: "latencies \<Rightarrow> string list" where
  "latency_columns l = map show_nat [la_mean l, la_p50 l, la_p90 l, la_p99 l]"

definition perf_columns :: "PerfLogEntry \<Rightarrow> string list" where
  "perf_columns e =
     [agent_name e, show_nat (timestamp_epoch_ms e), show_fixed 3 (elapsed_s e),
      (if pe_stage_name e = [] then default_name (pe_stage e) else pe_stage_name e)]
     @ [show_nat (pe_get_ops e), show_nat (pe_get_bytes e), show_fixed 1 (get_iops e), show_fixed 2 (get_mbps e)]
     @ latency_columns (pm_get (pe_metrics e))
     @ [show_nat (pe_put_ops e), show_nat (pe_put_bytes e), show_fixed 1 (put_iops e), show_fixed 2 (put_mbps e)]
     @ latency_columns (pm_put (pe_metrics e))
     @ [show_nat (pe_meta_ops e), show_fixed 1 (meta_iops e)]
     @ latency_columns (pm_meta (pe_metrics e))
     @ [show_fixed 1 (user_percent (pm_cpu (pe_metrics e))), show_fixed 1 (system_percent (pm_cpu (pe_metrics e))),
        show_fixed 1 (iowait_percent (pm_cpu (pe_metrics e))), show_nat (pe_errors e)]"

definition to_tsv :: "PerfLogEntry \<Rightarrow> string" where "to_tsv e = join_with [tab] (perf_columns e)"

definition PERF_LOG_HEADER :: string where
  "PERF_LOG_HEADER = join_with [tab]
     [''agent_id'', ''timestamp_epoch_ms'', ''elapsed_s'', ''stage'',
      ''get_ops'', ''get_bytes'', ''get_iops'', ''get_mbps'', ''get_mean_us'', ''get_p50_us'', ''get_p90_us'', ''get_p99_us'',
      ''put_ops'', ''put_bytes'', ''put_iops'', ''put_mbps'', ''put_mean_us'', ''put_p50_us'', ''put_p90_us'', ''put_p99_us'',
      ''meta_ops'', ''meta_iops'', ''meta_mean_us'', ''meta_p50_us'', ''meta_p90_us'', ''meta_p99_us'',
      ''cpu_user_pct'', ''cpu_system_pct'', ''cpu_iowait_pct'', ''errors'']"

text \<open>A writer, by the lines it has written; creating the file can fail.\<close>

record PerfLogWriter =
  pw_path :: rust_path
  is_compressed :: bool
  pw_lines :: "string list"

definition perf_writer_new :: "(rust_path \<Rightarrow> string + unit) \<Rightarrow> rust_path \<Rightarrow> string + PerfLogWriter" where
  "perf_writer_new create p =
     (case create p of
        Inl e \<Rightarrow> Inl ''Failed to create perf-log file''
      | Inr _ \<Rightarrow> Inr \<lparr> pw_path = p, is_compressed = (path_extension p = Some ''zst''), pw_lines = [PERF_LOG_HEADER] \<rparr>)"

definition perf_write_entry :: "PerfLogEntry \<Rightarrow> PerfLogWriter \<Rightarrow> PerfLogWriter" where
  "perf_write_entry e w = w\<lparr>pw_lines := pw_lines w @ [to_tsv e]\<rparr>"

subsection \<open>Differences\<close>

record PerfLogDeltaTracker =
  prev_get_ops :: nat
  prev_get_bytes :: nat
  prev_put_ops :: nat
  prev_put_bytes :: nat
  prev_meta_ops :: nat
  prev_errors :: nat
  prev_timestamp :: "nat option"
  workload_start :: "nat option"
  warmup_end :: "nat option"

definition delta_tracker_new :: PerfLogDeltaTracker where
  "delta_tracker_new =
     \<lparr> prev_get_ops = 0, prev_get_bytes = 0, prev_put_ops = 0, prev_put_bytes = 0, prev_meta_ops = 0, prev_errors = 0,
       prev_timestamp = None, workload_start = None, warmup_end = None \<rparr>"

definition delta_start :: "nat \<Rightarrow> duration option \<Rightarrow> PerfLogDeltaTracker \<Rightarrow> PerfLogDeltaTracker" where
  "delta_start now warmup tr =
     tr\<lparr>workload_start := Some now, prev_timestamp := Some now, warmup_end := map_option (\<lambda>d. now + d) warmup\<rparr>"

definition reset_warmup_for_workload :: "nat \<Rightarrow> duration option \<Rightarrow> PerfLogDeltaTracker \<Rightarrow> PerfLogDeltaTracker" where
  "reset_warmup_for_workload now warmup tr =
     tr\<lparr>workload_start := Some now, prev_timestamp := Some now, warmup_end := map_option (\<lambda>d. now + d) warmup\<rparr>"

definition delta_reset_for_stage :: "nat \<Rightarrow> PerfLogDeltaTracker \<Rightarrow> PerfLogDeltaTracker" where
  "delta_reset_for_stage now tr = tr\<lparr>workload_start := Some now, prev_timestamp := Some now\<rparr>"

definition is_warmup :: "nat \<Rightarrow> PerfLogDeltaTracker \<Rightarrow> bool" where
  "is_warmup now tr = (case warmup_end tr of Some e \<Rightarrow> now < e | None \<Rightarrow> False)"

definition delta_elapsed :: "nat \<Rightarrow> PerfLogDeltaTracker \<Rightarrow> duration" where
  "delta_elapsed now tr = (case workload_start tr of Some s \<Rightarrow> now - s | None \<Rightarrow> 0)"

definition secs_f64 :: "duration \<Rightarrow> rat" where "secs_f64 d = of_nat d / 1000000000"

definition interval_secs :: "nat \<Rightarrow> PerfLogDeltaTracker \<Rightarrow> rat" where
  "interval_secs now tr = max (case prev_timestamp tr of Some p \<Rightarrow> secs_f64 (now - p) | None \<Rightarrow> 1) (1 / 1000)"

definition compute_delta ::
  "nat \<Rightarrow> nat \<Rightarrow> string \<Rightarrow> PerfMetrics \<Rightarrow> WorkloadStage \<Rightarrow> string \<Rightarrow> PerfLogDeltaTracker \<Rightarrow> PerfLogEntry \<times> PerfLogDeltaTracker" where
  "compute_delta now epoch_ms agent m stage nm tr =
     (let gops = pm_get_ops m - prev_get_ops tr; gbytes = pm_get_bytes m - prev_get_bytes tr;
          pops = pm_put_ops m - prev_put_ops tr; pbytes = pm_put_bytes m - prev_put_bytes tr;
          mops = pm_meta_ops m - prev_meta_ops tr
      in (\<lparr> agent_name = agent, timestamp_epoch_ms = epoch_ms,
            elapsed_s = (case workload_start tr of Some s \<Rightarrow> secs_f64 (now - s) | None \<Rightarrow> 0),
            pe_stage = stage, pe_stage_name = nm, pe_get_ops = gops, pe_get_bytes = gbytes,
            get_iops = of_nat gops / interval_secs now tr, get_mbps = of_nat gbytes / (1024 * 1024) / interval_secs now tr,
            pe_put_ops = pops, pe_put_bytes = pbytes, put_iops = of_nat pops / interval_secs now tr,
            put_mbps = of_nat pbytes / (1024 * 1024) / interval_secs now tr,
            pe_meta_ops = mops, meta_iops = of_nat mops / interval_secs now tr,
            pe_errors = pm_errors m - prev_errors tr, pe_metrics = m \<rparr>,
          tr\<lparr>prev_get_ops := pm_get_ops m, prev_get_bytes := pm_get_bytes m, prev_put_ops := pm_put_ops m,
             prev_put_bytes := pm_put_bytes m, prev_meta_ops := pm_meta_ops m, prev_errors := pm_errors m,
             prev_timestamp := Some now\<rparr>))"

text \<open>The metrics that a standalone run takes from a snapshot; it counts no errors.\<close>

definition metrics_of :: "CpuUtilization \<Rightarrow> LiveStatsSnapshot \<Rightarrow> PerfMetrics" where
  "metrics_of cpu s =
     \<lparr> pm_get_ops = sn_get_ops s, pm_get_bytes = sn_get_bytes s, pm_put_ops = sn_put_ops s, pm_put_bytes = sn_put_bytes s,
       pm_meta_ops = sn_meta_ops s, pm_errors = 0, pm_get = sn_get s, pm_put = sn_put s, pm_meta = sn_meta s, pm_cpu = cpu \<rparr>"

subsection \<open>What the rows add up to\<close>

text \<open>The operations of workers on the tracker, and an interval of a log: what happened, then a row.\<close>

datatype live_event = GetDone bool nat duration | PutDone bool nat duration | MetaDone bool duration

fun live_step :: "'h hdr \<Rightarrow> live_event \<Rightarrow> 'h LiveStatsTracker \<Rightarrow> 'h LiveStatsTracker" where
  "live_step hg (GetDone free n d) t = live_record_get hg free n d t"
| "live_step hg (PutDone free n d) t = live_record_put hg free n d t"
| "live_step hg (MetaDone free d) t = live_record_meta hg free d t"

record log_interval =
  li_events :: "live_event list"
  li_now :: nat
  li_epoch_ms :: nat
  li_cpu :: CpuUtilization

fun perf_rows ::
  "'h hdr \<Rightarrow> ('h \<Rightarrow> bool) \<Rightarrow> string \<Rightarrow> WorkloadStage \<Rightarrow> string \<Rightarrow> log_interval list
    \<Rightarrow> 'h LiveStatsTracker \<times> PerfLogDeltaTracker \<Rightarrow> PerfLogEntry list \<times> 'h LiveStatsTracker \<times> PerfLogDeltaTracker" where
  "perf_rows hg unused agent stage nm [] s = ([], s)"
| "perf_rows hg unused agent stage nm (iv # ivs) s =
     (let (t, tr) = s; t' = fold (live_step hg) (li_events iv) t;
          (e, tr') = compute_delta (li_now iv) (li_epoch_ms iv) agent
            (metrics_of (li_cpu iv) (live_snapshot hg unused (li_now iv) t')) stage nm tr;
          (es, s') = perf_rows hg unused agent stage nm ivs (t', tr')
      in (e # es, s'))"

text \<open>The five counters, in an event, in the tracker, in the memory of the log and in a row.\<close>

datatype counter = CGetOps | CGetBytes | CPutOps | CPutBytes | CMetaOps

fun event_count :: "counter \<Rightarrow> live_event \<Rightarrow> nat" where
  "event_count CGetOps (GetDone free n d) = 1"
| "event_count CGetBytes (GetDone free n d) = n"
| "event_count CPutOps (PutDone free n d) = 1"
| "event_count CPutBytes (PutDone free n d) = n"
| "event_count CMetaOps (MetaDone free d) = 1"
| "event_count c ev = 0"

fun live_count :: "counter \<Rightarrow> 'h LiveStatsTracker \<Rightarrow> nat" where
  "live_count CGetOps t = lt_get_ops t" | "live_count CGetBytes t = lt_get_bytes t"
| "live_count CPutOps t = lt_put_ops t" | "live_count CPutBytes t = lt_put_bytes t" | "live_count CMetaOps t = lt_meta_ops t"

fun prev_count :: "counter \<Rightarrow> PerfLogDeltaTracker \<Rightarrow> nat" where
  "prev_count CGetOps t = prev_get_ops t" | "prev_count CGetBytes t = prev_get_bytes t"
| "prev_count CPutOps t = prev_put_ops t" | "prev_count CPutBytes t = prev_put_bytes t" | "prev_count CMetaOps t = prev_meta_ops t"

fun row_count :: "counter \<Rightarrow> PerfLogEntry \<Rightarrow> nat" where
  "row_count CGetOps e = pe_get_ops e" | "row_count CGetBytes e = pe_get_bytes e"
| "row_count CPutOps e = pe_put_ops e" | "row_count CPutBytes e = pe_put_bytes e" | "row_count CMetaOps e = pe_meta_ops e"

definition events_count :: "counter \<Rightarrow> log_interval list \<Rightarrow> nat" where
  "events_count c ivs = sum_list (map (\<lambda>iv. sum_list (map (event_count c) (li_events iv))) ivs)"

definition rows_count :: "counter \<Rightarrow> PerfLogEntry list \<Rightarrow> nat" where
  "rows_count c es = sum_list (map (row_count c) es)"

lemma perf_rows_length: "length (fst (perf_rows hg unused agent stage nm ivs s)) = length ivs"
  by (induction ivs arbitrary: s) (simp_all add: split_beta Let_def)

lemma live_step_count: "live_count c (live_step hg ev t) = live_count c t + event_count c ev"
  by (cases c; cases ev) (simp_all add: live_record_get_def live_record_put_def live_record_meta_def)

lemma live_fold_count: "live_count c (fold (live_step hg) evs t) = live_count c t + sum_list (map (event_count c) evs)"
  by (induction evs arbitrary: t) (simp_all add: live_step_count)

lemma compute_delta_count:
  assumes "compute_delta now ms agent (metrics_of cpu (live_snapshot hg unused now' t)) stage nm tr = (e, tr')"
  shows "row_count c e = live_count c t - prev_count c tr \<and> prev_count c tr' = live_count c t"
  using assms by (cases c) (auto simp: compute_delta_def metrics_of_def live_snapshot_def Let_def)

lemma perf_rows_count:
  assumes "perf_rows hg unused agent stage nm ivs (t, tr) = (es, t', tr')" "prev_count c tr \<le> live_count c t"
  shows "rows_count c es + (if ivs = [] then 0 else prev_count c tr) = events_count c ivs + (if ivs = [] then 0 else live_count c t)
    \<and> live_count c t' = live_count c t + events_count c ivs \<and> (ivs \<noteq> [] \<longrightarrow> prev_count c tr' = live_count c t')"
  using assms
proof (induction ivs arbitrary: t tr es)
  case (Cons iv ivs)
  let ?t = "fold (live_step hg) (li_events iv) t"
  obtain e tr1 where d: "compute_delta (li_now iv) (li_epoch_ms iv) agent
      (metrics_of (li_cpu iv) (live_snapshot hg unused (li_now iv) ?t)) stage nm tr = (e, tr1)" by force
  obtain es1 where r: "perf_rows hg unused agent stage nm ivs (?t, tr1) = (es1, t', tr')" and es: "es = e # es1"
    using Cons.prems(1) d by (auto split: prod.splits)
  note dc = compute_delta_count [OF d, of c]
  have "prev_count c tr1 \<le> live_count c ?t" using dc by simp
  note ih = Cons.IH [OF r this]
  have "ivs = [] \<Longrightarrow> t' = ?t \<and> tr' = tr1 \<and> es1 = []" using r by simp
  then show ?case
    using ih dc es Cons.prems(2) live_fold_count [of c hg "li_events iv" t]
    by (cases "ivs = []") (auto simp: rows_count_def events_count_def)
qed (simp add: rows_count_def events_count_def)

text \<open>
  The rows of a log that runs beside one tracker add up exactly to the operations and bytes that
  the workers recorded, however they are spread over the intervals. When the tracker is reset for the
  next stage, as agents do, the log's memory is not: its rows of that stage then miss the smaller of
  what was counted before the reset and in the first interval after it.
\<close>

lemma perf_log_adds_up:
  assumes "perf_rows hg unused agent stage nm (iv # ivs) (live_stats_new hg now n, delta_start now warmup delta_tracker_new) = (es, t, tr)"
    and "perf_rows hg unused agent stage' nm' (jv # jvs) (reset_for_stage hg now' nm' stage' t, delta_reset_for_stage now' tr) = (fs, t', tr')"
  shows "rows_count c es = events_count c (iv # ivs)
    \<and> rows_count c fs + min (events_count c (iv # ivs)) (events_count c [jv]) = events_count c (jv # jvs)"
proof -
  have zero: "live_count c (live_stats_new hg now n) = 0" "prev_count c (delta_start now warmup delta_tracker_new) = 0"
    by (cases c; simp add: live_stats_new_def delta_start_def delta_tracker_new_def)+
  note first = perf_rows_count [OF assms(1), of c, unfolded zero]
  let ?t0 = "reset_for_stage hg now' nm' stage' t" and ?tr0 = "delta_reset_for_stage now' tr"
  have reset: "live_count c ?t0 = 0" "prev_count c ?tr0 = events_count c (iv # ivs)"
    using first by (cases c; simp add: reset_for_stage_def clear_counters_def delta_reset_for_stage_def)+
  let ?t = "fold (live_step hg) (li_events jv) ?t0"
  obtain e tr1 where d: "compute_delta (li_now jv) (li_epoch_ms jv) agent
      (metrics_of (li_cpu jv) (live_snapshot hg unused (li_now jv) ?t)) stage' nm' ?tr0 = (e, tr1)" by force
  obtain es1 where r: "perf_rows hg unused agent stage' nm' jvs (?t, tr1) = (es1, t', tr')" and fs: "fs = e # es1"
    using assms(2) d by (auto split: prod.splits)
  have t: "live_count c ?t = events_count c [jv]" by (simp add: live_fold_count reset(1) events_count_def)
  note dc = compute_delta_count [OF d, of c, unfolded t reset(2)]
  have "rows_count c es1 = events_count c jvs"
    using perf_rows_count [OF r, of c] dc t by (cases "jvs = []") (simp_all add: rows_count_def events_count_def)
  then have "rows_count c fs = (events_count c [jv] - events_count c (iv # ivs)) + events_count c jvs"
    using dc fs by (simp add: rows_count_def)
  moreover have "events_count c (jv # jvs) = events_count c [jv] + events_count c jvs" by (simp add: events_count_def)
  ultimately show ?thesis using first by simp
qed

definition sample_interval :: "nat \<Rightarrow> nat \<Rightarrow> log_interval" where
  "sample_interval now k =
     \<lparr> li_events = replicate k (GetDone True 10 5000), li_now = now, li_epoch_ms = 0, li_cpu = CpuUtilization_default \<rparr>"

lemma perf_log_adds_up_witness:
  "\<exists>es fs. rows_count CGetOps es = 5 \<and> rows_count CGetOps fs + 3 = 7 \<and> length es = 2 \<and> length fs = 2"
proof -
  let ?f = "perf_rows list_hist (\<lambda>_. False) ''agent-1''"
  obtain es t tr where a: "?f StagePrepare ''one'' [sample_interval 1 2, sample_interval 2 3]
      (live_stats_new list_hist 0 4, delta_start 0 None delta_tracker_new) = (es, t, tr)" by (metis prod_cases3)
  obtain fs t' tr' where b: "?f StageWorkload ''two'' [sample_interval 3 3, sample_interval 4 4]
      (reset_for_stage list_hist 2 ''two'' StageWorkload t, delta_reset_for_stage 2 tr) = (fs, t', tr')" by (metis prod_cases3)
  have "length es = 2" using perf_rows_length a by (metis One_nat_def Suc_1 fst_conv length_Cons list.size(3))
  moreover have "length fs = 2" using perf_rows_length b by (metis One_nat_def Suc_1 fst_conv length_Cons list.size(3))
  moreover have "events_count CGetOps [sample_interval 1 2, sample_interval 2 3] = 5"
      "events_count CGetOps [sample_interval 3 3] = 3" "events_count CGetOps [sample_interval 3 3, sample_interval 4 4] = 7"
    by (simp_all add: events_count_def sample_interval_def eval_nat_numeral)
  ultimately show ?thesis using perf_log_adds_up [OF a b, of CGetOps] by auto
qed

subsection \<open>Columns and percentages\<close>

lemma split_join:
  "ws \<noteq> [] \<Longrightarrow> list_all (\<lambda>w. c \<notin> set w) ws \<Longrightarrow> split_on c (join_with [c] ws) = ws"
proof (induction ws)
  case (Cons w ws)
  then show ?case by (cases "ws = []") (simp_all add: split_on_no_sep join_with_Cons split_on_append_sep)
qed simp

lemma no_tab_number [simp]: "tab \<notin> set (show_nat n)" "tab \<notin> set (show_padded k n)" "tab \<notin> set (show_fixed k x)"
proof -
  have "digit_val tab = None" by (simp add: digit_val_def tab_def)
  then show n: "tab \<notin> set (show_nat n)" for n using show_nat_digits by metis
  show p: "tab \<notin> set (show_padded k n)" for k n using n by (auto simp: show_padded_def tab_def)
  show "tab \<notin> set (show_fixed k x)" using n p by (auto simp: show_fixed_def Let_def tab_def)
qed

lemma no_tab_default_name [simp]: "tab \<notin> set (default_name s)"
  by (cases s) (simp_all add: default_name_def tab_def)

text \<open>
  A row splits at its tabs into exactly the columns the header names, unless the agent or the
  stage has a tab in its name.
\<close>

lemma row_splits_into_columns:
  assumes "tab \<notin> set (agent_name e)" "tab \<notin> set (pe_stage_name e)"
  shows "split_on tab (to_tsv e) = perf_columns e \<and> length (perf_columns e) = length (split_on tab PERF_LOG_HEADER)"
proof
  show "split_on tab (to_tsv e) = perf_columns e"
    unfolding to_tsv_def using assms by (intro split_join) (simp_all add: perf_columns_def latency_columns_def)
  have "length (split_on tab PERF_LOG_HEADER) = 30"
    unfolding PERF_LOG_HEADER_def by (subst split_join) (simp_all add: tab_def)
  then show "length (perf_columns e) = length (split_on tab PERF_LOG_HEADER)"
    by (simp add: perf_columns_def latency_columns_def)
qed

lemma row_splits_into_columns_witness:
  "length (split_on tab (to_tsv (fst (compute_delta 5 7 ''agent-1''
     (metrics_of CpuUtilization_default (live_snapshot list_hist (\<lambda>_. True) 5 (live_stats_new list_hist 0 4)))
     StageWorkload [] delta_tracker_new)))) = 30"
proof -
  let ?e = "fst (compute_delta 5 7 ''agent-1''
     (metrics_of CpuUtilization_default (live_snapshot list_hist (\<lambda>_. True) 5 (live_stats_new list_hist 0 4)))
     StageWorkload [] delta_tracker_new)"
  have "tab \<notin> set (agent_name ?e)" "tab \<notin> set (pe_stage_name ?e)" by (simp_all add: compute_delta_def Let_def tab_def)
  from row_splits_into_columns [OF this] show ?thesis by (simp add: perf_columns_def latency_columns_def)
qed

definition cpu_before :: "CpuTime \<Rightarrow> CpuTime \<Rightarrow> bool" where
  "cpu_before a b =
     (cpu_user a \<le> cpu_user b \<and> cpu_nice a \<le> cpu_nice b \<and> cpu_system a \<le> cpu_system b \<and> cpu_idle a \<le> cpu_idle b
      \<and> cpu_iowait a \<le> cpu_iowait b \<and> cpu_irq a \<le> cpu_irq b \<and> cpu_softirq a \<le> cpu_softirq b \<and> cpu_steal a \<le> cpu_steal b)"

lemma percent_sum: "percent_of a n + percent_of b n + percent_of c n = percent_of (a + b + c) n"
  by (simp add: percent_of_def add_divide_distrib algebra_simps)

lemma percent_nonneg: "0 \<le> percent_of a n" by (simp add: percent_of_def)

lemma percent_bound: "a \<le> n \<Longrightarrow> percent_of a n \<le> 100"
  by (cases "n = 0") (simp_all add: percent_of_def divide_le_eq)

text \<open>While no counter of the kernel goes backwards, the percentages are sound: none is negative
  and their sum is at most 100.\<close>

lemma cpu_percentages_bounded:
  assumes "cpu_before old new" "u = utilization old new"
  shows "0 \<le> user_percent u \<and> 0 \<le> system_percent u \<and> 0 \<le> iowait_percent u
    \<and> total_percent u = user_percent u + system_percent u + iowait_percent u \<and> total_percent u \<le> 100"
proof -
  let ?us = "(cpu_user new - cpu_user old) + (cpu_nice new - cpu_nice old)"
  let ?sy = "(cpu_system new - cpu_system old) + (cpu_irq new - cpu_irq old) + (cpu_softirq new - cpu_softirq old)"
  let ?io = "cpu_iowait new - cpu_iowait old" and ?tot = "cpu_total new - cpu_total old"
  have "?us + ?sy + ?io \<le> ?tot" using assms(1) unfolding cpu_before_def cpu_total_def by linarith
  then have "percent_of ?us ?tot + percent_of ?sy ?tot + percent_of ?io ?tot \<le> 100"
    unfolding percent_sum by (rule percent_bound)
  moreover have "u = (if ?tot = 0 then CpuUtilization_default
      else \<lparr> user_percent = percent_of ?us ?tot, system_percent = percent_of ?sy ?tot, iowait_percent = percent_of ?io ?tot,
             total_percent = percent_of ?us ?tot + percent_of ?sy ?tot + percent_of ?io ?tot \<rparr>)"
    unfolding assms(2) utilization_def Let_def ..
  ultimately show ?thesis by (cases "?tot = 0") (simp_all only: if_True if_False CpuUtilization_default_def
    CpuUtilization.select_convs percent_nonneg, simp_all)
qed

definition idle_cpu :: "nat \<Rightarrow> nat \<Rightarrow> CpuTime" where
  "idle_cpu user idle =
     \<lparr> cpu_user = user, cpu_nice = 0, cpu_system = 0, cpu_idle = idle, cpu_iowait = 0, cpu_irq = 0, cpu_softirq = 0, cpu_steal = 0 \<rparr>"

lemma cpu_percentages_bounded_witness:
  "total_percent (utilization (idle_cpu 10 10) (idle_cpu 20 40)) = 25 \<and> (25 :: rat) \<le> 100"
proof -
  have "cpu_before (idle_cpu 10 10) (idle_cpu 20 40)" by (simp add: cpu_before_def idle_cpu_def)
  from cpu_percentages_bounded [OF this refl] show ?thesis
    by (simp add: utilization_def idle_cpu_def cpu_total_def percent_of_def)
qed

end
