(* ===== verification/Size_Text.thy ===== *)
theory Size_Text
  imports Size_Generator
begin

text \<open>
  The numbers of a configuration that may be written as text: sizes with a suffix
  (\<open>src/size_parser.rs\<close>), counts with thousand separators and durations with a unit
  (\<open>src/serde_helpers.rs\<close>), with the deserialisers that accept a YAML number or a text.

  A YAML value is the one \<open>serde_yaml\<close> hands to the deserialiser; texts are ASCII, and an error is a
  value of a datatype that keeps what the message shows. \<open>f64\<close> is exact: the properties of fractional
  sizes therefore bound the result by \<open>2 ^ 50\<close>, where the error of the product is less than the half
  that \<open>round\<close> absorbs.
\<close>

datatype yaml = YNull | YPosInt nat | YNegInt int | YFloat rat | YText string | YOther

section \<open>Sizes\<close>

datatype size_error =
  NoSuffix string | NoNumber string | InvalidNumber string | NegativeSize string | UnknownSuffix string | NotASize

definition to_ascii_upper :: "char \<Rightarrow> char" where
  "to_ascii_upper c = (let n = (of_char c :: nat) in if 97 \<le> n \<and> n \<le> 122 then char_of (n - 32) else c)"

definition to_uppercase :: "string \<Rightarrow> string" where
  "to_uppercase s = map to_ascii_upper s"

definition size_char :: "char \<Rightarrow> bool" where
  "size_char c = (digit_val c \<noteq> None \<or> c = CHR ''.'')"

definition split_number_suffix :: "string \<Rightarrow> size_error + string \<times> string" where
  "split_number_suffix s =
     (let number_part = takeWhile size_char s; rest = dropWhile size_char s
      in if rest = [] then Inl (NoSuffix s)
         else if number_part = [] then Inl (NoNumber s)
         else Inr (number_part, rest))"

definition suffix_table :: "(string \<times> nat) list" where
  "suffix_table =
     [(''K'', 1000), (''KB'', 1000), (''M'', 1000000), (''MB'', 1000000),
      (''G'', 1000000000), (''GB'', 1000000000), (''T'', 1000000000000), (''TB'', 1000000000000),
      (''KI'', 1024), (''KIB'', 1024), (''MI'', 1048576), (''MIB'', 1048576),
      (''GI'', 1073741824), (''GIB'', 1073741824), (''TI'', 1099511627776), (''TIB'', 1099511627776)]"

definition parse_suffix :: "string \<Rightarrow> size_error + nat" where
  "parse_suffix s =
     (case map_of suffix_table (to_uppercase s) of
        None \<Rightarrow> Inl (UnknownSuffix s)
      | Some m \<Rightarrow> Inr m)"

text \<open>
  \<open>str::parse::<f64>\<close> on a text of digits and dots: digits with at most one dot, and a digit on
  at least one side of it.
\<close>

definition parse_decimal :: "string \<Rightarrow> rat option" where
  "parse_decimal s =
     (case split_on (CHR ''.'') s of
        [a] \<Rightarrow> if a = [] then None else map_option of_nat (parse_digits 0 a)
      | [a, b] \<Rightarrow>
          if a = [] \<and> b = [] then None
          else (case parse_digits 0 (a @ b) of
                  None \<Rightarrow> None
                | Some n \<Rightarrow> Some (of_nat n / 10 ^ length b))
      | _ \<Rightarrow> None)"

definition parse_size :: "string \<Rightarrow> size_error + nat" where
  "parse_size text =
     (let input = trim text
      in case parse_u64 input of
           Some num \<Rightarrow> Inr num
         | None \<Rightarrow>
             bind_result (split_number_suffix input) (\<lambda>(number_part, sfx).
               case parse_decimal number_part of
                 None \<Rightarrow> Inl (InvalidNumber number_part)
               | Some v \<Rightarrow>
                   if v < 0 then Inl (NegativeSize input)
                   else bind_result (parse_suffix sfx) (\<lambda>m. Inr (cast_u64 (round_f64 (v * of_nat m))))))"

text \<open>A size of the configuration: absent, a number, or a text; every other value is refused.\<close>

definition deserialize_size :: "yaml \<Rightarrow> size_error + nat option" where
  "deserialize_size v =
     (case v of
        YNull \<Rightarrow> Inr None
      | YPosInt n \<Rightarrow> Inr (Some n)
      | YText s \<Rightarrow> bind_result (parse_size s) (\<lambda>n. Inr (Some n))
      | _ \<Rightarrow> Inl NotASize)"

subsection \<open>Texts of digits, trimming\<close>

lemma digit_not_ws: "digit_val c \<noteq> None \<Longrightarrow> \<not> is_ws c"
  by (auto simp: digit_val_def is_ws_def Let_def)

lemma show_nat_Cons: obtains c s where "show_nat n = c # s" "digit_val c \<noteq> None"
proof (cases "show_nat n")
  case (Cons c s)
  then show ?thesis using that show_nat_digits [of c n] by simp
qed simp

lemma dropWhile_all: "list_all P ws \<Longrightarrow> dropWhile P (ws @ s) = dropWhile P s"
  by (induction ws) simp_all

lemma trim_padded:
  assumes "list_all is_ws l" "list_all is_ws r" "s \<noteq> []" "\<not> is_ws (hd s)" "\<not> is_ws (last s)"
  shows "trim (l @ s @ r) = s"
proof -
  have "dropWhile is_ws (l @ s @ r) = s @ r"
    using assms by (cases s) (simp_all add: dropWhile_all)
  moreover have "list_all is_ws (rev r)" using assms(2) by (simp add: list_all_iff)
  moreover have "dropWhile is_ws (rev s) = rev s"
    using assms(3,5) by (cases "rev s") (auto simp: last_rev [symmetric] hd_rev)
  ultimately show ?thesis by (simp add: trim_def dropWhile_all)
qed

lemma parse_digits_None:
  "digit_val c = None \<Longrightarrow> c \<in> set s \<Longrightarrow> parse_digits a s = None"
  by (induction s arbitrary: a) (auto split: option.splits)

lemma parse_u64_None:
  assumes "digit_val c = None" "c \<in> set (tl s)"
  shows "parse_u64 s = None"
proof (cases s)
  case (Cons x t)
  then show ?thesis using assms by (auto simp: parse_u64_def Let_def parse_digits_None)
qed (use assms in simp)

text \<open>The number part: the digits of \<open>n\<close>, with a dot before the last \<open>k\<close> of them if \<open>0 < k\<close>.\<close>

definition decimal_text :: "nat \<Rightarrow> nat \<Rightarrow> nat \<Rightarrow> string" where
  "decimal_text k a b = (if k = 0 then show_nat a else show_nat a @ ''.'' @ show_padded k b)"

definition decimal_value :: "nat \<Rightarrow> nat \<Rightarrow> nat \<Rightarrow> rat" where
  "decimal_value k a b = (if k = 0 then of_nat a else of_nat a + of_nat b / 10 ^ k)"

lemma no_dot: "CHR ''.'' \<notin> set (show_nat n)" "CHR ''.'' \<notin> set (show_padded k n)"
proof -
  have "digit_val (CHR ''.'') = None" by (simp add: digit_val_def)
  then show "CHR ''.'' \<notin> set (show_nat n)" using show_nat_digits by blast
  then show "CHR ''.'' \<notin> set (show_padded k n)" by (auto simp: show_padded_def)
qed

lemma show_nat_length: "b < 10 ^ k \<Longrightarrow> 0 < k \<Longrightarrow> length (show_nat b) \<le> k"
proof (induction b arbitrary: k rule: show_nat.induct)
  case (1 b)
  show ?case
  proof (cases "b < 10")
    case False
    then have "k \<noteq> 1" using "1.prems" by auto
    then obtain j where j: "k = Suc j" "0 < j" using "1.prems"(2) by (cases k) auto
    have "b div 10 < 10 ^ j" using "1.prems"(1) j by (simp add: div_less_iff_less_mult mult.commute)
    then show ?thesis using "1.IH" False j by (simp add: show_nat.simps [of b])
  qed (use "1.prems" in \<open>simp add: show_nat.simps [of b]\<close>)
qed

lemma parse_digits_padded:
  assumes "b < 10 ^ k" "0 < k"
  shows "parse_digits a (show_padded k b) = Some (a * 10 ^ k + b)" "length (show_padded k b) = k"
proof -
  have l: "length (show_nat b) \<le> k" using show_nat_length assms by blast
  have z: "parse_digits a (replicate j (CHR ''0'') @ s) = parse_digits (a * 10 ^ j) s" for j s
    by (induction j arbitrary: a) (simp_all add: digit_val_def algebra_simps)
  have "10 ^ (k - length (show_nat b)) * 10 ^ length (show_nat b) = (10 ^ k :: nat)"
    using l by (simp flip: power_add)
  then show "parse_digits a (show_padded k b) = Some (a * 10 ^ k + b)"
    by (simp add: show_padded_def z parse_digits_show mult.assoc)
  show "length (show_padded k b) = k" using l by (simp add: show_padded_def)
qed

lemma parse_decimal_text:
  assumes "b < 10 ^ k"
  shows "parse_decimal (decimal_text k a b) = Some (decimal_value k a b)"
proof (cases "k = 0")
  case True
  then show ?thesis
    using parse_digits_show [of 0 a]
    by (simp add: parse_decimal_def decimal_text_def decimal_value_def split_on_no_sep no_dot)
next
  case False
  then have k: "0 < k" by simp
  have "split_on (CHR ''.'') (show_nat a @ CHR ''.'' # show_padded k b) = [show_nat a, show_padded k b]"
    by (simp add: split_on_append_sep split_on_no_sep no_dot)
  moreover have "parse_digits 0 (show_nat a @ show_padded k b) = Some (a * 10 ^ k + b)"
    using parse_digits_padded [OF assms k] parse_digits_show [of 0 a] by (simp add: parse_digits_append)
  ultimately show ?thesis
    using False parse_digits_padded(2) [OF assms k]
    by (simp add: parse_decimal_def decimal_text_def decimal_value_def add_divide_distrib)
qed

lemma decimal_text_chars: "c \<in> set (decimal_text k a b) \<Longrightarrow> size_char c"
  using show_nat_digits by (auto simp: decimal_text_def size_char_def show_padded_def digit_val_def split: if_splits)

lemma decimal_text_hd: "decimal_text k a b \<noteq> []" "\<not> is_ws (hd (decimal_text k a b))"
proof -
  obtain c s where "show_nat a = c # s" "digit_val c \<noteq> None" by (rule show_nat_Cons)
  then show "decimal_text k a b \<noteq> []" "\<not> is_ws (hd (decimal_text k a b))"
    using digit_not_ws by (auto simp: decimal_text_def)
qed

lemma takeWhile_dropWhile_append:
  assumes "\<And>c. c \<in> set s \<Longrightarrow> P c" "t \<noteq> []" "\<not> P (hd t)"
  shows "takeWhile P (s @ t) = s" "dropWhile P (s @ t) = t"
  using assms by (auto simp: takeWhile_append dropWhile_append neq_Nil_conv)

lemma trim_digits:
  assumes "list_all is_ws l" "list_all is_ws r"
  shows "trim (l @ show_nat n @ r) = show_nat n"
proof -
  have "\<not> is_ws (hd (show_nat n))" "\<not> is_ws (last (show_nat n))"
    using digit_not_ws show_nat_digits [of "hd (show_nat n)" n] show_nat_digits [of "last (show_nat n)" n] by simp_all
  then show ?thesis using assms by (intro trim_padded) simp_all
qed

text \<open>Letters survive the change of case, so a suffix of the table begins and ends with a letter.\<close>

definition letter :: "char \<Rightarrow> bool" where
  "letter c = (let n = (of_char c :: nat) in 65 \<le> n \<and> n \<le> 90)"

lemma ws_small: "is_ws c \<Longrightarrow> (of_char c :: nat) \<le> 46"
  unfolding is_ws_def insert_iff empty_iff by (elim disjE) simp_all

lemma upper_letter:
  assumes "letter (to_ascii_upper c)"
  shows "\<not> size_char c" "\<not> is_ws c" "digit_val c = None"
proof -
  have eq: "(of_char d :: nat) = n \<Longrightarrow> \<not> (97 \<le> n \<and> n \<le> 122) \<Longrightarrow> to_ascii_upper d = d" for d n
    by (auto simp: to_ascii_upper_def Let_def)
  have 1: "digit_val c = None"
  proof (rule ccontr)
    assume "digit_val c \<noteq> None"
    then have n: "48 \<le> (of_char c :: nat)" "(of_char c :: nat) \<le> 57" by (auto simp: digit_val_def Let_def split: if_splits)
    then have "to_ascii_upper c = c" by (intro eq [OF refl]) simp
    then show False using assms n by (simp add: letter_def)
  qed
  have 2: "\<not> (of_char c :: nat) \<le> 46"
  proof
    assume n: "(of_char c :: nat) \<le> 46"
    then have "to_ascii_upper c = c" by (intro eq [OF refl]) simp
    then show False using assms n by (simp add: letter_def)
  qed
  moreover have "(of_char (CHR ''.'') :: nat) \<le> 46" by simp
  ultimately have "c \<noteq> CHR ''.''" by metis
  then show "\<not> size_char c" "digit_val c = None" using 1 by (simp_all add: size_char_def)
  show "\<not> is_ws c" using 2 ws_small by blast
qed

definition suffix_ok :: "string \<times> nat \<Rightarrow> bool" where
  "suffix_ok e = (fst e \<noteq> [] \<and> list_all letter (fst e) \<and> 0 < snd e)"

lemma suffix_letters:
  assumes "map_of suffix_table t = Some m"
  shows "t \<noteq> [] \<and> list_all letter t \<and> 0 < m"
proof -
  have "list_all suffix_ok suffix_table" by (simp add: suffix_table_def suffix_ok_def letter_def)
  then have "suffix_ok (t, m)" using map_of_SomeD [OF assms] by (simp only: list_all_iff)
  then show ?thesis by (simp add: suffix_ok_def)
qed

lemma suffix_shape:
  assumes "map_of suffix_table (to_uppercase s) = Some m"
  shows "s \<noteq> []" "\<not> size_char (hd s)" "\<not> is_ws (last s)" "digit_val (last s) = None"
proof -
  have l: "to_uppercase s \<noteq> []" "list_all letter (to_uppercase s)" using suffix_letters [OF assms] by simp_all
  then show n: "s \<noteq> []" by (simp add: to_uppercase_def)
  have c: "letter (to_ascii_upper (hd s))" "letter (to_ascii_upper (last s))"
    using l(2) n by (auto simp: to_uppercase_def list_all_iff)
  show "\<not> size_char (hd s)" "\<not> is_ws (last s)" "digit_val (last s) = None"
    using upper_letter [OF c(1)] upper_letter [OF c(2)] by simp_all
qed

lemma parse_size_suffixed:
  assumes "b < 10 ^ k" "map_of suffix_table (to_uppercase s) = Some m" "list_all is_ws l" "list_all is_ws r"
  shows "parse_size (l @ (decimal_text k a b @ s) @ r) = Inr (cast_u64 (round_f64 (decimal_value k a b * of_nat m)))"
proof -
  note sh = suffix_shape [OF assms(2)] and hg = decimal_text_hd [of k a b]
  let ?t = "decimal_text k a b @ s"
  have t: "trim (l @ ?t @ r) = ?t"
    using sh hg assms(3,4) by (intro trim_padded) simp_all
  have "last s \<in> set (tl ?t)" using hg(1) sh(1) by (cases "decimal_text k a b") simp_all
  then have p: "parse_u64 ?t = None" using sh(4) parse_u64_None by blast
  have sp: "split_number_suffix ?t = Inr (decimal_text k a b, s)"
    using takeWhile_dropWhile_append [of "decimal_text k a b" size_char s] decimal_text_chars sh(1,2) hg(1)
    by (simp add: split_number_suffix_def)
  have v: "\<not> decimal_value k a b < 0" by (simp add: decimal_value_def not_less)
  show ?thesis
    unfolding parse_size_def t Let_def p using assms(2) v
    by (simp add: sp parse_decimal_text [OF assms(1)] parse_suffix_def)
qed

lemma round_cast_near:
  assumes "0 \<le> x" "x \<le> 2 ^ 50"
  shows "\<bar>of_nat (cast_u64 (round_f64 x)) - x\<bar> \<le> 1 / 2"
proof -
  let ?n = "\<lfloor>x + 1 / 2\<rfloor>"
  have 0: "0 \<le> ?n" using assms(1) by simp
  have "x + 1 / 2 < of_int (2 ^ 50 + 1)" using assms(2) by simp
  then have "?n < 2 ^ 50 + 1" by (subst floor_less_iff)
  then have "nat ?n \<le> nat (2 ^ 50 + 1)" by (intro nat_mono less_imp_le)
  also have "\<dots> \<le> u64_max" by (simp add: u64_max_def)
  finally have "nat ?n \<le> u64_max" .
  then have "of_nat (cast_u64 (round_f64 x)) = (of_int ?n :: rat)"
    using 0 by (simp add: cast_u64_def round_f64_def)
  moreover have "of_int ?n \<le> x + 1 / 2" "x + 1 / 2 < of_int ?n + 1" by linarith+
  ultimately show ?thesis by linarith
qed

text \<open>
  A size written as a number, whole or with decimals, and a suffix, in any case and between blanks,
  is read as the number of bytes nearest to the product of the number and the suffix's factor, and as
  the product itself for a whole number; a whole number without a suffix is read as it is, up to the
  largest 64-bit value.
\<close>

lemma size_text_read_back:
  assumes "b < 10 ^ k" "map_of suffix_table (to_uppercase s) = Some m" "list_all is_ws l" "list_all is_ws r"
    and "decimal_value k a b * of_nat m \<le> 2 ^ 50" "n \<le> u64_max"
  shows "(\<exists>bytes. parse_size (l @ (decimal_text k a b @ s) @ r) = Inr bytes
            \<and> \<bar>of_nat bytes - decimal_value k a b * of_nat m\<bar> \<le> 1 / 2 \<and> (k = 0 \<longrightarrow> bytes = a * m))
    \<and> parse_size (l @ show_nat n @ r) = Inr n"
proof -
  let ?x = "decimal_value k a b * of_nat m"
  have "0 \<le> ?x" by (simp add: decimal_value_def)
  then have near: "\<bar>of_nat (cast_u64 (round_f64 ?x)) - ?x\<bar> \<le> 1 / 2" using assms(5) round_cast_near by blast
  have "cast_u64 (round_f64 ?x) = a * m" if "k = 0"
  proof -
    have x: "?x = of_nat (a * m)" using that by (simp add: decimal_value_def)
    have "\<lfloor>of_nat (a * m) + 1 / 2 :: rat\<rfloor> = int (a * m)" by (rule floor_unique) simp_all
    then have r: "round_f64 ?x = of_nat (a * m)" unfolding x round_f64_def by simp
    have "of_nat (a * m) \<le> (of_nat (2 ^ 50) :: rat)" using assms(5) x by simp
    then have "a * m \<le> 2 ^ 50" by (simp only: of_nat_le_iff)
    then have "a * m \<le> u64_max" by (simp add: u64_max_def)
    then show ?thesis unfolding r cast_u64_def by (simp del: of_nat_mult)
  qed
  moreover have "trim (l @ show_nat n @ r) = show_nat n" by (rule trim_digits [OF assms(3,4)])
  then have "parse_size (l @ show_nat n @ r) = Inr n"
    using parse_u64_show_nat [OF assms(6)] by (simp add: parse_size_def)
  moreover note parse_size_suffixed [OF assms(1-4), of a] near
  ultimately show ?thesis by blast
qed

lemma size_text_read_back_witness:
  "(\<exists>bytes. parse_size '' 1.5gib '' = Inr bytes \<and> \<bar>of_nat bytes - (1610612736 :: rat)\<bar> \<le> 1 / 2) \<and> parse_size '' 42 '' = Inr 42"
proof -
  have shown: "show_nat 42 = ''42''" "decimal_text 1 1 5 = ''1.5''" by code_simp+
  have key: "map_of suffix_table (to_uppercase ''gib'') = Some 1073741824"
  proof -
    have "to_uppercase ''gib'' = ''GIB''" by code_simp
    then show ?thesis by (simp add: suffix_table_def)
  qed
  have ws: "list_all is_ws '' ''" by code_simp
  have v: "decimal_value 1 1 5 * of_nat 1073741824 = (1610612736 :: rat)" by (simp add: decimal_value_def)
  have b: "(5::nat) < 10 ^ 1" "(42::nat) \<le> u64_max" by (simp_all add: u64_max_def)
  show ?thesis
    using size_text_read_back [OF b(1) key ws ws _ b(2), of 1] unfolding v shown by auto
qed

text \<open>
  What is refused, and what is not the number it looks like: decimals without a suffix, a sign, a
  separator in the number or a blank before the suffix. No text reaches the check for a negative size.
\<close>

lemma size_text_refused:
  "parse_size ''1.5'' = Inl (NoSuffix ''1.5'')" "parse_size ''-5KB'' = Inl (NoNumber ''-5KB'')"
  "parse_size ''1.2.3k'' = Inl (InvalidNumber ''1.2.3'')" "parse_size [] = Inl (NoSuffix [])"
  by code_simp+

lemma size_suffix_refused:
  "parse_size ''1,000'' = Inl (UnknownSuffix '',000'')" "parse_size ''5 MB'' = Inl (UnknownSuffix '' MB'')"
proof -
  have "trim ''1,000'' = ''1,000''" "parse_u64 ''1,000'' = None" "split_number_suffix ''1,000'' = Inr (''1'', '',000'')"
    "parse_decimal ''1'' = Some 1" "to_uppercase '',000'' = '',000''" by code_simp+
  then show "parse_size ''1,000'' = Inl (UnknownSuffix '',000'')"
    by (simp add: parse_size_def parse_suffix_def suffix_table_def)
  have "trim ''5 MB'' = ''5 MB''" "parse_u64 ''5 MB'' = None" "split_number_suffix ''5 MB'' = Inr (''5'', '' MB'')"
    "parse_decimal ''5'' = Some 5" "to_uppercase '' MB'' = '' MB''" by code_simp+
  then show "parse_size ''5 MB'' = Inl (UnknownSuffix '' MB'')"
    by (simp add: parse_size_def parse_suffix_def suffix_table_def)
qed

lemma parse_decimal_nonneg: "parse_decimal s = Some v \<Longrightarrow> 0 \<le> v"
  by (auto simp: parse_decimal_def split: list.splits if_splits option.splits)

lemma no_negative_size: "parse_size s \<noteq> Inl (NegativeSize t)"
proof -
  have "\<not> v < 0" if "parse_decimal p = Some v" for p v using parse_decimal_nonneg [OF that] by simp
  moreover have "parse_suffix p \<noteq> Inl (NegativeSize t)" for p by (simp add: parse_suffix_def split: option.splits)
  moreover have "split_number_suffix p \<noteq> Inl (NegativeSize t)" for p by (simp add: split_number_suffix_def Let_def)
  ultimately show ?thesis
    by (auto simp: parse_size_def Let_def bind_result_def split: option.splits sum.splits)
qed

section \<open>Counts with separators\<close>

datatype number_error = ExpectedInteger | InvalidInteger string | NotANumber

definition without_separators :: "string \<Rightarrow> string" where
  "without_separators s = filter (\<lambda>c. c \<noteq> CHR '','' \<and> c \<noteq> CHR ''_'' \<and> c \<noteq> CHR '' '') s"

definition deserialize_u64_with_separators :: "yaml \<Rightarrow> number_error + nat" where
  "deserialize_u64_with_separators v =
     (case v of
        YPosInt n \<Rightarrow> Inr n
      | YNegInt i \<Rightarrow> Inl ExpectedInteger
      | YFloat x \<Rightarrow> Inl ExpectedInteger
      | YText s \<Rightarrow> (case parse_u64 (without_separators s) of None \<Rightarrow> Inl (InvalidInteger s) | Some n \<Rightarrow> Inr n)
      | _ \<Rightarrow> Inl NotANumber)"

text \<open>\<open>usize\<close> has 64 bits, so the conversion from \<open>u64\<close> cannot fail.\<close>

definition deserialize_usize_with_separators :: "yaml \<Rightarrow> number_error + nat" where
  "deserialize_usize_with_separators v =
     (case v of
        YPosInt n \<Rightarrow> if n \<le> u64_max then Inr n else Inl ExpectedInteger
      | YNegInt i \<Rightarrow> Inl ExpectedInteger
      | YFloat x \<Rightarrow> Inl ExpectedInteger
      | YText s \<Rightarrow> (case parse_u64 (without_separators s) of None \<Rightarrow> Inl (InvalidInteger s) | Some n \<Rightarrow> Inr n)
      | _ \<Rightarrow> Inl NotANumber)"

text \<open>
  Separators may stand anywhere, not only between groups of three digits: every text whose other
  characters are the digits of a number is read as that number.
\<close>

lemma separated_number_read:
  assumes "without_separators s = show_nat n" "n \<le> u64_max"
  shows "deserialize_u64_with_separators (YText s) = Inr n \<and> deserialize_usize_with_separators (YText s) = Inr n"
  using assms by (simp add: deserialize_u64_with_separators_def deserialize_usize_with_separators_def parse_u64_show_nat)

section \<open>Durations\<close>

datatype duration_error =
  EmptyDuration | InvalidDuration string | InvalidDurationNumber string | DurationOverflow nat char | NotADuration

definition checked_mul_u64 :: "nat \<Rightarrow> nat \<Rightarrow> nat option" where
  "checked_mul_u64 a b = (if a * b \<le> u64_max then Some (a * b) else None)"

definition duration_unit :: "string \<Rightarrow> (string \<times> char) option" where
  "duration_unit t =
     (case strip_suffix ''s'' t of Some x \<Rightarrow> Some (x, CHR ''s'')
      | None \<Rightarrow>
          (case strip_suffix ''m'' t of Some x \<Rightarrow> Some (x, CHR ''m'')
           | None \<Rightarrow>
               (case strip_suffix ''h'' t of Some x \<Rightarrow> Some (x, CHR ''h'')
                | None \<Rightarrow> map_option (\<lambda>x. (x, CHR ''d'')) (strip_suffix ''d'' t))))"

definition unit_seconds :: "char \<Rightarrow> nat" where
  "unit_seconds u = (if u = CHR ''s'' then 1 else if u = CHR ''m'' then 60 else if u = CHR ''h'' then 3600 else 86400)"

definition parse_duration_string :: "string \<Rightarrow> duration_error + nat" where
  "parse_duration_string s =
     (let trimmed = trim s
      in case parse_u64 trimmed of
           Some n \<Rightarrow> Inr n
         | None \<Rightarrow>
             if trimmed = [] then Inl EmptyDuration
             else (case duration_unit trimmed of
                    None \<Rightarrow> Inl (InvalidDuration s)
                  | Some (num_str, u) \<Rightarrow>
                      (case parse_u64 (trim num_str) of
                         None \<Rightarrow> Inl (InvalidDurationNumber s)
                       | Some num \<Rightarrow>
                           if u = CHR ''s'' then Inr num
                           else (case checked_mul_u64 num (unit_seconds u) of
                                   None \<Rightarrow> Inl (DurationOverflow num u)
                                 | Some n \<Rightarrow> Inr n))))"

definition deserialize_duration_seconds :: "yaml \<Rightarrow> duration_error + nat" where
  "deserialize_duration_seconds v =
     (case v of
        YPosInt n \<Rightarrow> Inr n
      | YNegInt i \<Rightarrow> Inl NotADuration
      | YFloat x \<Rightarrow> Inl NotADuration
      | YText s \<Rightarrow> parse_duration_string s
      | _ \<Rightarrow> Inl NotADuration)"

lemma duration_unit_of: "u \<in> set ''smhd'' \<Longrightarrow> duration_unit (t @ [u]) = Some (t, u)"
  by (auto simp: duration_unit_def strip_suffix_def ends_with_def starts_with_def)

text \<open>
  A duration written as a number and a unit, with blanks around each, is read as that many seconds,
  minutes, hours or days in seconds; if the number of seconds does not fit 64 bits, the text is refused
  and never wraps around.
\<close>

lemma duration_text_read_back:
  assumes "u \<in> set ''smhd''" "list_all is_ws l" "list_all is_ws g" "list_all is_ws r" "n \<le> u64_max"
  shows "deserialize_duration_seconds (YText (l @ show_nat n @ g @ [u] @ r)) =
    (if n * unit_seconds u \<le> u64_max then Inr (n * unit_seconds u) else Inl (DurationOverflow n u))"
proof -
  have u: "\<not> is_ws u" "digit_val u = None" using assms(1) by (auto simp: is_ws_def digit_val_def)
  let ?t = "(show_nat n @ g) @ [u]"
  have "\<not> is_ws (hd (show_nat n))" using digit_not_ws show_nat_digits [of "hd (show_nat n)" n] by simp
  then have t: "trim (l @ ?t @ r) = ?t" using u assms(2,4) by (intro trim_padded) simp_all
  have "u \<in> set (tl ?t)" by (cases "show_nat n") simp_all
  then have p: "parse_u64 ?t = None" using u(2) parse_u64_None by blast
  have "trim (show_nat n @ g) = show_nat n" using trim_digits [of "[]" g n] assms(3) by simp
  then have "parse_duration_string (l @ ?t @ r) =
      (if u = CHR ''s'' then Inr n
       else (case checked_mul_u64 n (unit_seconds u) of None \<Rightarrow> Inl (DurationOverflow n u) | Some x \<Rightarrow> Inr x))"
    unfolding parse_duration_string_def t Let_def p
    by (simp add: duration_unit_of [OF assms(1)] parse_u64_show_nat [OF assms(5)] del: append_assoc)
  then show ?thesis using assms(5) by (simp add: deserialize_duration_seconds_def checked_mul_u64_def unit_seconds_def)
qed

lemma duration_text_read_back_witness:
  "deserialize_duration_seconds (YText ''  2 h'') = Inr 7200
   \<and> deserialize_duration_seconds (YText (show_nat u64_max @ ''d'')) = Inl (DurationOverflow u64_max (CHR ''d''))"
proof -
  have w: "list_all is_ws ''  ''" "list_all is_ws '' ''" "list_all is_ws []" by code_simp+
  have "show_nat 2 = ''2''" by code_simp
  then show ?thesis
    using duration_text_read_back [of "CHR ''h''" "''  ''" "'' ''" "[]" 2]
      duration_text_read_back [of "CHR ''d''" "[]" "[]" "[]" u64_max] w
    by (simp add: unit_seconds_def u64_max_def)
qed

end
