(* ===== verification/Utility_Commands.thy ===== *)
theory Utility_Commands
  imports Perf_Log Size_Text
begin

text \<open>
  The utility commands of the standalone program (\<open>src/main.rs\<close>: health, list, stat, get, delete, put)
  and the single-operation requests of an agent (\<open>src/bin/agent.rs\<close>: \<open>run_get\<close>, \<open>run_put\<close>).

  The object store is \<open>s3dlio\<close>, not part of the repository: its operations are the fields of
  \<open>util_store\<close>, over a state \<open>'w\<close>, and what the properties rely on is \<open>store_laws\<close>. Uploaded data are
  zeros, so an object is its length. The tasks of a command take effect in the order in which they are
  started; a command is \<open>None\<close> when it hangs, which it does when its semaphore has no permits. After
  a failed task the state of the store is not determined and is not returned. The clock and the texts
  of the latency histograms are arguments.
\<close>

record 'w util_store =
  us_scheme :: "string \<Rightarrow> string option"
  us_list :: "string \<Rightarrow> bool \<Rightarrow> 'w \<Rightarrow> string + string list"
  us_get :: "string \<Rightarrow> 'w \<Rightarrow> string + nat"
  us_put :: "string \<Rightarrow> nat \<Rightarrow> 'w \<Rightarrow> string + 'w"
  us_delete :: "string \<Rightarrow> 'w \<Rightarrow> string + 'w"
  us_stat :: "string \<Rightarrow> 'w \<Rightarrow> string + nat"

text \<open>What a command reads off the clock, and the text of its histograms.\<close>

record util_clock =
  took_text :: string
  took_secs :: rat
  hist_text :: string

section \<open>Commands\<close>

definition resolve_util_uri :: "string option \<Rightarrow> string option \<Rightarrow> string + string" where
  "resolve_util_uri flag pos =
     (case (flag, pos) of
        (Some a, None) \<Rightarrow> Inr a
      | (None, Some a) \<Rightarrow> Inr a
      | (Some a, Some b) \<Rightarrow> if a = b then Inr a else Inl ''Provide URI either as positional <URI> or --uri <URI>, not both''
      | (None, None) \<Rightarrow> Inl ''Missing URI: use positional <URI> or --uri <URI>'')"

definition validate_uri :: "'w util_store \<Rightarrow> string \<Rightarrow> string + string" where
  "validate_uri st uri =
     (case us_scheme st uri of
        None \<Rightarrow> Inl ''Invalid URI format''
      | Some s \<Rightarrow>
          if s \<in> set [''file'', ''direct'', ''s3'', ''az'', ''gs'', ''gcs''] then Inr uri
          else Inl (''Unsupported backend scheme '' @ s))"

definition through_slash :: "string \<Rightarrow> string option" where
  "through_slash s = (if CHR ''/'' \<in> set s then Some (up_to_slash s) else None)"

definition last_part :: "string \<Rightarrow> string" where "last_part s = last (split_on (CHR ''/'') s)"

text \<open>A URI with a star: the objects under its directory whose last part matches its last part.\<close>

definition list_matching :: "'w util_store \<Rightarrow> string \<Rightarrow> 'w \<Rightarrow> string + string list" where
  "list_matching st uri w =
     (case through_slash uri of
        None \<Rightarrow> Inl ''Invalid URI pattern''
      | Some dir \<Rightarrow>
          bind_result (us_list st dir True w) (\<lambda>us.
            Inr (if CHR ''*'' \<in> set (last_part uri) then filter (\<lambda>u. glob_match (last_part uri) (last_part u)) us
                 else us)))"

definition util_objects :: "'w util_store \<Rightarrow> string \<Rightarrow> 'w \<Rightarrow> string + string list" where
  "util_objects st uri w =
     (if CHR ''*'' \<in> set uri then list_matching st uri w
      else if ends_with uri ''/'' then us_list st uri True w
      else Inr [uri])"

definition health_cmd :: "'w util_store \<Rightarrow> string \<Rightarrow> 'w \<Rightarrow> string + string" where
  "health_cmd st uri w =
     bind_result (validate_uri st uri) (\<lambda>v.
     bind_result (us_list st v True w) (\<lambda>us.
       Inr (''OK - found '' @ show_nat (length us) @ '' objects at '' @ v)))"

definition list_cmd :: "'w util_store \<Rightarrow> string \<Rightarrow> 'w \<Rightarrow> string + string list" where
  "list_cmd st uri w =
     bind_result (validate_uri st uri) (\<lambda>v.
       if CHR ''*'' \<in> set v then list_matching st v w else us_list st v True w)"

definition stat_cmd :: "'w util_store \<Rightarrow> string \<Rightarrow> 'w \<Rightarrow> string + nat" where
  "stat_cmd st uri w = bind_result (validate_uri st uri) (\<lambda>v. us_stat st v w)"

definition mb_text :: "nat \<Rightarrow> string" where "mb_text n = show_fixed 2 (of_nat n / 1048576)"

text \<open>The rate: \<open>f64\<close> divides by a time of zero without an error and prints what results.\<close>

definition rate_text :: "nat \<Rightarrow> rat \<Rightarrow> string" where
  "rate_text n secs =
     (if secs = 0 then (if n = 0 then ''NaN'' else ''inf'') else show_fixed 2 (of_nat n / 1048576 / secs))"

definition with_permits :: "nat \<Rightarrow> 'x list \<Rightarrow> 'r \<Rightarrow> 'r option" where
  "with_permits jobs xs r = (if jobs = 0 \<and> xs \<noteq> [] then None else Some r)"

fun get_each :: "'w util_store \<Rightarrow> string list \<Rightarrow> 'w \<Rightarrow> string + nat list" where
  "get_each st [] w = Inr []"
| "get_each st (u # us) w =
     bind_result (us_get st u w) (\<lambda>n. bind_result (get_each st us w) (\<lambda>ns. Inr (n # ns)))"

fun put_each :: "'w util_store \<Rightarrow> nat \<Rightarrow> string list \<Rightarrow> 'w \<Rightarrow> string + 'w" where
  "put_each st len [] w = Inr w"
| "put_each st len (u # us) w = bind_result (us_put st u len w) (put_each st len us)"

fun delete_each :: "'w util_store \<Rightarrow> string list \<Rightarrow> 'w \<Rightarrow> string + 'w" where
  "delete_each st [] w = Inr w"
| "delete_each st (u # us) w = bind_result (us_delete st u w) (delete_each st us)"

text \<open>What a get or put prints; the second component are the buckets its operations are counted in.\<close>

definition get_output :: "nat list \<Rightarrow> util_clock \<Rightarrow> string" where
  "get_output ns t =
     ''Downloaded '' @ mb_text (sum_list ns) @ '' MB in '' @ took_text t @ '' ('' @ rate_text (sum_list ns) (took_secs t)
     @ '' MB/s)'' @ [CHR 0x0A] @ hist_text t"

definition get_cmd :: "'w util_store \<Rightarrow> string \<Rightarrow> nat \<Rightarrow> util_clock \<Rightarrow> 'w \<Rightarrow> (string + string \<times> nat list) option" where
  "get_cmd st uri jobs t w =
     (case bind_result (validate_uri st uri) (\<lambda>v. util_objects st v w) of
        Inl e \<Rightarrow> Some (Inl e)
      | Inr us \<Rightarrow>
          if us = [] then Some (Inl ''No objects match the given URI'')
          else with_permits jobs us
                 (bind_result (get_each st us w) (\<lambda>ns. Inr (get_output ns t, map bucket_index ns))))"

definition delete_cmd :: "'w util_store \<Rightarrow> string \<Rightarrow> nat \<Rightarrow> util_clock \<Rightarrow> 'w \<Rightarrow> (string + string \<times> 'w) option" where
  "delete_cmd st uri jobs t w =
     (case bind_result (validate_uri st uri) (\<lambda>v. util_objects st v w) of
        Inl e \<Rightarrow> Some (Inl e)
      | Inr us \<Rightarrow>
          if us = [] then Some (Inl ''No objects to delete under the specified URI'')
          else with_permits jobs us
                 (bind_result (delete_each st us w) (\<lambda>w'.
                    Inr (''Deleted '' @ show_nat (length us) @ '' objects in '' @ took_text t @ [CHR 0x0A] @ hist_text t, w'))))"

definition put_uris :: "string \<Rightarrow> nat \<Rightarrow> string list" where
  "put_uris uri objects =
     (if CHR ''*'' \<in> set uri then map (\<lambda>i. replace_all ''*'' (show_padded 6 i) uri) [0..<objects]
      else if ends_with uri ''/'' then map (\<lambda>i. uri @ ''obj_'' @ show_padded 6 i @ ''.dat'') [0..<objects]
      else if 1 < objects then map (\<lambda>i. if i = 0 then uri else uri @ ''.'' @ show_nat i) [0..<objects]
      else [uri])"

definition put_output :: "nat \<Rightarrow> nat \<Rightarrow> util_clock \<Rightarrow> string" where
  "put_output n len t =
     ''Uploaded '' @ show_nat n @ '' objects ('' @ mb_text (n * len) @ '' MB) in '' @ took_text t @ '' (''
     @ rate_text (n * len) (took_secs t) @ '' MB/s)'' @ [CHR 0x0A] @ hist_text t"

definition put_cmd ::
  "'w util_store \<Rightarrow> string \<Rightarrow> nat \<Rightarrow> nat \<Rightarrow> nat \<Rightarrow> util_clock \<Rightarrow> 'w \<Rightarrow> (string + (string \<times> nat list) \<times> 'w) option" where
  "put_cmd st uri len objects jobs t w =
     (case validate_uri st uri of
        Inl e \<Rightarrow> Some (Inl e)
      | Inr v \<Rightarrow>
          (let us = put_uris v objects
           in with_permits jobs us
                (bind_result (put_each st len us w) (\<lambda>w'.
                   Inr ((put_output (length us) len t, replicate (length us) (bucket_index len)), w')))))"

section \<open>Requests to an agent\<close>

text \<open>
  \<open>list_keys_for_uri\<close>: the store's own list, or, when no store can be made for the URI, pages of the
  S3 client. A page is its keys and its continuation token; \<open>None\<close> is a listing that never ends.
\<close>

record key_page =
  page_keys :: "string list"
  page_next :: "string option"

fun list_keys_async :: "string \<Rightarrow> (string + key_page) list \<Rightarrow> (string + string list) option" where
  "list_keys_async pre [] = None"
| "list_keys_async pre (Inl e # ps) = Some (Inl e)"
| "list_keys_async pre (Inr p # ps) =
     (let ks = map (\<lambda>k. case strip_prefix pre k of Some s \<Rightarrow> s | None \<Rightarrow> k) (page_keys p)
      in case page_next p of
           Some (c # cs) \<Rightarrow> map_option (map_sum id (\<lambda>rest. ks @ rest)) (list_keys_async pre ps)
         | _ \<Rightarrow> Some (Inr ks))"

record 'w agent_store =
  as_util :: "'w util_store"
  as_open :: "string \<Rightarrow> bool"
  as_pages :: "string \<Rightarrow> string \<Rightarrow> (string + key_page) list"

definition list_keys_for_uri :: "'w agent_store \<Rightarrow> string \<Rightarrow> 'w \<Rightarrow> (string + string list) option" where
  "list_keys_for_uri ag uri w =
     (if as_open ag uri
      then (let base = (case through_slash uri of Some d \<Rightarrow> d | None \<Rightarrow> uri)
            in Some (bind_result (us_list (as_util ag) uri False w) (\<lambda>ks.
                 Inr (map (\<lambda>k. case strip_prefix base k of Some s \<Rightarrow> s | None \<Rightarrow> k) ks))))
      else (case strip_prefix ''s3://'' uri of
              None \<Rightarrow> Some (Inl (''Unsupported URI scheme: '' @ uri))
            | Some rest \<Rightarrow>
                (let parts = split_on (CHR ''/'') rest; key = join_with ''/'' (tl parts)
                 in list_keys_async key (as_pages ag (hd parts) key))))"

definition run_get :: "'w agent_store \<Rightarrow> string \<Rightarrow> nat \<Rightarrow> 'w \<Rightarrow> (string + nat) option" where
  "run_get ag uri jobs w =
     (case through_slash uri of
        None \<Rightarrow> Some (Inl ''Invalid URI format'')
      | Some base \<Rightarrow>
          (let pattern = drop (length base) uri;
               found =
                 (if CHR ''*'' \<in> set pattern
                  then map_option (map_sum id (\<lambda>ks. map (\<lambda>k. base @ k) (filter (glob_match pattern) ks))) (list_keys_for_uri ag uri w)
                  else if pattern = []
                  then map_option (map_sum id (map (\<lambda>k. base @ k))) (list_keys_for_uri ag base w)
                  else Some (Inr [uri]))
           in case found of
                None \<Rightarrow> None
              | Some (Inl e) \<Rightarrow> Some (Inl e)
              | Some (Inr us) \<Rightarrow>
                  if us = [] then Some (Inl ''No objects match given URI'')
                  else with_permits jobs us (bind_result (get_each (as_util ag) us w) (\<lambda>ns. Inr (sum_list ns)))))"

definition put_base :: "string \<Rightarrow> string" where
  "put_base bucket =
     (if starts_with bucket ''s3://'' \<or> starts_with bucket ''file://'' \<or> starts_with bucket ''az://'' \<or> starts_with bucket ''gs://''
      then bucket else ''s3://'' @ bucket)"

definition run_put_uris :: "string \<Rightarrow> string \<Rightarrow> nat \<Rightarrow> string list" where
  "run_put_uris bucket pre objects = map (\<lambda>i. put_base bucket @ pre @ ''obj_'' @ show_nat i) [0..<objects]"

definition run_put ::
  "'w agent_store \<Rightarrow> string \<Rightarrow> string \<Rightarrow> nat \<Rightarrow> nat \<Rightarrow> nat \<Rightarrow> 'w \<Rightarrow> (string + nat \<times> 'w) option" where
  "run_put ag bucket pre len objects jobs w =
     (let us = run_put_uris bucket pre objects
      in with_permits jobs us
           (bind_result (put_each (as_util ag) len us w) (\<lambda>w'. Inr (len * objects, w'))))"

text \<open>The settings of a request, as the environment variables it sets; a value of 0 or no text sets nothing.\<close>

datatype TriStateToggle = Unspecified | Off | On

definition toggle_of_i32 :: "int \<Rightarrow> TriStateToggle" where
  "toggle_of_i32 n = (if n = 1 then Off else if n = 2 then On else Unspecified)"

definition toggle_to_i32 :: "TriStateToggle \<Rightarrow> int" where
  "toggle_to_i32 t = (case t of Unspecified \<Rightarrow> 0 | Off \<Rightarrow> 1 | On \<Rightarrow> 2)"

definition apply_request_tuning ::
  "int \<Rightarrow> nat \<Rightarrow> int option \<Rightarrow> nat option \<Rightarrow> nat option \<Rightarrow> string \<Rightarrow> (string \<rightharpoonup> string) \<Rightarrow> (string \<rightharpoonup> string)" where
  "apply_request_tuning rapid channels ranges threshold chunk project env =
     (let env = (case toggle_of_i32 rapid of
                   On \<Rightarrow> env(''S3DLIO_GCS_RAPID'' \<mapsto> ''true'')
                 | Off \<Rightarrow> env(''S3DLIO_GCS_RAPID'' \<mapsto> ''false'')
                 | Unspecified \<Rightarrow> env);
          env = (if 0 < channels then env(''S3DLIO_GCS_GRPC_CHANNELS'' \<mapsto> show_nat channels) else env);
          env = (case ranges of
                   None \<Rightarrow> env
                 | Some r \<Rightarrow> (case toggle_of_i32 r of
                               On \<Rightarrow> env(''S3DLIO_ENABLE_RANGE_OPTIMIZATION'' \<mapsto> ''1'')
                             | Off \<Rightarrow> env(''S3DLIO_ENABLE_RANGE_OPTIMIZATION'' \<mapsto> ''0'')
                             | Unspecified \<Rightarrow> env));
          env = (case threshold of
                   Some n \<Rightarrow> if 0 < n then env(''S3DLIO_RANGE_THRESHOLD_MB'' \<mapsto> show_nat n) else env
                 | None \<Rightarrow> env);
          env = (case chunk of
                   Some n \<Rightarrow> if 0 < n then env(''S3DLIO_GRPC_WRITE_CHUNK_SIZE'' \<mapsto> show_nat n) else env
                 | None \<Rightarrow> env)
      in if project \<noteq> [] then env(''GOOGLE_CLOUD_PROJECT'' \<mapsto> project) else env)"

section \<open>What is put is what is got and deleted\<close>

text \<open>
  What the commands rely on of a store without faults: it is a map from URIs to objects, and a listing
  gives the URIs that begin with a prefix, once each.
\<close>

definition store_laws :: "'w util_store \<Rightarrow> ('w \<Rightarrow> string \<rightharpoonup> nat) \<Rightarrow> bool" where
  "store_laws st objs =
     ((\<forall>u n w. \<exists>w'. us_put st u n w = Inr w' \<and> objs w' = (objs w)(u \<mapsto> n))
      \<and> (\<forall>u n w. objs w u = Some n \<longrightarrow> us_get st u w = Inr n)
      \<and> (\<forall>u w. objs w u = None \<longrightarrow> (\<exists>e. us_get st u w = Inl e))
      \<and> (\<forall>u w. objs w u \<noteq> None \<longrightarrow> (\<exists>w'. us_delete st u w = Inr w' \<and> objs w' = (objs w)(u := None)))
      \<and> (\<forall>u rec w. \<exists>us. us_list st u rec w = Inr us \<and> distinct us
            \<and> set us = {k \<in> dom (objs w). starts_with k u \<and> (rec \<or> CHR ''/'' \<notin> set (drop (length u) k))}))"

subsection \<open>Filling the stars of a pattern with one text\<close>

definition star_fill :: "string \<Rightarrow> string \<Rightarrow> string" where
  "star_fill r s = concat (map (\<lambda>c. if c = CHR ''*'' then r else [c]) s)"

lemma star_fill_simps [simp]:
  "star_fill r [] = []"
  "star_fill r (c # s) = (if c = CHR ''*'' then r else [c]) @ star_fill r s"
  "star_fill r (s @ t) = star_fill r s @ star_fill r t"
  by (simp_all add: star_fill_def)

lemma star_fill_no_star: "CHR ''*'' \<notin> set s \<Longrightarrow> star_fill r s = s"
  by (induction s) auto

lemma replace_all_star: "replace_all ''*'' r s = star_fill r s"
proof (induction s)
  case Nil
  then show ?case by (simp add: replace_all.simps [of "''*''" r "[]"])
next
  case (Cons c s)
  show ?case
  proof (cases "c = CHR ''*''")
    case True
    then have f: "find_sub ''*'' (c # s) = Some 0" by (simp add: starts_with_def)
    have "replace_all ''*'' r (c # s) = r @ replace_all ''*'' r s"
      by (subst replace_all.simps, unfold f) simp
    then show ?thesis using Cons True by simp
  next
    case False
    then have f: "find_sub ''*'' (c # s) = map_option Suc (find_sub ''*'' s)" by (simp add: starts_with_def)
    have "replace_all ''*'' r (c # s) = c # replace_all ''*'' r s"
      by (subst (1 2) replace_all.simps, unfold f) (simp split: option.splits)
    then show ?thesis using Cons False by simp
  qed
qed

lemma star_fill_matches: "CHR 0x0A \<notin> set r \<Longrightarrow> glob_match s (star_fill r s)"
proof (induction s)
  case (Cons c s)
  then show ?case
  proof (cases "c = CHR ''*''")
    case True
    have "\<exists>f t. r @ star_fill r s = f @ t \<and> CHR 0x0A \<notin> set f \<and> glob_match s t" using Cons by blast
    then show ?thesis unfolding True glob_match_star by simp
  qed simp
qed simp

lemma star_fill_length: "length (star_fill r s) + stars s = stars s * length r + length s"
  by (induction s) (simp_all add: stars_def)

lemma star_fill_inj:
  assumes "CHR ''*'' \<in> set s" "star_fill r s = star_fill r' s"
  shows "r = r'"
proof -
  have "0 < stars s" using assms(1) by (auto simp: stars_def filter_empty_conv)
  moreover have "stars s * length r = stars s * length r'"
    using star_fill_length [of r s] star_fill_length [of r' s] unfolding assms(2) by linarith
  ultimately have l: "length r = length r'" by (metis mult_left_cancel neq0_conv)
  show ?thesis using assms
  proof (induction s)
    case (Cons c s)
    then show ?case using l by (cases "c = CHR ''*''") auto
  qed simp
qed

subsection \<open>Directories and names\<close>

lemma last_part_name: "CHR ''/'' \<notin> set nm \<Longrightarrow> last_part (d @ CHR ''/'' # nm) = nm"
  by (simp add: last_part_def split_on_append_sep split_on_no_sep)

lemma through_slash_name: "CHR ''/'' \<notin> set nm \<Longrightarrow> through_slash (d @ CHR ''/'' # nm) = Some (d @ ''/'')"
proof -
  assume "CHR ''/'' \<notin> set nm"
  then have "dropWhile (\<lambda>c. c \<noteq> CHR ''/'') (rev nm @ CHR ''/'' # rev d) = CHR ''/'' # rev d"
    by (subst dropWhile_append2) auto
  then show ?thesis by (simp add: through_slash_def up_to_slash_def)
qed

lemma show_padded_chars: "digit_val c = None \<Longrightarrow> c \<notin> set (show_padded k n)"
  using show_nat_digits [of c n] by (auto simp: show_padded_def) (simp add: digit_val_def)

lemma list_matching_found:
  assumes "store_laws st objs" "CHR ''/'' \<notin> set nm" "CHR ''*'' \<in> set nm"
  obtains us where "list_matching st (d @ CHR ''/'' # nm) w = Inr us" "distinct us"
    "set us = {k \<in> dom (objs w). starts_with k (d @ ''/'') \<and> glob_match nm (last_part k)}"
proof -
  obtain us where "us_list st (d @ ''/'') True w = Inr us" "distinct us" "set us = {k \<in> dom (objs w). starts_with k (d @ ''/'')}"
    using assms(1) unfolding store_laws_def by (elim conjE allE [where x = "d @ ''/''"] allE [where x = True] allE [where x = w] exE) simp
  then show ?thesis
    using that [of "filter (\<lambda>u. glob_match nm (last_part u)) us"] assms(2,3)
    by (auto simp: list_matching_def through_slash_name last_part_name)
qed

subsection \<open>Runs of one operation\<close>

lemma put_each_ok:
  assumes "store_laws st objs"
  obtains w' where "put_each st n us w = Inr w'" "objs w' = (\<lambda>k. if k \<in> set us then Some n else objs w k)"
proof -
  have "\<exists>w'. put_each st n us w = Inr w' \<and> objs w' = (\<lambda>k. if k \<in> set us then Some n else objs w k)"
  proof (induction us arbitrary: w)
    case (Cons u us)
    obtain w1 where w1: "us_put st u n w = Inr w1" "objs w1 = (objs w)(u \<mapsto> n)"
      using assms unfolding store_laws_def by blast
    from Cons [of w1] obtain w' where "put_each st n us w1 = Inr w'"
        "objs w' = (\<lambda>k. if k \<in> set us then Some n else objs w1 k)" by blast
    then show ?case using w1 by (auto simp: fun_eq_iff)
  qed simp
  then show ?thesis using that by blast
qed

lemma get_each_ok:
  assumes "store_laws st objs" "\<And>u. u \<in> set us \<Longrightarrow> objs w u = Some n"
  shows "get_each st us w = Inr (replicate (length us) n)"
  using assms(2)
proof (induction us)
  case (Cons u us)
  have "us_get st u w = Inr n" using assms(1) Cons.prems unfolding store_laws_def by simp
  then show ?case using Cons by simp
qed simp

lemma delete_each_ok:
  assumes "store_laws st objs" "distinct us" "set us \<subseteq> dom (objs w)"
  obtains w' where "delete_each st us w = Inr w'" "objs w' = objs w |` (- set us)"
proof -
  have "\<exists>w'. delete_each st us w = Inr w' \<and> objs w' = objs w |` (- set us)"
    using assms(2,3)
  proof (induction us arbitrary: w)
    case (Cons u us)
    obtain w1 where w1: "us_delete st u w = Inr w1" "objs w1 = (objs w)(u := None)"
      using assms(1) Cons.prems(2) unfolding store_laws_def by (metis domIff insert_subset list.simps(15))
    have "set us \<subseteq> dom (objs w1)" using Cons.prems w1(2) by auto
    moreover have "distinct us" using Cons.prems(1) by simp
    ultimately obtain w' where "delete_each st us w1 = Inr w'" "objs w' = objs w1 |` (- set us)" using Cons.IH by blast
    then show ?case using w1 by (auto simp: fun_eq_iff restrict_map_def)
  qed (simp add: restrict_map_def)
  then show ?thesis using that by blast
qed

lemma put_uris_pattern:
  assumes "CHR ''*'' \<notin> set d" "CHR ''*'' \<in> set nm" "CHR ''/'' \<notin> set nm"
  shows "distinct (put_uris (d @ CHR ''/'' # nm) n)" "length (put_uris (d @ CHR ''/'' # nm) n) = n"
    and "u \<in> set (put_uris (d @ CHR ''/'' # nm) n) \<Longrightarrow> starts_with u (d @ ''/'') \<and> glob_match nm (last_part u)"
proof -
  have eq: "put_uris (d @ CHR ''/'' # nm) n = map (\<lambda>i. d @ CHR ''/'' # star_fill (show_padded 6 i) nm) [0..<n]"
    using assms(1,2) by (simp add: put_uris_def replace_all_star star_fill_no_star)
  have "inj_on (\<lambda>i. d @ CHR ''/'' # star_fill (show_padded 6 i) nm) A" for A
    using star_fill_inj [OF assms(2)] show_padded_inject by (fastforce simp: inj_on_def)
  then show "distinct (put_uris (d @ CHR ''/'' # nm) n)" by (simp add: eq distinct_map)
  show "length (put_uris (d @ CHR ''/'' # nm) n) = n" by (simp add: eq)
  show "starts_with u (d @ ''/'') \<and> glob_match nm (last_part u)" if "u \<in> set (put_uris (d @ CHR ''/'' # nm) n)"
  proof -
    obtain i where u: "u = d @ CHR ''/'' # star_fill (show_padded 6 i) nm" using \<open>u \<in> _\<close> by (auto simp: eq)
    have c: "CHR 0x0A \<notin> set (show_padded 6 i)" "CHR ''/'' \<notin> set (show_padded 6 i)"
      by (auto intro!: show_padded_chars simp: digit_val_def)
    have "CHR ''/'' \<notin> set (star_fill (show_padded 6 i) nm)" using c(2) assms(3) by (induction nm) auto
    then have "last_part u = star_fill (show_padded 6 i) nm" by (simp add: u last_part_name)
    moreover have "starts_with u (d @ ''/'')" by (simp add: u starts_with_def)
    ultimately show ?thesis using star_fill_matches [OF c(1)] by simp
  qed
qed

text \<open>
  On a store without faults, a put to a pattern in an existing or new directory writes exactly the
  requested number of distinct objects, a get of the same pattern then reads these and no others, and a
  delete of the pattern leaves the store as it was before the put, provided no object matched before.
\<close>

lemma util_put_get_delete:
  assumes "store_laws st objs" "validate_uri st uri = Inr uri" "uri = d @ CHR ''/'' # nm"
    and "CHR ''*'' \<notin> set d" "CHR ''*'' \<in> set nm" "CHR ''/'' \<notin> set nm"
    and "\<forall>k\<in>dom (objs w). \<not> (starts_with k (d @ ''/'') \<and> glob_match nm (last_part k))"
    and "0 < n" "0 < jobs"
  shows "\<exists>w' w''. put_cmd st uri len n jobs t w = Some (Inr ((put_output n len t, replicate n (bucket_index len)), w'))
      \<and> dom (objs w') = dom (objs w) \<union> set (put_uris uri n) \<and> card (set (put_uris uri n)) = n
      \<and> get_cmd st uri jobs t w' = Some (Inr (get_output (replicate n len) t, replicate n (bucket_index len)))
      \<and> (\<exists>text. delete_cmd st uri jobs t w' = Some (Inr (text, w''))) \<and> objs w'' = objs w"
proof -
  note pu = put_uris_pattern [OF assms(4-6), where n = n, folded assms(3)]
  obtain w' where w': "put_each st len (put_uris uri n) w = Inr w'"
      "objs w' = (\<lambda>k. if k \<in> set (put_uris uri n) then Some len else objs w k)"
    using put_each_ok [OF assms(1)] by blast
  obtain us where us: "list_matching st uri w' = Inr us" "distinct us"
      "set us = {k \<in> dom (objs w'). starts_with k (d @ ''/'') \<and> glob_match nm (last_part k)}"
    using list_matching_found [OF assms(1,6,5)] assms(3) by blast
  have set_us: "set us = set (put_uris uri n)"
    unfolding us(3) using pu(3) assms(7) w'(2) by (auto simp: dom_def split: if_splits)
  have card: "card (set (put_uris uri n)) = n" using distinct_card [OF pu(1)] pu(2) by simp
  then have len_us: "length us = n" using distinct_card [OF us(2)] set_us by simp
  then have ne: "us \<noteq> []" using assms(8) by auto
  have star: "CHR ''*'' \<in> set uri" using assms(3,5) by simp
  then have uo: "util_objects st uri w' = Inr us" using us(1) by (simp add: util_objects_def)
  have "get_each st us w' = Inr (replicate n len)"
    using get_each_ok [OF assms(1), of us w' len] set_us w'(2) len_us by simp
  then have g: "get_cmd st uri jobs t w' = Some (Inr (get_output (replicate n len) t, replicate n (bucket_index len)))"
    using ne assms(9) by (simp add: get_cmd_def assms(2) uo with_permits_def)
  obtain w'' where w'': "delete_each st us w' = Inr w''" "objs w'' = objs w' |` (- set us)"
    using delete_each_ok [OF assms(1) us(2), of w'] us(3) by auto
  have "objs w k = None" if "k \<in> set us" for k
    using that assms(7) us(3) by auto
  then have o: "objs w'' = objs w"
    unfolding w''(2) w'(2) set_us by (auto simp: fun_eq_iff restrict_map_def set_us)
  have "\<exists>text. delete_cmd st uri jobs t w' = Some (Inr (text, w''))"
    using ne assms(9) w''(1) by (simp add: delete_cmd_def assms(2) uo with_permits_def)
  moreover have "put_cmd st uri len n jobs t w = Some (Inr ((put_output n len t, replicate n (bucket_index len)), w'))"
    using assms(9) w'(1) pu(2) by (simp add: put_cmd_def assms(2) with_permits_def)
  moreover have "dom (objs w') = dom (objs w) \<union> set (put_uris uri n)" using w'(2) by (auto split: if_splits)
  ultimately show ?thesis using g o card by blast
qed

text \<open>A store that is an association list.\<close>

definition map_store :: "(string \<times> nat) list util_store" where
  "map_store =
     \<lparr> us_scheme = (\<lambda>_. Some ''s3''),
       us_list = (\<lambda>u rec w. Inr (filter (\<lambda>k. starts_with k u \<and> (rec \<or> CHR ''/'' \<notin> set (drop (length u) k)))
                                        (remdups (map fst w)))),
       us_get = (\<lambda>u w. case map_of w u of Some n \<Rightarrow> Inr n | None \<Rightarrow> Inl ''missing''),
       us_put = (\<lambda>u n w. Inr ((u, n) # w)),
       us_delete = (\<lambda>u w. Inr (filter (\<lambda>e. fst e \<noteq> u) w)),
       us_stat = (\<lambda>u w. case map_of w u of Some n \<Rightarrow> Inr n | None \<Rightarrow> Inl ''missing'') \<rparr>"

lemma map_of_without: "map_of (filter (\<lambda>e. fst e \<noteq> u) w) = (map_of w)(u := None)"
  by (induction w) (auto simp: fun_eq_iff)

lemma map_store_laws: "store_laws map_store map_of"
  by (simp add: store_laws_def map_store_def map_of_without dom_map_of_conv_image_fst)

lemma util_put_get_delete_witness:
  "\<exists>w'. get_cmd map_store ''s3://b/obj*.dat'' 4 \<lparr> took_text = ''1s'', took_secs = 1, hist_text = [] \<rparr> w'
      = Some (Inr (get_output [7, 7] \<lparr> took_text = ''1s'', took_secs = 1, hist_text = [] \<rparr>, [bucket_index 7, bucket_index 7]))"
proof -
  let ?t = "\<lparr> took_text = ''1s'', took_secs = 1, hist_text = [] \<rparr>"
  have u: "''s3://b/obj*.dat'' = ''s3://b'' @ CHR ''/'' # ''obj*.dat''" by simp
  have v: "validate_uri map_store ''s3://b/obj*.dat'' = Inr ''s3://b/obj*.dat''"
    by (simp add: validate_uri_def map_store_def)
  show ?thesis
    using util_put_get_delete [OF map_store_laws v u, of "[]" 2 4 7 ?t] by (auto simp: eval_nat_numeral)
qed

text \<open>
  A star in a directory: put fills it like every other star, but get, list and delete take it literally
  in the name of the directory they list, so they do not find what was put.
\<close>

lemma star_directory_not_found:
  assumes "store_laws st objs" "validate_uri st uri = Inr uri" "uri = d @ CHR ''/'' # nm"
    and "CHR ''*'' \<in> set d" "CHR ''/'' \<notin> set nm" "\<forall>k\<in>dom (objs w). CHR ''*'' \<notin> set k" "0 < jobs"
  shows "\<exists>w' text. put_cmd st uri len n jobs t w = Some (Inr (text, w'))
    \<and> set (put_uris uri n) \<subseteq> dom (objs w') \<and> get_cmd st uri jobs t w' = Some (Inl ''No objects match the given URI'')"
proof -
  obtain w' where w': "put_each st len (put_uris uri n) w = Inr w'"
      "objs w' = (\<lambda>k. if k \<in> set (put_uris uri n) then Some len else objs w k)"
    using put_each_ok [OF assms(1)] by blast
  have star: "CHR ''*'' \<in> set uri" using assms(3,4) by simp
  have "CHR ''*'' \<notin> set (star_fill (show_padded 6 i) s)" for i s
    by (induction s) (auto dest: show_padded_chars [THEN notE, rotated] simp: digit_val_def)
  then have new: "CHR ''*'' \<notin> set k" if "k \<in> dom (objs w')" for k
  proof (cases "k \<in> set (put_uris uri n)")
    case True
    then show ?thesis using \<open>\<And>s i. CHR ''*'' \<notin> set (star_fill (show_padded 6 i) s)\<close> star
      by (auto simp: put_uris_def replace_all_star)
  next
    case False
    then have "k \<in> dom (objs w)" using that w'(2) by (simp add: dom_def)
    then show ?thesis using assms(6) by blast
  qed
  obtain us where us: "us_list st (d @ ''/'') True w' = Inr us" "set us = {k \<in> dom (objs w'). starts_with k (d @ ''/'')}"
    using assms(1) unfolding store_laws_def by (elim conjE allE [where x = "d @ ''/''"] allE [where x = True] allE [where x = w'] exE) simp
  have "us = []"
  proof (rule ccontr)
    assume "us \<noteq> []"
    then have "hd us \<in> set us" by simp
    then obtain k where k: "k \<in> dom (objs w')" "starts_with k (d @ ''/'')" unfolding us(2) by blast
    then have "set d \<subseteq> set k" by (auto simp: starts_with_prefix prefix_def)
    then show False using new k(1) assms(4) by blast
  qed
  then have "list_matching st uri w' = Inr []"
    using us(1) assms(3,5) by (simp add: list_matching_def through_slash_name)
  then have "get_cmd st uri jobs t w' = Some (Inl ''No objects match the given URI'')"
    using star by (simp add: get_cmd_def assms(2) util_objects_def)
  moreover have "\<exists>text. put_cmd st uri len n jobs t w = Some (Inr (text, w'))"
    using assms(7) w'(1) by (simp add: put_cmd_def assms(2) with_permits_def Let_def)
  moreover have "set (put_uris uri n) \<subseteq> dom (objs w')" using w'(2) by auto
  ultimately show ?thesis by blast
qed

text \<open>No permits, no progress: a command with work to do and \<open>--jobs 0\<close> never ends.\<close>

lemma no_jobs_hang:
  "put_uris uri n \<noteq> [] \<Longrightarrow> validate_uri st uri = Inr uri \<Longrightarrow> put_cmd st uri len n 0 t w = None"
  "validate_uri st uri = Inr uri \<Longrightarrow> util_objects st uri w = Inr (u # us) \<Longrightarrow> get_cmd st uri 0 t w = None"
  by (simp_all add: put_cmd_def get_cmd_def with_permits_def)

subsection \<open>Requests of an agent\<close>

lemma run_put_uris_props:
  "distinct (run_put_uris b pre n)" "length (run_put_uris b pre n) = n"
  by (simp_all add: run_put_uris_def distinct_map inj_on_def)

text \<open>
  An agent that puts into a directory whose scheme it knows reads back, by a get of that directory,
  what it put there and what lay directly in it before.
\<close>

lemma agent_put_get:
  assumes "store_laws (as_util ag) objs" "\<And>u. as_open ag u" "base = d @ ''/''" "put_base base = base" "CHR ''*'' \<notin> set base"
    and "\<forall>k\<in>dom (objs w). \<not> (starts_with k base \<and> CHR ''/'' \<notin> set (drop (length base) k))" "0 < n" "0 < jobs"
  shows "\<exists>w'. run_put ag base [] len n jobs w = Some (Inr (len * n, w')) \<and> run_get ag base jobs w' = Some (Inr (n * len))"
proof -
  let ?us = "run_put_uris base [] n"
  obtain w' where w': "put_each (as_util ag) len ?us w = Inr w'" "objs w' = (\<lambda>k. if k \<in> set ?us then Some len else objs w k)"
    using put_each_ok [OF assms(1)] by blast
  obtain us where us: "us_list (as_util ag) base False w' = Inr us" "distinct us"
      "set us = {k \<in> dom (objs w'). starts_with k base \<and> CHR ''/'' \<notin> set (drop (length base) k)}"
    using assms(1) unfolding store_laws_def by (elim conjE allE [where x = base] allE [where x = False] allE [where x = w'] exE) simp
  have "starts_with k base \<and> CHR ''/'' \<notin> set (drop (length base) k)" if k: "k \<in> set ?us" for k
  proof -
    obtain i where "k = base @ ''obj_'' @ show_nat i" using k by (auto simp: run_put_uris_def assms(4))
    moreover have "CHR ''/'' \<notin> set (show_nat i)" using show_nat_digits [of "CHR ''/''" i] by (auto simp: digit_val_def)
    ultimately show ?thesis by simp
  qed
  then have set_us: "set us = set ?us" unfolding us(3) using assms(6) w'(2) by (auto simp: dom_def split: if_splits)
  then have len_us: "length us = n"
    using distinct_card [OF us(2)] distinct_card [OF run_put_uris_props(1) [of base "[]" n]] run_put_uris_props(2) [of base "[]" n] by simp
  have keys: "map (\<lambda>k. base @ (case strip_prefix base k of Some s \<Rightarrow> s | None \<Rightarrow> k)) us = us"
  proof (rule map_idI)
    fix k assume "k \<in> set us"
    then have "starts_with k base" using us(3) by simp
    then show "base @ (case strip_prefix base k of Some s \<Rightarrow> s | None \<Rightarrow> k) = k"
      by (auto simp: strip_prefix_def starts_with_prefix prefix_def)
  qed
  have ts: "through_slash base = Some base" using through_slash_name [of "[]" d] assms(3) by simp
  have lk: "list_keys_for_uri ag base w' = Some (Inr (map (\<lambda>k. case strip_prefix base k of Some s \<Rightarrow> s | None \<Rightarrow> k) us))"
    using us(1) assms(2) by (simp add: list_keys_for_uri_def ts)
  have "get_each (as_util ag) us w' = Inr (replicate n len)"
    using get_each_ok [OF assms(1), of us w' len] set_us w'(2) len_us by simp
  moreover have "us \<noteq> []" using len_us assms(7) by auto
  ultimately have "run_get ag base jobs w' = Some (Inr (n * len))"
    using assms(8) unfolding run_get_def ts
    by (simp add: lk o_def keys with_permits_def sum_list_replicate)
  moreover have "run_put ag base [] len n jobs w = Some (Inr (len * n, w'))"
    using assms(8) w'(1) by (simp add: run_put_def with_permits_def)
  ultimately show ?thesis by blast
qed

end
