(* ===== verification/Autotune.thy ===== *)
theory Autotune
  imports Utility_Commands Rate_Controller
begin

text \<open>
  The search for good settings: \<open>autotune\<close> of the standalone program (\<open>src/main.rs\<close>), which runs its
  own put and get commands as child processes, and that of the controller
  (\<open>src/bin/controller.rs\<close>), which sends single-operation requests to the agents.

  \<open>f64\<close> is the type of \<open>Rate_Controller\<close>: exact numbers, infinity and NaN. The power function, the child
  processes and the agents are arguments; a child process and a request act on a state \<open>'w\<close>.
\<close>

datatype TuneOps = TunePut | TuneGet | TuneBoth

datatype OptimizeFor = Throughput | Latency

datatype RapidMode = RapidAuto | RapidOn | RapidOff

record TuneCase =
  tc_size :: nat
  tc_threads :: nat
  tc_channels :: nat
  tc_per_thread :: "nat option"
  tc_range :: bool
  tc_threshold_mb :: nat
  tc_chunk :: nat

record TuneResult =
  tr_case :: TuneCase
  tr_put_mbps :: "f64 option"
  tr_get_mbps :: "f64 option"
  tr_put_avg_ms :: "f64 option"
  tr_get_avg_ms :: "f64 option"

section \<open>Lists of values\<close>

definition csv_tokens :: "string \<Rightarrow> string list" where
  "csv_tokens s = filter (\<lambda>t. t \<noteq> []) (map trim (split_on (CHR '','') s))"

fun parse_tokens :: "(string \<Rightarrow> string + 'a) \<Rightarrow> string list \<Rightarrow> string + 'a list" where
  "parse_tokens f [] = Inr []"
| "parse_tokens f (t # ts) = bind_result (f t) (\<lambda>v. bind_result (parse_tokens f ts) (\<lambda>vs. Inr (v # vs)))"

definition parse_csv :: "(string \<Rightarrow> string + 'a) \<Rightarrow> string \<Rightarrow> string + 'a list" where
  "parse_csv f s =
     bind_result (parse_tokens f (csv_tokens s)) (\<lambda>vs. if vs = [] then Inl ''Expected at least one value'' else Inr vs)"

definition usize_token :: "string \<Rightarrow> string + nat" where
  "usize_token t = (case parse_u64 t of Some n \<Rightarrow> Inr n | None \<Rightarrow> Inl (''Invalid integer: '' @ t))"

definition u32_token :: "string \<Rightarrow> string + nat" where
  "u32_token t =
     (case parse_u64 t of Some n \<Rightarrow> if n \<le> u32_max then Inr n else Inl (''Invalid integer: '' @ t)
                        | None \<Rightarrow> Inl (''Invalid integer: '' @ t))"

definition bool_token :: "string \<Rightarrow> string + bool" where
  "bool_token t =
     (let s = to_lowercase t
      in if s \<in> set [''1'', ''true'', ''yes'', ''on''] then Inr True
         else if s \<in> set [''0'', ''false'', ''no'', ''off''] then Inr False
         else Inl (''Invalid bool '' @ t))"

definition parse_csv_usize :: "string \<Rightarrow> string + nat list" where "parse_csv_usize = parse_csv usize_token"

definition parse_csv_u32 :: "string \<Rightarrow> string + nat list" where "parse_csv_u32 = parse_csv u32_token"

definition parse_csv_bool :: "string \<Rightarrow> string + bool list" where "parse_csv_bool = parse_csv bool_token"

section \<open>Sizes\<close>

definition size_token :: "string \<Rightarrow> string + nat" where
  "size_token t = map_sum (\<lambda>_. ''Invalid size '' @ t) id (parse_size t)"

text \<open>\<open>sort_unstable\<close>, then \<open>dedup\<close>.\<close>

definition sorted_values :: "nat list \<Rightarrow> nat list" where "sorted_values xs = remdups_adj (sort xs)"

definition size_bounds :: "string \<Rightarrow> string + nat \<times> nat" where
  "size_bounds txt =
     (case map trim (split_on (CHR ''-'') txt) of
        [a, b] \<Rightarrow> bind_result (size_token a) (\<lambda>x. bind_result (size_token b) (\<lambda>y. Inr (x, y)))
      | _ \<Rightarrow> Inl ''Invalid size range'')"

text \<open>
  The \<open>i\<close>th of \<open>n\<close> sizes spaced geometrically, rounded to KiB. For a lower bound of 0 the arithmetic of
  \<open>f64\<close> gives 0 or NaN, both of which the cast to an integer makes 0.
\<close>

definition spaced_size :: "(rat \<Rightarrow> rat \<Rightarrow> rat) \<Rightarrow> nat \<Rightarrow> nat \<Rightarrow> nat \<Rightarrow> nat \<Rightarrow> rat" where
  "spaced_size pow lo hi n i =
     (if lo = 0 then 0
      else round_f64 (of_nat lo * pow (of_nat hi / of_nat lo) (of_nat i / of_nat (n - 1)) / 1024) * 1024)"

definition parse_sizes :: "(rat \<Rightarrow> rat \<Rightarrow> rat) \<Rightarrow> string option \<Rightarrow> string option \<Rightarrow> nat \<Rightarrow> string + nat list" where
  "parse_sizes pow sizes size_range size_steps =
     (case sizes of
        Some s \<Rightarrow> map_sum id sorted_values (parse_csv size_token s)
      | None \<Rightarrow>
          bind_result (size_bounds (case size_range of Some r \<Rightarrow> r | None \<Rightarrow> ''32MiB-64MiB'')) (\<lambda>(a, b).
            if a = 0 \<or> b = 0 then Inl ''Size range values must be > 0''
            else (let lo = min a b; hi = max a b; n = max size_steps 1
                  in if n = 1 \<or> lo = hi then Inr [lo]
                     else Inr (sorted_values (map (\<lambda>i. cast_u64 (max (spaced_size pow lo hi n i) 1024)) [0..<n])))))"

text \<open>The controller's version: no check for 0, and no lower limit of 1024.\<close>

definition parse_sizes_from_config ::
  "(rat \<Rightarrow> rat \<Rightarrow> rat) \<Rightarrow> string option \<Rightarrow> string option \<Rightarrow> nat option \<Rightarrow> string + nat list" where
  "parse_sizes_from_config pow sizes size_range size_steps =
     (case sizes of
        Some s \<Rightarrow> map_sum id sorted_values (parse_csv size_token s)
      | None \<Rightarrow>
          bind_result (size_bounds (case size_range of Some r \<Rightarrow> r | None \<Rightarrow> ''32MiB-64MiB'')) (\<lambda>(a, b).
            (let lo = min a b; hi = max a b; n = max (case size_steps of Some k \<Rightarrow> k | None \<Rightarrow> 4) 1
             in if n = 1 \<or> lo = hi then Inr [lo]
                else Inr (sorted_values (map (\<lambda>i. cast_u64 (spaced_size pow lo hi n i)) [0..<n])))))"

section \<open>The sweep\<close>

datatype ChannelSpec = Absolute "nat list" | PerThread "nat list"

text \<open>The standalone program lets the multiplier win over absolute counts; the controller refuses both.\<close>

definition channel_spec :: "(string \<Rightarrow> string + nat list) \<Rightarrow> bool \<Rightarrow> string option \<Rightarrow> string option \<Rightarrow> string + ChannelSpec" where
  "channel_spec parse is_gcs per_thread channels =
     (if \<not> is_gcs then Inr (Absolute [0])
      else case per_thread of
             Some s \<Rightarrow> bind_result (parse s) (\<lambda>ns.
                 if 0 \<in> set ns then Inl ''channels_per_thread: all values must be >= 1'' else Inr (PerThread ns))
           | None \<Rightarrow>
               (case channels of
                  Some s \<Rightarrow> bind_result (parse s) (\<lambda>ns. Inr (Absolute ns))
                | None \<Rightarrow> Inr (PerThread [1])))"

definition channel_pairs :: "(nat \<Rightarrow> nat \<Rightarrow> nat) \<Rightarrow> ChannelSpec \<Rightarrow> nat \<Rightarrow> (nat \<times> nat option) list" where
  "channel_pairs mul sp th =
     (case sp of
        Absolute ns \<Rightarrow> map (\<lambda>n. (n, None)) ns
      | PerThread ns \<Rightarrow> map (\<lambda>n. (mul th n, Some n)) ns)"

text \<open>\<open>u32\<close> multiplication of the controller, as a release build wraps it.\<close>

definition mul_u32 :: "nat \<Rightarrow> nat \<Rightarrow> nat" where "mul_u32 a b = a * b mod 2 ^ 32"

definition tune_sweep :: "(nat \<Rightarrow> nat \<Rightarrow> nat) \<Rightarrow> nat list \<Rightarrow> nat list \<Rightarrow> ChannelSpec \<Rightarrow> bool list \<Rightarrow> nat list \<Rightarrow> nat list \<Rightarrow> TuneCase list" where
  "tune_sweep mul sizes threads sp ranges thresholds chunks =
     concat (map (\<lambda>sz. concat (map (\<lambda>th. concat (map (\<lambda>(ch, cpt). concat (map (\<lambda>re. concat (map (\<lambda>rt.
       map (\<lambda>ck. \<lparr> tc_size = sz, tc_threads = th, tc_channels = ch, tc_per_thread = cpt, tc_range = re,
                   tc_threshold_mb = rt, tc_chunk = ck \<rparr>)
         chunks) thresholds)) ranges)) (channel_pairs mul sp th))) threads)) sizes)"

section \<open>Scores\<close>

fun add_f64 :: "f64 \<Rightarrow> f64 \<Rightarrow> f64" where
  "add_f64 (Fin a) (Fin b) = Fin (a + b)"
| "add_f64 NaN b = NaN"
| "add_f64 a NaN = NaN"
| "add_f64 _ _ = Infinite"

fun less_f64 :: "f64 \<Rightarrow> f64 \<Rightarrow> bool" where
  "less_f64 (Fin a) (Fin b) = (a < b)"
| "less_f64 (Fin a) Infinite = True"
| "less_f64 _ _ = False"

definition mean_of :: "f64 list \<Rightarrow> f64 option" where
  "mean_of xs = (if xs = [] then None else Some (div_f64 (foldl add_f64 (Fin 0) xs) (Fin (of_nat (length xs)))))"

definition score_of :: "f64 \<Rightarrow> f64 option \<Rightarrow> f64 option \<Rightarrow> f64" where
  "score_of none a b =
     (case (a, b) of
        (None, None) \<Rightarrow> none
      | (Some x, None) \<Rightarrow> add_f64 (Fin 0) x
      | (None, Some y) \<Rightarrow> add_f64 (Fin 0) y
      | (Some x, Some y) \<Rightarrow> div_f64 (add_f64 (add_f64 (Fin 0) x) y) (Fin 2))"

definition tune_score :: "OptimizeFor \<Rightarrow> TuneResult \<Rightarrow> f64" where
  "tune_score obj r =
     (case obj of
        Throughput \<Rightarrow> score_of (Fin 0) (tr_put_mbps r) (tr_get_mbps r)
      | Latency \<Rightarrow> score_of Infinite (tr_put_avg_ms r) (tr_get_avg_ms r))"

text \<open>\<open>max_by\<close> keeps the last of equal elements, \<open>min_by\<close> the first.\<close>

fun best_of :: "OptimizeFor \<Rightarrow> TuneResult list \<Rightarrow> TuneResult option" where
  "best_of obj [] = None"
| "best_of obj (r # rs) =
     Some (foldl (\<lambda>m x.
       case obj of
         Throughput \<Rightarrow> if less_f64 (tune_score obj x) (tune_score obj m) then m else x
       | Latency \<Rightarrow> if less_f64 (tune_score obj x) (tune_score obj m) then x else m) r rs)"

definition recommended_yaml :: "bool \<Rightarrow> RapidMode \<Rightarrow> TuneCase \<Rightarrow> string list" where
  "recommended_yaml is_gcs rapid c =
     [''concurrency: '' @ show_nat (tc_threads c), ''s3dlio_optimization:'',
      ''  enable_range_downloads: '' @ (if tc_range c then ''true'' else ''false''),
      ''  range_threshold_mb: '' @ show_nat (tc_threshold_mb c)]
     @ (if is_gcs
        then [''  gcs_channel_count: '' @ show_nat (tc_channels c),
              (case rapid of RapidOn \<Rightarrow> ''  gcs_rapid_mode: true'' | RapidOff \<Rightarrow> ''  gcs_rapid_mode: false''
                           | RapidAuto \<Rightarrow> ''  # gcs_rapid_mode omitted (auto-detect)''),
              ''  gcs_write_chunk_size_bytes: '' @ show_nat (tc_chunk c)]
        else [])"

section \<open>Trials\<close>

text \<open>
  What the parent reads from a child's output: the last match of a number in parentheses before
  \<open>MB/s\<close>. A match contains no opening parenthesis but its own, so looking at every position finds the
  same matches as the regular expression, which goes on after the end of each.
\<close>

definition is_digit :: "char \<Rightarrow> bool" where "is_digit c = (digit_val c \<noteq> None)"

definition mbps_at :: "string \<Rightarrow> rat option" where
  "mbps_at s =
     (let a = takeWhile is_digit s; r = dropWhile is_digit s
      in if a = [] then None
         else if starts_with r '' MB/s)'' then parse_decimal a
         else case r of
                [] \<Rightarrow> None
              | c # t \<Rightarrow>
                  if c = CHR ''.'' \<and> takeWhile is_digit t \<noteq> [] \<and> starts_with (dropWhile is_digit t) '' MB/s)''
                  then parse_decimal (a @ ''.'' @ takeWhile is_digit t) else None)"

fun mbps_scan :: "string \<Rightarrow> rat option \<Rightarrow> rat option" where
  "mbps_scan [] last_found = last_found"
| "mbps_scan (c # s) last_found =
     mbps_scan s (if c = CHR ''('' then (case mbps_at s of Some v \<Rightarrow> Some v | None \<Rightarrow> last_found) else last_found)"

definition mbps_from_output :: "string \<Rightarrow> rat option" where "mbps_from_output s = mbps_scan s None"

text \<open>\<open>replacen\<close> with a count of 1: only the first star.\<close>

definition replace_first_star :: "string \<Rightarrow> string \<Rightarrow> string" where
  "replace_first_star r s =
     (let a = takeWhile (\<lambda>c. c \<noteq> CHR ''*'') s in if length a = length s then s else a @ r @ drop (length a + 1) s)"

definition build_trial_uri :: "string \<Rightarrow> nat \<Rightarrow> string" where
  "build_trial_uri base k =
     (if CHR ''*'' \<in> set base then replace_first_star (''trial'' @ show_padded 3 k @ ''_*'') base
      else if ends_with base ''/'' then base @ ''autotune/trial'' @ show_padded 3 k @ ''/obj*.dat''
      else base @ ''.trial'' @ show_padded 3 k @ ''.*'')"

type_synonym 'w launcher = "string list \<Rightarrow> (string \<times> string) list \<Rightarrow> 'w \<Rightarrow> (string + bool \<times> string \<times> rat) \<times> 'w"

fun then_do :: "(string + 'a) \<times> 'w \<Rightarrow> ('a \<Rightarrow> 'w \<Rightarrow> (string + 'b) \<times> 'w) \<Rightarrow> (string + 'b) \<times> 'w" where
  "then_do (Inl e, w) f = (Inl e, w)"
| "then_do (Inr x, w) f = f x w"

definition run_trial_command ::
  "'w launcher \<Rightarrow> string list \<Rightarrow> (string \<times> string) list \<Rightarrow> nat \<Rightarrow> 'w \<Rightarrow> (string + rat \<times> rat) \<times> 'w" where
  "run_trial_command launch args envs objects w =
     then_do (launch args envs w) (\<lambda>(ok, stdout, dt) w'.
       if \<not> ok then (Inl ''Trial command failed'', w')
       else (Inr (case mbps_from_output stdout of Some v \<Rightarrow> v | None \<Rightarrow> 0,
                  if objects = 0 then 0 else dt * 1000 / of_nat objects), w'))"

record TuneSamples =
  sm_put_mbps :: "f64 list"
  sm_get_mbps :: "f64 list"
  sm_put_avg :: "f64 list"
  sm_get_avg :: "f64 list"

definition no_samples :: TuneSamples where
  "no_samples = \<lparr> sm_put_mbps = [], sm_get_mbps = [], sm_put_avg = [], sm_get_avg = [] \<rparr>"

definition trial_envs :: "bool \<Rightarrow> RapidMode \<Rightarrow> TuneCase \<Rightarrow> (string \<times> string) list" where
  "trial_envs is_gcs rapid c =
     [(''S3DLIO_ENABLE_RANGE_OPTIMIZATION'', if tc_range c then ''1'' else ''0''),
      (''S3DLIO_RANGE_THRESHOLD_MB'', show_nat (tc_threshold_mb c))]
     @ (if is_gcs
        then [(''S3DLIO_GCS_GRPC_CHANNELS'', show_nat (tc_channels c)), (''S3DLIO_GRPC_WRITE_CHUNK_SIZE'', show_nat (tc_chunk c))]
             @ (case rapid of RapidOn \<Rightarrow> [(''S3DLIO_GCS_RAPID'', ''true'')] | RapidOff \<Rightarrow> [(''S3DLIO_GCS_RAPID'', ''false'')]
                            | RapidAuto \<Rightarrow> [])
        else [])"

definition put_args :: "string \<Rightarrow> TuneCase \<Rightarrow> nat \<Rightarrow> string list" where
  "put_args uri c objects =
     [''util'', ''put'', ''--uri'', uri, ''--object-size'', show_nat (tc_size c), ''--objects'', show_nat objects,
      ''--concurrency'', show_nat (tc_threads c)]"

definition get_args :: "string \<Rightarrow> TuneCase \<Rightarrow> string list" where
  "get_args uri c = [''util'', ''get'', ''--uri'', uri, ''--jobs'', show_nat (tc_threads c)]"

record TuneArgs =
  ta_sizes :: "string option"
  ta_size_range :: "string option"
  ta_size_steps :: nat
  ta_threads :: string
  ta_channels :: "string option"
  ta_per_thread :: "string option"
  ta_range :: string
  ta_thresholds :: string
  ta_chunks :: string
  ta_rapid :: RapidMode
  ta_objects :: nat
  ta_trials :: nat
  ta_objective :: OptimizeFor
  ta_ops :: TuneOps
  ta_uri :: string

text \<open>One repetition of one case: a put that is measured, or one that only seeds the get.\<close>

definition run_trial ::
  "'w launcher \<Rightarrow> bool \<Rightarrow> TuneArgs \<Rightarrow> TuneCase \<Rightarrow> string \<Rightarrow> TuneSamples \<Rightarrow> 'w \<Rightarrow> (string + TuneSamples) \<times> 'w" where
  "run_trial launch is_gcs ta c uri s w =
     (let envs = trial_envs is_gcs (ta_rapid ta) c; n = ta_objects ta;
          put = run_trial_command launch (put_args uri c n) envs n;
          get = run_trial_command launch (get_args uri c) envs n
      in then_do
           (case ta_ops ta of
              TuneGet \<Rightarrow> then_do (put w) (\<lambda>_ w'. (Inr s, w'))
            | _ \<Rightarrow> then_do (put w) (\<lambda>(mbps, ms) w'.
                (Inr (s\<lparr>sm_put_mbps := sm_put_mbps s @ [Fin mbps], sm_put_avg := sm_put_avg s @ [Fin ms]\<rparr>), w')))
           (\<lambda>s w'. case ta_ops ta of
              TunePut \<Rightarrow> (Inr s, w')
            | _ \<Rightarrow> then_do (get w') (\<lambda>(mbps, ms) w''.
                (Inr (s\<lparr>sm_get_mbps := sm_get_mbps s @ [Fin mbps], sm_get_avg := sm_get_avg s @ [Fin ms]\<rparr>), w''))))"

fun run_reps ::
  "'w launcher \<Rightarrow> bool \<Rightarrow> TuneArgs \<Rightarrow> TuneCase \<Rightarrow> nat list \<Rightarrow> TuneSamples \<Rightarrow> 'w \<Rightarrow> (string + TuneSamples) \<times> 'w" where
  "run_reps launch is_gcs ta c [] s w = (Inr s, w)"
| "run_reps launch is_gcs ta c (k # ks) s w =
     then_do (run_trial launch is_gcs ta c (build_trial_uri (ta_uri ta) k) s w) (run_reps launch is_gcs ta c ks)"

definition tune_result :: "TuneCase \<Rightarrow> TuneSamples \<Rightarrow> TuneResult" where
  "tune_result c s =
     \<lparr> tr_case = c, tr_put_mbps = mean_of (sm_put_mbps s), tr_get_mbps = mean_of (sm_get_mbps s),
       tr_put_avg_ms = mean_of (sm_put_avg s), tr_get_avg_ms = mean_of (sm_get_avg s) \<rparr>"

fun run_cases ::
  "'w launcher \<Rightarrow> bool \<Rightarrow> TuneArgs \<Rightarrow> nat \<Rightarrow> TuneCase list \<Rightarrow> 'w \<Rightarrow> (string + TuneResult list) \<times> 'w" where
  "run_cases launch is_gcs ta idx [] w = (Inr [], w)"
| "run_cases launch is_gcs ta idx (c # cs) w =
     then_do (run_reps launch is_gcs ta c [idx * ta_trials ta..<idx * ta_trials ta + ta_trials ta] no_samples w) (\<lambda>s w'.
     then_do (run_cases launch is_gcs ta (Suc idx) cs w') (\<lambda>rs w''. (Inr (tune_result c s # rs), w'')))"

section \<open>Autotune of the standalone program\<close>

text \<open>The outcome: the plan of a dry run (cases, runs, operations, object operations), or the best case.\<close>

datatype TuneOutcome = DryRun "TuneCase list" nat nat nat | Best TuneResult "string list"

definition gcs_uri :: "string \<Rightarrow> bool" where "gcs_uri u = (starts_with u ''gs://'' \<or> starts_with u ''gcs://'')"

definition tune_cases :: "(rat \<Rightarrow> rat \<Rightarrow> rat) \<Rightarrow> TuneArgs \<Rightarrow> string + TuneCase list" where
  "tune_cases pow ta =
     bind_result (parse_sizes pow (ta_sizes ta) (ta_size_range ta) (ta_size_steps ta)) (\<lambda>sizes.
     bind_result (parse_csv_usize (ta_threads ta)) (\<lambda>threads.
     bind_result (channel_spec parse_csv_usize (gcs_uri (ta_uri ta)) (ta_per_thread ta) (ta_channels ta)) (\<lambda>sp.
     bind_result (parse_csv_bool (ta_range ta)) (\<lambda>ranges.
     bind_result (parse_csv_usize (ta_thresholds ta)) (\<lambda>thresholds.
     bind_result (if gcs_uri (ta_uri ta) then parse_csv_usize (ta_chunks ta) else Inr [0]) (\<lambda>chunks.
       let cs = tune_sweep (*) sizes threads sp ranges thresholds chunks
       in if cs = [] then Inl ''No autotune cases generated'' else Inr cs))))))"

definition autotune_cmd ::
  "(rat \<Rightarrow> rat \<Rightarrow> rat) \<Rightarrow> 'v util_store \<Rightarrow> 'w launcher \<Rightarrow> TuneArgs \<Rightarrow> bool \<Rightarrow> 'w \<Rightarrow> (string + TuneOutcome) \<times> 'w" where
  "autotune_cmd pow st launch ta dry w =
     (case bind_result (validate_uri st (ta_uri ta)) (\<lambda>_. tune_cases pow ta) of
        Inl e \<Rightarrow> (Inl e, w)
      | Inr cs \<Rightarrow>
          (let runs = length cs * ta_trials ta
           in if dry
              then (let ops = (case ta_ops ta of TuneBoth \<Rightarrow> runs * 2 | _ \<Rightarrow> runs)
                    in (Inr (DryRun cs runs ops (ops * ta_objects ta)), w))
              else then_do (run_cases launch (gcs_uri (ta_uri ta)) ta 0 cs w) (\<lambda>rs w'.
                     case best_of (ta_objective ta) rs of
                       None \<Rightarrow> (Inl ''No autotune results were produced'', w')
                     | Some b \<Rightarrow> (Inr (Best b (recommended_yaml (gcs_uri (ta_uri ta)) (ta_rapid ta) (tr_case b))), w'))))"

subsection \<open>The YAML file of the command\<close>

record AutotuneYaml =
  ay_uri :: "string option"
  ay_sizes :: "string option"
  ay_size_range :: "string option"
  ay_size_steps :: "nat option"
  ay_threads :: "string option"
  ay_channels :: "string option"
  ay_channels_per_thread :: "string option"
  ay_range_enabled :: "string option"
  ay_range_thresholds_mb :: "string option"
  ay_gcs_write_chunk_sizes :: "string option"
  ay_gcs_rapid_mode :: "string option"
  ay_objects :: "nat option"
  ay_trials :: "nat option"
  ay_optimize_for :: "string option"
  ay_ops :: "string option"

definition parse_rapid_mode_str :: "string \<Rightarrow> string + RapidMode" where
  "parse_rapid_mode_str s =
     (let t = to_lowercase (trim s)
      in if t = ''auto'' then Inr RapidAuto
         else if t \<in> set [''on'', ''true'', ''1'', ''yes''] then Inr RapidOn
         else if t \<in> set [''off'', ''false'', ''0'', ''no''] then Inr RapidOff
         else Inl (''Invalid gcs_rapid_mode '' @ s))"

definition parse_optimize_for_str :: "string \<Rightarrow> string + OptimizeFor" where
  "parse_optimize_for_str s =
     (let t = to_lowercase (trim s)
      in if t = ''throughput'' then Inr Throughput else if t = ''latency'' then Inr Latency
         else Inl (''Invalid optimize_for '' @ s))"

definition parse_tune_ops_str :: "string \<Rightarrow> string + TuneOps" where
  "parse_tune_ops_str s =
     (let t = to_lowercase (trim s)
      in if t = ''put'' then Inr TunePut else if t = ''get'' then Inr TuneGet else if t = ''both'' then Inr TuneBoth
         else Inl (''Invalid ops '' @ s))"

definition or_else :: "'a option \<Rightarrow> 'a \<Rightarrow> 'a" where "or_else x d = (case x of Some v \<Rightarrow> v | None \<Rightarrow> d)"

definition parsed_or :: "(string \<Rightarrow> string + 'a) \<Rightarrow> string option \<Rightarrow> 'a \<Rightarrow> string + 'a" where
  "parsed_or f x d = (case x of Some s \<Rightarrow> f s | None \<Rightarrow> Inr d)"

definition tune_args :: "AutotuneYaml \<Rightarrow> string + TuneArgs" where
  "tune_args y =
     (case ay_uri y of
        None \<Rightarrow> Inl ''autotune requires uri in YAML config''
      | Some uri \<Rightarrow>
          bind_result (parsed_or parse_rapid_mode_str (ay_gcs_rapid_mode y) RapidAuto) (\<lambda>rapid.
          bind_result (parsed_or parse_optimize_for_str (ay_optimize_for y) Throughput) (\<lambda>objective.
          bind_result (parsed_or parse_tune_ops_str (ay_ops y) TuneBoth) (\<lambda>ops.
            if ay_channels y \<noteq> None \<and> ay_channels_per_thread y \<noteq> None
            then Inl ''autotune: specify channels OR channels_per_thread in YAML, not both''
            else Inr \<lparr> ta_sizes = ay_sizes y, ta_size_range = ay_size_range y, ta_size_steps = or_else (ay_size_steps y) 4,
                       ta_threads = or_else (ay_threads y) ''16,32,64'', ta_channels = ay_channels y,
                       ta_per_thread = ay_channels_per_thread y, ta_range = or_else (ay_range_enabled y) ''false,true'',
                       ta_thresholds = or_else (ay_range_thresholds_mb y) ''32,64'',
                       ta_chunks = or_else (ay_gcs_write_chunk_sizes y) ''2097152,4128768'', ta_rapid = rapid,
                       ta_objects = or_else (ay_objects y) 64, ta_trials = or_else (ay_trials y) 1,
                       ta_objective = objective, ta_ops = ops, ta_uri = uri \<rparr>))))"

section \<open>Autotune of the controller\<close>

record ControllerAutotuneConfig =
  cf_uri :: string
  cf_sizes :: "string option"
  cf_size_range :: "string option"
  cf_size_steps :: "nat option"
  cf_threads :: "string option"
  cf_channels :: "string option"
  cf_per_thread :: "string option"
  cf_range :: "string option"
  cf_thresholds :: "string option"
  cf_chunks :: "string option"
  cf_rapid :: "RapidMode option"
  cf_project :: "string option"
  cf_objects :: "nat option"
  cf_trials :: "nat option"
  cf_optimize_for :: "OptimizeFor option"
  cf_ops :: "TuneOps option"

record RunPutRequest =
  rp_bucket :: string
  rp_prefix :: string
  rp_size :: nat
  rp_objects :: nat
  rp_concurrency :: nat
  rp_rapid :: int
  rp_channels :: nat
  rp_chunk :: nat
  rp_project :: string

record RunGetRequest =
  rg_uri :: string
  rg_jobs :: nat
  rg_rapid :: int
  rg_channels :: nat
  rg_ranges :: int
  rg_threshold_mb :: nat
  rg_chunk :: nat
  rg_project :: string

text \<open>The answers of the agents: an agent, a request, and the bytes and seconds it reports.\<close>

record 'w tune_agents =
  at_put :: "string \<Rightarrow> RunPutRequest \<Rightarrow> 'w \<Rightarrow> (string + nat \<times> rat) \<times> 'w"
  at_get :: "string \<Rightarrow> RunGetRequest \<Rightarrow> 'w \<Rightarrow> (string + nat \<times> rat) \<times> 'w"

definition to_pb_toggle :: "bool option \<Rightarrow> int" where
  "to_pb_toggle b = toggle_to_i32 (case b of Some True \<Rightarrow> On | Some False \<Rightarrow> Off | None \<Rightarrow> Unspecified)"

definition rapid_toggle :: "RapidMode \<Rightarrow> int" where
  "rapid_toggle r = toggle_to_i32 (case r of RapidAuto \<Rightarrow> Unspecified | RapidOn \<Rightarrow> On | RapidOff \<Rightarrow> Off)"

text \<open>The normalised URI ends with a slash, so the last slash is its last character.\<close>

definition split_put_uri :: "string \<Rightarrow> string \<times> string" where
  "split_put_uri uri =
     (let n = (if ends_with uri ''/'' then uri else uri @ ''/'')
      in case through_slash n of
           Some base \<Rightarrow> (base, drop (length base) n)
         | None \<Rightarrow> (n, []))"

text \<open>One request to each agent in turn; the bytes and the seconds are added up.\<close>

fun sum_over_agents ::
  "(string \<Rightarrow> 'w \<Rightarrow> (string + nat \<times> rat) \<times> 'w) \<Rightarrow> string list \<Rightarrow> nat \<times> rat \<Rightarrow> 'w \<Rightarrow> (string + nat \<times> rat) \<times> 'w" where
  "sum_over_agents call [] acc w = (Inr acc, w)"
| "sum_over_agents call (a # as) acc w =
     then_do (call a w) (\<lambda>(b, s) w'. sum_over_agents call as (fst acc + b, snd acc + s) w')"

definition agent_samples :: "nat \<Rightarrow> nat \<Rightarrow> nat \<times> rat \<Rightarrow> f64 list \<times> f64 list" where
  "agent_samples addrs objects acc =
     (if 0 < snd acc
      then ([Fin (of_nat (fst acc) / 1048576 / snd acc)],
            [div_f64 (Fin (snd acc * 1000)) (Fin (of_nat (addrs * objects)))])
      else ([], []))"

definition controller_put_request :: "ControllerAutotuneConfig \<Rightarrow> int \<Rightarrow> nat \<Rightarrow> TuneCase \<Rightarrow> RunPutRequest" where
  "controller_put_request cfg rapid objects c =
     \<lparr> rp_bucket = fst (split_put_uri (cf_uri cfg)), rp_prefix = snd (split_put_uri (cf_uri cfg)), rp_size = tc_size c,
       rp_objects = objects, rp_concurrency = tc_threads c, rp_rapid = rapid, rp_channels = tc_channels c,
       rp_chunk = tc_chunk c, rp_project = or_else (cf_project cfg) [] \<rparr>"

definition controller_get_request :: "ControllerAutotuneConfig \<Rightarrow> int \<Rightarrow> TuneCase \<Rightarrow> RunGetRequest" where
  "controller_get_request cfg rapid c =
     \<lparr> rg_uri = cf_uri cfg, rg_jobs = tc_threads c, rg_rapid = rapid, rg_channels = tc_channels c,
       rg_ranges = to_pb_toggle (Some (tc_range c)), rg_threshold_mb = tc_threshold_mb c, rg_chunk = tc_chunk c,
       rg_project = or_else (cf_project cfg) [] \<rparr>"

definition controller_trial ::
  "'w tune_agents \<Rightarrow> string list \<Rightarrow> ControllerAutotuneConfig \<Rightarrow> TuneOps \<Rightarrow> nat \<Rightarrow> TuneCase \<Rightarrow> TuneSamples \<Rightarrow> 'w
   \<Rightarrow> (string + TuneSamples) \<times> 'w" where
  "controller_trial ag addrs cfg ops objects c s w =
     (let rapid = rapid_toggle (or_else (cf_rapid cfg) RapidAuto)
      in then_do
           (if ops = TuneGet then (Inr s, w)
            else then_do (sum_over_agents (\<lambda>a. at_put ag a (controller_put_request cfg rapid objects c)) addrs (0, 0) w) (\<lambda>acc w'.
              (let (m, t) = agent_samples (length addrs) objects acc
               in (Inr (s\<lparr>sm_put_mbps := sm_put_mbps s @ m, sm_put_avg := sm_put_avg s @ t\<rparr>), w'))))
           (\<lambda>s w'.
            if ops = TunePut then (Inr s, w')
            else then_do (sum_over_agents (\<lambda>a. at_get ag a (controller_get_request cfg rapid c)) addrs (0, 0) w') (\<lambda>acc w''.
              (let (m, t) = agent_samples (length addrs) objects acc
               in (Inr (s\<lparr>sm_get_mbps := sm_get_mbps s @ m, sm_get_avg := sm_get_avg s @ t\<rparr>), w'')))))"

fun controller_reps ::
  "(TuneSamples \<Rightarrow> 'w \<Rightarrow> (string + TuneSamples) \<times> 'w) \<Rightarrow> nat \<Rightarrow> TuneSamples \<Rightarrow> 'w \<Rightarrow> (string + TuneSamples) \<times> 'w" where
  "controller_reps trial 0 s w = (Inr s, w)"
| "controller_reps trial (Suc n) s w = then_do (trial s w) (controller_reps trial n)"

fun controller_cases ::
  "(TuneCase \<Rightarrow> TuneSamples \<Rightarrow> 'w \<Rightarrow> (string + TuneSamples) \<times> 'w) \<Rightarrow> nat \<Rightarrow> TuneCase list \<Rightarrow> 'w
   \<Rightarrow> (string + TuneResult list) \<times> 'w" where
  "controller_cases trial trials [] w = (Inr [], w)"
| "controller_cases trial trials (c # cs) w =
     then_do (controller_reps (trial c) trials no_samples w) (\<lambda>s w'.
     then_do (controller_cases trial trials cs w') (\<lambda>rs w''. (Inr (tune_result c s # rs), w'')))"

definition controller_tune_cases :: "(rat \<Rightarrow> rat \<Rightarrow> rat) \<Rightarrow> ControllerAutotuneConfig \<Rightarrow> string + TuneCase list" where
  "controller_tune_cases pow cfg =
     bind_result (parse_sizes_from_config pow (cf_sizes cfg) (cf_size_range cfg) (cf_size_steps cfg)) (\<lambda>sizes.
     bind_result (parse_csv_u32 (or_else (cf_threads cfg) ''16,32,64'')) (\<lambda>threads.
     if cf_channels cfg \<noteq> None \<and> cf_per_thread cfg \<noteq> None
     then Inl ''autotune: specify channels OR channels_per_thread in YAML, not both''
     else bind_result (channel_spec parse_csv_u32 (gcs_uri (cf_uri cfg)) (cf_per_thread cfg) (cf_channels cfg)) (\<lambda>sp.
     bind_result (parse_csv_bool (or_else (cf_range cfg) ''false,true'')) (\<lambda>ranges.
     bind_result (parse_csv_u32 (or_else (cf_thresholds cfg) ''32,64'')) (\<lambda>thresholds.
     bind_result (if gcs_uri (cf_uri cfg) then parse_csv_u32 (or_else (cf_chunks cfg) ''2097152,4194304'') else Inr [0]) (\<lambda>chunks.
       let cs = tune_sweep mul_u32 sizes threads sp ranges thresholds chunks
       in if cs = [] then Inl ''No autotune cases generated'' else Inr cs))))))"

definition controller_autotune ::
  "(rat \<Rightarrow> rat \<Rightarrow> rat) \<Rightarrow> 'w tune_agents \<Rightarrow> string list \<Rightarrow> ControllerAutotuneConfig \<Rightarrow> 'w \<Rightarrow> (string + TuneResult) \<times> 'w" where
  "controller_autotune pow ag addrs cfg w =
     (case controller_tune_cases pow cfg of
        Inl e \<Rightarrow> (Inl e, w)
      | Inr cs \<Rightarrow>
          then_do (controller_cases (controller_trial ag addrs cfg (or_else (cf_ops cfg) TuneBoth) (or_else (cf_objects cfg) 64))
                      (or_else (cf_trials cfg) 1) cs w) (\<lambda>rs w'.
            case best_of (or_else (cf_optimize_for cfg) Throughput) rs of
              None \<Rightarrow> (Inl ''No best result found'', w')
            | Some b \<Rightarrow> (Inr b, w')))"

section \<open>The best of the results\<close>

lemma foldl_keeps:
  assumes "\<And>m x. f m x \<in> {m, x}"
  shows "foldl f r rs \<in> insert r (set rs)"
proof (induction rs arbitrary: r)
  case (Cons x rs)
  have "foldl f (f r x) rs \<in> insert (f r x) (set rs)" by (rule Cons)
  then show ?case using assms [of r x] by auto
qed simp

text \<open>No result is better: higher for throughput, lower for latency; NaN compares with nothing.\<close>

definition better :: "OptimizeFor \<Rightarrow> f64 \<Rightarrow> f64 \<Rightarrow> bool" where
  "better obj a b = (case obj of Throughput \<Rightarrow> less_f64 b a | Latency \<Rightarrow> less_f64 a b)"

lemma less_f64_trans: "less_f64 a b \<Longrightarrow> less_f64 b c \<Longrightarrow> less_f64 a c"
  by (cases a; cases b; cases c) auto

lemma not_less_f64_trans:
  "b \<noteq> NaN \<Longrightarrow> \<not> less_f64 a b \<Longrightarrow> \<not> less_f64 b c \<Longrightarrow> \<not> less_f64 a c"
  by (cases a; cases b; cases c) auto

lemma best_of_optimal:
  assumes "best_of obj rs = Some b" "\<forall>r\<in>set rs. tune_score obj r \<noteq> NaN"
  shows "b \<in> set rs \<and> (\<forall>r\<in>set rs. \<not> better obj (tune_score obj r) (tune_score obj b))"
proof -
  obtain r0 rs' where rs: "rs = r0 # rs'" using assms(1) by (cases rs) auto
  define f where "f = (\<lambda>m x. case obj of
         Throughput \<Rightarrow> if less_f64 (tune_score obj x) (tune_score obj m) then m else x
       | Latency \<Rightarrow> if less_f64 (tune_score obj x) (tune_score obj m) then x else m)"
  have f: "f m x \<in> {m, x}" for m x by (simp add: f_def split: OptimizeFor.splits)
  have b: "b = foldl f r0 rs'" using assms(1) by (simp add: rs f_def)
  have step: "\<not> better obj (tune_score obj m) (tune_score obj (f m x)) \<and> \<not> better obj (tune_score obj x) (tune_score obj (f m x))"
    for m x
    by (cases obj; cases "tune_score obj m"; cases "tune_score obj x") (auto simp: better_def f_def)
  have trans: "\<not> better obj p q \<Longrightarrow> \<not> better obj q r \<Longrightarrow> q \<noteq> NaN \<Longrightarrow> \<not> better obj p r" for p q r
    using not_less_f64_trans by (auto simp: better_def split: OptimizeFor.splits)
  have "\<forall>r\<in>insert m (set xs). tune_score obj r \<noteq> NaN \<Longrightarrow>
      \<forall>r\<in>insert m (set xs). \<not> better obj (tune_score obj r) (tune_score obj (foldl f m xs))" for m xs
  proof (induction xs arbitrary: m)
    case Nil
    then show ?case by (cases obj; cases "tune_score obj m") (auto simp: better_def)
  next
    case (Cons x xs)
    let ?m = "f m x"
    have nn: "tune_score obj ?m \<noteq> NaN" using Cons.prems f [of m x] by auto
    then have ih: "\<forall>r\<in>insert ?m (set xs). \<not> better obj (tune_score obj r) (tune_score obj (foldl f ?m xs))"
      using Cons.prems by (intro Cons.IH) auto
    then have "\<not> better obj (tune_score obj r) (tune_score obj (foldl f ?m xs))" if "r = m \<or> r = x" for r
      using that step [of m x] nn trans by blast
    then show ?case using ih by auto
  qed
  then show ?thesis using assms(2) foldl_keeps [OF f, of r0 rs'] unfolding rs b by simp
qed

subsection \<open>Scores are numbers\<close>

definition is_fin :: "f64 \<Rightarrow> bool" where "is_fin x = (case x of Fin _ \<Rightarrow> True | _ \<Rightarrow> False)"

definition fin_samples :: "TuneSamples \<Rightarrow> bool" where
  "fin_samples s = (list_all is_fin (sm_put_mbps s) \<and> list_all is_fin (sm_get_mbps s)
     \<and> list_all is_fin (sm_put_avg s) \<and> list_all is_fin (sm_get_avg s))"

lemma is_fin_iff: "is_fin x \<longleftrightarrow> (\<exists>a. x = Fin a)"
  by (cases x) (simp_all add: is_fin_def)

lemma sum_fin: "list_all is_fin xs \<Longrightarrow> is_fin (foldl add_f64 (Fin a) xs)"
  by (induction xs arbitrary: a) (auto simp: is_fin_iff)

lemma mean_fin: "list_all is_fin xs \<Longrightarrow> mean_of xs = Some m \<Longrightarrow> is_fin m"
  using sum_fin [of xs 0] by (auto simp: mean_of_def is_fin_iff split: if_splits)

lemma score_not_nan:
  assumes "fin_samples s"
  shows "tune_score obj (tune_result c s) \<noteq> NaN"
proof -
  have f: "pred_option is_fin (mean_of xs)" if "list_all is_fin xs" for xs
    using mean_fin [OF that] by (cases "mean_of xs") auto
  have "score_of d a b \<noteq> NaN" if "d \<noteq> NaN" "pred_option is_fin a" "pred_option is_fin b" for d a b
    using that by (cases a; cases b) (auto simp: score_of_def is_fin_iff)
  then show ?thesis
    using assms f by (cases obj) (simp_all add: tune_score_def tune_result_def fin_samples_def)
qed

lemma then_do_Inr: "then_do x f = (Inr y, w') \<longleftrightarrow> (\<exists>a w. x = (Inr a, w) \<and> f a w = (Inr y, w'))"
  by (cases "(x, f)" rule: then_do.cases) auto

lemma run_trial_fin:
  "run_trial launch g ta c uri s w = (Inr s', w') \<Longrightarrow> fin_samples s \<Longrightarrow> fin_samples s'"
  by (auto simp: run_trial_def Let_def then_do_Inr fin_samples_def is_fin_def split: TuneOps.splits)

lemma run_reps_fin:
  "run_reps launch g ta c ks s w = (Inr s', w') \<Longrightarrow> fin_samples s \<Longrightarrow> fin_samples s'"
  by (induction ks arbitrary: s w) (auto simp: then_do_Inr dest: run_trial_fin)

lemma run_cases_results:
  "run_cases launch g ta idx cs w = (Inr rs, w') \<Longrightarrow>
   map tr_case rs = cs \<and> (\<forall>r\<in>set rs. tune_score obj r \<noteq> NaN)"
proof (induction cs arbitrary: idx w rs w')
  case (Cons c cs)
  then obtain s w1 rs1 where s: "run_reps launch g ta c [idx * ta_trials ta..<idx * ta_trials ta + ta_trials ta] no_samples w = (Inr s, w1)"
      "run_cases launch g ta (Suc idx) cs w1 = (Inr rs1, w')" "rs = tune_result c s # rs1"
    by (auto simp: then_do_Inr)
  have "fin_samples no_samples" by (simp add: fin_samples_def no_samples_def)
  then have "fin_samples s" using run_reps_fin [OF s(1)] by simp
  then show ?case using Cons.IH [OF s(2)] s(3) score_not_nan by (simp add: tune_result_def)
qed simp

text \<open>
  C28: When autotune names a best case, it has measured every case of the sweep once, in the order of the
  sweep, the named case is one of them, and none of the others has a better score; the recommended
  settings are those of that case.
\<close>

theorem autotune_names_the_best:
  assumes "autotune_cmd pow st launch ta False w = (Inr (Best b yaml), w')"
  shows "\<exists>cs rs. tune_cases pow ta = Inr cs \<and> fst (run_cases launch (gcs_uri (ta_uri ta)) ta 0 cs w) = Inr rs
    \<and> map tr_case rs = cs \<and> b \<in> set rs
    \<and> (\<forall>r\<in>set rs. \<not> better (ta_objective ta) (tune_score (ta_objective ta) r) (tune_score (ta_objective ta) b))
    \<and> yaml = recommended_yaml (gcs_uri (ta_uri ta)) (ta_rapid ta) (tr_case b)"
proof -
  obtain cs where cs: "bind_result (validate_uri st (ta_uri ta)) (\<lambda>_. tune_cases pow ta) = Inr cs"
    using assms by (auto simp: autotune_cmd_def split: sum.splits)
  obtain rs w1 where rs: "run_cases launch (gcs_uri (ta_uri ta)) ta 0 cs w = (Inr rs, w1)"
      "best_of (ta_objective ta) rs = Some b" "yaml = recommended_yaml (gcs_uri (ta_uri ta)) (ta_rapid ta) (tr_case b)"
    using assms by (auto simp: autotune_cmd_def cs then_do_Inr split: option.splits)
  have "tune_cases pow ta = Inr cs" using cs by (simp add: bind_result_Inr_iff)
  moreover note run_cases_results [OF rs(1), of "ta_objective ta"]
  moreover have "fst (run_cases launch (gcs_uri (ta_uri ta)) ta 0 cs w) = Inr rs" using rs(1) by simp
  ultimately show ?thesis using best_of_optimal [OF rs(2)] rs(3) by blast
qed

section \<open>The trials and their objects\<close>

text \<open>A launcher that records what it starts.\<close>

type_synonym call_log = "(string list \<times> (string \<times> string) list) list"

definition logging :: "(string list \<Rightarrow> (string \<times> string) list \<Rightarrow> call_log \<Rightarrow> string + bool \<times> string \<times> rat) \<Rightarrow> call_log launcher" where
  "logging answer args envs calls = (answer args envs calls, calls @ [(args, envs)])"

definition trial_calls :: "bool \<Rightarrow> TuneArgs \<Rightarrow> TuneCase \<Rightarrow> string \<Rightarrow> call_log" where
  "trial_calls is_gcs ta c uri =
     (let envs = trial_envs is_gcs (ta_rapid ta) c; put = (put_args uri c (ta_objects ta), envs); get = (get_args uri c, envs)
      in if ta_ops ta = TunePut then [put] else [put, get])"

fun planned_calls :: "bool \<Rightarrow> TuneArgs \<Rightarrow> nat \<Rightarrow> TuneCase list \<Rightarrow> call_log" where
  "planned_calls is_gcs ta idx [] = []"
| "planned_calls is_gcs ta idx (c # cs) =
     concat (map (\<lambda>k. trial_calls is_gcs ta c (build_trial_uri (ta_uri ta) k))
                 [idx * ta_trials ta..<idx * ta_trials ta + ta_trials ta])
     @ planned_calls is_gcs ta (Suc idx) cs"

text \<open>A part of the program makes the given calls in order, all of them when it succeeds.\<close>

definition makes_calls :: "(call_log \<Rightarrow> (string + 'a) \<times> call_log) \<Rightarrow> call_log \<Rightarrow> bool" where
  "makes_calls f calls = (\<forall>w. \<exists>a b. calls = a @ b \<and> snd (f w) = w @ a \<and> (is_ok (fst (f w)) \<longrightarrow> b = []))"

lemma makes_no_call: "makes_calls (\<lambda>w. (r, w)) []"
  by (simp add: makes_calls_def)

lemma makes_calls_then:
  assumes "makes_calls f cs" "\<And>x. makes_calls (g x) ds"
  shows "makes_calls (\<lambda>w. then_do (f w) g) (cs @ ds)"
  unfolding makes_calls_def
proof
  fix w
  obtain a b where f: "cs = a @ b" "snd (f w) = w @ a" "is_ok (fst (f w)) \<longrightarrow> b = []"
    using assms(1) unfolding makes_calls_def by blast
  show "\<exists>a b. cs @ ds = a @ b \<and> snd (then_do (f w) g) = w @ a \<and> (is_ok (fst (then_do (f w) g)) \<longrightarrow> b = [])"
  proof (cases "fst (f w)")
    case (Inl e)
    then have "f w = (Inl e, w @ a)" using f(2) by (metis prod.collapse)
    then show ?thesis using f(1) by auto
  next
    case (Inr x)
    then have fw: "f w = (Inr x, w @ cs)" using f by (metis append.right_neutral is_ok_simps(1) prod.collapse)
    obtain a' b' where "ds = a' @ b'" "snd (g x (w @ cs)) = (w @ cs) @ a'" "is_ok (fst (g x (w @ cs))) \<longrightarrow> b' = []"
      using assms(2) [of x] unfolding makes_calls_def by blast
    then show ?thesis unfolding fw then_do.simps by (intro exI [of _ "cs @ a'"] exI [of _ b']) simp
  qed
qed

lemma makes_calls_trial_command:
  "makes_calls (run_trial_command (logging answer) args envs n) [(args, envs)]"
proof -
  have 1: "makes_calls (logging answer args envs) [(args, envs)]"
    unfolding makes_calls_def by (intro allI exI [of _ "[(args, envs)]"] exI [of _ "[]"]) (simp add: logging_def)
  have "makes_calls (\<lambda>w. then_do (logging answer args envs w) (\<lambda>(ok, stdout, dt) w'.
       if \<not> ok then (Inl ''Trial command failed'', w')
       else (Inr (case mbps_from_output stdout of Some v \<Rightarrow> v | None \<Rightarrow> 0,
                  if n = 0 then 0 else dt * 1000 / of_nat n), w'))) ([(args, envs)] @ [])"
    by (intro makes_calls_then 1) (simp add: makes_calls_def split_def)
  then show ?thesis by (simp add: run_trial_command_def [abs_def])
qed

lemma makes_calls_trial:
  "makes_calls (run_trial (logging answer) g ta c uri s) (trial_calls g ta c uri)"
proof -
  define e n where "e = trial_envs g (ta_rapid ta) c" and "n = ta_objects ta"
  let ?put = "run_trial_command (logging answer) (put_args uri c n) e n"
  let ?get = "run_trial_command (logging answer) (get_args uri c) e n"
  note p = makes_calls_trial_command [of answer "put_args uri c n" e n]
  note q = makes_calls_trial_command [of answer "get_args uri c" e n]
  have seed: "makes_calls (\<lambda>w. then_do (?put w) (\<lambda>_ w'. (Inr s, w'))) ([(put_args uri c n, e)] @ [])"
    by (intro makes_calls_then p makes_no_call)
  have put: "makes_calls (\<lambda>w. then_do (?put w) (\<lambda>(mbps, ms) w'.
      (Inr (s\<lparr>sm_put_mbps := sm_put_mbps s @ [Fin mbps], sm_put_avg := sm_put_avg s @ [Fin ms]\<rparr>), w')))
      ([(put_args uri c n, e)] @ [])"
    by (intro makes_calls_then p) (simp add: makes_no_call split_def)
  have get: "makes_calls (\<lambda>w. then_do (?get w) (\<lambda>(mbps, ms) w''.
      (Inr (s\<lparr>sm_get_mbps := sm_get_mbps s @ [Fin mbps], sm_get_avg := sm_get_avg s @ [Fin ms]\<rparr>), w'')))
      ([(get_args uri c, e)] @ [])" for s :: TuneSamples
    by (intro makes_calls_then q) (simp add: makes_no_call split_def)
  show ?thesis
  proof (cases "ta_ops ta")
    case TunePut
    have "makes_calls (\<lambda>w. then_do (then_do (?put w) (\<lambda>(mbps, ms) w'.
      (Inr (s\<lparr>sm_put_mbps := sm_put_mbps s @ [Fin mbps], sm_put_avg := sm_put_avg s @ [Fin ms]\<rparr>), w')))
      (\<lambda>s w'. (Inr s, w'))) (([(put_args uri c n, e)] @ []) @ [])"
      by (intro makes_calls_then [OF put] makes_no_call)
    then show ?thesis by (simp add: run_trial_def [abs_def] trial_calls_def TunePut e_def n_def Let_def)
  next
    case TuneGet
    note makes_calls_then [OF seed get]
    then show ?thesis by (simp add: run_trial_def [abs_def] trial_calls_def TuneGet e_def n_def Let_def)
  next
    case TuneBoth
    note makes_calls_then [OF put get]
    then show ?thesis by (simp add: run_trial_def [abs_def] trial_calls_def TuneBoth e_def n_def Let_def)
  qed
qed

lemma makes_calls_reps:
  "makes_calls (run_reps (logging answer) g ta c ks s) (concat (map (\<lambda>k. trial_calls g ta c (build_trial_uri (ta_uri ta) k)) ks))"
proof (induction ks arbitrary: s)
  case Nil
  have "run_reps (logging answer) g ta c [] s = (\<lambda>w. (Inr s, w))" by (rule ext) simp
  then show ?case by (simp add: makes_no_call)
next
  case (Cons k ks)
  have "run_reps (logging answer) g ta c (k # ks) s
      = (\<lambda>w. then_do (run_trial (logging answer) g ta c (build_trial_uri (ta_uri ta) k) s w) (run_reps (logging answer) g ta c ks))"
    by (rule ext) simp
  then show ?case using makes_calls_then [OF makes_calls_trial Cons] by simp
qed

lemma makes_calls_cases:
  "makes_calls (run_cases (logging answer) g ta idx cs) (planned_calls g ta idx cs)"
proof (induction cs arbitrary: idx)
  case Nil
  have "run_cases (logging answer) g ta idx [] = (\<lambda>w. (Inr [], w))" by (rule ext) simp
  then show ?case by (simp add: makes_no_call)
next
  case (Cons c cs)
  have rest: "makes_calls (\<lambda>w'. then_do (run_cases (logging answer) g ta (Suc idx) cs w') (\<lambda>rs w''. (Inr (tune_result c s # rs), w'')))
      (planned_calls g ta (Suc idx) cs @ [])" for s
    by (intro makes_calls_then Cons makes_no_call)
  note makes_calls_then [OF makes_calls_reps rest]
  moreover have "run_cases (logging answer) g ta idx (c # cs) = (\<lambda>w.
     then_do (run_reps (logging answer) g ta c [idx * ta_trials ta..<idx * ta_trials ta + ta_trials ta] no_samples w) (\<lambda>s w'.
     then_do (run_cases (logging answer) g ta (Suc idx) cs w') (\<lambda>rs w''. (Inr (tune_result c s # rs), w''))))"
    by (rule ext) simp
  ultimately show ?case by simp
qed

subsection \<open>Objects of different trials\<close>

lemma show_padded_no_star: "CHR ''*'' \<notin> set (show_padded k n)" "CHR ''_'' \<notin> set (show_padded k n)" "CHR ''/'' \<notin> set (show_padded k n)" "CHR ''.'' \<notin> set (show_padded k n)"
  by (auto intro!: show_padded_chars simp: digit_val_def)

lemma split_first: "x @ c # a = y @ c # b \<Longrightarrow> c \<notin> set x \<Longrightarrow> c \<notin> set y \<Longrightarrow> x = y"
proof (induction x arbitrary: y)
  case Nil
  then show ?case by (cases y) auto
next
  case (Cons z x)
  then show ?case by (cases y) auto
qed

text \<open>Every object of a trial begins with a text that ends the trial's number.\<close>

lemma trial_object_form:
  obtains c pre where "c \<notin> {x. digit_val x \<noteq> None}"
    and "\<And>k n u. u \<in> set (put_uris (build_trial_uri base k) n) \<Longrightarrow> \<exists>r. u = pre @ show_padded 3 k @ c # r"
proof (cases "CHR ''*'' \<in> set base")
  case True
  define a r where "a = takeWhile (\<lambda>c. c \<noteq> CHR ''*'') base" and "r = drop (length a + 1) base"
  have l: "length a \<noteq> length base"
  proof
    assume "length a = length base"
    then have "takeWhile (\<lambda>c. c \<noteq> CHR ''*'') base = base"
      unfolding a_def using takeWhile_eq_take [of "\<lambda>c. c \<noteq> CHR ''*''" base] by simp
    then show False using True unfolding takeWhile_eq_all_conv by blast
  qed
  have a: "CHR ''*'' \<notin> set a" by (auto simp: a_def dest: set_takeWhileD)
  have b: "build_trial_uri base k = a @ ''trial'' @ show_padded 3 k @ ''_*'' @ r" for k
    using True l by (simp add: build_trial_uri_def replace_first_star_def a_def r_def Let_def)
  have "\<exists>r. u = (a @ ''trial'') @ show_padded 3 k @ CHR ''_'' # r" if u: "u \<in> set (put_uris (build_trial_uri base k) n)" for k n u
  proof -
    have "CHR ''*'' \<in> set (build_trial_uri base k)" by (simp add: b)
    then obtain i where "u = star_fill (show_padded 6 i) (build_trial_uri base k)"
      using u by (auto simp: put_uris_def replace_all_star)
    then show ?thesis by (simp add: b star_fill_no_star [OF a] star_fill_no_star [OF show_padded_no_star(1)])
  qed
  then show ?thesis by (intro that [of "CHR ''_''" "a @ ''trial''"]) (simp_all add: digit_val_def)
next
  case False
  then have base: "star_fill x base = base" for x by (rule star_fill_no_star)
  show ?thesis
  proof (cases "ends_with base ''/''")
    case True
    have b: "build_trial_uri base k = base @ ''autotune/trial'' @ show_padded 3 k @ ''/obj*.dat''" for k
      using True False by (simp add: build_trial_uri_def)
    have "\<exists>r. u = (base @ ''autotune/trial'') @ show_padded 3 k @ CHR ''/'' # r" if u: "u \<in> set (put_uris (build_trial_uri base k) n)" for k n u
    proof -
      have "CHR ''*'' \<in> set (build_trial_uri base k)" by (simp add: b)
      then obtain i where "u = star_fill (show_padded 6 i) (build_trial_uri base k)"
        using u by (auto simp: put_uris_def replace_all_star)
      then show ?thesis by (simp add: b base star_fill_no_star [OF show_padded_no_star(1)])
    qed
    then show ?thesis by (intro that [of "CHR ''/''" "base @ ''autotune/trial''"]) (simp_all add: digit_val_def)
  next
    case no: False
    have b: "build_trial_uri base k = base @ ''.trial'' @ show_padded 3 k @ ''.*''" for k
      using no False by (simp add: build_trial_uri_def)
    have "\<exists>r. u = (base @ ''.trial'') @ show_padded 3 k @ CHR ''.'' # r" if u: "u \<in> set (put_uris (build_trial_uri base k) n)" for k n u
    proof -
      have "CHR ''*'' \<in> set (build_trial_uri base k)" by (simp add: b)
      then obtain i where "u = star_fill (show_padded 6 i) (build_trial_uri base k)"
        using u by (auto simp: put_uris_def replace_all_star)
      then show ?thesis by (simp add: b base star_fill_no_star [OF show_padded_no_star(1)])
    qed
    then show ?thesis by (intro that [of "CHR ''.''" "base @ ''.trial''"]) (simp_all add: digit_val_def)
  qed
qed

lemma trial_objects_disjoint:
  assumes "i \<noteq> j"
  shows "set (put_uris (build_trial_uri base i) n) \<inter> set (put_uris (build_trial_uri base j) m) = {}"
proof (rule ccontr)
  assume "\<not> ?thesis"
  then obtain u where u: "u \<in> set (put_uris (build_trial_uri base i) n)" "u \<in> set (put_uris (build_trial_uri base j) m)" by blast
  obtain c pre where c: "c \<notin> {x. digit_val x \<noteq> None}"
    and f: "\<forall>k n u. u \<in> set (put_uris (build_trial_uri base k) n) \<longrightarrow> (\<exists>r. u = pre @ show_padded 3 k @ c # r)"
  proof (rule trial_object_form [of base])
    fix c pre
    assume "c \<notin> {x. digit_val x \<noteq> None}"
      and "\<And>k n u. u \<in> set (put_uris (build_trial_uri base k) n) \<Longrightarrow> \<exists>r. u = pre @ show_padded 3 k @ c # r"
    then show thesis by (intro that [of c pre]) simp_all
  qed
  have "\<exists>r. u = pre @ show_padded 3 i @ c # r" "\<exists>r. u = pre @ show_padded 3 j @ c # r" using f u by simp_all
  then obtain r r' where "pre @ show_padded 3 i @ c # r = pre @ show_padded 3 j @ c # r'" by metis
  then have "show_padded 3 i @ c # r = show_padded 3 j @ c # r'" by simp
  moreover have "c \<notin> set (show_padded 3 i)" "c \<notin> set (show_padded 3 j)" using c show_padded_chars by auto
  ultimately have "show_padded 3 i = show_padded 3 j" by (rule split_first)
  then show False using assms by simp
qed

text \<open>
  Autotune starts its child processes in the planned order, case by case and trial by trial, a put
  before a get on the same URI, without leaving one out; it stops early only when it fails. The objects
  that two different trials write are different.
\<close>

lemma autotune_runs_the_plan:
  assumes "tune_cases pow ta = Inr cs" "validate_uri st (ta_uri ta) = Inr (ta_uri ta)"
    and "autotune_cmd pow st (logging answer) ta False [] = (res, calls)"
  shows "(\<exists>rest. planned_calls (gcs_uri (ta_uri ta)) ta 0 cs = calls @ rest \<and> (is_ok res \<longrightarrow> rest = []))
    \<and> (\<forall>i j. i \<noteq> j \<longrightarrow> set (put_uris (build_trial_uri (ta_uri ta) i) (ta_objects ta))
                       \<inter> set (put_uris (build_trial_uri (ta_uri ta) j) (ta_objects ta)) = {})"
proof -
  let ?g = "gcs_uri (ta_uri ta)"
  let ?run = "run_cases (logging answer) ?g ta 0 cs []"
  obtain rest where r: "planned_calls ?g ta 0 cs = snd ?run @ rest" "is_ok (fst ?run) \<longrightarrow> rest = []"
    using makes_calls_cases [of answer ?g ta 0 cs] unfolding makes_calls_def by (metis append_Nil)
  have "snd ?run = calls \<and> (is_ok res \<longrightarrow> is_ok (fst ?run))"
    using assms(3) by (cases ?run; cases "fst ?run") (auto simp: autotune_cmd_def assms(1,2) split: option.splits)
  then show ?thesis using r trial_objects_disjoint by blast
qed

subsection \<open>What the parent reads of a child\<close>

lemma mbps_scan_last: "mbps_scan s d = (case mbps_scan s None of None \<Rightarrow> d | Some v \<Rightarrow> Some v)"
proof (induction s arbitrary: d)
  case (Cons c s)
  show ?case
  proof (cases "c = CHR ''('' \<and> mbps_at s \<noteq> None")
    case True
    then obtain v where "mbps_at s = Some v" by blast
    then show ?thesis using True Cons [of "Some v"] by (simp split: option.splits)
  next
    case False
    then show ?thesis using Cons [of d] by (auto split: option.splits)
  qed
qed simp

lemma mbps_scan_skip: "CHR ''('' \<notin> set a \<Longrightarrow> mbps_scan (a @ s) d = mbps_scan s d"
  by (induction a arbitrary: d) auto

lemma digits_span:
  assumes "list_all is_digit a" "s = [] \<or> \<not> is_digit (hd s)"
  shows "takeWhile is_digit (a @ s) = a" "dropWhile is_digit (a @ s) = s"
  using assms by (induction a; cases s; simp)+

lemma digits_show: "list_all is_digit (show_nat n)" "list_all is_digit (show_padded k n)"
  using show_nat_digits by (auto simp: list_all_iff is_digit_def show_padded_def digit_val_def [of "CHR ''0''"])

lemma mbps_at_fixed:
  "mbps_at (show_fixed 2 x @ s) =
     (if starts_with s '' MB/s)'' then Some (of_nat (round_half_even (x * 100)) / 100) else None)"
  if "s \<noteq> []" "\<not> is_digit (hd s)" for s
proof -
  define n where "n = round_half_even (x * 100)"
  have nd: "\<not> is_digit (CHR ''.'')" by (simp add: is_digit_def digit_val_def)
  have sf: "show_fixed 2 x = show_nat (n div 100) @ ''.'' @ show_padded 2 (n mod 100)"
    by (simp add: show_fixed_def n_def Let_def)
  have t1: "takeWhile is_digit (show_fixed 2 x @ s) = show_nat (n div 100)"
    "dropWhile is_digit (show_fixed 2 x @ s) = CHR ''.'' # show_padded 2 (n mod 100) @ s"
    using digits_span [OF digits_show(1) [of "n div 100"], of "CHR ''.'' # show_padded 2 (n mod 100) @ s"] nd
    by (simp_all add: sf)
  have t2: "takeWhile is_digit (show_padded 2 (n mod 100) @ s) = show_padded 2 (n mod 100)"
    "dropWhile is_digit (show_padded 2 (n mod 100) @ s) = s"
    using digits_span [OF digits_show(2) [of 2 "n mod 100"], of s] that by simp_all
  have "show_nat (n div 100) @ ''.'' @ show_padded 2 (n mod 100) = decimal_text 2 (n div 100) (n mod 100)"
    by (simp add: decimal_text_def)
  moreover have "parse_decimal (decimal_text 2 (n div 100) (n mod 100)) = Some (of_nat (n div 100) + of_nat (n mod 100) / 100)"
    using parse_decimal_text [of "n mod 100" 2 "n div 100"] by (simp add: decimal_value_def)
  moreover have "of_nat (n div 100) + of_nat (n mod 100) / 100 = (of_nat n / 100 :: rat)"
  proof -
    have "(of_nat n :: rat) = of_nat (n div 100 * 100 + n mod 100)" by simp
    then show ?thesis by (simp only: of_nat_add of_nat_mult) (simp add: field_simps)
  qed
  moreover have "show_padded 2 (n mod 100) \<noteq> []" by (simp add: show_padded_def)
  ultimately show ?thesis
    unfolding mbps_at_def t1 Let_def using t2 by (simp add: n_def [symmetric] starts_with_def)
qed

lemma no_paren: "CHR ''('' \<notin> set (show_nat n)" "CHR ''('' \<notin> set (show_fixed k x)"
proof -
  have d: "digit_val (CHR ''('') = None" by (simp add: digit_val_def)
  then show "CHR ''('' \<notin> set (show_nat n)" for n using show_nat_digits by blast
  then show "CHR ''('' \<notin> set (show_fixed k x)"
    using show_padded_chars [OF d] by (simp add: show_fixed_def Let_def)
qed

text \<open>
  The parent reads the throughput of a child from the child's own output, to two decimals: the number in
  the line of a get or a put, not that of the amount before it.
\<close>

lemma parent_reads_throughput:
  assumes "0 < took_secs t" "CHR ''('' \<notin> set (took_text t)" "mbps_from_output (hist_text t) = None"
  shows "mbps_from_output (put_output n len t) = Some (of_nat (round_half_even (of_nat (n * len) / 1048576 / took_secs t * 100)) / 100)"
    and "mbps_from_output (get_output ns t) = Some (of_nat (round_half_even (of_nat (sum_list ns) / 1048576 / took_secs t * 100)) / 100)"
proof -
  define hist where "hist = hist_text t"
  have h: "mbps_scan hist d = d" for d
    using assms(3) mbps_scan_last [of hist d] by (simp add: mbps_from_output_def hist_def)
  have line: "mbps_scan (CHR ''('' # show_fixed 2 x @ '' MB/s)'' @ [CHR 0x0A] @ hist) d
      = Some (of_nat (round_half_even (x * 100)) / 100)" for x d
    using mbps_at_fixed [of "'' MB/s)'' @ [CHR 0x0A] @ hist" x]
      mbps_scan_skip [of "show_fixed 2 x" "'' MB/s)'' @ [CHR 0x0A] @ hist"] no_paren(2) [of 2 x]
    by (simp add: starts_with_def is_digit_def digit_val_def h)
  have amount: "mbps_scan (CHR ''('' # show_fixed 2 x @ '' MB) in '' @ r) d = mbps_scan r d" for x r d
    using mbps_at_fixed [of "'' MB) in '' @ r" x] mbps_scan_skip [of "show_fixed 2 x @ '' MB) in ''" r] no_paren(2) [of 2 x]
    by (simp add: starts_with_def is_digit_def digit_val_def)
  let ?r = "\<lambda>m. CHR ''('' # show_fixed 2 (of_nat m / 1048576 / took_secs t) @ '' MB/s)'' @ [CHR 0x0A] @ hist"
  have p: "put_output n len t = (''Uploaded '' @ show_nat n @ '' objects '') @ CHR ''('' # mb_text (n * len) @ '' MB) in ''
      @ (took_text t @ '' '') @ ?r (n * len)"
    using assms(1) by (simp add: put_output_def rate_text_def hist_def)
  have g: "get_output ns t = (''Downloaded '' @ mb_text (sum_list ns) @ '' MB in '' @ took_text t @ '' '') @ ?r (sum_list ns)"
    using assms(1) by (simp add: get_output_def rate_text_def hist_def)
  have s1: "mbps_scan ((''Uploaded '' @ show_nat n @ '' objects '') @ r) None = mbps_scan r None" for r
    using no_paren(1) [of n] by (intro mbps_scan_skip) simp
  have s2: "mbps_scan ((took_text t @ '' '') @ r) None = mbps_scan r None" for r
    using assms(2) by (intro mbps_scan_skip) simp
  show "mbps_from_output (put_output n len t) = Some (of_nat (round_half_even (of_nat (n * len) / 1048576 / took_secs t * 100)) / 100)"
    unfolding p mbps_from_output_def s1 mb_text_def amount s2 by (rule line)
  have s3: "mbps_scan ((''Downloaded '' @ mb_text (sum_list ns) @ '' MB in '' @ took_text t @ '' '') @ r) None = mbps_scan r None" for r
    using assms(2) no_paren(2) by (intro mbps_scan_skip) (simp add: mb_text_def)
  show "mbps_from_output (get_output ns t) = Some (of_nat (round_half_even (of_nat (sum_list ns) / 1048576 / took_secs t * 100)) / 100)"
    unfolding g mbps_from_output_def s3 by (rule line)
qed

section \<open>What the controller's search reads\<close>

lemma split_put_uri_no_prefix: "split_put_uri uri = (if ends_with uri ''/'' then uri else uri @ ''/'', [])"
proof -
  have "through_slash (d @ ''/'') = Some (d @ ''/'')" for d using through_slash_name [of "[]" d] by simp
  moreover have "\<exists>d. uri = d @ ''/''" if "ends_with uri ''/''"
  proof -
    have "hd (rev uri) = CHR ''/''" "rev uri \<noteq> []" using that by (cases "rev uri"; simp add: ends_with_def starts_with_def)+
    then show ?thesis by (metis append_butlast_last_id hd_rev rev_is_Nil_conv)
  qed
  ultimately show ?thesis by (auto simp: split_put_uri_def)
qed

text \<open>
  When the URI of the controller's search does not end in a slash, its gets do not read what its puts
  write: an agent puts the objects below the URI and reads the one object the URI names, so on a store
  where that object does not exist, every put succeeds and every get fails.
\<close>

lemma controller_gets_miss_puts:
  assumes "store_laws (as_util ag) objs" "\<not> ends_with (cf_uri cfg) ''/''" "CHR ''/'' \<in> set (cf_uri cfg)"
    and "CHR ''*'' \<notin> set (cf_uri cfg)" "cf_uri cfg \<notin> dom (objs w)" "0 < tc_threads c"
  shows "\<exists>w'. run_put ag (rp_bucket (controller_put_request cfg rapid n c)) (rp_prefix (controller_put_request cfg rapid n c))
        (rp_size (controller_put_request cfg rapid n c)) (rp_objects (controller_put_request cfg rapid n c))
        (rp_concurrency (controller_put_request cfg rapid n c)) w = Some (Inr (tc_size c * n, w'))
    \<and> (\<exists>e. run_get ag (rg_uri (controller_get_request cfg rapid c)) (rg_jobs (controller_get_request cfg rapid c)) w' = Some (Inl e))"
proof -
  let ?uri = "cf_uri cfg"
  let ?us = "run_put_uris (?uri @ ''/'') [] n"
  obtain w' where w': "put_each (as_util ag) (tc_size c) ?us w = Inr w'"
      "objs w' = (\<lambda>k. if k \<in> set ?us then Some (tc_size c) else objs w k)"
    using put_each_ok [OF assms(1)] by blast
  have "length ?uri < length k" if k: "k \<in> set ?us" for k
  proof -
    obtain i where "k = put_base (?uri @ ''/'') @ ''obj_'' @ show_nat i" using k by (auto simp: run_put_uris_def)
    moreover have "length (?uri @ ''/'') \<le> length (put_base (?uri @ ''/''))" by (simp add: put_base_def)
    ultimately show ?thesis by simp
  qed
  then have "objs w' ?uri = None" using w'(2) assms(5) by (auto simp: domIff)
  then obtain e where e: "us_get (as_util ag) ?uri w' = Inl e" using assms(1) unfolding store_laws_def by blast
  obtain q where q: "?uri = up_to_slash ?uri @ q" "CHR ''/'' \<notin> set q" using up_to_slash_prefix by blast
  have "q \<noteq> []"
  proof
    assume "q = []"
    then have "up_to_slash ?uri = ?uri" using q(1) by simp
    then have "dropWhile (\<lambda>x. x \<noteq> CHR ''/'') (rev ?uri) = rev ?uri" unfolding up_to_slash_def by (metis rev_rev_ident)
    moreover have "rev ?uri \<noteq> []" using assms(3) by auto
    ultimately have "hd (rev ?uri) = CHR ''/''" "rev ?uri \<noteq> []"
      using hd_dropWhile [of "\<lambda>x. x \<noteq> CHR ''/''" "rev ?uri"] by simp_all
    then show False using assms(2) by (cases "rev ?uri") (simp_all add: ends_with_def starts_with_def)
  qed
  moreover have "drop (length (up_to_slash ?uri)) ?uri = q" by (metis q(1) append_eq_conv_conj)
  moreover have "CHR ''*'' \<notin> set q" using assms(4) q(1) by (metis Un_iff set_append)
  ultimately have "run_get ag ?uri (tc_threads c) w' = Some (Inl e)"
    using assms(3,6) e by (simp add: run_get_def through_slash_def with_permits_def)
  moreover have "run_put ag (?uri @ ''/'') [] (tc_size c) n (tc_threads c) w = Some (Inr (tc_size c * n, w'))"
    using assms(6) w'(1) by (simp add: run_put_def with_permits_def)
  ultimately show ?thesis
    using assms(2) by (auto simp: controller_put_request_def controller_get_request_def split_put_uri_no_prefix)
qed

text \<open>A URI of direct I/O, which the standalone program accepts, becomes the name of a bucket.\<close>

lemma direct_uri_becomes_bucket:
  "put_base (fst (split_put_uri ''direct:///mnt/t/'')) = ''s3://direct:///mnt/t/''"
  by code_simp

section \<open>A sample search\<close>

definition sample_tune :: TuneArgs where
  "sample_tune = \<lparr> ta_sizes = Some ''4'', ta_size_range = None, ta_size_steps = 4, ta_threads = ''1,2'', ta_channels = None,
     ta_per_thread = None, ta_range = ''no'', ta_thresholds = ''3'', ta_chunks = ''2'', ta_rapid = RapidAuto, ta_objects = 1,
     ta_trials = 1, ta_objective = Throughput, ta_ops = TunePut, ta_uri = ''s3://b/'' \<rparr>"

definition sample_case :: "nat \<Rightarrow> TuneCase" where
  "sample_case th = \<lparr> tc_size = 4, tc_threads = th, tc_channels = 0, tc_per_thread = None, tc_range = False,
     tc_threshold_mb = 3, tc_chunk = 0 \<rparr>"

definition sample_answer :: "string list \<Rightarrow> (string \<times> string) list \<Rightarrow> call_log \<Rightarrow> string + bool \<times> string \<times> rat" where
  "sample_answer args envs calls = Inr (True, if last args = ''2'' then ''(9 MB/s)'' else ''(5 MB/s)'', 1)"

lemma sample_tokens:
  "csv_tokens ''1,2'' = [''1'', ''2'']" "csv_tokens ''4'' = [''4'']" "csv_tokens ''3'' = [''3'']" "csv_tokens ''no'' = [''no'']"
  "trim ''4'' = ''4''" "to_lowercase ''no'' = ''no''"
  by code_simp+

lemma sample_fields:
  "ta_sizes sample_tune = Some ''4''" "ta_threads sample_tune = ''1,2''" "ta_range sample_tune = ''no''"
  "ta_thresholds sample_tune = ''3''" "ta_objects sample_tune = 1" "ta_trials sample_tune = 1"
  "ta_objective sample_tune = Throughput" "ta_ops sample_tune = TunePut" "ta_rapid sample_tune = RapidAuto"
  "ta_uri sample_tune = ''s3://b/''" "\<not> gcs_uri ''s3://b/''"
  by (simp_all add: sample_tune_def gcs_uri_def starts_with_def)

lemma sample_cases: "tune_cases pow sample_tune = Inr [sample_case 1, sample_case 2]"
proof -
  have d: "parse_u64 ''1'' = Some 1" "parse_u64 ''2'' = Some 2" "parse_u64 ''3'' = Some 3" "parse_u64 ''4'' = Some 4"
    by (simp_all add: parse_u64_def digit_val_def u64_max_def)
  have sz: "size_token ''4'' = Inr 4" by (simp add: sample_tokens size_token_def parse_size_def d)
  have "parse_csv size_token ''4'' = Inr [4]" "parse_csv_usize ''1,2'' = Inr [1, 2]" "parse_csv_usize ''3'' = Inr [3]"
    "parse_csv_bool ''no'' = Inr [False]"
    by (simp_all add: parse_csv_def parse_csv_usize_def parse_csv_bool_def sample_tokens sz usize_token_def bool_token_def d)
  then show ?thesis
    by (simp add: tune_cases_def sample_fields parse_sizes_def sorted_values_def channel_spec_def tune_sweep_def channel_pairs_def
        sample_case_def)
qed

lemma sample_valid: "validate_uri map_store (ta_uri sample_tune) = Inr (ta_uri sample_tune)"
  by (simp add: validate_uri_def map_store_def)

lemma sample_autotune:
  "\<exists>yaml calls. autotune_cmd pow map_store (logging sample_answer) sample_tune False []
     = (Inr (Best (tune_result (sample_case 2) (no_samples\<lparr>sm_put_mbps := [Fin 9], sm_put_avg := [Fin 1000]\<rparr>)) yaml), calls)"
proof -
  have m: "mbps_from_output ''(9 MB/s)'' = Some 9" "mbps_from_output ''(5 MB/s)'' = Some 5" by code_simp+
  have n: "show_nat 1 = ''1''" "show_nat 2 = ''2''" by code_simp+
  let ?s = "\<lambda>x. no_samples\<lparr>sm_put_mbps := [Fin x], sm_put_avg := [Fin 1000]\<rparr>"
  have last: "last (put_args u c k) = show_nat (tc_threads c)" for u c k by (simp add: put_args_def)
  have t: "\<exists>calls'. run_trial (logging sample_answer) False sample_tune (sample_case th) u no_samples calls
      = (Inr (?s (if th = 2 then 9 else 5)), calls')" if "th = 1 \<or> th = 2" for th u calls
  proof -
    have th: "show_nat (tc_threads (sample_case th)) = ''2'' \<longleftrightarrow> th = 2" using that n by (auto simp: sample_case_def)
    show ?thesis
      by (simp add: run_trial_def sample_fields run_trial_command_def logging_def sample_answer_def last th m no_samples_def)
  qed
  obtain c1 where c1: "run_trial (logging sample_answer) False sample_tune (sample_case 1) (build_trial_uri ''s3://b/'' 0) no_samples []
      = (Inr (?s 5), c1)" using t [of 1] by fastforce
  obtain c2 where c2: "run_trial (logging sample_answer) False sample_tune (sample_case 2) (build_trial_uri ''s3://b/'' 1) no_samples c1
      = (Inr (?s 9), c2)" using t [of 2] by fastforce
  have r: "run_cases (logging sample_answer) False sample_tune 0 [sample_case 1, sample_case 2] []
      = (Inr [tune_result (sample_case 1) (?s 5), tune_result (sample_case 2) (?s 9)], c2)"
    using c1 c2 by (simp add: sample_fields)
  have sc: "tune_score Throughput (tune_result c (?s x)) = Fin x" for c x
    by (simp add: tune_score_def score_of_def tune_result_def mean_of_def no_samples_def)
  show ?thesis
    by (simp add: autotune_cmd_def sample_cases sample_valid [unfolded sample_fields] r sample_fields sc Let_def del: One_nat_def run_cases.simps)
qed

lemma autotune_names_the_best_witness:
  "\<exists>cs rs b. tune_cases (\<lambda>x y. x) sample_tune = Inr cs \<and> map tr_case rs = cs \<and> b \<in> set rs \<and> tr_case b = sample_case 2
    \<and> (\<forall>r\<in>set rs. \<not> better Throughput (tune_score Throughput r) (tune_score Throughput b))"
proof -
  let ?b = "tune_result (sample_case 2) (no_samples\<lparr>sm_put_mbps := [Fin 9], sm_put_avg := [Fin 1000]\<rparr>)"
  obtain yaml calls where r: "autotune_cmd (\<lambda>x y. x) map_store (logging sample_answer) sample_tune False [] = (Inr (Best ?b yaml), calls)"
    using sample_autotune by blast
  have o: "ta_objective sample_tune = Throughput" by (simp add: sample_tune_def)
  have "tr_case ?b = sample_case 2" by (simp add: tune_result_def)
  then show ?thesis using autotune_names_the_best [OF r] unfolding o by blast
qed

lemma autotune_runs_the_plan_witness:
  "\<exists>res calls. autotune_cmd (\<lambda>x y. x) map_store (logging sample_answer) sample_tune False [] = (res, calls)
    \<and> calls = planned_calls False sample_tune 0 [sample_case 1, sample_case 2]"
proof -
  obtain res calls where r: "autotune_cmd (\<lambda>x y. x) map_store (logging sample_answer) sample_tune False [] = (res, calls)" by force
  have "is_ok res" using r sample_autotune [of "\<lambda>x y. x"] by auto
  moreover have "\<not> gcs_uri (ta_uri sample_tune)" by code_simp
  ultimately show ?thesis using autotune_runs_the_plan [OF sample_cases sample_valid r] r by auto
qed

definition sample_agent :: "(string \<times> nat) list agent_store" where
  "sample_agent = \<lparr> as_util = map_store, as_open = (\<lambda>_. True), as_pages = (\<lambda>_ _. []) \<rparr>"

definition sample_controller :: ControllerAutotuneConfig where
  "sample_controller = \<lparr> cf_uri = ''s3://b/x'', cf_sizes = None, cf_size_range = None, cf_size_steps = None, cf_threads = None,
     cf_channels = None, cf_per_thread = None, cf_range = None, cf_thresholds = None, cf_chunks = None, cf_rapid = None,
     cf_project = None, cf_objects = None, cf_trials = None, cf_optimize_for = None, cf_ops = None \<rparr>"

lemma controller_gets_miss_puts_witness:
  "\<exists>w' e. run_get sample_agent ''s3://b/x'' 1 w' = Some (Inl e)"
proof -
  have l: "store_laws (as_util sample_agent) map_of" by (simp add: sample_agent_def map_store_laws)
  have u: "\<not> ends_with (cf_uri sample_controller) ''/''" "CHR ''/'' \<in> set (cf_uri sample_controller)" "CHR ''*'' \<notin> set (cf_uri sample_controller)"
    by (simp_all add: sample_controller_def ends_with_def starts_with_def)
  have "cf_uri sample_controller = ''s3://b/x''" "tc_threads (sample_case 1) = 1" by (simp_all add: sample_controller_def sample_case_def)
  then show ?thesis using controller_gets_miss_puts [OF l u, of "[]" "sample_case 1" 0 4]
    by (auto simp: controller_get_request_def)
qed

end
