(* ===== verification/Multi_Worker.thy ===== *)
theory Multi_Worker
  imports Workload_Run Size_Text Oplog_Merge
begin

text \<open>
  A workload run by several workers at once: processes that send their summaries back as JSON
  (\<open>src/multiprocess.rs\<close>, \<open>IpcSummary\<close> of \<open>src/workload.rs\<close>) or runtimes in threads of one process
  (\<open>src/multiruntime.rs\<close>), the choice of their number (\<open>ProcessScaling\<close> of \<open>src/config.rs\<close>), and the
  merging of their summaries.

  The histogram library, its serialisation and base64 are arguments, as are the processes, the threads
  and the JSON parser: a worker is a function from its number and configuration to its result. Threads
  deliver their results in any order, which is an argument too.
\<close>

record 'h hist_codec =
  hc_len :: "'h \<Rightarrow> nat"
  hc_max :: "'h \<Rightarrow> nat"
  hc_text :: "'h \<Rightarrow> string"
  hc_untext :: "string \<Rightarrow> 'h option"

record EndpointStatsSnapshot =
  ep_uri :: string
  ep_requests :: nat
  ep_read :: nat
  ep_written :: nat
  ep_errors :: nat
  ep_active :: nat

record 'h RunSummary =
  rm_wall :: rat
  rm_bytes :: nat
  rm_ops :: nat
  rm_p50 :: nat
  rm_p95 :: nat
  rm_p99 :: nat
  rm_get :: OpAgg
  rm_put :: OpAgg
  rm_meta :: OpAgg
  rm_get_bins :: SizeBins
  rm_put_bins :: SizeBins
  rm_meta_bins :: SizeBins
  rm_get_hists :: "'h OpHists"
  rm_put_hists :: "'h OpHists"
  rm_meta_hists :: "'h OpHists"
  rm_setup_hists :: "'h OpHists"
  rm_io_hists :: "'h OpHists"
  rm_errors :: nat
  rm_error_rate :: rat
  rm_endpoints :: "EndpointStatsSnapshot list option"

text \<open>The summary of a run of one worker, as \<open>workload::run\<close> returns it.\<close>

definition run_summary :: "rat \<Rightarrow> EndpointStatsSnapshot list option \<Rightarrow> 'h Summary \<Rightarrow> 'h RunSummary" where
  "run_summary wall eps s =
     \<lparr> rm_wall = wall, rm_bytes = sum_bytes s, rm_ops = sum_ops s, rm_p50 = fst (overall s), rm_p95 = fst (snd (overall s)),
       rm_p99 = snd (snd (overall s)), rm_get = sum_get s, rm_put = sum_put s, rm_meta = sum_meta s,
       rm_get_bins = get_bins (sum_stats s), rm_put_bins = put_bins (sum_stats s), rm_meta_bins = meta_bins (sum_stats s),
       rm_get_hists = hist_get (sum_stats s), rm_put_hists = hist_put (sum_stats s), rm_meta_hists = hist_meta (sum_stats s),
       rm_setup_hists = hist_put_setup (sum_stats s), rm_io_hists = hist_put_io (sum_stats s),
       rm_errors = sum_errors s, rm_error_rate = sum_error_rate s, rm_endpoints = eps \<rparr>"

record IpcSummary =
  ipc_wall :: rat
  ipc_bytes :: nat
  ipc_ops :: nat
  ipc_p50 :: nat
  ipc_p95 :: nat
  ipc_p99 :: nat
  ipc_get :: OpAgg
  ipc_put :: OpAgg
  ipc_meta :: OpAgg
  ipc_get_bins :: SizeBins
  ipc_put_bins :: SizeBins
  ipc_meta_bins :: SizeBins
  ipc_get_hists :: "string list"
  ipc_put_hists :: "string list"
  ipc_meta_hists :: "string list"
  ipc_errors :: nat
  ipc_error_rate :: rat

definition from_summary :: "'h hist_codec \<Rightarrow> 'h RunSummary \<Rightarrow> IpcSummary" where
  "from_summary hc s =
     \<lparr> ipc_wall = rm_wall s, ipc_bytes = rm_bytes s, ipc_ops = rm_ops s, ipc_p50 = rm_p50 s, ipc_p95 = rm_p95 s,
       ipc_p99 = rm_p99 s, ipc_get = rm_get s, ipc_put = rm_put s, ipc_meta = rm_meta s, ipc_get_bins = rm_get_bins s,
       ipc_put_bins = rm_put_bins s, ipc_meta_bins = rm_meta_bins s, ipc_get_hists = map (hc_text hc) (rm_get_hists s),
       ipc_put_hists = map (hc_text hc) (rm_put_hists s), ipc_meta_hists = map (hc_text hc) (rm_meta_hists s),
       ipc_errors = rm_errors s, ipc_error_rate = rm_error_rate s \<rparr>"

section \<open>The number of workers\<close>

datatype ProcessScaling = Single | AutoScale | Manual nat

definition scaling_of_nat :: "nat \<Rightarrow> string + ProcessScaling" where
  "scaling_of_nat n =
     (if n = 1 then Inr Single else if 1 < n then Inr (Manual n) else Inl ''processes must be >= 1'')"

definition deserialize_scaling :: "yaml \<Rightarrow> string + ProcessScaling" where
  "deserialize_scaling v =
     (case v of
        YPosInt n \<Rightarrow> scaling_of_nat n
      | YNegInt i \<Rightarrow> Inl ''processes must be >= 1''
      | YText s \<Rightarrow>
          if s \<in> set [''auto'', ''Auto'', ''AUTO''] then Inr AutoScale
          else if s \<in> set [''single'', ''Single'', ''SINGLE'', ''1''] then Inr Single
          else (case parse_u64 s of
                  Some n \<Rightarrow> scaling_of_nat n
                | None \<Rightarrow> Inl (''invalid process scaling value: '' @ s))
      | _ \<Rightarrow> Inl ''invalid type'')"

definition detect_physical_cores :: "nat \<Rightarrow> nat" where "detect_physical_cores physical = max physical 1"

definition resolve_scaling :: "nat \<Rightarrow> ProcessScaling \<Rightarrow> nat" where
  "resolve_scaling physical p =
     (case p of Single \<Rightarrow> 1 | AutoScale \<Rightarrow> detect_physical_cores physical | Manual n \<Rightarrow> n)"

lemma at_least_one_worker:
  "deserialize_scaling v = Inr p \<Longrightarrow> 1 \<le> resolve_scaling physical p"
  by (cases v) (auto simp: deserialize_scaling_def scaling_of_nat_def resolve_scaling_def detect_physical_cores_def
      split: if_splits option.splits)

section \<open>Worker processes\<close>

text \<open>Adding the histograms of a child, bucket by bucket; the first problem ends the merge.\<close>

fun merge_hist_vec :: "'h hdr \<Rightarrow> 'h hist_codec \<Rightarrow> 'h OpHists \<Rightarrow> string list \<Rightarrow> string + 'h OpHists" where
  "merge_hist_vec hg hc hs [] = Inr hs"
| "merge_hist_vec hg hc [] (t # ts) = Inl ''Histogram bucket index out of range''"
| "merge_hist_vec hg hc (h # hs) (t # ts) =
     (case hc_untext hc t of
        None \<Rightarrow> Inl ''Failed to decode histogram''
      | Some x \<Rightarrow>
          (case h_add hg h x of
             None \<Rightarrow> Inl ''Failed to merge histograms''
           | Some h' \<Rightarrow> bind_result (merge_hist_vec hg hc hs ts) (\<lambda>hs'. Inr (h' # hs'))))"

text \<open>The percentile of the first bucket that has any value, and the mean over all buckets.\<close>

definition calculate_percentile :: "'h hdr \<Rightarrow> 'h hist_codec \<Rightarrow> rat \<Rightarrow> 'h OpHists \<Rightarrow> nat" where
  "calculate_percentile hg hc q hs =
     (case filter (\<lambda>h. 0 < hc_len hc h) hs of [] \<Rightarrow> 0 | h # _ \<Rightarrow> h_quantile hg q h)"

definition calculate_mean :: "'h hdr \<Rightarrow> 'h hist_codec \<Rightarrow> 'h OpHists \<Rightarrow> nat" where
  "calculate_mean hg hc hs =
     (let used = filter (\<lambda>h. 0 < hc_len hc h) hs;
          count = sum_list (map (hc_len hc) used);
          weighted = sum_list (map (\<lambda>h. cast_u64 (h_mean hg h * of_nat (hc_len hc h))) used)
      in if count = 0 then 0 else weighted div count)"

definition create_empty_ophists :: "'h hdr \<Rightarrow> nat \<Rightarrow> 'h OpHists" where
  "create_empty_ophists hg n = replicate n (h_new hg 1 3600000000)"

definition add_agg :: "OpAgg \<Rightarrow> OpAgg \<Rightarrow> OpAgg" where
  "add_agg a b = a\<lparr>agg_ops := agg_ops a + agg_ops b, agg_bytes := agg_bytes a + agg_bytes b\<rparr>"

definition OpAgg_default :: OpAgg where
  "OpAgg_default = \<lparr> agg_bytes = 0, agg_ops = 0, mean_us = 0, p50_us = 0, p95_us = 0, p99_us = 0 \<rparr>"

text \<open>The accumulators of the merge, and one round of its loop.\<close>

definition merge_start :: "'h hdr \<Rightarrow> nat \<Rightarrow> 'h RunSummary" where
  "merge_start hg n =
     \<lparr> rm_wall = 0, rm_bytes = 0, rm_ops = 0, rm_p50 = 0, rm_p95 = 0, rm_p99 = 0, rm_get = OpAgg_default,
       rm_put = OpAgg_default, rm_meta = OpAgg_default, rm_get_bins = [], rm_put_bins = [], rm_meta_bins = [],
       rm_get_hists = create_empty_ophists hg n, rm_put_hists = create_empty_ophists hg n,
       rm_meta_hists = create_empty_ophists hg n, rm_setup_hists = op_hists_new hg, rm_io_hists = op_hists_new hg,
       rm_errors = 0, rm_error_rate = 0, rm_endpoints = None \<rparr>"

definition merge_ipc :: "'h hdr \<Rightarrow> 'h hist_codec \<Rightarrow> IpcSummary \<Rightarrow> 'h RunSummary \<Rightarrow> string + 'h RunSummary" where
  "merge_ipc hg hc i m =
     bind_result (merge_hist_vec hg hc (rm_get_hists m) (ipc_get_hists i)) (\<lambda>g.
     bind_result (merge_hist_vec hg hc (rm_put_hists m) (ipc_put_hists i)) (\<lambda>p.
     bind_result (merge_hist_vec hg hc (rm_meta_hists m) (ipc_meta_hists i)) (\<lambda>mt.
       Inr (m\<lparr>rm_wall := max (rm_wall m) (ipc_wall i), rm_bytes := rm_bytes m + ipc_bytes i, rm_ops := rm_ops m + ipc_ops i,
              rm_get := add_agg (rm_get m) (ipc_get i), rm_put := add_agg (rm_put m) (ipc_put i),
              rm_meta := add_agg (rm_meta m) (ipc_meta i), rm_get_bins := bins_merge (rm_get_bins m) (ipc_get_bins i),
              rm_put_bins := bins_merge (rm_put_bins m) (ipc_put_bins i),
              rm_meta_bins := bins_merge (rm_meta_bins m) (ipc_meta_bins i),
              rm_get_hists := g, rm_put_hists := p, rm_meta_hists := mt\<rparr>))))"

fun merge_ipcs :: "'h hdr \<Rightarrow> 'h hist_codec \<Rightarrow> IpcSummary list \<Rightarrow> 'h RunSummary \<Rightarrow> string + 'h RunSummary" where
  "merge_ipcs hg hc [] m = Inr m"
| "merge_ipcs hg hc (i # is') m = bind_result (merge_ipc hg hc i m) (merge_ipcs hg hc is')"

definition with_percentiles :: "'h hdr \<Rightarrow> 'h hist_codec \<Rightarrow> 'h OpHists \<Rightarrow> OpAgg \<Rightarrow> OpAgg" where
  "with_percentiles hg hc hs a =
     a\<lparr>p50_us := calculate_percentile hg hc (1 / 2) hs, p95_us := calculate_percentile hg hc (95 / 100) hs,
       p99_us := calculate_percentile hg hc (99 / 100) hs, mean_us := calculate_mean hg hc hs\<rparr>"

definition merge_processes :: "'h hdr \<Rightarrow> 'h hist_codec \<Rightarrow> IpcSummary list \<Rightarrow> string + 'h RunSummary" where
  "merge_processes hg hc ipcs =
     (if ipcs = [] then Inl ''No summaries to merge''
      else bind_result (merge_ipcs hg hc ipcs (merge_start hg (length (ipc_get_hists (hd ipcs))))) (\<lambda>m.
        (let g = with_percentiles hg hc (rm_get_hists m) (rm_get m)
         in Inr (m\<lparr>rm_get := g, rm_put := with_percentiles hg hc (rm_put_hists m) (rm_put m),
                   rm_meta := with_percentiles hg hc (rm_meta_hists m) (rm_meta m),
                   rm_p50 := p50_us g, rm_p95 := p95_us g, rm_p99 := p99_us g,
                   rm_errors := sum_list (map ipc_errors ipcs),
                   rm_error_rate := sum_list (map ipc_error_rate ipcs) / of_nat (length ipcs)\<rparr>))))"

text \<open>A child: what it prints and whether it ends well; the summary is its first line that begins with a brace.\<close>

type_synonym child = "nat \<Rightarrow> Config \<Rightarrow> rust_path option \<Rightarrow> string + string list \<times> bool"

fun spawn_children :: "child \<Rightarrow> Config \<Rightarrow> rust_path option \<Rightarrow> nat list \<Rightarrow> string + (string list \<times> bool) list" where
  "spawn_children spawn cfg op_log [] = Inr []"
| "spawn_children spawn cfg op_log (k # ks) =
     bind_result (spawn k cfg (map_option (\<lambda>base. worker_oplog_path base k) op_log)) (\<lambda>c.
     bind_result (spawn_children spawn cfg op_log ks) (\<lambda>cs. Inr (c # cs)))"

fun collect_children :: "(string \<Rightarrow> IpcSummary option) \<Rightarrow> (string list \<times> bool) list \<Rightarrow> string + IpcSummary list" where
  "collect_children parse [] = Inr []"
| "collect_children parse ((out, ok) # cs) =
     (case filter (\<lambda>l. starts_with l ''{'') out of
        [] \<Rightarrow> Inl ''Child process produced no JSON output''
      | line # _ \<Rightarrow>
          (case parse line of
             None \<Rightarrow> Inl ''Failed to parse JSON from child''
           | Some i \<Rightarrow> if ok then bind_result (collect_children parse cs) (\<lambda>is'. Inr (i # is'))
                      else Inl ''Child process exited with an error''))"

definition run_multiprocess ::
  "'h hdr \<Rightarrow> 'h hist_codec \<Rightarrow> child \<Rightarrow> (string \<Rightarrow> IpcSummary option) \<Rightarrow> (Config \<Rightarrow> string + 'h RunSummary)
    \<Rightarrow> nat \<Rightarrow> ProcessScaling option \<Rightarrow> Config \<Rightarrow> rust_path option \<Rightarrow> string + 'h RunSummary" where
  "run_multiprocess hg hc spawn parse run physical scaling cfg op_log =
     (let n = (case scaling of Some p \<Rightarrow> resolve_scaling physical p | None \<Rightarrow> 1)
      in if n = 1 then run cfg
         else bind_result (spawn_children spawn (cfg\<lparr>concurrency := div_ceil (concurrency cfg) n\<rparr>) op_log [0..<n]) (\<lambda>cs.
              bind_result (collect_children parse cs) (merge_processes hg hc)))"

section \<open>Worker runtimes\<close>

definition worker_share :: "nat \<Rightarrow> nat \<Rightarrow> nat \<Rightarrow> nat" where
  "worker_share total_n n k = (if k < total_n mod n then total_n div n + 1 else total_n div n)"

fun add_hists :: "'h hdr \<Rightarrow> 'h OpHists \<Rightarrow> 'h OpHists \<Rightarrow> string + 'h OpHists" where
  "add_hists hg hs [] = Inr hs"
| "add_hists hg [] (x # xs) = Inl ''index out of bounds''"
| "add_hists hg (h # hs) (x # xs) =
     (case h_add hg h x of
        None \<Rightarrow> Inl ''Failed to merge histogram''
      | Some h' \<Rightarrow> bind_result (add_hists hg hs xs) (\<lambda>hs'. Inr (h' # hs')))"

definition merge_summary :: "'h hdr \<Rightarrow> 'h RunSummary \<Rightarrow> 'h RunSummary \<Rightarrow> string + 'h RunSummary" where
  "merge_summary hg s m =
     bind_result (add_hists hg (rm_get_hists m) (rm_get_hists s)) (\<lambda>g.
     bind_result (add_hists hg (rm_put_hists m) (rm_put_hists s)) (\<lambda>p.
     bind_result (add_hists hg (rm_meta_hists m) (rm_meta_hists s)) (\<lambda>mt.
       Inr (m\<lparr>rm_ops := rm_ops m + rm_ops s, rm_bytes := rm_bytes m + rm_bytes s, rm_wall := max (rm_wall m) (rm_wall s),
              rm_get_hists := g, rm_put_hists := p, rm_meta_hists := mt,
              rm_get := add_agg (rm_get m) (rm_get s), rm_put := add_agg (rm_put m) (rm_put s),
              rm_meta := (rm_meta m)\<lparr>agg_ops := agg_ops (rm_meta m) + agg_ops (rm_meta s)\<rparr>,
              rm_get_bins := bins_merge (rm_get_bins m) (rm_get_bins s),
              rm_put_bins := bins_merge (rm_put_bins m) (rm_put_bins s),
              rm_meta_bins := bins_merge (rm_meta_bins m) (rm_meta_bins s)\<rparr>))))"

fun merge_rest :: "'h hdr \<Rightarrow> 'h RunSummary list \<Rightarrow> 'h RunSummary \<Rightarrow> string + 'h RunSummary" where
  "merge_rest hg [] m = Inr m"
| "merge_rest hg (s # ss) m = bind_result (merge_summary hg s m) (merge_rest hg ss)"

text \<open>The combined histograms of the percentiles hold values up to 60 seconds; adding a larger one fails.\<close>

fun add_chain :: "'h hdr \<Rightarrow> 'h list \<Rightarrow> 'h \<Rightarrow> string + 'h" where
  "add_chain hg [] h = Inr h"
| "add_chain hg (x # xs) h =
     (case h_add hg h x of None \<Rightarrow> Inl ''Failed to merge histograms'' | Some h' \<Rightarrow> add_chain hg xs h')"

definition combine_used :: "'h hdr \<Rightarrow> 'h hist_codec \<Rightarrow> 'h list \<Rightarrow> string + 'h" where
  "combine_used hg hc hs = add_chain hg (filter (\<lambda>h. 0 < hc_len hc h) hs) (h_new hg 1 60000000)"

definition recalculate_op :: "'h hdr \<Rightarrow> 'h hist_codec \<Rightarrow> 'h OpHists \<Rightarrow> OpAgg \<Rightarrow> string + OpAgg" where
  "recalculate_op hg hc hs a =
     (if 0 < agg_ops a
      then bind_result (combine_used hg hc hs) (\<lambda>h.
        Inr (a\<lparr>mean_us := cast_u64 (h_mean hg h), p50_us := h_quantile hg (1 / 2) h, p95_us := h_quantile hg (95 / 100) h,
               p99_us := h_quantile hg (99 / 100) h\<rparr>))
      else Inr a)"

definition recalculate_percentiles :: "'h hdr \<Rightarrow> 'h hist_codec \<Rightarrow> 'h RunSummary \<Rightarrow> string + 'h RunSummary" where
  "recalculate_percentiles hg hc s =
     (let every = rm_get_hists s @ rm_put_hists s @ rm_meta_hists s
      in bind_result
           (if \<exists>h\<in>set every. 0 < hc_len hc h
            then bind_result (combine_used hg hc every) (\<lambda>h.
              Inr (s\<lparr>rm_p50 := h_quantile hg (1 / 2) h, rm_p95 := h_quantile hg (95 / 100) h, rm_p99 := h_quantile hg (99 / 100) h\<rparr>))
            else Inr s) (\<lambda>s1.
         bind_result (recalculate_op hg hc (rm_get_hists s) (rm_get s)) (\<lambda>g.
         bind_result (recalculate_op hg hc (rm_put_hists s) (rm_put s)) (\<lambda>p.
         bind_result (recalculate_op hg hc (rm_meta_hists s) (rm_meta s)) (\<lambda>mt.
           Inr (s1\<lparr>rm_get := g, rm_put := p, rm_meta := mt\<rparr>))))))"

definition merge_runtimes :: "'h hdr \<Rightarrow> 'h hist_codec \<Rightarrow> 'h RunSummary list \<Rightarrow> string + 'h RunSummary" where
  "merge_runtimes hg hc ss =
     (case ss of
        [] \<Rightarrow> Inl ''No summaries to merge''
      | [s] \<Rightarrow> Inr s
      | s # rest \<Rightarrow> bind_result (merge_rest hg rest s) (recalculate_percentiles hg hc))"

text \<open>A thread that fails or panics sends nothing. \<open>arrivals\<close> is the order in which the others deliver.\<close>

definition run_multiruntime ::
  "'h hdr \<Rightarrow> 'h hist_codec \<Rightarrow> (nat \<Rightarrow> Config \<Rightarrow> string + 'h RunSummary) \<Rightarrow> (nat list \<Rightarrow> nat list) \<Rightarrow> Config \<Rightarrow> nat
    \<Rightarrow> string + 'h RunSummary" where
  "run_multiruntime hg hc run arrivals cfg n =
     (if n = 0 then Inl ''Number of workers must be at least 1''
      else if n = 1 then run 0 cfg
      else (let share = worker_share (concurrency cfg) n;
                spawned = filter (\<lambda>k. share k \<noteq> 0) [0..<n];
                result = (\<lambda>k. run k (cfg\<lparr>concurrency := share k\<rparr>));
                received = concat (map (\<lambda>k. case result k of Inr s \<Rightarrow> [s] | Inl _ \<Rightarrow> []) (arrivals spawned))
            in if length received \<noteq> length spawned
               then Inl (''Expected '' @ show_nat (length spawned) @ '' worker results'')
               else merge_runtimes hg hc received))"

section \<open>Merging adds up\<close>

definition has_buckets :: "nat \<Rightarrow> 'h RunSummary \<Rightarrow> bool" where
  "has_buckets n s = (length (rm_get_hists s) = n \<and> length (rm_put_hists s) = n \<and> length (rm_meta_hists s) = n)"

lemma add_hists_nth:
  "add_hists hg hs xs = Inr r \<Longrightarrow> length r = length hs \<and> (\<forall>i<length xs. h_add hg (hs ! i) (xs ! i) = Some (r ! i))"
proof (induction hg hs xs arbitrary: r rule: add_hists.induct)
  case (3 hg h hs x xs)
  obtain h' where h': "h_add hg h x = Some h'" using "3.prems" by (cases "h_add hg h x") auto
  obtain hs' where hs': "add_hists hg hs xs = Inr hs'" "r = h' # hs'"
    using "3.prems" h' by (auto simp: bind_result_Inr_iff)
  show ?case using "3.IH" [OF h' hs'(1)] h' hs'(2) by (auto simp: nth_Cons split: nat.split)
qed auto

lemma merge_hist_vec_adds:
  assumes "\<forall>h. hc_untext hc (hc_text hc h) = Some h"
  shows "merge_hist_vec hg hc hs (map (hc_text hc) xs) = Inr r \<longleftrightarrow> add_hists hg hs xs = Inr r"
proof (induction hg hs xs arbitrary: r rule: add_hists.induct)
  case (3 hg h hs x xs)
  then show ?case using assms by (auto simp: bind_result_Inr_iff split: option.splits)
qed auto

lemma add_agg_facts [simp]:
  "agg_ops (add_agg a b) = agg_ops a + agg_ops b" "agg_bytes (add_agg a b) = agg_bytes a + agg_bytes b"
  by (simp_all add: add_agg_def)

text \<open>One round of either merge: the same sums, and the histograms of each bucket added.\<close>

definition round_ok :: "'h hdr \<Rightarrow> nat \<Rightarrow> 'h RunSummary \<Rightarrow> 'h RunSummary \<Rightarrow> 'h RunSummary \<Rightarrow> bool" where
  "round_ok hg n s m r =
     (has_buckets n r \<and> rm_ops r = rm_ops m + rm_ops s \<and> rm_bytes r = rm_bytes m + rm_bytes s
      \<and> rm_wall r = max (rm_wall m) (rm_wall s)
      \<and> agg_ops (rm_get r) = agg_ops (rm_get m) + agg_ops (rm_get s) \<and> agg_ops (rm_put r) = agg_ops (rm_put m) + agg_ops (rm_put s)
      \<and> bins_ops (rm_get_bins r) = bins_ops (rm_get_bins m) + bins_ops (rm_get_bins s)
      \<and> bins_bytes (rm_get_bins r) = bins_bytes (rm_get_bins m) + bins_bytes (rm_get_bins s)
      \<and> bins_ops (rm_put_bins r) = bins_ops (rm_put_bins m) + bins_ops (rm_put_bins s)
      \<and> bins_bytes (rm_put_bins r) = bins_bytes (rm_put_bins m) + bins_bytes (rm_put_bins s)
      \<and> (\<forall>i<n. h_add hg (rm_get_hists m ! i) (rm_get_hists s ! i) = Some (rm_get_hists r ! i)
             \<and> h_add hg (rm_put_hists m ! i) (rm_put_hists s ! i) = Some (rm_put_hists r ! i)))"

lemma merge_ipc_round:
  assumes "\<forall>h. hc_untext hc (hc_text hc h) = Some h" "has_buckets n m" "has_buckets n s"
    and "merge_ipc hg hc (from_summary hc s) m = Inr r"
  shows "round_ok hg n s m r"
proof -
  obtain g p mt where h: "add_hists hg (rm_get_hists m) (rm_get_hists s) = Inr g"
      "add_hists hg (rm_put_hists m) (rm_put_hists s) = Inr p" "add_hists hg (rm_meta_hists m) (rm_meta_hists s) = Inr mt"
    and r: "rm_get_hists r = g" "rm_put_hists r = p" "rm_meta_hists r = mt" "rm_ops r = rm_ops m + rm_ops s"
      "rm_bytes r = rm_bytes m + rm_bytes s" "rm_wall r = max (rm_wall m) (rm_wall s)"
      "rm_get r = add_agg (rm_get m) (rm_get s)" "rm_put r = add_agg (rm_put m) (rm_put s)"
      "rm_get_bins r = bins_merge (rm_get_bins m) (rm_get_bins s)" "rm_put_bins r = bins_merge (rm_put_bins m) (rm_put_bins s)"
    using assms(4) by (auto simp: merge_ipc_def bind_result_Inr_iff from_summary_def merge_hist_vec_adds [OF assms(1)])
  show ?thesis
    using assms(2,3) add_hists_nth [OF h(1)] add_hists_nth [OF h(2)] add_hists_nth [OF h(3)]
    by (simp add: round_ok_def has_buckets_def r)
qed

lemma merge_summary_round:
  assumes "has_buckets n m" "has_buckets n s" "merge_summary hg s m = Inr r"
  shows "round_ok hg n s m r \<and> rm_errors r = rm_errors m"
proof -
  obtain g p mt where h: "add_hists hg (rm_get_hists m) (rm_get_hists s) = Inr g"
      "add_hists hg (rm_put_hists m) (rm_put_hists s) = Inr p" "add_hists hg (rm_meta_hists m) (rm_meta_hists s) = Inr mt"
    and r: "rm_get_hists r = g" "rm_put_hists r = p" "rm_meta_hists r = mt" "rm_ops r = rm_ops m + rm_ops s"
      "rm_bytes r = rm_bytes m + rm_bytes s" "rm_wall r = max (rm_wall m) (rm_wall s)"
      "rm_get r = add_agg (rm_get m) (rm_get s)" "rm_put r = add_agg (rm_put m) (rm_put s)"
      "rm_get_bins r = bins_merge (rm_get_bins m) (rm_get_bins s)" "rm_put_bins r = bins_merge (rm_put_bins m) (rm_put_bins s)"
      "rm_errors r = rm_errors m"
    using assms(3) by (auto simp: merge_summary_def bind_result_Inr_iff)
  show ?thesis
    using assms(1,2) add_hists_nth [OF h(1)] add_hists_nth [OF h(2)] add_hists_nth [OF h(3)]
    by (simp add: round_ok_def has_buckets_def r)
qed

text \<open>Several rounds.\<close>

inductive rounds :: "'h hdr \<Rightarrow> nat \<Rightarrow> 'h RunSummary list \<Rightarrow> 'h RunSummary \<Rightarrow> 'h RunSummary \<Rightarrow> bool" for hg n where
  none: "rounds hg n [] m m"
| more_rounds: "round_ok hg n s m r \<Longrightarrow> rounds hg n ss r r' \<Longrightarrow> rounds hg n (s # ss) m r'"

inductive_cases rounds_ConsE: "rounds hg n (s # ss) m r"

lemma rounds_sums:
  "rounds hg n ss m r \<Longrightarrow>
     rm_ops r = rm_ops m + sum_list (map rm_ops ss) \<and> rm_bytes r = rm_bytes m + sum_list (map rm_bytes ss)
     \<and> agg_ops (rm_get r) = agg_ops (rm_get m) + sum_list (map (\<lambda>s. agg_ops (rm_get s)) ss)
     \<and> agg_ops (rm_put r) = agg_ops (rm_put m) + sum_list (map (\<lambda>s. agg_ops (rm_put s)) ss)
     \<and> bins_ops (rm_get_bins r) = bins_ops (rm_get_bins m) + sum_list (map (\<lambda>s. bins_ops (rm_get_bins s)) ss)
     \<and> bins_bytes (rm_get_bins r) = bins_bytes (rm_get_bins m) + sum_list (map (\<lambda>s. bins_bytes (rm_get_bins s)) ss)
     \<and> bins_ops (rm_put_bins r) = bins_ops (rm_put_bins m) + sum_list (map (\<lambda>s. bins_ops (rm_put_bins s)) ss)
     \<and> bins_bytes (rm_put_bins r) = bins_bytes (rm_put_bins m) + sum_list (map (\<lambda>s. bins_bytes (rm_put_bins s)) ss)"
  by (induction rule: rounds.induct) (simp_all add: round_ok_def)

lemma rounds_wall: "rounds hg n ss m r \<Longrightarrow> rm_wall r = fold max (map rm_wall ss) (rm_wall m)"
  by (induction rule: rounds.induct) (simp_all add: round_ok_def max.commute)

lemma rounds_hists:
  "rounds hg n ss m r \<Longrightarrow> i < n \<Longrightarrow>
     add_chain hg (map (\<lambda>s. rm_get_hists s ! i) ss) (rm_get_hists m ! i) = Inr (rm_get_hists r ! i)
     \<and> add_chain hg (map (\<lambda>s. rm_put_hists s ! i) ss) (rm_put_hists m ! i) = Inr (rm_put_hists r ! i)"
  by (induction rule: rounds.induct) (simp_all add: round_ok_def)

lemma merge_ipcs_rounds:
  assumes "\<forall>h. hc_untext hc (hc_text hc h) = Some h"
  shows "merge_ipcs hg hc (map (from_summary hc) ss) m = Inr r \<Longrightarrow> has_buckets n m \<Longrightarrow> \<forall>s\<in>set ss. has_buckets n s
    \<Longrightarrow> rounds hg n ss m r"
proof (induction ss arbitrary: m)
  case Nil
  then show ?case by (simp add: rounds.none)
next
  case (Cons s ss)
  obtain m1 where m1: "merge_ipc hg hc (from_summary hc s) m = Inr m1" "merge_ipcs hg hc (map (from_summary hc) ss) m1 = Inr r"
    using Cons.prems(1) by (auto simp: bind_result_Inr_iff)
  have "round_ok hg n s m m1" using merge_ipc_round [OF assms] Cons.prems m1(1) by simp
  moreover from this have "has_buckets n m1" by (simp add: round_ok_def)
  ultimately show ?case using Cons.IH [OF m1(2)] Cons.prems(3) rounds.more_rounds by simp
qed

lemma merge_rest_rounds:
  "merge_rest hg ss m = Inr r \<Longrightarrow> has_buckets n m \<Longrightarrow> \<forall>s\<in>set ss. has_buckets n s
    \<Longrightarrow> rounds hg n ss m r \<and> rm_errors r = rm_errors m \<and> has_buckets n r"
proof (induction ss arbitrary: m)
  case Nil
  then show ?case by (simp add: rounds.none)
next
  case (Cons s ss)
  obtain m1 where m1: "merge_summary hg s m = Inr m1" "merge_rest hg ss m1 = Inr r"
    using Cons.prems(1) by (auto simp: bind_result_Inr_iff)
  have s: "round_ok hg n s m m1 \<and> rm_errors m1 = rm_errors m" using merge_summary_round [of n m s hg m1] Cons.prems m1(1) by simp
  then have "has_buckets n m1" by (simp add: round_ok_def)
  then have "rounds hg n ss m1 r \<and> rm_errors r = rm_errors m1 \<and> has_buckets n r"
    using Cons.IH [OF m1(2)] Cons.prems(3) by simp
  then show ?case using s rounds.more_rounds [of hg n s m m1 ss r] by simp
qed

lemma merge_start_facts [simp]:
  "has_buckets n (merge_start hg n)" "rm_ops (merge_start hg n) = 0" "rm_bytes (merge_start hg n) = 0"
  "rm_wall (merge_start hg n) = 0" "agg_ops (rm_get (merge_start hg n)) = 0" "agg_ops (rm_put (merge_start hg n)) = 0"
  "rm_get_bins (merge_start hg n) = []" "rm_put_bins (merge_start hg n) = []"
  "rm_get_hists (merge_start hg n) = replicate n (h_new hg 1 3600000000)"
  "rm_put_hists (merge_start hg n) = replicate n (h_new hg 1 3600000000)"
  by (simp_all add: merge_start_def has_buckets_def create_empty_ophists_def OpAgg_default_def)

text \<open>
  What the parent process reports is the sum of its children. If every child sends a summary with as
  many buckets as the first and the text of a histogram reads back, a merge that succeeds adds the
  operations, the bytes, the errors and the size bins of the children, takes the longest wall time, holds
  in every bucket the chained addition of the children's histograms, and reports for each percentile of
  GET that of the first bucket that has any value, which it also reports as the percentile of the run.
\<close>

lemma process_merge_adds_up:
  assumes codec: "\<forall>h. hc_untext hc (hc_text hc h) = Some h" and buckets: "\<forall>s\<in>set ss. has_buckets n s"
    and merged: "merge_processes hg hc (map (from_summary hc) ss) = Inr r"
  shows "ss \<noteq> [] \<and> rm_ops r = sum_list (map rm_ops ss) \<and> rm_bytes r = sum_list (map rm_bytes ss)
    \<and> rm_errors r = sum_list (map rm_errors ss) \<and> rm_wall r = fold max (map rm_wall ss) 0
    \<and> agg_ops (rm_get r) = sum_list (map (\<lambda>s. agg_ops (rm_get s)) ss)
    \<and> agg_ops (rm_put r) = sum_list (map (\<lambda>s. agg_ops (rm_put s)) ss)
    \<and> bins_ops (rm_get_bins r) = sum_list (map (\<lambda>s. bins_ops (rm_get_bins s)) ss)
    \<and> bins_bytes (rm_put_bins r) = sum_list (map (\<lambda>s. bins_bytes (rm_put_bins s)) ss)
    \<and> (\<forall>i. i < n \<longrightarrow> add_chain hg (map (\<lambda>s. rm_get_hists s ! i) ss) (h_new hg 1 3600000000) = Inr (rm_get_hists r ! i)
                 \<and> add_chain hg (map (\<lambda>s. rm_put_hists s ! i) ss) (h_new hg 1 3600000000) = Inr (rm_put_hists r ! i))
    \<and> p50_us (rm_get r) = calculate_percentile hg hc (1 / 2) (rm_get_hists r) \<and> rm_p50 r = p50_us (rm_get r)
    \<and> rm_p99 r = calculate_percentile hg hc (99 / 100) (rm_get_hists r)"
proof -
  have ne: "ss \<noteq> []" using merged by (auto simp: merge_processes_def)
  then have n: "length (ipc_get_hists (List.hd (map (from_summary hc) ss))) = n"
    using buckets by (cases ss) (simp_all add: from_summary_def has_buckets_def)
  obtain m where m: "merge_ipcs hg hc (map (from_summary hc) ss) (merge_start hg n) = Inr m"
    and r: "r = m\<lparr>rm_get := with_percentiles hg hc (rm_get_hists m) (rm_get m),
                   rm_put := with_percentiles hg hc (rm_put_hists m) (rm_put m),
                   rm_meta := with_percentiles hg hc (rm_meta_hists m) (rm_meta m),
                   rm_p50 := p50_us (with_percentiles hg hc (rm_get_hists m) (rm_get m)),
                   rm_p95 := p95_us (with_percentiles hg hc (rm_get_hists m) (rm_get m)),
                   rm_p99 := p99_us (with_percentiles hg hc (rm_get_hists m) (rm_get m)),
                   rm_errors := sum_list (map ipc_errors (map (from_summary hc) ss)),
                   rm_error_rate := sum_list (map ipc_error_rate (map (from_summary hc) ss)) / of_nat (length (map (from_summary hc) ss))\<rparr>"
    using merged n ne by (auto simp: merge_processes_def bind_result_Inr_iff Let_def)
  have run: "rounds hg n ss (merge_start hg n) m"
    by (rule merge_ipcs_rounds [OF codec m _ buckets]) simp
  have err: "map ipc_errors (map (from_summary hc) ss) = map rm_errors ss" by (simp add: from_summary_def)
  show ?thesis
    using ne rounds_sums [OF run] rounds_wall [OF run] rounds_hists [OF run] unfolding r err
    by (simp add: with_percentiles_def bins_ops_def bins_bytes_def)
qed

text \<open>A histogram that is the text of its values: a value is the code of a character.\<close>

definition text_hist :: "string hdr" where
  "text_hist =
     \<lparr> h_new = (\<lambda>lo hi. ''''), h_record = (\<lambda>v h. Some (h @ [char_of v])), h_add = (\<lambda>a b. Some (a @ b)),
       h_mean = (\<lambda>h. if h = [] then 0 else of_nat (sum_list (map of_char h)) / of_nat (length h)),
       h_quantile = (\<lambda>q h. if h = [] then 0 else of_char (h ! nat \<lfloor>q * of_nat (length h - 1)\<rfloor>)) \<rparr>"

definition text_hist_codec :: "string hist_codec" where
  "text_hist_codec = \<lparr> hc_len = length, hc_max = (\<lambda>h. 0), hc_text = (\<lambda>h. h), hc_untext = Some \<rparr>"

definition sample_child :: "nat \<Rightarrow> string \<Rightarrow> string RunSummary" where
  "sample_child k h =
     (merge_start text_hist 1)\<lparr>rm_wall := of_nat k, rm_bytes := 10 * k, rm_ops := k, rm_errors := 1,
       rm_get := OpAgg_default\<lparr>agg_ops := k, agg_bytes := 10 * k\<rparr>, rm_get_hists := [h]\<rparr>"

lemma process_merge_adds_up_witness:
  "\<exists>r. merge_processes text_hist text_hist_codec (map (from_summary text_hist_codec) [sample_child 2 ''ab'', sample_child 3 ''xyz'']) = Inr r
     \<and> rm_ops r = 5 \<and> rm_bytes r = 50 \<and> rm_errors r = 2 \<and> rm_p50 r = p50_us (rm_get r)"
proof -
  let ?ss = "[sample_child 2 ''ab'', sample_child 3 ''xyz'']"
  have "\<exists>r. merge_processes text_hist text_hist_codec (map (from_summary text_hist_codec) ?ss) = Inr r"
    by (simp add: merge_processes_def merge_ipc_def from_summary_def sample_child_def merge_start_def create_empty_ophists_def
        text_hist_def text_hist_codec_def bind_result_def Let_def)
  then obtain r where r: "merge_processes text_hist text_hist_codec (map (from_summary text_hist_codec) ?ss) = Inr r" by blast
  have "\<forall>h. hc_untext text_hist_codec (hc_text text_hist_codec h) = Some h" by (simp add: text_hist_codec_def)
  moreover have "\<forall>s\<in>set ?ss. has_buckets 1 s"
    by (simp add: sample_child_def has_buckets_def merge_start_def create_empty_ophists_def)
  ultimately show ?thesis using process_merge_adds_up [OF _ _ r, of 1] r
    by (auto simp: sample_child_def)
qed

section \<open>What the runtimes report\<close>

lemma sum_with_remainder: "sum_list (map (\<lambda>k. if k < m then q + 1 else q) [0..<n]) = n * q + min m n" for q :: nat
  by (induction n) auto

lemma shares_add_up:
  assumes "0 < n" shows "sum_list (map (worker_share c n) [0..<n]) = c"
proof -
  have "worker_share c n = (\<lambda>k. if k < c mod n then c div n + 1 else c div n)" by (auto simp: worker_share_def)
  then have "sum_list (map (worker_share c n) [0..<n]) = n * (c div n) + min (c mod n) n"
    using sum_with_remainder by simp
  then show ?thesis using assms by (simp add: min_absorb1 less_imp_le)
qed

lemma processes_overshoot: "concurrency cfg \<le> n * div_ceil (concurrency cfg) n"
  if "0 < n" using div_ceil_mult_ge [of n "concurrency cfg"] that by (simp add: mult.commute)

lemma recalculate_keeps:
  assumes "recalculate_percentiles hg hc s = Inr r"
  shows "rm_ops r = rm_ops s \<and> rm_bytes r = rm_bytes s \<and> rm_errors r = rm_errors s \<and> rm_wall r = rm_wall s
    \<and> rm_error_rate r = rm_error_rate s"
  using assms by (auto simp: recalculate_percentiles_def bind_result_Inr_iff Let_def split: if_splits)

text \<open>The errors are those of the worker that delivered first, whatever the others counted.\<close>

lemma merge_runtimes_adds_up:
  assumes "merge_runtimes hg hc (s # ss) = Inr r" "\<forall>x\<in>set (s # ss). has_buckets n x"
  shows "rm_ops r = sum_list (map rm_ops (s # ss)) \<and> rm_bytes r = sum_list (map rm_bytes (s # ss))
    \<and> rm_errors r = rm_errors s"
proof (cases ss)
  case Nil
  then show ?thesis using assms(1) by (simp add: merge_runtimes_def)
next
  case (Cons t ts)
  then obtain m where m: "merge_rest hg ss s = Inr m" "recalculate_percentiles hg hc m = Inr r"
    using assms(1) by (auto simp: merge_runtimes_def bind_result_Inr_iff)
  have "rounds hg n ss s m \<and> rm_errors m = rm_errors s"
    using merge_rest_rounds [OF m(1), of n] assms(2) by simp
  then show ?thesis using rounds_sums [of hg n ss s m] recalculate_keeps [OF m(2)] by simp
qed

lemma sum_list_perm:
  fixes h :: "'a \<Rightarrow> nat"
  assumes "mset xs = mset ys" shows "sum_list (map h xs) = sum_list (map h ys)"
proof -
  have "sum_mset (mset (map h xs)) = sum_mset (mset (map h ys))" using assms by simp
  then show ?thesis unfolding sum_mset_sum_list .
qed

lemma received_all:
  "length (concat (map (\<lambda>k. case f k of Inr s \<Rightarrow> [s] | Inl _ \<Rightarrow> []) ks)) = length ks
   \<Longrightarrow> \<exists>g. (\<forall>k\<in>set ks. f k = Inr (g k)) \<and> concat (map (\<lambda>k. case f k of Inr s \<Rightarrow> [s] | Inl _ \<Rightarrow> []) ks) = map g ks"
proof -
  have le: "length (concat (map (\<lambda>k. case f k of Inr s \<Rightarrow> [s] | Inl _ \<Rightarrow> []) ks)) \<le> length ks" for ks
    by (induction ks) (auto split: sum.splits)
  assume len: "length (concat (map (\<lambda>k. case f k of Inr s \<Rightarrow> [s] | Inl _ \<Rightarrow> []) ks)) = length ks"
  have "\<forall>k\<in>set ks. f k = Inr (projr (f k))" using len
  proof (induction ks)
    case (Cons k ks)
    show ?case
    proof (cases "f k")
      case (Inl e)
      then show ?thesis using Cons.prems le [of ks] by simp
    next
      case (Inr s)
      then show ?thesis using Cons by simp
    qed
  qed simp
  moreover from this have "concat (map (\<lambda>k. case f k of Inr s \<Rightarrow> [s] | Inl _ \<Rightarrow> []) ks) = map (\<lambda>k. projr (f k)) ks"
    by (induction ks) (auto split: sum.splits)
  ultimately show ?thesis by (intro exI [of _ "\<lambda>k. projr (f k)"]) simp
qed

text \<open>
  C29: Runtimes that run in threads divide the concurrency exactly, and a run that succeeds reports every
  worker: its operations and bytes are the sums over all workers that were given a share, in whatever order
  they delivered. Its error count is that of the worker that delivered first only.
\<close>

theorem runtimes_report_every_worker:
  assumes ran: "run_multiruntime hg hc run arrivals cfg n = Inr r" and many: "1 < n"
    and order: "\<forall>ks. mset (arrivals ks) = mset ks"
    and buckets: "\<forall>k c s. run k c = Inr s \<longrightarrow> has_buckets b s"
  shows "sum_list (map (worker_share (concurrency cfg) n) [0..<n]) = concurrency cfg
    \<and> (\<exists>g. (\<forall>k<n. worker_share (concurrency cfg) n k \<noteq> 0 \<longrightarrow>
                  run k (cfg\<lparr>concurrency := worker_share (concurrency cfg) n k\<rparr>) = Inr (g k))
         \<and> rm_ops r = (\<Sum>k\<leftarrow>filter (\<lambda>k. worker_share (concurrency cfg) n k \<noteq> 0) [0..<n]. rm_ops (g k))
         \<and> rm_bytes r = (\<Sum>k\<leftarrow>filter (\<lambda>k. worker_share (concurrency cfg) n k \<noteq> 0) [0..<n]. rm_bytes (g k))
         \<and> rm_errors r = rm_errors (g (List.hd (arrivals (filter (\<lambda>k. worker_share (concurrency cfg) n k \<noteq> 0) [0..<n])))))"
proof (intro conjI)
  show "sum_list (map (worker_share (concurrency cfg) n) [0..<n]) = concurrency cfg" using shares_add_up many by simp
next
  let ?sh = "worker_share (concurrency cfg) n"
  let ?sp = "filter (\<lambda>k. ?sh k \<noteq> 0) [0..<n]"
  let ?f = "\<lambda>k. run k (cfg\<lparr>concurrency := ?sh k\<rparr>)"
  let ?rcv = "concat (map (\<lambda>k. case ?f k of Inr s \<Rightarrow> [s] | Inl _ \<Rightarrow> []) (arrivals ?sp))"
  have len: "length ?rcv = length ?sp" and m: "merge_runtimes hg hc ?rcv = Inr r"
    using ran many by (auto simp: run_multiruntime_def Let_def split: if_splits)
  have arr: "mset (arrivals ?sp) = mset ?sp" using order by blast
  then have "length ?rcv = length (arrivals ?sp)" using len mset_eq_length by metis
  then obtain g where g: "\<forall>k\<in>set (arrivals ?sp). ?f k = Inr (g k)" "?rcv = map g (arrivals ?sp)"
    using received_all [where f = ?f and ks = "arrivals ?sp"] by blast
  have ne: "arrivals ?sp \<noteq> []" using m g(2) by (auto simp: merge_runtimes_def)
  then obtain a as where a: "arrivals ?sp = a # as" by (cases "arrivals ?sp") auto
  have b: "\<forall>x\<in>set (g a # map g as). has_buckets b x" using g(1) buckets a by auto
  have "merge_runtimes hg hc (g a # map g as) = Inr r" using m g(2) a by simp
  note all = merge_runtimes_adds_up [OF this b]
  have perm: "sum_list (map h (arrivals ?sp)) = sum_list (map h ?sp)" for h :: "nat \<Rightarrow> nat"
    using sum_list_perm [OF arr] .
  have "set (arrivals ?sp) = set ?sp" using arr mset_eq_setD by blast
  then have "\<forall>k<n. ?sh k \<noteq> 0 \<longrightarrow> ?f k = Inr (g k)" using g(1) by auto
  moreover have "rm_ops r = (\<Sum>k\<leftarrow>?sp. rm_ops (g k))" using all perm [of "\<lambda>k. rm_ops (g k)"] a by (simp add: comp_def)
  moreover have "rm_bytes r = (\<Sum>k\<leftarrow>?sp. rm_bytes (g k))" using all perm [of "\<lambda>k. rm_bytes (g k)"] a by (simp add: comp_def)
  moreover have "rm_errors r = rm_errors (g (List.hd (arrivals ?sp)))" using all a by simp
  ultimately show "\<exists>g. (\<forall>k<n. ?sh k \<noteq> 0 \<longrightarrow> ?f k = Inr (g k)) \<and> rm_ops r = (\<Sum>k\<leftarrow>?sp. rm_ops (g k))
      \<and> rm_bytes r = (\<Sum>k\<leftarrow>?sp. rm_bytes (g k)) \<and> rm_errors r = rm_errors (g (List.hd (arrivals ?sp)))"
    by blast
qed

text \<open>Three threads for a concurrency of four; the last is the first to deliver.\<close>

lemma runtimes_report_every_worker_witness:
  "\<exists>r. run_multiruntime text_hist text_hist_codec (\<lambda>k c. Inr (sample_child (k + concurrency c) ''x'')) rev list_workload 3 = Inr r
     \<and> rm_ops r = 7"
proof -
  let ?run = "\<lambda>k c. Inr (sample_child (k + concurrency c) ''x'')"
  have shares: "filter (\<lambda>k. 0 < worker_share 4 3 k) [0..<3] = [0, 1, 2]" by (simp add: worker_share_def upt_rec)
  have each: "worker_share 4 3 0 = 2" "worker_share 4 3 (Suc 0) = 1" "worker_share 4 3 2 = 1" by (simp_all add: worker_share_def)
  have "\<exists>r. run_multiruntime text_hist text_hist_codec ?run rev list_workload 3 = Inr r"
    by (simp add: run_multiruntime_def shares Let_def merge_runtimes_def merge_summary_def sample_child_def merge_start_def
        create_empty_ophists_def text_hist_def text_hist_codec_def bind_result_def recalculate_percentiles_def recalculate_op_def
        combine_used_def add_agg_def OpAgg_default_def each)
  then obtain r where r: "run_multiruntime text_hist text_hist_codec ?run rev list_workload 3 = Inr r" by blast
  have "\<forall>k c s. ?run k c = Inr s \<longrightarrow> has_buckets 1 s"
    by (simp add: sample_child_def has_buckets_def merge_start_def create_empty_ophists_def)
  then obtain g where g: "\<forall>k<3. worker_share 4 3 k \<noteq> 0 \<longrightarrow> ?run k (list_workload\<lparr>concurrency := worker_share 4 3 k\<rparr>) = Inr (g k)"
      "rm_ops r = (\<Sum>k\<leftarrow>[0, 1, 2]. rm_ops (g k))"
    using runtimes_report_every_worker [OF r, of 1] by (auto simp: shares)
  have "g 0 = sample_child 2 ''x''" using g(1) [rule_format, of 0] by (simp add: each numeral_2_eq_2)
  moreover have "g 1 = sample_child 2 ''x''" using g(1) [rule_format, of 1] by (simp add: each numeral_2_eq_2)
  moreover have "g 2 = sample_child 3 ''x''" using g(1) [rule_format, of 2] by (simp add: each)
  ultimately show ?thesis using g(2) r by (auto simp: sample_child_def)
qed

end
