(* ===== verification/Result_Tables.thy ===== *)
theory Result_Tables
  imports Perf_Log Multi_Worker Controller
begin

text \<open>
  The results an agent sends and the tables made from them: the messages (\<open>src/bin/agent.rs\<close>), the table of
  one process (\<open>src/tsv_export.rs\<close>), and the tables the controller writes about all agents, for a run, for
  the prepare phase, for each stage and for each endpoint (\<open>src/bin/controller.rs\<close>), and the ledger of
  populated objects (\<open>src/populate_ledger.rs\<close>).

  Tables are texts; whether a file can be written is the concern of \<open>Result_Files\<close>. Floating-point
  quotients are exact, and a division by a wall time of zero is infinite or not a number. The histogram
  library and its binary form are arguments.
\<close>

section \<open>Messages\<close>

record SizeBucketData =
  sb_idx :: nat
  sb_ops :: nat
  sb_bytes :: nat

type_synonym ProtoSizeBins = "SizeBucketData list"

record WorkloadReport = WorkloadSummary +
  wr_wall :: rat
  wr_bytes :: nat
  wr_get :: "OpAgg option"
  wr_put :: "OpAgg option"
  wr_meta :: "OpAgg option"
  wr_p50 :: nat
  wr_p95 :: nat
  wr_p99 :: nat
  wr_console_log :: string
  wr_metadata_json :: string
  wr_tsv :: string
  wr_results_path :: string
  wr_op_log_path :: string
  wr_hist_get :: "nat list"
  wr_hist_put :: "nat list"
  wr_hist_meta :: "nat list"
  wr_get_bins :: "ProtoSizeBins option"
  wr_put_bins :: "ProtoSizeBins option"
  wr_meta_bins :: "ProtoSizeBins option"
  wr_endpoints :: "EndpointStatsSnapshot list"

record PrepareReport = PrepareSummary +
  pr_wall :: rat
  pr_put :: "OpAgg option"
  pr_mkdir :: "OpAgg option"
  pr_mkdir_count :: nat
  pr_hist_put :: "nat list"
  pr_tsv :: string
  pr_results_path :: string
  pr_put_bins :: "ProtoSizeBins option"
  pr_endpoints :: "EndpointStatsSnapshot list"

record StageReport = StageSummary +
  sr_type :: string
  sr_wall :: rat
  sr_get_ops :: nat
  sr_get_bytes :: nat
  sr_put_ops :: nat
  sr_put_bytes :: nat
  sr_meta_ops :: nat
  sr_errors :: nat
  sr_hist_get :: "nat list"
  sr_hist_put :: "nat list"
  sr_hist_meta :: "nat list"
  sr_get_bins :: "ProtoSizeBins option"
  sr_put_bins :: "ProtoSizeBins option"
  sr_meta_bins :: "ProtoSizeBins option"

text \<open>Size bins: a bucket number of 32 bits on the wire; the last entry of a bucket wins on arrival.\<close>

definition size_bins_to_proto :: "SizeBins \<Rightarrow> ProtoSizeBins" where
  "size_bins_to_proto bins = map (\<lambda>(i, (ops, bytes)). \<lparr> sb_idx = i mod 2 ^ 32, sb_ops = ops, sb_bytes = bytes \<rparr>) bins"

definition proto_to_size_bins :: "ProtoSizeBins \<Rightarrow> SizeBins" where
  "proto_to_size_bins bs = foldl (\<lambda>m b. hput (sb_idx b) (sb_ops b, sb_bytes b) m) [] bs"

definition merge_size_bins :: "SizeBins list \<Rightarrow> SizeBins" where
  "merge_size_bins bins_list = foldl bins_merge [] bins_list"

definition endpoint_stats_to_proto :: "EndpointStatsSnapshot list option \<Rightarrow> EndpointStatsSnapshot list" where
  "endpoint_stats_to_proto eps = (case eps of None \<Rightarrow> [] | Some ss \<Rightarrow> ss)"

text \<open>A histogram as bytes, and reading one from the front of the rest of a message.\<close>

record 'h hist_wire =
  hw_write :: "'h \<Rightarrow> nat list"
  hw_read :: "nat list \<Rightarrow> 'h option \<times> nat list"

definition serialize_ophists :: "'h hist_wire \<Rightarrow> 'h OpHists \<Rightarrow> nat list" where
  "serialize_ophists hw hs = concat (map (hw_write hw) hs)"

section \<open>Rows\<close>

definition BUCKET_LABELS :: "string list" where
  "BUCKET_LABELS =
     [''zero'', ''1B-8KiB'', ''8KiB-64KiB'', ''64KiB-512KiB'', ''512KiB-4MiB'', ''4MiB-32MiB'', ''32MiB-256MiB'',
      ''256MiB-2GiB'', ''>2GiB'']"

definition TABLE_HEADER :: string where
  "TABLE_HEADER = join_with [tab]
     [''operation'', ''size_bucket'', ''bucket_idx'', ''mean_us'', ''p50_us'', ''p90_us'', ''p95_us'', ''p99_us'',
      ''max_us'', ''avg_bytes'', ''ops_per_sec'', ''throughput_mibps'', ''count'']"

fun text_f64 :: "nat \<Rightarrow> f64 \<Rightarrow> string" where
  "text_f64 k (Fin x) = (if k = 0 then show_nat (round_half_even x) else show_fixed k x)"
| "text_f64 k Infinite = ''inf''"
| "text_f64 k NaN = ''NaN''"

definition bin_of :: "nat \<Rightarrow> SizeBins \<Rightarrow> nat \<times> nat" where
  "bin_of i bins = (case hget bins i of Some e \<Rightarrow> e | None \<Rightarrow> (0, 0))"

definition avg_of :: "nat \<Rightarrow> nat \<Rightarrow> rat" where
  "avg_of bytes ops = (if 0 < ops then of_nat bytes / of_nat ops else 0)"

definition mibps :: "nat \<Rightarrow> rat \<Rightarrow> f64" where
  "mibps bytes wall = div_f64 (Fin (of_nat bytes / 1048576)) (Fin wall)"

definition latency_cells :: "'h hdr \<Rightarrow> 'h hist_codec \<Rightarrow> 'h \<Rightarrow> string list" where
  "latency_cells hg hc h =
     map (\<lambda>x. text_f64 2 (Fin x))
       [h_mean hg h, of_nat (h_quantile hg (50 / 100) h), of_nat (h_quantile hg (90 / 100) h), of_nat (h_quantile hg (95 / 100) h),
        of_nat (h_quantile hg (99 / 100) h), of_nat (hc_max hc h)]"

definition result_row :: "'h hdr \<Rightarrow> 'h hist_codec \<Rightarrow> string \<Rightarrow> string \<Rightarrow> nat \<Rightarrow> 'h \<Rightarrow> nat \<times> nat \<Rightarrow> rat \<Rightarrow> string" where
  "result_row hg hc opn label idx h e wall =
     join_with [tab]
       ([opn, label, show_nat idx] @ latency_cells hg hc h
        @ [text_f64 0 (Fin (avg_of (snd e) (fst e))), text_f64 2 (div_f64 (Fin (of_nat (hc_len hc h))) (Fin wall)),
           text_f64 2 (mibps (snd e) wall), show_nat (hc_len hc h)])"

type_synonym rows = "(nat \<times> string) list"

definition table_text :: "string list \<Rightarrow> string" where
  "table_text ls = concat (map (\<lambda>l. l @ [CHR 0x0A]) ls)"

definition sorted_table :: "rows \<Rightarrow> string" where
  "sorted_table rs = table_text (TABLE_HEADER # map snd (sort_key fst rs))"

section \<open>The table of one process\<close>

text \<open>Reading a bucket that a value does not have is a panic.\<close>

definition collect_op_buckets ::
  "'h hdr \<Rightarrow> 'h hist_codec \<Rightarrow> string \<Rightarrow> 'h OpHists \<Rightarrow> SizeBins \<Rightarrow> rat \<Rightarrow> string + rows" where
  "collect_op_buckets hg hc opn hs bins wall =
     (if length hs < NUM_BUCKETS then Inl ''index out of bounds''
      else Inr (concat (map (\<lambda>i. let h = hs ! i in
             if hc_len hc h = 0 then [] else [(i, result_row hg hc opn (BUCKET_LABELS ! i) i h (bin_of i bins) wall)])
           [0..<NUM_BUCKETS])))"

definition all_bins :: "SizeBins \<Rightarrow> nat \<times> nat" where
  "all_bins bins = foldl (\<lambda>(o1, b1) (_, (ops, bytes)). (o1 + ops, b1 + bytes)) (0, 0) bins"

definition export_aggregate_row ::
  "'h hdr \<Rightarrow> 'h hist_codec \<Rightarrow> string \<Rightarrow> nat \<Rightarrow> 'h OpHists \<Rightarrow> SizeBins \<Rightarrow> rat \<Rightarrow> rows" where
  "export_aggregate_row hg hc opn idx hs bins wall =
     (let h = combined_histogram hg hs
      in if hc_len hc h = 0 then [] else [(idx, result_row hg hc opn ''ALL'' idx h (all_bins bins) wall)])"

definition export_results :: "'h hdr \<Rightarrow> 'h hist_codec \<Rightarrow> 'h RunSummary \<Rightarrow> string + string" where
  "export_results hg hc s =
     bind_result (collect_op_buckets hg hc ''GET'' (rm_get_hists s) (rm_get_bins s) (rm_wall s)) (\<lambda>g.
     bind_result (collect_op_buckets hg hc ''PUT'' (rm_put_hists s) (rm_put_bins s) (rm_wall s)) (\<lambda>p.
     bind_result (collect_op_buckets hg hc ''META'' (rm_meta_hists s) (rm_meta_bins s) (rm_wall s)) (\<lambda>m.
       Inr (sorted_table
         (g @ p @ m @ export_aggregate_row hg hc ''META'' 97 (rm_meta_hists s) (rm_meta_bins s) (rm_wall s)
          @ export_aggregate_row hg hc ''GET'' 98 (rm_get_hists s) (rm_get_bins s) (rm_wall s)
          @ export_aggregate_row hg hc ''PUT'' 99 (rm_put_hists s) (rm_put_bins s) (rm_wall s))))))"

definition export_prepare_metrics :: "'h hdr \<Rightarrow> 'h hist_codec \<Rightarrow> 'h OpHists \<Rightarrow> SizeBins \<Rightarrow> rat \<Rightarrow> string + string" where
  "export_prepare_metrics hg hc hs bins wall =
     bind_result (collect_op_buckets hg hc ''PUT'' hs bins wall) (\<lambda>p.
       Inr (sorted_table (p @ export_aggregate_row hg hc ''PUT'' 99 hs bins wall)))"

definition share_percent :: "nat \<Rightarrow> nat \<Rightarrow> rat" where
  "share_percent part whole = (if 0 < whole then of_nat part / of_nat whole * 100 else 0)"

definition ENDPOINT_HEADER :: string where
  "ENDPOINT_HEADER = join_with [tab]
     [''endpoint_idx'', ''endpoint_uri'', ''total_requests'', ''bytes_read'', ''bytes_written'', ''error_count'',
      ''active_requests'', ''request_pct'', ''read_pct'', ''write_pct'']"

definition export_endpoint_stats :: "EndpointStatsSnapshot list \<Rightarrow> string" where
  "export_endpoint_stats eps =
     (let reqs = sum_list (map ep_requests eps); reads = sum_list (map ep_read eps); writes = sum_list (map ep_written eps)
      in table_text (ENDPOINT_HEADER # map (\<lambda>(k, e). join_with [tab]
           [show_nat (k + 1), ep_uri e, show_nat (ep_requests e), show_nat (ep_read e), show_nat (ep_written e),
            show_nat (ep_errors e), show_nat (ep_active e), show_fixed 2 (share_percent (ep_requests e) reqs),
            show_fixed 2 (share_percent (ep_read e) reads), show_fixed 2 (share_percent (ep_written e) writes)])
         (zip [0..<length eps] eps)))"

section \<open>The messages of an agent\<close>

definition op_metrics :: "OpAgg \<Rightarrow> OpAgg option" where "op_metrics a = Some a"

text \<open>
  \<open>created\<close> is what the agent's results directory gives: an error, or the metadata file as written and the
  path of the directory.
\<close>

definition create_agent_results ::
  "'h hdr \<Rightarrow> 'h hist_codec \<Rightarrow> 'h hist_wire \<Rightarrow> string + string \<times> string \<Rightarrow> 'h RunSummary
    \<Rightarrow> string + string \<times> string \<times> string \<times> nat list \<times> nat list \<times> nat list" where
  "create_agent_results hg hc hw created s =
     bind_result created (\<lambda>(metadata_json, results_path).
     bind_result (export_results hg hc s) (\<lambda>tsv.
       Inr (metadata_json, tsv, results_path, serialize_ophists hw (rm_get_hists s), serialize_ophists hw (rm_put_hists s),
            serialize_ophists hw (rm_meta_hists s))))"

definition summary_to_proto ::
  "'h hdr \<Rightarrow> 'h hist_codec \<Rightarrow> 'h hist_wire \<Rightarrow> string + string \<times> string \<Rightarrow> string \<Rightarrow> 'h RunSummary \<Rightarrow> string option
    \<Rightarrow> string + WorkloadReport" where
  "summary_to_proto hg hc hw created agent_id s op_log =
     (case create_agent_results hg hc hw created s of
        Inl e \<Rightarrow> Inl (''Failed to create agent results: '' @ e)
      | Inr (metadata_json, tsv, results_path, g, p, m) \<Rightarrow>
          Inr \<lparr> ws_agent_id = agent_id, ws_total_ops = rm_ops s, wr_wall = rm_wall s, wr_bytes = rm_bytes s,
                wr_get = op_metrics (rm_get s), wr_put = op_metrics (rm_put s), wr_meta = op_metrics (rm_meta s),
                wr_p50 = rm_p50 s, wr_p95 = rm_p95 s, wr_p99 = rm_p99 s, wr_console_log = '''', wr_metadata_json = metadata_json,
                wr_tsv = tsv, wr_results_path = results_path,
                wr_op_log_path = (case op_log of None \<Rightarrow> '''' | Some p' \<Rightarrow> p'),
                wr_hist_get = g, wr_hist_put = p, wr_hist_meta = m, wr_get_bins = Some (size_bins_to_proto (rm_get_bins s)),
                wr_put_bins = Some (size_bins_to_proto (rm_put_bins s)), wr_meta_bins = Some (size_bins_to_proto (rm_meta_bins s)),
                wr_endpoints = endpoint_stats_to_proto (rm_endpoints s) \<rparr>)"

record 'h PrepareMetrics =
  px_wall :: rat
  px_put :: OpAgg
  px_put_bins :: SizeBins
  px_put_hists :: "'h OpHists"
  px_mkdir :: OpAgg
  px_mkdir_count :: nat
  px_created :: nat
  px_existed :: nat
  px_strategy :: PrepareStrategy
  px_endpoints :: "EndpointStatsSnapshot list option"

definition prepare_metrics_to_proto ::
  "'h hdr \<Rightarrow> 'h hist_codec \<Rightarrow> 'h hist_wire \<Rightarrow> string + string \<Rightarrow> string \<Rightarrow> 'h PrepareMetrics \<Rightarrow> string + PrepareReport" where
  "prepare_metrics_to_proto hg hc hw created agent_id p =
     bind_result created (\<lambda>results_path.
     case export_prepare_metrics hg hc (px_put_hists p) (px_put_bins p) (px_wall p) of
       Inl e \<Rightarrow> Inl (''Failed to export prepare metrics: '' @ e)
     | Inr tsv \<Rightarrow>
         Inr \<lparr> ps_agent_id = agent_id, ps_objects_created = px_created p, ps_objects_existed = px_existed p, pr_wall = px_wall p,
               pr_put = op_metrics (px_put p), pr_mkdir = op_metrics (px_mkdir p), pr_mkdir_count = px_mkdir_count p,
               pr_hist_put = serialize_ophists hw (px_put_hists p), pr_tsv = tsv, pr_results_path = results_path,
               pr_put_bins = Some (size_bins_to_proto (px_put_bins p)), pr_endpoints = endpoint_stats_to_proto (px_endpoints p) \<rparr>)"

section \<open>The tables of the controller\<close>

text \<open>The table of a run: a histogram that cannot be read or added ends it.\<close>

fun read_strict :: "'h hdr \<Rightarrow> 'h hist_wire \<Rightarrow> 'h list \<Rightarrow> nat list \<Rightarrow> string + 'h list" where
  "read_strict hg hw [] bytes = Inr []"
| "read_strict hg hw (h # hs) bytes =
     (case hw_read hw bytes of
        (None, _) \<Rightarrow> Inl ''Failed to deserialize histogram bucket''
      | (Some x, rest) \<Rightarrow>
          (case h_add hg h x of
             None \<Rightarrow> Inl ''Failed to merge histogram bucket''
           | Some h' \<Rightarrow> bind_result (read_strict hg hw hs rest) (\<lambda>hs'. Inr (h' # hs'))))"

type_synonym 'h op_accs = "'h list \<times> 'h list \<times> 'h list"

definition new_accumulators :: "'h hdr \<Rightarrow> 'h op_accs" where
  "new_accumulators hg = (op_hists_new hg, op_hists_new hg, op_hists_new hg)"

fun merge_reports :: "'h hdr \<Rightarrow> 'h hist_wire \<Rightarrow> 'h op_accs \<Rightarrow> WorkloadReport list \<Rightarrow> string + 'h op_accs" where
  "merge_reports hg hw accs [] = Inr accs"
| "merge_reports hg hw (g, p, m) (r # rs) =
     bind_result (read_strict hg hw g (wr_hist_get r)) (\<lambda>g'.
     bind_result (read_strict hg hw p (wr_hist_put r)) (\<lambda>p'.
     bind_result (read_strict hg hw m (wr_hist_meta r)) (\<lambda>m'. merge_reports hg hw (g', p', m') rs)))"

definition collect_op_rows :: "'h hdr \<Rightarrow> 'h hist_codec \<Rightarrow> string \<Rightarrow> 'h list \<Rightarrow> SizeBins \<Rightarrow> rat \<Rightarrow> rows" where
  "collect_op_rows hg hc opn accs bins wall =
     concat (map (\<lambda>(i, h). if hc_len hc h = 0 then []
                           else [(i, result_row hg hc opn (BUCKET_LABELS ! i) i h (bin_of i bins) wall)])
               (zip [0..<length accs] accs))"

definition collect_aggregate_row ::
  "'h hdr \<Rightarrow> 'h hist_codec \<Rightarrow> string \<Rightarrow> nat \<Rightarrow> 'h list \<Rightarrow> nat \<times> nat \<Rightarrow> rat \<Rightarrow> string + rows" where
  "collect_aggregate_row hg hc opn idx accs e wall =
     bind_result (add_chain hg (filter (\<lambda>h. 0 < hc_len hc h) accs) (h_new hg 1 3600000000)) (\<lambda>h.
       Inr (if hc_len hc h = 0 then [] else [(idx, result_row hg hc opn ''ALL'' idx h e wall)]))"

text \<open>The rows of the three operations and their totals, as both the run table and the stage table collect them.\<close>

definition controller_rows ::
  "'h hdr \<Rightarrow> 'h hist_codec \<Rightarrow> 'h op_accs \<Rightarrow> SizeBins \<times> SizeBins \<times> SizeBins
    \<Rightarrow> (nat \<times> nat) \<times> (nat \<times> nat) \<times> (nat \<times> nat) \<Rightarrow> rat \<Rightarrow> string + rows" where
  "controller_rows hg hc accs bins totals wall =
     (case (accs, bins, totals) of ((g, p, m), (gb, pb, mb), (gt, pt, mt)) \<Rightarrow>
        (let rs = collect_op_rows hg hc ''GET'' g gb wall @ collect_op_rows hg hc ''PUT'' p pb wall
                  @ collect_op_rows hg hc ''META'' m mb wall
         in bind_result (collect_aggregate_row hg hc ''META'' 97 m mt wall) (\<lambda>ma.
            bind_result (collect_aggregate_row hg hc ''GET'' 98 g gt wall) (\<lambda>ga.
            bind_result (collect_aggregate_row hg hc ''PUT'' 99 p pt wall) (\<lambda>pa. Inr (rs @ ma @ ga @ pa))))))"

definition agg_totals :: "OpAgg option list \<Rightarrow> nat \<times> nat" where
  "agg_totals aggs = (sum_list (map agg_ops (List.map_filter id aggs)), sum_list (map agg_bytes (List.map_filter id aggs)))"

definition arrived_bins :: "ProtoSizeBins option list \<Rightarrow> SizeBins" where
  "arrived_bins bs = merge_size_bins (map proto_to_size_bins (List.map_filter id bs))"

definition max_wall :: "rat list \<Rightarrow> rat" where "max_wall ws = foldl max 0 ws"

definition create_consolidated_tsv :: "'h hdr \<Rightarrow> 'h hist_codec \<Rightarrow> 'h hist_wire \<Rightarrow> WorkloadReport list \<Rightarrow> string + string" where
  "create_consolidated_tsv hg hc hw rs =
     bind_result (merge_reports hg hw (new_accumulators hg) rs) (\<lambda>accs.
     bind_result (controller_rows hg hc accs
         (arrived_bins (map wr_get_bins rs), arrived_bins (map wr_put_bins rs), arrived_bins (map wr_meta_bins rs))
         (agg_totals (map wr_get rs), agg_totals (map wr_put rs), agg_totals (map wr_meta rs))
         (max_wall (map wr_wall rs))) (\<lambda>rows. Inr (sorted_table rows)))"

text \<open>The table of a prepare phase: a histogram that cannot be read ends the reading of that agent only.\<close>

fun read_until_bad :: "'h hdr \<Rightarrow> 'h hist_wire \<Rightarrow> 'h list \<Rightarrow> nat list \<Rightarrow> string + 'h list" where
  "read_until_bad hg hw [] bytes = Inr []"
| "read_until_bad hg hw (h # hs) bytes =
     (case hw_read hw bytes of
        (None, _) \<Rightarrow> Inr (h # hs)
      | (Some x, rest) \<Rightarrow>
          (case h_add hg h x of
             None \<Rightarrow> Inl ''Failed to merge PUT histograms''
           | Some h' \<Rightarrow> bind_result (read_until_bad hg hw hs rest) (\<lambda>hs'. Inr (h' # hs'))))"

fun merge_prepare_reports :: "'h hdr \<Rightarrow> 'h hist_wire \<Rightarrow> 'h list \<Rightarrow> PrepareReport list \<Rightarrow> string + 'h list" where
  "merge_prepare_reports hg hw accs [] = Inr accs"
| "merge_prepare_reports hg hw accs (r # rs) =
     (if pr_hist_put r = [] then merge_prepare_reports hg hw accs rs
      else bind_result (read_until_bad hg hw accs (pr_hist_put r)) (\<lambda>accs'. merge_prepare_reports hg hw accs' rs))"

definition prepare_row ::
  "'h hdr \<Rightarrow> 'h hist_codec \<Rightarrow> string \<Rightarrow> nat \<Rightarrow> 'h \<Rightarrow> string \<Rightarrow> f64 \<Rightarrow> rat \<Rightarrow> string" where
  "prepare_row hg hc label idx h avg throughput wall =
     join_with [tab]
       [''PUT'', label, show_nat idx, text_f64 2 (Fin (h_mean hg h)), show_nat (h_quantile hg (50 / 100) h),
        show_nat (h_quantile hg (90 / 100) h), show_nat (h_quantile hg (95 / 100) h), show_nat (h_quantile hg (99 / 100) h),
        show_nat (hc_max hc h), avg, text_f64 2 (div_f64 (Fin (of_nat (hc_len hc h))) (Fin wall)), text_f64 2 throughput,
        show_nat (hc_len hc h)]"

text \<open>
  \<open>show_float\<close> is the shortest decimal text of a number; \<open>grown\<close> is the histogram without bounds in which
  the buckets are combined. The average of all objects is an integer quotient here, and the throughput is
  computed from it.
\<close>

definition prepare_all_row ::
  "'h hdr \<Rightarrow> 'h hist_codec \<Rightarrow> 'h \<Rightarrow> 'h list \<Rightarrow> nat \<times> nat \<Rightarrow> rat \<Rightarrow> string + string list" where
  "prepare_all_row hg hc grown accs e wall =
     (if fst e = 0 then Inr []
      else bind_result (add_chain hg (filter (\<lambda>h. 0 < hc_len hc h) accs) grown) (\<lambda>h.
        Inr (if hc_len hc h = 0 then []
             else (let avg = snd e div fst e
                   in [prepare_row hg hc ''ALL'' 99 h (show_nat avg)
                        (div_f64 (div_f64 (div_f64 (Fin (of_nat (hc_len hc h) * of_nat avg)) (Fin wall)) (Fin 1024)) (Fin 1024))
                        wall]))))"

definition create_consolidated_prepare_tsv ::
  "'h hdr \<Rightarrow> 'h hist_codec \<Rightarrow> 'h hist_wire \<Rightarrow> (rat \<Rightarrow> string) \<Rightarrow> 'h \<Rightarrow> PrepareReport list \<Rightarrow> string + string" where
  "create_consolidated_prepare_tsv hg hc hw show_float grown rs =
     bind_result (merge_prepare_reports hg hw (op_hists_new hg) rs) (\<lambda>accs.
       (let bins = arrived_bins (map pr_put_bins rs); wall = max_wall (map pr_wall rs);
            bucket_rows = concat (map (\<lambda>(i, h).
              if hc_len hc h = 0 then []
              else [prepare_row hg hc (BUCKET_LABELS ! i) i h (show_float (avg_of (snd (bin_of i bins)) (fst (bin_of i bins))))
                      (mibps (snd (bin_of i bins)) wall) wall])
              (zip [0..<length accs] accs))
        in bind_result (prepare_all_row hg hc grown accs (agg_totals (map pr_put rs)) wall) (\<lambda>all_rows.
             Inr (table_text (TABLE_HEADER # bucket_rows @ all_rows)))))"

text \<open>The table of a stage: a histogram that cannot be read or added is passed over, and the reading goes on where it stopped.\<close>

fun read_lenient :: "'h hdr \<Rightarrow> 'h hist_wire \<Rightarrow> 'h list \<Rightarrow> nat list \<Rightarrow> 'h list" where
  "read_lenient hg hw [] bytes = []"
| "read_lenient hg hw (h # hs) bytes =
     (case hw_read hw bytes of
        (None, rest) \<Rightarrow> h # read_lenient hg hw hs rest
      | (Some x, rest) \<Rightarrow> keep_add hg h x # read_lenient hg hw hs rest)"

definition read_stage_hists :: "'h hdr \<Rightarrow> 'h hist_wire \<Rightarrow> 'h list \<Rightarrow> nat list \<Rightarrow> 'h list" where
  "read_stage_hists hg hw accs bytes = (if bytes = [] then accs else read_lenient hg hw accs bytes)"

definition merge_stage_report :: "'h hdr \<Rightarrow> 'h hist_wire \<Rightarrow> 'h op_accs \<Rightarrow> StageReport \<Rightarrow> 'h op_accs" where
  "merge_stage_report hg hw accs r =
     (case accs of (g, p, m) \<Rightarrow>
        (read_stage_hists hg hw g (sr_hist_get r), read_stage_hists hg hw p (sr_hist_put r), read_stage_hists hg hw m (sr_hist_meta r)))"

definition stage_heading :: "StageReport \<Rightarrow> nat \<Rightarrow> rat \<Rightarrow> string list" where
  "stage_heading r n wall =
     [''# Stage '' @ show_nat (ss_index r + 1) @ '' Results: '' @ ss_name r @ '' ('' @ sr_type r @ '')'',
      ''# Agents: '' @ show_nat n, ''# Duration: '' @ show_fixed 2 wall @ ''s'', '''', TABLE_HEADER]"

definition AGENT_DETAILS_HEADER :: string where
  "AGENT_DETAILS_HEADER = join_with [tab]
     [''agent_id'', ''get_ops'', ''get_bytes'', ''put_ops'', ''put_bytes'', ''meta_ops'', ''duration_s'', ''errors'']"

definition agent_detail :: "string \<times> StageReport \<Rightarrow> string" where
  "agent_detail a =
     (let r = snd a in join_with [tab]
        [fst a, show_nat (sr_get_ops r), show_nat (sr_get_bytes r), show_nat (sr_put_ops r), show_nat (sr_put_bytes r),
         show_nat (sr_meta_ops r), show_fixed 2 (sr_wall r), show_nat (sr_errors r)])"

definition write_stage_summary_tsv ::
  "'h hdr \<Rightarrow> 'h hist_codec \<Rightarrow> 'h hist_wire \<Rightarrow> (string \<times> StageReport) list \<Rightarrow> string + string" where
  "write_stage_summary_tsv hg hc hw ars =
     (if ars = [] then Inl ''No stage summaries to write''
      else (let rs = map snd ars; wall = max_wall (map sr_wall rs);
                accs = foldl (merge_stage_report hg hw) (new_accumulators hg) rs;
                gb = arrived_bins (map sr_get_bins rs); pb = arrived_bins (map sr_put_bins rs); mb = arrived_bins (map sr_meta_bins rs)
            in bind_result (controller_rows hg hc accs (gb, pb, mb) (all_bins gb, all_bins pb, all_bins mb) wall) (\<lambda>rows.
                 Inr (table_text (stage_heading (List.hd rs) (length rs) wall @ map snd (sort_key fst rows)
                   @ ['''', ''# Per-Agent Details'', AGENT_DETAILS_HEADER] @ map agent_detail ars)))))"

section \<open>Endpoints\<close>

definition add_endpoint :: "EndpointStatsSnapshot \<Rightarrow> EndpointStatsSnapshot \<Rightarrow> EndpointStatsSnapshot" where
  "add_endpoint agg e =
     agg\<lparr>ep_requests := ep_requests agg + ep_requests e, ep_read := ep_read agg + ep_read e, ep_written := ep_written agg + ep_written e,
         ep_errors := ep_errors agg + ep_errors e, ep_active := ep_active agg + ep_active e\<rparr>"

definition endpoint_entry ::
  "(string, EndpointStatsSnapshot) hmap \<Rightarrow> EndpointStatsSnapshot \<Rightarrow> (string, EndpointStatsSnapshot) hmap" where
  "endpoint_entry m e =
     (case hget m (ep_uri e) of None \<Rightarrow> hput (ep_uri e) e m | Some agg \<Rightarrow> hput (ep_uri e) (add_endpoint agg e) m)"

definition aggregate_endpoint_stats :: "EndpointStatsSnapshot list list \<Rightarrow> EndpointStatsSnapshot list" where
  "aggregate_endpoint_stats all_stats = sort_key ep_uri (map snd (foldl (foldl endpoint_entry) [] all_stats))"

section \<open>The populate ledger\<close>

record LedgerRow =
  lr_timestamp :: string
  lr_test_name :: string
  lr_agent_id :: string
  lr_stage :: string
  lr_created :: nat
  lr_existed :: nat
  lr_bytes :: nat
  lr_wall :: rat

definition LEDGER_HEADER :: string where
  "LEDGER_HEADER = join_with [tab]
     [''timestamp'', ''test_name'', ''agent_id'', ''stage'', ''objects_created'', ''objects_existed'', ''total_objects'',
      ''total_bytes'', ''avg_bytes'', ''wall_seconds'', ''ops_per_sec'']"

definition total_objects :: "LedgerRow \<Rightarrow> nat" where "total_objects r = lr_created r + lr_existed r"

definition avg_bytes :: "LedgerRow \<Rightarrow> rat" where
  "avg_bytes r = (if lr_created r = 0 then 0 else of_nat (lr_bytes r) / of_nat (lr_created r))"

definition ledger_ops_per_sec :: "LedgerRow \<Rightarrow> rat" where
  "ledger_ops_per_sec r = (if lr_wall r \<le> 0 then 0 else of_nat (lr_created r) / lr_wall r)"

definition ledger_row_text :: "LedgerRow \<Rightarrow> string" where
  "ledger_row_text r = join_with [tab]
     [lr_timestamp r, lr_test_name r, lr_agent_id r, lr_stage r, show_nat (lr_created r), show_nat (lr_existed r),
      show_nat (total_objects r), show_nat (lr_bytes r), show_fixed 1 (avg_bytes r), show_fixed 3 (lr_wall r),
      show_fixed 1 (ledger_ops_per_sec r)]"

text \<open>The file of a directory, if it is there, before and after a row is appended.\<close>

definition append_row :: "LedgerRow \<Rightarrow> string option \<Rightarrow> string" where
  "append_row r f =
     (case f of
        None \<Rightarrow> table_text [LEDGER_HEADER, ledger_row_text r]
      | Some s \<Rightarrow> s @ table_text [ledger_row_text r])"

definition prepare_ledger_row :: "string \<Rightarrow> string \<Rightarrow> PrepareReport \<Rightarrow> LedgerRow" where
  "prepare_ledger_row ts test_name p =
     \<lparr> lr_timestamp = ts, lr_test_name = test_name, lr_agent_id = ps_agent_id p, lr_stage = ''prepare'',
       lr_created = ps_objects_created p, lr_existed = ps_objects_existed p,
       lr_bytes = (case pr_put p of None \<Rightarrow> 0 | Some a \<Rightarrow> agg_bytes a), lr_wall = pr_wall p \<rparr>"

definition add_ledger_row :: "LedgerRow \<Rightarrow> LedgerRow \<Rightarrow> LedgerRow" where
  "add_ledger_row agg r =
     agg\<lparr>lr_created := lr_created agg + lr_created r, lr_existed := lr_existed agg + lr_existed r,
         lr_bytes := lr_bytes agg + lr_bytes r, lr_wall := max (lr_wall agg) (lr_wall r)\<rparr>"

definition ledger_rows :: "string \<Rightarrow> string \<Rightarrow> PrepareReport list \<Rightarrow> LedgerRow list" where
  "ledger_rows ts test_name ps =
     (let rows = map (prepare_ledger_row ts test_name) ps
      in rows @ [foldl add_ledger_row
           \<lparr> lr_timestamp = ts, lr_test_name = test_name, lr_agent_id = ''AGGREGATE'', lr_stage = ''prepare'',
             lr_created = 0, lr_existed = 0, lr_bytes = 0, lr_wall = 0 \<rparr> rows])"

section \<open>The wire\<close>

text \<open>What the tables rely on: a histogram is read back from its bytes, and adding an empty one changes nothing.\<close>

definition wire_laws :: "'h hdr \<Rightarrow> 'h hist_codec \<Rightarrow> 'h hist_wire \<Rightarrow> bool" where
  "wire_laws hg hc hw =
     ((\<forall>h rest. hw_read hw (hw_write hw h @ rest) = (Some h, rest)) \<and> (\<forall>h x. hc_len hc x = 0 \<longrightarrow> h_add hg h x = Some h))"

lemma proto_bins_foldl:
  "hwf b \<Longrightarrow> \<forall>i\<in>set (map fst b). i < 2 ^ 32 \<Longrightarrow> hwf (a @ b) \<Longrightarrow>
     foldl (\<lambda>m e. hput (sb_idx e) (sb_ops e, sb_bytes e) m) a (size_bins_to_proto b) = a @ b"
proof (induction b arbitrary: a)
  case Nil
  then show ?case by (simp add: size_bins_to_proto_def)
next
  case (Cons e b)
  obtain i x y where e: "e = (i, x, y)" by (cases e) auto
  have "hput i (x, y) a = a @ [(i, x, y)]" if "i \<notin> fst ` set a"
    using that by (induction a) (auto simp: hput_def)
  then have "hput i (x, y) a = a @ [(i, x, y)]" using Cons.prems(3) by (auto simp: hwf_def e)
  then show ?case
    using Cons.IH [of "a @ [(i, x, y)]"] Cons.prems by (simp add: e size_bins_to_proto_def hwf_def)
qed

text \<open>Size bins arrive as they were sent.\<close>

lemma size_bins_round_trip:
  "hwf b \<Longrightarrow> \<forall>i\<in>set (map fst b). i < 2 ^ 32 \<Longrightarrow> proto_to_size_bins (size_bins_to_proto b) = b"
  using proto_bins_foldl [of b "[]"] by (simp add: proto_to_size_bins_def)

lemma read_strict_adds:
  assumes "wire_laws hg hc hw"
  shows "length hs = length xs \<Longrightarrow> read_strict hg hw hs (serialize_ophists hw xs) = Inr r \<longleftrightarrow> add_hists hg hs xs = Inr r"
proof (induction hs arbitrary: xs r)
  case (Cons h hs)
  then obtain x ys where xs: "xs = x # ys" "length hs = length ys" by (cases xs) auto
  have "hw_read hw (hw_write hw x @ serialize_ophists hw ys) = (Some x, serialize_ophists hw ys)"
    using assms by (simp add: wire_laws_def)
  then show ?case using Cons.IH [OF xs(2)]
    by (auto simp: xs serialize_ophists_def bind_result_Inr_iff split: option.splits)
qed (simp add: serialize_ophists_def)

lemma all_bins_sums: "all_bins bins = (bins_ops bins, bins_bytes bins)"
proof -
  have "foldl (\<lambda>(o1, b1) (_, (ops, bytes)). (o1 + ops, b1 + bytes)) (x, y) bins = (x + bins_ops bins, y + bins_bytes bins)" for x y
    by (induction bins arbitrary: x y) (auto simp: bins_ops_def bins_bytes_def split_beta)
  then show ?thesis by (simp add: all_bins_def)
qed

lemma foldl_bins_merge_sums:
  "bins_ops (foldl bins_merge b bs) = bins_ops b + sum_list (map bins_ops bs)"
  "bins_bytes (foldl bins_merge b bs) = bins_bytes b + sum_list (map bins_bytes bs)"
  by (induction bs arbitrary: b) simp_all

text \<open>A summary whose operation totals are those of its size bins, as a run leaves it.\<close>

definition agg_agrees :: "OpAgg \<Rightarrow> SizeBins \<Rightarrow> bool" where
  "agg_agrees a bins = (agg_ops a = bins_ops bins \<and> agg_bytes a = bins_bytes bins \<and> hwf bins \<and> (\<forall>i\<in>set (map fst bins). i < 2 ^ 32))"

definition table_ready :: "'h RunSummary \<Rightarrow> bool" where
  "table_ready s =
     (has_buckets NUM_BUCKETS s \<and> agg_agrees (rm_get s) (rm_get_bins s) \<and> agg_agrees (rm_put s) (rm_put_bins s)
      \<and> agg_agrees (rm_meta s) (rm_meta_bins s))"

definition sent_by :: "'h hdr \<Rightarrow> 'h hist_codec \<Rightarrow> 'h hist_wire \<Rightarrow> 'h RunSummary \<Rightarrow> WorkloadReport \<Rightarrow> bool" where
  "sent_by hg hc hw s r = (\<exists>created agent_id op_log. summary_to_proto hg hc hw created agent_id s op_log = Inr r)"

lemma sent_by_fields:
  assumes "sent_by hg hc hw s r"
  shows "wr_hist_get r = serialize_ophists hw (rm_get_hists s)" "wr_hist_put r = serialize_ophists hw (rm_put_hists s)"
    "wr_hist_meta r = serialize_ophists hw (rm_meta_hists s)" "wr_wall r = rm_wall s"
    "wr_get r = Some (rm_get s)" "wr_put r = Some (rm_put s)" "wr_meta r = Some (rm_meta s)"
    "wr_get_bins r = Some (size_bins_to_proto (rm_get_bins s))" "wr_put_bins r = Some (size_bins_to_proto (rm_put_bins s))"
    "wr_meta_bins r = Some (size_bins_to_proto (rm_meta_bins s))"
proof -
  obtain created agent_id op_log where r: "summary_to_proto hg hc hw created agent_id s op_log = Inr r"
    using assms by (auto simp: sent_by_def)
  then obtain mj rp tsv where "created = Inr (mj, rp)" "export_results hg hc s = Inr tsv"
    by (cases created; cases "export_results hg hc s") (auto simp: summary_to_proto_def create_agent_results_def)
  then show "wr_hist_get r = serialize_ophists hw (rm_get_hists s)" "wr_hist_put r = serialize_ophists hw (rm_put_hists s)"
    "wr_hist_meta r = serialize_ophists hw (rm_meta_hists s)" "wr_wall r = rm_wall s"
    "wr_get r = Some (rm_get s)" "wr_put r = Some (rm_put s)" "wr_meta r = Some (rm_meta s)"
    "wr_get_bins r = Some (size_bins_to_proto (rm_get_bins s))" "wr_put_bins r = Some (size_bins_to_proto (rm_put_bins s))"
    "wr_meta_bins r = Some (size_bins_to_proto (rm_meta_bins s))"
    using r by (auto simp: summary_to_proto_def op_metrics_def create_agent_results_def)
qed

lemma merge_reports_merge_rest:
  assumes laws: "wire_laws hg hc hw"
  shows "list_all2 (sent_by hg hc hw) ss rs \<Longrightarrow> \<forall>s\<in>set ss. has_buckets n s \<Longrightarrow> has_buckets n m
    \<Longrightarrow> merge_reports hg hw (rm_get_hists m, rm_put_hists m, rm_meta_hists m) rs = Inr accs
    \<Longrightarrow> \<exists>m'. merge_rest hg ss m = Inr m' \<and> accs = (rm_get_hists m', rm_put_hists m', rm_meta_hists m') \<and> has_buckets n m'
      \<and> rm_wall m' = foldl max (rm_wall m) (map rm_wall ss) \<and> rm_get_bins m' = foldl bins_merge (rm_get_bins m) (map rm_get_bins ss)
      \<and> rm_put_bins m' = foldl bins_merge (rm_put_bins m) (map rm_put_bins ss)
      \<and> rm_meta_bins m' = foldl bins_merge (rm_meta_bins m) (map rm_meta_bins ss)"
proof (induction ss rs arbitrary: m rule: list_all2_induct)
  case Nil
  then show ?case by simp
next
  case (Cons s ss r rs)
  note f = sent_by_fields [OF Cons.hyps(1)]
  have len: "length (rm_get_hists m) = length (rm_get_hists s)" "length (rm_put_hists m) = length (rm_put_hists s)"
      "length (rm_meta_hists m) = length (rm_meta_hists s)"
    using Cons.prems(1,2) by (simp_all add: has_buckets_def)
  obtain g p mt where h: "add_hists hg (rm_get_hists m) (rm_get_hists s) = Inr g"
      "add_hists hg (rm_put_hists m) (rm_put_hists s) = Inr p" "add_hists hg (rm_meta_hists m) (rm_meta_hists s) = Inr mt"
    and rest: "merge_reports hg hw (g, p, mt) rs = Inr accs"
    using Cons.prems(3) by (auto simp: f bind_result_Inr_iff read_strict_adds [OF laws] len)
  obtain m1 where m1: "merge_summary hg s m = Inr m1" "rm_get_hists m1 = g" "rm_put_hists m1 = p" "rm_meta_hists m1 = mt"
      "rm_wall m1 = max (rm_wall m) (rm_wall s)" "rm_get_bins m1 = bins_merge (rm_get_bins m) (rm_get_bins s)"
      "rm_put_bins m1 = bins_merge (rm_put_bins m) (rm_put_bins s)" "rm_meta_bins m1 = bins_merge (rm_meta_bins m) (rm_meta_bins s)"
    using h by (simp add: merge_summary_def)
  have "has_buckets n m1" using merge_summary_round [of n m s hg m1] m1(1) Cons.prems(1,2) by (simp add: round_ok_def)
  then show ?case
    using Cons.IH [of m1] Cons.prems(1) rest m1 by (auto simp: max.commute)
qed

lemma zip_upt_nth: "zip [0..<length hs] hs = map (\<lambda>i. (i, hs ! i)) [0..<length hs]"
  by (rule nth_equalityI) simp_all

lemma op_rows_agree:
  "length hs = NUM_BUCKETS \<Longrightarrow> collect_op_buckets hg hc opn hs bins wall = Inr (collect_op_rows hg hc opn hs bins wall)"
  using zip_upt_nth [of hs] by (simp add: collect_op_buckets_def collect_op_rows_def comp_def Let_def)

lemma add_chain_keep:
  assumes "wire_laws hg hc hw"
  shows "add_chain hg (filter (\<lambda>h. 0 < hc_len hc h) hs) h = Inr r \<Longrightarrow> foldl (keep_add hg) h hs = r"
proof (induction hs arbitrary: h)
  case (Cons x hs)
  show ?case
  proof (cases "hc_len hc x = 0")
    case True
    then have "keep_add hg h x = h" using assms by (simp add: wire_laws_def keep_add_def)
    then show ?thesis using Cons True by simp
  next
    case False
    then obtain h' where "h_add hg h x = Some h'" "add_chain hg (filter (\<lambda>h. 0 < hc_len hc h) hs) h' = Inr r"
      using Cons.prems by (auto split: option.splits)
    then show ?thesis using Cons.IH by (simp add: keep_add_def)
  qed
qed simp

lemma aggregate_rows_agree:
  assumes "wire_laws hg hc hw" "collect_aggregate_row hg hc opn idx hs (all_bins bins) wall = Inr rows"
  shows "export_aggregate_row hg hc opn idx hs bins wall = rows"
proof -
  obtain h where h: "add_chain hg (filter (\<lambda>h. 0 < hc_len hc h) hs) (h_new hg 1 3600000000) = Inr h"
      "rows = (if hc_len hc h = 0 then [] else [(idx, result_row hg hc opn ''ALL'' idx h (all_bins bins) wall)])"
    using assms(2) by (auto simp: collect_aggregate_row_def bind_result_Inr_iff)
  have "combined_histogram hg hs = h" using add_chain_keep [OF assms(1) h(1)] by (simp add: combined_histogram_def)
  then show ?thesis by (simp add: export_aggregate_row_def h(2))
qed

lemma map_filter_Some: "List.map_filter id (map (\<lambda>x. Some (f x)) xs) = map f xs"
  by (induction xs) (simp_all add: map_filter_simps)

lemma controller_rows_agree:
  assumes laws: "wire_laws hg hc hw" and n: "has_buckets NUM_BUCKETS s"
    and rows: "controller_rows hg hc (rm_get_hists s, rm_put_hists s, rm_meta_hists s)
                 (rm_get_bins s, rm_put_bins s, rm_meta_bins s)
                 (all_bins (rm_get_bins s), all_bins (rm_put_bins s), all_bins (rm_meta_bins s)) (rm_wall s) = Inr rows"
  shows "export_results hg hc s = Inr (sorted_table rows)"
proof -
  obtain ma ga pa where a: "collect_aggregate_row hg hc ''META'' 97 (rm_meta_hists s) (all_bins (rm_meta_bins s)) (rm_wall s) = Inr ma"
      "collect_aggregate_row hg hc ''GET'' 98 (rm_get_hists s) (all_bins (rm_get_bins s)) (rm_wall s) = Inr ga"
      "collect_aggregate_row hg hc ''PUT'' 99 (rm_put_hists s) (all_bins (rm_put_bins s)) (rm_wall s) = Inr pa"
    and r: "rows = collect_op_rows hg hc ''GET'' (rm_get_hists s) (rm_get_bins s) (rm_wall s)
        @ collect_op_rows hg hc ''PUT'' (rm_put_hists s) (rm_put_bins s) (rm_wall s)
        @ collect_op_rows hg hc ''META'' (rm_meta_hists s) (rm_meta_bins s) (rm_wall s) @ ma @ ga @ pa"
    using rows by (auto simp: controller_rows_def bind_result_Inr_iff Let_def)
  have len: "length (rm_get_hists s) = NUM_BUCKETS" "length (rm_put_hists s) = NUM_BUCKETS" "length (rm_meta_hists s) = NUM_BUCKETS"
    using n by (simp_all add: has_buckets_def)
  show ?thesis
    by (simp add: export_results_def op_rows_agree len aggregate_rows_agree [OF laws a(1)] aggregate_rows_agree [OF laws a(2)]
        aggregate_rows_agree [OF laws a(3)] r)
qed

lemma arrived:
  assumes "list_all2 (sent_by hg hc hw) ss rs" "\<forall>s\<in>set ss. table_ready s"
  shows "arrived_bins (map wr_get_bins rs) = foldl bins_merge [] (map rm_get_bins ss)
    \<and> arrived_bins (map wr_put_bins rs) = foldl bins_merge [] (map rm_put_bins ss)
    \<and> arrived_bins (map wr_meta_bins rs) = foldl bins_merge [] (map rm_meta_bins ss)
    \<and> agg_totals (map wr_get rs) = all_bins (foldl bins_merge [] (map rm_get_bins ss))
    \<and> agg_totals (map wr_put rs) = all_bins (foldl bins_merge [] (map rm_put_bins ss))
    \<and> agg_totals (map wr_meta rs) = all_bins (foldl bins_merge [] (map rm_meta_bins ss))
    \<and> map wr_wall rs = map rm_wall ss"
proof -
  have eqs: "map wr_get_bins rs = map (\<lambda>s. Some (size_bins_to_proto (rm_get_bins s))) ss
    \<and> map wr_put_bins rs = map (\<lambda>s. Some (size_bins_to_proto (rm_put_bins s))) ss
    \<and> map wr_meta_bins rs = map (\<lambda>s. Some (size_bins_to_proto (rm_meta_bins s))) ss
    \<and> map wr_get rs = map (\<lambda>s. Some (rm_get s)) ss \<and> map wr_put rs = map (\<lambda>s. Some (rm_put s)) ss
    \<and> map wr_meta rs = map (\<lambda>s. Some (rm_meta s)) ss \<and> map wr_wall rs = map rm_wall ss"
    using assms(1) by (induction rule: list_all2_induct) (simp_all add: sent_by_fields)
  have ok: "\<forall>s\<in>set ss. agg_agrees (rm_get s) (rm_get_bins s) \<and> agg_agrees (rm_put s) (rm_put_bins s) \<and> agg_agrees (rm_meta s) (rm_meta_bins s)"
    using assms(2) by (simp add: table_ready_def)
  have bins: "\<forall>s\<in>set ss. proto_to_size_bins (size_bins_to_proto (rm_get_bins s)) = rm_get_bins s
      \<and> proto_to_size_bins (size_bins_to_proto (rm_put_bins s)) = rm_put_bins s
      \<and> proto_to_size_bins (size_bins_to_proto (rm_meta_bins s)) = rm_meta_bins s"
    using ok by (simp add: agg_agrees_def size_bins_round_trip)
  have aggs: "map (\<lambda>s. agg_ops (rm_get s)) ss = map (\<lambda>s. bins_ops (rm_get_bins s)) ss"
      "map (\<lambda>s. agg_bytes (rm_get s)) ss = map (\<lambda>s. bins_bytes (rm_get_bins s)) ss"
      "map (\<lambda>s. agg_ops (rm_put s)) ss = map (\<lambda>s. bins_ops (rm_put_bins s)) ss"
      "map (\<lambda>s. agg_bytes (rm_put s)) ss = map (\<lambda>s. bins_bytes (rm_put_bins s)) ss"
      "map (\<lambda>s. agg_ops (rm_meta s)) ss = map (\<lambda>s. bins_ops (rm_meta_bins s)) ss"
      "map (\<lambda>s. agg_bytes (rm_meta s)) ss = map (\<lambda>s. bins_bytes (rm_meta_bins s)) ss"
    using ok by (simp_all add: agg_agrees_def)
  have arr: "map (\<lambda>s. proto_to_size_bins (size_bins_to_proto (rm_get_bins s))) ss = map rm_get_bins ss"
      "map (\<lambda>s. proto_to_size_bins (size_bins_to_proto (rm_put_bins s))) ss = map rm_put_bins ss"
      "map (\<lambda>s. proto_to_size_bins (size_bins_to_proto (rm_meta_bins s))) ss = map rm_meta_bins ss"
    using bins by simp_all
  show ?thesis
    unfolding arrived_bins_def merge_size_bins_def agg_totals_def
    by (simp add: eqs map_filter_Some comp_def aggs arr all_bins_sums foldl_bins_merge_sums bins_ops_def [of "[]"] bins_bytes_def [of "[]"])
qed

text \<open>
  C30: The consolidated table is the table of the merged run. If the controller can make a table from the
  messages of its agents, it is, byte for byte, the table that one process would export whose histograms
  are the bucketwise sums of the agents' histograms, whose size bins are their merge and whose wall time is
  the longest: sending histograms and bins over the wire loses nothing, and every percentile is that of the
  sum. This holds for summaries whose totals are those of their size bins, with histograms that are read
  back as written.
\<close>

theorem consolidated_table_is_table_of_merge:
  assumes laws: "wire_laws hg hc hw" and sent: "list_all2 (sent_by hg hc hw) ss rs"
    and ready: "\<forall>s\<in>set ss. table_ready s" and made: "create_consolidated_tsv hg hc hw rs = Inr t"
  shows "\<exists>m. merge_rest hg ss (merge_start hg NUM_BUCKETS) = Inr m \<and> export_results hg hc m = Inr t
    \<and> rm_get_bins m = merge_size_bins (map rm_get_bins ss) \<and> rm_wall m = max_wall (map rm_wall ss)"
proof -
  let ?m = "merge_start hg NUM_BUCKETS"
  obtain accs rows where accs: "merge_reports hg hw (new_accumulators hg) rs = Inr accs"
    and rows: "controller_rows hg hc accs
         (arrived_bins (map wr_get_bins rs), arrived_bins (map wr_put_bins rs), arrived_bins (map wr_meta_bins rs))
         (agg_totals (map wr_get rs), agg_totals (map wr_put rs), agg_totals (map wr_meta rs)) (max_wall (map wr_wall rs)) = Inr rows"
    and t: "t = sorted_table rows"
    using made by (auto simp: create_consolidated_tsv_def bind_result_Inr_iff)
  have start: "new_accumulators hg = (rm_get_hists ?m, rm_put_hists ?m, rm_meta_hists ?m)"
    "rm_wall ?m = 0" "rm_get_bins ?m = []" "rm_put_bins ?m = []" "rm_meta_bins ?m = []"
    by (simp_all add: new_accumulators_def op_hists_new_def merge_start_def create_empty_ophists_def)
  have n: "\<forall>s\<in>set ss. has_buckets NUM_BUCKETS s" using ready by (simp add: table_ready_def)
  obtain m where m: "merge_rest hg ss ?m = Inr m" "accs = (rm_get_hists m, rm_put_hists m, rm_meta_hists m)"
      "has_buckets NUM_BUCKETS m" "rm_wall m = foldl max 0 (map rm_wall ss)" "rm_get_bins m = foldl bins_merge [] (map rm_get_bins ss)"
      "rm_put_bins m = foldl bins_merge [] (map rm_put_bins ss)" "rm_meta_bins m = foldl bins_merge [] (map rm_meta_bins ss)"
    using merge_reports_merge_rest [OF laws sent n, of ?m accs] accs start by auto
  have "export_results hg hc m = Inr t"
    unfolding t using rows arrived [OF sent ready]
    by (intro controller_rows_agree [OF laws m(3)]) (simp add: m(2,4,5,6,7) max_wall_def)
  then show ?thesis using m by (auto simp: merge_size_bins_def max_wall_def)
qed

text \<open>Two agents with a histogram that is the text of its values, sent with its length.\<close>

definition text_wire :: "string hist_wire" where
  "text_wire =
     \<lparr> hw_write = (\<lambda>h. length h # map of_char h),
       hw_read = (\<lambda>bs. case bs of [] \<Rightarrow> (None, []) | n # cs \<Rightarrow> (Some (map char_of (take n cs)), drop n cs)) \<rparr>"

lemma text_wire_laws: "wire_laws text_hist text_hist_codec text_wire"
  by (auto simp: wire_laws_def text_wire_def text_hist_def text_hist_codec_def comp_def)

lemma text_hist_adds [simp]:
  "h_add text_hist a b = Some (a @ b)" "length hs = length xs \<Longrightarrow> add_hists text_hist hs xs = Inr (map2 (@) hs xs)"
  "add_chain text_hist hs h = Inr (h @ concat hs)"
proof -
  show add: "h_add text_hist a b = Some (a @ b)" for a b by (simp add: text_hist_def)
  show "add_hists text_hist hs xs = Inr (map2 (@) hs xs)" if "length hs = length xs"
    using that by (induction hs xs rule: list_induct2) (simp_all add: add)
  show "add_chain text_hist hs h = Inr (h @ concat hs)" by (induction hs arbitrary: h) (simp_all add: add)
qed

definition sample_run :: "nat \<Rightarrow> string \<Rightarrow> string RunSummary" where
  "sample_run k h =
     (merge_start text_hist NUM_BUCKETS)\<lparr>rm_wall := 2, rm_ops := k, rm_bytes := 100 * k,
       rm_get := OpAgg_default\<lparr>agg_ops := k, agg_bytes := 100 * k\<rparr>, rm_get_bins := [(1, (k, 100 * k))],
       rm_get_hists := (replicate NUM_BUCKETS '''')[1 := h]\<rparr>"

lemma sample_run_fields [simp]:
  "length (rm_get_hists (sample_run k h)) = NUM_BUCKETS" "length (rm_put_hists (sample_run k h)) = NUM_BUCKETS"
  "length (rm_meta_hists (sample_run k h)) = NUM_BUCKETS" "table_ready (sample_run k h)"
  by (simp_all add: sample_run_def merge_start_def create_empty_ophists_def table_ready_def has_buckets_def agg_agrees_def
      bins_ops_def bins_bytes_def hwf_def OpAgg_default_def)

lemma sample_run_sent: "\<exists>r. sent_by text_hist text_hist_codec text_wire (sample_run k h) r"
proof -
  have "\<exists>t. export_results text_hist text_hist_codec (sample_run k h) = Inr t"
    by (simp add: export_results_def op_rows_agree)
  then obtain t where "export_results text_hist text_hist_codec (sample_run k h) = Inr t" by blast
  then have "\<exists>r. summary_to_proto text_hist text_hist_codec text_wire (Inr (''{}'', ''/tmp/r'')) ''a'' (sample_run k h) None = Inr r"
    by (simp add: summary_to_proto_def create_agent_results_def)
  then show ?thesis unfolding sent_by_def by blast
qed

lemma text_reports_merge:
  "list_all2 (sent_by text_hist text_hist_codec text_wire) ss rs \<Longrightarrow> \<forall>s\<in>set ss. has_buckets n s \<Longrightarrow>
     length g = n \<Longrightarrow> length p = n \<Longrightarrow> length m = n \<Longrightarrow> \<exists>accs. merge_reports text_hist text_wire (g, p, m) rs = Inr accs"
proof (induction ss rs arbitrary: g p m rule: list_all2_induct)
  case (Cons s ss r rs)
  note f = sent_by_fields [OF Cons.hyps(1)]
  have len: "length (rm_get_hists s) = n" "length (rm_put_hists s) = n" "length (rm_meta_hists s) = n"
    using Cons.prems(1) by (simp_all add: has_buckets_def)
  have "read_strict text_hist text_wire g (wr_hist_get r) = Inr (map2 (@) g (rm_get_hists s))"
       "read_strict text_hist text_wire p (wr_hist_put r) = Inr (map2 (@) p (rm_put_hists s))"
       "read_strict text_hist text_wire m (wr_hist_meta r) = Inr (map2 (@) m (rm_meta_hists s))"
    by (simp_all add: f read_strict_adds [OF text_wire_laws] len Cons.prems)
  then show ?case using Cons.IH [of "map2 (@) g (rm_get_hists s)" "map2 (@) p (rm_put_hists s)" "map2 (@) m (rm_meta_hists s)"]
      Cons.prems len by simp
qed simp

lemma consolidated_table_is_table_of_merge_witness:
  "\<exists>rs t m. create_consolidated_tsv text_hist text_hist_codec text_wire rs = Inr t \<and> length rs = 2
     \<and> merge_rest text_hist [sample_run 1 ''a'', sample_run 2 ''bc''] (merge_start text_hist NUM_BUCKETS) = Inr m
     \<and> export_results text_hist text_hist_codec m = Inr t"
proof -
  let ?ss = "[sample_run 1 ''a'', sample_run 2 ''bc'']"
  obtain r1 r2 where "sent_by text_hist text_hist_codec text_wire (sample_run 1 ''a'') r1"
      "sent_by text_hist text_hist_codec text_wire (sample_run 2 ''bc'') r2"
    using sample_run_sent by blast
  then have sent: "list_all2 (sent_by text_hist text_hist_codec text_wire) ?ss [r1, r2]" by simp
  have "\<exists>accs. merge_reports text_hist text_wire (new_accumulators text_hist) [r1, r2] = Inr accs"
    unfolding new_accumulators_def
    by (rule text_reports_merge [OF sent, of NUM_BUCKETS]) (simp_all add: has_buckets_def op_hists_new_def)
  then obtain accs where "merge_reports text_hist text_wire (new_accumulators text_hist) [r1, r2] = Inr accs" by blast
  then have "\<exists>t. create_consolidated_tsv text_hist text_hist_codec text_wire [r1, r2] = Inr t"
    by (cases accs) (simp add: create_consolidated_tsv_def controller_rows_def collect_aggregate_row_def Let_def)
  then obtain t where t: "create_consolidated_tsv text_hist text_hist_codec text_wire [r1, r2] = Inr t" by blast
  have "\<forall>s\<in>set ?ss. table_ready s" by simp
  from consolidated_table_is_table_of_merge [OF text_wire_laws sent this t] t
  show ?thesis by (metis length_Cons list.size(3) numeral_2_eq_2)
qed

section \<open>Endpoints of all agents\<close>

text \<open>What the map holds after the snapshots \<open>seen\<close>.\<close>

definition endpoint_sums :: "string \<Rightarrow> EndpointStatsSnapshot list \<Rightarrow> EndpointStatsSnapshot" where
  "endpoint_sums u seen =
     (let es = filter (\<lambda>e. ep_uri e = u) seen
      in \<lparr> ep_uri = u, ep_requests = sum_list (map ep_requests es), ep_read = sum_list (map ep_read es),
           ep_written = sum_list (map ep_written es), ep_errors = sum_list (map ep_errors es), ep_active = sum_list (map ep_active es) \<rparr>)"

lemma endpoint_entries:
  "hwf (foldl endpoint_entry [] seen)
   \<and> (\<forall>u. hget (foldl endpoint_entry [] seen) u = (if u \<in> ep_uri ` set seen then Some (endpoint_sums u seen) else None))"
proof (induction seen rule: rev_induct)
  case (snoc e seen)
  have one: "endpoint_sums u (seen @ [e]) = (if ep_uri e = u then add_endpoint (endpoint_sums u seen) e else endpoint_sums u seen)" for u
    by (simp add: endpoint_sums_def add_endpoint_def Let_def)
  have fresh: "endpoint_sums (ep_uri e) (seen @ [e]) = e" if "ep_uri e \<notin> ep_uri ` set seen"
  proof -
    have "filter (\<lambda>x. ep_uri x = ep_uri e) seen = []" using that by (simp add: filter_empty_conv image_iff) metis
    then show ?thesis by (simp add: endpoint_sums_def Let_def)
  qed
  show ?case
  proof (cases "ep_uri e \<in> ep_uri ` set seen")
    case True
    then show ?thesis using snoc.IH one by (auto simp: endpoint_entry_def hm.get_put hm.wf_put)
  next
    case False
    then show ?thesis using snoc.IH one fresh by (auto simp: endpoint_entry_def hm.get_put hm.wf_put)
  qed
qed simp

lemma foldl_foldl_concat: "foldl (foldl f) a xss = foldl f a (concat xss)"
  by (induction xss arbitrary: a) simp_all

lemma sum_list_one: "distinct us \<Longrightarrow> v \<in> set us \<Longrightarrow> (\<Sum>u\<leftarrow>us. if v = u then c else 0) = c" for c :: nat
  by (induction us) auto

lemma sum_by_uri:
  "distinct us \<Longrightarrow> ep_uri ` set es \<subseteq> set us \<Longrightarrow>
     (\<Sum>u\<leftarrow>us. sum_list (map f (filter (\<lambda>e. ep_uri e = u) es))) = sum_list (map f es)" for f :: "EndpointStatsSnapshot \<Rightarrow> nat"
proof (induction es)
  case (Cons e es)
  have "(\<Sum>u\<leftarrow>us. sum_list (map f (filter (\<lambda>x. ep_uri x = u) (e # es))))
      = (\<Sum>u\<leftarrow>us. (if ep_uri e = u then f e else 0) + sum_list (map f (filter (\<lambda>x. ep_uri x = u) es)))"
    by (intro arg_cong [where f = sum_list] map_cong) auto
  also have "\<dots> = (\<Sum>u\<leftarrow>us. if ep_uri e = u then f e else 0) + sum_list (map f es)"
    using Cons by (simp add: sum_list_addf)
  also have "\<dots> = f e + sum_list (map f es)" using Cons.prems sum_list_one [of us "ep_uri e"] by simp
  finally show ?case by simp
qed simp

text \<open>
  The endpoint table of all agents: one entry for each URI that any agent reports, in strictly
  increasing order of the URIs, with the sums of the five counters over all snapshots of that URI,
  independent of the order of the hash map; its requests add up to those of all agents.
\<close>

lemma endpoints_aggregate_exactly:
  "aggregate_endpoint_stats all = map (\<lambda>u. endpoint_sums u (concat all)) (sorted_list_of_set (ep_uri ` set (concat all)))
   \<and> sum_list (map ep_requests (aggregate_endpoint_stats all)) = sum_list (map ep_requests (concat all))"
proof -
  let ?es = "concat all"
  let ?m = "foldl endpoint_entry [] ?es"
  let ?r = "aggregate_endpoint_stats all"
  let ?us = "sorted_list_of_set (ep_uri ` set ?es)"
  have wf: "hwf ?m" and get: "hget ?m u = (if u \<in> ep_uri ` set ?es then Some (endpoint_sums u ?es) else None)" for u
    using endpoint_entries [of ?es] by auto
  have uri: "ep_uri (endpoint_sums u ?es) = u" for u by (simp add: endpoint_sums_def Let_def)
  have entry: "v = endpoint_sums k ?es \<and> k \<in> ep_uri ` set ?es" if "(k, v) \<in> set ?m" for k v
    using that wf get [of k] by (auto simp: hget_def hwf_def split: if_splits)
  have ek: "ep_uri v = k" if "(k, v) \<in> set ?m" for k v using entry [OF that] uri by simp
  have keys: "map ep_uri (map snd ?m) = map fst ?m" by (auto simp: ek)
  have r: "?r = sort_key ep_uri (map snd ?m)" by (simp add: aggregate_endpoint_stats_def foldl_foldl_concat)
  have "set (map fst ?m) = dom (hget ?m)" by (simp add: hget_def dom_map_of_conv_image_fst)
  also have "\<dots> = ep_uri ` set ?es" using get by (auto simp: dom_def)
  finally have dom: "set (map fst ?m) = ep_uri ` set ?es" .
  have "sorted (map ep_uri ?r)" by (simp add: r)
  moreover have "mset (map ep_uri ?r) = mset (map fst ?m)" unfolding r using keys by (metis mset_map mset_sort)
  then have "distinct (map ep_uri ?r)" "set (map ep_uri ?r) = ep_uri ` set ?es"
    using wf dom unfolding hwf_def by (metis mset_eq_imp_distinct_iff, metis mset_eq_setD)
  ultimately have us: "map ep_uri ?r = ?us" by (intro sorted_distinct_set_unique) simp_all
  have "\<forall>e\<in>set ?r. e = endpoint_sums (ep_uri e) ?es" using entry ek by (auto simp: r)
  then have "?r = map (\<lambda>e. endpoint_sums (ep_uri e) ?es) ?r" by (simp add: map_idI)
  also have "\<dots> = map (\<lambda>u. endpoint_sums u ?es) (map ep_uri ?r)" by simp
  also have "\<dots> = map (\<lambda>u. endpoint_sums u ?es) ?us" by (simp only: us)
  finally have eq: "?r = map (\<lambda>u. endpoint_sums u ?es) ?us" .
  have "sum_list (map ep_requests ?r) = (\<Sum>u\<leftarrow>?us. sum_list (map ep_requests (filter (\<lambda>e. ep_uri e = u) ?es)))"
    by (subst eq) (simp add: endpoint_sums_def Let_def comp_def)
  also have "\<dots> = sum_list (map ep_requests ?es)" by (rule sum_by_uri) simp_all
  finally show ?thesis using eq by simp
qed

section \<open>The ledger and the stage table\<close>

lemma ledger_adds_up:
  "lr_created (last (ledger_rows ts nm ps)) = sum_list (map lr_created (butlast (ledger_rows ts nm ps)))
   \<and> lr_existed (last (ledger_rows ts nm ps)) = sum_list (map lr_existed (butlast (ledger_rows ts nm ps)))
   \<and> lr_bytes (last (ledger_rows ts nm ps)) = sum_list (map lr_bytes (butlast (ledger_rows ts nm ps)))"
proof -
  have "lr_created (foldl add_ledger_row a rows) = lr_created a + sum_list (map lr_created rows)
      \<and> lr_existed (foldl add_ledger_row a rows) = lr_existed a + sum_list (map lr_existed rows)
      \<and> lr_bytes (foldl add_ledger_row a rows) = lr_bytes a + sum_list (map lr_bytes rows)" for a rows
    by (induction rows arbitrary: a) (simp_all add: add_ledger_row_def)
  then show ?thesis by (simp add: ledger_rows_def Let_def)
qed

text \<open>A message with one histogram only puts it in the first bucket, whatever the sizes were.\<close>

lemma lone_histogram_counts_as_zero:
  assumes "wire_laws hg hc hw" "hw_read hw [] = (None, [])" "hw_write hw h \<noteq> []"
  shows "read_stage_hists hg hw (a # as) (hw_write hw h) = keep_add hg a h # as"
proof -
  have "read_lenient hg hw as [] = as" using assms(2) by (induction as) simp_all
  moreover have "hw_read hw (hw_write hw h) = (Some h, [])" using assms(1) unfolding wire_laws_def by (metis append_Nil2)
  ultimately show ?thesis using assms(3) by (simp add: read_stage_hists_def)
qed

end
