(* ===== verification/Stage_Execution.thy ===== *)
theory Stage_Execution
  imports Result_Tables Live_Stats Cleanup_Phase
begin

text \<open>
  What one stage of an agent's workflow does and reports (\<open>execute_stages_workflow\<close> of
  \<open>src/bin/agent.rs\<close>): the body of each kind of stage, what it leaves for the later stages, the histograms it
  keeps, and the summary that is sent with the barrier. The order of the stages, the state of the agent and
  the barriers are those of the theory \<open>Agent\<close>; the phases themselves are arguments that stand for
  \<open>Prepare_Phase\<close>, \<open>Workload_Run\<close> and an external command, on a world \<open>'s\<close>; the cleanup is that of
  \<open>Cleanup_Phase\<close>.
\<close>

record 'h stage_state =
  se_config :: Config
  se_tracker :: "'h LiveStatsTracker"
  se_prepared :: "PreparedObject list"
  se_manifest :: "TreeManifest option"
  se_ledger :: "string option"

record ('h, 's) phases =
  ph_hist :: "'h hdr"
  ph_unused :: "'h \<Rightarrow> bool"
  ph_wire :: "'h hist_wire"
  ph_prepare :: "Config \<Rightarrow> 'h LiveStatsTracker \<Rightarrow> 's \<Rightarrow>
    (string + PreparedObject list \<times> TreeManifest option \<times> 'h PrepareMetrics) \<times> 'h LiveStatsTracker \<times> 's"
  ph_run :: "Config \<Rightarrow> TreeManifest option \<Rightarrow> 'h LiveStatsTracker \<Rightarrow> 's \<Rightarrow> (string + 'h RunSummary) \<times> 'h LiveStatsTracker \<times> 's"
  ph_command :: "string \<Rightarrow> string list \<Rightarrow> 's \<Rightarrow> (string + bool) \<times> 's"
  ph_store :: "'s object_store"
  ph_open :: "string \<Rightarrow> string + unit"
  ph_deleting :: "PreparedObject list \<Rightarrow> 'h LiveStatsTracker \<Rightarrow> 'h LiveStatsTracker"
  ph_agent :: string
  ph_agent_index :: nat

text \<open>The histograms and size bins a stage keeps for its summary.\<close>

record 'h captured =
  cap_get_hists :: "'h OpHists option"
  cap_put_hists :: "'h OpHists option"
  cap_meta_hists :: "'h OpHists option"
  cap_get_bins :: "SizeBins option"
  cap_put_bins :: "SizeBins option"
  cap_meta_bins :: "SizeBins option"

definition nothing_captured :: "'h captured" where
  "nothing_captured =
     \<lparr> cap_get_hists = None, cap_put_hists = None, cap_meta_hists = None, cap_get_bins = None, cap_put_bins = None,
       cap_meta_bins = None \<rparr>"

definition captured_run :: "'h RunSummary \<Rightarrow> 'h captured" where
  "captured_run s =
     \<lparr> cap_get_hists = Some (rm_get_hists s), cap_put_hists = Some (rm_put_hists s), cap_meta_hists = Some (rm_meta_hists s),
       cap_get_bins = Some (rm_get_bins s), cap_put_bins = Some (rm_put_bins s), cap_meta_bins = Some (rm_meta_bins s) \<rparr>"

text \<open>Before the first stage: without a prepare stage the manifest comes from the configuration.\<close>

definition is_prepare_stage :: "StageConfig \<Rightarrow> bool" where
  "is_prepare_stage st = (case config st of Prepare _ \<Rightarrow> True | _ \<Rightarrow> False)"

definition has_prepare_stage :: "StageConfig list \<Rightarrow> bool" where
  "has_prepare_stage sts = list_ex is_prepare_stage sts"

definition first_manifest :: "StageConfig list \<Rightarrow> Config \<Rightarrow> TreeManifest option" where
  "first_manifest sts cfg =
     (if has_prepare_stage sts then None
      else case prepare cfg of
             None \<Rightarrow> None
           | Some pc \<Rightarrow>
               (case directory_structure pc of
                  None \<Rightarrow> None
                | Some dc \<Rightarrow> (case tree_new dc of Inl _ \<Rightarrow> None | Inr t \<Rightarrow> Some (from_tree t))))"

definition stages_begin :: "StageConfig list \<Rightarrow> Config \<Rightarrow> 'h LiveStatsTracker \<Rightarrow> 'h stage_state" where
  "stages_begin sts cfg t =
     \<lparr> se_config = cfg, se_tracker = t, se_prepared = [], se_manifest = first_manifest sts cfg, se_ledger = None \<rparr>"

definition live_stage :: "StageSpecificConfig \<Rightarrow> WorkloadStage" where
  "live_stage sc =
     (case sc of Prepare _ \<Rightarrow> WorkloadStage.StagePrepare | Execute _ \<Rightarrow> WorkloadStage.StageWorkload | Cleanup _ \<Rightarrow> WorkloadStage.StageCleanup | _ \<Rightarrow> WorkloadStage.StageCustom)"

text \<open>
  The body of a stage, between the reset of the statistics at \<open>t0\<close> and the barrier. A prepare or cleanup stage
  without a prepare section does nothing; a validation stage only reports on checkpoints.
\<close>

definition run_prepare_stage ::
  "('h, 's) phases \<Rightarrow> nat \<Rightarrow> string \<Rightarrow> StageConfig \<Rightarrow> 'h stage_state \<Rightarrow> 's \<Rightarrow> (string + 'h captured) \<times> 'h stage_state \<times> 's" where
  "run_prepare_stage ph t0 ts st e s =
     (case prepare (se_config e) of
        None \<Rightarrow> (Inr nothing_captured, e, s)
      | Some pc \<Rightarrow>
          (let t1 = set_stage t0 WorkloadStage.StagePrepare (sum_list (map es_count (ensure_objects pc))) (se_tracker e)
           in case ph_prepare ph (se_config e) t1 s of
                (Inl err, t2, s') \<Rightarrow>
                  (Inl (''Prepare stage '' @ StageConfig.name st @ '' failed: '' @ err), e\<lparr>se_tracker := t2\<rparr>, s')
              | (Inr (objs, manifest, pm), t2, s') \<Rightarrow>
                  (Inr (nothing_captured\<lparr>cap_put_hists := Some (px_put_hists pm), cap_put_bins := Some (px_put_bins pm)\<rparr>),
                   e\<lparr>se_tracker := t2, se_prepared := objs, se_manifest := manifest,
                     se_ledger := Some (append_row
                       \<lparr> lr_timestamp = ts, lr_test_name = ''distributed'', lr_agent_id = ph_agent ph,
                         lr_stage = StageConfig.name st, lr_created = px_created pm, lr_existed = px_existed pm,
                         lr_bytes = agg_bytes (px_put pm), lr_wall = px_wall pm \<rparr> (se_ledger e))\<rparr>, s')))"

definition run_execute_stage ::
  "('h, 's) phases \<Rightarrow> nat \<Rightarrow> StageConfig \<Rightarrow> duration \<Rightarrow> 'h stage_state \<Rightarrow> 's \<Rightarrow> (string + 'h captured) \<times> 'h stage_state \<times> 's" where
  "run_execute_stage ph t0 st d e s =
     (let cfg = (se_config e)\<lparr>cfg_duration := d\<rparr>; t1 = set_stage t0 WorkloadStage.StageWorkload 0 (se_tracker e)
      in case ph_run ph cfg (se_manifest e) t1 s of
           (Inl err, t2, s') \<Rightarrow>
             (Inl (''Execute stage '' @ StageConfig.name st @ '' failed: '' @ err), e\<lparr>se_config := cfg, se_tracker := t2\<rparr>, s')
         | (Inr sm, t2, s') \<Rightarrow> (Inr (captured_run sm), e\<lparr>se_config := cfg, se_tracker := t2\<rparr>, s'))"

definition run_hybrid_stage ::
  "('h, 's) phases \<Rightarrow> nat \<Rightarrow> StageConfig \<Rightarrow> duration option \<Rightarrow> nat option \<Rightarrow> 'h stage_state \<Rightarrow> 's
    \<Rightarrow> (string + 'h captured) \<times> 'h stage_state \<times> 's" where
  "run_hybrid_stage ph t0 st d tasks e s =
     (let cfg = (case d of None \<Rightarrow> se_config e | Some x \<Rightarrow> (se_config e)\<lparr>cfg_duration := x\<rparr>);
          t1 = set_stage t0 WorkloadStage.StageWorkload (case tasks of None \<Rightarrow> 0 | Some n \<Rightarrow> n) (se_tracker e)
      in case ph_run ph cfg (se_manifest e) t1 s of
           (Inl err, t2, s') \<Rightarrow>
             (Inl (''Hybrid stage '' @ StageConfig.name st @ '' failed: '' @ err), e\<lparr>se_config := cfg, se_tracker := t2\<rparr>, s')
         | (Inr _, t2, s') \<Rightarrow> (Inr nothing_captured, e\<lparr>se_config := cfg, se_tracker := t2\<rparr>, s'))"

definition run_cleanup_stage ::
  "('h, 's) phases \<Rightarrow> nat \<Rightarrow> StageConfig \<Rightarrow> 'h stage_state \<Rightarrow> 's \<Rightarrow> (string + 'h captured) \<times> 'h stage_state \<times> 's" where
  "run_cleanup_stage ph t0 st e s =
     (let t1 = set_stage t0 WorkloadStage.StageCleanup (length (se_prepared e)) (se_tracker e)
      in case prepare (se_config e) of
           None \<Rightarrow> (Inr nothing_captured, e\<lparr>se_tracker := t1\<rparr>, s)
         | Some pc \<Rightarrow>
             (case cleanup_prepared_objects (ph_store ph) (ph_open ph) (se_prepared e) (se_manifest e) (ph_agent_index ph)
                     (cleanup_mode pc) s of
                (Inl err, s') \<Rightarrow>
                  (Inl (''Cleanup stage '' @ StageConfig.name st @ '' failed: '' @ err),
                   e\<lparr>se_tracker := ph_deleting ph (se_prepared e) t1\<rparr>, s')
              | (Inr _, s') \<Rightarrow> (Inr nothing_captured, e\<lparr>se_tracker := ph_deleting ph (se_prepared e) t1\<rparr>, s')))"

definition run_custom_stage ::
  "('h, 's) phases \<Rightarrow> nat \<Rightarrow> string \<Rightarrow> string list \<Rightarrow> 'h stage_state \<Rightarrow> 's \<Rightarrow> (string + 'h captured) \<times> 'h stage_state \<times> 's" where
  "run_custom_stage ph t0 cmd args e s =
     (let e' = e\<lparr>se_tracker := set_stage t0 WorkloadStage.StageCustom 0 (se_tracker e)\<rparr>
      in case ph_command ph cmd args s of
           (Inl err, s') \<Rightarrow> (Inl (''Custom command '' @ cmd @ '' failed to execute: '' @ err), e', s')
         | (Inr ok, s') \<Rightarrow> (if ok then Inr nothing_captured else Inl (''Custom command '' @ cmd @ '' exited with an error''), e', s'))"

definition run_stage_body ::
  "('h, 's) phases \<Rightarrow> nat \<Rightarrow> string \<Rightarrow> StageConfig \<Rightarrow> 'h stage_state \<Rightarrow> 's \<Rightarrow> (string + 'h captured) \<times> 'h stage_state \<times> 's" where
  "run_stage_body ph t0 ts st e s =
     (let e0 = e\<lparr>se_tracker := reset_for_stage (ph_hist ph) t0 (StageConfig.name st) (live_stage (config st)) (se_tracker e)\<rparr>
      in case config st of
           Prepare _ \<Rightarrow> run_prepare_stage ph t0 ts st e0 s
         | Execute d \<Rightarrow> run_execute_stage ph t0 st d e0 s
         | Cleanup _ \<Rightarrow> run_cleanup_stage ph t0 st e0 s
         | Custom cmd args \<Rightarrow> run_custom_stage ph t0 cmd args e0 s
         | Hybrid d tasks \<Rightarrow> run_hybrid_stage ph t0 st d tasks e0 s
         | Validation \<Rightarrow> (Inr nothing_captured, e0, s))"

text \<open>The kind of a stage as the summary names it.\<close>

definition stage_type :: "StageSpecificConfig \<Rightarrow> string" where
  "stage_type sc =
     (case sc of Prepare _ \<Rightarrow> ''prepare'' | Execute _ \<Rightarrow> ''execute'' | Cleanup _ \<Rightarrow> ''cleanup'' | Custom _ _ \<Rightarrow> ''custom''
      | Hybrid _ _ \<Rightarrow> ''hybrid'' | Validation \<Rightarrow> ''validation'')"

definition sent_hists :: "'h hist_wire \<Rightarrow> 'h OpHists option \<Rightarrow> nat list" where
  "sent_hists hw hs = (case hs of None \<Rightarrow> [] | Some hs \<Rightarrow> serialize_ophists hw hs)"

text \<open>Histograms of the stage if it kept any, else the three of the live statistics.\<close>

definition stage_hist_bytes :: "'h hist_wire \<Rightarrow> 'h captured \<Rightarrow> 'h LiveStatsTracker \<Rightarrow> nat list \<times> nat list \<times> nat list" where
  "stage_hist_bytes hw c t =
     (if cap_get_hists c \<noteq> None \<or> cap_put_hists c \<noteq> None
      then (sent_hists hw (cap_get_hists c), sent_hists hw (cap_put_hists c), sent_hists hw (cap_meta_hists c))
      else (case serialize_histograms (\<lambda>h. Inr (hw_write hw h)) t of Inl _ \<Rightarrow> ([], [], []) | Inr b \<Rightarrow> b))"

definition stage_report ::
  "('h, 's) phases \<Rightarrow> nat \<Rightarrow> nat \<Rightarrow> StageConfig \<Rightarrow> 'h captured \<Rightarrow> 'h LiveStatsTracker \<Rightarrow> StageReport" where
  "stage_report ph t1 stage_index st c t =
     (let sn = live_snapshot (ph_hist ph) (ph_unused ph) t1 t; (g, p, m) = stage_hist_bytes (ph_wire ph) c t
      in \<lparr> ss_index = stage_index, ss_name = StageConfig.name st, sr_type = stage_type (config st),
           sr_wall = of_nat (sn_stage_elapsed sn) / 1000000000, sr_get_ops = sn_get_ops sn, sr_get_bytes = sn_get_bytes sn,
           sr_put_ops = sn_put_ops sn, sr_put_bytes = sn_put_bytes sn, sr_meta_ops = sn_meta_ops sn, sr_errors = 0,
           sr_hist_get = g, sr_hist_put = p, sr_hist_meta = m,
           sr_get_bins = map_option size_bins_to_proto (cap_get_bins c), sr_put_bins = map_option size_bins_to_proto (cap_put_bins c),
           sr_meta_bins = map_option size_bins_to_proto (cap_meta_bins c) \<rparr>)"

text \<open>
  The stages one after the other, each with the times of its reset and of its summary, as long as they
  succeed: the summaries in order, or the error of the stage that failed.
\<close>

fun run_stages ::
  "('h, 's) phases \<Rightarrow> nat \<Rightarrow> (StageConfig \<times> nat \<times> nat \<times> string) list \<Rightarrow> 'h stage_state \<Rightarrow> 's
    \<Rightarrow> (string + StageReport list) \<times> 'h stage_state \<times> 's" where
  "run_stages ph k [] e s = (Inr [], e, s)"
| "run_stages ph k ((st, t0, t1, ts) # sts) e s =
     (case run_stage_body ph t0 ts st e s of
        (Inl err, e', s') \<Rightarrow> (Inl err, e', s')
      | (Inr c, e', s') \<Rightarrow>
          (case run_stages ph (k + 1) sts e' s' of
             (r, e'', s'') \<Rightarrow> (bind_result r (\<lambda>rs. Inr (stage_report ph t1 k st c (se_tracker e') # rs)), e'', s'')))"

section \<open>Runs without a prepare stage\<close>

lemma from_tree_unassigned: "get_agent_dirs (from_tree t) a = []"
  by (auto simp: from_tree_def compute_file_ranges_def get_agent_dirs_def Let_def split: option.split prod.split)

lemma first_manifest_cases:
  assumes "first_manifest sts cfg = Some m"
  obtains pc dc t where "prepare cfg = Some pc" "directory_structure pc = Some dc" "tree_new dc = Inr t" "m = from_tree t"
  using assms by (auto simp: first_manifest_def split: if_splits option.splits sum.splits)

text \<open>
  A workflow without a prepare stage gets its directory tree from the configuration, the same tree a
  prepare stage would return but for one thing: no directory is assigned to any agent. So every agent's
  exclusive selection is a random selection from the whole tree, choice by choice, and different agents
  read and write the same files.
\<close>

lemma no_prepare_no_exclusivity:
  assumes "first_manifest sts cfg = Some m" "prepare cfg = Some pc"
  shows "(\<exists>m'. create_tree_manifest_only pc n = Inr m' \<and> all_directories m' = all_directories m \<and> file_ranges m' = file_ranges m)
    \<and> select_file g (path_selector_new m a n Exclusive ov) r = select_file g (path_selector_new m b n RandomPath ov) r"
proof
  obtain dc t where t: "directory_structure pc = Some dc" "tree_new dc = Inr t" "m = from_tree t"
    using first_manifest_cases [OF assms(1)] assms(2) by (metis option.inject)
  then show "\<exists>m'. create_tree_manifest_only pc n = Inr m' \<and> all_directories m' = all_directories m \<and> file_ranges m' = file_ranges m"
    by (simp add: create_tree_manifest_only_def assign_agents_def)
  have none: "get_agent_dirs m a = []" for a unfolding t(3) by (rule from_tree_unassigned)
  have fields: "ps_manifest (path_selector_new m d n st ov) = m" for d st by (simp add: path_selector_new_def)
  have dirs: "select_directory_with_files g (path_selector_new m a n Exclusive ov) r
      = select_directory_with_files g (path_selector_new m b n RandomPath ov) r"
    by (simp add: select_directory_with_files_def select_directory_def select_exclusive_def select_random_def pick_assigned_def
        assigned_with_files_def agent_dirs_def dirs_with_files_def path_selector_new_def none)
  then show "select_file g (path_selector_new m a n Exclusive ov) r = select_file g (path_selector_new m b n RandomPath ov) r"
    by (simp only: select_file_def dirs fields)
qed

section \<open>Cleanup stages\<close>

lemma nothing_prepared_stays:
  assumes "run_stage_body ph t0 ts st e s = (r, e', s')" "\<not> is_prepare_stage st" "se_prepared e = []"
  shows "se_prepared e' = []"
  using assms
  by (cases "config st")
     (auto simp: run_stage_body_def run_execute_stage_def run_cleanup_stage_def run_custom_stage_def run_hybrid_stage_def
       is_prepare_stage_def Let_def split: prod.splits sum.splits option.splits)

lemma nothing_prepared_run:
  "run_stages ph k sts e s = (r, e', s') \<Longrightarrow> \<not> has_prepare_stage (map fst sts) \<Longrightarrow> se_prepared e = [] \<Longrightarrow> se_prepared e' = []"
proof (induction ph k sts e s arbitrary: r e' s' rule: run_stages.induct)
  case (2 ph k st t0 t1 ts sts e s)
  obtain rb eb sb where b: "run_stage_body ph t0 ts st e s = (rb, eb, sb)" by (cases "run_stage_body ph t0 ts st e s")
  have none: "\<not> is_prepare_stage st" "\<not> has_prepare_stage (map fst sts)"
    using "2.prems"(2) by (simp_all add: has_prepare_stage_def)
  have eb: "se_prepared eb = []" using nothing_prepared_stays [OF b none(1) "2.prems"(3)] .
  show ?case
  proof (cases rb)
    case (Inl err)
    then show ?thesis using "2.prems"(1) eb b by simp
  next
    case (Inr c)
    then show ?thesis using "2.prems"(1) "2.IH" [OF b [symmetric] Inr refl] eb none(2) b
      by (auto split: prod.splits)
  qed
qed simp

text \<open>
  A cleanup stage deletes what the prepare stage of the same workflow returned, and nothing else. In a
  workflow without a prepare stage, whatever ran before, every cleanup stage succeeds and leaves the world
  exactly as it is: no object is listed and none is deleted.
\<close>

lemma cleanup_without_prepare_deletes_nothing:
  assumes "\<not> has_prepare_stage (map fst sts)"
    and "run_stages ph 1 sts (stages_begin (map fst sts) cfg t) s = (r, e', s')"
    and "config st = Cleanup n"
  shows "\<exists>e''. run_stage_body ph t0 ts st e' s' = (Inr nothing_captured, e'', s')"
proof -
  have "se_prepared e' = []"
    by (rule nothing_prepared_run [OF assms(2,1)]) (simp add: stages_begin_def)
  then show ?thesis
    by (cases "prepare (se_config e')")
       (auto simp: run_stage_body_def assms(3) run_cleanup_stage_def cleanup_prepared_objects_def Let_def split: option.split)
qed

text \<open>The duration of an execute stage stays in the configuration for the stages after it.\<close>

lemma execute_duration_stays:
  assumes "run_stage_body ph t0 ts st e s = (r, e', s')" "config st = Execute d"
  shows "cfg_duration (se_config e') = d"
  using assms by (auto simp: run_stage_body_def run_execute_stage_def Let_def split: prod.splits sum.splits)

section \<open>The table of a stage\<close>

lemma read_lenient_adds:
  assumes "wire_laws hg hc hw"
  shows "length accs = length xs \<Longrightarrow> read_lenient hg hw accs (serialize_ophists hw xs) = map2 (keep_add hg) accs xs"
proof (induction accs xs rule: list_induct2)
  case (Cons a as x xs)
  have "hw_read hw (hw_write hw x @ serialize_ophists hw xs) = (Some x, serialize_ophists hw xs)"
    using assms by (simp add: wire_laws_def)
  then show ?case using Cons.IH by (simp add: serialize_ophists_def)
qed (simp add: serialize_ophists_def)

lemma stage_hists_arrive:
  assumes "wire_laws hg hc hw" "length accs = length xs" "\<forall>h. hw_write hw h \<noteq> []"
  shows "read_stage_hists hg hw accs (serialize_ophists hw xs) = map2 (keep_add hg) accs xs"
  using assms(2,3) read_lenient_adds [OF assms(1,2)]
  by (cases xs) (simp_all add: read_stage_hists_def serialize_ophists_def)

lemma report_fields:
  "sr_hist_get (stage_report ph t1 k st c t) = fst (stage_hist_bytes (ph_wire ph) c t)"
  "sr_get_bins (stage_report ph t1 k st c t) = map_option size_bins_to_proto (cap_get_bins c)"
  by (simp_all add: stage_report_def Let_def split_beta)

text \<open>
  What the stage table of the controller makes of the summary of a stage. For an execute stage it adds
  the run's histogram of each size to the bucket of that size and gets the run's size bins. A hybrid stage
  runs the same workload but keeps none of its histograms and bins: all its operations are counted in the
  first bucket, that of size zero, from the live statistics, and without any bytes.
\<close>

lemma hybrid_stage_loses_sizes:
  assumes laws: "wire_laws (ph_hist ph) hc (ph_wire ph)" "hw_read (ph_wire ph) [] = (None, [])" "\<forall>h. hw_write (ph_wire ph) h \<noteq> []"
    and run: "\<forall>cfg m t s. fst (ph_run ph cfg m t s) = Inr sm" and bins: "agg_agrees (rm_get sm) (rm_get_bins sm)"
    and len: "length accs = length (rm_get_hists sm)" "accs \<noteq> []"
    and body: "run_stage_body ph t0 ts st e s = (Inr c, e', s')"
    and rep: "rep = stage_report ph t1 k st c (se_tracker e')"
  shows "(config st = Execute d \<longrightarrow>
            read_stage_hists (ph_hist ph) (ph_wire ph) accs (sr_hist_get rep) = map2 (keep_add (ph_hist ph)) accs (rm_get_hists sm)
            \<and> arrived_bins [sr_get_bins rep] = rm_get_bins sm)
       \<and> (config st = Hybrid dd tasks \<longrightarrow>
            read_stage_hists (ph_hist ph) (ph_wire ph) accs (sr_hist_get rep)
              = keep_add (ph_hist ph) (List.hd accs) (lt_get_hist (se_tracker e')) # tl accs
            \<and> arrived_bins [sr_get_bins rep] = [])"
proof (intro conjI impI)
  assume "config st = Execute d"
  then have c: "c = captured_run sm"
    using body run by (auto simp: run_stage_body_def run_execute_stage_def Let_def split: prod.splits sum.splits) (metis fst_conv sum.inject(2))
  then have "sr_hist_get rep = serialize_ophists (ph_wire ph) (rm_get_hists sm)"
    by (simp add: rep report_fields stage_hist_bytes_def captured_run_def sent_hists_def)
  then show "read_stage_hists (ph_hist ph) (ph_wire ph) accs (sr_hist_get rep) = map2 (keep_add (ph_hist ph)) accs (rm_get_hists sm)"
    using stage_hists_arrive [OF laws(1) len(1) laws(3)] by simp
  have "sr_get_bins rep = Some (size_bins_to_proto (rm_get_bins sm))" by (simp add: rep report_fields c captured_run_def)
  moreover have "bins_merge [] b = b" if "hwf b" for b
  proof -
    have "foldl (\<lambda>b (k, e). bins_put k e b) a b = a @ b" if "hwf (a @ b)" for a
      using that
    proof (induction b arbitrary: a)
      case (Cons x b)
      have "fst x \<notin> fst ` set a" using Cons.prems by (auto simp: hwf_def)
      then have "bins_put (fst x) (snd x) a = a @ [x]"
        by (simp add: bins_put_def hget_def map_of_eq_None_iff [THEN iffD2]) (induction a, auto simp: hput_def)
      then show ?case using Cons.IH [of "a @ [x]"] Cons.prems by (simp add: split_beta)
    qed simp
    then show ?thesis using that by (simp add: bins_merge_def)
  qed
  ultimately show "arrived_bins [sr_get_bins rep] = rm_get_bins sm"
    using bins by (simp add: arrived_bins_def merge_size_bins_def map_filter_simps agg_agrees_def size_bins_round_trip)
next
  assume "config st = Hybrid dd tasks"
  then have c: "c = nothing_captured"
    using body by (auto simp: run_stage_body_def run_hybrid_stage_def Let_def split: prod.splits sum.splits)
  then have "sr_hist_get rep = hw_write (ph_wire ph) (lt_get_hist (se_tracker e'))"
    by (simp add: rep report_fields stage_hist_bytes_def nothing_captured_def serialize_histograms_def)
  then show "read_stage_hists (ph_hist ph) (ph_wire ph) accs (sr_hist_get rep)
      = keep_add (ph_hist ph) (List.hd accs) (lt_get_hist (se_tracker e')) # tl accs"
    using lone_histogram_counts_as_zero [OF laws(1,2)] laws(3) len(2) by (cases accs) simp_all
  show "arrived_bins [sr_get_bins rep] = []"
    by (simp add: rep report_fields c nothing_captured_def arrived_bins_def merge_size_bins_def map_filter_simps)
qed

section \<open>A workflow of one agent\<close>

definition sample_phases :: "(string, string list) phases" where
  "sample_phases =
     \<lparr> ph_hist = text_hist, ph_unused = (\<lambda>h. h = []), ph_wire = text_wire, ph_prepare = (\<lambda>cfg t s. (Inl ''no'', t, s)),
       ph_run = (\<lambda>cfg m t s. (Inr (sample_run 1 ''a''), t\<lparr>lt_get_hist := ''a''\<rparr>, s)), ph_command = (\<lambda>c args s. (Inr True, s)),
       ph_store = list_store, ph_open = (\<lambda>_. Inr ()), ph_deleting = (\<lambda>_ t. t), ph_agent = ''a1'', ph_agent_index = 0 \<rparr>"

definition stage_of :: "StageSpecificConfig \<Rightarrow> StageConfig" where
  "stage_of sc =
     \<lparr> name = ''s'', order = 1, completion = DurationOrTasks, barrier = None, timeout_secs = None, optional = False, config = sc \<rparr>"

definition tree_config :: Config where
  "tree_config =
     (let c = sample_config ''s3://b/''
      in c\<lparr>prepare := map_option (\<lambda>pc. pc\<lparr>directory_structure := Some sample_tree_config\<rparr>) (prepare c)\<rparr>)"

lemma no_prepare_no_exclusivity_witness:
  "\<exists>m. first_manifest [stage_of (Execute 1)] tree_config = Some m
     \<and> select_file first_rng (path_selector_new m 0 2 Exclusive 0) () = select_file first_rng (path_selector_new m 1 2 RandomPath 0) ()"
proof -
  have m: "first_manifest [stage_of (Execute 1)] tree_config = Some (from_tree sample_tree)"
    by (simp add: first_manifest_def has_prepare_stage_def is_prepare_stage_def stage_of_def tree_config_def sample_config_def
        Let_def sample_tree_new)
  obtain pc where "prepare tree_config = Some pc" by (simp add: tree_config_def sample_config_def Let_def)
  from no_prepare_no_exclusivity [OF m this, where n = 2 and g = first_rng and a = 0 and b = 1 and ov = 0 and r = "()"] m
  show ?thesis by blast
qed

lemma cleanup_without_prepare_deletes_nothing_witness:
  "\<exists>e e'. run_stages sample_phases 1 [(stage_of (Hybrid None None), 1, 2, ''now'')]
        (stages_begin [stage_of (Hybrid None None)] tree_config (live_stats_new text_hist 0 1)) [''s3://b/x'']
      = (Inr [stage_report sample_phases 2 1 (stage_of (Hybrid None None)) nothing_captured (se_tracker e)], e, [''s3://b/x''])
    \<and> run_stage_body sample_phases 3 ''now'' (stage_of (Cleanup None)) e [''s3://b/x''] = (Inr nothing_captured, e', [''s3://b/x''])"
proof -
  let ?st = "stage_of (Hybrid None None)"
  let ?b = "stages_begin [?st] tree_config (live_stats_new text_hist 0 1)"
  obtain e where run: "run_stages sample_phases 1 [(?st, 1, 2, ''now'')] ?b [''s3://b/x'']
      = (Inr [stage_report sample_phases 2 1 ?st nothing_captured (se_tracker e)], e, [''s3://b/x''])"
    by (simp add: run_stage_body_def run_hybrid_stage_def sample_phases_def stage_of_def Let_def)
  have none: "\<not> has_prepare_stage (map fst [(?st, 1 :: nat, 2 :: nat, ''now'')])"
    by (simp add: has_prepare_stage_def is_prepare_stage_def stage_of_def)
  have "config (stage_of (Cleanup None)) = Cleanup None" by (simp add: stage_of_def)
  from cleanup_without_prepare_deletes_nothing [OF none _ this, of sample_phases tree_config "live_stats_new text_hist 0 1"] run
  show ?thesis by fastforce
qed

lemma hybrid_stage_loses_sizes_witness:
  "\<exists>c e'. run_stage_body sample_phases 1 ''now'' (stage_of (Hybrid None None))
        (stages_begin [] tree_config (live_stats_new text_hist 0 1)) [] = (Inr c, e', [])
     \<and> read_stage_hists text_hist text_wire (replicate NUM_BUCKETS '''')
         (sr_hist_get (stage_report sample_phases 2 1 (stage_of (Hybrid None None)) c (se_tracker e')))
       = ''a'' # replicate 8 ''''"
proof -
  let ?st = "stage_of (Hybrid None None)"
  let ?b = "stages_begin [] tree_config (live_stats_new text_hist 0 1)"
  obtain c e' where body: "run_stage_body sample_phases 1 ''now'' ?st ?b [] = (Inr c, e', [])" and t: "lt_get_hist (se_tracker e') = ''a''"
    by (simp add: run_stage_body_def run_hybrid_stage_def sample_phases_def stage_of_def Let_def)
  have laws: "wire_laws (ph_hist sample_phases) text_hist_codec (ph_wire sample_phases)" "hw_read (ph_wire sample_phases) [] = (None, [])"
      "\<forall>h. hw_write (ph_wire sample_phases) h \<noteq> []"
    using text_wire_laws by (simp_all add: sample_phases_def text_wire_def)
  have run: "\<forall>cfg m t s. fst (ph_run sample_phases cfg m t s) = Inr (sample_run 1 ''a'')" by (simp add: sample_phases_def)
  have bins: "agg_agrees (rm_get (sample_run 1 ''a'')) (rm_get_bins (sample_run 1 ''a''))"
    using sample_run_fields(4) by (simp add: table_ready_def)
  have len: "length (replicate NUM_BUCKETS '''') = length (rm_get_hists (sample_run 1 ''a''))" "replicate NUM_BUCKETS '''' \<noteq> []"
    by (simp_all add: NUM_BUCKETS_def)
  have st: "config ?st = Hybrid None None" by (simp add: stage_of_def)
  have "read_stage_hists text_hist text_wire (replicate NUM_BUCKETS '''') (sr_hist_get (stage_report sample_phases 2 1 ?st c (se_tracker e')))
      = keep_add text_hist '''' (lt_get_hist (se_tracker e')) # replicate 8 ''''"
    using hybrid_stage_loses_sizes [OF laws run bins len body refl, where d = 0 and dd = None and tasks = None] st
    by (simp add: sample_phases_def NUM_BUCKETS_def)
  then show ?thesis using body t by (auto simp: keep_add_def)
qed

end
