(* ===== verification/Preflight.thy ===== *)
theory Preflight
  imports Perf_Log Size_Text Prepare_Phase
begin

text \<open>
  The checks of an agent before a run (\<open>src/preflight/mod.rs\<close>, \<open>src/preflight/filesystem.rs\<close>,
  \<open>src/preflight/object_storage.rs\<close>): the results with their levels, the progressive tests of a directory, and
  the listing and write probe of the buckets.

  The operating system is an argument: a record of calls on a state \<open>'s\<close>, each of which may fail with an
  error. So are the object stores, the metadata services and the environment. Timeouts are answers of a
  call. Mount information is read from the text of \<open>/proc/mounts\<close>.
\<close>

section \<open>Results\<close>

datatype ErrorType = Authentication | Permission | Network | Configuration | Resource | System

datatype ResultLevel = RL_Success | RL_Info | RL_Warning | RL_Error

record ValidationResult =
  vr_level :: ResultLevel
  vr_type :: "ErrorType option"
  vr_message :: string
  vr_suggestion :: string
  vr_details :: "string option"
  vr_phase :: string

definition vr_error :: "ErrorType \<Rightarrow> string \<Rightarrow> string \<Rightarrow> string \<Rightarrow> ValidationResult" where
  "vr_error t phase msg sug =
     \<lparr> vr_level = RL_Error, vr_type = Some t, vr_message = msg, vr_suggestion = sug, vr_details = None, vr_phase = phase \<rparr>"

definition vr_warning :: "ErrorType \<Rightarrow> string \<Rightarrow> string \<Rightarrow> string \<Rightarrow> ValidationResult" where
  "vr_warning t phase msg sug =
     \<lparr> vr_level = RL_Warning, vr_type = Some t, vr_message = msg, vr_suggestion = sug, vr_details = None, vr_phase = phase \<rparr>"

definition vr_info :: "ErrorType \<Rightarrow> string \<Rightarrow> string \<Rightarrow> string \<Rightarrow> ValidationResult" where
  "vr_info t phase msg sug =
     \<lparr> vr_level = RL_Info, vr_type = Some t, vr_message = msg, vr_suggestion = sug, vr_details = None, vr_phase = phase \<rparr>"

definition vr_success :: "string \<Rightarrow> string \<Rightarrow> ValidationResult" where
  "vr_success phase msg =
     \<lparr> vr_level = RL_Success, vr_type = None, vr_message = msg, vr_suggestion = '''', vr_details = None, vr_phase = phase \<rparr>"

definition with_details :: "string \<Rightarrow> ValidationResult \<Rightarrow> ValidationResult" where
  "with_details d r = r\<lparr>vr_details := Some d\<rparr>"

type_synonym ValidationSummary = "ValidationResult list"

definition has_errors :: "ValidationSummary \<Rightarrow> bool" where
  "has_errors rs = list_ex (\<lambda>r. vr_level r = RL_Error) rs"

definition has_warnings :: "ValidationSummary \<Rightarrow> bool" where
  "has_warnings rs = list_ex (\<lambda>r. vr_level r = RL_Warning) rs"

definition level_count :: "ResultLevel \<Rightarrow> ValidationSummary \<Rightarrow> nat" where
  "level_count l rs = length (filter (\<lambda>r. vr_level r = l) rs)"

definition preflight_passed :: "ValidationSummary \<Rightarrow> bool" where "preflight_passed rs = (\<not> has_errors rs)"

text \<open>The verdict and the two counts that the printing of results returns.\<close>

definition display_validation_results :: "ValidationResult list \<Rightarrow> bool \<times> nat \<times> nat" where
  "display_validation_results rs =
     (let (e, w) = foldl (\<lambda>(e, w) r.
            if vr_level r = RL_Error then (e + 1, w) else if vr_level r = RL_Warning then (e, w + 1) else (e, w)) (0, 0) rs
      in (e = 0, e, w))"

lemma display_counts:
  "display_validation_results rs = (preflight_passed rs, level_count RL_Error rs, level_count RL_Warning rs)"
proof -
  have "foldl (\<lambda>(e, w) r.
            if vr_level r = RL_Error then (e + 1, w) else if vr_level r = RL_Warning then (e, w + 1) else (e, w)) (a, b) rs
        = (a + level_count RL_Error rs, b + level_count RL_Warning rs)" for a b
    by (induction rs arbitrary: a b) (simp_all add: level_count_def)
  moreover have "level_count RL_Error rs = 0 \<longleftrightarrow> preflight_passed rs"
    by (induction rs) (auto simp: level_count_def preflight_passed_def has_errors_def)
  ultimately show ?thesis by (simp add: display_validation_results_def)
qed

text \<open>What is printed of a result, with the glyphs as their UTF-8 bytes.\<close>

fun level_icon :: "ResultLevel \<Rightarrow> string" where
  "level_icon RL_Success = [CHR 0xE2, CHR 0x9C, CHR 0x93]"
| "level_icon RL_Info = [CHR 0xE2, CHR 0x84, CHR 0xB9]"
| "level_icon RL_Warning = [CHR 0xE2, CHR 0x9A, CHR 0xA0]"
| "level_icon RL_Error = [CHR 0xE2, CHR 0x9C, CHR 0x97]"

fun error_tag :: "ErrorType option \<Rightarrow> string" where
  "error_tag (Some Authentication) = ''[AUTH]''"
| "error_tag (Some Permission) = ''[PERM]''"
| "error_tag (Some Network) = ''[NET]''"
| "error_tag (Some Configuration) = ''[CONFIG]''"
| "error_tag (Some Resource) = ''[RESOURCE]''"
| "error_tag (Some System) = ''[SYSTEM]''"
| "error_tag None = ''[UNKNOWN]''"

definition result_lines :: "string option \<Rightarrow> ValidationResult \<Rightarrow> string list" where
  "result_lines agent r =
     [''  '' @ level_icon (vr_level r) @ '' '' @ error_tag (vr_type r) @ '' '' @ vr_message r
        @ (case agent of None \<Rightarrow> [] | Some a \<Rightarrow> '' (agent: '' @ a @ '')'')]
     @ (if vr_suggestion r = [] then [] else [''      '' @ [CHR 0xE2, CHR 0x86, CHR 0x92] @ '' '' @ vr_suggestion r])
     @ (case vr_details r of Some d \<Rightarrow> if d = [] then [] else [''      Details: '' @ d] | None \<Rightarrow> [])"

definition validation_output :: "ValidationResult list \<Rightarrow> string option \<Rightarrow> string list" where
  "validation_output rs agent = concat (map (result_lines agent) rs)"

section \<open>The file system\<close>

datatype io_error = NotFound | PermissionDenied | AlreadyExists | OtherIo string

record file_meta =
  fm_dir :: bool
  fm_file :: bool
  fm_uid :: nat
  fm_gid :: nat
  fm_mode :: nat

record 's fs_calls =
  fs_meta :: "string \<Rightarrow> 's \<Rightarrow> io_error + file_meta"
  fs_entries :: "string \<Rightarrow> 's \<Rightarrow> io_error + (string \<times> bool) list"
  fs_open :: "string \<Rightarrow> 's \<Rightarrow> io_error + unit"
  fs_create :: "string \<Rightarrow> 's \<Rightarrow> (io_error + unit) \<times> 's"
  fs_write :: "string \<Rightarrow> string \<Rightarrow> 's \<Rightarrow> (io_error + unit) \<times> 's"
  fs_mkdir :: "string \<Rightarrow> 's \<Rightarrow> (io_error + unit) \<times> 's"
  fs_remove :: "string \<Rightarrow> 's \<Rightarrow> (io_error + unit) \<times> 's"
  fs_rmdir :: "string \<Rightarrow> 's \<Rightarrow> (io_error + unit) \<times> 's"
  fs_space :: "string \<Rightarrow> 's \<Rightarrow> io_error + nat"
  fs_mounts :: "string option"
  fs_uid :: nat
  fs_gid :: nat
  fs_groups :: "nat list"
  fs_user :: "nat \<Rightarrow> string option"
  fs_group :: "nat \<Rightarrow> string option"
  fs_text :: "io_error \<Rightarrow> string"

definition fs_exists :: "'s fs_calls \<Rightarrow> string \<Rightarrow> 's \<Rightarrow> bool" where
  "fs_exists fs p s = is_ok (fs_meta fs p s)"

definition path_join :: "string \<Rightarrow> string \<Rightarrow> string" where
  "path_join p q =
     (if q \<noteq> [] \<and> List.hd q = CHR ''/'' then q else if p = [] \<or> ends_with p ''/'' then p @ q else p @ ''/'' @ q)"

definition named :: "(nat \<Rightarrow> string option) \<Rightarrow> string \<Rightarrow> nat \<Rightarrow> string" where
  "named f what n = (case f n of Some s \<Rightarrow> s | None \<Rightarrow> what @ ''='' @ show_nat n)"

definition check_user_identity :: "'s fs_calls \<Rightarrow> ValidationResult list" where
  "check_user_identity fs =
     [vr_info System ''identity''
        (''Current user: uid='' @ show_nat (fs_uid fs) @ '' ('' @ named (fs_user fs) ''uid'' (fs_uid fs) @ ''), gid=''
          @ show_nat (fs_gid fs) @ '' ('' @ named (fs_group fs) ''gid'' (fs_gid fs) @ '')'')
        ''Process is running with these credentials'']"

definition critical_dirs :: "string list" where
  "critical_dirs = [''/etc'', ''/usr'', ''/sys'', ''/proc'', ''/boot'', ''/root'']"

definition sensitive_dirs :: "string list" where "sensitive_dirs = [''/var/lib'', ''/var/log'', ''/var/spool'']"

definition is_file_at :: "'s fs_calls \<Rightarrow> string \<Rightarrow> 's \<Rightarrow> bool" where
  "is_file_at fs p s = (case fs_meta fs p s of Inl _ \<Rightarrow> False | Inr m \<Rightarrow> fm_file m)"

definition sensitive_warnings :: "string \<Rightarrow> ValidationResult list" where
  "sensitive_warnings p =
     map (\<lambda>d. vr_warning Configuration ''safety'' (''Using sensitive system directory: '' @ p)
            (''Consider using /tmp or dedicated mount point instead of '' @ d))
       (filter (starts_with p) sensitive_dirs)"

definition check_protected_paths :: "'s fs_calls \<Rightarrow> string \<Rightarrow> 's \<Rightarrow> ValidationResult list" where
  "check_protected_paths fs p s =
     (case find (starts_with p) critical_dirs of
        Some d \<Rightarrow>
          [vr_error Configuration ''safety'' (''Refusing to test in system directory: '' @ p)
             (''Do not use '' @ d @ '' for benchmarking - use /tmp or a dedicated mount point'')]
      | None \<Rightarrow>
          (if starts_with p ''/dev/'' \<and> \<not> fs_exists fs p s
           then [vr_error Configuration ''safety'' (''Device does not exist: '' @ p) ''Verify device path is correct'']
           else (if starts_with p ''/dev/'' \<and> is_file_at fs p s
                 then [vr_warning Configuration ''safety'' (''Testing against device file: '' @ p)
                         ''Ensure this is a block device intended for testing (data will be overwritten)'']
                 else []) @ sensitive_warnings p))"

definition test_stat_access :: "'s fs_calls \<Rightarrow> string \<Rightarrow> 's \<Rightarrow> ValidationResult" where
  "test_stat_access fs p s =
     (case fs_meta fs p s of
        Inr m \<Rightarrow>
          (if fm_dir m then vr_success ''stat'' ''Directory exists and is accessible''
           else vr_error Configuration ''stat'' (''Path exists but is not a directory: '' @ p)
                  ''Ensure data_root points to a directory, not a file'')
      | Inl NotFound \<Rightarrow>
          vr_error Configuration ''stat'' (''Directory does not exist: '' @ p)
            ''Directory must be created manually before running benchmarks for safety''
      | Inl PermissionDenied \<Rightarrow>
          vr_error Permission ''stat'' (''Permission denied accessing directory: '' @ p) (''Grant read permission: chmod +r '' @ p)
      | Inl e \<Rightarrow> vr_error System ''stat'' (''Failed to access directory: '' @ fs_text fs e) ''Check filesystem health and mount status'')"

text \<open>The permission bits in octal.\<close>

fun octal_digits :: "nat \<Rightarrow> nat \<Rightarrow> string" where
  "octal_digits 0 n = ''''"
| "octal_digits (Suc k) n = (if n < 8 then show_nat n else octal_digits k (n div 8) @ show_nat (n mod 8))"

definition check_directory_ownership :: "'s fs_calls \<Rightarrow> string \<Rightarrow> 's \<Rightarrow> ValidationResult option" where
  "check_directory_ownership fs p s =
     (case fs_meta fs p s of
        Inl _ \<Rightarrow> None
      | Inr m \<Rightarrow>
          (let msg = ''Directory owner: uid='' @ show_nat (fm_uid m) @ '' ('' @ named (fs_user fs) ''uid'' (fm_uid m) @ ''), gid=''
                 @ show_nat (fm_gid m) @ '' ('' @ named (fs_group fs) ''gid'' (fm_gid m) @ ''), perms='' @ octal_digits 3 (fm_mode m mod 512)
           in if (fs_uid fs = fm_uid m \<or> fs_uid fs = 0) \<or> (fs_gid fs = fm_gid m \<or> fm_gid m \<in> set (fs_groups fs))
              then Some (vr_info System ''ownership'' msg ''Ownership permissions look good'')
              else Some (vr_info Permission ''ownership'' msg
                (''User is not owner and not in group - relying on '' @ [CHR 0x27] @ ''other'' @ [CHR 0x27] @ '' permissions ('' @ show_nat (fm_mode m mod 8) @ '')''))))"

definition test_list_access :: "'s fs_calls \<Rightarrow> string \<Rightarrow> 's \<Rightarrow> ValidationResult" where
  "test_list_access fs p s =
     (case fs_entries fs p s of
        Inr _ \<Rightarrow> vr_success ''list'' ''Directory listing successful''
      | Inl PermissionDenied \<Rightarrow>
          vr_error Permission ''list'' (''Permission denied listing directory: '' @ p) (''Grant read+execute permission: chmod +rx '' @ p)
      | Inl e \<Rightarrow> vr_error System ''list'' (''Failed to list directory: '' @ fs_text fs e) ''Check filesystem health'')"

definition test_read_access :: "'s fs_calls \<Rightarrow> string \<Rightarrow> 's \<Rightarrow> ValidationResult" where
  "test_read_access fs p s =
     (case fs_entries fs p s of
        Inl e \<Rightarrow> vr_error Permission ''read'' (''Failed to list directory for read test: '' @ fs_text fs e) ''Check read permission on directory''
      | Inr es \<Rightarrow>
          (case filter snd es of
             [] \<Rightarrow> vr_success ''read'' ''Directory is empty - read access will be tested during workload''
           | (f, _) # _ \<Rightarrow>
               (case fs_open fs f s of
                  Inr _ \<Rightarrow> vr_success ''read'' (''Read access confirmed (tested '' @ f @ '')'')
                | Inl PermissionDenied \<Rightarrow>
                    vr_error Permission ''read'' (''Permission denied reading file: '' @ f) ''Grant read permission on files''
                | Inl e \<Rightarrow> vr_warning System ''read'' (''Failed to read file: '' @ fs_text fs e) ''Some files may not be readable'')))"

text \<open>The writing tests, which change the directory. \<open>None\<close> as a result is an error that the caller reports.\<close>

definition preflight_file :: "string \<Rightarrow> string" where "preflight_file p = path_join p ''.sai3bench_preflight_test''"

definition preflight_dir :: "string \<Rightarrow> string" where "preflight_dir p = path_join p ''.sai3bench_preflight_test_dir''"

definition write_denied :: "'s fs_calls \<Rightarrow> string \<Rightarrow> 's \<Rightarrow> string + ValidationResult" where
  "write_denied fs p s =
     (case fs_meta fs p s of
        Inl e \<Rightarrow> Inl (fs_text fs e)
      | Inr m \<Rightarrow>
          Inr (with_details
            (''EACCES: Permission denied - directory owner: uid='' @ show_nat (fm_uid m) @ '', gid='' @ show_nat (fm_gid m))
            (vr_error Permission ''write'' (''Permission denied creating test file: '' @ preflight_file p)
               (if fs_uid fs = 0 then ''Check directory permissions: chmod +w '' @ p
                else if fs_uid fs \<noteq> fm_uid m
                then ''Grant write permission: sudo chmod g+w '' @ p @ '' && sudo chgrp '' @ show_nat (fs_gid fs) @ '' '' @ p
                else ''Grant write permission: chmod +w '' @ p))))"

definition test_write_access :: "'s fs_calls \<Rightarrow> string \<Rightarrow> 's \<Rightarrow> (string + ValidationResult) \<times> 's" where
  "test_write_access fs p s =
     (case fs_create fs (preflight_file p) s of
        (Inr _, s1) \<Rightarrow>
          (case fs_write fs (preflight_file p) ''sai3-bench pre-flight test'' s1 of
             (Inl e, s2) \<Rightarrow>
               (Inr (vr_error Permission ''write'' (''Failed to write test file: '' @ fs_text fs e) ''Check write permission and disk space''), s2)
           | (Inr _, s2) \<Rightarrow> (Inr (vr_success ''write'' ''Write access confirmed (test file created)''), s2))
      | (Inl PermissionDenied, s1) \<Rightarrow> (write_denied fs p s1, s1)
      | (Inl e, s1) \<Rightarrow>
          (Inr (vr_error System ''write'' (''Failed to create test file: '' @ fs_text fs e) ''Check filesystem health and available space''), s1))"

definition test_mkdir_access :: "'s fs_calls \<Rightarrow> string \<Rightarrow> 's \<Rightarrow> ValidationResult \<times> 's" where
  "test_mkdir_access fs p s =
     (case fs_mkdir fs (preflight_dir p) s of
        (Inr _, s1) \<Rightarrow> (vr_success ''mkdir'' ''Subdirectory creation successful'', s1)
      | (Inl PermissionDenied, s1) \<Rightarrow>
          (vr_error Permission ''mkdir'' ''Permission denied creating subdirectory'' (''Grant write permission: chmod +w '' @ p), s1)
      | (Inl AlreadyExists, s1) \<Rightarrow> (vr_success ''mkdir'' ''Subdirectory creation successful (already exists from previous test)'', s1)
      | (Inl e, s1) \<Rightarrow> (vr_error System ''mkdir'' (''Failed to create subdirectory: '' @ fs_text fs e) ''Check filesystem health'', s1))"

definition delete_item ::
  "'s fs_calls \<Rightarrow> (string \<Rightarrow> 's \<Rightarrow> (io_error + unit) \<times> 's) \<Rightarrow> string \<Rightarrow> string \<Rightarrow> 's \<Rightarrow> (string list \<times> string list) \<times> 's" where
  "delete_item fs rm what p s =
     (if fs_exists fs p s
      then (case rm p s of
              (Inr _, s1) \<Rightarrow> (([what], []), s1)
            | (Inl PermissionDenied, s1) \<Rightarrow> (([], [''Permission denied deleting '' @ what @ '': '' @ fs_text fs PermissionDenied]), s1)
            | (Inl e, s1) \<Rightarrow> (([], [''Failed to delete '' @ what @ '': '' @ fs_text fs e]), s1))
      else (([], []), s))"

definition test_delete_access :: "'s fs_calls \<Rightarrow> string \<Rightarrow> 's \<Rightarrow> ValidationResult \<times> 's" where
  "test_delete_access fs p s =
     (let ((d1, e1), s1) = delete_item fs (fs_remove fs) ''file'' (preflight_file p) s;
          ((d2, e2), s2) = delete_item fs (fs_rmdir fs) ''directory'' (preflight_dir p) s1
      in (if e1 @ e2 \<noteq> []
          then vr_error Permission ''delete'' (''Delete access failed: '' @ join_with '', '' (e1 @ e2))
                 (''Grant delete permission: chmod +w '' @ p)
          else if d1 @ d2 = [] then vr_success ''delete'' ''Delete access check completed (no test files to delete)''
          else vr_success ''delete'' (''Delete access confirmed (removed test '' @ join_with '' and '' (d1 @ d2) @ '')''), s2))"

definition check_disk_space :: "'s fs_calls \<Rightarrow> string \<Rightarrow> nat \<Rightarrow> 's \<Rightarrow> string + ValidationResult" where
  "check_disk_space fs p required s =
     (case fs_space fs p s of
        Inl e \<Rightarrow> Inl ''Failed to check disk space''
      | Inr available \<Rightarrow>
          (if available < cast_u64 (of_nat required * (12 / 10))
           then Inr (vr_error Resource ''disk-space''
             (''Insufficient disk space: need '' @ show_fixed 2 (of_nat required / 1000000000) @ '' GB (+ 20% margin), have ''
               @ show_fixed 2 (of_nat available / 1000000000) @ '' GB'')
             ''Free up disk space or reduce num_objects/object_size in configuration'')
           else Inr (vr_success ''disk-space''
             (''Sufficient disk space available: '' @ show_fixed 2 (of_nat available / 1000000000) @ '' GB''))))"

text \<open>The mount point with the longest name that the path begins with, the first of equal length.\<close>

record MountInfo =
  mi_fs_type :: string
  mi_device :: string
  mi_point :: string

definition mount_step :: "string \<Rightarrow> string \<Rightarrow> MountInfo option \<times> nat \<Rightarrow> MountInfo option \<times> nat" where
  "mount_step p line best =
     (case filter (\<lambda>w. w \<noteq> []) (split_on (CHR '' '') (map (\<lambda>c. if is_ws c then CHR '' '' else c) line)) of
        dev # pt # ty # _ \<Rightarrow>
          (if starts_with p pt \<and> snd best < length pt
           then (Some \<lparr> mi_fs_type = ty, mi_device = dev, mi_point = pt \<rparr>, length pt) else best)
      | _ \<Rightarrow> best)"

definition detect_mount_point :: "'s fs_calls \<Rightarrow> string \<Rightarrow> MountInfo option" where
  "detect_mount_point fs p =
     (case fs_mounts fs of
        None \<Rightarrow> None
      | Some txt \<Rightarrow> fst (fold (mount_step p) (split_on (CHR 0x0A) txt) (None, 0)))"

definition mount_info :: "'s fs_calls \<Rightarrow> string \<Rightarrow> ValidationResult list" where
  "mount_info fs p =
     (case detect_mount_point fs p of
        None \<Rightarrow> []
      | Some m \<Rightarrow> [vr_info System ''mount'' (''Mount type: '' @ mi_fs_type m @ '' ('' @ mi_device m @ '')'') (''Mount point: '' @ mi_point m)])"

text \<open>The tests in their order; an error of the stat, list or write test ends them.\<close>

definition space_results :: "'s fs_calls \<Rightarrow> string \<Rightarrow> nat option \<Rightarrow> 's \<Rightarrow> ValidationResult list" where
  "space_results fs p required s =
     (case required of
        None \<Rightarrow> []
      | Some n \<Rightarrow>
          (case check_disk_space fs p n s of
             Inr r \<Rightarrow> [r]
           | Inl e \<Rightarrow> [vr_warning Resource ''disk-space'' (''Failed to check disk space: '' @ e) ''Workload may fail if disk is full'']))"

definition write_tests :: "'s fs_calls \<Rightarrow> string \<Rightarrow> nat option \<Rightarrow> 's \<Rightarrow> ValidationResult list \<times> 's" where
  "write_tests fs p required s =
     (case test_write_access fs p s of
        (Inl e, s1) \<Rightarrow>
          ([vr_error Permission ''write'' (''Failed to test write access: '' @ e) ''Check write permission on directory''], s1)
      | (Inr r, s1) \<Rightarrow>
          (if vr_level r = RL_Error then ([r], s1)
           else (let (rm, s2) = test_mkdir_access fs p s1; (rd, s3) = test_delete_access fs p s2
                 in (r # rm # rd # space_results fs p required s3, s3))))"

definition validate_filesystem :: "'s fs_calls \<Rightarrow> string \<Rightarrow> bool \<Rightarrow> nat option \<Rightarrow> 's \<Rightarrow> ValidationSummary \<times> 's" where
  "validate_filesystem fs p check_write required s =
     (let first = check_user_identity fs @ check_protected_paths fs p s; st = test_stat_access fs p s
      in if vr_level st = RL_Error then (first @ [st], s)
         else (let owner = (case check_directory_ownership fs p s of None \<Rightarrow> [] | Some r \<Rightarrow> [r]);
                   upto_list = first @ [st] @ owner @ mount_info fs p; ls = test_list_access fs p s
               in if vr_level ls = RL_Error then (upto_list @ [ls], s)
                  else (let rs = upto_list @ [ls, test_read_access fs p s]
                        in if check_write then (let (ws, s') = write_tests fs p required s in (rs @ ws, s')) else (rs, s))))"

section \<open>Object storage\<close>

text \<open>An error has its text for users and its debug text; a call may also give no answer in time.\<close>

record storage_error =
  er_display :: string
  er_debug :: string

datatype 'a reply = NoReply | Reply "storage_error + 'a"

record 's object_calls =
  ob_role :: "string option"
  ob_service_account :: "string option"
  ob_identity :: "string option"
  ob_env :: "string \<Rightarrow> bool"
  ob_open :: "string \<Rightarrow> string + unit"
  ob_first :: "string \<Rightarrow> 's \<Rightarrow> (string option) reply"
  ob_put :: "string \<Rightarrow> string \<Rightarrow> 's \<Rightarrow> unit reply \<times> 's"
  ob_get :: "string \<Rightarrow> 's \<Rightarrow> string reply"
  ob_delete :: "string \<Rightarrow> 's \<Rightarrow> unit reply \<times> 's"
  ob_random :: "'s \<Rightarrow> nat \<times> 's"

definition em_dash :: string where "em_dash = [CHR 0xE2, CHR 0x80, CHR 0x94]"

definition credentials_info :: "string \<Rightarrow> string \<Rightarrow> ValidationResult" where
  "credentials_info msg sug = vr_info Authentication ''credentials'' msg sug"

definition detect_permission_source :: "'s object_calls \<Rightarrow> ValidationResult" where
  "detect_permission_source ob =
     (case ob_role ob of
        Some r \<Rightarrow> credentials_info (''Using EC2 IAM role: '' @ r) ''Instance-level permissions detected''
      | None \<Rightarrow>
     (case ob_service_account ob of
        Some r \<Rightarrow> credentials_info (''Using GCP service account: '' @ r) ''Instance-level permissions detected''
      | None \<Rightarrow>
     (case ob_identity ob of
        Some r \<Rightarrow> credentials_info (''Using Azure managed identity: '' @ r) ''Instance-level permissions detected''
      | None \<Rightarrow>
        if ob_env ob ''AWS_ACCESS_KEY_ID''
        then credentials_info ''Using AWS credentials from environment variables'' ''Credentials: AWS_ACCESS_KEY_ID + AWS_SECRET_ACCESS_KEY''
        else if ob_env ob ''GOOGLE_APPLICATION_CREDENTIALS''
        then credentials_info ''Using GCP credentials from GOOGLE_APPLICATION_CREDENTIALS'' ''Service account key file detected''
        else if ob_env ob ''AZURE_STORAGE_ACCOUNT''
        then credentials_info ''Using Azure credentials from environment variables'' ''AZURE_STORAGE_ACCOUNT detected''
        else vr_warning Authentication ''credentials'' ''No credentials detected (env vars or instance-level)''
               ''Set AWS_ACCESS_KEY_ID/AWS_SECRET_ACCESS_KEY or use instance IAM role'')))"

text \<open>What counts as the bucket of a URI: the first segment after the first slash behind the scheme.\<close>

definition bucket_label :: "string \<Rightarrow> string" where
  "bucket_label uri =
     (case find_sub ''://'' uri of
        None \<Rightarrow> uri
      | Some i \<Rightarrow>
          (let rest = drop (i + 3) uri
           in case find_sub ''/'' rest of
                None \<Rightarrow> uri
              | Some j \<Rightarrow> (let bucket = takeWhile (\<lambda>c. c \<noteq> CHR ''/'') (drop (j + 1) rest) in if bucket = [] then uri else bucket)))"

definition contains_any :: "string list \<Rightarrow> string \<Rightarrow> bool" where "contains_any ws s = list_ex (str_contains s) ws"

definition classify_storage_error :: "storage_error \<Rightarrow> ErrorType \<times> string" where
  "classify_storage_error e =
     (let display = to_lowercase (er_display e); debug = to_lowercase (er_debug e)
      in if contains_any [''403'', ''forbidden'', ''accessdenied'', ''access denied''] display
            \<or> contains_any [''403'', ''forbidden'', ''accessdenied''] debug
         then (Permission, ''Check bucket name, credentials, and IAM/ACL permissions'')
         else if contains_any [''401'', ''unauthorized'', ''unauthenticated''] display \<or> contains_any [''401'', ''unauthorized''] debug
         then (Authentication, ''Credentials invalid or expired '' @ em_dash @ '' check AWS_ACCESS_KEY_ID / AWS_SECRET_ACCESS_KEY'')
         else if contains_any [''404'', ''nosuchbucket'', ''no such bucket'', ''not found''] display \<or> contains_any [''nosuchbucket'', ''404''] debug
         then (Configuration, ''Bucket does not exist or endpoint path is incorrect'')
         else if contains_any [''service error''] display \<or> contains_any [''service error''] debug
         then (Permission, ''S3 service returned an error '' @ em_dash @ '' likely 403 Forbidden (wrong bucket, missing credentials, or insufficient permissions). Check AWS credentials and bucket name.'')
         else (Network, ''Check network connectivity and storage backend availability''))"

text \<open>Endpoints by bucket, in the order of their first endpoints.\<close>

fun add_to_group :: "string \<Rightarrow> (string \<times> string list) list \<Rightarrow> (string \<times> string list) list" where
  "add_to_group ep [] = [(bucket_label ep, [ep])]"
| "add_to_group ep ((l, eps) # gs) =
     (if l = bucket_label ep then (l, eps @ [ep]) # gs else (l, eps) # add_to_group ep gs)"

definition bucket_groups :: "string list \<Rightarrow> (string \<times> string list) list" where
  "bucket_groups eps = fold add_to_group eps []"

definition show_hex8 :: "nat \<Rightarrow> string" where
  "show_hex8 n = replicate (8 - length (show_hex n)) (CHR ''0'') @ show_hex n"

definition PROBE_CONTENT :: string where "PROBE_CONTENT = ''sai3bench-write-probe-v1''"

definition probe_uri :: "string \<Rightarrow> nat \<Rightarrow> string" where
  "probe_uri ep n =
     ep @ (if ends_with ep ''/'' then '''' else ''/'') @ ''sai3bench-preflight-probe-'' @ show_hex8 n @ ''.bin''"

definition probe_get_result :: "string \<Rightarrow> string reply \<Rightarrow> ValidationResult" where
  "probe_get_result ep a =
     (case a of
        NoReply \<Rightarrow> vr_warning Network ''write-probe-get'' (''Write probe GET timed out at '' @ ep)
                     ''Object was written but could not be read back within 15 s''
      | Reply (Inl e) \<Rightarrow> vr_warning Network ''write-probe-get'' (''Write probe GET failed at '' @ ep @ '': '' @ er_display e)
                     (''Object was written but was not readable '' @ em_dash @ '' possible consistency issue'')
      | Reply (Inr x) \<Rightarrow>
          (if x = PROBE_CONTENT then vr_success ''write-probe-get'' (''Write probe GET verified correct content at '' @ ep)
           else vr_warning System ''write-probe-get''
             (''Write probe GET at '' @ ep @ '' returned unexpected content (got '' @ show_nat (length x) @ '' bytes, expected ''
               @ [CHR 0x22] @ PROBE_CONTENT @ [CHR 0x22] @ '')'') ''Storage may be returning stale or corrupted data''))"

definition probe_delete_result :: "string \<Rightarrow> unit reply \<Rightarrow> ValidationResult" where
  "probe_delete_result ep a =
     (case a of
        NoReply \<Rightarrow> vr_warning Network ''write-probe-delete''
                     (''Write probe DELETE timed out at '' @ ep @ '' '' @ em_dash @ '' probe object may remain'')
                     ''Manually delete: sai3bench-preflight-probe-*.bin''
      | Reply (Inl e) \<Rightarrow> vr_warning Permission ''write-probe-delete''
                     (''Write probe DELETE failed at '' @ ep @ '': '' @ er_display e @ '' '' @ em_dash @ '' probe object may remain'')
                     ''Manually delete: sai3bench-preflight-probe-*.bin''
      | Reply (Inr _) \<Rightarrow> vr_success ''write-probe-delete'' (''Write probe DELETE succeeded at '' @ ep))"

definition write_probe :: "'s object_calls \<Rightarrow> string \<Rightarrow> nat \<Rightarrow> 's \<Rightarrow> ValidationResult list \<times> 's" where
  "write_probe ob ep n s =
     (let (k, s0) = ob_random ob s; uri = probe_uri ep k
      in case ob_open ob uri of
           Inl e \<Rightarrow>
             ([vr_warning Configuration ''write-probe'' (''Cannot initialize store for write probe at '' @ ep @ '': '' @ e)
                 (''Write probe skipped '' @ em_dash @ '' check URI format'')], s0)
         | Inr _ \<Rightarrow>
             (case ob_put ob uri PROBE_CONTENT s0 of
                (NoReply, s1) \<Rightarrow>
                  ([vr_warning Network ''write-probe-put'' (''Write probe PUT timed out at '' @ ep)
                      (''PUT took > 15 s '' @ em_dash @ '' check network and write permissions'')], s1)
              | (Reply (Inl e), s1) \<Rightarrow>
                  ([vr_warning Permission ''write-probe-put''
                      (''Write probe PUT failed at '' @ ep
                        @ (if 1 < n then '' (sampled 1 of '' @ show_nat n @ '' endpoints)'' else '''') @ '': '' @ er_display e)
                      (''Workload may fail if it requires write access '' @ em_dash @ '' check write permissions'')], s1)
              | (Reply (Inr _), s1) \<Rightarrow>
                  (let (d, s2) = ob_delete ob uri s1
                   in ([vr_success ''write-probe-put''
                          (''Write probe PUT succeeded at '' @ ep @ (if 1 < n then '' ('' @ show_nat n @ '' endpoints)'' else '''')),
                        probe_get_result ep (ob_get ob uri s1), probe_delete_result ep d], s2))))"

definition list_result :: "string \<Rightarrow> string \<Rightarrow> nat \<Rightarrow> (string option) reply \<Rightarrow> ValidationResult" where
  "list_result label ep n a =
     (case a of
        NoReply \<Rightarrow>
          vr_error Network ''list''
            (''Timed out connecting to '' @ ep @ '' (bucket: '' @ label
              @ (if 1 < n then '' '' @ em_dash @ '' '' @ show_nat n @ '' endpoints total'' else '''') @ '')'')
            ''Check network connectivity, DNS resolution, and storage endpoint configuration''
      | Reply (Inl e) \<Rightarrow>
          (let (t, sug) = classify_storage_error e
           in vr_error t ''list''
                (''Failed to list '' @ ep @ '': '' @ er_display e
                  @ (if 1 < n then '' (applies to all '' @ show_nat n @ '' endpoints for this bucket)'' else '''')) sug)
      | Reply (Inr None) \<Rightarrow>
          vr_success ''list''
            (if 1 < n then ''Bucket '' @ [CHR 0x27] @ label @ [CHR 0x27] @ '' accessible (empty prefix) '' @ em_dash @ '' '' @ show_nat n @ '' endpoints''
             else ''Bucket accessible (no objects at prefix): '' @ ep)
      | Reply (Inr (Some _)) \<Rightarrow>
          vr_success ''list''
            (if 1 < n then ''Bucket '' @ [CHR 0x27] @ label @ [CHR 0x27] @ '' accessible '' @ em_dash @ '' '' @ show_nat n @ '' endpoints''
             else ''Bucket accessible: '' @ ep))"

fun validate_groups ::
  "'s object_calls \<Rightarrow> bool \<Rightarrow> (string \<times> string list) list \<Rightarrow> 's \<Rightarrow> ValidationResult list \<times> 's" where
  "validate_groups ob check_write [] s = ([], s)"
| "validate_groups ob check_write ((label, eps) # gs) s =
     (let ep = List.hd eps; n = length eps
      in case ob_open ob ep of
           Inl e \<Rightarrow>
             (let (rs, s') = validate_groups ob check_write gs s
              in (vr_error Configuration ''init'' (''Cannot initialize storage for '' @ ep @ '': '' @ e)
                    ''Check URI format: s3://bucket/prefix  gs://bucket/prefix  az://account/container/prefix'' # rs, s'))
         | Inr _ \<Rightarrow>
             (let l = list_result label ep n (ob_first ob ep s); (ws, s1) = (if check_write then write_probe ob ep n s else ([], s));
                  (rs, s') = validate_groups ob check_write gs s1
              in (l # ws @ rs, s')))"

definition validate_object_storage :: "'s object_calls \<Rightarrow> string list \<Rightarrow> bool \<Rightarrow> 's \<Rightarrow> ValidationSummary \<times> 's" where
  "validate_object_storage ob eps check_write s =
     (let (rs, s') = validate_groups ob check_write (bucket_groups eps) s in (detect_permission_source ob # rs, s'))"

section \<open>What the tests leave behind\<close>

datatype fs_entry = DirEntry | FileEntry string

text \<open>
  A file system seen as a map from paths: a call that succeeds does what its documentation says, a
  directory that cannot be made changes nothing, and it exists already exactly when the error says so.
\<close>

definition fs_laws :: "'s fs_calls \<Rightarrow> ('s \<Rightarrow> string \<Rightarrow> fs_entry option) \<Rightarrow> bool" where
  "fs_laws fs view =
     ((\<forall>p s. is_ok (fs_meta fs p s) = (view s p \<noteq> None))
      \<and> (\<forall>p s s'. fs_create fs p s = (Inr (), s') \<longrightarrow> view s' = (view s)(p \<mapsto> FileEntry ''''))
      \<and> (\<forall>p x s s'. fs_write fs p x s = (Inr (), s') \<longrightarrow> view s' = (view s)(p \<mapsto> FileEntry x))
      \<and> (\<forall>p s s'. fs_mkdir fs p s = (Inr (), s') \<longrightarrow> view s' = (view s)(p \<mapsto> DirEntry))
      \<and> (\<forall>p s s'. fs_mkdir fs p s = (Inl AlreadyExists, s') \<longrightarrow> view s p \<noteq> None)
      \<and> (\<forall>p s s'. fs_remove fs p s = (Inr (), s') \<longrightarrow> view s' = (view s)(p := None))
      \<and> (\<forall>p s s'. fs_rmdir fs p s = (Inr (), s') \<longrightarrow> view s' = (view s)(p := None)))"

lemma test_names_differ [simp]: "preflight_file p \<noteq> preflight_dir p" "preflight_dir p \<noteq> preflight_file p"
  by (simp_all add: preflight_file_def preflight_dir_def path_join_def)

lemma level_simps [simp]:
  "vr_level (vr_error t ph m g) = RL_Error" "vr_level (vr_warning t ph m g) = RL_Warning"
  "vr_level (vr_info t ph m g) = RL_Info" "vr_level (vr_success ph m) = RL_Success"
  "vr_level (with_details d r) = vr_level r"
  by (simp_all add: vr_error_def vr_warning_def vr_info_def vr_success_def with_details_def)

lemma passed_simps [simp]:
  "preflight_passed []" "preflight_passed (r # rs) \<longleftrightarrow> vr_level r \<noteq> RL_Error \<and> preflight_passed rs"
  "preflight_passed (rs @ rs') \<longleftrightarrow> preflight_passed rs \<and> preflight_passed rs'"
  by (auto simp: preflight_passed_def has_errors_def)

lemma write_test_effect:
  assumes "fs_laws fs view" "test_write_access fs p s = (Inr r, s')" "vr_level r \<noteq> RL_Error"
  shows "\<exists>x. view s' = (view s)(preflight_file p \<mapsto> FileEntry x)"
  using assms
  by (auto simp: test_write_access_def write_denied_def fs_laws_def split: prod.splits sum.splits io_error.splits)

lemma mkdir_test_effect:
  assumes "fs_laws fs view" "test_mkdir_access fs p s = (r, s')" "vr_level r \<noteq> RL_Error" "view s (preflight_dir p) = None"
  shows "view s' = (view s)(preflight_dir p \<mapsto> DirEntry)"
proof -
  have "\<forall>p s s'. fs_mkdir fs p s = (Inl AlreadyExists, s') \<longrightarrow> view s p \<noteq> None"
    and make: "\<forall>p s s'. fs_mkdir fs p s = (Inr (), s') \<longrightarrow> view s' = (view s)(p \<mapsto> DirEntry)"
    using assms(1) by (simp_all add: fs_laws_def)
  then have "fs_mkdir fs (preflight_dir p) s \<noteq> (Inl AlreadyExists, s')" using assms(4) by blast
  then show ?thesis
    using assms(2,3) make by (auto simp: test_mkdir_access_def split: prod.splits sum.splits io_error.splits)
qed

lemma delete_item_effect:
  assumes "\<forall>p s s'. rm p s = (Inr (), s') \<longrightarrow> view s' = (view s)(p := None)" "delete_item fs rm what q s = ((d, []), s')"
    and "fs_exists fs q s"
  shows "view s' = (view s)(q := None)"
  using assms by (auto simp: delete_item_def split: if_splits prod.splits sum.splits io_error.splits)

lemma delete_test_effect:
  assumes laws: "fs_laws fs view" and r: "test_delete_access fs p s = (r, s')" "vr_level r \<noteq> RL_Error"
    and there: "view s (preflight_file p) \<noteq> None" "view s (preflight_dir p) \<noteq> None"
  shows "view s' = (view s)(preflight_file p := None, preflight_dir p := None)"
proof -
  obtain d1 e1 s1 where i1: "delete_item fs (fs_remove fs) ''file'' (preflight_file p) s = ((d1, e1), s1)"
    by (metis prod.collapse)
  obtain d2 e2 s2 where i2: "delete_item fs (fs_rmdir fs) ''directory'' (preflight_dir p) s1 = ((d2, e2), s2)"
    by (metis prod.collapse)
  have e: "e1 = []" "e2 = []" "s2 = s'" using r by (auto simp: test_delete_access_def i1 i2 split: if_splits)
  have ex: "fs_exists fs q t \<longleftrightarrow> view t q \<noteq> None" for q t using laws by (simp add: fs_laws_def fs_exists_def)
  have v1: "view s1 = (view s)(preflight_file p := None)"
    by (rule delete_item_effect [OF _ i1 [unfolded e(1)]]) (use laws there ex in \<open>auto simp: fs_laws_def\<close>)
  have "view s2 = (view s1)(preflight_dir p := None)"
    by (rule delete_item_effect [OF _ i2 [unfolded e(2)]])
       (use laws there ex v1 in \<open>auto simp: fs_laws_def\<close>)
  then show ?thesis using v1 e(3) by simp
qed

text \<open>
  C31: The test of a directory leaves no trace when it passes: if neither the test file nor the test
  directory was there before, a check without an error, with the writing tests or without them, ends with
  every path as it was.
\<close>

theorem passed_check_leaves_no_trace:
  assumes laws: "fs_laws fs view" and fresh: "view s (preflight_file p) = None" "view s (preflight_dir p) = None"
    and run: "validate_filesystem fs p check_write required s = (rs, s')" and passed: "preflight_passed rs"
  shows "view s' = view s"
proof (cases "s' = s")
  case False
  then obtain ws rs0 where w: "write_tests fs p required s = (ws, s')" "rs = rs0 @ ws"
    using run by (auto simp: validate_filesystem_def Let_def split: if_splits prod.splits)
  then have ok: "preflight_passed ws" using passed by simp
  obtain r s1 where r: "test_write_access fs p s = (Inr r, s1)" "vr_level r \<noteq> RL_Error"
    using w(1) ok by (auto simp: write_tests_def split: prod.splits sum.splits if_splits)
  obtain rm s2 where m: "test_mkdir_access fs p s1 = (rm, s2)" by (cases "test_mkdir_access fs p s1")
  obtain rd s3 where d: "test_delete_access fs p s2 = (rd, s3)" by (cases "test_delete_access fs p s2")
  have oks: "vr_level rm \<noteq> RL_Error" "vr_level rd \<noteq> RL_Error" "s3 = s'"
    using w(1) ok by (auto simp: write_tests_def r m d)
  obtain x where v1: "view s1 = (view s)(preflight_file p \<mapsto> FileEntry x)" using write_test_effect [OF laws r] by blast
  have v2: "view s2 = (view s1)(preflight_dir p \<mapsto> DirEntry)"
    by (rule mkdir_test_effect [OF laws m oks(1)]) (use fresh v1 in auto)
  have "view s3 = (view s2)(preflight_file p := None, preflight_dir p := None)"
    by (rule delete_test_effect [OF laws d oks(2)]) (use v1 v2 in auto)
  then show ?thesis using v1 v2 fresh oks(3) by (auto simp: fun_eq_iff)
qed simp

text \<open>A file system that is its own map.\<close>

definition map_fs :: "(string \<Rightarrow> fs_entry option) fs_calls" where
  "map_fs =
     \<lparr> fs_meta = (\<lambda>p s. case s p of None \<Rightarrow> Inl NotFound
         | Some DirEntry \<Rightarrow> Inr \<lparr> fm_dir = True, fm_file = False, fm_uid = 0, fm_gid = 0, fm_mode = 493 \<rparr>
         | Some (FileEntry _) \<Rightarrow> Inr \<lparr> fm_dir = False, fm_file = True, fm_uid = 0, fm_gid = 0, fm_mode = 420 \<rparr>),
       fs_entries = (\<lambda>p s. if s p = Some DirEntry then Inr [] else Inl NotFound),
       fs_open = (\<lambda>p s. if s p = None then Inl NotFound else Inr ()),
       fs_create = (\<lambda>p s. (Inr (), s(p \<mapsto> FileEntry []))),
       fs_write = (\<lambda>p x s. (Inr (), s(p \<mapsto> FileEntry x))),
       fs_mkdir = (\<lambda>p s. if s p = None then (Inr (), s(p \<mapsto> DirEntry)) else (Inl AlreadyExists, s)),
       fs_remove = (\<lambda>p s. (Inr (), s(p := None))),
       fs_rmdir = (\<lambda>p s. (Inr (), s(p := None))),
       fs_space = (\<lambda>p s. Inr 1000000), fs_mounts = None, fs_uid = 0, fs_gid = 0, fs_groups = [0],
       fs_user = (\<lambda>_. None), fs_group = (\<lambda>_. None), fs_text = (\<lambda>_. ''io error'') \<rparr>"

lemma map_fs_laws: "fs_laws map_fs (\<lambda>s. s)"
  by (auto simp: fs_laws_def map_fs_def split: option.splits fs_entry.splits if_splits)

lemmas preflight_eval = check_user_identity_def check_protected_paths_def critical_dirs_def sensitive_warnings_def sensitive_dirs_def
  starts_with_def test_stat_access_def check_directory_ownership_def mount_info_def detect_mount_point_def test_list_access_def
  test_read_access_def fs_exists_def

lemma passed_check_leaves_no_trace_witness:
  "snd (validate_filesystem map_fs ''/data'' True None [''/data'' \<mapsto> DirEntry]) = [''/data'' \<mapsto> DirEntry]"
proof -
  let ?s = "[''/data'' \<mapsto> DirEntry]"
  have names: "preflight_file ''/data'' = ''/data/.sai3bench_preflight_test''"
      "preflight_dir ''/data'' = ''/data/.sai3bench_preflight_test_dir''"
    by (simp_all add: preflight_file_def preflight_dir_def path_join_def ends_with_def starts_with_def)
  have "preflight_passed (fst (write_tests map_fs ''/data'' None ?s))"
    by (simp add: write_tests_def test_write_access_def test_mkdir_access_def test_delete_access_def delete_item_def space_results_def
        names map_fs_def)
  moreover obtain ws s' where w: "write_tests map_fs ''/data'' None ?s = (ws, s')" by (cases "write_tests map_fs ''/data'' None ?s")
  moreover have "fs_meta map_fs ''/data'' ?s = Inr \<lparr> fm_dir = True, fm_file = False, fm_uid = 0, fm_gid = 0, fm_mode = 493 \<rparr>"
      "fs_entries map_fs ''/data'' ?s = Inr []" "fs_mounts map_fs = None" "fs_uid map_fs = 0"
    by (simp_all add: map_fs_def)
  ultimately have "preflight_passed (fst (validate_filesystem map_fs ''/data'' True None ?s))"
    by (simp add: validate_filesystem_def preflight_eval w Let_def)
  then show ?thesis
    using passed_check_leaves_no_trace [of map_fs "\<lambda>s. s" ?s "''/data''" True None, OF map_fs_laws]
    by (cases "validate_filesystem map_fs ''/data'' True None ?s") (simp add: names)
qed

text \<open>
  A protected directory is refused in words only: the check reports an error, so the run does not start,
  but every test is made all the same, and the writing tests create and remove their file and directory
  in it.
\<close>

lemma protected_directory_is_tested_anyway:
  assumes "d \<in> set critical_dirs" "starts_with p d"
    and "fs_meta fs p s = Inr m" "fm_dir m" "fs_entries fs p s = Inr es"
  shows "\<not> preflight_passed (fst (validate_filesystem fs p True required s))
    \<and> snd (validate_filesystem fs p True required s) = snd (write_tests fs p required s)"
proof -
  have "find (starts_with p) critical_dirs \<noteq> None" using assms(1,2) by (auto simp: find_None_iff)
  then have "\<not> preflight_passed (check_protected_paths fs p s)" by (auto simp: check_protected_paths_def)
  then show ?thesis
    using assms(3-5) by (simp add: validate_filesystem_def test_stat_access_def test_list_access_def Let_def split: prod.split)
qed

lemma protected_directory_is_tested_anyway_witness:
  "snd (validate_filesystem map_fs ''/etc'' True None [''/etc'' \<mapsto> DirEntry])
     = snd (write_tests map_fs ''/etc'' None [''/etc'' \<mapsto> DirEntry])"
  using protected_directory_is_tested_anyway [of "''/etc''" "''/etc''" map_fs "[''/etc'' \<mapsto> DirEntry]"
      "\<lparr> fm_dir = True, fm_file = False, fm_uid = 0, fm_gid = 0, fm_mode = 493 \<rparr>" "[]" None]
  by (simp add: map_fs_def critical_dirs_def starts_with_def)

text \<open>A name that only begins like a protected one is refused as well.\<close>

lemma similar_names_refused: "\<not> preflight_passed (fst (validate_filesystem fs ''/rootfs/data'' w required s))"
proof -
  have "\<not> preflight_passed (check_protected_paths fs ''/rootfs/data'' s)"
    by (simp add: check_protected_paths_def critical_dirs_def starts_with_def)
  then show ?thesis by (simp add: validate_filesystem_def Let_def split: prod.split)
qed

section \<open>What the bucket checks cover\<close>

lemma group_adds_endpoint: "mset (concat (map snd (add_to_group ep gs))) = add_mset ep (mset (concat (map snd gs)))"
  by (induction ep gs rule: add_to_group.induct) simp_all

lemma bucket_groups_keep_endpoints: "mset (concat (map snd (bucket_groups eps))) = mset eps"
proof -
  have "mset (concat (map snd (fold add_to_group eps gs))) = mset eps + mset (concat (map snd gs))" for gs
    by (induction eps arbitrary: gs) (simp_all add: group_adds_endpoint)
  then show ?thesis by (simp add: bucket_groups_def)
qed

lemma group_labels:
  "list_all (\<lambda>(l, es). es \<noteq> [] \<and> (\<forall>e\<in>set es. bucket_label e = l)) gs \<Longrightarrow>
   list_all (\<lambda>(l, es). es \<noteq> [] \<and> (\<forall>e\<in>set es. bucket_label e = l)) (add_to_group ep gs)"
  by (induction ep gs rule: add_to_group.induct) auto

lemma distinct_group_labels:
  "fst ` set (add_to_group ep gs) = insert (bucket_label ep) (fst ` set gs)"
  "distinct (map fst gs) \<Longrightarrow> distinct (map fst (add_to_group ep gs))"
  by (induction ep gs rule: add_to_group.induct) auto

text \<open>The groups are the endpoints sorted by label, one group for each label.\<close>

lemma bucket_groups_partition:
  "list_all (\<lambda>(l, es). es \<noteq> [] \<and> (\<forall>e\<in>set es. bucket_label e = l)) (bucket_groups eps)"
  "distinct (map fst (bucket_groups eps))"
proof -
  have "list_all (\<lambda>(l, es). es \<noteq> [] \<and> (\<forall>e\<in>set es. bucket_label e = l)) gs \<Longrightarrow>
      list_all (\<lambda>(l, es). es \<noteq> [] \<and> (\<forall>e\<in>set es. bucket_label e = l)) (fold add_to_group eps gs)" for gs
    by (induction eps arbitrary: gs) (simp_all only: fold_simps group_labels)
  moreover have "distinct (map fst gs) \<Longrightarrow> distinct (map fst (fold add_to_group eps gs))" for gs
    by (induction eps arbitrary: gs) (simp_all only: fold_simps distinct_group_labels(2))
  ultimately show "list_all (\<lambda>(l, es). es \<noteq> [] \<and> (\<forall>e\<in>set es. bucket_label e = l)) (bucket_groups eps)"
    and "distinct (map fst (bucket_groups eps))" by (simp_all add: bucket_groups_def)
qed

text \<open>The write probe only ever warns, so a bucket that cannot be written passes.\<close>

lemma write_probe_only_warns: "preflight_passed (fst (write_probe ob ep n s))"
proof -
  have "vr_level (probe_get_result ep a) \<noteq> RL_Error" for a
    by (simp add: probe_get_result_def split: reply.split sum.split)
  moreover have "vr_level (probe_delete_result ep a) \<noteq> RL_Error" for a
    by (simp add: probe_delete_result_def split: reply.split sum.split)
  ultimately show ?thesis by (simp add: write_probe_def Let_def split: prod.split sum.split reply.split)
qed

lemma bucket_label_is_segment:
  assumes "CHR ''/'' \<notin> set b" "CHR ''/'' \<notin> set seg" "seg \<noteq> []"
  shows "bucket_label (''s3://'' @ b @ ''/'' @ seg @ ''/'' @ x) = seg"
proof -
  have f: "find_sub ''://'' (''s3://'' @ r) = Some 2" for r by (simp add: starts_with_def)
  have g: "find_sub ''/'' (b @ ''/'' @ r) = Some (length b)" for r using find_sub_first [of "CHR ''/''" b "[]" r] assms(1) by simp
  have "takeWhile (\<lambda>c. c \<noteq> CHR ''/'') (seg @ ''/'' @ x) = seg" using assms(2) by (induction seg) auto
  then show ?thesis unfolding bucket_label_def f using g [of "seg @ ''/'' @ x"] assms(3) by simp
qed

text \<open>
  Two buckets whose URIs have the same first segment behind the bucket are taken for one: with the
  first accessible the check passes without ever opening or listing the second.
\<close>

lemma same_segment_hides_bucket:
  assumes "CHR ''/'' \<notin> set a" "CHR ''/'' \<notin> set b" "CHR ''/'' \<notin> set seg" "seg \<noteq> []"
    and "ob_open ob (''s3://'' @ a @ ''/'' @ seg @ ''/'' @ x) = Inr ()"
    and "ob_first ob (''s3://'' @ a @ ''/'' @ seg @ ''/'' @ x) s = Reply (Inr y)"
  shows "preflight_passed
    (fst (validate_object_storage ob [''s3://'' @ a @ ''/'' @ seg @ ''/'' @ x, ''s3://'' @ b @ ''/'' @ seg @ ''/'' @ z] w s))"
proof -
  let ?p = "''s3://'' @ a @ ''/'' @ seg @ ''/'' @ x" and ?q = "''s3://'' @ b @ ''/'' @ seg @ ''/'' @ z"
  have "bucket_label ?p = seg" "bucket_label ?q = seg" by (rule bucket_label_is_segment; use assms(1-4) in simp)+
  then have "bucket_groups [?p, ?q] = [(seg, [?p, ?q])]" unfolding bucket_groups_def by (simp del: append.simps)
  moreover have "preflight_passed [detect_permission_source ob]"
    by (simp add: detect_permission_source_def credentials_info_def Let_def split: option.split)
  ultimately show ?thesis
    using assms(5,6) write_probe_only_warns [of ob ?p 2 s]
    by (cases "write_probe ob ?p 2 s"; cases y) (simp_all add: validate_object_storage_def list_result_def Let_def numeral_2_eq_2)
qed

lemma same_segment_hides_bucket_witness:
  "preflight_passed (fst (validate_object_storage
     \<lparr> ob_role = None, ob_service_account = None, ob_identity = None, ob_env = (\<lambda>_. True),
       ob_open = (\<lambda>u. if starts_with u ''s3://good/'' then Inr () else Inl ''no such bucket''),
       ob_first = (\<lambda>u n. Reply (Inr None)), ob_put = (\<lambda>u x n. (NoReply, n)), ob_get = (\<lambda>u n. NoReply),
       ob_delete = (\<lambda>u n. (NoReply, n)), ob_random = (\<lambda>n. (n, Suc n)) \<rparr>
     [''s3://good/run/'', ''s3://bad/run/''] True 0))"
  using same_segment_hides_bucket [of "''good''" "''bad''" "''run''"
      "\<lparr> ob_role = None, ob_service_account = None, ob_identity = None, ob_env = (\<lambda>_. True),
       ob_open = (\<lambda>u. if starts_with u ''s3://good/'' then Inr () else Inl ''no such bucket''),
       ob_first = (\<lambda>u n. Reply (Inr None)), ob_put = (\<lambda>u x n. (NoReply, n)), ob_get = (\<lambda>u n. NoReply),
       ob_delete = (\<lambda>u n. (NoReply, n)), ob_random = (\<lambda>n. (n, Suc n)) \<rparr>" "[]" "0 :: nat" None "[]" True]
  by (simp add: starts_with_def)

end
