(* ===== verification/Preflight_Gate.thy ===== *)
theory Preflight_Gate
  imports Preflight Agent
begin

text \<open>
  The gate before a distributed run: the environment an agent sets from a configuration (the forwarded
  credentials and the s3dlio options of \<open>src/config.rs\<close>), the choice of what an agent checks and its answer
  (\<open>pre_flight_validation\<close> in \<open>src/bin/agent.rs\<close>), the rules for distributed configurations
  (\<open>src/preflight/distributed.rs\<close>), and the controller's side (\<open>load_credentials_for_agents\<close> and
  \<open>run_preflight_validation\<close> in \<open>src/bin/controller.rs\<close>).

  The environment of a process is a map; the setters of s3dlio are recorded as calls. Parsing the YAML
  text and the env file are arguments.
\<close>

section \<open>The environment of an agent\<close>

datatype gcs_call = SetChannels nat | SetRapid "bool option"

record process_env =
  pe_vars :: "string \<rightharpoonup> string"
  pe_calls :: "gcs_call list"

record S3dlioOptimizationConfig =
  so_enable_range :: bool
  so_threshold_mb :: nat
  so_range_concurrency :: "nat option"
  so_chunk_mb :: "nat option"
  so_gcs_channels :: "nat option"
  so_gcs_rapid :: "bool option"
  so_write_chunk :: "nat option"
  so_gcs_project :: "string option"
  so_h2c :: "bool option"
  so_h2_adaptive :: "bool option"
  so_h2_stream_mb :: "nat option"
  so_h2_conn_mb :: "nat option"
  so_rt_threads :: "nat option"
  so_worker_threads :: "nat option"
  so_auto_threads :: bool

definition set_var :: "string \<Rightarrow> string \<Rightarrow> process_env \<Rightarrow> process_env" where
  "set_var k v pe = pe\<lparr>pe_vars := (pe_vars pe)(k \<mapsto> v)\<rparr>"

definition set_opt :: "string \<Rightarrow> ('a \<Rightarrow> string) \<Rightarrow> 'a option \<Rightarrow> process_env \<Rightarrow> process_env" where
  "set_opt k f x pe = (case x of None \<Rightarrow> pe | Some v \<Rightarrow> set_var k (f v) pe)"

definition push_call :: "gcs_call \<Rightarrow> process_env \<Rightarrow> process_env" where
  "push_call c pe = pe\<lparr>pe_calls := pe_calls pe @ [c]\<rparr>"

definition bit_text :: "bool \<Rightarrow> string" where "bit_text b = (if b then ''1'' else ''0'')"

text \<open>The product of the chunk size is one of 64-bit words and wraps in a release build.\<close>

definition s3dlio_apply :: "S3dlioOptimizationConfig \<Rightarrow> process_env \<Rightarrow> process_env" where
  "s3dlio_apply so pe =
     (let pe = set_var ''S3DLIO_ENABLE_RANGE_OPTIMIZATION'' (bit_text (so_enable_range so)) pe;
          pe = set_var ''S3DLIO_RANGE_THRESHOLD_MB'' (show_nat (so_threshold_mb so)) pe;
          pe = set_opt ''S3DLIO_RANGE_CONCURRENCY'' show_nat (so_range_concurrency so) pe;
          pe = set_opt ''S3DLIO_CHUNK_SIZE'' (\<lambda>mb. show_nat (mb * 1048576 mod 2 ^ 64)) (so_chunk_mb so) pe;
          pe = (case so_gcs_channels so of None \<Rightarrow> pe | Some n \<Rightarrow> push_call (SetChannels n) pe);
          pe = (case so_gcs_rapid so of None \<Rightarrow> pe
                | Some b \<Rightarrow> push_call (SetRapid (Some b)) (set_var ''S3DLIO_GCS_RAPID'' (if b then ''true'' else ''false'') pe));
          pe = set_opt ''S3DLIO_GRPC_WRITE_CHUNK_SIZE'' show_nat (so_write_chunk so) pe;
          pe = set_opt ''GOOGLE_CLOUD_PROJECT'' id (so_gcs_project so) pe;
          pe = set_opt ''S3DLIO_H2C'' bit_text (so_h2c so) pe;
          pe = set_opt ''S3DLIO_H2_ADAPTIVE_WINDOW'' bit_text (so_h2_adaptive so) pe;
          pe = set_opt ''S3DLIO_H2_STREAM_WINDOW_MB'' show_nat (so_h2_stream_mb so) pe
      in set_opt ''S3DLIO_H2_CONN_WINDOW_MB'' show_nat (so_h2_conn_mb so) pe)"

definition derived_threads :: "nat \<Rightarrow> nat" where "derived_threads n = max (n + n div 2) 32"

definition auto_apply_rt_threads :: "nat \<Rightarrow> process_env \<Rightarrow> process_env" where
  "auto_apply_rt_threads n pe =
     (if pe_vars pe ''S3DLIO_RT_THREADS'' \<noteq> None then pe
      else if 0 < n then set_var ''S3DLIO_RT_THREADS'' (show_nat (derived_threads n)) pe else pe)"

definition apply_thread_counts :: "S3dlioOptimizationConfig \<Rightarrow> nat \<Rightarrow> process_env \<Rightarrow> process_env" where
  "apply_thread_counts so n pe =
     (case so_rt_threads so of
        Some e \<Rightarrow> set_var ''S3DLIO_RT_THREADS'' (show_nat e) pe
      | None \<Rightarrow>
          (if pe_vars pe ''S3DLIO_RT_THREADS'' \<noteq> None then pe
           else if so_auto_threads so \<and> 0 < n then set_var ''S3DLIO_RT_THREADS'' (show_nat (derived_threads n)) pe else pe))"

definition is_gcs_uri :: "string \<Rightarrow> bool" where "is_gcs_uri u = (starts_with u ''gs://'' \<or> starts_with u ''gcs://'')"

definition apply_gcs_defaults :: "Config \<Rightarrow> S3dlioOptimizationConfig option \<Rightarrow> process_env \<Rightarrow> process_env" where
  "apply_gcs_defaults c so pe =
     (if (case target c of None \<Rightarrow> False | Some t \<Rightarrow> is_gcs_uri t)
         \<or> (case multi_endpoint c of None \<Rightarrow> False | Some m \<Rightarrow> list_ex is_gcs_uri (endpoints m))
      then (if Option.bind so so_gcs_channels = None then push_call (SetChannels (concurrency c)) pe else pe)
      else pe)"

text \<open>Forwarded variables, in the order of the hash map: one that is set already is left alone.\<close>

definition apply_distributed_env :: "(string \<times> string) list \<Rightarrow> process_env \<Rightarrow> process_env" where
  "apply_distributed_env creds pe =
     fold (\<lambda>(k, v) pe. if pe_vars pe k \<noteq> None then pe else set_var k v pe) creds pe"

text \<open>A configuration as the agent reads it: with the forwarded variables and the s3dlio options.\<close>

record AgentJob =
  aj_config :: Config
  aj_env :: "(string \<times> string) list"
  aj_s3dlio :: "S3dlioOptimizationConfig option"

definition prepare_environment :: "AgentJob \<Rightarrow> process_env \<Rightarrow> process_env" where
  "prepare_environment j pe =
     (let pe = apply_distributed_env (aj_env j) pe; n = concurrency (aj_config j)
      in case aj_s3dlio j of
           Some so \<Rightarrow> s3dlio_apply so (apply_thread_counts so n pe)
         | None \<Rightarrow> auto_apply_rt_threads n pe)"

definition start_environment :: "AgentJob \<Rightarrow> process_env \<Rightarrow> process_env" where
  "start_environment j pe = apply_gcs_defaults (aj_config j) (aj_s3dlio j) (prepare_environment j pe)"

lemma apply_env_get:
  assumes "distinct (map fst creds)"
  shows "pe_vars (apply_distributed_env creds pe) k = (case pe_vars pe k of Some v \<Rightarrow> Some v | None \<Rightarrow> map_of creds k)"
  using assms
proof (induction creds arbitrary: pe)
  case (Cons kv creds)
  obtain a b where kv: "kv = (a, b)" by (cases kv)
  have "map_of creds a = None" using Cons.prems kv by (simp add: map_of_eq_None_iff)
  then show ?case
    using Cons.IH [of "if pe_vars pe a \<noteq> None then pe else set_var a b pe"] Cons.prems
    by (auto simp: apply_distributed_env_def kv set_var_def split: option.splits)
qed (simp add: apply_distributed_env_def split: option.split)

lemma set_var_get [simp]: "pe_vars (set_var k v pe) x = (if x = k then Some v else pe_vars pe x)"
  by (simp add: set_var_def)

lemma set_opt_get: "x \<noteq> k \<Longrightarrow> pe_vars (set_opt k f w pe) x = pe_vars pe x"
  by (simp add: set_opt_def split: option.split)

lemma push_call_get [simp]: "pe_vars (push_call c pe) = pe_vars pe" by (simp add: push_call_def)

lemma apply_gcs_defaults_get [simp]: "pe_vars (apply_gcs_defaults c so pe) = pe_vars pe"
  by (simp add: apply_gcs_defaults_def split: option.split)

text \<open>The variables that the s3dlio options may set.\<close>

definition s3dlio_variables :: "string list" where
  "s3dlio_variables =
     [''S3DLIO_ENABLE_RANGE_OPTIMIZATION'', ''S3DLIO_RANGE_THRESHOLD_MB'', ''S3DLIO_RANGE_CONCURRENCY'', ''S3DLIO_CHUNK_SIZE'',
      ''S3DLIO_GCS_RAPID'', ''S3DLIO_GRPC_WRITE_CHUNK_SIZE'', ''GOOGLE_CLOUD_PROJECT'', ''S3DLIO_H2C'', ''S3DLIO_H2_ADAPTIVE_WINDOW'',
      ''S3DLIO_H2_STREAM_WINDOW_MB'', ''S3DLIO_H2_CONN_WINDOW_MB'', ''S3DLIO_RT_THREADS'']"

lemma s3dlio_apply_get: "x \<notin> set s3dlio_variables \<Longrightarrow> pe_vars (s3dlio_apply so pe) x = pe_vars pe x"
  by (simp add: s3dlio_apply_def Let_def s3dlio_variables_def set_opt_get split: option.split)

lemma thread_counts_get:
  "x \<noteq> ''S3DLIO_RT_THREADS'' \<Longrightarrow> pe_vars (apply_thread_counts so n pe) x = pe_vars pe x"
  "x \<noteq> ''S3DLIO_RT_THREADS'' \<Longrightarrow> pe_vars (auto_apply_rt_threads n pe) x = pe_vars pe x"
  by (simp_all add: apply_thread_counts_def auto_apply_rt_threads_def split: option.split)

lemma prepare_environment_get:
  assumes "x \<notin> set s3dlio_variables"
  shows "pe_vars (prepare_environment j pe) x = pe_vars (apply_distributed_env (aj_env j) pe) x"
proof -
  have "x \<noteq> ''S3DLIO_RT_THREADS''" using assms by (auto simp: s3dlio_variables_def)
  then show ?thesis
    using assms by (simp add: prepare_environment_def Let_def s3dlio_apply_get thread_counts_get split: option.split)
qed


lemma apply_env_keeps: "pe_vars pe k = Some v \<Longrightarrow> pe_vars (apply_distributed_env creds pe) k = Some v"
  unfolding apply_distributed_env_def
proof (induction creds arbitrary: pe)
  case (Cons kv creds)
  obtain a b where kv: "kv = (a, b)" by (cases kv)
  show ?case
    using Cons.IH [of "if pe_vars pe a \<noteq> None then pe else set_var a b pe"] Cons.prems
    by (cases "k = a") (auto simp: kv split: if_splits)
qed simp

lemma start_environment_keeps:
  "pe_vars pe k = Some v \<Longrightarrow> k \<notin> set s3dlio_variables \<Longrightarrow> pe_vars (start_environment j pe) k = Some v"
  by (simp add: start_environment_def prepare_environment_get apply_env_keeps)


definition sample_job_config :: Config where
  "sample_job_config =
     \<lparr> cfg_duration = 60, concurrency = 16, target = None, workload = [], prepare = None, distributed = None, op_log_path = None,
       multi_endpoint = None, enable_metadata_cache = False, cache_checkpoint_interval_secs = 0, io_rate = None,
       dynamic_put_pool = False \<rparr>"

definition sample_job :: "string \<Rightarrow> AgentJob" where
  "sample_job v = \<lparr> aj_config = sample_job_config, aj_env = [(''AWS_SECRET_ACCESS_KEY'', v)], aj_s3dlio = None \<rparr>"


text \<open>The thread count that the first job derives from its concurrency stays as well.\<close>

lemma first_thread_count_stays:
  assumes "pe_vars pe ''S3DLIO_RT_THREADS'' = None" "0 < n"
  shows "pe_vars (auto_apply_rt_threads m (auto_apply_rt_threads n pe)) ''S3DLIO_RT_THREADS'' = Some (show_nat (derived_threads n))"
  using assms by (simp add: auto_apply_rt_threads_def)

text \<open>Without a block of s3dlio options the thread count is the one an empty block would give.\<close>

lemma auto_threads_agree:
  "so_rt_threads so = None \<Longrightarrow> so_auto_threads so \<Longrightarrow> apply_thread_counts so n pe = auto_apply_rt_threads n pe"
  by (simp add: apply_thread_counts_def auto_apply_rt_threads_def)

section \<open>Credentials of the controller\<close>

definition CREDENTIAL_KEY_PREFIXES :: "string list" where
  "CREDENTIAL_KEY_PREFIXES = [''AWS_'', ''GOOGLE_APPLICATION_CREDENTIALS'', ''AZURE_STORAGE_'']"

definition is_credential_key :: "string \<Rightarrow> bool" where
  "is_credential_key k = list_ex (\<lambda>p. starts_with k p \<or> k = p) CREDENTIAL_KEY_PREFIXES"

text \<open>The lines of the env file as its parser gives them; the first line it rejects is the error.\<close>

fun collect_file :: "(string + (string \<times> string)) list \<Rightarrow> (string \<rightharpoonup> string) \<Rightarrow> string + (string \<rightharpoonup> string)" where
  "collect_file [] vars = Inr vars"
| "collect_file (Inl e # ls) vars = Inl ''Malformed line in env file''"
| "collect_file (Inr (k, v) # ls) vars = collect_file ls (if is_credential_key k then vars(k \<mapsto> v) else vars)"

definition collect_env :: "(string \<times> string) list \<Rightarrow> string \<rightharpoonup> string" where
  "collect_env env = fold (\<lambda>(k, v) vars. if is_credential_key k then vars(k \<mapsto> v) else vars) env Map.empty"

definition load_credentials_for_agents ::
  "(string \<Rightarrow> (string + (string \<times> string)) list option) \<Rightarrow> (string \<times> string) list \<Rightarrow> string option
     \<Rightarrow> string + (string \<rightharpoonup> string) \<times> string" where
  "load_credentials_for_agents parse env env_file =
     (case env_file of
        Some path \<Rightarrow>
          (case parse path of
             None \<Rightarrow> Inl (''Cannot read env file: '' @ path)
           | Some ls \<Rightarrow>
               (case collect_file ls Map.empty of
                  Inl e \<Rightarrow> Inl e
                | Inr vars \<Rightarrow> Inr (vars, ''env file '' @ [CHR 0x27] @ path @ [CHR 0x27])))
      | None \<Rightarrow> Inr (collect_env env, ''controller environment''))"

text \<open>What is embedded in the configuration that the agents get: the variables found, if any.\<close>

definition forwarded_env ::
  "(string \<Rightarrow> (string + (string \<times> string)) list option) \<Rightarrow> (string \<times> string) list \<Rightarrow> string option \<Rightarrow> bool
     \<Rightarrow> (string \<rightharpoonup> string) \<Rightarrow> string + (string \<rightharpoonup> string)" where
  "forwarded_env parse env env_file no_forward given =
     (if no_forward then Inr given
      else (case load_credentials_for_agents parse env env_file of
              Inl e \<Rightarrow> Inl e
            | Inr (creds, _) \<Rightarrow> Inr (if dom creds = {} then given else creds)))"

definition only_credentials :: "(string \<rightharpoonup> string) \<Rightarrow> bool" where
  "only_credentials vars = (\<forall>k. vars k \<noteq> None \<longrightarrow> is_credential_key k)"

lemma only_credentials_simps [simp]:
  "only_credentials Map.empty" "is_credential_key k \<Longrightarrow> only_credentials vars \<Longrightarrow> only_credentials (vars(k \<mapsto> v))"
  by (auto simp: only_credentials_def)

lemma collect_file_keys: "only_credentials vars \<Longrightarrow> collect_file ls vars = Inr vars' \<Longrightarrow> only_credentials vars'"
  by (induction ls vars rule: collect_file.induct) (simp_all split: if_splits)

lemma collect_env_keys: "only_credentials (collect_env env)"
proof -
  have "only_credentials vars \<Longrightarrow>
      only_credentials (fold (\<lambda>(k, v) vars. if is_credential_key k then vars(k \<mapsto> v) else vars) env vars)" for vars
    by (induction env arbitrary: vars) (simp_all add: split_beta)
  then show ?thesis by (simp add: collect_env_def)
qed

lemma load_credentials_keys: "load_credentials_for_agents parse env env_file = Inr (creds, src) \<Longrightarrow> only_credentials creds"
  using collect_file_keys [of Map.empty] collect_env_keys
  by (auto simp: load_credentials_for_agents_def split: option.splits sum.splits)




section \<open>What an agent checks\<close>

definition is_object_storage :: "string \<Rightarrow> bool" where
  "is_object_storage u = list_ex (starts_with u) [''s3://'', ''gs://'', ''az://'']"

definition push_endpoint :: "string \<Rightarrow> string list \<Rightarrow> string list" where
  "push_endpoint u eps = (if is_object_storage u \<and> u \<notin> set eps then eps @ [u] else eps)"

definition push_target :: "string option \<Rightarrow> string list \<Rightarrow> string list" where
  "push_target t eps = (case t of None \<Rightarrow> eps | Some u \<Rightarrow> push_endpoint u eps)"

definition push_multi :: "MultiEndpointConfig option \<Rightarrow> string list \<Rightarrow> string list" where
  "push_multi m eps = (case m of None \<Rightarrow> eps | Some me \<Rightarrow> fold push_endpoint (endpoints me) eps)"

definition agent_endpoints :: "AgentConfig \<Rightarrow> string list \<Rightarrow> string list" where
  "agent_endpoints a eps = push_multi (ac_multi_endpoint a) (push_target (target_override a) eps)"

definition agent_matches :: "string \<Rightarrow> AgentConfig \<Rightarrow> bool" where
  "agent_matches i a = (ac_id a = Some i \<or> address a = i)"

definition config_agents :: "Config \<Rightarrow> AgentConfig list" where
  "config_agents c = (case distributed c of None \<Rightarrow> [] | Some d \<Rightarrow> agents d)"

definition prepare_uris :: "Config \<Rightarrow> string option list" where
  "prepare_uris c = (case prepare c of None \<Rightarrow> [] | Some p \<Rightarrow> map base_uri (ensure_objects p))"

definition extract_object_storage_endpoints :: "Config \<Rightarrow> string option \<Rightarrow> string list" where
  "extract_object_storage_endpoints c agent_id =
     (let own = (case agent_id of
                   None \<Rightarrow> []
                 | Some i \<Rightarrow> (case find (agent_matches i) (config_agents c) of None \<Rightarrow> [] | Some a \<Rightarrow> agent_endpoints a []));
          global = fold push_target (prepare_uris c) (push_multi (multi_endpoint c) (push_target (target c) []))
      in if own \<noteq> [] then own
         else if agent_id = None then fold agent_endpoints (config_agents c) global else global)"

definition fs_path_of :: "string \<Rightarrow> string option" where
  "fs_path_of u = (case strip_prefix ''file://'' u of Some p \<Rightarrow> Some p | None \<Rightarrow> strip_prefix ''direct://'' u)"

fun first_path :: "string option list \<Rightarrow> string option" where
  "first_path [] = None"
| "first_path (u # us) = (case Option.bind u fs_path_of of Some p \<Rightarrow> Some p | None \<Rightarrow> first_path us)"

definition multi_uris :: "MultiEndpointConfig option \<Rightarrow> string option list" where
  "multi_uris m = (case m of None \<Rightarrow> [] | Some me \<Rightarrow> map Some (endpoints me))"

definition extract_filesystem_path :: "Config \<Rightarrow> string option" where
  "extract_filesystem_path c =
     first_path (target c # multi_uris (multi_endpoint c) @ prepare_uris c
       @ concat (map (\<lambda>a. target_override a # multi_uris (ac_multi_endpoint a)) (config_agents c)))"

definition is_write_op :: "OpSpec \<Rightarrow> bool" where
  "is_write_op s = (case s of Put _ _ _ _ _ \<Rightarrow> True | Delete _ \<Rightarrow> True | _ \<Rightarrow> False)"

text \<open>The answer of an agent and the numbers of the two enumerations in it.\<close>

record ProtoResult =
  vp_level :: int
  vp_type :: int
  vp_message :: string
  vp_suggestion :: string
  vp_details :: string
  vp_phase :: string

record PreFlightResponse =
  pf_passed :: bool
  pf_results :: "ProtoResult list"
  pf_errors :: int
  pf_warnings :: int
  pf_infos :: int

datatype rpc_status = InvalidArgument string | FailedPrecondition session_error

fun level_to_i32 :: "ResultLevel \<Rightarrow> int" where
  "level_to_i32 RL_Success = 0"
| "level_to_i32 RL_Info = 1"
| "level_to_i32 RL_Warning = 2"
| "level_to_i32 RL_Error = 3"

fun type_to_i32 :: "ErrorType option \<Rightarrow> int" where
  "type_to_i32 None = 0"
| "type_to_i32 (Some Authentication) = 1"
| "type_to_i32 (Some Permission) = 2"
| "type_to_i32 (Some Network) = 3"
| "type_to_i32 (Some Configuration) = 4"
| "type_to_i32 (Some Resource) = 5"
| "type_to_i32 (Some System) = 6"

definition result_to_proto :: "ValidationResult \<Rightarrow> ProtoResult" where
  "result_to_proto r =
     \<lparr> vp_level = level_to_i32 (vr_level r), vp_type = type_to_i32 (vr_type r), vp_message = vr_message r,
       vp_suggestion = vr_suggestion r, vp_details = (case vr_details r of None \<Rightarrow> [] | Some d \<Rightarrow> d), vp_phase = vr_phase r \<rparr>"

definition i32_of :: "nat \<Rightarrow> int" where "i32_of n = (int n + 2 ^ 31) mod 2 ^ 32 - 2 ^ 31"

definition preflight_response :: "ValidationSummary \<Rightarrow> PreFlightResponse" where
  "preflight_response rs =
     \<lparr> pf_passed = preflight_passed rs, pf_results = map result_to_proto rs, pf_errors = i32_of (level_count RL_Error rs),
       pf_warnings = i32_of (level_count RL_Warning rs), pf_infos = i32_of (level_count RL_Info rs) \<rparr>"

definition skip_result :: ValidationResult where
  "skip_result =
     \<lparr> vr_level = RL_Info, vr_type = None, vr_message = ''Skipping filesystem validation (target is object storage)'',
       vr_suggestion = [], vr_details = None, vr_phase = ''filesystem'' \<rparr>"

definition run_checks :: "'s fs_calls \<Rightarrow> 's object_calls \<Rightarrow> Config \<Rightarrow> string \<Rightarrow> 's \<Rightarrow> ValidationSummary \<times> 's" where
  "run_checks fs ob c agent_id s =
     (case extract_filesystem_path c of
        Some p \<Rightarrow> validate_filesystem fs p True (Some (1024 * 1024)) s
      | None \<Rightarrow>
          (let eps = extract_object_storage_endpoints c (Some agent_id)
           in if eps \<noteq> [] then validate_object_storage ob eps (list_ex (is_write_op \<circ> spec) (workload c)) s
              else ([skip_result], s)))"

text \<open>The unary RPC: the text must parse, the op-log path must fit the session, then the checks run in the new environment.\<close>

definition pre_flight_validation ::
  "(string \<Rightarrow> string + AgentJob) \<Rightarrow> string \<Rightarrow> 's fs_calls \<Rightarrow> 's object_calls \<Rightarrow> string option \<Rightarrow> session
     \<Rightarrow> string \<Rightarrow> string \<Rightarrow> process_env \<Rightarrow> 's \<Rightarrow> (rpc_status + ValidationSummary) \<times> process_env \<times> 's" where
  "pre_flight_validation parse cwd fs ob agent_op_log session yaml agent_id pe s =
     (case parse yaml of
        Inl e \<Rightarrow> (Inl (InvalidArgument (''Invalid YAML config: '' @ e)), pe, s)
      | Inr j \<Rightarrow>
          (case (case (case op_log_path (aj_config j) of Some b \<Rightarrow> Some b | None \<Rightarrow> agent_op_log) of
                   None \<Rightarrow> Inr () | Some b \<Rightarrow> session_check cwd session (staged_op_log_path b agent_id)) of
             Inl e \<Rightarrow> (Inl (FailedPrecondition e), pe, s)
           | Inr _ \<Rightarrow>
               (let pe' = prepare_environment j pe;
                    (rs, s') = run_checks fs (ob\<lparr>ob_env := \<lambda>k. pe_vars pe' k \<noteq> None\<rparr>) (aj_config j) agent_id s
                in (Inr rs, pe', s'))))"


section \<open>The verdict of the controller\<close>

definition level_of_i32 :: "int \<Rightarrow> ResultLevel" where
  "level_of_i32 n = (if n = 0 then RL_Success else if n = 1 then RL_Info else if n = 2 then RL_Warning else RL_Error)"

definition type_of_i32 :: "int \<Rightarrow> ErrorType option" where
  "type_of_i32 n =
     map_of [(1, Authentication), (2, Permission), (3, Network), (4, Configuration), (5, Resource), (6, System)] n"

definition result_of_proto :: "ProtoResult \<Rightarrow> ValidationResult" where
  "result_of_proto v =
     \<lparr> vr_level = level_of_i32 (vp_level v), vr_type = type_of_i32 (vp_type v), vr_message = vp_message v,
       vr_suggestion = vp_suggestion v, vr_details = (if vp_details v = [] then None else Some (vp_details v)),
       vr_phase = vp_phase v \<rparr>"

definition gate_agent :: "string + PreFlightResponse \<Rightarrow> bool \<times> int \<times> int \<Rightarrow> bool \<times> int \<times> int" where
  "gate_agent reply st =
     (let (ok, errs, warns) = st
      in case reply of
           Inl e \<Rightarrow> (False, errs + 1, warns)
         | Inr resp \<Rightarrow>
             (let passed = (if 0 < pf_errors resp \<or> 0 < pf_warnings resp \<or> 0 < pf_infos resp
                            then fst (display_validation_results (map result_of_proto (pf_results resp))) else pf_passed resp)
              in (ok \<and> passed, errs + pf_errors resp, warns + pf_warnings resp)))"

definition show_i32 :: "int \<Rightarrow> string" where
  "show_i32 n = (if n < 0 then ''-'' @ show_nat (nat (- n)) else show_nat (nat n))"

definition run_preflight_validation :: "(string \<times> (string + PreFlightResponse)) list \<Rightarrow> string + unit" where
  "run_preflight_validation replies =
     (let (ok, errs, warns) = fold gate_agent (map snd replies) (True, 0, 0)
      in if ok then Inr () else Inl (''Pre-flight validation failed with '' @ show_i32 errs @ '' errors''))"

lemma level_of_to [simp]: "level_of_i32 (level_to_i32 l) = l" by (cases l) (simp_all add: level_of_i32_def)

lemma type_of_to [simp]: "type_of_i32 (type_to_i32 t) = t"
proof (cases t)
  case (Some e) then show ?thesis by (cases e) (simp_all add: type_of_i32_def)
qed (simp add: type_of_i32_def)

text \<open>A result arrives as it was sent, but an empty text of details arrives as none.\<close>

lemma result_round_trip:
  "result_of_proto (result_to_proto r) = r\<lparr>vr_details := (if vr_details r = Some [] then None else vr_details r)\<rparr>"
  by (cases r) (auto simp: result_of_proto_def result_to_proto_def split: option.split)

lemma passed_round_trip: "preflight_passed (map result_of_proto (map result_to_proto rs)) = preflight_passed rs"
  by (induction rs) (simp_all add: result_round_trip)

lemma gate_agent_verdict:
  "fst (gate_agent (map_sum id preflight_response r) st) = (fst st \<and> (case r of Inl _ \<Rightarrow> False | Inr rs \<Rightarrow> preflight_passed rs))"
  by (cases st; cases r) (simp_all add: gate_agent_def preflight_response_def display_counts passed_round_trip Let_def del: map_map)

text \<open>
  C32: The gate is exact: when the agents answer as they are written to, the controller goes on exactly when
  every agent could be asked and none of its checks found an error; warnings never stop it.
\<close>

theorem preflight_gate_exact:
  "run_preflight_validation (map (\<lambda>(i, r). (i, map_sum id preflight_response r)) answers) = Inr ()
   \<longleftrightarrow> list_all (\<lambda>(i, r). case r of Inl _ \<Rightarrow> False | Inr rs \<Rightarrow> preflight_passed rs) answers"
proof -
  have "fst (fold gate_agent (map snd (map (\<lambda>(i, r). (i, map_sum id preflight_response r)) answers)) st)
      = (fst st \<and> list_all (\<lambda>(i, r). case r of Inl _ \<Rightarrow> False | Inr rs \<Rightarrow> preflight_passed rs) answers)" for st
    by (induction answers arbitrary: st) (auto simp: gate_agent_verdict)
  from this [of "(True, 0, 0)"] show ?thesis
    by (auto simp: run_preflight_validation_def Let_def split: prod.split)
qed

text \<open>
  All agents check the same directory: with per-agent targets in files and no other target, every agent
  checks the directory of the first agent and nothing of its own, a bucket included.
\<close>

lemma all_agents_check_first_path:
  assumes "target c = None" "multi_endpoint c = None" "prepare c = None" "config_agents c = a # as"
    and "target_override a = Some (''file://'' @ p)"
  shows "run_checks fs ob c agent_id s = validate_filesystem fs p True (Some 1048576) s"
proof -
  have "fs_path_of (''file://'' @ p) = Some p" unfolding fs_path_of_def strip_prefix_append by simp
  then have "Option.bind (target_override a) fs_path_of = Some p" unfolding assms(5) by (simp only: Option.bind.simps)
  then have "extract_filesystem_path c = Some p"
    using assms(1-4) by (simp add: extract_filesystem_path_def multi_uris_def prepare_uris_def)
  then show ?thesis by (simp add: run_checks_def)
qed

definition two_agent_config :: Config where
  "two_agent_config = sample_job_config\<lparr>distributed := Some
     \<lparr> agents =
         [\<lparr> address = ''a:7761'', ac_id = Some ''a1'', target_override = Some ''file:///data/one'', concurrency_override = None,
            ac_path_template = None, listen_port = 7761, ac_multi_endpoint = None, ac_kv_cache_dir = None \<rparr>,
          \<lparr> address = ''b:7761'', ac_id = Some ''a2'', target_override = Some ''s3://bucket/two'', concurrency_override = None,
            ac_path_template = None, listen_port = 7761, ac_multi_endpoint = None, ac_kv_cache_dir = None \<rparr>],
       start_delay = 0, path_template = [], shared_filesystem = False, tree_creation_mode = Isolated,
       path_selection = RandomPath, partition_overlap = 0, grpc_keepalive_interval = 30, grpc_keepalive_timeout = 10,
       agent_ready_timeout = 120, barrier_sync = BarrierSyncConfig_default, stages = [], kv_cache_dir = None \<rparr>\<rparr>"

definition no_store :: "'s object_calls" where
  "no_store =
     \<lparr> ob_role = None, ob_service_account = None, ob_identity = None, ob_env = (\<lambda>_. False), ob_open = (\<lambda>_. Inl ''no store''),
       ob_first = (\<lambda>_ _. NoReply), ob_put = (\<lambda>_ _ s. (NoReply, s)), ob_get = (\<lambda>_ _. NoReply), ob_delete = (\<lambda>_ s. (NoReply, s)),
       ob_random = (\<lambda>s. (0, s)) \<rparr>"

lemma all_agents_check_first_path_witness:
  "run_checks map_fs no_store two_agent_config ''a2'' [''/data/one'' \<mapsto> DirEntry]
     = validate_filesystem map_fs ''/data/one'' True (Some 1048576) [''/data/one'' \<mapsto> DirEntry]"
  by (rule all_agents_check_first_path [where a = "List.hd (config_agents two_agent_config)" and as = "tl (config_agents two_agent_config)"])
     (simp_all add: two_agent_config_def sample_job_config_def config_agents_def)

text \<open>An agent with object endpoints of its own checks those and no others.\<close>

lemma own_endpoints_only:
  assumes "find (agent_matches i) (config_agents c) = Some a" "agent_endpoints a [] \<noteq> []"
  shows "extract_object_storage_endpoints c (Some i) = agent_endpoints a []"
  using assms by (simp add: extract_object_storage_endpoints_def)


section \<open>Rules for distributed configurations\<close>

definition NL :: string where "NL = [CHR 0x0A]"

definition config_result :: "ResultLevel \<Rightarrow> ErrorType option \<Rightarrow> string \<Rightarrow> string list \<Rightarrow> string list option \<Rightarrow> ValidationResult" where
  "config_result l t msg sug det =
     \<lparr> vr_level = l, vr_type = t, vr_message = msg, vr_suggestion = join_with NL sug, vr_details = map_option (join_with NL) det,
       vr_phase = ''config_validation'' \<rparr>"

definition agent_label :: "AgentConfig \<Rightarrow> string" where
  "agent_label a = (case ac_id a of Some i \<Rightarrow> i | None \<Rightarrow> address a)"

definition has_multi :: "AgentConfig \<Rightarrow> bool" where "has_multi a = (ac_multi_endpoint a \<noteq> None)"

definition shared_rule :: "Config \<Rightarrow> DistributedConfig \<Rightarrow> ValidationResult list" where
  "shared_rule c d =
     (let without = map agent_label (filter (\<lambda>a. \<not> has_multi a) (agents d))
      in if (list_ex has_multi (agents d) \<or> multi_endpoint c \<noteq> None) \<and> without \<noteq> []
         then [config_result RL_Warning None
                 (show_nat (length without) @ '' agents don'' @ [CHR 0x27] @ ''t have multi_endpoint configured (shared_filesystem: true)'')
                 [''With shared_filesystem: true and multi_endpoint configured, all agents'',
                  ''should have multi_endpoint configurations pointing to the shared storage.'', [],
                  ''Agents without multi_endpoint: '' @ join_with '', '' without, [],
                  ''These agents will use the global target URI instead, which may work'',
                  ''but prevents per-agent endpoint customization.''] None]
         else [])"

definition isolated_rule :: "DistributedConfig \<Rightarrow> EnsureSpec \<Rightarrow> ValidationResult list" where
  "isolated_rule d e =
     (case base_uri e of
        None \<Rightarrow> []
      | Some u \<Rightarrow>
          (if list_ex has_multi (agents d) \<and> tree_creation_mode d = Isolated
           then [config_result RL_Error (Some Configuration) ''base_uri should not be specified in isolated mode with per-agent storage''
                   [''RECOMMENDED FIX: Remove '' @ [CHR 0x27] @ ''base_uri'' @ [CHR 0x27] @ '' field from ensure_objects.'', [],
                    ''Current configuration:'',
                    ''- tree_creation_mode: isolated (each agent creates separate tree)'',
                    ''- multi_endpoint: configured (multi-endpoint load balancing)'',
                    ''- shared_filesystem: false (per-agent storage)'',
                    ''- base_uri: '' @ u @ '' (PROBLEM - causes listing failures)'', [],
                    ''When base_uri is omitted, each agent uses its FIRST multi_endpoint URI'',
                    ''for prepare/listing operations, which matches the isolated storage model.'', [],
                    ''Valid alternatives:'',
                    ''- Remove base_uri (recommended for isolated mode)'',
                    ''- Set shared_filesystem: true (if agents actually share storage)'',
                    ''- Set tree_creation_mode: concurrent/coordinator (if sharing tree)'']
                   (Some [''This configuration causes agents to list objects from '' @ [CHR 0x27] @ u @ [CHR 0x27] @ '' during'',
                    ''the prepare phase, which may not match their configured multi_endpoint.'',
                    ''This leads to h2 protocol errors or empty listings when agents try to'',
                    ''access storage they'' @ [CHR 0x27] @ ''re not configured to use.''])]
           else []))"

definition base_uri_rule :: "Config \<Rightarrow> DistributedConfig \<Rightarrow> EnsureSpec \<Rightarrow> ValidationResult list" where
  "base_uri_rule c d e =
     (if \<not> (multi_endpoint c \<noteq> None \<or> list_ex has_multi (agents d)) \<and> base_uri e = None
      then [config_result RL_Error (Some Configuration) ''base_uri is required when no multi_endpoint configuration is present''
              [''Add '' @ [CHR 0x27] @ ''base_uri'' @ [CHR 0x27] @ '' field to ensure_objects, or add a multi_endpoint configuration'']
              (Some [''When no multi_endpoint is configured, base_uri specifies where objects'', ''are created and accessed.''])]
      else [])"

definition redundant_rule :: "Config \<Rightarrow> DistributedConfig \<Rightarrow> ValidationResult list" where
  "redundant_rule c d =
     (case multi_endpoint c of
        None \<Rightarrow> []
      | Some m \<Rightarrow>
          (if endpoints m \<noteq> []
              \<and> length (filter (\<lambda>a. case ac_multi_endpoint a of None \<Rightarrow> False | Some me \<Rightarrow> endpoints me \<noteq> []) (agents d)) = length (agents d)
              \<and> 1 < length (agents d)
           then [config_result RL_Warning (Some Configuration)
                   (''Top-level multi_endpoint ('' @ show_nat (length (endpoints m)) @ '' URIs) is redundant: all ''
                     @ show_nat (length (agents d)) @ '' agents have their own per-agent multi_endpoint'')
                   [''In distributed mode each agent uses its own per-agent multi_endpoint.'',
                    ''The top-level multi_endpoint is only used by standalone (single-node) runs.'',
                    ''Consider removing the top-level multi_endpoint block to avoid confusion,'',
                    ''or document why it is intentionally present.'']
                   (Some [''During pre-flight validation each agent now correctly validates only'',
                    ''its own per-agent endpoints, so this does not cause failures.'',
                    ''However a standalone '' @ [CHR 0x27] @ ''sai3-bench run --config ...'' @ [CHR 0x27] @ '' would test ALL'',
                    ''top-level endpoints, which may not be what you want.''])]
           else []))"

definition multi_has_object_storage :: "MultiEndpointConfig option \<Rightarrow> bool" where
  "multi_has_object_storage m = (case m of None \<Rightarrow> False | Some me \<Rightarrow> list_ex is_object_storage (endpoints me))"

definition credential_rule :: "bool \<Rightarrow> Config \<Rightarrow> DistributedConfig \<Rightarrow> ValidationResult list" where
  "credential_rule local_creds c d =
     (if (multi_has_object_storage (multi_endpoint c)
          \<or> list_ex (\<lambda>a. multi_has_object_storage (ac_multi_endpoint a)
                        \<or> (case target_override a of None \<Rightarrow> False | Some t \<Rightarrow> is_object_storage t)) (agents d))
         \<and> 1 < length (agents d) \<and> \<not> local_creds
      then [config_result RL_Warning (Some Authentication) ''No cloud credentials found in controller environment''
              [''Each agent host must have credentials set independently:'', ''export AWS_ACCESS_KEY_ID=<key>'',
               ''export AWS_SECRET_ACCESS_KEY=<secret>'', [], ''The controller does NOT forward credentials to agents.'',
               ''Set credentials on every agent node before starting sai3bench-agent.''] None]
      else [])"

definition has_local_creds :: "(string \<rightharpoonup> string) \<Rightarrow> bool" where
  "has_local_creds env =
     (env ''AWS_ACCESS_KEY_ID'' \<noteq> None \<or> env ''GOOGLE_APPLICATION_CREDENTIALS'' \<noteq> None \<or> env ''AZURE_STORAGE_ACCOUNT'' \<noteq> None)"

definition spec_rules :: "Config \<Rightarrow> DistributedConfig \<Rightarrow> EnsureSpec \<Rightarrow> ValidationResult list" where
  "spec_rules c d e = (if shared_filesystem d then shared_rule c d else isolated_rule d e) @ base_uri_rule c d e"

definition validate_distributed_config :: "(string \<rightharpoonup> string) \<Rightarrow> Config \<Rightarrow> ValidationResult list" where
  "validate_distributed_config env c =
     (case distributed c of
        None \<Rightarrow> []
      | Some d \<Rightarrow>
          (if agents d = [] then []
           else (case prepare c of None \<Rightarrow> [] | Some p \<Rightarrow> concat (map (spec_rules c d) (ensure_objects p)))
                @ redundant_rule c d @ credential_rule (has_local_creds env) c d))"

lemma config_result_level [simp]: "vr_level (config_result l t m g e) = l" by (simp add: config_result_def)

lemma passed_concat: "preflight_passed (concat rss) = list_all preflight_passed rss"
  by (induction rss) simp_all

lemma spec_rules_pass:
  "preflight_passed (spec_rules c d e) \<longleftrightarrow>
     (if list_ex has_multi (agents d) then shared_filesystem d \<or> tree_creation_mode d \<noteq> Isolated \<or> base_uri e = None
      else multi_endpoint c \<noteq> None \<or> base_uri e \<noteq> None)"
  by (auto simp: spec_rules_def shared_rule_def isolated_rule_def base_uri_rule_def Let_def split: option.split)

lemma warnings_pass:
  "preflight_passed (redundant_rule c d)" "preflight_passed (credential_rule l c d)"
  by (auto simp: redundant_rule_def credential_rule_def split: option.split)



definition placeless_config :: Config where
  "placeless_config = two_agent_config\<lparr>prepare := Some
     \<lparr> ensure_objects = [\<lparr> base_uri = None, es_count = 10, min_size = None, max_size = None, size_spec = None, fill = Zero,
                            dedup_factor = 1, compress_factor = 1 \<rparr>],
       cleanup = False, cleanup_only = None, post_prepare_delay = 0, directory_structure = None, prepare_strategy = Sequential,
       skip_verification = False, force_overwrite = False, cleanup_mode = Tolerant, key_prefix_shards = 0 \<rparr>\<rparr>"


text \<open>A group without base URI is accepted as soon as one agent has endpoints; an agent without finds no place for it.\<close>

lemma accepted_without_place:
  assumes "distributed c = Some d" "list_ex has_multi (agents d)" "prepare c = Some p" "ensure_objects p = [e]" "base_uri e = None"
  shows "preflight_passed (validate_distributed_config env c) \<and> get_base_uri e None = Inl BaseUriRequired"
  using assms by (simp add: validate_distributed_config_def warnings_pass spec_rules_pass get_base_uri_def)

end
