(* ===== verification/Result_Files.thy ===== *)
theory Result_Files
  imports Result_Tables Preflight
begin

text \<open>
  The files of a distributed run: the results directory (\<open>src/results_dir.rs\<close>), what the controller prints and
  logs, the files of each agent, and the end of a run (\<open>src/bin/controller.rs\<close>).

  Files are a map from paths to contents; \<open>w p\<close> says whether \<open>p\<close> can be written. The JSON text of the metadata,
  the host, the clock and the command line are arguments, and so is the program that makes the Excel summary.
  A table whose rows cannot be made leaves no file (the code may leave the rows before the error).
\<close>

section \<open>The results directory\<close>

record RunMetadata =
  rn_version :: string
  rn_test_name :: string
  rn_config_path :: string
  rn_start :: string
  rn_end :: "string option"
  rn_duration :: "rat option"
  rn_command :: "string list"
  rn_host :: string
  rn_distributed :: bool
  rn_agents :: "string list option"

record process_facts =
  fx_version :: string
  fx_now :: string
  fx_stamp :: string
  fx_command :: "string list"
  fx_host :: string
  fx_json :: "RunMetadata \<Rightarrow> string"

type_synonym disk = "string \<rightharpoonup> string"

definition RunMetadata_new :: "process_facts \<Rightarrow> string \<Rightarrow> string \<Rightarrow> RunMetadata" where
  "RunMetadata_new fx test_name config_path =
     \<lparr> rn_version = fx_version fx, rn_test_name = test_name, rn_config_path = config_path, rn_start = fx_now fx, rn_end = None,
       rn_duration = None, rn_command = fx_command fx, rn_host = fx_host fx, rn_distributed = False, rn_agents = None \<rparr>"

definition RunMetadata_finalize :: "string \<Rightarrow> rat \<Rightarrow> RunMetadata \<Rightarrow> RunMetadata" where
  "RunMetadata_finalize now secs m = m\<lparr>rn_end := Some now, rn_duration := Some secs\<rparr>"

text \<open>The console log is open until the directory is finalized.\<close>

record ResultsDir =
  rd_path :: string
  rd_meta :: RunMetadata
  rd_open :: bool

definition config_stem :: "string \<Rightarrow> string" where
  "config_stem p =
     (let f = rev (takeWhile (\<lambda>c. c \<noteq> CHR ''/'') (rev p)); tl_rev = dropWhile (\<lambda>c. c \<noteq> CHR ''.'') (rev f)
      in if f = [] \<or> f = ''..'' then ''test'' else if tl_rev = [] \<or> tl tl_rev = [] then f else rev (tl tl_rev))"

definition write_file :: "(string \<Rightarrow> bool) \<Rightarrow> string \<Rightarrow> string \<Rightarrow> string \<Rightarrow> disk \<Rightarrow> (string + unit) \<times> disk" where
  "write_file w msg p x d = (if w p then (Inr (), d(p \<mapsto> x)) else (Inl msg, d))"

definition ResultsDir_create ::
  "(string \<Rightarrow> bool) \<Rightarrow> process_facts \<Rightarrow> string \<Rightarrow> string option \<Rightarrow> string option \<Rightarrow> disk \<Rightarrow> (string + ResultsDir) \<times> disk" where
  "ResultsDir_create w fx config_path custom base d =
     (let test_name = (case custom of Some n \<Rightarrow> n | None \<Rightarrow> config_stem config_path);
          dir = path_join (case base of Some b \<Rightarrow> b | None \<Rightarrow> ''.'') (''sai3-'' @ fx_stamp fx @ ''-'' @ test_name)
      in if \<not> w dir then (Inl (''Failed to create results directory: '' @ dir), d)
         else (case d config_path of
                 None \<Rightarrow> (Inl ''Failed to copy config to results directory'', d)
               | Some text \<Rightarrow>
                   (case write_file w ''Failed to copy config to results directory'' (path_join dir ''config.yaml'') text d of
                      (Inl e, d1) \<Rightarrow> (Inl e, d1)
                    | (Inr _, d1) \<Rightarrow>
                        (case write_file w ''Failed to create console_log.txt'' (path_join dir ''console_log.txt'') [] d1 of
                           (Inl e, d2) \<Rightarrow> (Inl e, d2)
                         | (Inr _, d2) \<Rightarrow>
                             (Inr \<lparr> rd_path = dir, rd_meta = RunMetadata_new fx test_name config_path, rd_open = True \<rparr>, d2)))))"

definition rd_file :: "ResultsDir \<Rightarrow> string \<Rightarrow> string" where "rd_file rd f = path_join (rd_path rd) f"

definition tsv_path :: "ResultsDir \<Rightarrow> string" where "tsv_path rd = rd_file rd ''workload_results.tsv''"
definition prepare_tsv_path :: "ResultsDir \<Rightarrow> string" where "prepare_tsv_path rd = rd_file rd ''prepare_results.tsv''"
definition endpoint_stats_tsv_path :: "ResultsDir \<Rightarrow> string" where
  "endpoint_stats_tsv_path rd = rd_file rd ''workload_endpoint_stats.tsv''"
definition prepare_endpoint_stats_tsv_path :: "ResultsDir \<Rightarrow> string" where
  "prepare_endpoint_stats_tsv_path rd = rd_file rd ''prepare_endpoint_stats.tsv''"
definition console_log_path :: "ResultsDir \<Rightarrow> string" where "console_log_path rd = rd_file rd ''console_log.txt''"

definition file_text :: "disk \<Rightarrow> string \<Rightarrow> string" where "file_text d p = (case d p of None \<Rightarrow> [] | Some x \<Rightarrow> x)"

definition write_console :: "(string \<Rightarrow> bool) \<Rightarrow> ResultsDir \<Rightarrow> string \<Rightarrow> disk \<Rightarrow> (string + unit) \<times> disk" where
  "write_console w rd line d =
     (if rd_open rd
      then write_file w ''Failed to write to console_log.txt'' (console_log_path rd) (file_text d (console_log_path rd) @ line @ [CHR 0x0A]) d
      else (Inr (), d))"

definition write_metadata :: "(string \<Rightarrow> bool) \<Rightarrow> process_facts \<Rightarrow> ResultsDir \<Rightarrow> disk \<Rightarrow> (string + unit) \<times> disk" where
  "write_metadata w fx rd d = write_file w ''Failed to write metadata.json'' (rd_file rd ''metadata.json'') (fx_json fx (rd_meta rd)) d"

definition ResultsDir_finalize ::
  "(string \<Rightarrow> bool) \<Rightarrow> process_facts \<Rightarrow> rat \<Rightarrow> ResultsDir \<Rightarrow> disk \<Rightarrow> (string + unit) \<times> ResultsDir \<times> disk" where
  "ResultsDir_finalize w fx secs rd d =
     (let rd1 = rd\<lparr>rd_meta := RunMetadata_finalize (fx_now fx) secs (rd_meta rd)\<rparr>
      in case write_metadata w fx rd1 d of
           (Inl e, d1) \<Rightarrow> (Inl e, rd1, d1)
         | (Inr _, d1) \<Rightarrow> (Inr (), rd1\<lparr>rd_open := False\<rparr>, d1))"

definition create_agents_dir :: "(string \<Rightarrow> bool) \<Rightarrow> ResultsDir \<Rightarrow> (string + string) \<times> ResultsDir" where
  "create_agents_dir w rd =
     (let rd1 = rd\<lparr>rd_meta := (rd_meta rd)\<lparr>rn_distributed := True\<rparr>\<rparr>
      in (if w (rd_file rd ''agents'') then Inr (rd_file rd ''agents'') else Inl ''Failed to create agents subdirectory'', rd1))"

definition add_agent :: "string \<Rightarrow> ResultsDir \<Rightarrow> ResultsDir" where
  "add_agent a rd =
     rd\<lparr>rd_meta := (rd_meta rd)\<lparr>rn_agents := Some ((case rn_agents (rd_meta rd) of None \<Rightarrow> [] | Some xs \<Rightarrow> xs) @ [a])\<rparr>\<rparr>"

section \<open>Printing\<close>

definition micro :: string where "micro = [CHR 0xC2, CHR 0xB5]"

definition format_latency :: "rat \<Rightarrow> string" where
  "format_latency us =
     (if 10000 \<le> us then show_fixed 1 (us / 1000) @ ''ms'' else text_f64 0 (Fin us) @ micro @ ''s'')"

definition format_bandwidth :: "nat \<Rightarrow> rat \<Rightarrow> string" where
  "format_bandwidth bytes secs =
     (if secs \<le> 0 then ''0 B/s''
      else (let bps = of_nat bytes / secs
            in if 1073741824 \<le> bps then show_fixed 2 (bps / 1073741824) @ '' GiB/s''
               else if 1048576 \<le> bps then show_fixed 1 (bps / 1048576) @ '' MiB/s''
               else if 1024 \<le> bps then show_fixed 1 (bps / 1024) @ '' KiB/s''
               else text_f64 0 (Fin bps) @ '' B/s''))"

definition progress_rate :: "rat \<Rightarrow> nat \<Rightarrow> rat \<Rightarrow> nat \<Rightarrow> nat \<Rightarrow> rat \<Rightarrow> rat \<times> string" where
  "progress_rate windowed w_bytes w_secs ops bytes secs =
     (if 0 < windowed then (windowed, format_bandwidth w_bytes w_secs)
      else (if 0 < secs then of_nat ops / secs else 0, format_bandwidth bytes secs))"

definition latency_text :: "latency \<Rightarrow> string" where
  "latency_text l =
     ''(mean: '' @ format_latency (latency.mean_us l) @ '', p50: '' @ format_latency (latency.p50_us l) @ '', p95: ''
       @ format_latency (latency.p95_us l) @ '')''"

definition cpu_text :: "cpu_use \<Rightarrow> string" where
  "cpu_text c =
     ''CPU: '' @ show_fixed 1 (cpu_total c) @ ''% total (user: '' @ show_fixed 1 (cpu_user c) @ ''%, system: ''
       @ show_fixed 1 (cpu_system c) @ ''%, iowait: '' @ show_fixed 1 (cpu_iowait c) @ ''%)''"

definition format_progress :: "AggregateStats \<Rightarrow> string" where
  "format_progress a =
     (let (g, gb) = progress_rate (windowed_get_ops_s a) (windowed_get_bytes a) (windowed_delta_time a) (total_get_ops a)
            (total_get_bytes a) (ag_elapsed_s a);
          (p, pb) = progress_rate (windowed_put_ops_s a) (windowed_put_bytes a) (windowed_delta_time a) (total_put_ops a)
            (total_put_bytes a) (ag_elapsed_s a);
          m = (if 0 < ag_elapsed_s a then of_nat (total_meta_ops a) / ag_elapsed_s a else 0)
      in join_with [CHR 0x0A]
           ([show_nat (num_agents a) @ '' of '' @ show_nat (ag_expected_agents a) @ '' Agents''
               @ (if 0 < total_concurrency a then '' ('' @ show_nat (total_concurrency a) @ '' threads)'' else []),
             ''  GET: '' @ text_f64 0 (Fin g) @ '' ops/s, '' @ gb @ '' '' @ latency_text (ag_get a),
             ''  PUT: '' @ text_f64 0 (Fin p) @ '' ops/s, '' @ pb @ '' '' @ latency_text (ag_put a),
             ''  META: '' @ text_f64 0 (Fin m) @ '' ops/s (mean: '' @ format_latency (latency.mean_us (ag_meta a)) @ '')'']
            @ (if 0 < cpu_total (ag_cpu a) then [''  '' @ cpu_text (ag_cpu a)] else [])))"


text \<open>A line is printed and then written to the console log; a log that cannot be written ends the printing.\<close>

record console =
  co_disk :: disk
  co_printed :: "string list"

fun say :: "(string \<Rightarrow> bool) \<Rightarrow> ResultsDir \<Rightarrow> string list \<Rightarrow> console \<Rightarrow> (string + unit) \<times> console" where
  "say w rd [] co = (Inr (), co)"
| "say w rd (l # ls) co =
     (let co1 = co\<lparr>co_printed := co_printed co @ [l]\<rparr>
      in case write_console w rd l (co_disk co1) of
           (Inl e, d) \<Rightarrow> (Inl e, co1\<lparr>co_disk := d\<rparr>)
         | (Inr _, d) \<Rightarrow> say w rd ls (co1\<lparr>co_disk := d\<rparr>))"

definition nl :: string where "nl = [CHR 0x0A]"

definition mb_cell :: "nat \<Rightarrow> string" where "mb_cell bytes = show_fixed 2 (of_nat bytes / 1048576) @ '' MB''"

definition ops_rate_text :: "nat \<Rightarrow> rat \<Rightarrow> string" where "ops_rate_text ops wall = text_f64 2 (div_f64 (Fin (of_nat ops)) (Fin wall)) @ '' ops/s''"

definition total_lines :: "nat \<Rightarrow> nat \<Rightarrow> rat \<Rightarrow> string \<times> string" where
  "total_lines ops bytes wall =
     (''Total ops: '' @ show_nat ops @ '' ('' @ ops_rate_text ops wall @ '')'',
      ''Total bytes: '' @ mb_cell bytes @ '' ('' @ text_f64 2 (mibps bytes wall) @ '' MiB/s)'')"

definition op_line :: "string \<Rightarrow> OpAgg option \<Rightarrow> string list" where
  "op_line opn a =
     (case a of
        None \<Rightarrow> []
      | Some x \<Rightarrow>
          (if 0 < agg_ops x
           then [''  '' @ opn @ '': '' @ show_nat (agg_ops x) @ '' ops, '' @ mb_cell (agg_bytes x) @ '', mean: ''
                   @ show_nat (OpAgg.mean_us x) @ micro @ ''s, p95: '' @ show_nat (OpAgg.p95_us x) @ micro @ ''s'']
           else []))"

definition agent_lines :: "WorkloadReport \<Rightarrow> string list" where
  "agent_lines r =
     [nl @ ''--- Agent: '' @ ws_agent_id r @ '' ---'', ''  Wall time: '' @ show_fixed 2 (wr_wall r) @ ''s'',
      ''  '' @ fst (total_lines (ws_total_ops r) (wr_bytes r) (wr_wall r)),
      ''  '' @ snd (total_lines (ws_total_ops r) (wr_bytes r) (wr_wall r))]
     @ op_line ''GET'' (wr_get r) @ op_line ''PUT'' (wr_put r) @ op_line ''META'' (wr_meta r)"

definition check_mark :: string where "check_mark = [CHR 0xE2, CHR 0x9C, CHR 0x85]"
definition cross_mark :: string where "cross_mark = [CHR 0xE2, CHR 0x9D, CHR 0x8C]"
definition warn_mark :: string where "warn_mark = [CHR 0xE2, CHR 0x9A, CHR 0xA0]"

definition distributed_lines :: "WorkloadReport list \<Rightarrow> string list" where
  "distributed_lines rs =
     (let wall = max_wall (map wr_wall rs); (g, gb) = agg_totals (map wr_get rs); (p, pb) = agg_totals (map wr_put rs);
          (m, mb) = agg_totals (map wr_meta rs); tot = total_lines (sum_list (map ws_total_ops rs)) (sum_list (map wr_bytes rs)) wall
      in [nl @ ''=== Distributed Results ==='', ''Total agents: '' @ show_nat (length rs)] @ concat (map agent_lines rs)
         @ [nl @ ''=== Aggregate Totals ==='', fst tot, snd tot]
         @ (if 0 < g then [nl @ ''GET aggregate:'', ''  '' @ fst (total_lines g gb wall), ''  '' @ snd (total_lines g gb wall)] else [])
         @ (if 0 < p then [nl @ ''PUT aggregate:'', ''  '' @ fst (total_lines p pb wall), ''  '' @ snd (total_lines p pb wall)] else [])
         @ (if 0 < m then [nl @ ''META aggregate:'', ''  '' @ fst (total_lines m mb wall)] else [])
         @ [nl @ check_mark @ '' Distributed workload complete!''])"

definition print_distributed_results ::
  "(string \<Rightarrow> bool) \<Rightarrow> ResultsDir \<Rightarrow> WorkloadReport list \<Rightarrow> console \<Rightarrow> (string + unit) \<times> console" where
  "print_distributed_results w rd rs co = say w rd (distributed_lines rs) co"

section \<open>The status of a test\<close>

definition count_line :: "nat \<Rightarrow> string \<Rightarrow> string list" where
  "count_line n t = (if 0 < n then [warn_mark @ '' '' @ show_nat n @ t] else [])"

definition status_text :: "string \<Rightarrow> TestStatus \<Rightarrow> string" where
  "status_text now st = table_text
     ([if success st then ''TEST STATUS: SUCCESS'' else ''TEST STATUS: FAILURE'', ''Timestamp: '' @ now, [], ''=== Summary ==='',
       ''Total agents: '' @ show_nat (total_agents st), ''Completed: '' @ show_nat (ts_completed st),
       ''Failed: '' @ show_nat (ts_failed st), ''Disconnected: '' @ show_nat (ts_disconnected st),
       ''Disconnect/Reconnect Count: '' @ show_nat (ts_reconnect_count st), ''Aborting: '' @ show_nat (ts_aborting st),
       ''Total operations: '' @ show_nat (ts_total_ops st), [], ''=== Agent Details ==='']
      @ map (\<lambda>(i, s, r). i @ '': '' @ state_debug s @ '' ('' @ r @ '')'') (agent_details st)
      @ (if success st then []
         else [[], ''=== Failure Analysis ==='']
           @ count_line (ts_failed st) '' agent(s) reported ERROR status''
           @ count_line (ts_disconnected st) '' agent(s) disconnected or timed out''
           @ count_line (ts_aborting st) '' agent(s) in aborting state''
           @ (if ts_total_ops st = 0 then [warn_mark @ '' Zero operations completed - workload did not execute''] else [])
           @ [[], ''Recommendations:'', ''1. Check agent logs in agents/*/console_log.txt'',
              ''2. Review controller console_log.txt for error messages'', ''3. Verify agent connectivity and network stability'',
              ''4. Check storage backend availability'']))"

definition write_test_status :: "(string \<Rightarrow> bool) \<Rightarrow> string \<Rightarrow> ResultsDir \<Rightarrow> TestStatus \<Rightarrow> disk \<Rightarrow> (string + unit) \<times> disk" where
  "write_test_status w now rd st d =
     write_file w (''Failed to write STATUS.txt: '' @ rd_file rd ''STATUS.txt'') (rd_file rd ''STATUS.txt'') (status_text now st) d"

definition status_lines :: "TestStatus \<Rightarrow> string list" where
  "status_lines st =
     (if success st
      then [nl @ check_mark @ '' Test PASSED: All agents completed successfully'',
            ''   '' @ show_nat (total_agents st) @ '' agents, '' @ show_nat (ts_total_ops st) @ '' total operations'']
      else [nl @ cross_mark @ '' Test FAILED: One or more agents did not complete successfully'',
            ''   Completed: '' @ show_nat (ts_completed st) @ ''/'' @ show_nat (total_agents st)]
        @ (if 0 < ts_failed st then [''   Failed: '' @ show_nat (ts_failed st) @ '' agent(s) reported errors''] else [])
        @ (if 0 < ts_disconnected st then [''   Disconnected: '' @ show_nat (ts_disconnected st) @ '' agent(s) lost connection''] else [])
        @ (if 0 < ts_aborting st then [''   Aborting: '' @ show_nat (ts_aborting st) @ '' agent(s) in abort state''] else [])
        @ (if ts_total_ops st = 0
           then [''   '' @ warn_mark @ '' CRITICAL: Zero operations completed - workload did not execute!''] else [])
        @ [nl @ ''   See STATUS.txt in results directory for full details''])"

definition print_test_status :: "(string \<Rightarrow> bool) \<Rightarrow> ResultsDir \<Rightarrow> TestStatus \<Rightarrow> console \<Rightarrow> (string + unit) \<times> console" where
  "print_test_status w rd st co = say w rd (status_lines st) co"

section \<open>The files of an agent\<close>

text \<open>Files are written one after the other; the first that fails ends it.\<close>

fun write_all :: "(string \<Rightarrow> bool) \<Rightarrow> (string \<times> string) list \<Rightarrow> disk \<Rightarrow> (string + unit) \<times> disk" where
  "write_all w [] d = (Inr (), d)"
| "write_all w ((p, x) # fs) d = (if w p then write_all w fs (d(p \<mapsto> x)) else (Inl p, d))"

definition op_log_note :: "string \<Rightarrow> string" where
  "op_log_note p =
     join_with nl [''Operation log on agent (not transferred):'', p, [],
       ''Note: Operation logs (.tsv.zst files) remain on the agent'' @ [CHR 0x27] @ ''s local filesystem.'',
       ''They are not transferred via gRPC due to their size.'']"

definition agent_files :: "WorkloadReport \<Rightarrow> (string \<times> string) list" where
  "agent_files r =
     (if wr_metadata_json r = [] then [] else [(''metadata.json'', wr_metadata_json r)])
     @ (if wr_tsv r = [] then [] else [(''results.tsv'', wr_tsv r)])
     @ (if wr_endpoints r = [] then [] else [(''workload_endpoint_stats.tsv'', export_endpoint_stats (wr_endpoints r))])
     @ (if wr_console_log r = [] then [] else [(''console_log.txt'', wr_console_log r)])
     @ (if wr_results_path r = [] then [] else [(''agent_local_path.txt'', wr_results_path r)])
     @ (if wr_op_log_path r = [] then [] else [(''agent_op_log_path.txt'', op_log_note (wr_op_log_path r))])"

definition prepare_files :: "PrepareReport \<Rightarrow> (string \<times> string) list" where
  "prepare_files p =
     (if pr_tsv p = [] then [] else [(''prepare_results.tsv'', pr_tsv p)])
     @ (if pr_endpoints p = [] then [] else [(''prepare_endpoint_stats.tsv'', export_endpoint_stats (pr_endpoints p))])
     @ (if pr_results_path p = [] then [] else [(''prepare_local_path.txt'', pr_results_path p)])"

definition write_in_dir :: "(string \<Rightarrow> bool) \<Rightarrow> string \<Rightarrow> string \<Rightarrow> (string \<times> string) list \<Rightarrow> disk \<Rightarrow> (string + unit) \<times> disk" where
  "write_in_dir w agents_dir i fs d =
     (let dir = path_join agents_dir i
      in if w dir then write_all w (map (\<lambda>(f, x). (path_join dir f, x)) fs) d else (Inl dir, d))"

definition write_agent_results :: "(string \<Rightarrow> bool) \<Rightarrow> string \<Rightarrow> WorkloadReport \<Rightarrow> disk \<Rightarrow> (string + unit) \<times> disk" where
  "write_agent_results w agents_dir r d = write_in_dir w agents_dir (ws_agent_id r) (agent_files r) d"

definition write_agent_prepare_results :: "(string \<Rightarrow> bool) \<Rightarrow> string \<Rightarrow> PrepareReport \<Rightarrow> disk \<Rightarrow> (string + unit) \<times> disk" where
  "write_agent_prepare_results w agents_dir p d = write_in_dir w agents_dir (ps_agent_id p) (prepare_files p) d"


section \<open>The end of a run\<close>

definition next_step ::
  "(string + unit) \<times> console \<Rightarrow> (console \<Rightarrow> (string + unit) \<times> console) \<Rightarrow> (string + unit) \<times> console" where
  "next_step r f = (case r of (Inl e, co) \<Rightarrow> (Inl e, co) | (Inr _, co) \<Rightarrow> f co)"

definition on_disk :: "(disk \<Rightarrow> (string + unit) \<times> disk) \<Rightarrow> console \<Rightarrow> (string + unit) \<times> console" where
  "on_disk f co = (let (r, d) = f (co_disk co) in (r, co\<lparr>co_disk := d\<rparr>))"

definition write_endpoint_table ::
  "(string \<Rightarrow> bool) \<Rightarrow> string \<Rightarrow> EndpointStatsSnapshot list list \<Rightarrow> disk \<Rightarrow> disk" where
  "write_endpoint_table w p per_agent d =
     (let eps = filter (\<lambda>e. e \<noteq> []) per_agent
      in if eps = [] then d else snd (write_file w [] p (export_endpoint_stats (aggregate_endpoint_stats eps)) d))"

definition write_table :: "(string \<Rightarrow> bool) \<Rightarrow> string \<Rightarrow> string + string \<Rightarrow> disk \<Rightarrow> disk" where
  "write_table w p t d = (case t of Inl _ \<Rightarrow> d | Inr x \<Rightarrow> snd (write_file w [] p x d))"

definition write_workload_files ::
  "(string \<Rightarrow> bool) \<Rightarrow> ResultsDir \<Rightarrow> string \<Rightarrow> (WorkloadReport list \<Rightarrow> string + string) \<Rightarrow> WorkloadReport list \<Rightarrow> console \<Rightarrow> console" where
  "write_workload_files w rd agents_dir table rs co =
     (if rs = [] then co
      else (let d = fold (\<lambda>r d. snd (write_agent_results w agents_dir r d)) rs (co_disk co);
                d = write_table w (tsv_path rd) (table rs) d;
                d = write_endpoint_table w (endpoint_stats_tsv_path rd) (map wr_endpoints rs) d
            in snd (print_distributed_results w rd rs (co\<lparr>co_disk := d\<rparr>))))"

definition write_prepare_files ::
  "(string \<Rightarrow> bool) \<Rightarrow> ResultsDir \<Rightarrow> string \<Rightarrow> (PrepareReport list \<Rightarrow> string + string) \<Rightarrow> PrepareReport list \<Rightarrow> console \<Rightarrow> console" where
  "write_prepare_files w rd agents_dir table ps co =
     (if ps = [] then co
      else (let d = fold (\<lambda>p d. snd (write_agent_prepare_results w agents_dir p d)) ps (co_disk co);
                d = write_table w (prepare_tsv_path rd) (table ps) d
            in co\<lparr>co_disk := write_endpoint_table w (prepare_endpoint_stats_tsv_path rd) (map pr_endpoints ps) d\<rparr>))"

definition ledger_path :: "ResultsDir \<Rightarrow> string" where "ledger_path rd = rd_file rd ''populate_ledger.tsv''"

definition append_to_ledger :: "(string \<Rightarrow> bool) \<Rightarrow> ResultsDir \<Rightarrow> LedgerRow \<Rightarrow> disk \<Rightarrow> disk" where
  "append_to_ledger w rd r d = (if w (ledger_path rd) then d(ledger_path rd \<mapsto> append_row r (d (ledger_path rd))) else d)"

definition ledger_message :: "ResultsDir \<Rightarrow> LedgerRow \<Rightarrow> string" where
  "ledger_message rd r =
     ''Populate ledger: '' @ show_nat (lr_created r) @ '' total objects, '' @ show_nat (lr_bytes r) @ '' total bytes, ''
       @ text_f64 0 (Fin (avg_bytes r)) @ '' avg bytes/obj, '' @ show_fixed 1 (lr_wall r) @ ''s '' @ [CHR 0xE2, CHR 0x86, CHR 0x92] @ '' ''
       @ ledger_path rd"

definition write_ledger ::
  "(string \<Rightarrow> bool) \<Rightarrow> ResultsDir \<Rightarrow> string \<Rightarrow> PrepareReport list \<Rightarrow> console \<Rightarrow> (string + unit) \<times> console" where
  "write_ledger w rd ts ps co =
     (if ps = [] then (Inr (), co)
      else (let rows = ledger_rows ts (rn_test_name (rd_meta rd)) ps; co1 = co\<lparr>co_disk := fold (append_to_ledger w rd) rows (co_disk co)\<rparr>
            in if w (ledger_path rd) then say w rd [ledger_message rd (last rows)] co1 else (Inr (), co1)))"

definition excel_summary ::
  "(string \<Rightarrow> bool) \<Rightarrow> (string \<Rightarrow> disk \<Rightarrow> (string + unit) \<times> disk) \<Rightarrow> ResultsDir \<Rightarrow> console \<Rightarrow> (string + unit) \<times> console" where
  "excel_summary w analyze rd co =
     next_step (say w rd [nl @ ''Generating Excel summary...''] co) (\<lambda>co.
       (let (r, d) = analyze (rd_path rd) (co_disk co)
        in say w rd
             [case r of
                Inr _ \<Rightarrow> check_mark @ '' Excel summary: '' @ rd_file rd ''Summary-Results.xlsx''
              | Inl e \<Rightarrow> warn_mark @ [CHR 0xEF, CHR 0xB8, CHR 0x8F] @ ''  Warning: Failed to generate Excel summary: '' @ e]
             (co\<lparr>co_disk := d\<rparr>)))"

record finish_facts =
  ff_process :: process_facts
  ff_writable :: "string \<Rightarrow> bool"
  ff_table :: "WorkloadReport list \<Rightarrow> string + string"
  ff_prepare_table :: "PrepareReport list \<Rightarrow> string + string"
  ff_analyze :: "string \<Rightarrow> disk \<Rightarrow> (string + unit) \<times> disk"
  ff_timestamp :: string
  ff_local_time :: string

text \<open>What follows the directory being finalized.\<close>

definition after_finalize ::
  "finish_facts \<Rightarrow> ResultsDir \<Rightarrow> PrepareReport list \<Rightarrow> TestStatus \<Rightarrow> console \<Rightarrow> (string + unit) \<times> console" where
  "after_finalize ff rd ps st co =
     next_step (write_ledger (ff_writable ff) rd (ff_timestamp ff) ps co) (\<lambda>co.
     next_step (on_disk (write_test_status (ff_writable ff) (ff_local_time ff) rd st) co) (\<lambda>co.
     next_step (print_test_status (ff_writable ff) rd st co) (\<lambda>co.
     next_step (excel_summary (ff_writable ff) (ff_analyze ff) rd co) (\<lambda>co.
       (Inr (), co\<lparr>co_printed := co_printed co @ [nl @ ''Results saved to: '' @ rd_path rd]\<rparr>)))))"

definition results_written ::
  "finish_facts \<Rightarrow> bool \<Rightarrow> ResultsDir \<Rightarrow> string \<Rightarrow> WorkloadReport list \<Rightarrow> PrepareReport list \<Rightarrow> console \<Rightarrow> console" where
  "results_written ff using_yaml_stages rd agents_dir rs ps co =
     (if using_yaml_stages then co
      else write_prepare_files (ff_writable ff) rd agents_dir (ff_prepare_table ff) ps
             (write_workload_files (ff_writable ff) rd agents_dir (ff_table ff) rs co))"

definition end_run ::
  "finish_facts \<Rightarrow> bool \<Rightarrow> rat \<Rightarrow> ResultsDir \<Rightarrow> string \<Rightarrow> WorkloadReport list \<Rightarrow> PrepareReport list \<Rightarrow> TestStatus \<Rightarrow> console
     \<Rightarrow> (string + unit) \<times> console" where
  "end_run ff using_yaml_stages secs rd agents_dir rs ps st co =
     (let co1 = results_written ff using_yaml_stages rd agents_dir rs ps co
      in case ResultsDir_finalize (ff_writable ff) (ff_process ff) secs rd (co_disk co1) of
           (Inl e, rd1, d) \<Rightarrow> (Inl e, co1\<lparr>co_disk := d\<rparr>)
         | (Inr _, rd1, d) \<Rightarrow> after_finalize ff rd1 ps st (co1\<lparr>co_disk := d\<rparr>))"

section \<open>What the files hold\<close>

lemma rd_file_inj:
  assumes "f \<noteq> []" "g \<noteq> []" "List.hd f \<noteq> CHR ''/''" "List.hd g \<noteq> CHR ''/''"
  shows "path_join p f = path_join p g \<longleftrightarrow> f = g"
  using assms by (auto simp: path_join_def)

lemma path_simps [simp]:
  "rd_path (rd\<lparr>rd_open := b\<rparr>) = rd_path rd" "rd_path (rd\<lparr>rd_meta := m\<rparr>) = rd_path rd"
  "rd_file (rd\<lparr>rd_open := b\<rparr>) f = rd_file rd f" "rd_file (rd\<lparr>rd_meta := m\<rparr>) f = rd_file rd f"
  by (simp_all add: rd_file_def)

lemma say_closed: "\<not> rd_open rd \<Longrightarrow> say w rd ls co = (Inr (), co\<lparr>co_printed := co_printed co @ ls\<rparr>)"
  by (induction ls arbitrary: co) (simp_all add: write_console_def)

lemma ledger_rows_nonempty: "ledger_rows ts n ps \<noteq> []" by (simp add: ledger_rows_def Let_def)

lemma append_ledger_other: "p \<noteq> ledger_path rd \<Longrightarrow> fold (append_to_ledger w rd) rows d p = d p"
  by (induction rows arbitrary: d) (simp_all add: append_to_ledger_def)

lemma ledger_closed:
  assumes "\<not> rd_open rd"
  obtains co' where "write_ledger w rd ts ps co = (Inr (), co')" "\<And>p. p \<noteq> ledger_path rd \<Longrightarrow> co_disk co' p = co_disk co p"
  by (cases "ps = []"; cases "w (ledger_path rd)") (simp_all add: write_ledger_def Let_def say_closed assms append_ledger_other del: say.simps)

lemma excel_closed:
  assumes "\<not> rd_open rd"
  obtains co' where "excel_summary w analyze rd co = (Inr (), co')" "co_disk co' = snd (analyze (rd_path rd) (co_disk co))"
  by (cases "analyze (rd_path rd) (co_disk co)") (simp add: excel_summary_def next_step_def say_closed assms del: say.simps)

lemma print_status_closed:
  "\<not> rd_open rd \<Longrightarrow> print_test_status w rd st co = (Inr (), co\<lparr>co_printed := co_printed co @ status_lines st\<rparr>)"
  by (simp add: print_test_status_def say_closed)

lemma after_finalize_closed:
  assumes "\<not> rd_open rd"
  obtains r co' d where "after_finalize ff rd ps st co = (r, co')" "\<And>p. p \<noteq> ledger_path rd \<Longrightarrow> p \<noteq> rd_file rd ''STATUS.txt'' \<Longrightarrow> d p = co_disk co p"
    and "co_disk co' = d \<or> co_disk co' = snd (ff_analyze ff (rd_path rd) d)"
    and "ff_writable ff (rd_file rd ''STATUS.txt'') \<Longrightarrow> r = Inr ()"
proof -
  obtain co1 where l: "write_ledger (ff_writable ff) rd (ff_timestamp ff) ps co = (Inr (), co1)"
      "\<And>p. p \<noteq> ledger_path rd \<Longrightarrow> co_disk co1 p = co_disk co p"
    using ledger_closed [OF assms] by blast
  show thesis
  proof (cases "ff_writable ff (rd_file rd ''STATUS.txt'')")
    case True
    define co2 where "co2 = co1\<lparr>co_disk := (co_disk co1)(rd_file rd ''STATUS.txt'' \<mapsto> status_text (ff_local_time ff) st),
      co_printed := co_printed co1 @ status_lines st\<rparr>"
    obtain co3 where x: "excel_summary (ff_writable ff) (ff_analyze ff) rd co2 = (Inr (), co3)"
        "co_disk co3 = snd (ff_analyze ff (rd_path rd) (co_disk co2))"
      using excel_closed [OF assms] by blast
    have "after_finalize ff rd ps st co = (Inr (), co3\<lparr>co_printed := co_printed co3 @ [nl @ ''Results saved to: '' @ rd_path rd]\<rparr>)"
      using x(1) True
      by (simp add: after_finalize_def next_step_def l(1) on_disk_def write_test_status_def write_file_def print_status_closed [OF assms]
          co2_def)
    then show thesis by (rule that [where d = "co_disk co2"]) (simp_all add: co2_def l(2) x(2))
  next
    case False
    then have "after_finalize ff rd ps st co = (Inl (''Failed to write STATUS.txt: '' @ rd_file rd ''STATUS.txt''), co1)"
      by (simp add: after_finalize_def next_step_def l(1) on_disk_def write_test_status_def write_file_def)
    then show thesis by (rule that [where d = "co_disk co1"]) (use l(2) False in simp_all)
  qed
qed




definition sample_facts :: process_facts where
  "sample_facts =
     \<lparr> fx_version = ''1'', fx_now = ''now'', fx_stamp = ''20250101-1200'', fx_command = [], fx_host = ''h'', fx_json = (\<lambda>_. ''{}'') \<rparr>"

definition sample_dir :: ResultsDir where
  "sample_dir = \<lparr> rd_path = ''out'', rd_meta = RunMetadata_new sample_facts ''t'' ''t.yaml'', rd_open = True \<rparr>"

definition sample_finish :: finish_facts where
  "sample_finish =
     \<lparr> ff_process = sample_facts, ff_writable = (\<lambda>_. True), ff_table = (\<lambda>_. Inl ''no table''), ff_prepare_table = (\<lambda>_. Inl ''no table''),
       ff_analyze = (\<lambda>q d. (Inl ''not found'', d)), ff_timestamp = ''ts'', ff_local_time = ''lt'' \<rparr>"

definition failed_status :: TestStatus where
  "failed_status =
     \<lparr> success = False, total_agents = 1, ts_completed = 0, ts_failed = 1, ts_disconnected = 0, ts_aborting = 0, ts_reconnect_count = 0,
       ts_total_ops = 0, agent_details = [] \<rparr>"



lemma write_all_get:
  "(\<And>p. w p) \<Longrightarrow> distinct (map fst fs) \<Longrightarrow>
   snd (write_all w fs d) p = (case map_of fs p of Some x \<Rightarrow> Some x | None \<Rightarrow> d p)"
proof (induction fs arbitrary: d)
  case (Cons kv fs)
  obtain k v where kv: "kv = (k, v)" by (cases kv)
  have "map_of fs k = None" using Cons.prems(2) by (simp add: kv map_of_eq_None_iff)
  moreover have "snd (write_all w fs (d(k \<mapsto> v))) p = (case map_of fs p of Some x \<Rightarrow> Some x | None \<Rightarrow> (d(k \<mapsto> v)) p)"
    by (rule Cons.IH) (use Cons.prems in simp_all)
  ultimately show ?case using Cons.prems(1) [of k] by (cases "p = k") (simp_all add: kv split: option.split)
qed simp

definition agent_file_path :: "string \<Rightarrow> string \<Rightarrow> string \<Rightarrow> string" where
  "agent_file_path agents_dir i f = path_join (path_join agents_dir i) f"

lemma agent_file_path_inj:
  assumes "i \<noteq> []" "j \<noteq> []" "CHR ''/'' \<notin> set i" "CHR ''/'' \<notin> set j" "f \<noteq> []" "g \<noteq> []" "CHR ''/'' \<notin> set f" "CHR ''/'' \<notin> set g"
  shows "agent_file_path p i f = agent_file_path p j g \<longleftrightarrow> i = j \<and> f = g"
proof -
  define b where "b = (if p = [] \<or> ends_with p ''/'' then p else p @ ''/'')"
  have b: "path_join p k = b @ k" if "k \<noteq> []" "CHR ''/'' \<notin> set k" for k
    using that by (cases k) (auto simp: path_join_def b_def)
  have join: "path_join (b @ k) h = (b @ k) @ ''/'' @ h" if "k \<noteq> []" "CHR ''/'' \<notin> set k" "h \<noteq> []" "CHR ''/'' \<notin> set h" for k h
    using that by (cases k rule: rev_cases; cases h) (auto simp: path_join_def ends_with_def starts_with_def)
  have "i @ ''/'' @ f = j @ ''/'' @ g \<longleftrightarrow> i = j \<and> f = g"
  proof -
    have cut: "takeWhile (\<lambda>c. c \<noteq> CHR ''/'') (k @ ''/'' @ h) = k" if "CHR ''/'' \<notin> set k" for k h
      using that by (induction k) auto
    show ?thesis using cut [OF assms(3), of f] cut [OF assms(4), of g] by (metis same_append_eq)
  qed
  then show ?thesis using assms by (simp add: agent_file_path_def b join)
qed

lemma agent_files_names:
  "distinct (map fst (agent_files r))" "(f, x) \<in> set (agent_files r) \<Longrightarrow> f \<noteq> [] \<and> CHR ''/'' \<notin> set f"
  by (auto simp: agent_files_def split: if_splits)

text \<open>
  Every agent keeps its files: when the agents have distinct names without slashes and everything can be
  written, each file an agent sent is in its own directory at the end, with the content it sent.
\<close>

lemma agent_files_kept:
  assumes "\<And>p. w p" "distinct (map ws_agent_id rs)" "\<And>r. r \<in> set rs \<Longrightarrow> ws_agent_id r \<noteq> [] \<and> CHR ''/'' \<notin> set (ws_agent_id r)"
    and "r \<in> set rs" "(f, x) \<in> set (agent_files r)"
  shows "fold (\<lambda>r d. snd (write_agent_results w agents_dir r d)) rs d (agent_file_path agents_dir (ws_agent_id r) f) = Some x"
  using assms(2-4)
proof (induction rs arbitrary: d rule: rev_induct)
  case (snoc q rs)
  let ?fs = "map (\<lambda>(f, x). (agent_file_path agents_dir (ws_agent_id q) f, x)) (agent_files q)"
  have "inj_on (agent_file_path agents_dir (ws_agent_id q)) (fst ` set (agent_files q))"
    using snoc.prems(2) [of q] agent_files_names(2) [of _ _ q] by (auto simp: inj_on_def agent_file_path_inj)
  then have keys: "distinct (map fst ?fs)"
    using agent_files_names(1) [of q] by (simp add: distinct_map comp_def split_beta inj_on_def image_iff)
  then have written: "snd (write_agent_results w agents_dir q d) p = (case map_of ?fs p of Some x \<Rightarrow> Some x | None \<Rightarrow> d p)" for p d
    using assms(1) by (simp add: write_agent_results_def write_in_dir_def Let_def agent_file_path_def write_all_get)
  show ?case
  proof (cases "r = q")
    case True
    then have "map_of ?fs (agent_file_path agents_dir (ws_agent_id r) f) = Some x"
      using assms(5) by (intro map_of_is_SomeI keys) force
    then show ?thesis by (simp add: written)
  next
    case False
    then have r: "r \<in> set rs" "ws_agent_id r \<noteq> ws_agent_id q" using snoc.prems(1,3) by (auto simp: image_iff)
    then have other: "agent_file_path agents_dir (ws_agent_id r) f \<noteq> agent_file_path agents_dir (ws_agent_id q) g"
      if "(g, y) \<in> set (agent_files q)" for g y
      using agent_file_path_inj [of "ws_agent_id r" "ws_agent_id q" f g] snoc.prems(2) agent_files_names(2) [OF that]
        agent_files_names(2) [OF assms(5)] by simp
    have "map_of ?fs (agent_file_path agents_dir (ws_agent_id r) f) = None"
      unfolding map_of_eq_None_iff
    proof
      assume "agent_file_path agents_dir (ws_agent_id r) f \<in> fst ` set ?fs"
      then obtain g y where "(g, y) \<in> set (agent_files q)" "agent_file_path agents_dir (ws_agent_id r) f = agent_file_path agents_dir (ws_agent_id q) g"
        by auto
      then show False using other by blast
    qed
    then show ?thesis using snoc r(1) by (simp add: written)
  qed
qed simp

definition sent_report :: "string \<Rightarrow> WorkloadReport" where
  "sent_report i =
     \<lparr> ws_agent_id = i, ws_total_ops = 1, wr_wall = 1, wr_bytes = 1, wr_get = None, wr_put = None, wr_meta = None, wr_p50 = 0, wr_p95 = 0,
       wr_p99 = 0, wr_console_log = [], wr_metadata_json = [], wr_tsv = ''table of '' @ i, wr_results_path = [], wr_op_log_path = [],
       wr_hist_get = [], wr_hist_put = [], wr_hist_meta = [], wr_get_bins = None, wr_put_bins = None, wr_meta_bins = None,
       wr_endpoints = [] \<rparr>"

lemma agent_files_kept_witness:
  "fold (\<lambda>r d. snd (write_agent_results (\<lambda>_. True) ''out/agents'' r d)) [sent_report ''a1'', sent_report ''a2''] Map.empty
     (agent_file_path ''out/agents'' ''a1'' ''results.tsv'') = Some ''table of a1''"
proof -
  have i: "ws_agent_id (sent_report i) = i" for i by (simp add: sent_report_def)
  have "fold (\<lambda>r d. snd (write_agent_results (\<lambda>_. True) ''out/agents'' r d)) [sent_report ''a1'', sent_report ''a2''] Map.empty
     (agent_file_path ''out/agents'' (ws_agent_id (sent_report ''a1'')) ''results.tsv'') = Some ''table of a1''"
  proof (rule agent_files_kept)
    show "ws_agent_id r \<noteq> [] \<and> CHR ''/'' \<notin> set (ws_agent_id r)" if "r \<in> set [sent_report ''a1'', sent_report ''a2'']" for r
      using that by (auto simp: i)
    show "(''results.tsv'', ''table of a1'') \<in> set (agent_files (sent_report ''a1''))" by (simp add: agent_files_def sent_report_def)
  qed (simp_all add: i)
  then show ?thesis by (simp only: i)
qed

text \<open>The name of a directory has no seconds: a second run within the same minute empties the console log of the first.\<close>

lemma same_minute_overwrites:
  assumes "ResultsDir_create w fx config_path custom base d = (Inr rd, d')"
  shows "d' (console_log_path rd) = Some []
    \<and> rd_path rd = path_join (case base of Some b \<Rightarrow> b | None \<Rightarrow> ''.'')
        (''sai3-'' @ fx_stamp fx @ ''-'' @ (case custom of Some n \<Rightarrow> n | None \<Rightarrow> config_stem config_path))"
  using assms
  by (auto simp: ResultsDir_create_def Let_def write_file_def console_log_path_def rd_file_def split: if_splits option.splits)

text \<open>The metadata on disk after finalizing are the final ones.\<close>

lemma finalize_writes_metadata:
  "ResultsDir_finalize w fx secs rd d = (Inr (), rd1, d1) \<Longrightarrow>
     d1 (rd_file rd ''metadata.json'') = Some (fx_json fx (rd_meta rd1)) \<and> rn_duration (rd_meta rd1) = Some secs \<and> \<not> rd_open rd1"
  by (auto simp: ResultsDir_finalize_def Let_def write_metadata_def write_file_def RunMetadata_finalize_def split: if_splits)

end
