(* ===== verification/Standalone_Run.thy ===== *)
theory Standalone_Run
  imports Cleanup_Phase Autotune Multi_Worker Preflight_Gate
begin

text \<open>
  A run of the standalone program: the counts of a directory tree in the configuration and the estimates
  of a dry run (\<open>src/validation.rs\<close>), and \<open>run_workload\<close> of \<open>src/main.rs\<close> with its flags, phases and their
  order.

  The prepare phase with its tables, the workload, the op-log and the result files are arguments on a state
  \<open>'s\<close>, which stand for \<open>Prepare_Phase\<close>, \<open>Workload_Run\<close>, \<open>Multi_Worker\<close> and \<open>Result_Files\<close>; the environment, the
  checks of the file system, verification and cleanup are the models of those components. What is printed or
  logged, and the thread of the performance log, are left out.
\<close>

section \<open>The counts of a directory tree\<close>

definition checked_u64 :: "string \<Rightarrow> nat \<Rightarrow> string + nat" where
  "checked_u64 msg n = (if n < 2 ^ 64 then Inr n else Inl msg)"

fun count_levels :: "nat \<Rightarrow> nat \<Rightarrow> nat \<Rightarrow> nat \<Rightarrow> string + nat \<times> nat" where
  "count_levels w 0 dirs level = Inr (dirs, level)"
| "count_levels w (Suc k) dirs level =
     bind_result (checked_u64 ''Directory tree size overflow (width/depth too large)'' (level * w)) (\<lambda>level'.
     bind_result (checked_u64 ''Directory tree size overflow (too many directories)'' (dirs + level')) (\<lambda>dirs'.
       count_levels w k dirs' level'))"

definition estimate_directory_tree_totals :: "DirectoryStructureConfig \<Rightarrow> string + nat \<times> nat" where
  "estimate_directory_tree_totals c =
     (if width c = 0 then Inl ''Directory width must be at least 1''
      else if depth c = 0 then Inl ''Directory depth must be at least 1''
      else bind_result (count_levels (width c) (depth c) 0 1) (\<lambda>(dirs, leaves).
             if distribution c = ''bottom'' \<or> distribution c = ''all''
             then bind_result (checked_u64 ''Directory tree size overflow (too many files)''
                    ((if distribution c = ''bottom'' then leaves else dirs) * files_per_dir c)) (\<lambda>files. Inr (dirs, files))
             else Inl (''Invalid distribution strategy: '' @ [CHR 0x27] @ distribution c @ [CHR 0x27] @ ''. Must be '' @ [CHR 0x27]
                    @ ''bottom'' @ [CHR 0x27] @ '' or '' @ [CHR 0x27] @ ''all'' @ [CHR 0x27])))"

fun fill_counts :: "nat \<Rightarrow> EnsureSpec list \<Rightarrow> string + EnsureSpec list" where
  "fill_counts n [] = Inr []"
| "fill_counts n (e # es) =
     (if es_count e = 0 then bind_result (fill_counts n es) (\<lambda>es'. Inr (e\<lparr>es_count := n\<rparr> # es'))
      else if es_count e \<noteq> n
      then Inl (''ensure_objects.count ('' @ show_nat (es_count e) @ '') does not match directory tree total files ('' @ show_nat n
             @ ''). Set count to '' @ show_nat n @ '' or 0 to auto-calculate'')
      else bind_result (fill_counts n es) (\<lambda>es'. Inr (e # es')))"

definition apply_directory_tree_counts :: "Config \<Rightarrow> string + Config" where
  "apply_directory_tree_counts c =
     (case prepare c of
        None \<Rightarrow> Inr c
      | Some p \<Rightarrow>
          (case directory_structure p of
             None \<Rightarrow> Inr c
           | Some d \<Rightarrow>
               bind_result (estimate_directory_tree_totals d) (\<lambda>(_, files).
                 if ensure_objects p = [] then Inl ''directory_structure requires at least one ensure_objects entry''
                 else bind_result (fill_counts files (ensure_objects p)) (\<lambda>es. Inr (c\<lparr>prepare := Some (p\<lparr>ensure_objects := es\<rparr>)\<rparr>)))))"

text \<open>The estimate of the bytes of a prepare phase, in 128 bits; the mean of a size specification is an argument.\<close>

definition average_size :: "(SizeSpec \<Rightarrow> string + nat) \<Rightarrow> EnsureSpec \<Rightarrow> string + nat" where
  "average_size mean e =
     (case size_spec e of
        Some sp \<Rightarrow> mean sp
      | None \<Rightarrow> (case (min_size e, max_size e) of (Some mn, Some mx) \<Rightarrow> Inr ((mn + mx) mod 2 ^ 64 div 2) | _ \<Rightarrow> Inr 1024))"

fun sum_bytes :: "(SizeSpec \<Rightarrow> string + nat) \<Rightarrow> EnsureSpec list \<Rightarrow> nat \<Rightarrow> string + nat" where
  "sum_bytes mean [] total_bytes = Inr total_bytes"
| "sum_bytes mean (e # es) total_bytes =
     bind_result (average_size mean e) (\<lambda>avg.
       (let t = total_bytes + min (es_count e * avg) (2 ^ 128 - 1)
        in if t < 2 ^ 128 then sum_bytes mean es t else Inl ''Estimated data size overflow (counts too large)''))"

definition estimate_objects_bytes :: "(SizeSpec \<Rightarrow> string + nat) \<Rightarrow> EnsureSpec list \<Rightarrow> string + nat" where
  "estimate_objects_bytes mean es =
     bind_result (sum_bytes mean es 0) (\<lambda>t. if t < 2 ^ 64 then Inr t else Inl ''Estimated data size exceeds u64::MAX'')"

lemma checked_simps [simp]:
  "checked_u64 m n = Inr k \<longleftrightarrow> n < 2 ^ 64 \<and> k = n" "bind_result (checked_u64 m n) f = Inr r \<longleftrightarrow> n < 2 ^ 64 \<and> f n = Inr r"
  by (auto simp: checked_u64_def)

text \<open>The levels that remain add their powers of the width.\<close>

lemma count_levels_exact:
  "count_levels w k dirs level = Inr (d, l) \<longleftrightarrow>
     d = dirs + sum_list (map (\<lambda>i. level * w ^ i) [1..<k + 1]) \<and> l = level * w ^ k
     \<and> (k = 0 \<or> dirs + sum_list (map (\<lambda>i. level * w ^ i) [1..<k + 1]) < 2 ^ 64)" if "0 < w"
proof (induction k arbitrary: dirs level)
  case (Suc k)
  have shift: "sum_list (map (\<lambda>i. level * w ^ i) [1..<Suc k + 1]) = level * w + sum_list (map (\<lambda>i. level * w * w ^ i) [1..<k + 1])"
  proof -
    have "[1..<Suc k + 1] = 1 # map Suc [1..<k + 1]" by (simp add: map_Suc_upt upt_conv_Cons del: upt_Suc)
    then show ?thesis by (simp add: comp_def mult.assoc del: upt_Suc)
  qed
  show ?case unfolding count_levels.simps shift by (auto simp: Suc.IH algebra_simps simp del: upt_Suc)
qed auto

text \<open>
  C38: The counts of a directory tree agree with the tree that is built: they are found exactly when the tree
  can be built and both totals fit 64 bits, and then they are its totals.
\<close>

theorem tree_estimate_exact:
  "estimate_directory_tree_totals c = Inr (d, f) \<longleftrightarrow>
     (\<exists>t. tree_new c = Inr t \<and> total_directories t = d \<and> dt_total_files t = f \<and> d < 2 ^ 64 \<and> f < 2 ^ 64)"
proof (cases "width c = 0 \<or> depth c = 0 \<or> distribution c \<notin> {''bottom'', ''all''}")
  case True
  show ?thesis
  proof -
    have "tree_new c \<noteq> Inr t" for t
    proof
      assume "tree_new c = Inr t"
      then show False using tree_new_fields(1,2,6) [of c t] True by auto
    qed
    moreover have "estimate_directory_tree_totals c \<noteq> Inr (d, f)"
      using True unfolding estimate_directory_tree_totals_def by (auto simp: bind_result_Inr_iff)
    ultimately show ?thesis by blast
  qed
next
  case False
  then obtain t where t: "tree_new c = Inr t" 
    by (cases "foldl (add_level c) ([], [], []) [1..<depth c + 1]") (auto simp: tree_new_def Let_def simp del: upt_Suc)
  have "count_levels (width c) (depth c) 0 1 = Inr (x, l) \<longleftrightarrow>
      x = dirs_up_to (width c) (depth c) \<and> l = width c ^ depth c \<and> x < 2 ^ 64" for x l
    using False by (subst count_levels_exact) (auto simp: dirs_up_to_def)
  then have "estimate_directory_tree_totals c = Inr (d, f) \<longleftrightarrow>
      d = dirs_up_to (width c) (depth c) \<and> d < 2 ^ 64 \<and> f < 2 ^ 64
      \<and> f = (if distribution c = ''bottom'' then width c ^ depth c else dirs_up_to (width c) (depth c)) * files_per_dir c"
    using False unfolding estimate_directory_tree_totals_def bind_result_Inr_iff by (auto simp: bind_result_Inr_iff)
  moreover have "(\<exists>t'. tree_new c = Inr t' \<and> total_directories t' = d \<and> dt_total_files t' = f \<and> d < 2 ^ 64 \<and> f < 2 ^ 64)
      \<longleftrightarrow> total_directories t = d \<and> dt_total_files t = f \<and> d < 2 ^ 64 \<and> f < 2 ^ 64" unfolding t sum.inject by blast
  ultimately show ?thesis unfolding tree_new_fields(5,7) [OF t]
    by (simp only:) (intro iffI; elim conjE; intro conjI; (assumption | erule sym))
qed

lemma fill_counts_exact:
  "fill_counts n es = Inr es' \<longleftrightarrow> list_all (\<lambda>e. es_count e \<in> {0, n}) es \<and> es' = map (\<lambda>e. e\<lparr>es_count := n\<rparr>) es"
proof (induction es arbitrary: es')
  case (Cons e es)
  have "e\<lparr>es_count := n\<rparr> = e" if "es_count e = n" using that by (cases e) simp
  then show ?case by (cases "es_count e = 0") (auto simp: bind_result_Inr_iff Cons.IH)
qed auto


section \<open>A run\<close>

datatype ProcessingMode = MultiProcess | MultiRuntime

record RunJob =
  rj_config :: Config
  rj_s3dlio :: "S3dlioOptimizationConfig option"
  rj_processes :: "ProcessScaling option"
  rj_mode :: ProcessingMode

record run_flags =
  fl_dry_run :: bool
  fl_prepare_only :: bool
  fl_cleanup_only :: bool
  fl_verify :: bool
  fl_skip_prepare :: bool
  fl_no_cleanup :: bool
  fl_op_log :: "string option"

text \<open>
  What a run calls. \<open>sx_prepare\<close> also writes the tables and the ledger of the prepare phase, \<open>sx_export\<close> the
  tables of the workload; \<open>sx_summary\<close> starts the Excel program, whose failure is only reported.
\<close>

record ('r, 's) standalone =
  sx_max_endpoints :: nat
  sx_physical :: nat
  sx_display :: "Config \<Rightarrow> string + unit"
  sx_environment :: "(process_env \<Rightarrow> process_env) \<Rightarrow> 's \<Rightarrow> 's"
  sx_open_log :: "string \<Rightarrow> 's \<Rightarrow> (string + unit) \<times> 's"
  sx_close_log :: "'s \<Rightarrow> 's"
  sx_merge :: "string \<Rightarrow> nat \<Rightarrow> 's \<Rightarrow> (string + unit) \<times> 's"
  sx_results :: "'s \<Rightarrow> (string + unit) \<times> 's"
  sx_finalize :: "rat \<Rightarrow> 's \<Rightarrow> (string + unit) \<times> 's"
  sx_summary :: "'s \<Rightarrow> 's"
  sx_fs :: "'s fs_calls"
  sx_store :: "'s object_store"
  sx_open :: "string \<Rightarrow> string + unit"
  sx_sleep :: "nat \<Rightarrow> 's \<Rightarrow> 's"
  sx_prepare :: "Config \<Rightarrow> PrepareConfig \<Rightarrow> 's \<Rightarrow> (string + PreparedObject list \<times> TreeManifest option) \<times> 's"
  sx_run :: "(ProcessingMode \<times> nat) option \<Rightarrow> Config \<Rightarrow> TreeManifest option \<Rightarrow> 's \<Rightarrow> (string + 'r) \<times> 's"
  sx_wall :: "'r \<Rightarrow> rat"
  sx_export :: "'r \<Rightarrow> 's \<Rightarrow> (string + unit) \<times> 's"

text \<open>The combinations of flags that are refused, in the order they are looked at.\<close>

definition flag_conflict :: "run_flags \<Rightarrow> string option" where
  "flag_conflict fl =
     (if fl_prepare_only fl \<and> fl_verify fl then Some ''Cannot use both --prepare-only and --verify''
      else if fl_prepare_only fl \<and> fl_skip_prepare fl then Some ''Cannot use both --prepare-only and --skip-prepare''
      else if fl_prepare_only fl \<and> fl_cleanup_only fl then Some ''Cannot use both --prepare-only and --cleanup-only''
      else if fl_cleanup_only fl \<and> fl_skip_prepare fl
      then Some ''Cannot use both --cleanup-only and --skip-prepare (cleanup requires knowing what objects were prepared)''
      else if fl_cleanup_only fl \<and> fl_verify fl then Some ''Cannot use both --cleanup-only and --verify''
      else if fl_cleanup_only fl \<and> fl_no_cleanup fl then Some ''Cannot use --cleanup-only with --no-cleanup''
      else if fl_verify fl \<and> fl_skip_prepare fl then Some ''Cannot use both --verify and --skip-prepare''
      else None)"

definition with_cleanup_flag :: "run_flags \<Rightarrow> Config \<Rightarrow> Config" where
  "with_cleanup_flag fl cfg =
     (if fl_no_cleanup fl then cfg\<lparr>prepare := map_option (\<lambda>p. p\<lparr>cleanup := False\<rparr>) (prepare cfg)\<rparr> else cfg)"

definition job_environment :: "RunJob \<Rightarrow> process_env \<Rightarrow> process_env" where
  "job_environment j pe =
     apply_gcs_defaults (rj_config j) (rj_s3dlio j) (case rj_s3dlio j of None \<Rightarrow> pe | Some so \<Rightarrow> s3dlio_apply so pe)"

definition fs_path :: "string \<Rightarrow> string option" where
  "fs_path t = (case strip_prefix ''file://'' t of Some p \<Rightarrow> Some p | None \<Rightarrow> strip_prefix ''direct://'' t)"

text \<open>Only a target of the file system is checked; the write tests belong to a prepare phase.\<close>

definition check_target :: "('r, 's) standalone \<Rightarrow> Config \<Rightarrow> 's \<Rightarrow> (string + unit) \<times> 's" where
  "check_target sx cfg s =
     (case Option.bind (target cfg) fs_path of
        None \<Rightarrow> (Inr (), s)
      | Some p \<Rightarrow>
          (let (rs, s') = validate_filesystem (sx_fs sx) p (prepare cfg \<noteq> None) (Some (1024 * 1024 * 1024)) s;
               (ok, errs, warns) = display_validation_results rs
           in if ok then (Inr (), s') else (Inl (''Pre-flight validation failed with '' @ show_nat errs @ '' errors''), s')))"

definition before_prepare :: "('r, 's) standalone \<Rightarrow> run_flags \<Rightarrow> Config \<Rightarrow> 's \<Rightarrow> (string + unit) \<times> 's" where
  "before_prepare sx fl cfg s =
     then_do (case fl_op_log fl of None \<Rightarrow> (Inr (), s) | Some p \<Rightarrow> sx_open_log sx p s) (\<lambda>_ s.
     then_do (sx_results sx s) (\<lambda>_ s. check_target sx cfg s))"

definition verify_run :: "('r, 's) standalone \<Rightarrow> Config \<Rightarrow> 's \<Rightarrow> (string + unit) \<times> 's" where
  "verify_run sx cfg s =
     (case prepare cfg of
        None \<Rightarrow> (Inl (''--verify requires '' @ [CHR 0x27] @ ''prepare'' @ [CHR 0x27] @ '' section in config''), s)
      | Some p \<Rightarrow> then_do (verify_prepared_objects (sx_store sx) (sx_open sx) p s, s) (\<lambda>_ s. sx_finalize sx 0 s))"

definition prepare_step ::
  "('r, 's) standalone \<Rightarrow> run_flags \<Rightarrow> Config \<Rightarrow> 's \<Rightarrow> (string + PreparedObject list \<times> TreeManifest option) \<times> 's" where
  "prepare_step sx fl cfg s =
     (case prepare cfg of
        None \<Rightarrow> (Inr ([], None), s)
      | Some p \<Rightarrow>
          if fl_skip_prepare fl then (Inr ([], None), s)
          else then_do (sx_prepare sx cfg p s) (\<lambda>r s'.
                 (Inr r, if list_ex po_created (fst r) \<and> 0 < post_prepare_delay p then sx_sleep sx (post_prepare_delay p) s' else s')))"

subsection \<open>Cleanup only\<close>

text \<open>The names that are deleted are made from the configuration and the last part of the base URI.\<close>

definition cleanup_base :: "EnsureSpec \<Rightarrow> string + string" where
  "cleanup_base e =
     (case get_base_uri e None of
        Inl _ \<Rightarrow> Inl ''base_uri is required when no multi_endpoint configuration is provided''
      | Inr u \<Rightarrow> Inr u)"

definition segment :: "string \<Rightarrow> string" where "segment base = last (split_on (CHR ''/'') (trim_end_matches (CHR ''/'') base))"

definition cleanup_tree :: "PrepareConfig \<Rightarrow> string + TreeManifest option" where
  "cleanup_tree p =
     (if directory_structure p = None then Inr None
      else case ensure_objects p of
             [] \<Rightarrow> Inl ''directory_structure requires at least one ensure_objects entry''
           | e # _ \<Rightarrow> bind_result (cleanup_base e) (\<lambda>_.
               (case create_tree_manifest_only p 1 of
                  Inl _ \<Rightarrow> Inl ''Failed to create DirectoryTree''
                | Inr m \<Rightarrow> Inr (Some m))))"

definition cleanup_names :: "TreeManifest option \<Rightarrow> string \<Rightarrow> nat \<Rightarrow> string list" where
  "cleanup_names tree base n =
     (case tree of
        Some m \<Rightarrow> List.map_filter (get_file_path m) [0..<total_files m]
      | None \<Rightarrow> map (plain_key (segment base)) [0..<n])"

fun cleanup_specs :: "TreeManifest option \<Rightarrow> EnsureSpec list \<Rightarrow> string + PreparedObject list" where
  "cleanup_specs tree [] = Inr []"
| "cleanup_specs tree (e # es) =
     bind_result (cleanup_base e) (\<lambda>base. bind_result (cleanup_specs tree es) (\<lambda>xs.
       Inr (map (\<lambda>k. \<lparr> po_uri = join_key base k, po_size = 0, po_created = True \<rparr>) (cleanup_names tree base (es_count e)) @ xs)))"

definition cleanup_only_run :: "('r, 's) standalone \<Rightarrow> Config \<Rightarrow> 's \<Rightarrow> (string + unit) \<times> 's" where
  "cleanup_only_run sx cfg s =
     (case prepare cfg of
        None \<Rightarrow> (Inl (''--cleanup-only requires '' @ [CHR 0x27] @ ''prepare'' @ [CHR 0x27] @ '' section in config''), s)
      | Some p \<Rightarrow>
          then_do (cleanup_tree p, s) (\<lambda>tree s. then_do (cleanup_specs tree (ensure_objects p), s) (\<lambda>objs s.
            then_do (cleanup_prepared_objects (sx_store sx) (sx_open sx) objs tree 0 (cleanup_mode p) s) (\<lambda>_ s. sx_finalize sx 0 s))))"

subsection \<open>The workload and what follows\<close>

definition get_paths :: "Config \<Rightarrow> string list" where
  "get_paths cfg = List.map_filter (\<lambda>w. case spec w of Get path \<Rightarrow> Some path | _ \<Rightarrow> None) (workload cfg)"

definition list_prefix :: "string \<Rightarrow> string \<Rightarrow> string" where
  "list_prefix t path = trim_end_matches (CHR ''/'') (trim_end_matches (CHR ''*'') (join_key t path))"

definition has_objects :: "('r, 's) standalone \<Rightarrow> 's \<Rightarrow> string \<Rightarrow> bool" where
  "has_objects sx s u =
     (case sx_open sx u of Inl _ \<Rightarrow> False
      | Inr _ \<Rightarrow> (case st_list (sx_store sx) u s of Inl _ \<Rightarrow> False | Inr found \<Rightarrow> found \<noteq> []))"

text \<open>Without objects for the first three patterns of GET there is a warning and a pause, no error.\<close>

definition preflight_check_get_objects :: "('r, 's) standalone \<Rightarrow> Config \<Rightarrow> 's \<Rightarrow> (string + unit) \<times> 's" where
  "preflight_check_get_objects sx cfg s =
     (case prepare cfg of
        None \<Rightarrow> (Inr (), s)
      | Some p \<Rightarrow>
          if \<not> skip_verification p \<or> get_paths cfg = [] then (Inr (), s)
          else (case target cfg of
                  None \<Rightarrow> (Inl ''Target URI required for preflight check'', s)
                | Some t \<Rightarrow>
                    (Inr (), if list_ex (\<lambda>g. has_objects sx s (list_prefix t g)) (take 3 (get_paths cfg)) then s else sx_sleep sx 5 s)))"

definition final_cleanup ::
  "('r, 's) standalone \<Rightarrow> Config \<Rightarrow> PreparedObject list \<Rightarrow> TreeManifest option \<Rightarrow> 's \<Rightarrow> (string + unit) \<times> 's" where
  "final_cleanup sx cfg objs tree s =
     (case prepare cfg of
        None \<Rightarrow> (Inr (), s)
      | Some p \<Rightarrow>
          if cleanup p \<and> objs \<noteq> []
          then then_do (cleanup_prepared_objects (sx_store sx) (sx_open sx) objs tree 0 (cleanup_mode p) s) (\<lambda>_ s. (Inr (), s))
          else (Inr (), s))"

definition full_run ::
  "('r, 's) standalone \<Rightarrow> run_flags \<Rightarrow> RunJob \<Rightarrow> Config \<Rightarrow> PreparedObject list \<Rightarrow> TreeManifest option \<Rightarrow> 's \<Rightarrow> (string + unit) \<times> 's"
where
  "full_run sx fl j cfg objs tree s =
     (let n = (case rj_processes j of None \<Rightarrow> 1 | Some p \<Rightarrow> resolve_scaling (sx_physical sx) p);
          merging = (if 1 < n \<and> rj_mode j = MultiProcess then fl_op_log fl else None);
          s = (if merging = None then s else sx_close_log sx s)
      in then_do (preflight_check_get_objects sx cfg s) (\<lambda>_ s.
         then_do (sx_run sx (if 1 < n then Some (rj_mode j, n) else None) cfg tree s) (\<lambda>r s.
         then_do (case merging of None \<Rightarrow> (Inr (), s) | Some p \<Rightarrow> sx_merge sx p n s) (\<lambda>_ s.
         then_do (sx_export sx r s) (\<lambda>_ s.
         then_do (final_cleanup sx cfg objs tree s) (\<lambda>_ s.
         then_do (sx_finalize sx (sx_wall sx r) s) (\<lambda>_ s. (Inr (), sx_summary sx s))))))))"

definition run_configured :: "('r, 's) standalone \<Rightarrow> run_flags \<Rightarrow> RunJob \<Rightarrow> Config \<Rightarrow> 's \<Rightarrow> (string + unit) \<times> 's" where
  "run_configured sx fl j cfg s =
     then_do (before_prepare sx fl cfg s) (\<lambda>_ s.
       if fl_verify fl then verify_run sx cfg s
       else then_do (prepare_step sx fl cfg s) (\<lambda>(objs, tree) s.
         if fl_prepare_only fl
         then (if prepare cfg = None
               then (Inl (''--prepare-only requires '' @ [CHR 0x27] @ ''prepare'' @ [CHR 0x27] @ '' section in config''), s)
               else sx_finalize sx 0 s)
         else if fl_cleanup_only fl then cleanup_only_run sx cfg s
         else full_run sx fl j cfg objs tree s))"

text \<open>The configuration is read first; \<open>loaded\<close> is the outcome of reading and parsing it.\<close>

definition run_workload :: "('r, 's) standalone \<Rightarrow> run_flags \<Rightarrow> string + RunJob \<Rightarrow> 's \<Rightarrow> (string + unit) \<times> 's" where
  "run_workload sx fl loaded s =
     then_do (loaded, s) (\<lambda>j s.
       if (case multi_endpoint (rj_config j) of None \<Rightarrow> False | Some m \<Rightarrow> \<not> is_ok (multi_endpoint_validate (sx_max_endpoints sx) m))
       then (Inl ''Invalid multi_endpoint config'', s)
       else (let s = sx_environment sx (job_environment j) s
             in case apply_directory_tree_counts (rj_config j) of
                  Inl _ \<Rightarrow> (Inl ''Directory tree count validation failed'', s)
                | Inr cfg \<Rightarrow>
                    if fl_dry_run fl then (sx_display sx cfg, s)
                    else (case flag_conflict fl of
                            Some e \<Rightarrow> (Inl e, s)
                          | None \<Rightarrow> run_configured sx fl j (with_cleanup_flag fl cfg) s)))"


subsection \<open>Which runs delete objects\<close>

abbreviation with_delete :: "('r, 's) standalone \<Rightarrow> (string \<Rightarrow> 's \<Rightarrow> (string + unit) \<times> 's) \<Rightarrow> ('r, 's) standalone" where
  "with_delete sx d \<equiv> sx\<lparr>sx_store := (sx_store sx)\<lparr>st_delete := d\<rparr>\<rparr>"

lemma then_do_cong: "(\<And>a w. x = (Inr a, w) \<Longrightarrow> f a w = g a w) \<Longrightarrow> then_do x f = then_do x g"
  by (cases x; cases "fst x") auto

lemma then_do_Inr_iff: "then_do x f = (Inr b, w') \<longleftrightarrow> (\<exists>a w. x = (Inr a, w) \<and> f a w = (Inr b, w'))"
  by (cases x; cases "fst x") auto

lemma verify_ignores_delete: "verify_specs (st\<lparr>st_delete := d\<rparr>) op s sps = verify_specs st op s sps"
  by (induction sps) (simp_all add: Let_def split: sum.split)

lemma with_delete_sel:
  "sx_open_log (with_delete sx d) = sx_open_log sx" "sx_close_log (with_delete sx d) = sx_close_log sx"
  "sx_merge (with_delete sx d) = sx_merge sx" "sx_results (with_delete sx d) = sx_results sx"
  "sx_finalize (with_delete sx d) = sx_finalize sx" "sx_fs (with_delete sx d) = sx_fs sx" "sx_open (with_delete sx d) = sx_open sx"
  "sx_sleep (with_delete sx d) = sx_sleep sx" "sx_prepare (with_delete sx d) = sx_prepare sx"
  "sx_physical (with_delete sx d) = sx_physical sx" "sx_display (with_delete sx d) = sx_display sx"
  "sx_environment (with_delete sx d) = sx_environment sx" "sx_max_endpoints (with_delete sx d) = sx_max_endpoints sx"
  "sx_run (with_delete sx d) = sx_run sx" "sx_export (with_delete sx d) = sx_export sx" "sx_wall (with_delete sx d) = sx_wall sx"
  "sx_summary (with_delete sx d) = sx_summary sx" "st_list (sx_store (with_delete sx d)) = st_list (sx_store sx)"
  by simp_all

lemma verify_prepared_ignores_delete:
  "verify_prepared_objects (sx_store (with_delete sx d)) op p s = verify_prepared_objects (sx_store sx) op p s"
  by (simp add: verify_prepared_objects_def verify_ignores_delete)

lemma has_objects_ignores_delete: "has_objects (with_delete sx d) s = has_objects sx s"
  unfolding has_objects_def with_delete_sel by (rule refl)

lemma steps_ignore_delete:
  "before_prepare (with_delete sx d) fl cfg s = before_prepare sx fl cfg s"
  "verify_run (with_delete sx d) cfg s = verify_run sx cfg s"
  "prepare_step (with_delete sx d) fl cfg s = prepare_step sx fl cfg s"
  "preflight_check_get_objects (with_delete sx d) cfg s = preflight_check_get_objects sx cfg s"
  unfolding before_prepare_def check_target_def verify_run_def prepare_step_def preflight_check_get_objects_def with_delete_sel
    verify_prepared_ignores_delete has_objects_ignores_delete by (rule refl)+

lemma final_cleanup_skipped:
  "objs = [] \<or> pred_option (\<lambda>p. \<not> cleanup p) (prepare cfg) \<Longrightarrow> final_cleanup sx cfg objs tree s = (Inr (), s)"
  by (auto simp: final_cleanup_def split: option.split)

lemma full_run_ignores_delete:
  "objs = [] \<or> pred_option (\<lambda>p. \<not> cleanup p) (prepare cfg) \<Longrightarrow>
   full_run (with_delete sx d) fl j cfg objs tree s = full_run sx fl j cfg objs tree s"
  unfolding full_run_def with_delete_sel steps_ignore_delete by (simp only: final_cleanup_skipped)

lemma prepare_step_skipped: "fl_skip_prepare fl \<Longrightarrow> prepare_step sx fl cfg s = (Inr ([], None), s)"
  by (simp add: prepare_step_def split: option.split)



text \<open>A workload that fails ends the run where it stopped: its objects are not deleted, no table is written.\<close>

lemma failed_workload_ends_run:
  "rj_processes j = None \<Longrightarrow> preflight_check_get_objects sx cfg s = (Inr (), s1) \<Longrightarrow> sx_run sx None cfg tree s1 = (Inl e, s2) \<Longrightarrow>
   full_run sx fl j cfg objs tree s = (Inl e, s2)"
  by (simp add: full_run_def)

text \<open>
  With unverified objects and a GET the check wants a target, although a configuration with several endpoints
  needs none: such a run ends after its prepare phase.
\<close>

lemma get_check_needs_target:
  "prepare cfg = Some p \<Longrightarrow> skip_verification p \<Longrightarrow> Get path \<in> spec ` set (workload cfg) \<Longrightarrow> target cfg = None \<Longrightarrow>
   rj_processes j = None \<Longrightarrow> full_run sx fl j cfg objs tree s = (Inl ''Target URI required for preflight check'', s)"
proof -
  assume a: "prepare cfg = Some p" "skip_verification p" "Get path \<in> spec ` set (workload cfg)" "target cfg = None" "rj_processes j = None"
  obtain w where w: "w \<in> set (workload cfg)" "spec w = Get path" using a(3) by force
  then have "path \<in> set (get_paths cfg)" unfolding get_paths_def List.map_filter_def
    by (simp add: image_iff) (rule exI [of _ w], simp)
  then have "get_paths cfg \<noteq> []" by auto
  then show ?thesis using a by (simp add: full_run_def preflight_check_get_objects_def)
qed

subsection \<open>What \<open>--cleanup-only\<close> leaves\<close>

lemma join_key_split: "\<exists>c. join_key b k = c @ CHR ''/'' # k"
proof (cases "ends_with b ''/''")
  case True
  then obtain r where "rev b = CHR ''/'' # r" by (cases "rev b") (auto simp: ends_with_def starts_with_def)
  then have "b = rev r @ ''/''" by simp
  then show ?thesis using True by (simp add: join_key_def)
qed (simp add: join_key_def)

lemma plain_key_prefix: "plain_key a i = plain_key b j \<Longrightarrow> a = b"
proof -
  have "dropWhile (\<lambda>c. c \<noteq> CHR ''-'') (rev (plain_key a i)) = CHR ''-'' # rev a" for a i
    using padded_chars(3) [of 8 i] by (auto simp: plain_key_def intro!: trans [OF dropWhile_append2])
  then show "plain_key a i = plain_key b j \<Longrightarrow> a = b" by (metis list.inject rev_rev_ident)
qed

lemma segment_no_slash: "CHR ''/'' \<notin> set (segment b)"
  unfolding segment_def by (rule split_on_pieces) (rule last_in_set, simp)

lemma join_key_name:
  assumes "CHR ''/'' \<notin> set k"
  shows "last (split_on (CHR ''/'') (join_key b k)) = k" "last (split_on (CHR ''/'') (join_key b (d @ CHR ''/'' # k))) = k"
proof -
  obtain c where "join_key b k = c @ CHR ''/'' # k" using join_key_split by blast
  then show "last (split_on (CHR ''/'') (join_key b k)) = k" by (simp add: last_split_append assms)
  obtain c where "join_key b (d @ CHR ''/'' # k) = (c @ CHR ''/'' # d) @ CHR ''/'' # k" using join_key_split by fastforce
  then show "last (split_on (CHR ''/'') (join_key b (d @ CHR ''/'' # k))) = k" by (simp only: last_split_append [OF assms])
qed

lemma cleanup_names_differ:
  assumes "segment b \<noteq> pfx" and "pfx \<in> {''prepared'', ''deletable''}"
  shows "join_key b (plain_key (segment b) i) \<noteq> join_key b' (flat_key shards pfx j)"
proof
  assume eq: "join_key b (plain_key (segment b) i) = join_key b' (flat_key shards pfx j)"
  have no_slash: "CHR ''/'' \<notin> set (plain_key a i)" if "CHR ''/'' \<notin> set a" for a i
    using that padded_chars(1) by (simp add: plain_key_def)
  have pfx: "CHR ''/'' \<notin> set (plain_key pfx j)" by (rule no_slash) (use assms(2) in auto)
  have "plain_key (segment b) i = plain_key pfx j"
    using arg_cong [OF eq, of "\<lambda>u. last (split_on (CHR ''/'') u)"] no_slash [OF segment_no_slash] pfx
    by (simp add: flat_key_def join_key_name split: if_splits)
  then show False using plain_key_prefix assms(1) by blast
qed

lemma cleanup_specs_uris:
  "cleanup_specs None es = Inr xs \<Longrightarrow> x \<in> set xs \<Longrightarrow>
   \<exists>e\<in>set es. \<exists>b i. get_base_uri e None = Inr b \<and> po_uri x = join_key b (plain_key (segment b) i)"
proof (induction es arbitrary: xs)
  case (Cons e es)
  obtain b ys where b: "get_base_uri e None = Inr b" and ys: "cleanup_specs None es = Inr ys"
      and xs: "xs = map (\<lambda>k. \<lparr> po_uri = join_key b k, po_size = 0, po_created = True \<rparr>) (map (plain_key (segment b)) [0..<es_count e]) @ ys"
    using Cons.prems(1) by (auto simp: bind_result_Inr_iff cleanup_base_def cleanup_names_def split: sum.splits)
  show ?case
  proof (cases "x \<in> set ys")
    case False
    then show ?thesis using b Cons.prems(2) unfolding xs by force
  qed (use Cons.IH [OF ys] in auto)
qed simp

lemma generated_uris:
  assumes "x \<in> set (generate_cleanup_objects p a n)"
  shows "\<exists>b pfx i. pfx \<in> {''prepared'', ''deletable''} \<and> po_uri x = join_key b (flat_key (key_prefix_shards p) pfx i)"
proof -
  define base where "base sp = (case get_base_uri sp None of Inr u \<Rightarrow> u | Inl _ \<Rightarrow> [])" for sp
  obtain sp pfx where "pfx \<in> {''prepared'', ''deletable''}"
      and "x \<in> set (map (\<lambda>i. \<lparr> po_uri = join_key (base sp) (flat_key (key_prefix_shards p) pfx i), po_size = 0, po_created = True \<rparr>)
        (filter (mine a n) [0..<es_count sp]))"
    using assms unfolding generate_cleanup_objects_def Let_def base_def [symmetric] by (auto split: if_splits)
  then obtain i where "pfx \<in> {''prepared'', ''deletable''}" "po_uri x = join_key (base sp) (flat_key (key_prefix_shards p) pfx i)"
    by (auto simp del: insert_iff)
  then show ?thesis by blast
qed

lemma delete_all_keeps:
  assumes "\<And>u v t. v \<noteq> u \<Longrightarrow> present (snd (st_delete st u t)) v = present t v"
  shows "v \<notin> po_uri ` set xs \<Longrightarrow> present (snd (delete_all st mode xs t)) v = present t v"
  by (induction xs arbitrary: t) (auto simp: assms split_beta Let_def)

lemma cleanup_keeps:
  assumes "\<And>u v t. v \<noteq> u \<Longrightarrow> present (snd (st_delete st u t)) v = present t v" and "v \<notin> po_uri ` set xs"
  shows "present (snd (cleanup_prepared_objects st op xs None 0 mode t)) v = present t v"
proof -
  have "present (snd (delete_all st mode xs t)) v = present t v" by (rule delete_all_keeps) (use assms in auto)
  then show ?thesis
    by (auto simp: cleanup_prepared_objects_def sweep_directories_def sweep_base_def split_beta Let_def split: list.splits sum.splits)
qed

lemma apply_counts_flat: "pred_option (\<lambda>p. directory_structure p = None) (prepare c) \<Longrightarrow> apply_directory_tree_counts c = Inr c"
  by (auto simp: apply_directory_tree_counts_def split: option.splits)

lemma cleanup_only_run_ends:
  assumes "run_workload sx fl (Inr j) s = (Inr (), s')" "fl_cleanup_only fl" "\<not> fl_dry_run fl"
    and "prepare (rj_config j) = Some p" "directory_structure p = None"
  defines "w \<equiv> prepare_step sx fl (rj_config j) (snd (before_prepare sx fl (rj_config j) (sx_environment sx (job_environment j) s)))"
  shows "is_ok (fst w) \<and> cleanup_only_run sx (rj_config j) (snd w) = (Inr (), s')"
proof -
  have counts: "apply_directory_tree_counts (rj_config j) = Inr (rj_config j)" by (rule apply_counts_flat) (simp add: assms)
  have fl: "flag_conflict fl = None" using assms(1,3) counts by (auto simp: run_workload_def Let_def split: if_splits option.splits)
  then have f: "\<not> fl_prepare_only fl" "\<not> fl_verify fl" "\<not> fl_no_cleanup fl" "with_cleanup_flag fl c = c" for c
    using assms(2) by (auto simp: flag_conflict_def with_cleanup_flag_def split: if_splits)
  have "run_configured sx fl j (rj_config j) (sx_environment sx (job_environment j) s) = (Inr (), s')"
    using assms(1,3) counts fl f by (auto simp: run_workload_def Let_def split: if_splits)
  then show ?thesis
    using f assms(2) unfolding run_configured_def w_def by (auto simp: then_do_Inr_iff)
qed

text \<open>
  C40: A \<open>--cleanup-only\<close> run of a flat configuration prepares its objects first and then deletes none of them:
  when it succeeds, the prepare phase has run, and of the names such a phase creates every one is there at the
  end exactly if it was there when the phase ended, unless a base URI ends in the name of a pool.
\<close>

theorem cleanup_only_keeps_prepared_objects:
  assumes delete_one: "\<And>u v t. v \<noteq> u \<Longrightarrow> present (snd (st_delete (sx_store sx) u t)) v = present t v"
    and finalize: "\<And>v t. present (snd (sx_finalize sx 0 t)) v = present t v"
    and run: "run_workload sx fl (Inr j) s = (Inr (), s')" "fl_cleanup_only fl" "\<not> fl_dry_run fl"
    and flat: "prepare (rj_config j) = Some p" "directory_structure p = None"
    and names: "list_all (\<lambda>e. segment (projr (get_base_uri e None)) \<notin> {''prepared'', ''deletable''}) (ensure_objects p)"
  shows "let (r, w) = prepare_step sx fl (rj_config j) (snd (before_prepare sx fl (rj_config j) (sx_environment sx (job_environment j) s)))
    in is_ok r \<and> list_all (\<lambda>x. present s' (po_uri x) = present w (po_uri x)) (generate_cleanup_objects p 0 1)"
proof -
  define rw where "rw = prepare_step sx fl (rj_config j) (snd (before_prepare sx fl (rj_config j) (sx_environment sx (job_environment j) s)))"
  have end1: "is_ok (fst rw)" "cleanup_only_run sx (rj_config j) (snd rw) = (Inr (), s')"
    using cleanup_only_run_ends [OF run flat] by (simp_all add: rw_def)
  obtain objs r w where objs: "cleanup_specs None (ensure_objects p) = Inr objs"
      and w: "cleanup_prepared_objects (sx_store sx) (sx_open sx) objs None 0 (cleanup_mode p) (snd rw) = (Inr r, w)"
      and s': "sx_finalize sx 0 w = (Inr (), s')"
    using end1(2) by (auto simp: cleanup_only_run_def flat cleanup_tree_def then_do_Inr_iff)
  have "present s' (po_uri x) = present (snd rw) (po_uri x)" if x: "x \<in> set (generate_cleanup_objects p 0 1)" for x
  proof -
    have "po_uri x \<notin> po_uri ` set objs"
    proof
      assume "po_uri x \<in> po_uri ` set objs"
      then obtain e b i where e: "e \<in> set (ensure_objects p)" "get_base_uri e None = Inr b" "po_uri x = join_key b (plain_key (segment b) i)"
        using cleanup_specs_uris [OF objs] by force
      obtain b' pfx k where "pfx \<in> {''prepared'', ''deletable''}" "po_uri x = join_key b' (flat_key (key_prefix_shards p) pfx k)"
        using generated_uris [OF x] by blast
      moreover have "segment b \<notin> {''prepared'', ''deletable''}" using names e by (auto simp: list_all_iff)
      ultimately show False using cleanup_names_differ [of b pfx] e(3) by metis
    qed
    then show ?thesis
      using cleanup_keeps [of present, OF delete_one, of "po_uri x" objs "sx_open sx" "cleanup_mode p" "snd rw"] w
        finalize [of w "po_uri x"] s' by simp
  qed
  then show ?thesis using end1(1) unfolding rw_def [symmetric] by (simp add: split_beta list_all_iff)
qed


lemma lenient_cleanup_returns:
  assumes "mode \<noteq> Strict" and "\<And>u. op u = Inr ()"
  shows "\<exists>r s'. cleanup_prepared_objects st op objs tree k mode s = (Inr r, s')"
proof (cases objs)
  case (Cons x xs)
  obtain rs w where d: "delete_all st mode objs s = (rs, w)" by force
  have rs: "rs = map2 (delete_verdict mode) (map po_uri objs) (raw_deletes st objs s)"
    using delete_all_raw [of st mode objs s] d by simp
  have "length (map po_uri objs) = length (raw_deletes st objs s)" by simp
  then obtain counts where "tally mode rs (0, 0, 0) = Inr counts"
    using tally_lenient [OF assms(1), of "map po_uri objs" "raw_deletes st objs s" 0 0 0] rs by blast
  then show ?thesis using d Cons assms(2) by (cases counts) (simp add: cleanup_prepared_objects_def del: delete_all.simps)
qed (simp add: cleanup_prepared_objects_def)

text \<open>A store that is the list of its objects, and a job with one flat specification.\<close>

definition no_files :: "'s fs_calls" where
  "no_files =
     \<lparr> fs_meta = (\<lambda>_ _. Inl NotFound), fs_entries = (\<lambda>_ _. Inl NotFound), fs_open = (\<lambda>_ _. Inl NotFound),
       fs_create = (\<lambda>_ s. (Inl NotFound, s)), fs_write = (\<lambda>_ _ s. (Inl NotFound, s)), fs_mkdir = (\<lambda>_ s. (Inl NotFound, s)),
       fs_remove = (\<lambda>_ s. (Inl NotFound, s)), fs_rmdir = (\<lambda>_ s. (Inl NotFound, s)), fs_space = (\<lambda>_ _. Inl NotFound),
       fs_mounts = None, fs_uid = 0, fs_gid = 0, fs_groups = [], fs_user = (\<lambda>_. None), fs_group = (\<lambda>_. None),
       fs_text = (\<lambda>_. ''not found'') \<rparr>"

definition sample_standalone :: "(unit, string list) standalone" where
  "sample_standalone =
     \<lparr> sx_max_endpoints = 32, sx_physical = 1, sx_display = (\<lambda>_. Inr ()), sx_environment = (\<lambda>_ s. s),
       sx_open_log = (\<lambda>_ s. (Inr (), s)), sx_close_log = (\<lambda>s. s), sx_merge = (\<lambda>_ _ s. (Inr (), s)),
       sx_results = (\<lambda>s. (Inr (), s)), sx_finalize = (\<lambda>_ s. (Inr (), s)), sx_summary = (\<lambda>s. s),
       sx_fs = no_files, sx_store = list_store, sx_open = (\<lambda>_. Inr ()), sx_sleep = (\<lambda>_ s. s),
       sx_prepare = (\<lambda>_ p s. (Inr (generate_cleanup_objects p 0 1, None), map po_uri (generate_cleanup_objects p 0 1) @ s)),
       sx_run = (\<lambda>_ _ _ s. (Inr (), s)), sx_wall = (\<lambda>_. 1), sx_export = (\<lambda>_ s. (Inr (), s)) \<rparr>"

definition sample_run_job :: RunJob where
  "sample_run_job =
     \<lparr> rj_config = (sample_config ''run'')\<lparr>target := Some ''s3://b/'', prepare := Some (plain_config [one_mib_spec 2])\<rparr>,
       rj_s3dlio = None, rj_processes = None, rj_mode = MultiRuntime \<rparr>"

definition no_flags :: run_flags where
  "no_flags =
     \<lparr> fl_dry_run = False, fl_prepare_only = False, fl_cleanup_only = False, fl_verify = False, fl_skip_prepare = False,
       fl_no_cleanup = False, fl_op_log = None \<rparr>"

lemma cleanup_only_keeps_prepared_objects_witness:
  "\<exists>s'. run_workload sample_standalone (no_flags\<lparr>fl_cleanup_only := True\<rparr>) (Inr sample_run_job) [] = (Inr (), s')
     \<and> ''s3://b/prepared-00000001.dat'' \<in> set s'"
proof -
  let ?sx = sample_standalone and ?fl = "no_flags\<lparr>fl_cleanup_only := True\<rparr>" and ?c = "rj_config sample_run_job"
    and ?p = "plain_config [one_mib_spec 2]"
  let ?made = "map po_uri (generate_cleanup_objects ?p 0 1)"
  have seg: "segment ''s3://b/'' = ''b''" by (simp add: segment_def trim_end_matches_def)
  have c: "prepare ?c = Some ?p" "target ?c = Some ''s3://b/''" "multi_endpoint ?c = None"
    by (simp_all add: sample_run_job_def sample_config_def)
  have p: "directory_structure ?p = None" "cleanup_mode ?p = Tolerant" "post_prepare_delay ?p = 0" by (simp_all add: plain_config_def)
  have sx: "sx_store ?sx = list_store" "sx_open ?sx u = Inr ()" "sx_finalize ?sx x t = (Inr (), t)" "sx_environment ?sx f t = t"
      "sx_results ?sx t = (Inr (), t)" "sx_prepare ?sx d q t = (Inr (generate_cleanup_objects q 0 1, None), map po_uri (generate_cleanup_objects q 0 1) @ t)"
      for u x f t d q by (simp_all add: sample_standalone_def)
  have before: "before_prepare ?sx ?fl ?c [] = (Inr (), [])"
    by (simp add: before_prepare_def check_target_def c sx no_flags_def fs_path_def strip_prefix_def starts_with_def)
  have prep: "prepare_step ?sx ?fl ?c [] = (Inr (generate_cleanup_objects ?p 0 1, None), ?made)"
    by (simp add: prepare_step_def c p sx no_flags_def)
  obtain objs where objs: "cleanup_specs None (ensure_objects ?p) = Inr objs" "objs \<noteq> []"
    by (simp add: cleanup_base_def cleanup_names_def)
  obtain r s' where cl: "cleanup_prepared_objects list_store (sx_open ?sx) objs None 0 Tolerant ?made = (Inr r, s')"
    using lenient_cleanup_returns [of Tolerant "sx_open ?sx" list_store objs None 0 ?made, OF _ sx(2)] by auto
  have fl: "flag_conflict ?fl = None" "with_cleanup_flag ?fl ?c = ?c" "fl_cleanup_only ?fl" "\<not> fl_dry_run ?fl" "\<not> fl_verify ?fl"
      "\<not> fl_prepare_only ?fl"
    by (simp_all add: flag_conflict_def with_cleanup_flag_def no_flags_def)
  have counts: "apply_directory_tree_counts ?c = Inr ?c" by (rule apply_counts_flat) (simp add: c p)
  have last: "cleanup_only_run ?sx ?c ?made = (Inr (), s')"
    by (simp only: cleanup_only_run_def c option.case cleanup_tree_def p simp_thms if_True objs then_do.simps sx cl)
  have run: "run_workload ?sx ?fl (Inr sample_run_job) [] = (Inr (), s')"
    using last by (simp add: run_workload_def c sx counts fl run_configured_def before prep)
  have names: "list_all (\<lambda>e. segment (projr (get_base_uri e None)) \<notin> {''prepared'', ''deletable''}) (ensure_objects ?p)"
    by (simp add: seg)
  have one: "(u \<in> set (snd (st_delete (sx_store ?sx) v t))) = (u \<in> set t)" if "u \<noteq> v" for u v t
    using that by (simp add: sx list_store_def)
  have "list_all (\<lambda>x. (po_uri x \<in> set s') = (po_uri x \<in> set ?made)) (generate_cleanup_objects ?p 0 1)"
    using cleanup_only_keeps_prepared_objects [of "\<lambda>t v. v \<in> set t" ?sx, OF one _ run fl(3,4) c(1) p(1) names]
    by (simp add: sx before prep)
  moreover have made: "''s3://b/prepared-00000001.dat'' \<in> set ?made" by code_simp
  ultimately have "''s3://b/prepared-00000001.dat'' \<in> set s'" by (auto simp: list_all_iff)
  then show ?thesis using run by blast
qed


end
