(* ===== verification/Spec2Isabelle.thy ===== *)
theory Spec2Isabelle
  imports Stage_Converter Oplog_Merge Distributed_Run Directory_Tree Error_Handling Cleanup_Phase Rate_Controller Workload_Run Replay_Legacy Perf_Log Autotune Multi_Worker Stage_Execution Preflight_Gate Result_Files Standalone_Run
begin

text \<open>
  A verification library for sai3-bench, a benchmark for storage systems in Rust.

  \<^bold>\<open>The program.\<close> A user writes a YAML configuration. In a distributed run one controller
  (\<open>src/bin/controller.rs\<close>) sends it to several agents (\<open>src/bin/agent.rs\<close>) over control streams; each
  agent executes the stages of the configuration (prepare, execute, cleanup, custom, validation) and
  reports statistics, and after each stage it waits at a numbered barrier until the controller
  releases it. Prepare (\<open>src/prepare/\<close>) lists or creates the objects of the test, in flat names or in
  a generated directory tree (\<open>src/directory_tree.rs\<close>), records them in a persistent cache
  (\<open>src/metadata_cache.rs\<close>) and survives failing operations by trackers and retries
  (\<open>src/workload.rs\<close>, \<open>src/prepare/error_tracking.rs\<close>, \<open>src/prepare/retry.rs\<close>). Cleanup
  (\<open>src/cleanup.rs\<close>) deletes them again. The operations are logged; the logs of several processes
  are merged and sorted (\<open>src/oplog_merge.rs\<close>), or read again and replayed against other stores
  (\<open>src/replay.rs\<close>, \<open>src/replay_streaming.rs\<close>) whose addresses come from remapping rules
  (\<open>src/remap.rs\<close>). While a test runs, live counters (\<open>src/live_stats.rs\<close>) are sampled into a
  performance log together with the load of the processor (\<open>src/perf_log.rs\<close>,
  \<open>src/cpu_monitor.rs\<close>).

  \<^bold>\<open>The theories\<close>, in the order in which they build on each other.

  \<^item> \<open>Prelude\<close>: generic lemmas on lists, options and maps, the functions of the Rust standard library
    on text that the source uses (splitting, trimming, searching, decimal numbers), floating-point
    casts on exact rationals. \<open>Interfaces\<close>: the locales of the library and their clients' lemmas:
    hash maps (association lists with distinct keys), guarded state machines (interpreted on the
    agent's and on the controller's machine), sharding of work over owners (interpreted on the tree,
    on the agents of prepare and on the endpoints).
  \<^item> \<open>Config\<close> (\<open>src/config.rs\<close>): the structures the other components read, URIs, per-agent prefixes,
    stages. Its lemmas: prefixes of different agents are disjoint, stage lists are accepted exactly
    when well formed. \<open>Stage_Converter\<close> (\<open>src/config_converter.rs\<close>): stages for old configurations.
  \<^item> \<open>Barrier\<close>, \<open>Aggregator\<close>, \<open>Controller\<close> (\<open>src/bin/controller.rs\<close>): the barrier manager with
    liveness, policies, numbered barriers and the wait loop; the live aggregation; the trackers of
    the agents and every message handler of the run. Their lemmas: an invariant of the manager
    preserved by every operation, what each release decision means, that waiting ends, that trackers
    follow the transition table in every run, what the final verdict says.
  \<^item> \<open>Oplog_Session\<close> (\<open>src/oplog_session.rs\<close>), \<open>Agent\<close> (\<open>src/bin/agent.rs\<close>): the op-log life cycle
    and the agent: its state machine, its commands, the stage workflow and the statistics writer as
    interleaved steps. \<open>Distributed_Run\<close>: manager and agents joined by messages in flight; its step
    relation interleaves freely, loses and delays messages and lets agents fail, and the synchrony
    of the stages is proved by rule induction over it.
  \<^item> \<open>Oplog_Merge\<close> (\<open>src/oplog_merge.rs\<close>): the k-way merge and the window sort, over a locale for the
    heap that is interpreted on the model of the source's heap.
  \<^item> \<open>Directory_Tree\<close> (\<open>src/directory_tree.rs\<close>): generation, manifest, the constant-time map from
    file numbers to paths with its reference definition, shares of the agents.
  \<^item> \<open>Error_Handling\<close>: the trackers (one locale, two interpretations), the retry loops, the deferred
    retries.
  \<^item> \<open>Metadata_Cache\<close>, \<open>Cache_Checkpoint\<close> (\<open>src/metadata_cache.rs\<close>): the cache as a refinement of an
    abstract map from file numbers to entries, its typing invariant, listing coverage; checkpoints.
  \<^item> \<open>Object_Listing\<close> (\<open>src/prepare/listing.rs\<close>), \<open>Size_Generator\<close> (\<open>src/size_generator.rs\<close>),
    \<open>Prepare_Phase\<close> (\<open>src/prepare/sequential.rs\<close>, \<open>parallel.rs\<close>, \<open>mod.rs\<close>), \<open>Cleanup_Phase\<close>
    (\<open>src/cleanup.rs\<close>, \<open>src/prepare/cleanup.rs\<close>): both strategies of prepare from the configuration
    to the report, and the deletion of what prepare made. Their lemmas: the agents together create
    what one agent would, when a prepare returns and when it hangs, what a cleanup reports.

  \<^item> \<open>Rate_Controller\<close> (\<open>src/rate_controller.rs\<close>), \<open>Path_Selection\<close>
    (\<open>src/prepare/directory_tree.rs\<close>), \<open>Workload_Targets\<close>, \<open>Workload_Run\<close> (\<open>src/workload.rs\<close>,
    \<open>src/metrics.rs\<close>): the execution of a workload. The interval of a limiter and the instants it
    lets operations start, the choice of files and directories in a tree, the resolution of globs to
    objects, the stores a run opens, the handlers of the seven operations, the interleaving of the
    workers on what they share, and the summary. Their lemmas: which files a worker can select,
    what a glob stands for, that the totals, the size bins and the live counters of a finished run
    agree under every interleaving.

  \<^item> \<open>Remap\<close> (\<open>src/remap.rs\<close>), \<open>Replay\<close> (\<open>src/replay_streaming.rs\<close>), \<open>Replay_Legacy\<close>
    (\<open>src/replay.rs\<close>): the rules that give a replayed operation its store, the streaming replay with
    its timeline, its bounded set of tasks and its backpressure, the older replay of a whole log.
    Their lemmas: remapping against its specification, every row of a log is counted once, when an
    operation is started, which histories of mode changes flag a replay.
  \<^item> \<open>Live_Stats\<close> (\<open>src/live_stats.rs\<close>), \<open>Perf_Log\<close> (\<open>src/perf_log.rs\<close>, \<open>src/cpu_monitor.rs\<close>): the
    counters of an agent and their snapshots, the rows of the performance log, the shares of
    processor time. Their lemmas: the deltas of a log add up to its counters, shares are percentages.

  \<^item> \<open>Multi_Worker\<close> (\<open>src/multiprocess.rs\<close>, \<open>src/multiruntime.rs\<close>): several processes or runtimes for one
    workload and the merge of their summaries. \<open>Result_Tables\<close> (\<open>src/tsv_export.rs\<close>,
    \<open>src/bin/controller.rs\<close>): the tables of one run and the consolidated tables of a distributed one.
    \<open>Stage_Execution\<close> (\<open>src/bin/agent.rs\<close>): the body of each kind of stage and what it reports.
    \<open>Result_Files\<close> (\<open>src/results_dir.rs\<close>, \<open>src/bin/controller.rs\<close>): the results directory, what is printed
    and logged, and the end of a distributed run. Their lemmas: which counts a merge keeps, the consolidated
    table is the table of the merged run, what reaches the console log.
  \<^item> \<open>Size_Text\<close>, \<open>Utility_Commands\<close> and \<open>Autotune\<close> (\<open>src/size_parser.rs\<close>, \<open>src/main.rs\<close>,
    \<open>src/bin/controller.rs\<close>): sizes as text, the put, get, list and delete commands, and the sweep that looks
    for the best settings, in one process or over agents. Its lemma: no measured case beats the chosen one.
  \<^item> \<open>Preflight\<close> (\<open>src/preflight/\<close>), \<open>Preflight_Gate\<close> (\<open>src/preflight/distributed.rs\<close>, both binaries): the tests
    of directories and buckets before a run, the environment an agent sets up, the rules of a distributed
    configuration and the gate of the controller. Their lemmas: a passed test leaves no trace, when the gate
    opens, which variables an agent keeps.
  \<^item> \<open>Standalone_Run\<close> (\<open>src/validation.rs\<close>, \<open>run_workload\<close> of \<open>src/main.rs\<close>): the counts of a tree in a
    configuration, the flags and phases of a run of one process, the objects of \<open>--cleanup-only\<close>. Its lemmas:
    the counts are those of the tree that is built, which runs delete, what \<open>--cleanup-only\<close> leaves.

  \<^bold>\<open>Conventions.\<close> A struct is a record, an enum a datatype, with the source's names (prefixed where two
  would clash). An error is the left value of a sum or \<open>None\<close>; a panic and a hang are \<open>None\<close>, as each
  theory says. The clock, random numbers, the answers of stores and peers, the database, the
  encodings and the URL parser are arguments, with what the code relies on as named hypotheses
  (\<open>fjall_ok\<close>, \<open>codec_ok\<close>, \<open>uniform_ok\<close> and the laws of the heap); every property that has one has a
  witness with a concrete function. Floating point is exact rationals; \<open>usize\<close> and \<open>u64\<close> are
  unbounded where the source cannot come near their limits, and each theory says where it keeps a
  width. Work that runs concurrently is interleaved where its order matters (barriers, the stage
  workflow and its writer) and else taken in the order in which it was started.

  \<^bold>\<open>Fuel.\<close> Loops that end are recursive functions with a measure. The wait at a barrier is recursive in
  the list of clock readings and is proved to return when a reading passes the timeout; the
  log-normal sampler is bounded by the source itself; no other fuel is used.

  \<^bold>\<open>Not modelled.\<close> Generated protocol code, the parsing of the command line, the console output of a dry run
  and of a standalone run, progress bars, process and SSH start, the data generators, the prefetch of metadata,
  cloud metadata services, the analysis of result files, the reading of processor counters and runtime set-up:
  they are I/O or calls into libraries. The manifest lists every such part with its reason.
\<close>

end
